(* ===== verification/Shuso_Prelude.thy ===== *)
theory Shuso_Prelude
  imports Main "HOL-Library.Word" "HOL-Library.Monad_Syntax"
begin

text \<open>
  Shared vocabulary of the development: outcomes of C code that may abort, C integer
  conversions and byte ranges of memory.
\<close>

section \<open>Names of types\<close>

text \<open>An address or an opaque \<^verbatim>\<open>void *\<close>; the null pointer is 0.\<close>

type_synonym addr = nat

text \<open>A byte range of memory: start and length.\<close>

type_synonym block = "nat \<times> nat"

text \<open>
  \<open>Done\<close> is a normal return; \<open>Abort\<close> is a failed \<^verbatim>\<open>assert\<close>, an \<^verbatim>\<open>abort()\<close>, a
  \<^verbatim>\<open>raise(SIGABRT)\<close> or a call through a null function pointer.
\<close>

datatype 'a run = Done 'a | Abort

fun run_bind :: "'a run \<Rightarrow> ('a \<Rightarrow> 'b run) \<Rightarrow> 'b run" where
  "run_bind (Done x) f = f x"
| "run_bind Abort f = Abort"

definition c_assert :: "bool \<Rightarrow> 'a run \<Rightarrow> 'a run" where
  "c_assert b k = (if b then k else Abort)"

lemma run_bind_Done_iff: "run_bind m f = Done y \<longleftrightarrow> (\<exists>x. m = Done x \<and> f x = Done y)"
  by (cases m) auto

lemma c_assert_simps [simp]:
  "c_assert True k = k"
  "c_assert False k = Abort"
  by (simp_all add: c_assert_def)

lemma c_assert_Done_iff: "c_assert b k = Done y \<longleftrightarrow> b \<and> k = Done y"
  by (simp add: c_assert_def)

lemma c_assert_cong [fundef_cong]:
  "b = b' \<Longrightarrow> (b' \<Longrightarrow> k = k') \<Longrightarrow> c_assert b k = c_assert b' k'"
  by (simp add: c_assert_def)

section \<open>Integer conversions of C\<close>

text \<open>\<^verbatim>\<open>(uint8_t) i\<close> for a signed 64-bit index, used as an array index.\<close>

definition uint8_of :: "int \<Rightarrow> nat" where
  "uint8_of i = nat (i mod 256)"

lemma uint8_of_less [simp]: "uint8_of i < 256"
  by (simp add: uint8_of_def nat_less_iff)

lemma uint8_of_eq_iff: "uint8_of i = uint8_of j \<longleftrightarrow> i mod 256 = j mod 256"
  by (simp add: uint8_of_def eq_nat_nat_iff)

lemma uint8_of_inj_window:
  assumes "uint8_of i = uint8_of j" and "\<bar>i - j\<bar> < 256"
  shows "i = j"
proof -
  from assms(1) have "256 dvd i - j"
    by (simp add: uint8_of_eq_iff mod_eq_dvd_iff)
  with assms(2) show ?thesis
    using zdvd_not_zless [of "i - j" 256] zdvd_not_zless [of "j - i" 256]
    by (cases "i = j"; cases "i < j") (auto simp: dvd_diff_commute)
qed

text \<open>\<^verbatim>\<open>(ssize_t) n\<close> of a 64-bit \<^verbatim>\<open>size_t\<close>.\<close>

definition ssize_of :: "nat \<Rightarrow> int" where
  "ssize_of n = (if n < 2 ^ 63 then int n else int n - 2 ^ 64)"

lemma ssize_of_small: "n < 2 ^ 63 \<Longrightarrow> ssize_of n = int n"
  by (simp add: ssize_of_def)

section \<open>Disjoint blocks\<close>

definition block_disjoint :: "block \<Rightarrow> block \<Rightarrow> bool" where
  "block_disjoint b c \<longleftrightarrow> fst b + snd b \<le> fst c \<or> fst c + snd c \<le> fst b"

definition block_within :: "block \<Rightarrow> block \<Rightarrow> bool" where
  "block_within b c \<longleftrightarrow> fst c \<le> fst b \<and> fst b + snd b \<le> fst c + snd c"

lemma block_disjoint_sym: "block_disjoint b c \<Longrightarrow> block_disjoint c b"
  by (auto simp: block_disjoint_def)

lemma block_within_trans: "block_within a b \<Longrightarrow> block_within b c \<Longrightarrow> block_within a c"
  by (auto simp: block_within_def)

lemma block_within_refl [simp]: "block_within b b"
  by (simp add: block_within_def)

text \<open>Blocks that do not overlap, as a list property that survives filtering.\<close>

abbreviation disjoint_blocks :: "block list \<Rightarrow> bool" where
  "disjoint_blocks \<equiv> sorted_wrt block_disjoint"

lemma disjoint_blocksD:
  "disjoint_blocks bs \<Longrightarrow> b \<in> set bs \<Longrightarrow> c \<in> set bs \<Longrightarrow> b \<noteq> c \<Longrightarrow> block_disjoint b c"
  by (induction bs) (auto intro: block_disjoint_sym)

lemma block_within_disjoint2:
  "block_within a b \<Longrightarrow> block_within c d \<Longrightarrow> block_disjoint b d \<Longrightarrow> block_disjoint a c"
  by (auto simp: block_within_def block_disjoint_def)

lemma block_within_disjoint:
  "block_within a b \<Longrightarrow> block_disjoint b c \<Longrightarrow> block_disjoint a c"
  by (auto simp: block_within_def block_disjoint_def)

section \<open>Searching a range\<close>

lemma find_upt_Some:
  assumes "find P [a..<b] = Some k"
  shows "a \<le> k" "k < b" "P k" "\<forall>j \<in> {a..<k}. \<not> P j"
proof -
  from assms obtain i where i: "i < length [a..<b]" "P ([a..<b] ! i)" "k = [a..<b] ! i"
    "\<forall>j < i. \<not> P ([a..<b] ! j)"
    by (auto simp: find_Some_iff)
  then have k: "k = a + i" by simp
  show "a \<le> k" "k < b" "P k" using i k by auto
  show "\<forall>j \<in> {a..<k}. \<not> P j"
  proof
    fix j assume j: "j \<in> {a..<k}"
    then have "\<not> P ([a..<b] ! (j - a))" using i(4) k by auto
    moreover have "[a..<b] ! (j - a) = j" using j k i(1) by (subst nth_upt) auto
    ultimately show "\<not> P j" by simp
  qed
qed

section \<open>Linked chains\<close>

text \<open>
  \<open>chain nxt a xs\<close>: following \<open>nxt\<close> from \<open>a\<close> visits exactly the nodes \<open>xs\<close> and ends at the
  null pointer.
\<close>

primrec chain :: "(addr \<Rightarrow> addr) \<Rightarrow> addr \<Rightarrow> addr list \<Rightarrow> bool" where
  "chain nxt a [] \<longleftrightarrow> a = 0"
| "chain nxt a (x # xs) \<longleftrightarrow> a = x \<and> x \<noteq> 0 \<and> chain nxt (nxt x) xs"

lemma chain_null [simp]: "chain nxt 0 xs \<longleftrightarrow> xs = []"
  by (cases xs) auto

lemma chain_cong: "(\<And>x. x \<in> set xs \<Longrightarrow> nxt x = nxt' x) \<Longrightarrow> chain nxt a xs = chain nxt' a xs"
  by (induction xs arbitrary: a) auto

lemma chain_nonnull: "chain nxt a xs \<Longrightarrow> 0 \<notin> set xs"
  by (induction xs arbitrary: a) auto

lemma chain_last: "chain nxt a xs \<Longrightarrow> xs \<noteq> [] \<Longrightarrow> nxt (last xs) = 0"
  by (induction xs arbitrary: a) auto

lemma chain_snoc:
  assumes "chain nxt a xs" and "xs \<noteq> []" and "distinct xs" and "b \<notin> set xs" and "b \<noteq> 0"
    and "nxt' (last xs) = b" and "nxt' b = 0"
    and "\<And>x. x \<in> set xs \<Longrightarrow> x \<noteq> last xs \<Longrightarrow> nxt' x = nxt x"
  shows "chain nxt' a (xs @ [b])"
  using assms
proof (induction xs arbitrary: a)
  case (Cons x xs)
  show ?case
  proof (cases "xs = []")
    case True
    then show ?thesis using Cons.prems by auto
  next
    case False
    then have "x \<noteq> last (x # xs)" using Cons.prems(3) last_in_set [OF False] by auto
    then have "nxt' x = nxt x" using Cons.prems(8) [of x] by simp
    then show ?thesis using Cons.IH [of "nxt x"] Cons.prems False by auto
  qed
qed simp

section \<open>Decimal numbers\<close>

text \<open>The conversion \<^verbatim>\<open>%d\<close>.\<close>

fun decimal_nat :: "nat \<Rightarrow> string" where
  "decimal_nat n =
     (if n < 10 then [char_of (48 + n)] else decimal_nat (n div 10) @ [char_of (48 + n mod 10)])"

declare decimal_nat.simps [simp del]

definition decimal :: "int \<Rightarrow> string" where
  "decimal i = (if i < 0 then CHR ''-'' # decimal_nat (nat (- i)) else decimal_nat (nat i))"

lemma length_decimal_nat: "n < 10 ^ k \<Longrightarrow> 0 < k \<Longrightarrow> length (decimal_nat n) \<le> k"
proof (induction n arbitrary: k rule: decimal_nat.induct)
  case (1 n)
  show ?case
  proof (cases "n < 10")
    case True
    then show ?thesis using 1(3) by (subst decimal_nat.simps) simp
  next
    case False
    then obtain j where j: "k = Suc j" "0 < j"
      using 1(2,3) by (cases k; cases "k - 1") auto
    have "n div 10 < 10 ^ j" using 1(2) by (simp add: j less_mult_imp_div_less mult.commute)
    then show ?thesis using 1(1) [OF False _ j(2)] False by (subst decimal_nat.simps) (simp add: j)
  qed
qed

end
