(* ===== verification/Shuso_Interfaces.thy ===== *)
theory Shuso_Interfaces
  imports Shuso_Prelude
begin

text \<open>
  The contracts between the components, as locales: transition systems with an inductive
  invariant, bounded channels that refuse messages when they are full, FIFO queues and
  memory allocators.  Each is interpreted on the model of the code that provides it.
\<close>

section \<open>Transition systems\<close>

text \<open>
  An inductive invariant of a step relation. Providers discharge the two laws for
  their own steps; clients use that every reachable state satisfies the invariant.
\<close>

locale invariant_system =
  fixes initial :: "'s \<Rightarrow> bool"
    and step :: "'s \<Rightarrow> 's \<Rightarrow> bool"
    and invar :: "'s \<Rightarrow> bool"
  assumes invar_initial: "initial s \<Longrightarrow> invar s"
    and invar_step: "invar s \<Longrightarrow> step s t \<Longrightarrow> invar t"
begin

lemma invar_steps: "step\<^sup>*\<^sup>* s t \<Longrightarrow> invar s \<Longrightarrow> invar t"
  by (induction rule: rtranclp_induct) (auto intro: invar_step)

lemma invar_reachable: "initial s \<Longrightarrow> step\<^sup>*\<^sup>* s t \<Longrightarrow> invar t"
  by (blast intro: invar_steps invar_initial)

end

section \<open>Bounded channels\<close>

text \<open>
  A channel accepts messages in order until it holds \<open>cap\<close> of them, then refuses every
  further message until it is drained.
\<close>

locale bounded_channel =
  fixes put :: "'q \<Rightarrow> 'm \<Rightarrow> bool \<times> 'q"
    and contents :: "'q \<Rightarrow> 'm list"
    and blocked :: "'q \<Rightarrow> bool"
    and invar :: "'q \<Rightarrow> bool"
    and valid :: "'m \<Rightarrow> bool"
    and cap :: nat
  assumes put_room: "invar q \<Longrightarrow> valid m \<Longrightarrow> \<not> blocked q \<Longrightarrow> length (contents q) < cap \<Longrightarrow>
      fst (put q m) \<and> contents (snd (put q m)) = contents q @ [m] \<and>
      invar (snd (put q m)) \<and> \<not> blocked (snd (put q m))"
    and put_full: "invar q \<Longrightarrow> blocked q \<or> length (contents q) = cap \<Longrightarrow>
      \<not> fst (put q m) \<and> contents (snd (put q m)) = contents q \<and>
      invar (snd (put q m)) \<and> blocked (snd (put q m))"
    and contents_cap: "invar q \<Longrightarrow> length (contents q) \<le> cap"
begin

lemma fold_put_blocked:
  "invar q \<Longrightarrow> blocked q \<Longrightarrow>
   contents (fold (\<lambda>m q. snd (put q m)) ms q) = contents q \<and>
   invar (fold (\<lambda>m q. snd (put q m)) ms q)"
  by (induction ms arbitrary: q) (use put_full in auto)

lemma fold_put:
  assumes "invar q" and "\<not> blocked q" and "\<forall>m \<in> set ms. valid m"
  shows "contents (fold (\<lambda>m q. snd (put q m)) ms q) =
           contents q @ take (cap - length (contents q)) ms \<and>
         invar (fold (\<lambda>m q. snd (put q m)) ms q)"
  using assms
proof (induction ms arbitrary: q)
  case Nil
  then show ?case by simp
next
  case (Cons m ms)
  show ?case
  proof (cases "length (contents q) < cap")
    case True
    have step: "contents (snd (put q m)) = contents q @ [m]" "invar (snd (put q m))"
      "\<not> blocked (snd (put q m))"
      using put_room [of q m] Cons.prems True by auto
    have "cap - length (contents q) = Suc (cap - length (contents (snd (put q m))))"
      using True step(1) by simp
    then show ?thesis using Cons.IH [of "snd (put q m)"] Cons.prems step by simp
  next
    case False
    then have full: "length (contents q) = cap" using contents_cap Cons.prems(1) by fastforce
    then have "contents (snd (put q m)) = contents q" "invar (snd (put q m))"
      "blocked (snd (put q m))"
      using put_full [of q m] Cons.prems by auto
    then show ?thesis using fold_put_blocked [of "snd (put q m)" ms] full by simp
  qed
qed

end

section \<open>Allocators\<close>

text \<open>Serve a list of requests, collecting the blocks handed out (0 is a refusal).\<close>

primrec alloc_all ::
  "('s \<Rightarrow> 'r \<Rightarrow> (addr \<times> 's) run) \<Rightarrow> ('r \<Rightarrow> nat) \<Rightarrow> 'r list \<Rightarrow> 's \<times> block list \<Rightarrow> ('s \<times> block list) run"
where
  "alloc_all al sz [] x = Done x"
| "alloc_all al sz (r # rs) x =
     run_bind (al (fst x) r)
       (\<lambda>(a, s). alloc_all al sz rs (s, if a = 0 then snd x else (a, sz r) # snd x))"

text \<open>
  An allocator never aborts on a valid request and hands out a block that does not
  overlap any block handed out before; the invariant relates its state to those blocks.
\<close>

locale allocator =
  fixes alloc :: "'s \<Rightarrow> 'r \<Rightarrow> (addr \<times> 's) run"
    and req_size :: "'r \<Rightarrow> nat"
    and valid :: "'r \<Rightarrow> bool"
    and invar :: "'s \<Rightarrow> block list \<Rightarrow> bool"
  assumes alloc_ok: "invar s bs \<Longrightarrow> valid r \<Longrightarrow>
      \<exists>a t. alloc s r = Done (a, t) \<and> invar t (if a = 0 then bs else (a, req_size r) # bs)"
    and invar_disjoint: "invar s bs \<Longrightarrow> disjoint_blocks bs"
begin

lemma alloc_all_invar:
  assumes "invar s bs" and "\<forall>r \<in> set rs. valid r"
  shows "\<exists>t cs. alloc_all alloc req_size rs (s, bs) = Done (t, cs @ bs) \<and> invar t (cs @ bs)"
  using assms
proof (induction rs arbitrary: s bs)
  case Nil
  then show ?case by auto
next
  case (Cons r rs)
  obtain a t where a: "alloc s r = Done (a, t)" "invar t (if a = 0 then bs else (a, req_size r) # bs)"
    using alloc_ok Cons.prems by fastforce
  show ?case
  proof (cases "a = 0")
    case True
    then show ?thesis using Cons.IH [of t bs] Cons.prems(2) a by auto
  next
    case False
    then obtain t' cs where "alloc_all alloc req_size rs (t, (a, req_size r) # bs) =
        Done (t', cs @ (a, req_size r) # bs) \<and> invar t' (cs @ (a, req_size r) # bs)"
      using Cons.IH [of t "(a, req_size r) # bs"] Cons.prems(2) a(2) by auto
    then show ?thesis using a(1) False by (intro exI [of _ t'] exI [of _ "cs @ [(a, req_size r)]"]) simp
  qed
qed

lemma alloc_all_disjoint:
  "invar s bs \<Longrightarrow> \<forall>r \<in> set rs. valid r \<Longrightarrow>
   \<exists>t cs. alloc_all alloc req_size rs (s, bs) = Done (t, cs @ bs) \<and> disjoint_blocks (cs @ bs)"
  using alloc_all_invar invar_disjoint by blast

end

section \<open>FIFO queues\<close>

datatype 'x queue_op = Enq 'x | Deq

fun enqueued :: "'x queue_op list \<Rightarrow> 'x list" where
  "enqueued [] = []"
| "enqueued (Enq x # ops) = x # enqueued ops"
| "enqueued (Deq # ops) = enqueued ops"

text \<open>Run a list of operations, collecting what comes out.\<close>

fun run_queue ::
  "('x \<Rightarrow> 'q \<Rightarrow> 'q) \<Rightarrow> ('q \<Rightarrow> 'x option \<times> 'q) \<Rightarrow> 'x queue_op list \<Rightarrow> 'q \<Rightarrow> 'x list \<times> 'q"
where
  "run_queue enq deq [] q = ([], q)"
| "run_queue enq deq (Enq x # ops) q = run_queue enq deq ops (enq x q)"
| "run_queue enq deq (Deq # ops) q =
     (let (r, q) = deq q; (out, q) = run_queue enq deq ops q
      in (case r of None \<Rightarrow> out | Some x \<Rightarrow> x # out, q))"

text \<open>
  A queue of elements that may be enqueued while they are ready, which holds of elements
  that were never in the queue and is not touched by the queue before they enter it.
\<close>

locale fifo_queue =
  fixes enq :: "'x \<Rightarrow> 'q \<Rightarrow> 'q"
    and deq :: "'q \<Rightarrow> 'x option \<times> 'q"
    and rep :: "'q \<Rightarrow> 'x list \<Rightarrow> bool"
    and ready :: "'q \<Rightarrow> 'x \<Rightarrow> bool"
  assumes enq_rep: "rep q xs \<Longrightarrow> ready q x \<Longrightarrow> x \<notin> set xs \<Longrightarrow> rep (enq x q) (xs @ [x])"
    and deq_nil: "rep q [] \<Longrightarrow> deq q = (None, q)"
    and deq_cons: "rep q (x # xs) \<Longrightarrow> fst (deq q) = Some x \<and> rep (snd (deq q)) xs"
    and ready_enq: "rep q xs \<Longrightarrow> y \<notin> set xs \<Longrightarrow> ready q y \<Longrightarrow> ready (enq x q) y"
    and ready_deq: "ready q y \<Longrightarrow> ready (snd (deq q)) y"
begin

lemma run_queue_fifo:
  assumes "rep q xs" and "distinct (xs @ enqueued ops)" and "\<forall>x \<in> set (enqueued ops). ready q x"
  shows "\<exists>ys. rep (snd (run_queue enq deq ops q)) ys \<and>
    fst (run_queue enq deq ops q) @ ys = xs @ enqueued ops"
  using assms
proof (induction ops arbitrary: q xs rule: enqueued.induct)
  case 1
  then show ?case by auto
next
  case (2 x ops)
  have "rep (enq x q) (xs @ [x])" using 2(2,3,4) by (intro enq_rep) auto
  moreover have "\<forall>y \<in> set (enqueued ops). ready (enq x q) y"
    using 2(2,3,4) by (auto intro!: ready_enq)
  ultimately show ?case using 2(1) [of "enq x q" "xs @ [x]"] 2(3) by auto
next
  case (3 ops)
  have r: "\<forall>x \<in> set (enqueued ops). ready (snd (deq q)) x" using 3(4) ready_deq by auto
  show ?case
  proof (cases xs)
    case Nil
    then have "deq q = (None, q)" using 3(2) deq_nil by simp
    then show ?thesis using 3(1) [of q "[]"] 3(2-4) Nil by (simp add: case_prod_beta)
  next
    case (Cons x xs')
    then have d: "fst (deq q) = Some x" "rep (snd (deq q)) xs'" using 3(2) deq_cons by auto
    obtain ys where "rep (snd (run_queue enq deq ops (snd (deq q)))) ys"
      "fst (run_queue enq deq ops (snd (deq q))) @ ys = xs' @ enqueued ops"
      using 3(1) [OF d(2) _ r] 3(3) Cons by auto
    then show ?thesis using d(1) Cons by (intro exI [of _ ys]) (simp add: case_prod_beta)
  qed
qed

end

end
