(* ===== verification/IPC_Ring.thy ===== *)
theory IPC_Ring
  imports Shuso_Interfaces
begin

text \<open>
  The per-process ring buffer of IPC messages: \<^verbatim>\<open>shuso_ipc_ringbuf_t\<close> of
  \<^verbatim>\<open>include/shuttlesock/ipc.h\<close> and \<^verbatim>\<open>ipc_reserve_write_index\<close>,
  \<^verbatim>\<open>ipc_release_write_index\<close>, \<^verbatim>\<open>ipc_send_direct\<close> and \<^verbatim>\<open>ipc_receive\<close> of \<^verbatim>\<open>ipc.c\<close>.
  The first half runs each operation to its end (one process at a time) and relates
  the ring to a bounded FIFO queue.  The second half (theory \<open>IPC_Ring_Conc\<close>)
  interleaves the atomic accesses of many writers and the reader.
\<close>

section \<open>State\<close>

text \<open>
  The three indices are 64-bit counters that only ever grow by one per message, so they
  are kept as integers; the array index is the counter truncated to 8 bits
  (\<open>uint8_of\<close>), which is where wrap-around matters.  A code of 0 is
  \<^verbatim>\<open>SHUTTLESOCK_IPC_CMD_NIL\<close>, an empty slot.
\<close>

record ringbuf =
  next_read :: int
  next_write_reserve :: int
  next_write_release :: int
  ring_full :: bool
  ring_code :: "nat \<Rightarrow> 8 word"
  ring_ptr :: "nat \<Rightarrow> addr"

type_synonym ipc_msg = "8 word \<times> addr"

definition ringbuf_init :: ringbuf where
  "ringbuf_init = \<lparr>next_read = 0, next_write_reserve = 0, next_write_release = 0,
     ring_full = False, ring_code = (\<lambda>_. 0), ring_ptr = (\<lambda>_. 0)\<rparr>"

section \<open>Operations\<close>

definition ipc_reserve_write_index :: "ringbuf \<Rightarrow> int option \<times> ringbuf" where
  "ipc_reserve_write_index dstbuf =
     (if ring_full dstbuf then (None, dstbuf)
      else
        let nxt = next_write_reserve dstbuf;
            dstbuf = dstbuf\<lparr>next_write_reserve := nxt + 1\<rparr>;
            rd = next_read dstbuf
        in if ring_full dstbuf then (None, dstbuf)
           else if nxt - rd > 255 then (None, dstbuf\<lparr>ring_full := True\<rparr>)
           else (Some nxt, dstbuf))"

definition ipc_release_write_index :: "ringbuf \<Rightarrow> ringbuf" where
  "ipc_release_write_index dstbuf =
     dstbuf\<lparr>next_write_release := next_write_release dstbuf + 1\<rparr>"

text \<open>
  The ring part of \<^verbatim>\<open>ipc_send_direct\<close>; the notification that follows a successful
  write is the caller's \<open>ipc_send_direct\<close> of theory \<open>IPC\<close>.
\<close>

definition ring_send_direct :: "ringbuf \<Rightarrow> 8 word \<Rightarrow> addr \<Rightarrow> (bool \<times> ringbuf) run" where
  "ring_send_direct buf c p =
     (case ipc_reserve_write_index buf of
        (None, buf') \<Rightarrow> Done (False, buf')
      | (Some idx, buf') \<Rightarrow>
          c_assert (idx \<ge> 0)
            (let i = uint8_of idx;
                 buf1 = buf'\<lparr>ring_ptr := (ring_ptr buf')(i := p)\<rparr>;
                 buf2 = buf1\<lparr>ring_code := (ring_code buf1)(i := c)\<rparr>
             in Done (True, ipc_release_write_index buf2)))"

text \<open>
  A handler table entry is the \<^verbatim>\<open>receive\<close> function pointer, \<open>None\<close> for NULL.  A handler
  may change the ring (a process can send to itself) and the rest \<open>'w\<close> of the world.
\<close>

type_synonym 'w ring_handler = "8 word \<Rightarrow> addr \<Rightarrow> ringbuf \<times> 'w \<Rightarrow> ringbuf \<times> 'w"

text \<open>
  The loop of \<^verbatim>\<open>ipc_receive\<close>.  A slot that is released but still holds the nil code is
  tried again at once, so the loop may not end: \<open>None\<close> is "does not return".
\<close>

partial_function (option) ipc_receive_loop ::
  "(8 word \<Rightarrow> 'w ring_handler option) \<Rightarrow> int \<Rightarrow> ringbuf \<times> 'w \<Rightarrow> (ringbuf \<times> 'w) run option"
where
  "ipc_receive_loop handlers read_index s =
     (let inb = fst s in
      if read_index < next_write_release inb then
        (let i = uint8_of read_index; c = ring_code inb i; p = ring_ptr inb i in
         if c = 0 then ipc_receive_loop handlers read_index s
         else
           (case handlers c of
              None \<Rightarrow> Some Abort
            | Some receive \<Rightarrow>
                ipc_receive_loop handlers (read_index + 1)
                  (receive c p
                    (inb\<lparr>ring_code := (ring_code inb)(i := 0),
                         next_read := next_read inb + 1\<rparr>, snd s))))
      else Some (Done s))"

definition ipc_receive ::
  "(8 word \<Rightarrow> 'w ring_handler option) \<Rightarrow> ringbuf \<times> 'w \<Rightarrow> (bool \<times> ringbuf \<times> 'w) run option"
where
  "ipc_receive handlers s =
     (let read_index = next_read (fst s) in
      if read_index \<ge> 0 then
        (case ipc_receive_loop handlers read_index s of
           None \<Rightarrow> None
         | Some Abort \<Rightarrow> Some Abort
         | Some (Done (inb, w)) \<Rightarrow>
             Some
               (if ring_full inb then
                  (let inb1 = inb\<lparr>next_write_reserve := next_read inb\<rparr> in
                   c_assert (next_write_reserve inb1 = next_write_release inb1)
                     (Done (True, inb1\<lparr>ring_full := False\<rparr>, w)))
                else Done (True, inb, w)))
      else Some Abort)"

section \<open>Abstraction to a FIFO queue\<close>

definition ring_at :: "ringbuf \<Rightarrow> int \<Rightarrow> ipc_msg" where
  "ring_at r i = (ring_code r (uint8_of i), ring_ptr r (uint8_of i))"

definition ring_count :: "ringbuf \<Rightarrow> nat" where
  "ring_count r = nat (next_write_release r - next_read r)"

definition ring_list :: "ringbuf \<Rightarrow> ipc_msg list" where
  "ring_list r = map (\<lambda>k. ring_at r (next_read r + int k)) [0..<ring_count r]"

text \<open>
  Between operations: the released messages are the window \<open>[next_read, next_write_release)\<close>
  of at most 256 indices, their slots hold non-nil codes, every other slot is nil, and
  the reservation counter is the release counter, or one more after a failed reservation
  has raised \<open>ring_full\<close>.
\<close>

definition ring_inv :: "ringbuf \<Rightarrow> bool" where
  "ring_inv r \<longleftrightarrow>
     0 \<le> next_read r \<and> next_read r \<le> next_write_release r \<and>
     next_write_release r \<le> next_read r + 256 \<and>
     next_write_reserve r = next_write_release r + (if ring_full r then 1 else 0) \<and>
     (\<forall>k < 256. ring_code r (uint8_of (next_read r + int k)) = 0 \<longleftrightarrow> ring_count r \<le> k)"

lemma length_ring_list [simp]: "length (ring_list r) = ring_count r"
  by (simp add: ring_list_def)

lemma ring_count_init [simp]: "ring_count ringbuf_init = 0"
  by (simp add: ring_count_def ringbuf_init_def)

lemma ring_inv_count: "ring_inv r \<Longrightarrow> ring_count r \<le> 256"
  by (auto simp: ring_inv_def ring_count_def)

lemma ring_inv_release:
  "ring_inv r \<Longrightarrow> next_write_release r = next_read r + int (ring_count r)"
  by (auto simp: ring_inv_def ring_count_def)

lemma ring_inv_init: "ring_inv ringbuf_init"
  by (simp add: ring_inv_def ringbuf_init_def ring_count_def)

lemma ring_list_init: "ring_list ringbuf_init = []"
  by (simp add: ring_list_def ringbuf_init_def ring_count_def)

lemma uint8_window:
  assumes "k < 256" and "l < 256" and "uint8_of (n + int k) = uint8_of (n + int l)"
  shows "k = l"
  using uint8_of_inj_window [OF assms(3)] assms(1,2) by simp

section \<open>Sending\<close>

text \<open>The ring after a message is written at the reserved index.\<close>

definition ring_written :: "ringbuf \<Rightarrow> 8 word \<Rightarrow> addr \<Rightarrow> ringbuf" where
  "ring_written r c p =
     r\<lparr>next_write_reserve := next_write_reserve r + 1,
       ring_ptr := (ring_ptr r)(uint8_of (next_write_reserve r) := p),
       ring_code := (ring_code r)(uint8_of (next_write_reserve r) := c),
       next_write_release := next_write_release r + 1\<rparr>"

lemma ring_send_direct_room:
  assumes "ring_inv r" and "\<not> ring_full r" and "ring_count r < 256"
  shows "ring_send_direct r c p = Done (True, ring_written r c p)"
  using assms
  by (auto simp: ring_send_direct_def ipc_reserve_write_index_def ring_inv_def ring_count_def
      ipc_release_write_index_def ring_written_def Let_def)

lemma ring_send_direct_full:
  assumes "ring_inv r" and "ring_full r \<or> ring_count r = 256"
  shows "ring_send_direct r c p =
    Done (False, if ring_full r then r
                 else r\<lparr>next_write_reserve := next_write_reserve r + 1, ring_full := True\<rparr>)"
  using assms
  by (auto simp: ring_send_direct_def ipc_reserve_write_index_def ring_inv_def ring_count_def Let_def)

lemma ring_written_facts:
  assumes inv: "ring_inv r" and nf: "\<not> ring_full r" and room: "ring_count r < 256" and c: "c \<noteq> 0"
  shows "ring_list (ring_written r c p) = ring_list r @ [(c, p)]"
    and "ring_inv (ring_written r c p)"
    and "\<not> ring_full (ring_written r c p)"
proof -
  let ?n = "next_read r" and ?m = "ring_count r" and ?r = "ring_written r c p"
  have res: "next_write_reserve r = ?n + int ?m"
    using inv nf by (auto simp: ring_inv_def ring_count_def)
  have cnt: "ring_count ?r = Suc ?m"
    using inv by (auto simp: ring_written_def ring_count_def ring_inv_def)
  have other: "uint8_of (?n + int k) \<noteq> uint8_of (?n + int ?m)" if "k < 256" "k \<noteq> ?m" for k
    using uint8_window [OF that(1) room] that(2) by blast
  have at_old: "ring_at ?r (?n + int k) = ring_at r (?n + int k)" if "k < ?m" for k
    using other [of k] that room by (simp add: ring_at_def ring_written_def res)
  have at_new: "ring_at ?r (?n + int ?m) = (c, p)"
    by (simp add: ring_at_def ring_written_def res)
  show "ring_list ?r = ring_list r @ [(c, p)]"
    unfolding ring_list_def cnt using at_old at_new
    by (simp add: ring_written_def [of r c p])
  have code: "ring_code ?r (uint8_of (?n + int k)) = 0 \<longleftrightarrow> Suc ?m \<le> k" if "k < 256" for k
  proof (cases "k = ?m")
    case True
    then show ?thesis using c by (simp add: ring_written_def res)
  next
    case False
    then have "ring_code ?r (uint8_of (?n + int k)) = ring_code r (uint8_of (?n + int k))"
      using other [OF that False] by (simp add: ring_written_def res)
    then show ?thesis using inv that False by (auto simp: ring_inv_def)
  qed
  show "ring_inv ?r"
    using inv nf room code unfolding ring_inv_def cnt
    by (auto simp: ring_written_def ring_count_def)
  show "\<not> ring_full ?r" using nf by (simp add: ring_written_def)
qed

lemma ring_inv_set_full:
  assumes "ring_inv r" and "\<not> ring_full r"
  shows "ring_inv (r\<lparr>next_write_reserve := next_write_reserve r + 1, ring_full := True\<rparr>)"
    and "ring_list (r\<lparr>next_write_reserve := next_write_reserve r + 1, ring_full := True\<rparr>) = ring_list r"
  using assms by (auto simp: ring_inv_def ring_count_def ring_list_def ring_at_def)

section \<open>The ring as a bounded channel\<close>

definition ring_put :: "ringbuf \<Rightarrow> ipc_msg \<Rightarrow> bool \<times> ringbuf" where
  "ring_put r m = (case ring_send_direct r (fst m) (snd m) of Done x \<Rightarrow> x | Abort \<Rightarrow> (False, r))"

interpretation ring: bounded_channel ring_put ring_list ring_full ring_inv "\<lambda>m. fst m \<noteq> 0" 256
proof unfold_locales
  fix q :: ringbuf and m :: ipc_msg
  assume "ring_inv q" "fst m \<noteq> 0" "\<not> ring_full q" "length (ring_list q) < 256"
  then show "fst (ring_put q m) \<and> ring_list (snd (ring_put q m)) = ring_list q @ [m] \<and>
      ring_inv (snd (ring_put q m)) \<and> \<not> ring_full (snd (ring_put q m))"
    using ring_written_facts [of q "fst m" "snd m"]
    by (simp add: ring_put_def ring_send_direct_room)
next
  fix q :: ringbuf and m :: ipc_msg
  assume "ring_inv q" "ring_full q \<or> length (ring_list q) = 256"
  then show "\<not> fst (ring_put q m) \<and> ring_list (snd (ring_put q m)) = ring_list q \<and>
      ring_inv (snd (ring_put q m)) \<and> ring_full (snd (ring_put q m))"
    using ring_inv_set_full [of q] by (simp add: ring_put_def ring_send_direct_full)
next
  fix q assume "ring_inv q"
  then show "length (ring_list q) \<le> 256" by (simp add: ring_inv_count)
qed

section \<open>Receiving\<close>

text \<open>Handlers that do not send to their own process: they change only the world.\<close>

definition lift_handlers ::
  "(8 word \<Rightarrow> (8 word \<Rightarrow> addr \<Rightarrow> 'w \<Rightarrow> 'w) option) \<Rightarrow> 8 word \<Rightarrow> 'w ring_handler option"
where
  "lift_handlers g c = map_option (\<lambda>f c p s. (fst s, f c p (snd s))) (g c)"

definition handle_all ::
  "(8 word \<Rightarrow> (8 word \<Rightarrow> addr \<Rightarrow> 'w \<Rightarrow> 'w) option) \<Rightarrow> ipc_msg list \<Rightarrow> 'w \<Rightarrow> 'w"
where
  "handle_all g ms w = fold (\<lambda>(c, p). the (g c) c p) ms w"

text \<open>The ring after its first message is taken out.\<close>

definition ring_taken :: "ringbuf \<Rightarrow> ringbuf" where
  "ring_taken r =
     r\<lparr>ring_code := (ring_code r)(uint8_of (next_read r) := 0), next_read := next_read r + 1\<rparr>"

lemma ring_list_Cons:
  assumes "ring_inv r" and "0 < ring_count r"
  shows "ring_list r = ring_at r (next_read r) # ring_list (ring_taken r)"
proof -
  have cnt: "ring_count r = Suc (ring_count (ring_taken r))"
    using assms by (auto simp: ring_count_def ring_taken_def ring_inv_def)
  have le: "ring_count r \<le> 256" using assms(1) by (rule ring_inv_count)
  have at: "ring_at r (next_read r + int (Suc k)) =
      ring_at (ring_taken r) (next_read (ring_taken r) + int k)"
    if "k < ring_count (ring_taken r)" for k
  proof -
    have "uint8_of (next_read r + int (Suc k)) \<noteq> uint8_of (next_read r + int 0)"
      using uint8_window [of "Suc k" 0] that cnt le by auto
    then show ?thesis by (simp add: ring_at_def ring_taken_def add.assoc)
  qed
  show ?thesis
    unfolding ring_list_def cnt upt_conv_Cons [OF zero_less_Suc]
    using at by (simp add: map_Suc_upt [symmetric] del: upt_Suc of_nat_Suc)
qed

lemma ring_inv_taken:
  assumes inv: "ring_inv r" and pos: "0 < ring_count r"
  shows "ring_inv (ring_taken r)"
proof -
  let ?t = "ring_taken r"
  have cnt: "ring_count r = Suc (ring_count ?t)"
    using assms by (auto simp: ring_count_def ring_taken_def ring_inv_def)
  have "ring_code ?t (uint8_of (next_read ?t + int k)) = 0 \<longleftrightarrow> ring_count ?t \<le> k" if k: "k < 256" for k
  proof (cases "k = 255")
    case True
    have "uint8_of (next_read ?t + int k) = uint8_of (next_read r)"
      by (simp add: True ring_taken_def uint8_of_def)
    then show ?thesis using True cnt ring_inv_count [OF inv] by (simp add: ring_taken_def)
  next
    case False
    then have Sk: "Suc k < 256" using k by simp
    have ne: "uint8_of (next_read r + int (Suc k)) \<noteq> uint8_of (next_read r + int 0)"
      using uint8_window [OF Sk] by fastforce
    have "ring_code r (uint8_of (next_read r + int (Suc k))) = 0 \<longleftrightarrow> ring_count r \<le> Suc k"
      using inv Sk unfolding ring_inv_def by blast
    with ne show ?thesis by (simp add: ring_taken_def cnt add.assoc)
  qed
  then show ?thesis
    using inv pos unfolding ring_inv_def
    by (auto simp: ring_taken_def ring_count_def)
qed

lemma ring_inv_nil_iff:
  assumes "ring_inv r"
  shows "ring_code r (uint8_of (next_read r)) = 0 \<longleftrightarrow> ring_count r = 0"
proof -
  have "\<forall>k < 256. ring_code r (uint8_of (next_read r + int k)) = 0 \<longleftrightarrow> ring_count r \<le> k"
    using assms by (simp add: ring_inv_def)
  from this [rule_format, of 0] show ?thesis by simp
qed

lemma ipc_receive_loop_drains:
  assumes "ring_inv r" and "\<forall>m \<in> set (ring_list r). g (fst m) \<noteq> None"
  shows "\<exists>r'. ipc_receive_loop (lift_handlers g) (next_read r) (r, w) =
           Some (Done (r', handle_all g (ring_list r) w)) \<and>
         ring_inv r' \<and> ring_count r' = 0 \<and> ring_full r' = ring_full r"
  using assms
proof (induction "ring_count r" arbitrary: r w)
  case 0
  then have "\<not> next_read r < next_write_release r"
    by (simp add: ring_count_def)
  moreover have "ring_list r = []" using 0 by (simp add: ring_list_def)
  ultimately show ?case
    using 0 by (subst ipc_receive_loop.simps) (auto simp: handle_all_def)
next
  case (Suc n)
  let ?c = "ring_code r (uint8_of (next_read r))" and ?p = "ring_ptr r (uint8_of (next_read r))"
  have pos: "0 < ring_count r" using Suc.hyps(2) by simp
  have lt: "next_read r < next_write_release r" using pos by (simp add: ring_count_def)
  have nz: "?c \<noteq> 0" using ring_inv_nil_iff [OF Suc.prems(1)] pos by simp
  have split: "ring_list r = (?c, ?p) # ring_list (ring_taken r)"
    using ring_list_Cons [OF Suc.prems(1) pos] by (simp add: ring_at_def)
  obtain f where f: "g ?c = Some f" using Suc.prems(2) split by auto
  have n: "n = ring_count (ring_taken r)"
    using Suc.hyps(2) by (simp add: ring_count_def ring_taken_def)
  have tk: "ring_taken r = r\<lparr>ring_code := (ring_code r)(uint8_of (next_read r) := 0),
      next_read := next_read r + 1\<rparr>" by (simp add: ring_taken_def)
  have "ipc_receive_loop (lift_handlers g) (next_read r) (r, w) =
      ipc_receive_loop (lift_handlers g) (next_read (ring_taken r)) (ring_taken r, f ?c ?p w)"
    using lt nz f by (subst ipc_receive_loop.simps) (simp add: lift_handlers_def Let_def tk)
  moreover have "handle_all g (ring_list r) w = handle_all g (ring_list (ring_taken r)) (f ?c ?p w)"
    by (simp add: split handle_all_def f)
  moreover have "ring_full (ring_taken r) = ring_full r" by (simp add: ring_taken_def)
  ultimately show ?case
    using Suc.hyps(1) [OF n ring_inv_taken [OF Suc.prems(1) pos], of "f ?c ?p w"] Suc.prems(2) split
    by auto
qed

lemma ipc_receive_ok:
  assumes "ring_inv r" and "\<forall>m \<in> set (ring_list r). g (fst m) \<noteq> None"
  shows "\<exists>r'. ipc_receive (lift_handlers g) (r, w) = Some (Done (True, r', handle_all g (ring_list r) w)) \<and>
    ring_inv r' \<and> ring_list r' = [] \<and> \<not> ring_full r'"
proof -
  obtain q where q: "ipc_receive_loop (lift_handlers g) (next_read r) (r, w) =
      Some (Done (q, handle_all g (ring_list r) w))" "ring_inv q" "ring_count q = 0" "ring_full q = ring_full r"
    using ipc_receive_loop_drains [OF assms] by blast
  have idx: "next_write_release q = next_read q" "0 \<le> next_read r"
    using q(2,3) ring_inv_release [OF q(2)] assms(1) by (simp_all add: ring_inv_def)
  let ?q = "if ring_full q then q\<lparr>next_write_reserve := next_read q, ring_full := False\<rparr> else q"
  have "ring_inv ?q" "ring_list ?q = []" "\<not> ring_full ?q"
    using q(2,3) idx(1) by (auto simp: ring_inv_def ring_count_def ring_list_def)
  moreover have "ipc_receive (lift_handlers g) (r, w) = Some (Done (True, ?q, handle_all g (ring_list r) w))"
    using q(1) idx by (simp add: ipc_receive_def Let_def)
  ultimately show ?thesis by blast
qed

section \<open>Properties of the sequential ring\<close>

text \<open>C40: Sending to a ring with room succeeds and appends the message to the FIFO queue of
  pending messages; sending to a ring that is full returns false, leaves the queue as it
  is and raises \<open>full\<close>.  Neither fails an assertion, and both keep the invariant.\<close>

theorem ring_send_fifo:
  assumes "ring_inv r" and "c \<noteq> 0"
  shows "\<exists>ok r'. ring_send_direct r c p = Done (ok, r') \<and> ring_inv r' \<and>
    ok = (\<not> ring_full r \<and> length (ring_list r) < 256) \<and>
    ring_list r' = (if ok then ring_list r @ [(c, p)] else ring_list r) \<and>
    ring_full r' = (\<not> ok)"
proof (cases "\<not> ring_full r \<and> ring_count r < 256")
  case True
  then show ?thesis
    using ring_send_direct_room [OF assms(1)] ring_written_facts [OF assms(1) _ _ assms(2)]
    by (intro exI [of _ True]) simp
next
  case False
  then have "ring_full r \<or> ring_count r = 256" using ring_inv_count [OF assms(1)] by auto
  then show ?thesis
    using ring_send_direct_full [OF assms(1)] ring_inv_set_full [OF assms(1)] assms(1) False by auto
qed

theorem ring_send_fifo_witness:
  "\<exists>ok r'. ring_send_direct ringbuf_init 7 3 = Done (ok, r') \<and> ring_inv r' \<and>
    ok = (\<not> ring_full ringbuf_init \<and> length (ring_list ringbuf_init) < 256) \<and>
    ring_list r' = (if ok then ring_list ringbuf_init @ [(7, 3)] else ring_list ringbuf_init) \<and>
    ring_full r' = (\<not> ok)"
  by (rule ring_send_fifo [OF ring_inv_init]) simp

text \<open>Of any sequence of messages sent to a ring that is not full and holds \<open>n\<close>
  messages, exactly the first \<open>256 - n\<close> are accepted, in order, and the rest refused.\<close>

theorem ring_send_many:
  assumes "ring_inv r" and "\<not> ring_full r" and "\<forall>m \<in> set ms. fst m \<noteq> 0"
  shows "ring_list (fold (\<lambda>m q. snd (ring_put q m)) ms r) =
    ring_list r @ take (256 - length (ring_list r)) ms"
  using ring.fold_put [OF assms] by blast

theorem ring_send_many_witness:
  "ring_list (fold (\<lambda>m q. snd (ring_put q m)) (replicate 300 (1, 5)) ringbuf_init) = replicate 256 (1, 5)"
proof -
  have "\<not> ring_full ringbuf_init" by (simp add: ringbuf_init_def)
  then show ?thesis
    using ring_send_many [OF ring_inv_init, of "replicate 300 (1, 5)"]
    by (simp add: ring_list_init)
qed

text \<open>On a ring in a consistent state whose pending codes all have a handler,
  \<^verbatim>\<open>ipc_receive\<close> returns true (it neither spins on a nil slot nor fails an assertion), has
  called the handlers on all pending messages in FIFO order, leaves the ring empty and
  clears \<open>full\<close>.\<close>

theorem ring_receive_drains:
  assumes "ring_inv r" and "\<forall>m \<in> set (ring_list r). g (fst m) \<noteq> None"
  shows "\<exists>r'. ipc_receive (lift_handlers g) (r, w) = Some (Done (True, r', handle_all g (ring_list r) w)) \<and>
    ring_inv r' \<and> ring_list r' = [] \<and> \<not> ring_full r'"
  using assms by (rule ipc_receive_ok)

theorem ring_receive_drains_witness:
  "\<exists>r'. ipc_receive (lift_handlers (\<lambda>c. if c = 7 then Some (\<lambda>c p w. p # w) else None))
      (ring_written ringbuf_init 7 3, [])
    = Some (Done (True, r', handle_all (\<lambda>c. if c = 7 then Some (\<lambda>c p w. p # w) else None)
        (ring_list (ring_written ringbuf_init 7 3)) [])) \<and>
    ring_inv r' \<and> ring_list r' = [] \<and> \<not> ring_full r'"
proof (rule ring_receive_drains)
  show "ring_inv (ring_written ringbuf_init 7 3)"
    by (rule ring_written_facts(2) [OF ring_inv_init]) (simp_all add: ringbuf_init_def ring_count_def)
  show "\<forall>m \<in> set (ring_list (ring_written ringbuf_init 7 3)).
      (if fst m = 7 then Some (\<lambda>c p w. p # w) else None) \<noteq> None"
    by (simp add: ring_list_def ring_written_def ringbuf_init_def ring_count_def ring_at_def)
qed

end
