(* ===== verification/IPC_Ring_Conc.thy ===== *)
theory IPC_Ring_Conc
  imports IPC_Ring
begin

text \<open>
  The IPC ring buffer under concurrency.  Any number of writers run
  \<^verbatim>\<open>ipc_send_direct\<close> and the reader runs \<^verbatim>\<open>ipc_receive\<close>; one step is one access to an
  atomic field of \<^verbatim>\<open>shuso_ipc_ringbuf_t\<close> (sequentially consistent, as C11 atomics are by
  default) or one local action, and the steps interleave freely.
\<close>

section \<open>Program counters and state\<close>

text \<open>
  A writer between two accesses, with the locals it holds: \<open>next\<close> and \<open>next_read\<close> of
  \<^verbatim>\<open>ipc_reserve_write_index\<close>, then the reserved index of \<^verbatim>\<open>ipc_send_direct\<close>.
\<close>

datatype writer_pc =
    WIdle
  | WChecked                 \<comment> \<open>passed the first test of \<open>full\<close>\<close>
  | WReserved int            \<comment> \<open>after \<open>next_write_reserve++\<close>\<close>
  | WLoaded int int          \<comment> \<open>after loading \<open>next_read\<close>\<close>
  | WTested int int          \<comment> \<open>passed the second test of \<open>full\<close>\<close>
  | WHave int                \<comment> \<open>index reserved\<close>
  | WPtr int                 \<comment> \<open>\<open>ptr[next]\<close> stored\<close>
  | WCode int                \<comment> \<open>\<open>code[next]\<close> stored, not yet released\<close>
  | WAborted                 \<comment> \<open>failed assertion\<close>

datatype reader_pc =
    RIdle
  | RTest int                \<comment> \<open>about to test the loop condition\<close>
  | RLoad int
  | RLoadPtr int "8 word"
  | RClear int "8 word" addr
  | RIncr int "8 word" addr
  | RCall int "8 word" addr  \<comment> \<open>about to call the handler\<close>
  | RFullTest
  | RResetLoad
  | RResetStore int
  | RAssert
  | RAssert2 int
  | RClearFull
  | RAborted

text \<open>
  \<open>reserved_log\<close> (messages in the order of their reservations), \<open>delivered_log\<close> (messages
  in the order of the handler calls) and \<open>full_raised\<close> (the ring has been found full at
  least once) record the history; no step tests them.
\<close>

record ring_sys =
  sys_ring :: ringbuf
  sys_writer :: "nat \<Rightarrow> writer_pc"
  sys_msg :: "nat \<Rightarrow> ipc_msg"
  sys_reader :: reader_pc
  reserved_log :: "ipc_msg list"
  delivered_log :: "ipc_msg list"
  full_raised :: bool

definition ring_sys_init :: ring_sys where
  "ring_sys_init = \<lparr>sys_ring = ringbuf_init, sys_writer = (\<lambda>_. WIdle), sys_msg = (\<lambda>_. (0, 0)),
     sys_reader = RIdle, reserved_log = [], delivered_log = [], full_raised = False\<rparr>"

section \<open>Steps\<close>

text \<open>The steps of a writer: \<^verbatim>\<open>ipc_reserve_write_index\<close>, then \<^verbatim>\<open>ipc_send_direct\<close>.\<close>

inductive writer_step :: "ring_sys \<Rightarrow> ring_sys \<Rightarrow> bool" where
  w_refused: "sys_writer s w = WIdle \<Longrightarrow> ring_full (sys_ring s) \<Longrightarrow> writer_step s s"
| w_start: "sys_writer s w = WIdle \<Longrightarrow> fst m \<noteq> 0 \<Longrightarrow> \<not> ring_full (sys_ring s) \<Longrightarrow>
    writer_step s (s\<lparr>sys_writer := (sys_writer s)(w := WChecked), sys_msg := (sys_msg s)(w := m)\<rparr>)"
| w_reserve: "sys_writer s w = WChecked \<Longrightarrow> r = sys_ring s \<Longrightarrow>
    writer_step s (s\<lparr>sys_ring := r\<lparr>next_write_reserve := next_write_reserve r + 1\<rparr>,
      sys_writer := (sys_writer s)(w := WReserved (next_write_reserve r)),
      reserved_log := reserved_log s @ [sys_msg s w]\<rparr>)"
| w_load: "sys_writer s w = WReserved n \<Longrightarrow>
    writer_step s (s\<lparr>sys_writer := (sys_writer s)(w := WLoaded n (next_read (sys_ring s)))\<rparr>)"
| w_late_full: "sys_writer s w = WLoaded n v \<Longrightarrow> ring_full (sys_ring s) \<Longrightarrow>
    writer_step s (s\<lparr>sys_writer := (sys_writer s)(w := WIdle)\<rparr>)"
| w_test: "sys_writer s w = WLoaded n v \<Longrightarrow> \<not> ring_full (sys_ring s) \<Longrightarrow>
    writer_step s (s\<lparr>sys_writer := (sys_writer s)(w := WTested n v)\<rparr>)"
| w_raise: "sys_writer s w = WTested n v \<Longrightarrow> n - v > 255 \<Longrightarrow>
    writer_step s (s\<lparr>sys_ring := (sys_ring s)\<lparr>ring_full := True\<rparr>,
      sys_writer := (sys_writer s)(w := WIdle), full_raised := True\<rparr>)"
| w_have: "sys_writer s w = WTested n v \<Longrightarrow> \<not> n - v > 255 \<Longrightarrow>
    writer_step s (s\<lparr>sys_writer := (sys_writer s)(w := WHave n)\<rparr>)"
| w_assert: "sys_writer s w = WHave n \<Longrightarrow> n < 0 \<Longrightarrow>
    writer_step s (s\<lparr>sys_writer := (sys_writer s)(w := WAborted)\<rparr>)"
| w_ptr: "sys_writer s w = WHave n \<Longrightarrow> n \<ge> 0 \<Longrightarrow> r = sys_ring s \<Longrightarrow>
    writer_step s (s\<lparr>sys_ring := r\<lparr>ring_ptr := (ring_ptr r)(uint8_of n := snd (sys_msg s w))\<rparr>,
      sys_writer := (sys_writer s)(w := WPtr n)\<rparr>)"
| w_code: "sys_writer s w = WPtr n \<Longrightarrow> r = sys_ring s \<Longrightarrow>
    writer_step s (s\<lparr>sys_ring := r\<lparr>ring_code := (ring_code r)(uint8_of n := fst (sys_msg s w))\<rparr>,
      sys_writer := (sys_writer s)(w := WCode n)\<rparr>)"
| w_release: "sys_writer s w = WCode n \<Longrightarrow> r = sys_ring s \<Longrightarrow>
    writer_step s (s\<lparr>sys_ring := r\<lparr>next_write_release := next_write_release r + 1\<rparr>,
      sys_writer := (sys_writer s)(w := WIdle)\<rparr>)"

text \<open>The steps of the reader: \<^verbatim>\<open>ipc_receive\<close>.\<close>

inductive reader_step :: "ring_sys \<Rightarrow> ring_sys \<Rightarrow> bool" where
  r_start: "sys_reader s = RIdle \<Longrightarrow> next_read (sys_ring s) \<ge> 0 \<Longrightarrow>
    reader_step s (s\<lparr>sys_reader := RTest (next_read (sys_ring s))\<rparr>)"
| r_start_abort: "sys_reader s = RIdle \<Longrightarrow> next_read (sys_ring s) < 0 \<Longrightarrow>
    reader_step s (s\<lparr>sys_reader := RAborted\<rparr>)"
| r_enter: "sys_reader s = RTest i \<Longrightarrow> i < next_write_release (sys_ring s) \<Longrightarrow>
    reader_step s (s\<lparr>sys_reader := RLoad i\<rparr>)"
| r_leave: "sys_reader s = RTest i \<Longrightarrow> \<not> i < next_write_release (sys_ring s) \<Longrightarrow>
    reader_step s (s\<lparr>sys_reader := RFullTest\<rparr>)"
| r_code: "sys_reader s = RLoad i \<Longrightarrow>
    reader_step s (s\<lparr>sys_reader := RLoadPtr i (ring_code (sys_ring s) (uint8_of i))\<rparr>)"
| r_ptr: "sys_reader s = RLoadPtr i c \<Longrightarrow> c \<noteq> 0 \<Longrightarrow>
    reader_step s (s\<lparr>sys_reader := RClear i c (ring_ptr (sys_ring s) (uint8_of i))\<rparr>)"
| r_nil: "sys_reader s = RLoadPtr i c \<Longrightarrow> c = 0 \<Longrightarrow>
    reader_step s (s\<lparr>sys_reader := RTest i\<rparr>)"
| r_clear: "sys_reader s = RClear i c p \<Longrightarrow> r = sys_ring s \<Longrightarrow>
    reader_step s (s\<lparr>sys_ring := r\<lparr>ring_code := (ring_code r)(uint8_of i := 0)\<rparr>,
      sys_reader := RIncr i c p\<rparr>)"
| r_incr: "sys_reader s = RIncr i c p \<Longrightarrow> r = sys_ring s \<Longrightarrow>
    reader_step s (s\<lparr>sys_ring := r\<lparr>next_read := next_read r + 1\<rparr>, sys_reader := RCall i c p\<rparr>)"
| r_call: "sys_reader s = RCall i c p \<Longrightarrow>
    reader_step s (s\<lparr>sys_reader := RTest (i + 1), delivered_log := delivered_log s @ [(c, p)]\<rparr>)"
| r_not_full: "sys_reader s = RFullTest \<Longrightarrow> \<not> ring_full (sys_ring s) \<Longrightarrow>
    reader_step s (s\<lparr>sys_reader := RIdle\<rparr>)"
| r_full: "sys_reader s = RFullTest \<Longrightarrow> ring_full (sys_ring s) \<Longrightarrow>
    reader_step s (s\<lparr>sys_reader := RResetLoad\<rparr>)"
| r_reset_load: "sys_reader s = RResetLoad \<Longrightarrow>
    reader_step s (s\<lparr>sys_reader := RResetStore (next_read (sys_ring s))\<rparr>)"
| r_reset_store: "sys_reader s = RResetStore v \<Longrightarrow>
    reader_step s (s\<lparr>sys_ring := (sys_ring s)\<lparr>next_write_reserve := v\<rparr>, sys_reader := RAssert\<rparr>)"
| r_assert: "sys_reader s = RAssert \<Longrightarrow>
    reader_step s (s\<lparr>sys_reader := RAssert2 (next_write_reserve (sys_ring s))\<rparr>)"
| r_assert_ok: "sys_reader s = RAssert2 v \<Longrightarrow> v = next_write_release (sys_ring s) \<Longrightarrow>
    reader_step s (s\<lparr>sys_reader := RClearFull\<rparr>)"
| r_assert_fail: "sys_reader s = RAssert2 v \<Longrightarrow> v \<noteq> next_write_release (sys_ring s) \<Longrightarrow>
    reader_step s (s\<lparr>sys_reader := RAborted\<rparr>)"
| r_clear_full: "sys_reader s = RClearFull \<Longrightarrow>
    reader_step s (s\<lparr>sys_ring := (sys_ring s)\<lparr>ring_full := False\<rparr>, sys_reader := RIdle\<rparr>)"

definition ring_step :: "ring_sys \<Rightarrow> ring_sys \<Rightarrow> bool" where
  "ring_step s t \<longleftrightarrow> writer_step s t \<or> reader_step s t"

section \<open>Invariant\<close>

fun held :: "writer_pc \<Rightarrow> int option" where
  "held (WReserved n) = Some n"
| "held (WLoaded n v) = Some n"
| "held (WTested n v) = Some n"
| "held (WHave n) = Some n"
| "held (WPtr n) = Some n"
| "held (WCode n) = Some n"
| "held _ = None"

definition holders :: "ring_sys \<Rightarrow> nat set" where
  "holders s = {w. held (sys_writer s w) \<noteq> None}"

text \<open>Index \<open>i\<close> is reserved and its message is in its slot.\<close>

definition written :: "ring_sys \<Rightarrow> int \<Rightarrow> bool" where
  "written s i \<longleftrightarrow> 0 \<le> i \<and> i < int (length (reserved_log s)) \<and>
     (\<forall>w. held (sys_writer s w) = Some i \<longrightarrow> sys_writer s w = WCode i)"

definition cleared :: "ring_sys \<Rightarrow> bool" where
  "cleared s \<longleftrightarrow> (\<exists>i c p. sys_reader s = RIncr i c p)"

abbreviation "nread s \<equiv> next_read (sys_ring s)"

definition inv_counts :: "ring_sys \<Rightarrow> bool" where
  "inv_counts s \<longleftrightarrow> \<not> ring_full (sys_ring s) \<and>
     next_write_reserve (sys_ring s) = int (length (reserved_log s)) \<and>
     0 \<le> nread s \<and> nread s \<le> next_write_release (sys_ring s) \<and>
     finite (holders s) \<and>
     next_write_release (sys_ring s) + int (card (holders s)) = int (length (reserved_log s)) \<and>
     (\<forall>m \<in> set (reserved_log s). fst m \<noteq> 0)"

definition index_ok :: "int \<Rightarrow> ipc_msg \<Rightarrow> ring_sys \<Rightarrow> bool" where
  "index_ok n m s \<longleftrightarrow> 0 \<le> n \<and> n < int (length (reserved_log s)) \<and> reserved_log s ! nat n = m"

fun writer_ok :: "writer_pc \<Rightarrow> ipc_msg \<Rightarrow> ring_sys \<Rightarrow> bool" where
  "writer_ok WIdle m s \<longleftrightarrow> True"
| "writer_ok WChecked m s \<longleftrightarrow> fst m \<noteq> 0"
| "writer_ok (WReserved n) m s \<longleftrightarrow> index_ok n m s"
| "writer_ok (WLoaded n v) m s \<longleftrightarrow> index_ok n m s \<and> v \<le> nread s"
| "writer_ok (WTested n v) m s \<longleftrightarrow> index_ok n m s \<and> v \<le> nread s"
| "writer_ok (WHave n) m s \<longleftrightarrow> index_ok n m s \<and> n \<le> nread s + 255"
| "writer_ok (WPtr n) m s \<longleftrightarrow> index_ok n m s \<and> n \<le> nread s + 255 \<and>
     ring_ptr (sys_ring s) (uint8_of n) = snd m"
| "writer_ok (WCode n) m s \<longleftrightarrow> index_ok n m s \<and> n \<le> nread s + 255"
| "writer_ok WAborted m s \<longleftrightarrow> False"

definition holders_inj :: "ring_sys \<Rightarrow> bool" where
  "holders_inj s \<longleftrightarrow>
     (\<forall>w w' n. held (sys_writer s w) = Some n \<longrightarrow> held (sys_writer s w') = Some n \<longrightarrow> w = w')"

definition inv_writers :: "ring_sys \<Rightarrow> bool" where
  "inv_writers s \<longleftrightarrow> (\<forall>w. writer_ok (sys_writer s w) (sys_msg s w) s) \<and> holders_inj s"

definition inv_slots :: "ring_sys \<Rightarrow> bool" where
  "inv_slots s \<longleftrightarrow>
     (\<forall>i. 0 \<le> i \<and> i < int (length (reserved_log s)) \<and> (\<forall>w. held (sys_writer s w) \<noteq> Some i) \<longrightarrow>
        i \<le> nread s + 255) \<and>
     (\<forall>i. 0 \<le> i \<and> i < nread s \<longrightarrow> written s i) \<and>
     (\<forall>i. nread s \<le> i \<and> i \<le> nread s + 255 \<and> written s i \<and> \<not> (cleared s \<and> i = nread s) \<longrightarrow>
        ring_at (sys_ring s) i = reserved_log s ! nat i) \<and>
     (\<forall>i. nread s \<le> i \<and> i \<le> nread s + 255 \<and> (\<not> written s i \<or> cleared s \<and> i = nread s) \<longrightarrow>
        ring_code (sys_ring s) (uint8_of i) = 0)"

fun inv_reader :: "reader_pc \<Rightarrow> ring_sys \<Rightarrow> bool" where
  "inv_reader RIdle s \<longleftrightarrow> delivered_log s = take (nat (nread s)) (reserved_log s)"
| "inv_reader (RTest i) s \<longleftrightarrow> i = nread s \<and> delivered_log s = take (nat (nread s)) (reserved_log s)"
| "inv_reader (RLoad i) s \<longleftrightarrow> i = nread s \<and> i < next_write_release (sys_ring s) \<and>
     delivered_log s = take (nat (nread s)) (reserved_log s)"
| "inv_reader (RLoadPtr i c) s \<longleftrightarrow> i = nread s \<and> i < next_write_release (sys_ring s) \<and>
     delivered_log s = take (nat (nread s)) (reserved_log s) \<and>
     (c \<noteq> 0 \<longrightarrow> written s i \<and> c = fst (reserved_log s ! nat i))"
| "inv_reader (RClear i c p) s \<longleftrightarrow> i = nread s \<and> i < next_write_release (sys_ring s) \<and>
     delivered_log s = take (nat (nread s)) (reserved_log s) \<and>
     written s i \<and> (c, p) = reserved_log s ! nat i"
| "inv_reader (RIncr i c p) s \<longleftrightarrow> i = nread s \<and> i < next_write_release (sys_ring s) \<and>
     delivered_log s = take (nat (nread s)) (reserved_log s) \<and>
     written s i \<and> (c, p) = reserved_log s ! nat i"
| "inv_reader (RCall i c p) s \<longleftrightarrow> i + 1 = nread s \<and> 0 \<le> i \<and> i < int (length (reserved_log s)) \<and>
     delivered_log s = take (nat i) (reserved_log s) \<and> (c, p) = reserved_log s ! nat i"
| "inv_reader RFullTest s \<longleftrightarrow> delivered_log s = take (nat (nread s)) (reserved_log s)"
| "inv_reader _ s \<longleftrightarrow> False"

definition ring_sys_inv :: "ring_sys \<Rightarrow> bool" where
  "ring_sys_inv s \<longleftrightarrow> full_raised s \<or>
     inv_counts s \<and> inv_writers s \<and> inv_slots s \<and> inv_reader (sys_reader s) s"

lemma ring_sys_inv_init: "ring_sys_inv ring_sys_init"
  by (auto simp: ring_sys_inv_def ring_sys_init_def inv_counts_def inv_writers_def inv_slots_def
      holders_def holders_inj_def written_def ringbuf_init_def)

section \<open>Preservation: writer steps\<close>

definition same_hold :: "ring_sys \<Rightarrow> ring_sys \<Rightarrow> bool" where
  "same_hold s t \<longleftrightarrow> reserved_log t = reserved_log s \<and>
     (\<forall>w. held (sys_writer t w) = held (sys_writer s w)) \<and>
     (\<forall>w n. sys_writer t w = WCode n \<longleftrightarrow> sys_writer s w = WCode n)"

lemma same_hold_simps:
  assumes "same_hold s t"
  shows "holders t = holders s" "written t = written s" "holders_inj t = holders_inj s"
    "index_ok n m t = index_ok n m s"
  using assms by (simp_all add: same_hold_def holders_def written_def holders_inj_def index_ok_def fun_eq_iff)

text \<open>Moves of a writer that no other process can see.\<close>

definition local_eq :: "ring_sys \<Rightarrow> ring_sys \<Rightarrow> bool" where
  "local_eq s t \<longleftrightarrow> sys_ring t = sys_ring s \<and> reserved_log t = reserved_log s \<and>
     delivered_log t = delivered_log s \<and> sys_reader t = sys_reader s \<and> full_raised t = full_raised s \<and>
     (\<forall>w. held (sys_writer t w) = held (sys_writer s w)) \<and>
     (\<forall>w n. sys_writer t w = WCode n \<longleftrightarrow> sys_writer s w = WCode n)"

lemma local_eq_simps:
  assumes "local_eq s t"
  shows "holders t = holders s" "written t = written s" "cleared t = cleared s"
    "inv_counts t = inv_counts s" "inv_slots t = inv_slots s" "holders_inj t = holders_inj s"
    "writer_ok p m t = writer_ok p m s"
    "inv_reader (sys_reader t) t = inv_reader (sys_reader s) s"
proof -
  show h: "holders t = holders s" and w: "written t = written s" and c: "cleared t = cleared s"
    using assms by (auto simp: local_eq_def holders_def written_def cleared_def fun_eq_iff)
  show "inv_counts t = inv_counts s" "inv_slots t = inv_slots s" "holders_inj t = holders_inj s"
    using assms h w c by (simp_all add: local_eq_def inv_counts_def inv_slots_def holders_inj_def)
  show "writer_ok p m t = writer_ok p m s"
    using assms by (cases p) (simp_all add: local_eq_def index_ok_def)
  show "inv_reader (sys_reader t) t = inv_reader (sys_reader s) s"
    using assms w by (cases "sys_reader s") (simp_all add: local_eq_def)
qed

lemma local_writer_move:
  assumes inv: "ring_sys_inv s" and t: "t = s\<lparr>sys_writer := (sys_writer s)(w := p),
      sys_msg := (sys_msg s)(w := m)\<rparr>"
    and p: "held p = held (sys_writer s w)" "\<forall>n. p \<noteq> WCode n" "\<forall>n. sys_writer s w \<noteq> WCode n"
    and ok: "writer_ok (sys_writer s w) (sys_msg s w) s \<Longrightarrow> writer_ok p m s"
  shows "ring_sys_inv t"
proof -
  have eq: "local_eq s t" using p by (auto simp: local_eq_def t)
  have "inv_writers s \<Longrightarrow> inv_writers t"
    using ok by (simp add: inv_writers_def local_eq_simps [OF eq]) (simp add: t)
  then show ?thesis
    using inv local_eq_simps [OF eq] eq by (auto simp: ring_sys_inv_def local_eq_def)
qed

lemma msg_upd_same: "s\<lparr>sys_writer := x\<rparr> = s\<lparr>sys_writer := x, sys_msg := (sys_msg s)(w := sys_msg s w)\<rparr>"
  by simp

lemma inv_w_start:
  assumes "ring_sys_inv s" "sys_writer s w = WIdle" "fst m \<noteq> 0"
  shows "ring_sys_inv (s\<lparr>sys_writer := (sys_writer s)(w := WChecked), sys_msg := (sys_msg s)(w := m)\<rparr>)"
  using assms(1) by (rule local_writer_move [OF _ refl]) (use assms in auto)

lemma inv_w_load:
  assumes "ring_sys_inv s" "sys_writer s w = WReserved n"
  shows "ring_sys_inv (s\<lparr>sys_writer := (sys_writer s)(w := WLoaded n (nread s))\<rparr>)"
  using assms(1) by (rule local_writer_move [OF _ msg_upd_same]) (use assms in auto)

lemma inv_w_test:
  assumes "ring_sys_inv s" "sys_writer s w = WLoaded n v"
  shows "ring_sys_inv (s\<lparr>sys_writer := (sys_writer s)(w := WTested n v)\<rparr>)"
  using assms(1) by (rule local_writer_move [OF _ msg_upd_same]) (use assms in auto)

lemma inv_w_have:
  assumes "ring_sys_inv s" "sys_writer s w = WTested n v" "\<not> n - v > 255"
  shows "ring_sys_inv (s\<lparr>sys_writer := (sys_writer s)(w := WHave n)\<rparr>)"
  using assms(1) by (rule local_writer_move [OF _ msg_upd_same]) (use assms in auto)

lemma inv_w_raise:
  "ring_sys_inv (s\<lparr>sys_ring := r, sys_writer := x, full_raised := True\<rparr>)"
  by (simp add: ring_sys_inv_def)

lemma inv_w_late_full:
  assumes "ring_sys_inv s" "ring_full (sys_ring s)"
  shows "ring_sys_inv (s\<lparr>sys_writer := x\<rparr>)"
  using assms by (simp add: ring_sys_inv_def inv_counts_def)

lemma inv_w_assert:
  assumes "ring_sys_inv s" "sys_writer s w = WHave n" "n < 0"
  shows "ring_sys_inv (s\<lparr>sys_writer := x\<rparr>)"
proof -
  have "writer_ok (sys_writer s w) (sys_msg s w) s" if "\<not> full_raised s"
    using that assms(1) by (simp add: ring_sys_inv_def inv_writers_def)
  then show ?thesis using assms by (auto simp: ring_sys_inv_def index_ok_def)
qed

lemma writtenD: "written s i \<Longrightarrow> held (sys_writer s w) = Some i \<Longrightarrow> sys_writer s w = WCode i"
  by (simp add: written_def)

lemma inv_slotsI:
  assumes "\<And>i. 0 \<le> i \<Longrightarrow> i < int (length (reserved_log s)) \<Longrightarrow> \<forall>w. held (sys_writer s w) \<noteq> Some i \<Longrightarrow>
      i \<le> nread s + 255"
    and "\<And>i. 0 \<le> i \<Longrightarrow> i < nread s \<Longrightarrow> written s i"
    and "\<And>i. nread s \<le> i \<Longrightarrow> i \<le> nread s + 255 \<Longrightarrow> written s i \<Longrightarrow> \<not> (cleared s \<and> i = nread s) \<Longrightarrow>
      ring_at (sys_ring s) i = reserved_log s ! nat i"
    and "\<And>i. nread s \<le> i \<Longrightarrow> i \<le> nread s + 255 \<Longrightarrow> \<not> written s i \<or> cleared s \<and> i = nread s \<Longrightarrow>
      ring_code (sys_ring s) (uint8_of i) = 0"
  shows "inv_slots s"
  using assms unfolding inv_slots_def by blast

lemma inv_slotsD:
  assumes "inv_slots s"
  shows "0 \<le> i \<Longrightarrow> i < int (length (reserved_log s)) \<Longrightarrow> \<forall>w. held (sys_writer s w) \<noteq> Some i \<Longrightarrow>
      i \<le> nread s + 255"
    and "0 \<le> i \<Longrightarrow> i < nread s \<Longrightarrow> written s i"
    and "nread s \<le> i \<Longrightarrow> i \<le> nread s + 255 \<Longrightarrow> written s i \<Longrightarrow> \<not> (cleared s \<and> i = nread s) \<Longrightarrow>
      ring_at (sys_ring s) i = reserved_log s ! nat i"
    and "nread s \<le> i \<Longrightarrow> i \<le> nread s + 255 \<Longrightarrow> \<not> written s i \<or> cleared s \<and> i = nread s \<Longrightarrow>
      ring_code (sys_ring s) (uint8_of i) = 0"
  using assms unfolding inv_slots_def by blast+

lemma held_index_ok:
  assumes "inv_writers s" "held (sys_writer s v) = Some n"
  shows "index_ok n (sys_msg s v) s"
proof -
  have "writer_ok (sys_writer s v) (sys_msg s v) s" using assms(1) by (simp add: inv_writers_def)
  with assms(2) show ?thesis by (cases "sys_writer s v") auto
qed

lemma unwritten_ge:
  assumes "inv_writers s" "inv_slots s" "held (sys_writer s v) = Some n" "sys_writer s v \<noteq> WCode n"
  shows "\<not> written s n" "nread s \<le> n"
proof -
  show nw: "\<not> written s n" using writtenD [of s n v] assms by blast
  show "nread s \<le> n"
    using nw inv_slotsD(2) [OF assms(2), of n] held_index_ok [OF assms(1,3)]
    by (force simp: index_ok_def)
qed

lemma holders_injD:
  "holders_inj s \<Longrightarrow> held (sys_writer s w) = Some n \<Longrightarrow> held (sys_writer s w') = Some n \<Longrightarrow> w = w'"
  by (auto simp: holders_inj_def)

lemma ring_ok_step:
  assumes "ring_sys_inv s" and "full_raised t = full_raised s"
    and "inv_counts s \<Longrightarrow> inv_writers s \<Longrightarrow> inv_slots s \<Longrightarrow> inv_reader (sys_reader s) s \<Longrightarrow>
      inv_counts t \<and> inv_writers t \<and> inv_slots t \<and> inv_reader (sys_reader t) t"
  shows "ring_sys_inv t"
  using assms by (auto simp: ring_sys_inv_def)

lemma writer_okD: "inv_writers s \<Longrightarrow> writer_ok (sys_writer s v) (sys_msg s v) s"
  by (simp add: inv_writers_def)

definition do_reserve :: "nat \<Rightarrow> ring_sys \<Rightarrow> ring_sys" where
  "do_reserve w s = s\<lparr>sys_ring := (sys_ring s)\<lparr>next_write_reserve := next_write_reserve (sys_ring s) + 1\<rparr>,
      sys_writer := (sys_writer s)(w := WReserved (next_write_reserve (sys_ring s))),
      reserved_log := reserved_log s @ [sys_msg s w]\<rparr>"

lemma do_reserve_sel [simp]:
  "reserved_log (do_reserve w s) = reserved_log s @ [sys_msg s w]"
  "delivered_log (do_reserve w s) = delivered_log s"
  "sys_msg (do_reserve w s) = sys_msg s" "sys_reader (do_reserve w s) = sys_reader s"
  "full_raised (do_reserve w s) = full_raised s" "cleared (do_reserve w s) = cleared s"
  "nread (do_reserve w s) = nread s"
  "next_write_release (sys_ring (do_reserve w s)) = next_write_release (sys_ring s)"
  "next_write_reserve (sys_ring (do_reserve w s)) = next_write_reserve (sys_ring s) + 1"
  "ring_full (sys_ring (do_reserve w s)) = ring_full (sys_ring s)"
  "ring_ptr (sys_ring (do_reserve w s)) = ring_ptr (sys_ring s)"
  "ring_code (sys_ring (do_reserve w s)) = ring_code (sys_ring s)"
  "ring_at (sys_ring (do_reserve w s)) = ring_at (sys_ring s)"
  "sys_writer (do_reserve w s) v =
     (if v = w then WReserved (next_write_reserve (sys_ring s)) else sys_writer s v)"
  by (simp_all add: do_reserve_def cleared_def ring_at_def fun_eq_iff)

lemma do_reserve_nth:
  "0 \<le> i \<Longrightarrow> i < int (length (reserved_log s)) \<Longrightarrow>
   reserved_log (do_reserve w s) ! nat i = reserved_log s ! nat i"
  by (simp add: nth_append nat_less_iff)

lemma do_reserve_written:
  assumes c: "inv_counts s" and pc: "sys_writer s w = WChecked"
  shows "written (do_reserve w s) i \<longleftrightarrow> written s i"
proof -
  let ?t = "do_reserve w s" and ?L = "int (length (reserved_log s))"
  have L: "next_write_reserve (sys_ring s) = ?L" using c by (simp add: inv_counts_def)
  have hw: "sys_writer ?t w = WReserved ?L" using L by simp
  have same: "i \<noteq> ?L \<Longrightarrow> (held (sys_writer ?t v) = Some i \<longrightarrow> sys_writer ?t v = WCode i) \<longleftrightarrow>
      (held (sys_writer s v) = Some i \<longrightarrow> sys_writer s v = WCode i)" for v
    using pc L by simp
  show ?thesis
  proof (cases "i = ?L")
    case True
    then show ?thesis using hw writtenD [of ?t i w] by (auto simp: written_def)
  next
    case False
    then show ?thesis using same by (auto simp: written_def)
  qed
qed

lemma do_reserve_holders:
  assumes c: "inv_counts s" and w: "inv_writers s" and pc: "sys_writer s w = WChecked"
  shows "holders (do_reserve w s) = insert w (holders s)" "w \<notin> holders s"
    and "holders_inj (do_reserve w s)"
proof -
  show "holders (do_reserve w s) = insert w (holders s)" "w \<notin> holders s"
    using pc by (auto simp: holders_def)
  have "n < next_write_reserve (sys_ring s)" if "held (sys_writer s v) = Some n" for v n
    using held_index_ok [OF w that] c by (simp add: index_ok_def inv_counts_def)
  then show "holders_inj (do_reserve w s)"
    using w unfolding inv_writers_def holders_inj_def
    by (metis do_reserve_sel(14) held.simps(1) less_irrefl option.inject)
qed

lemma do_reserve_slots:
  assumes c: "inv_counts s" and sl: "inv_slots s" and pc: "sys_writer s w = WChecked"
  shows "inv_slots (do_reserve w s)"
proof (rule inv_slotsI, unfold do_reserve_written [OF c pc] do_reserve_sel(6,7,12,13))
  fix i
  assume i: "0 \<le> i" "i < int (length (reserved_log (do_reserve w s)))"
    "\<forall>v. held (sys_writer (do_reserve w s) v) \<noteq> Some i"
  have "i \<noteq> int (length (reserved_log s))" using i(3) [rule_format, of w] c by (simp add: inv_counts_def)
  moreover have "held (sys_writer s v) \<noteq> Some i" for v
    using i(3) [rule_format, of v] pc by (cases "v = w") simp_all
  ultimately show "i \<le> nread s + 255" using inv_slotsD(1) [OF sl, of i] i by simp
next
  fix i
  assume i: "nread s \<le> i" "i \<le> nread s + 255" "written s i" "\<not> (cleared s \<and> i = nread s)"
  show "ring_at (sys_ring s) i = reserved_log (do_reserve w s) ! nat i"
    using inv_slotsD(3) [OF sl i] i(3) by (simp add: written_def do_reserve_nth del: do_reserve_sel(1))
qed (fact inv_slotsD [OF sl])+

lemma inv_w_reserve:
  assumes inv: "ring_sys_inv s" and pc: "sys_writer s w = WChecked"
  shows "ring_sys_inv (do_reserve w s)"
  using inv do_reserve_sel(5)
proof (rule ring_ok_step)
  let ?t = "do_reserve w s"
  assume c: "inv_counts s" and w: "inv_writers s" and sl: "inv_slots s" and rd: "inv_reader (sys_reader s) s"
  note hold = do_reserve_holders [OF c w pc]
  have msg: "fst (sys_msg s w) \<noteq> 0" using writer_okD [OF w, of w] pc by simp
  have counts: "inv_counts ?t" using c msg hold by (simp add: inv_counts_def)
  have "writer_ok p m s \<Longrightarrow> writer_ok p m ?t" for p m
    by (cases p) (auto simp: index_ok_def nth_append nat_less_iff)
  moreover have "index_ok (next_write_reserve (sys_ring s)) (sys_msg s w) ?t"
    using c by (simp add: index_ok_def inv_counts_def)
  ultimately have "inv_writers ?t" using w hold by (simp add: inv_writers_def)
  moreover have "inv_reader (sys_reader ?t) ?t"
    using rd c by (cases "sys_reader s")
      (auto simp: do_reserve_written [OF c pc] inv_counts_def nth_append nat_less_iff)
  ultimately show "inv_counts ?t \<and> inv_writers ?t \<and> inv_slots ?t \<and> inv_reader (sys_reader ?t) ?t"
    using counts do_reserve_slots [OF c sl pc] by blast
qed

definition do_ptr :: "nat \<Rightarrow> int \<Rightarrow> ring_sys \<Rightarrow> ring_sys" where
  "do_ptr w n s = s\<lparr>sys_ring := (sys_ring s)\<lparr>ring_ptr := (ring_ptr (sys_ring s))(uint8_of n := snd (sys_msg s w))\<rparr>,
      sys_writer := (sys_writer s)(w := WPtr n)\<rparr>"

lemma do_ptr_sel [simp]:
  "reserved_log (do_ptr w n s) = reserved_log s" "delivered_log (do_ptr w n s) = delivered_log s"
  "sys_msg (do_ptr w n s) = sys_msg s" "sys_reader (do_ptr w n s) = sys_reader s"
  "full_raised (do_ptr w n s) = full_raised s" "cleared (do_ptr w n s) = cleared s"
  "nread (do_ptr w n s) = nread s" "next_write_release (sys_ring (do_ptr w n s)) = next_write_release (sys_ring s)"
  "next_write_reserve (sys_ring (do_ptr w n s)) = next_write_reserve (sys_ring s)"
  "ring_full (sys_ring (do_ptr w n s)) = ring_full (sys_ring s)"
  "ring_code (sys_ring (do_ptr w n s)) = ring_code (sys_ring s)"
  "ring_ptr (sys_ring (do_ptr w n s)) i =
     (if i = uint8_of n then snd (sys_msg s w) else ring_ptr (sys_ring s) i)"
  "sys_writer (do_ptr w n s) v = (if v = w then WPtr n else sys_writer s v)"
  by (simp_all add: do_ptr_def cleared_def)

lemma do_ptr_same_hold: "sys_writer s w = WHave n \<Longrightarrow> same_hold s (do_ptr w n s)"
  by (simp add: same_hold_def)

lemma window_slot_eq:
  assumes "nread s \<le> i" "i \<le> nread s + 255" "nread s \<le> n" "n \<le> nread s + 255"
    "uint8_of i = uint8_of n"
  shows "i = n"
  using uint8_of_inj_window [OF assms(5)] assms by auto

text \<open>A writer that has passed its checks and not yet stored its code owns its slot.\<close>

lemma owned_slot:
  assumes "inv_writers s" "inv_slots s" "sys_writer s w = WHave n \<or> sys_writer s w = WPtr n"
  shows "nread s \<le> n" "n \<le> nread s + 255" "\<not> written s n" "index_ok n (sys_msg s w) s"
  using assms unwritten_ge [OF assms(1,2), of w n] writer_okD [OF assms(1), of w] by auto

lemma inv_w_ptr:
  assumes inv: "ring_sys_inv s" and pc: "sys_writer s w = WHave n"
  shows "ring_sys_inv (do_ptr w n s)"
  using inv do_ptr_sel(5)
proof (rule ring_ok_step)
  let ?t = "do_ptr w n s"
  assume c: "inv_counts s" and w: "inv_writers s" and sl: "inv_slots s" and rd: "inv_reader (sys_reader s) s"
  note own = owned_slot [OF w sl disjI1, OF pc]
  note same = same_hold_simps [OF do_ptr_same_hold, OF pc]
  have "writer_ok p m s \<Longrightarrow> (\<forall>k. p = WPtr k \<longrightarrow> uint8_of k \<noteq> uint8_of n) \<Longrightarrow> writer_ok p m ?t" for p m
    by (cases p) (simp_all add: same)
  moreover have "uint8_of k \<noteq> uint8_of n" if "sys_writer s v = WPtr k" "v \<noteq> w" for v k
    using holders_injD [of s v n w] that pc window_slot_eq [of s k n] own owned_slot [OF w sl disjI2, OF that(1)] w
    by (auto simp: inv_writers_def)
  moreover have "writer_ok (WPtr n) (sys_msg s w) ?t" using own by (simp add: same)
  ultimately have "inv_writers ?t" using w by (auto simp: inv_writers_def same)
  moreover have "inv_slots ?t"
  proof (rule inv_slotsI, unfold same do_ptr_sel(1,6,7,11))
    fix i
    assume i: "nread s \<le> i" "i \<le> nread s + 255" "written s i" "\<not> (cleared s \<and> i = nread s)"
    then have "uint8_of i \<noteq> uint8_of n" using window_slot_eq [of s i n] own by auto
    then show "ring_at (sys_ring ?t) i = reserved_log s ! nat i"
      using inv_slotsD(3) [OF sl i] by (simp add: ring_at_def)
  next
    fix i assume "0 \<le> i" "i < int (length (reserved_log s))" "\<forall>v. held (sys_writer ?t v) \<noteq> Some i"
    moreover have "held (sys_writer ?t v) = held (sys_writer s v)" for v using pc by simp
    ultimately show "i \<le> nread s + 255" using inv_slotsD(1) [OF sl, of i] by simp
  qed (fact inv_slotsD [OF sl])+
  ultimately show "inv_counts ?t \<and> inv_writers ?t \<and> inv_slots ?t \<and> inv_reader (sys_reader ?t) ?t"
    using c rd by (cases "sys_reader s") (simp_all add: inv_counts_def same)
qed

definition do_code :: "nat \<Rightarrow> int \<Rightarrow> ring_sys \<Rightarrow> ring_sys" where
  "do_code w n s = s\<lparr>sys_ring := (sys_ring s)\<lparr>ring_code := (ring_code (sys_ring s))(uint8_of n := fst (sys_msg s w))\<rparr>,
      sys_writer := (sys_writer s)(w := WCode n)\<rparr>"

lemma do_code_sel [simp]:
  "reserved_log (do_code w n s) = reserved_log s" "delivered_log (do_code w n s) = delivered_log s"
  "sys_msg (do_code w n s) = sys_msg s" "sys_reader (do_code w n s) = sys_reader s"
  "full_raised (do_code w n s) = full_raised s" "cleared (do_code w n s) = cleared s"
  "nread (do_code w n s) = nread s" "next_write_release (sys_ring (do_code w n s)) = next_write_release (sys_ring s)"
  "next_write_reserve (sys_ring (do_code w n s)) = next_write_reserve (sys_ring s)"
  "ring_full (sys_ring (do_code w n s)) = ring_full (sys_ring s)"
  "ring_ptr (sys_ring (do_code w n s)) = ring_ptr (sys_ring s)"
  "ring_code (sys_ring (do_code w n s)) i =
     (if i = uint8_of n then fst (sys_msg s w) else ring_code (sys_ring s) i)"
  "sys_writer (do_code w n s) v = (if v = w then WCode n else sys_writer s v)"
  "index_ok k m (do_code w n s) = index_ok k m s"
  by (simp_all add: do_code_def cleared_def index_ok_def)

lemma do_code_held: "sys_writer s w = WPtr n \<Longrightarrow> held (sys_writer (do_code w n s) v) = held (sys_writer s v)"
  by simp

lemma do_code_holders:
  assumes "sys_writer s w = WPtr n"
  shows "holders (do_code w n s) = holders s" "holders_inj (do_code w n s) = holders_inj s"
  unfolding holders_def holders_inj_def do_code_held [OF assms] by (rule refl)+

lemma do_code_written:
  assumes "inv_writers s" and pc: "sys_writer s w = WPtr n"
  shows "written (do_code w n s) i \<longleftrightarrow> written s i \<or> i = n"
proof -
  have n: "0 \<le> n" "n < int (length (reserved_log s))"
    using held_index_ok [OF assms(1), of w n] pc by (auto simp: index_ok_def)
  have inj: "held (sys_writer s v) = Some n \<Longrightarrow> v = w" for v
    using holders_injD [of s v n w] assms by (auto simp: inv_writers_def)
  show ?thesis
  proof (cases "i = n")
    case True
    then show ?thesis using n inj by (auto simp: written_def)
  next
    case False
    have "(held (sys_writer (do_code w n s) v) = Some i \<longrightarrow> sys_writer (do_code w n s) v = WCode i) \<longleftrightarrow>
        (held (sys_writer s v) = Some i \<longrightarrow> sys_writer s v = WCode i)" for v
      using pc False by simp
    then show ?thesis using False by (simp add: written_def)
  qed
qed

lemma inv_w_code:
  assumes inv: "ring_sys_inv s" and pc: "sys_writer s w = WPtr n"
  shows "ring_sys_inv (do_code w n s)"
  using inv do_code_sel(5)
proof (rule ring_ok_step)
  let ?t = "do_code w n s"
  assume c: "inv_counts s" and w: "inv_writers s" and sl: "inv_slots s" and rd: "inv_reader (sys_reader s) s"
  note own = owned_slot [OF w sl disjI2, OF pc]
  note wr = do_code_written [OF w pc]
  have "writer_ok p m s \<Longrightarrow> writer_ok p m ?t" for p m by (cases p) simp_all
  moreover have "writer_ok (WCode n) (sys_msg s w) ?t" using own by simp
  ultimately have "inv_writers ?t" using w by (simp add: inv_writers_def do_code_holders [OF pc])
  moreover have "inv_slots ?t"
  proof (rule inv_slotsI, unfold wr do_code_sel(1,6,7))
    fix i
    assume i: "nread s \<le> i" "i \<le> nread s + 255" "written s i \<or> i = n" "\<not> (cleared s \<and> i = nread s)"
    show "ring_at (sys_ring ?t) i = reserved_log s ! nat i"
    proof (cases "i = n")
      case True
      then show ?thesis using own(4) writer_okD [OF w, of w] pc by (simp add: ring_at_def index_ok_def)
    next
      case False
      then have "uint8_of i \<noteq> uint8_of n" using window_slot_eq [of s i n] own i by auto
      then show ?thesis using inv_slotsD(3) [OF sl i(1,2)] i False by (simp add: ring_at_def)
    qed
  next
    fix i
    assume i: "nread s \<le> i" "i \<le> nread s + 255" "\<not> (written s i \<or> i = n) \<or> cleared s \<and> i = nread s"
    have "cleared s \<Longrightarrow> written s (nread s)" using rd by (auto simp: cleared_def)
    then have "i \<noteq> n" using i(3) own(3) by auto
    then have "uint8_of i \<noteq> uint8_of n" using window_slot_eq [of s i n] own i by auto
    then show "ring_code (sys_ring ?t) (uint8_of i) = 0"
      using inv_slotsD(4) [OF sl i(1,2)] i(3) by auto
  next
    fix i assume "0 \<le> i" "i < int (length (reserved_log s))" "\<forall>v. held (sys_writer ?t v) \<noteq> Some i"
    moreover have "held (sys_writer ?t v) = held (sys_writer s v)" for v using pc by simp
    ultimately show "i \<le> nread s + 255" using inv_slotsD(1) [OF sl, of i] by simp
  next
    fix i assume "0 \<le> i" "i < nread s"
    then show "written s i \<or> i = n" using inv_slotsD(2) [OF sl] by blast
  qed
  ultimately show "inv_counts ?t \<and> inv_writers ?t \<and> inv_slots ?t \<and> inv_reader (sys_reader ?t) ?t"
    using c rd by (cases "sys_reader s") (auto simp: inv_counts_def do_code_holders [OF pc] wr)
qed

definition do_release :: "nat \<Rightarrow> ring_sys \<Rightarrow> ring_sys" where
  "do_release w s = s\<lparr>sys_ring := (sys_ring s)\<lparr>next_write_release := next_write_release (sys_ring s) + 1\<rparr>,
      sys_writer := (sys_writer s)(w := WIdle)\<rparr>"

lemma do_release_sel [simp]:
  "reserved_log (do_release w s) = reserved_log s" "delivered_log (do_release w s) = delivered_log s"
  "sys_msg (do_release w s) = sys_msg s" "sys_reader (do_release w s) = sys_reader s"
  "full_raised (do_release w s) = full_raised s" "cleared (do_release w s) = cleared s"
  "nread (do_release w s) = nread s"
  "next_write_release (sys_ring (do_release w s)) = next_write_release (sys_ring s) + 1"
  "next_write_reserve (sys_ring (do_release w s)) = next_write_reserve (sys_ring s)"
  "ring_full (sys_ring (do_release w s)) = ring_full (sys_ring s)"
  "ring_ptr (sys_ring (do_release w s)) = ring_ptr (sys_ring s)"
  "ring_code (sys_ring (do_release w s)) = ring_code (sys_ring s)"
  "ring_at (sys_ring (do_release w s)) = ring_at (sys_ring s)"
  "sys_writer (do_release w s) v = (if v = w then WIdle else sys_writer s v)"
  "index_ok k m (do_release w s) = index_ok k m s"
  by (simp_all add: do_release_def cleared_def index_ok_def ring_at_def fun_eq_iff)

lemma do_release_holders:
  "holders (do_release w s) = holders s - {w}"
  "holders_inj s \<Longrightarrow> holders_inj (do_release w s)"
  by (auto simp: holders_def holders_inj_def split: if_splits)

lemma do_release_written:
  assumes pc: "sys_writer s w = WCode n"
  shows "written (do_release w s) = written s"
proof
  fix i
  have "(held (sys_writer (do_release w s) v) = Some i \<longrightarrow> sys_writer (do_release w s) v = WCode i) \<longleftrightarrow>
      (held (sys_writer s v) = Some i \<longrightarrow> sys_writer s v = WCode i)" for v
    using pc by simp
  then show "written (do_release w s) i = written s i" by (simp add: written_def)
qed

lemma inv_w_release:
  assumes inv: "ring_sys_inv s" and pc: "sys_writer s w = WCode n"
  shows "ring_sys_inv (do_release w s)"
  using inv do_release_sel(5)
proof (rule ring_ok_step)
  let ?t = "do_release w s"
  assume c: "inv_counts s" and w: "inv_writers s" and sl: "inv_slots s" and rd: "inv_reader (sys_reader s) s"
  have wh: "w \<in> holders s" using pc by (simp add: holders_def)
  then have "0 < card (holders s)" using c by (auto simp: inv_counts_def card_gt_0_iff)
  then have "inv_counts ?t"
    using c wh by (simp add: inv_counts_def do_release_holders card_Diff_singleton of_nat_diff)
  moreover have "writer_ok p m s \<Longrightarrow> writer_ok p m ?t" for p m by (cases p) simp_all
  then have "inv_writers ?t" using w by (simp add: inv_writers_def do_release_holders)
  moreover have "inv_slots ?t"
  proof (rule inv_slotsI, unfold do_release_written [OF pc] do_release_sel(1,6,7,12,13))
    fix i assume i: "0 \<le> i" "i < int (length (reserved_log s))" "\<forall>v. held (sys_writer ?t v) \<noteq> Some i"
    show "i \<le> nread s + 255"
    proof (cases "i = n")
      case True
      then show ?thesis using writer_okD [OF w, of w] pc by simp
    next
      case False
      have "held (sys_writer s v) \<noteq> Some i" for v using i(3) [rule_format, of v] pc False by (cases "v = w") auto
      then show ?thesis using inv_slotsD(1) [OF sl i(1,2)] by simp
    qed
  qed (fact inv_slotsD [OF sl])+
  ultimately show "inv_counts ?t \<and> inv_writers ?t \<and> inv_slots ?t \<and> inv_reader (sys_reader ?t) ?t"
    using rd by (cases "sys_reader s") (auto simp: do_release_written [OF pc])
qed

section \<open>Reader steps\<close>

lemma reader_move:
  assumes inv: "ring_sys_inv s" and t: "t = s\<lparr>sys_reader := p, delivered_log := d\<rparr>"
    and nc: "\<forall>i c q. sys_reader s \<noteq> RIncr i c q" "\<forall>i c q. p \<noteq> RIncr i c q"
    and rd: "inv_counts s \<Longrightarrow> inv_slots s \<Longrightarrow> inv_reader (sys_reader s) s \<Longrightarrow> inv_reader p t"
  shows "ring_sys_inv t"
proof -
  have cl: "cleared t = cleared s" using nc by (simp add: cleared_def t)
  have same: "holders t = holders s" "written t = written s" "holders_inj t = holders_inj s"
    by (simp_all add: t holders_def holders_inj_def written_def fun_eq_iff)
  have w: "writer_ok q m t = writer_ok q m s" for q m by (cases q) (simp_all add: t index_ok_def)
  have "inv_counts t = inv_counts s" by (simp add: inv_counts_def same) (simp add: t)
  moreover have "inv_writers t = inv_writers s" by (simp add: inv_writers_def w same) (simp add: t)
  moreover have "inv_slots t = inv_slots s" by (simp add: inv_slots_def same cl) (simp add: t)
  ultimately show ?thesis using inv rd by (auto simp: ring_sys_inv_def t)
qed

lemma delivered_same: "s\<lparr>sys_reader := p\<rparr> = s\<lparr>sys_reader := p, delivered_log := delivered_log s\<rparr>"
  by simp

lemmas reader_local = reader_move [OF _ delivered_same]

lemma inv_reader_cong:
  assumes "sys_ring t = sys_ring s" "reserved_log t = reserved_log s" "delivered_log t = delivered_log s"
    "sys_writer t = sys_writer s"
  shows "inv_reader p t = inv_reader p s"
proof -
  have "written t = written s" using assms by (simp add: written_def fun_eq_iff)
  then show ?thesis using assms by (cases p) simp_all
qed

lemma written_reader_upd [simp]: "written (s\<lparr>sys_reader := p\<rparr>) = written s"
  "written (s\<lparr>sys_reader := p, delivered_log := d\<rparr>) = written s"
  by (simp_all add: written_def fun_eq_iff)

lemma inv_r_start:
  assumes "ring_sys_inv s" "sys_reader s = RIdle"
  shows "ring_sys_inv (s\<lparr>sys_reader := RTest (nread s)\<rparr>)"
  using assms(1) by (rule reader_local) (simp_all add: assms)

lemma inv_r_start_abort:
  assumes "ring_sys_inv s" "sys_reader s = RIdle" "nread s < 0"
  shows "ring_sys_inv (s\<lparr>sys_reader := RAborted\<rparr>)"
  using assms by (simp add: ring_sys_inv_def inv_counts_def)

lemma inv_r_enter:
  assumes "ring_sys_inv s" "sys_reader s = RTest i" "i < next_write_release (sys_ring s)"
  shows "ring_sys_inv (s\<lparr>sys_reader := RLoad i\<rparr>)"
  using assms(1) by (rule reader_local) (use assms in simp_all)

lemma inv_r_leave:
  assumes "ring_sys_inv s" "sys_reader s = RTest i"
  shows "ring_sys_inv (s\<lparr>sys_reader := RFullTest\<rparr>)"
  using assms(1) by (rule reader_local) (use assms in simp_all)

lemma not_cleared: "\<forall>i c p. sys_reader s \<noteq> RIncr i c p \<Longrightarrow> \<not> cleared s"
  by (simp add: cleared_def)

lemma inv_r_code:
  assumes "ring_sys_inv s" "sys_reader s = RLoad i"
  shows "ring_sys_inv (s\<lparr>sys_reader := RLoadPtr i (ring_code (sys_ring s) (uint8_of i))\<rparr>)"
  using assms(1)
proof (rule reader_local)
  assume c: "inv_counts s" and sl: "inv_slots s" and rd: "inv_reader (sys_reader s) s"
  let ?c = "ring_code (sys_ring s) (uint8_of i)"
  have i: "i = nread s" "i < next_write_release (sys_ring s)" using rd assms(2) by simp_all
  have nc: "\<not> cleared s" using assms(2) by (simp add: cleared_def)
  have "written s i \<and> ?c = fst (reserved_log s ! nat i)" if "?c \<noteq> 0"
  proof -
    have wr: "written s i" using inv_slotsD(4) [OF sl, of i] that i by auto
    then have "ring_at (sys_ring s) i = reserved_log s ! nat i"
      using inv_slotsD(3) [OF sl, of i] nc i by simp
    then show ?thesis using wr by (simp add: ring_at_def prod_eq_iff)
  qed
  then show "inv_reader (RLoadPtr i ?c) (s\<lparr>sys_reader := RLoadPtr i ?c\<rparr>)"
    using rd assms(2) by simp
qed (use assms in simp_all)

lemma inv_r_ptr:
  assumes "ring_sys_inv s" "sys_reader s = RLoadPtr i c" "c \<noteq> 0"
  shows "ring_sys_inv (s\<lparr>sys_reader := RClear i c (ring_ptr (sys_ring s) (uint8_of i))\<rparr>)"
  using assms(1)
proof (rule reader_local)
  assume c: "inv_counts s" and sl: "inv_slots s" and rd: "inv_reader (sys_reader s) s"
  let ?p = "ring_ptr (sys_ring s) (uint8_of i)"
  have i: "i = nread s" "written s i" "c = fst (reserved_log s ! nat i)" using rd assms(2,3) by auto
  moreover have "ring_at (sys_ring s) i = reserved_log s ! nat i"
    using inv_slotsD(3) [OF sl, of i] i assms(2) by (simp add: cleared_def)
  ultimately have "(c, ?p) = reserved_log s ! nat i" by (auto simp: ring_at_def prod_eq_iff)
  then show "inv_reader (RClear i c ?p) (s\<lparr>sys_reader := RClear i c ?p\<rparr>)"
    using rd assms(2) i by simp
qed (use assms in simp_all)

lemma inv_r_nil:
  assumes "ring_sys_inv s" "sys_reader s = RLoadPtr i c"
  shows "ring_sys_inv (s\<lparr>sys_reader := RTest i\<rparr>)"
  using assms(1) by (rule reader_local) (use assms in simp_all)

lemma inv_r_call:
  assumes "ring_sys_inv s" "sys_reader s = RCall i c p"
  shows "ring_sys_inv (s\<lparr>sys_reader := RTest (i + 1), delivered_log := delivered_log s @ [(c, p)]\<rparr>)"
  using assms(1)
proof (rule reader_move [OF _ refl])
  assume "inv_reader (sys_reader s) s"
  then have i: "i + 1 = nread s" "0 \<le> i" "i < int (length (reserved_log s))"
    "delivered_log s = take (nat i) (reserved_log s)" "(c, p) = reserved_log s ! nat i"
    using assms(2) by simp_all
  then have "delivered_log s @ [(c, p)] = take (Suc (nat i)) (reserved_log s)"
    by (simp add: take_Suc_conv_app_nth nat_less_iff)
  moreover have "Suc (nat i) = nat (nread s)" using i(1,2) by linarith
  ultimately show "inv_reader (RTest (i + 1))
      (s\<lparr>sys_reader := RTest (i + 1), delivered_log := delivered_log s @ [(c, p)]\<rparr>)"
    using i(1) by simp
qed (use assms in simp_all)

lemma inv_r_not_full:
  assumes "ring_sys_inv s" "sys_reader s = RFullTest"
  shows "ring_sys_inv (s\<lparr>sys_reader := RIdle\<rparr>)"
  using assms(1) by (rule reader_local) (use assms in simp_all)

text \<open>The reset of a full ring is never entered while \<open>full_raised\<close> is false.\<close>

lemma inv_r_reset:
  assumes "ring_sys_inv s"
    and "sys_reader s = RFullTest \<and> ring_full (sys_ring s) \<or> sys_reader s = RResetLoad \<or>
      (\<exists>v. sys_reader s = RResetStore v) \<or> sys_reader s = RAssert \<or> (\<exists>v. sys_reader s = RAssert2 v) \<or>
      sys_reader s = RClearFull"
    and "full_raised t = full_raised s"
  shows "ring_sys_inv t"
  using assms by (auto simp: ring_sys_inv_def inv_counts_def)

definition do_clear :: "ring_sys \<Rightarrow> int \<Rightarrow> 8 word \<Rightarrow> addr \<Rightarrow> ring_sys" where
  "do_clear s i c p = s\<lparr>sys_ring := (sys_ring s)\<lparr>ring_code := (ring_code (sys_ring s))(uint8_of i := 0)\<rparr>,
      sys_reader := RIncr i c p\<rparr>"

lemma do_clear_sel [simp]:
  "reserved_log (do_clear s i c p) = reserved_log s" "delivered_log (do_clear s i c p) = delivered_log s"
  "sys_msg (do_clear s i c p) = sys_msg s" "sys_writer (do_clear s i c p) = sys_writer s"
  "full_raised (do_clear s i c p) = full_raised s" "cleared (do_clear s i c p)"
  "nread (do_clear s i c p) = nread s"
  "next_write_release (sys_ring (do_clear s i c p)) = next_write_release (sys_ring s)"
  "next_write_reserve (sys_ring (do_clear s i c p)) = next_write_reserve (sys_ring s)"
  "ring_full (sys_ring (do_clear s i c p)) = ring_full (sys_ring s)"
  "ring_ptr (sys_ring (do_clear s i c p)) = ring_ptr (sys_ring s)"
  "ring_code (sys_ring (do_clear s i c p)) k =
     (if k = uint8_of i then 0 else ring_code (sys_ring s) k)"
  "sys_reader (do_clear s i c p) = RIncr i c p"
  "index_ok l m (do_clear s i c p) = index_ok l m s"
  "written (do_clear s i c p) = written s" "holders (do_clear s i c p) = holders s"
  "holders_inj (do_clear s i c p) = holders_inj s"
  by (simp_all add: do_clear_def cleared_def index_ok_def written_def holders_def holders_inj_def fun_eq_iff)

lemma inv_r_clear:
  assumes inv: "ring_sys_inv s" and pc: "sys_reader s = RClear i c p"
  shows "ring_sys_inv (do_clear s i c p)"
  using inv do_clear_sel(5)
proof (rule ring_ok_step)
  let ?t = "do_clear s i c p"
  assume c: "inv_counts s" and w: "inv_writers s" and sl: "inv_slots s" and rd: "inv_reader (sys_reader s) s"
  have i: "i = nread s" using rd pc by simp
  have nc: "\<not> cleared s" using pc by (simp add: cleared_def)
  have "writer_ok q m s \<Longrightarrow> writer_ok q m ?t" for q m by (cases q) simp_all
  then have "inv_writers ?t" using w by (simp add: inv_writers_def)
  moreover have "inv_slots ?t"
  proof (rule inv_slotsI, unfold do_clear_sel(1,4,7,15))
    fix k
    assume k: "nread s \<le> k" "k \<le> nread s + 255" "written s k" "\<not> (cleared ?t \<and> k = nread s)"
    then have "uint8_of k \<noteq> uint8_of i" using window_slot_eq [of s k i] i by auto
    then show "ring_at (sys_ring ?t) k = reserved_log s ! nat k"
      using inv_slotsD(3) [OF sl k(1-3)] nc by (simp add: ring_at_def)
  next
    fix k
    assume k: "nread s \<le> k" "k \<le> nread s + 255" "\<not> written s k \<or> cleared ?t \<and> k = nread s"
    then show "ring_code (sys_ring ?t) (uint8_of k) = 0"
      using inv_slotsD(4) [OF sl k(1,2)] i by auto
  qed (fact inv_slotsD [OF sl])+
  ultimately show "inv_counts ?t \<and> inv_writers ?t \<and> inv_slots ?t \<and> inv_reader (sys_reader ?t) ?t"
    using c rd pc by (auto simp: inv_counts_def)
qed

definition do_incr :: "ring_sys \<Rightarrow> int \<Rightarrow> 8 word \<Rightarrow> addr \<Rightarrow> ring_sys" where
  "do_incr s i c p = s\<lparr>sys_ring := (sys_ring s)\<lparr>next_read := nread s + 1\<rparr>, sys_reader := RCall i c p\<rparr>"

lemma do_incr_sel [simp]:
  "reserved_log (do_incr s i c p) = reserved_log s" "delivered_log (do_incr s i c p) = delivered_log s"
  "sys_msg (do_incr s i c p) = sys_msg s" "sys_writer (do_incr s i c p) = sys_writer s"
  "full_raised (do_incr s i c p) = full_raised s" "cleared (do_incr s i c p) = False"
  "nread (do_incr s i c p) = nread s + 1"
  "next_write_release (sys_ring (do_incr s i c p)) = next_write_release (sys_ring s)"
  "next_write_reserve (sys_ring (do_incr s i c p)) = next_write_reserve (sys_ring s)"
  "ring_full (sys_ring (do_incr s i c p)) = ring_full (sys_ring s)"
  "ring_ptr (sys_ring (do_incr s i c p)) = ring_ptr (sys_ring s)"
  "ring_code (sys_ring (do_incr s i c p)) = ring_code (sys_ring s)"
  "ring_at (sys_ring (do_incr s i c p)) = ring_at (sys_ring s)"
  "sys_reader (do_incr s i c p) = RCall i c p"
  "index_ok k m (do_incr s i c p) = index_ok k m s"
  "written (do_incr s i c p) = written s" "holders (do_incr s i c p) = holders s"
  "holders_inj (do_incr s i c p) = holders_inj s"
  by (simp_all add: do_incr_def cleared_def index_ok_def written_def holders_def holders_inj_def
      ring_at_def fun_eq_iff)

text \<open>No message is in a slot beyond the window of 256.\<close>

lemma written_in_window:
  assumes w: "inv_writers s" and sl: "inv_slots s" and wr: "written s k"
  shows "k \<le> nread s + 255"
proof (cases "\<exists>v. held (sys_writer s v) = Some k")
  case True
  then obtain v where "held (sys_writer s v) = Some k" by blast
  then have "sys_writer s v = WCode k" using wr by (rule writtenD [rotated])
  then show ?thesis using writer_okD [OF w, of v] by simp
next
  case False
  then show ?thesis using inv_slotsD(1) [OF sl, of k] wr by (simp add: written_def)
qed

lemma inv_r_incr:
  assumes inv: "ring_sys_inv s" and pc: "sys_reader s = RIncr i c p"
  shows "ring_sys_inv (do_incr s i c p)"
  using inv do_incr_sel(5)
proof (rule ring_ok_step)
  let ?t = "do_incr s i c p"
  assume c: "inv_counts s" and w: "inv_writers s" and sl: "inv_slots s" and rd: "inv_reader (sys_reader s) s"
  have i: "i = nread s" "i < next_write_release (sys_ring s)" "written s i"
    "(c, p) = reserved_log s ! nat i" "delivered_log s = take (nat i) (reserved_log s)"
    using rd pc by auto
  have cl: "cleared s" using pc by (auto simp: cleared_def)
  have "writer_ok q m s \<Longrightarrow> writer_ok q m ?t" for q m by (cases q) simp_all
  then have "inv_writers ?t" using w by (simp add: inv_writers_def)
  moreover have "inv_slots ?t"
  proof (rule inv_slotsI, unfold do_incr_sel(1,4,6,7,12,13,16))
    fix k assume "0 \<le> k" "k < nread s + 1"
    then show "written s k" using inv_slotsD(2) [OF sl, of k] i by (cases "k = nread s") auto
  next
    fix k assume k: "nread s + 1 \<le> k" "k \<le> nread s + 1 + 255" "written s k"
    then show "ring_at (sys_ring s) k = reserved_log s ! nat k"
      using inv_slotsD(3) [OF sl, of k] written_in_window [OF w sl k(3)] by simp
  next
    fix k assume k: "nread s + 1 \<le> k" "k \<le> nread s + 1 + 255" "\<not> written s k \<or> False \<and> k = nread s + 1"
    show "ring_code (sys_ring s) (uint8_of k) = 0"
    proof (cases "k = nread s + 256")
      case True
      then have "uint8_of k = uint8_of (nread s)" by (simp add: uint8_of_def)
      then show ?thesis using inv_slotsD(4) [OF sl, of "nread s"] cl by simp
    next
      case False
      then show ?thesis using inv_slotsD(4) [OF sl, of k] k by simp
    qed
  next
    fix k assume k: "0 \<le> k" "k < int (length (reserved_log s))" "\<forall>v. held (sys_writer s v) \<noteq> Some k"
    then show "k \<le> nread s + 1 + 255" using inv_slotsD(1) [OF sl k] by simp
  qed
  ultimately show "inv_counts ?t \<and> inv_writers ?t \<and> inv_slots ?t \<and> inv_reader (sys_reader ?t) ?t"
    using c i by (simp add: inv_counts_def written_def)
qed

section \<open>Every step keeps the invariant\<close>

lemma writer_step_inv: "writer_step s t \<Longrightarrow> ring_sys_inv s \<Longrightarrow> ring_sys_inv t"
proof (induction rule: writer_step.induct)
  case (w_reserve s w r)
  then show ?case using inv_w_reserve [of s w] by (simp add: do_reserve_def)
next
  case (w_ptr s w n r)
  then show ?case using inv_w_ptr [of s w n] by (simp add: do_ptr_def)
next
  case (w_code s w n r)
  then show ?case using inv_w_code [of s w n] by (simp add: do_code_def)
next
  case (w_release s w n r)
  then show ?case using inv_w_release [of s w n] by (simp add: do_release_def)
qed (auto intro: inv_w_start inv_w_load inv_w_test inv_w_have inv_w_raise inv_w_late_full inv_w_assert)

lemma reader_step_inv: "reader_step s t \<Longrightarrow> ring_sys_inv s \<Longrightarrow> ring_sys_inv t"
proof (induction rule: reader_step.induct)
  case (r_clear s i c p r)
  then show ?case using inv_r_clear [of s i c p] by (simp add: do_clear_def)
next
  case (r_incr s i c p r)
  then show ?case using inv_r_incr [of s i c p] by (simp add: do_incr_def)
next
  case (r_full s)
  then show ?case by (auto intro: inv_r_reset [of s])
next
  case (r_reset_load s)
  then show ?case by (auto intro: inv_r_reset [of s])
next
  case (r_reset_store s v)
  then show ?case by (auto intro: inv_r_reset [of s])
next
  case (r_assert s)
  then show ?case by (auto intro: inv_r_reset [of s])
next
  case (r_assert_ok s v)
  then show ?case by (auto intro: inv_r_reset [of s])
next
  case (r_assert_fail s v)
  then show ?case by (auto intro: inv_r_reset [of s])
next
  case (r_clear_full s)
  then show ?case by (auto intro: inv_r_reset [of s])
qed (auto intro: inv_r_start inv_r_start_abort inv_r_enter inv_r_leave inv_r_code inv_r_ptr inv_r_nil
    inv_r_call inv_r_not_full)

interpretation ring_system: invariant_system "\<lambda>s. s = ring_sys_init" ring_step ring_sys_inv
  by unfold_locales
    (auto simp: ring_sys_inv_init ring_step_def intro: writer_step_inv reader_step_inv)

end
