(* ===== verification/IPC_Ring_Runs.thy ===== *)
theory IPC_Ring_Runs
  imports IPC_Ring_Conc
begin

text \<open>
  Runs of the concurrent ring: what the undisturbed steps of one writer or of the reader
  compute, the delivery guarantee of arbitrary interleavings, and the runs through a full
  ring in which the reset of \<^verbatim>\<open>next_write_reserve\<close> goes wrong.
\<close>


section \<open>Undisturbed runs\<close>

text \<open>The state after writer \<open>w\<close> has sent \<open>m\<close> with no other process moving.\<close>

definition sent :: "nat \<Rightarrow> ipc_msg \<Rightarrow> ring_sys \<Rightarrow> ring_sys" where
  "sent w m s = s\<lparr>sys_ring := ring_written (sys_ring s) (fst m) (snd m),
     sys_msg := (sys_msg s)(w := m), reserved_log := reserved_log s @ [m]\<rparr>"

lemma ring_stepI: "writer_step s t \<Longrightarrow> ring_step s t" "reader_step s t \<Longrightarrow> ring_step s t"
  by (simp_all add: ring_step_def)

lemma steps_snoc: "ring_step\<^sup>*\<^sup>* s t \<Longrightarrow> writer_step t u \<or> reader_step t u \<Longrightarrow> ring_step\<^sup>*\<^sup>* s u"
  by (auto intro: rtranclp.rtrancl_into_rtrancl simp: ring_step_def)

text \<open>A writer takes its reservation and passes its checks.\<close>

definition reserved :: "nat \<Rightarrow> ipc_msg \<Rightarrow> ring_sys \<Rightarrow> ring_sys" where
  "reserved w m s =
     s\<lparr>sys_ring := (sys_ring s)\<lparr>next_write_reserve := next_write_reserve (sys_ring s) + 1\<rparr>,
       sys_writer := (sys_writer s)(w := WTested (next_write_reserve (sys_ring s)) (nread s)),
       sys_msg := (sys_msg s)(w := m), reserved_log := reserved_log s @ [m]\<rparr>"

lemma run_reserved:
  assumes idle: "sys_writer s w = WIdle" and m: "fst m \<noteq> 0" and nf: "\<not> ring_full (sys_ring s)"
  shows "ring_step\<^sup>*\<^sup>* s (reserved w m s)"
proof -
  let ?n = "next_write_reserve (sys_ring s)" and ?r = "(sys_ring s)\<lparr>next_write_reserve := next_write_reserve (sys_ring s) + 1\<rparr>"
  let ?f = "\<lambda>pc. s\<lparr>sys_ring := ?r, sys_writer := (sys_writer s)(w := pc),
      sys_msg := (sys_msg s)(w := m), reserved_log := reserved_log s @ [m]\<rparr>"
  let ?a = "s\<lparr>sys_writer := (sys_writer s)(w := WChecked), sys_msg := (sys_msg s)(w := m)\<rparr>"
  have "writer_step s ?a" using idle m nf by (rule writer_step.w_start)
  moreover have "writer_step ?a (?f (WReserved ?n))"
    using writer_step.w_reserve [of ?a w "sys_ring ?a"] by (cases s) simp
  moreover have "writer_step (?f (WReserved ?n)) (?f (WLoaded ?n (nread s)))"
    using writer_step.w_load [of "?f (WReserved ?n)" w ?n] by (cases s) simp
  moreover have "writer_step (?f (WLoaded ?n (nread s))) (?f (WTested ?n (nread s)))"
    using writer_step.w_test [of "?f (WLoaded ?n (nread s))" w ?n "nread s"] nf by (cases s) simp
  ultimately have "ring_step\<^sup>*\<^sup>* s (?f (WTested ?n (nread s)))"
    by (meson ring_stepI(1) converse_rtranclp_into_rtranclp rtranclp.rtrancl_refl)
  then show ?thesis by (cases s) (simp add: reserved_def)
qed

lemma run_sent:
  assumes idle: "sys_writer s w = WIdle" and m: "fst m \<noteq> 0" and nf: "\<not> ring_full (sys_ring s)"
    and n: "0 \<le> next_write_reserve (sys_ring s)" "next_write_reserve (sys_ring s) - nread s \<le> 255"
  shows "ring_step\<^sup>*\<^sup>* s (sent w m s)"
proof -
  let ?n = "next_write_reserve (sys_ring s)" and ?r = "sys_ring (reserved w m s)"
  let ?r1 = "?r\<lparr>ring_ptr := (ring_ptr ?r)(uint8_of ?n := snd m)\<rparr>"
  let ?r2 = "?r1\<lparr>ring_code := (ring_code ?r)(uint8_of ?n := fst m)\<rparr>"
  let ?f = "\<lambda>r pc. (reserved w m s)\<lparr>sys_ring := r, sys_writer := (sys_writer s)(w := pc)\<rparr>"
  have "writer_step (reserved w m s) (?f ?r (WHave ?n))"
    using writer_step.w_have [of "reserved w m s" w ?n "nread s"] n(2) by (cases s) (simp add: reserved_def)
  moreover have "writer_step (?f ?r (WHave ?n)) (?f ?r1 (WPtr ?n))"
    using writer_step.w_ptr [of "?f ?r (WHave ?n)" w ?n "sys_ring (?f ?r (WHave ?n))"] n(1)
    by (cases s) (simp add: reserved_def)
  moreover have "writer_step (?f ?r1 (WPtr ?n)) (?f ?r2 (WCode ?n))"
    using writer_step.w_code [of "?f ?r1 (WPtr ?n)" w ?n "sys_ring (?f ?r1 (WPtr ?n))"]
    by (cases s) (simp add: reserved_def)
  moreover have "writer_step (?f ?r2 (WCode ?n)) (sent w m s)"
    using writer_step.w_release [of "?f ?r2 (WCode ?n)" w ?n "sys_ring (?f ?r2 (WCode ?n))"] idle
    by (cases s) (simp add: reserved_def sent_def ring_written_def fun_upd_idem)
  ultimately have "ring_step\<^sup>*\<^sup>* (reserved w m s) (sent w m s)"
    by (meson ring_stepI(1) converse_rtranclp_into_rtranclp rtranclp.rtrancl_refl)
  then show ?thesis using run_reserved [OF idle m nf] by (rule rtranclp_trans [rotated])
qed

text \<open>A writer that finds the ring full.\<close>

definition raised :: "nat \<Rightarrow> ipc_msg \<Rightarrow> ring_sys \<Rightarrow> ring_sys" where
  "raised w m s =
     s\<lparr>sys_ring := (sys_ring s)\<lparr>next_write_reserve := next_write_reserve (sys_ring s) + 1, ring_full := True\<rparr>,
       sys_msg := (sys_msg s)(w := m), reserved_log := reserved_log s @ [m], full_raised := True\<rparr>"

lemma run_raised:
  assumes idle: "sys_writer s w = WIdle" and m: "fst m \<noteq> 0" and nf: "\<not> ring_full (sys_ring s)"
    and n: "next_write_reserve (sys_ring s) - nread s > 255"
  shows "ring_step\<^sup>*\<^sup>* s (raised w m s)"
proof -
  have "writer_step (reserved w m s) (raised w m s)"
    using writer_step.w_raise [of "reserved w m s" w "next_write_reserve (sys_ring s)" "nread s"] n idle
    by (cases s) (simp add: reserved_def raised_def fun_upd_idem)
  then show ?thesis using run_reserved [OF idle m nf] by (blast intro: steps_snoc)
qed

text \<open>The reader takes one message out and hands it to its handler.\<close>

definition received :: "ring_sys \<Rightarrow> ring_sys" where
  "received s = s\<lparr>sys_ring := ring_taken (sys_ring s), sys_reader := RTest (nread s + 1),
     delivered_log := delivered_log s @ [ring_at (sys_ring s) (nread s)]\<rparr>"

lemma run_received:
  assumes rd: "sys_reader s = RTest (nread s)" and lt: "nread s < next_write_release (sys_ring s)"
    and nz: "ring_code (sys_ring s) (uint8_of (nread s)) \<noteq> 0"
  shows "ring_step\<^sup>*\<^sup>* s (received s)"
proof -
  let ?i = "nread s" and ?r = "sys_ring s"
  let ?c = "ring_code ?r (uint8_of ?i)" and ?p = "ring_ptr ?r (uint8_of ?i)"
  let ?r1 = "?r\<lparr>ring_code := (ring_code ?r)(uint8_of ?i := 0)\<rparr>"
  let ?f = "\<lambda>r pc. s\<lparr>sys_ring := r, sys_reader := pc\<rparr>"
  have "reader_step s (?f ?r (RLoad ?i))" using reader_step.r_enter [OF rd lt] by simp
  moreover have "reader_step (?f ?r (RLoad ?i)) (?f ?r (RLoadPtr ?i ?c))"
    using reader_step.r_code [of "?f ?r (RLoad ?i)" ?i] by (cases s) simp
  moreover have "reader_step (?f ?r (RLoadPtr ?i ?c)) (?f ?r (RClear ?i ?c ?p))"
    using reader_step.r_ptr [of "?f ?r (RLoadPtr ?i ?c)" ?i ?c] nz by (cases s) simp
  moreover have "reader_step (?f ?r (RClear ?i ?c ?p)) (?f ?r1 (RIncr ?i ?c ?p))"
    using reader_step.r_clear [of "?f ?r (RClear ?i ?c ?p)" ?i ?c ?p ?r] by (cases s) simp
  moreover have "reader_step (?f ?r1 (RIncr ?i ?c ?p)) (?f (ring_taken ?r) (RCall ?i ?c ?p))"
    using reader_step.r_incr [of "?f ?r1 (RIncr ?i ?c ?p)" ?i ?c ?p ?r1] by (cases s) (simp add: ring_taken_def)
  moreover have "reader_step (?f (ring_taken ?r) (RCall ?i ?c ?p)) (received s)"
    using reader_step.r_call [of "?f (ring_taken ?r) (RCall ?i ?c ?p)" ?i ?c ?p]
    by (cases s) (simp add: received_def ring_at_def)
  ultimately show ?thesis
    by (meson ring_stepI(2) converse_rtranclp_into_rtranclp rtranclp.rtrancl_refl)
qed


section \<open>Runs through a full ring\<close>

definition fill :: "nat \<Rightarrow> ring_sys \<Rightarrow> ring_sys" where
  "fill k s = (sent 0 (1, 0) ^^ k) s"

lemma sent_sel [simp]:
  "sys_writer (sent w m s) = sys_writer s" "sys_reader (sent w m s) = sys_reader s"
  "delivered_log (sent w m s) = delivered_log s" "full_raised (sent w m s) = full_raised s"
  "sys_ring (sent w m s) = ring_written (sys_ring s) (fst m) (snd m)"
  "sys_msg (sent w m s) v = (if v = w then m else sys_msg s v)"
  by (simp_all add: sent_def)

lemma fill_run:
  assumes "sys_writer s 0 = WIdle" "ring_inv (sys_ring s)" "\<not> ring_full (sys_ring s)"
    "ring_count (sys_ring s) = 0" "k \<le> 256"
  shows "ring_step\<^sup>*\<^sup>* s (fill k s) \<and> ring_inv (sys_ring (fill k s)) \<and>
    \<not> ring_full (sys_ring (fill k s)) \<and> ring_count (sys_ring (fill k s)) = k \<and>
    nread (fill k s) = nread s \<and> sys_writer (fill k s) = sys_writer s \<and>
    sys_reader (fill k s) = sys_reader s \<and> (\<forall>w. w \<noteq> 0 \<longrightarrow> sys_msg (fill k s) w = sys_msg s w)"
  using assms(5)
proof (induction k)
  case 0
  then show ?case using assms by (simp add: fill_def)
next
  case (Suc k)
  let ?s = "fill k s" and ?r = "sys_ring (fill k s)"
  have F: "fill (Suc k) s = sent 0 (1, 0) ?s" by (simp add: fill_def)
  have IH: "ring_step\<^sup>*\<^sup>* s ?s" "ring_inv ?r" "\<not> ring_full ?r" "ring_count ?r = k" "sys_writer ?s = sys_writer s"
    "nread ?s = nread s" "sys_reader ?s = sys_reader s" "\<forall>w. w \<noteq> 0 \<longrightarrow> sys_msg ?s w = sys_msg s w"
    using Suc by simp_all
  have res: "next_write_reserve ?r = next_read ?r + int k"
    using IH(2-4) by (auto simp: ring_inv_def ring_count_def)
  have "0 \<le> next_read ?r" using IH(2) by (simp add: ring_inv_def)
  then have "ring_step\<^sup>*\<^sup>* ?s (fill (Suc k) s)"
    unfolding F using IH assms(1) res Suc.prems by (intro run_sent) simp_all
  moreover have "ring_inv (ring_written ?r 1 0)" "\<not> ring_full (ring_written ?r 1 0)"
    using ring_written_facts [of ?r 1 0] IH Suc.prems by simp_all
  moreover have "ring_count (ring_written ?r 1 0) = Suc k"
    using IH(2,4) by (auto simp: ring_inv_def ring_count_def ring_written_def)
  moreover have "next_read (ring_written ?r 1 0) = nread s" using IH(6) by (simp add: ring_written_def)
  ultimately show ?case using IH unfolding F by (simp add: rtranclp_trans)
qed

lemma received_sel [simp]:
  "sys_writer (received s) = sys_writer s" "sys_msg (received s) = sys_msg s"
  "nread (received s) = nread s + 1" "sys_reader (received s) = RTest (nread s + 1)"
  "next_write_release (sys_ring (received s)) = next_write_release (sys_ring s)"
  "next_write_reserve (sys_ring (received s)) = next_write_reserve (sys_ring s)"
  "ring_full (sys_ring (received s)) = ring_full (sys_ring s)"
  "ring_code (sys_ring (received s)) i = (if i = uint8_of (nread s) then 0 else ring_code (sys_ring s) i)"
  by (simp_all add: received_def ring_taken_def)

lemma drain_run:
  assumes "sys_reader s = RTest (nread s)" "next_write_release (sys_ring s) = nread s + int n" "n \<le> 256"
    "\<forall>k < n. ring_code (sys_ring s) (uint8_of (nread s + int k)) \<noteq> 0"
  shows "\<exists>t. ring_step\<^sup>*\<^sup>* s t \<and> sys_reader t = RTest (nread t) \<and> nread t = nread s + int n \<and>
    next_write_release (sys_ring t) = next_write_release (sys_ring s) \<and>
    next_write_reserve (sys_ring t) = next_write_reserve (sys_ring s) \<and>
    ring_full (sys_ring t) = ring_full (sys_ring s) \<and> sys_writer t = sys_writer s \<and> sys_msg t = sys_msg s"
  using assms
proof (induction n arbitrary: s)
  case 0
  then show ?case by (auto intro!: exI [of _ s])
next
  case (Suc n)
  have nz: "ring_code (sys_ring s) (uint8_of (nread s)) \<noteq> 0" using Suc.prems(4)[rule_format, of 0] by simp
  have run: "ring_step\<^sup>*\<^sup>* s (received s)"
    using run_received [OF Suc.prems(1) _ nz] Suc.prems(2) by simp
  have "ring_code (sys_ring (received s)) (uint8_of (nread (received s) + int k)) \<noteq> 0" if "k < n" for k
  proof -
    have "uint8_of (nread s + int (Suc k)) \<noteq> uint8_of (nread s + int 0)"
      using uint8_window [of "Suc k" 0 "nread s"] that Suc.prems(3) by auto
    then show ?thesis using Suc.prems(4)[rule_format, of "Suc k"] that by (simp add: add.assoc)
  qed
  then obtain t where "ring_step\<^sup>*\<^sup>* (received s) t" "sys_reader t = RTest (nread t)"
      "nread t = nread s + 1 + int n" "next_write_release (sys_ring t) = next_write_release (sys_ring s)"
      "next_write_reserve (sys_ring t) = next_write_reserve (sys_ring s)"
      "ring_full (sys_ring t) = ring_full (sys_ring s)" "sys_writer t = sys_writer s" "sys_msg t = sys_msg s"
    using Suc.IH [of "received s"] Suc.prems by auto
  then show ?case using run by (intro exI [of _ t]) (auto intro: rtranclp_trans)
qed

text \<open>Resetting a full ring: the reader stores \<open>next_read\<close> in \<open>next_write_reserve\<close> and checks it.\<close>

definition reset :: "reader_pc \<Rightarrow> ring_sys \<Rightarrow> ring_sys" where
  "reset pc s = s\<lparr>sys_ring := (sys_ring s)\<lparr>next_write_reserve := nread s\<rparr>, sys_reader := pc\<rparr>"

lemma run_reset:
  assumes "sys_reader s = RFullTest" "ring_full (sys_ring s)"
  shows "ring_step\<^sup>*\<^sup>* s (reset (RAssert2 (nread s)) s)"
proof -
  let ?f = "\<lambda>pc. s\<lparr>sys_reader := pc\<rparr>"
  have "reader_step s (?f RResetLoad)" using assms by (rule reader_step.r_full)
  moreover have "reader_step (?f RResetLoad) (?f (RResetStore (nread s)))"
    using reader_step.r_reset_load [of "?f RResetLoad"] by simp
  moreover have "reader_step (?f (RResetStore (nread s))) (reset RAssert s)"
    using reader_step.r_reset_store [of "?f (RResetStore (nread s))" "nread s"] by (cases s) (simp add: reset_def)
  moreover have "reader_step (reset RAssert s) (reset (RAssert2 (nread s)) s)"
    using reader_step.r_assert [of "reset RAssert s"] by (cases s) (simp add: reset_def)
  ultimately show ?thesis
    by (meson ring_stepI(2) converse_rtranclp_into_rtranclp rtranclp.rtrancl_refl)
qed

lemma reader_init_leaves: "ring_step\<^sup>*\<^sup>* ring_sys_init (ring_sys_init\<lparr>sys_reader := RFullTest\<rparr>)"
proof -
  let ?a = "ring_sys_init\<lparr>sys_reader := RTest 0\<rparr>"
  have "reader_step ring_sys_init ?a"
    using reader_step.r_start [of ring_sys_init] by (simp add: ring_sys_init_def ringbuf_init_def)
  moreover have "reader_step ?a (ring_sys_init\<lparr>sys_reader := RFullTest\<rparr>)"
    using reader_step.r_leave [of ?a 0] by (simp add: ring_sys_init_def ringbuf_init_def)
  ultimately show ?thesis
    by (meson ring_stepI(2) converse_rtranclp_into_rtranclp rtranclp.rtrancl_refl)
qed

text \<open>The reset of a full ring can abort the reader.  There is a run with a single
  writer in which the reader has left its loop with nothing to read, the writer then
  sends 256 messages and finds the ring full before the reader tests \<^verbatim>\<open>in->full\<close>; the
  reader stores \<^verbatim>\<open>next_read\<close> in \<^verbatim>\<open>next_write_reserve\<close> and its
  \<^verbatim>\<open>assert(next_write_reserve == next_write_release)\<close> fails.\<close>

theorem ring_full_race_aborts:
  "\<exists>s. ring_step\<^sup>*\<^sup>* ring_sys_init s \<and> sys_reader s = RAborted \<and> (\<forall>w. w = 0 \<or> sys_msg s w = (0, 0))"
proof -
  let ?a = "ring_sys_init\<lparr>sys_reader := RTest 0\<rparr>" and ?b = "ring_sys_init\<lparr>sys_reader := RFullTest\<rparr>"
  let ?c = "fill 256 ?b" and ?d = "raised 0 (1, 0) (fill 256 ?b)"
  have b: "ring_step\<^sup>*\<^sup>* ring_sys_init ?b"
    using reader_init_leaves .
  have ring_b: "ring_inv (sys_ring ?b)" "ring_count (sys_ring ?b) = 0" "\<not> ring_full (sys_ring ?b)"
    using ring_inv_init by (simp_all add: ring_sys_init_def ringbuf_init_def ring_count_def)
  have c: "ring_step\<^sup>*\<^sup>* ?b ?c" "ring_inv (sys_ring ?c)" "\<not> ring_full (sys_ring ?c)"
    "ring_count (sys_ring ?c) = 256" "nread ?c = 0" "sys_writer ?c = (\<lambda>_. WIdle)" "sys_reader ?c = RFullTest"
    "\<forall>w. w \<noteq> 0 \<longrightarrow> sys_msg ?c w = (0, 0)"
    using fill_run [of ?b 256] ring_b by (simp_all add: ring_sys_init_def ringbuf_init_def)
  have "next_write_reserve (sys_ring ?c) = 256" "next_write_release (sys_ring ?c) = 256"
    using c(2-5) by (auto simp: ring_inv_def ring_count_def)
  then have d: "ring_step\<^sup>*\<^sup>* ?c ?d" using c by (intro run_raised) simp_all
  have sel: "sys_reader ?d = RFullTest" "ring_full (sys_ring ?d)" "nread ?d = 0"
    "next_write_release (sys_ring ?d) = 256" "\<forall>w. w \<noteq> 0 \<longrightarrow> sys_msg ?d w = (0, 0)"
    using c \<open>next_write_release (sys_ring ?c) = 256\<close> by (simp_all add: raised_def)
  have e: "ring_step\<^sup>*\<^sup>* ?d (reset (RAssert2 0) ?d)" using run_reset [OF sel(1,2)] sel(3) by simp
  have run: "ring_step\<^sup>*\<^sup>* ring_sys_init (reset (RAssert2 0) ?d)"
    using b c(1) d e by (meson rtranclp_trans)
  have "reader_step (reset (RAssert2 0) ?d) ((reset (RAssert2 0) ?d)\<lparr>sys_reader := RAborted\<rparr>)"
    by (rule reader_step.r_assert_fail [of _ 0]) (simp_all add: reset_def sel)
  then have "ring_step\<^sup>*\<^sup>* ring_sys_init ((reset (RAssert2 0) ?d)\<lparr>sys_reader := RAborted\<rparr>)"
    using run by (blast intro: steps_snoc)
  then show ?thesis using sel(5)
    by (intro exI [of _ "(reset (RAssert2 0) ?d)\<lparr>sys_reader := RAborted\<rparr>"]) (auto simp: reset_def)
qed


lemma run_reset_ok:
  assumes "sys_reader s = RTest (nread s)" "ring_full (sys_ring s)" "next_write_release (sys_ring s) = nread s"
  shows "ring_step\<^sup>*\<^sup>* s
    (s\<lparr>sys_ring := (sys_ring s)\<lparr>next_write_reserve := nread s, ring_full := False\<rparr>, sys_reader := RIdle\<rparr>)"
    (is "ring_step\<^sup>*\<^sup>* s ?u")
proof -
  let ?f = "s\<lparr>sys_reader := RFullTest\<rparr>"
  have "reader_step s ?f" using reader_step.r_leave [OF assms(1)] assms(3) by simp
  then have "ring_step\<^sup>*\<^sup>* s ?f" by (blast intro: ring_stepI)
  also have "ring_step\<^sup>*\<^sup>* ?f (reset (RAssert2 (nread s)) s)"
    using run_reset [of ?f] assms(2) by (simp add: reset_def)
  also have "ring_step (reset (RAssert2 (nread s)) s) (reset RClearFull s)"
    using reader_step.r_assert_ok [of "reset (RAssert2 (nread s)) s" "nread s"] assms(3)
    by (cases s) (simp add: reset_def ring_stepI)
  also have "ring_step (reset RClearFull s) ?u"
    using reader_step.r_clear_full [of "reset RClearFull s"] by (cases s) (simp add: reset_def ring_stepI)
  finally show ?thesis by simp
qed

text \<open>With two writers the reset of a full ring can hand out one slot twice: there is a
  run in which both hold index 255 for different messages and the ring is not full, so
  one of the two messages overwrites the other.\<close>

theorem ring_full_race_shares_slot:
  "\<exists>s. ring_step\<^sup>*\<^sup>* ring_sys_init s \<and> held (sys_writer s 0) = Some 255 \<and> held (sys_writer s 1) = Some 255 \<and>
     sys_msg s 0 \<noteq> sys_msg s 1 \<and> \<not> ring_full (sys_ring s)"
proof -
  let ?i = ring_sys_init
  let ?a = "fill 255 ?i" and ?b = "reserved 1 (2, 7) (fill 255 ?i)"
  let ?c = "raised 0 (1, 0) (reserved 1 (2, 7) (fill 255 ?i))"
  have ring_i: "ring_inv (sys_ring ?i)" "ring_count (sys_ring ?i) = 0" "\<not> ring_full (sys_ring ?i)"
    using ring_inv_init by (simp_all add: ring_sys_init_def ringbuf_init_def ring_count_def)
  have a: "ring_step\<^sup>*\<^sup>* ?i ?a" "ring_inv (sys_ring ?a)" "\<not> ring_full (sys_ring ?a)"
    "ring_count (sys_ring ?a) = 255" "nread ?a = 0" "sys_writer ?a = (\<lambda>_. WIdle)" "sys_reader ?a = RIdle"
    using fill_run [of ?i 255] ring_i by (simp_all add: ring_sys_init_def ringbuf_init_def)
  have idx: "next_write_reserve (sys_ring ?a) = 255" "next_write_release (sys_ring ?a) = 255"
    using a(2-5) by (auto simp: ring_inv_def ring_count_def)
  have codes: "\<forall>k < 255. ring_code (sys_ring ?a) (uint8_of (int k)) \<noteq> 0"
    using a(2,4,5) by (auto simp: ring_inv_def)
  have b: "ring_step\<^sup>*\<^sup>* ?a ?b" using a by (intro run_reserved) simp_all
  have c: "ring_step\<^sup>*\<^sup>* ?b ?c"
    using a idx by (intro run_raised) (simp_all add: reserved_def)
  let ?d = "?c\<lparr>sys_reader := RTest 0\<rparr>"
  have d: "ring_step\<^sup>*\<^sup>* ?c ?d"
    using reader_step.r_start [of ?c] a by (auto simp: raised_def reserved_def ring_step_def)
  obtain e where e: "ring_step\<^sup>*\<^sup>* ?d e" "sys_reader e = RTest (nread e)" "nread e = 255"
      "next_write_release (sys_ring e) = 255" "ring_full (sys_ring e)"
      "sys_writer e = sys_writer ?d" "sys_msg e = sys_msg ?d"
    using drain_run [of ?d 255] codes a idx by (auto simp: raised_def reserved_def)
  let ?f = "e\<lparr>sys_ring := (sys_ring e)\<lparr>next_write_reserve := nread e, ring_full := False\<rparr>, sys_reader := RIdle\<rparr>"
  have f: "ring_step\<^sup>*\<^sup>* e ?f" using run_reset_ok [OF e(2,5)] e(3,4) by simp
  have w: "sys_writer ?f 0 = WIdle" "sys_writer ?f 1 = WTested 255 0" "sys_msg ?f 1 = (2, 7)"
    using e(6,7) a(5,6) idx by (simp_all add: raised_def reserved_def)
  have g: "ring_step\<^sup>*\<^sup>* ?f (reserved 0 (1, 0) ?f)" using w by (intro run_reserved) simp_all
  have "ring_step\<^sup>*\<^sup>* ?i (reserved 0 (1, 0) ?f)"
    using a(1) b c d e(1) f g by (meson rtranclp_trans)
  then show ?thesis
    using w e(3) by (intro exI [of _ "reserved 0 (1, 0) ?f"]) (simp add: reserved_def)
qed

section \<open>Delivery under every interleaving\<close>

lemma reachable_ring_ok:
  assumes "ring_step\<^sup>*\<^sup>* ring_sys_init s" and "\<not> full_raised s"
  shows "inv_counts s" "inv_writers s" "inv_slots s" "inv_reader (sys_reader s) s"
  using ring_system.invar_reachable [OF refl assms(1)] assms(2) by (simp_all add: ring_sys_inv_def)

text \<open>C1: In every interleaving of any number of writers with the reader in which the ring
  was never found full, the handlers are called with exactly the first messages of the
  reservation order: nothing is lost, duplicated, torn or reordered, and no assertion of
  \<^verbatim>\<open>ipc_send_direct\<close> or \<^verbatim>\<open>ipc_receive\<close> fails.\<close>

theorem ring_concurrent_delivery:
  assumes "ring_step\<^sup>*\<^sup>* ring_sys_init s" and "\<not> full_raised s"
  shows "delivered_log s = take (length (delivered_log s)) (reserved_log s) \<and>
    (\<forall>w. sys_writer s w \<noteq> WAborted) \<and> sys_reader s \<noteq> RAborted"
proof -
  note ok = reachable_ring_ok [OF assms]
  obtain n where "delivered_log s = take n (reserved_log s)"
    using ok(4) by (cases "sys_reader s") auto
  moreover have "sys_writer s w \<noteq> WAborted" for w using writer_okD [OF ok(2), of w] by auto
  moreover have "sys_reader s \<noteq> RAborted" using ok(4) by auto
  ultimately show ?thesis by (simp add: min_def)
qed

text \<open>One message sent and received, undisturbed.\<close>

definition one_message_run :: ring_sys where
  "one_message_run = received ((sent 3 (1, 42) ring_sys_init)\<lparr>sys_reader := RTest 0\<rparr>)"

lemma one_message_reachable: "ring_step\<^sup>*\<^sup>* ring_sys_init one_message_run"
proof -
  let ?a = "sent 3 (1, 42) ring_sys_init"
  have "ring_step\<^sup>*\<^sup>* ring_sys_init ?a"
    by (rule run_sent) (simp_all add: ring_sys_init_def ringbuf_init_def)
  moreover have "reader_step ?a (?a\<lparr>sys_reader := RTest 0\<rparr>)"
    using reader_step.r_start [of ?a]
    by (simp add: sent_def ring_written_def ring_sys_init_def ringbuf_init_def)
  moreover have "ring_step\<^sup>*\<^sup>* (?a\<lparr>sys_reader := RTest 0\<rparr>) one_message_run"
    unfolding one_message_run_def
    by (rule run_received) (simp_all add: sent_def ring_written_def ring_sys_init_def ringbuf_init_def)
  ultimately show ?thesis by (meson ring_stepI rtranclp.rtrancl_into_rtrancl rtranclp_trans)
qed

lemmas one_message_eval = one_message_run_def received_def sent_def ring_written_def ring_taken_def
  ring_at_def ring_sys_init_def ringbuf_init_def

theorem ring_concurrent_delivery_witness:
  "ring_step\<^sup>*\<^sup>* ring_sys_init one_message_run \<and> \<not> full_raised one_message_run \<and>
   delivered_log one_message_run = take 1 (reserved_log one_message_run) \<and>
   sys_reader one_message_run \<noteq> RAborted"
  using ring_concurrent_delivery [OF one_message_reachable] one_message_reachable
  by (simp add: one_message_eval)



text \<open>The steps of one writer that runs undisturbed compute exactly
  \<^verbatim>\<open>ipc_send_direct\<close> on the ring: whatever the sequential function returns, the step
  relation reaches the ring it leaves, with the writer idle again.\<close>

theorem writer_steps_compute_send:
  assumes "sys_writer s w = WIdle" and "fst m \<noteq> 0" and "0 \<le> next_write_reserve (sys_ring s)"
    and "ring_send_direct (sys_ring s) (fst m) (snd m) = Done (ok, r)"
  shows "\<exists>t. ring_step\<^sup>*\<^sup>* s t \<and> sys_ring t = r \<and> sys_writer t = sys_writer s \<and> sys_reader t = sys_reader s"
proof -
  let ?r = "sys_ring s"
  consider (full) "ring_full ?r" | (room) "\<not> ring_full ?r" "next_write_reserve ?r - nread s \<le> 255"
    | (raise) "\<not> ring_full ?r" "next_write_reserve ?r - nread s > 255" by linarith
  then show ?thesis
  proof cases
    case full
    then show ?thesis using assms(4)
      by (intro exI [of _ s]) (simp add: ring_send_direct_def ipc_reserve_write_index_def)
  next
    case room
    then have "r = ring_written ?r (fst m) (snd m)" using assms(3,4)
      by (simp add: ring_send_direct_def ipc_reserve_write_index_def Let_def ring_written_def
          ipc_release_write_index_def)
    then show ?thesis using run_sent [OF assms(1,2) room(1) assms(3) room(2)]
      by (intro exI [of _ "sent w m s"]) simp
  next
    case raise
    then have "r = ?r\<lparr>next_write_reserve := next_write_reserve ?r + 1, ring_full := True\<rparr>" using assms(4)
      by (simp add: ring_send_direct_def ipc_reserve_write_index_def Let_def)
    then show ?thesis using run_raised [OF assms(1,2) raise]
      by (intro exI [of _ "raised w m s"]) (simp add: raised_def)
  qed
qed

theorem writer_steps_compute_send_witness:
  "\<exists>t. ring_step\<^sup>*\<^sup>* ring_sys_init t \<and> sys_ring t = ring_written ringbuf_init 5 9 \<and>
     sys_writer t = sys_writer ring_sys_init \<and> sys_reader t = sys_reader ring_sys_init"
  by (rule writer_steps_compute_send [where w = 0 and m = "(5, 9)" and ok = True])
    (simp_all add: ring_sys_init_def ringbuf_init_def ring_send_direct_def ipc_reserve_write_index_def
      Let_def ring_written_def ipc_release_write_index_def)

end
