(* ===== verification/Pool.thy ===== *)
theory Pool
  imports Shuso_Interfaces
begin

text \<open>
  The memory pool of \<^verbatim>\<open>pool.c\<close>: pages obtained from \<^verbatim>\<open>malloc\<close> and filled from the front,
  single \<^verbatim>\<open>malloc\<close> blocks for requests that do not fit a page, and levels that a pool
  can be drained to.  The build modelled is the default one (no valgrind, sanitizer,
  \<^verbatim>\<open>NOPOOL\<close> or \<^verbatim>\<open>TRACK_SPACE\<close>), on a 64-bit machine.
\<close>

section \<open>The C heap\<close>

text \<open>
  \<^verbatim>\<open>malloc\<close> is a parameter: given the live blocks and a size it returns an address, or 0.
  \<open>malloc_sound\<close> is what the C standard promises of it.
\<close>

type_synonym malloc_fn = "block list \<Rightarrow> nat \<Rightarrow> addr"

definition malloc_sound :: "malloc_fn \<Rightarrow> bool" where
  "malloc_sound mal \<longleftrightarrow>
     (\<forall>live sz. mal live sz \<noteq> 0 \<longrightarrow> 8 dvd mal live sz \<and> mal live sz + sz < 2 ^ 63 \<and>
        mal live sz \<notin> fst ` set live \<and>
        (\<forall>b \<in> set live. block_disjoint (mal live sz, sz) b))"

text \<open>\<^verbatim>\<open>free\<close> removes the block that starts at the address.\<close>

definition c_free :: "addr \<Rightarrow> block list \<Rightarrow> block list" where
  "c_free a live = filter (\<lambda>b. fst b \<noteq> a) live"

section \<open>State\<close>

text \<open>
  \<^verbatim>\<open>shuso_pool_level_t\<close> and \<^verbatim>\<open>shuso_pool_t\<close>.  The chain of pages through \<^verbatim>\<open>prev\<close> from
  \<^verbatim>\<open>page.last\<close> is the list \<open>pages\<close>, newest first, and so is the chain \<open>allocds\<close> of plain
  allocations; \<open>levels\<close> is the used part of \<^verbatim>\<open>levels.array\<close> (its length is
  \<^verbatim>\<open>levels.count\<close>), \<open>level_at\<close> the level structures by address, and \<open>live\<close> the heap.
\<close>

record pool_level =
  lv_page :: addr
  lv_page_cur :: addr
  lv_allocd :: addr

record pool =
  page_size :: nat
  page_count :: nat
  pages :: "addr list"
  page_cur :: addr
  allocds :: "addr list"
  levels :: "addr list"
  level_at :: "addr \<Rightarrow> pool_level"
  live :: "block list"

fun chain_last :: "addr list \<Rightarrow> addr" where
  "chain_last [] = 0"
| "chain_last (a # as) = a"

abbreviation page_last :: "pool \<Rightarrow> addr" where
  "page_last p \<equiv> chain_last (pages p)"

abbreviation allocd_last :: "pool \<Rightarrow> addr" where
  "allocd_last p \<equiv> chain_last (allocds p)"

definition pool_max_levels :: nat where
  "pool_max_levels = 8"

text \<open>\<^verbatim>\<open>sizeof(shuso_pool_page_t)\<close>, \<^verbatim>\<open>sizeof(shuso_pool_allocd_t)\<close>, \<^verbatim>\<open>sizeof(shuso_pool_level_t)\<close>.\<close>

definition sizeof_page :: nat where
  "sizeof_page = 8"

definition sizeof_allocd :: nat where
  "sizeof_allocd = 8"

definition sizeof_level :: nat where
  "sizeof_level = 24"

section \<open>Operations\<close>

definition align_native :: "nat \<Rightarrow> nat" where
  "align_native p = (p + 7) div 8 * 8"

definition page_used_space :: "addr \<Rightarrow> addr \<Rightarrow> nat" where
  "page_used_space page cur = (cur + 2 ^ 64 - page) mod 2 ^ 64"

definition add_page :: "malloc_fn \<Rightarrow> pool \<Rightarrow> addr \<times> pool" where
  "add_page mal p =
     (let pagesize = page_size p; page = mal (live p) pagesize in
      if page = 0 then (0, p)
      else (page, p\<lparr>page_cur := align_native (page + sizeof_page), pages := page # pages p,
                    page_count := page_count p + 1, live := (page, pagesize) # live p\<rparr>))"

definition remove_last_page :: "pool \<Rightarrow> pool" where
  "remove_last_page p =
     (if page_last p = 0 then p
      else p\<lparr>pages := tl (pages p), page_count := page_count p - 1,
             live := c_free (page_last p) (live p)\<rparr>)"

definition shuso_pool_init_clean :: "malloc_fn \<Rightarrow> nat \<Rightarrow> nat \<Rightarrow> pool \<Rightarrow> bool \<times> pool" where
  "shuso_pool_init_clean mal system_page_size pagesize p =
     (let p1 = p\<lparr>page_size := (if pagesize > 0 then pagesize else system_page_size)\<rparr>;
          (page, p2) = add_page mal p1
      in (page \<noteq> 0, p2))"

definition pool_zero :: "block list \<Rightarrow> pool" where
  "pool_zero lv = \<lparr>page_size = 0, page_count = 0, pages = [], page_cur = 0, allocds = [],
     levels = [], level_at = (\<lambda>_. \<lparr>lv_page = 0, lv_page_cur = 0, lv_allocd = 0\<rparr>), live = lv\<rparr>"

definition shuso_pool_init :: "malloc_fn \<Rightarrow> nat \<Rightarrow> nat \<Rightarrow> pool \<Rightarrow> bool \<times> pool" where
  "shuso_pool_init mal system_page_size pagesize p =
     shuso_pool_init_clean mal system_page_size pagesize (pool_zero (live p))"

definition plain_old_malloc :: "malloc_fn \<Rightarrow> pool \<Rightarrow> nat \<Rightarrow> addr \<times> pool" where
  "plain_old_malloc mal p sz =
     (let n = (sizeof_allocd + sz) mod 2 ^ 64; cur = mal (live p) n in
      if cur = 0 then (0, p)
      else (cur + sizeof_allocd, p\<lparr>allocds := cur # allocds p, live := (cur, n) # live p\<rparr>))"

definition plain_old_free_last :: "pool \<Rightarrow> pool" where
  "plain_old_free_last p =
     p\<lparr>allocds := tl (allocds p), live := c_free (allocd_last p) (live p)\<rparr>"

definition page_max_free_space :: "nat \<Rightarrow> int" where
  "page_max_free_space pagesize =
     ssize_of ((pagesize + 2 ^ 64 - align_native sizeof_page) mod 2 ^ 64)"

definition palloc_in_current_page :: "pool \<Rightarrow> nat \<Rightarrow> bool \<Rightarrow> addr \<times> pool" where
  "palloc_in_current_page p sz align =
     (let pagesize = ssize_of (page_size p); page = page_last p; cur = page_cur p;
          ret = (if align then align_native cur else cur);
          before_padding = int ret - int cur
      in if pagesize - ssize_of (page_used_space page cur) < before_padding + ssize_of sz
         then (0, p)
         else (ret, p\<lparr>page_cur := (ret + sz) mod 2 ^ 64\<rparr>))"

definition palloc_in_new_page :: "malloc_fn \<Rightarrow> pool \<Rightarrow> nat \<Rightarrow> bool \<Rightarrow> (addr \<times> pool) run" where
  "palloc_in_new_page mal p sz align =
     (if page_max_free_space (page_size p) < ssize_of sz then Done (0, p)
      else
        (let (page, p1) = add_page mal p in
         if page = 0 then Done (0, p1)
         else c_assert (page_last p1 = page)
           (let (ret, p2) = palloc_in_current_page p1 sz align in
            c_assert (ret \<noteq> 0) (Done (ret, p2)))))"

definition palloc_with_alignment :: "malloc_fn \<Rightarrow> pool \<Rightarrow> nat \<Rightarrow> bool \<Rightarrow> (addr \<times> pool) run" where
  "palloc_with_alignment mal p sz align =
     (let (ret, p1) = palloc_in_current_page p sz align in
      if ret \<noteq> 0 then Done (ret, p1)
      else run_bind (palloc_in_new_page mal p1 sz align)
        (\<lambda>(ret, p2). if ret \<noteq> 0 then Done (ret, p2) else Done (plain_old_malloc mal p2 sz)))"

definition shuso_palloc :: "malloc_fn \<Rightarrow> pool \<Rightarrow> nat \<Rightarrow> (addr \<times> pool) run" where
  "shuso_palloc mal p sz = palloc_with_alignment mal p sz True"

definition shuso_palloc_unaligned :: "malloc_fn \<Rightarrow> pool \<Rightarrow> nat \<Rightarrow> (addr \<times> pool) run" where
  "shuso_palloc_unaligned mal p sz = palloc_with_alignment mal p sz False"

definition shuso_pool_mark_level :: "malloc_fn \<Rightarrow> pool \<Rightarrow> (nat \<times> pool) run" where
  "shuso_pool_mark_level mal p =
     run_bind (shuso_palloc mal p sizeof_level)
       (\<lambda>(level, p1).
          if level = 0 then Done (0, p1)
          else
            (let p2 = p1\<lparr>level_at := (level_at p1)
                   (level := \<lparr>lv_page = page_last p1, lv_page_cur = page_cur p1,
                              lv_allocd = allocd_last p1\<rparr>)\<rparr>
             in c_assert (length (levels p2) < pool_max_levels)
                  (Done (length (levels p2) + 1, p2\<lparr>levels := levels p2 @ [level]\<rparr>))))"

lemma chain_last_tl_less: "0 < chain_last as \<Longrightarrow> length as - Suc 0 < length as"
  by (cases as) simp_all

function empty_allocds :: "pool \<Rightarrow> pool" where
  "empty_allocds p =
     (if allocd_last p \<noteq> 0 then empty_allocds (plain_old_free_last p) else p)"
  by pat_completeness auto
termination
  by (relation "measure (\<lambda>p. length (allocds p))")
    (auto simp: plain_old_free_last_def chain_last_tl_less)

function empty_pages :: "pool \<Rightarrow> pool" where
  "empty_pages p = (if page_last p \<noteq> 0 then empty_pages (remove_last_page p) else p)"
  by pat_completeness auto
termination
  by (relation "measure (\<lambda>p. length (pages p))")
    (auto simp: remove_last_page_def chain_last_tl_less)

definition shuso_pool_empty :: "pool \<Rightarrow> bool \<times> pool" where
  "shuso_pool_empty p = (True, empty_pages (empty_allocds p))"

function drain_allocds :: "addr \<Rightarrow> pool \<Rightarrow> pool run" where
  "drain_allocds a p =
     (if allocd_last p = a then Done p
      else c_assert (allocd_last p \<noteq> 0) (drain_allocds a (plain_old_free_last p)))"
  by pat_completeness auto
termination
  by (relation "measure (\<lambda>(a, p). length (allocds p))")
    (auto simp: plain_old_free_last_def chain_last_tl_less)

function drain_pages :: "addr \<Rightarrow> pool \<Rightarrow> pool run" where
  "drain_pages a p =
     (if page_last p = a then Done p
      else c_assert (page_last p \<noteq> 0) (drain_pages a (remove_last_page p)))"
  by pat_completeness auto
termination
  by (relation "measure (\<lambda>(a, p). length (pages p))")
    (auto simp: remove_last_page_def chain_last_tl_less)

declare empty_allocds.simps [simp del] empty_pages.simps [simp del]
  drain_allocds.simps [simp del] drain_pages.simps [simp del]

definition shuso_pool_drain_to_level :: "pool \<Rightarrow> nat \<Rightarrow> (bool \<times> pool) run" where
  "shuso_pool_drain_to_level p levelnum =
     (if levelnum > length (levels p) then Done (False, p)
      else if levelnum = 0 then
        (case shuso_pool_empty p of
           (ok, p1) \<Rightarrow> if \<not> ok then Done (False, p1)
             else Done (True, p1\<lparr>page_size := 0, page_count := 0, pages := [], page_cur := 0,
                                 allocds := [], levels := []\<rparr>))
      else
        (let level = level_at p (levels p ! (levelnum - 1)) in
         run_bind (if lv_allocd level \<noteq> 0 then drain_allocds (lv_allocd level) p else Done p)
           (\<lambda>p1. run_bind
             (if lv_page level \<noteq> 0
              then c_assert (page_last p1 \<noteq> 0) (drain_pages (lv_page level) p1) else Done p1)
             (\<lambda>p2. Done (True, p2\<lparr>page_cur := lv_page_cur level\<rparr>)))))"

datatype space_kind = SPACE_FREE | SPACE_USED | SPACE_WASTED | SPACE_RESERVED

definition shuso_pool_space :: "pool \<Rightarrow> space_kind \<Rightarrow> nat" where
  "shuso_pool_space p kind =
     (case kind of
        SPACE_USED \<Rightarrow>
          (page_size p * ((page_count p + 2 ^ 64 - 1) mod 2 ^ 64) +
           (if page_last p = 0 then 0 else page_used_space (page_last p) (page_cur p))) mod 2 ^ 64
      | SPACE_FREE \<Rightarrow>
          (if page_last p = 0 then 0
           else (page_size p + 2 ^ 64 - page_used_space (page_last p) (page_cur p)) mod 2 ^ 64)
      | SPACE_WASTED \<Rightarrow> 0
      | SPACE_RESERVED \<Rightarrow> 0)"

section \<open>Invariant\<close>

text \<open>
  A block handed out lies behind the header of one of the pages, below the current
  position if that page is the last one, or is the data of one plain allocation.
\<close>

definition pool_block :: "pool \<Rightarrow> block \<Rightarrow> bool" where
  "pool_block p u \<longleftrightarrow> fst u \<noteq> 0 \<and>
     ((\<exists>a \<in> set (pages p). block_within u (a + 8, page_size p - 8) \<and>
         (a = page_last p \<longrightarrow> fst u + snd u \<le> page_cur p)) \<or>
      (\<exists>a \<in> set (allocds p). (a, 8 + snd u) \<in> set (live p) \<and> fst u = a + 8))"

definition heap_inv :: "pool \<Rightarrow> bool" where
  "heap_inv p \<longleftrightarrow>
     disjoint_blocks (live p) \<and> distinct (map fst (live p)) \<and> distinct (pages p @ allocds p) \<and>
     (\<forall>a \<in> set (pages p). a \<noteq> 0 \<and> 8 dvd a \<and> a + page_size p < 2 ^ 63 \<and>
        (a, page_size p) \<in> set (live p)) \<and>
     (\<forall>a \<in> set (allocds p). a \<noteq> 0 \<and> a \<in> fst ` set (live p))"

definition pool_mem_inv :: "pool \<Rightarrow> block list \<Rightarrow> bool" where
  "pool_mem_inv p us \<longleftrightarrow>
     16 \<le> page_size p \<and> page_size p < 2 ^ 62 \<and> pages p \<noteq> [] \<and> page_count p = length (pages p) \<and>
     heap_inv p \<and> page_last p + 8 \<le> page_cur p \<and> page_cur p \<le> page_last p + page_size p \<and>
     (\<forall>u \<in> set us. pool_block p u) \<and> disjoint_blocks us"

definition pool_inv :: "pool \<Rightarrow> block list \<Rightarrow> bool" where
  "pool_inv p us \<longleftrightarrow>
     pool_mem_inv p us \<and> (\<forall>l \<in> set (levels p). (l, sizeof_level) \<in> set us) \<and> distinct (levels p)"

lemma align_native_ge: "p \<le> align_native p"
  by (simp add: align_native_def)

lemma align_native_less: "align_native p < p + 8"
  by (simp add: align_native_def)

lemma align_native_dvd: "8 dvd align_native p"
  by (simp add: align_native_def)

lemma align_native_id: "8 dvd p \<Longrightarrow> align_native p = p"
  by (auto simp: align_native_def elim!: dvdE)

text \<open>\<open>align_native\<close> is the bit expression of the macro on 64-bit addresses.\<close>

lemma align_native_word:
  assumes "unat (p :: 64 word) + 7 < 2 ^ 64"
  shows "unat (and (p + 7) (not 7)) = align_native (unat p)"
proof -
  have "and (p + 7) (not (mask 3)) = push_bit 3 (drop_bit 3 (p + 7))"
    by (rule bit_eqI) (auto simp: bit_simps)
  then have "and (p + 7) (not 7) = push_bit 3 (drop_bit 3 (p + 7))"
    by (simp add: mask_eq_exp_minus_1)
  moreover have "unat (p + 7) = unat p + 7"
    using assms by (subst unat_add_lem [THEN iffD1]) auto
  then have "unat (push_bit 3 (drop_bit 3 (p + 7))) = (unat p + 7) div 8 * 8"
    using assms
    by (simp only: unsigned_push_bit_eq unsigned_drop_bit_eq)
      (simp add: take_bit_nat_def push_bit_eq_mult drop_bit_eq_div)
  ultimately show ?thesis
    by (simp only: align_native_def)
qed

section \<open>Allocation keeps the invariant\<close>

lemma pool_mem_inv_page:
  assumes "pool_mem_inv p us"
  shows "page_last p \<in> set (pages p)" "page_last p \<noteq> 0" "page_last p + page_size p < 2 ^ 63"
    "(page_last p, page_size p) \<in> set (live p)"
proof -
  obtain a as where "pages p = a # as" using assms by (cases "pages p") (auto simp: pool_mem_inv_def)
  then show "page_last p \<in> set (pages p)" "page_last p \<noteq> 0" "page_last p + page_size p < 2 ^ 63"
    "(page_last p, page_size p) \<in> set (live p)"
    using assms by (auto simp: pool_mem_inv_def heap_inv_def)
qed

text \<open>The position the next block of the current page would start at.\<close>

definition palloc_start :: "pool \<Rightarrow> bool \<Rightarrow> addr" where
  "palloc_start p align = (if align then align_native (page_cur p) else page_cur p)"

lemma palloc_start_bounds: "page_cur p \<le> palloc_start p align" "palloc_start p align < page_cur p + 8"
  using align_native_ge [of "page_cur p"] align_native_less [of "page_cur p"]
  by (simp_all add: palloc_start_def)

lemma palloc_in_current_page_eq:
  assumes inv: "pool_mem_inv p us" and sz: "sz < 2 ^ 62"
  shows "palloc_in_current_page p sz align =
    (if palloc_start p align + sz \<le> page_last p + page_size p
     then (palloc_start p align, p\<lparr>page_cur := palloc_start p align + sz\<rparr>) else (0, p))"
proof -
  have b: "page_last p + 8 \<le> page_cur p" "page_cur p \<le> page_last p + page_size p"
    "page_last p + page_size p < 2 ^ 63" "page_size p < 2 ^ 62"
    using inv pool_mem_inv_page(3) [OF inv] by (simp_all add: pool_mem_inv_def)
  then have "page_used_space (page_last p) (page_cur p) = page_cur p - page_last p"
    by (simp add: page_used_space_def mod_if)
  then show ?thesis
    using b sz palloc_start_bounds [of p align]
    by (auto simp: palloc_in_current_page_def Let_def palloc_start_def [symmetric] ssize_of_small mod_if)
qed

lemma pool_block_in_live:
  assumes "pool_mem_inv p us" and "pool_block p u"
  shows "\<exists>b \<in> set (live p). block_within u b \<and> (fst b \<in> set (pages p) \<or> fst b \<in> set (allocds p))"
proof -
  consider (page) a where "a \<in> set (pages p)" "block_within u (a + 8, page_size p - 8)"
    | (allocd) a where "a \<in> set (allocds p)" "(a, 8 + snd u) \<in> set (live p)" "fst u = a + 8"
    using assms(2) by (auto simp: pool_block_def)
  then show ?thesis
  proof cases
    case page
    then show ?thesis using assms(1)
      by (intro bexI [of _ "(a, page_size p)"])
        (auto simp: pool_mem_inv_def heap_inv_def block_within_def)
  next
    case allocd
    then show ?thesis by (intro bexI [of _ "(a, 8 + snd u)"]) (auto simp: block_within_def)
  qed
qed

lemma pool_block_current_disjoint:
  assumes inv: "pool_mem_inv p us" and u: "pool_block p u"
    and b: "page_cur p \<le> x" "x + n \<le> page_last p + page_size p"
  shows "block_disjoint (x, n) u"
proof -
  obtain c where c: "c \<in> set (live p)" "block_within u c" "fst c \<in> set (pages p) \<or> fst c \<in> set (allocds p)"
    using pool_block_in_live [OF inv u] by blast
  have heap: "disjoint_blocks (live p)" "distinct (map fst (live p))" "distinct (pages p @ allocds p)"
    using inv by (auto simp: pool_mem_inv_def heap_inv_def)
  have page: "(page_last p, page_size p) \<in> set (live p)" by (rule pool_mem_inv_page(4) [OF inv])
  show ?thesis
  proof (cases "c = (page_last p, page_size p)")
    case False
    then have "block_disjoint (page_last p, page_size p) c"
      using disjoint_blocksD [OF heap(1) page c(1)] by simp
    moreover have "block_within (x, n) (page_last p, page_size p)"
      using b inv by (simp add: block_within_def pool_mem_inv_def)
    ultimately show ?thesis using c(2) block_within_disjoint2 by blast
  next
    case True
    have "fst u + snd u \<le> page_cur p"
      using u unfolding pool_block_def
    proof (elim conjE disjE bexE)
      fix a assume a: "a \<in> set (pages p)" "block_within u (a + 8, page_size p - 8)"
        "a = page_last p \<longrightarrow> fst u + snd u \<le> page_cur p"
      show ?thesis
      proof (cases "a = page_last p")
        case ne: False
        have "(a, page_size p) \<in> set (live p)" using a(1) inv by (auto simp: pool_mem_inv_def heap_inv_def)
        then have "block_disjoint (a, page_size p) (page_last p, page_size p)"
          using disjoint_blocksD [OF heap(1) _ page] ne by auto
        with a(2) c(2) True inv show ?thesis
          by (auto simp: block_disjoint_def block_within_def pool_mem_inv_def)
      qed (use a(3) in simp)
    next
      fix a assume a: "a \<in> set (allocds p)" "(a, 8 + snd u) \<in> set (live p)" "fst u = a + 8"
      have "a \<noteq> page_last p"
        using a(1) pool_mem_inv_page(1) [OF inv] heap(3) by auto
      then have "block_disjoint (a, 8 + snd u) (page_last p, page_size p)"
        using disjoint_blocksD [OF heap(1) a(2) page] by auto
      with a(3) c(2) True inv show ?thesis
        by (auto simp: block_disjoint_def block_within_def pool_mem_inv_def)
    qed
    then show ?thesis using b by (auto simp: block_disjoint_def)
  qed
qed

lemma pool_mem_inv_current:
  assumes inv: "pool_mem_inv p us"
    and b: "page_cur p \<le> x" "x + n \<le> page_last p + page_size p"
  shows "pool_mem_inv (p\<lparr>page_cur := x + n\<rparr>) ((x, n) # us)"
proof -
  have "pool_block (p\<lparr>page_cur := x + n\<rparr>) u" if "u \<in> set us" for u
    using that inv b by (fastforce simp: pool_mem_inv_def pool_block_def)
  moreover have "pool_block (p\<lparr>page_cur := x + n\<rparr>) (x, n)"
    using pool_mem_inv_page(1) [OF inv] inv b
    by (auto simp: pool_block_def block_within_def pool_mem_inv_def intro!: bexI [of _ "page_last p"])
  moreover have "block_disjoint (x, n) u" if "u \<in> set us" for u
    using pool_block_current_disjoint [OF inv _ b] that inv by (auto simp: pool_mem_inv_def)
  ultimately show ?thesis
    using inv b by (auto simp: pool_mem_inv_def heap_inv_def)
qed

lemma heap_inv_starts: "heap_inv p \<Longrightarrow> set (pages p @ allocds p) \<subseteq> fst ` set (live p)"
  unfolding heap_inv_def by (auto intro: rev_image_eqI)

lemma malloc_soundD:
  assumes "malloc_sound mal" and "mal lv n \<noteq> 0"
  shows "8 dvd mal lv n" "mal lv n + n < 2 ^ 63" "mal lv n \<notin> fst ` set lv"
    "\<And>b. b \<in> set lv \<Longrightarrow> block_disjoint (mal lv n, n) b"
  using assms by (auto simp: malloc_sound_def)

text \<open>
  What allocations do to the bookkeeping: new pages and plain allocations go in front,
  and the heap gains exactly their blocks.
\<close>

definition pool_grown :: "pool \<Rightarrow> pool \<Rightarrow> addr list \<Rightarrow> addr list \<Rightarrow> bool" where
  "pool_grown p q ps as \<longleftrightarrow>
     page_size q = page_size p \<and> pages q = ps @ pages p \<and> allocds q = as @ allocds p \<and>
     page_count q = length ps + page_count p \<and>
     (\<exists>lv. live q = lv @ live p \<and> fst ` set lv = set ps \<union> set as)"

lemma pool_grown_refl: "pool_grown p p [] []"
  by (simp add: pool_grown_def)

lemma pool_grown_trans:
  "pool_grown p q ps as \<Longrightarrow> pool_grown q r ps' as' \<Longrightarrow> pool_grown p r (ps' @ ps) (as' @ as)"
  unfolding pool_grown_def by (clarsimp simp: image_Un) blast

lemma pool_block_ext:
  assumes "pool_block p u" and "pool_grown p q ps as" and "distinct (pages q)"
    and "ps = [] \<Longrightarrow> page_cur p \<le> page_cur q"
  shows "pool_block q u"
proof (cases ps)
  case Nil
  with assms show ?thesis by (fastforce simp: pool_block_def pool_grown_def)
next
  case (Cons x xs)
  have "a \<noteq> page_last q" if "a \<in> set (pages p)" for a
    using that assms(2,3) Cons by (auto simp: pool_grown_def)
  with assms(1,2) show ?thesis by (fastforce simp: pool_block_def pool_grown_def)
qed

lemma add_page_ok:
  assumes mal: "malloc_sound mal" and inv: "pool_mem_inv p us" and a: "add_page mal p = (a, q)"
    and nz: "a \<noteq> 0"
  shows "pool_mem_inv q us" "pool_grown p q [a] []" "page_last q = a" "page_cur q = a + 8"
    "levels q = levels p" "level_at q = level_at p" "page_size q = page_size p"
proof -
  let ?n = "page_size p"
  have am: "a = mal (live p) ?n" using a nz by (auto simp: add_page_def Let_def split: if_splits)
  note m = malloc_soundD [OF mal, of "live p" ?n, folded am, OF nz]
  have "(if a = 0 then (0, p) else (a, p\<lparr>page_cur := align_native (a + 8), pages := a # pages p,
      page_count := page_count p + 1, live := (a, ?n) # live p\<rparr>)) = (a, q)"
    using a unfolding add_page_def Let_def am [symmetric] sizeof_page_def .
  moreover have "align_native (a + 8) = a + 8" using m(1) by (intro align_native_id) simp
  ultimately have q: "q = p\<lparr>page_cur := a + 8, pages := a # pages p,
      page_count := page_count p + 1, live := (a, ?n) # live p\<rparr>"
    using nz by simp
  show ext: "pool_grown p q [a] []" and "page_last q = a" "page_cur q = a + 8"
    "levels q = levels p" "level_at q = level_at p" "page_size q = page_size p"
    by (auto simp: q pool_grown_def)
  have fresh: "a \<notin> set (pages p @ allocds p)"
    using m(3) heap_inv_starts [of p] inv by (auto simp: pool_mem_inv_def)
  have heap: "heap_inv q"
    using inv m fresh nz by (auto simp: q pool_mem_inv_def heap_inv_def)
  then have "pool_block q u" if "u \<in> set us" for u
    using that inv pool_block_ext [OF _ ext] by (auto simp: pool_mem_inv_def heap_inv_def)
  then show "pool_mem_inv q us"
    using inv heap by (auto simp: pool_mem_inv_def q)
qed

lemma plain_old_malloc_ok:
  assumes mal: "malloc_sound mal" and inv: "pool_mem_inv p us" and sz: "sz < 2 ^ 62"
    and a: "plain_old_malloc mal p sz = (a, q)" and nz: "a \<noteq> 0"
  shows "pool_mem_inv q ((a, sz) # us)" "pool_grown p q [] [a - 8]" "8 dvd a"
    "levels q = levels p" "level_at q = level_at p" "page_cur q = page_cur p"
proof -
  let ?n = "8 + sz"
  let ?m = "mal (live p) ?n"
  have "(sizeof_allocd + sz) mod 2 ^ 64 = ?n" using sz by (simp add: sizeof_allocd_def)
  then have def: "(if ?m = 0 then (0, p)
      else (?m + 8, p\<lparr>allocds := ?m # allocds p, live := (?m, ?n) # live p\<rparr>)) = (a, q)"
    using a unfolding plain_old_malloc_def Let_def by (simp only: sizeof_allocd_def)
  then have am: "?m \<noteq> 0" "a = ?m + 8"
    and q: "q = p\<lparr>allocds := ?m # allocds p, live := (?m, ?n) # live p\<rparr>"
    using nz by (auto split: if_splits)
  note m = malloc_soundD [OF mal am(1)]
  show ext: "pool_grown p q [] [a - 8]" and "levels q = levels p" "level_at q = level_at p"
    "page_cur q = page_cur p"
    by (auto simp: q pool_grown_def am(2))
  show "8 dvd a" using m(1) am(2) by simp
  have fresh: "?m \<notin> set (pages p @ allocds p)"
    using m(3) heap_inv_starts [of p] inv by (auto simp: pool_mem_inv_def)
  have heap: "heap_inv q"
    using inv m fresh am(1) by (auto simp: q pool_mem_inv_def heap_inv_def)
  have old: "pool_block q u" if "u \<in> set us" for u
    using that inv pool_block_ext [OF _ ext] heap by (auto simp: pool_mem_inv_def heap_inv_def q)
  have "block_disjoint (a, sz) u" if u: "u \<in> set us" for u
  proof -
    obtain b where "b \<in> set (live p)" "block_within u b"
      using pool_block_in_live [OF inv, of u] u inv unfolding pool_mem_inv_def by blast
    moreover have "block_within (a, sz) (?m, ?n)" by (simp add: block_within_def am(2))
    ultimately show ?thesis using m(4) block_within_disjoint2 by blast
  qed
  moreover have "pool_block q (a, sz)" by (simp add: pool_block_def q am(2))
  ultimately show "pool_mem_inv q ((a, sz) # us)"
    using inv heap old by (auto simp: pool_mem_inv_def q)
qed

lemma palloc_in_new_page_ok:
  assumes mal: "malloc_sound mal" and inv: "pool_mem_inv p us" and sz: "sz < 2 ^ 62"
  obtains q where "palloc_in_new_page mal p sz align = Done (0, q)" "q = p"
  | a q where "palloc_in_new_page mal p sz align = Done (a, q)" "a \<noteq> 0" "8 dvd a"
    "pool_mem_inv q ((a, sz) # us)" "pool_grown p q [page_last q] []"
    "levels q = levels p" "level_at q = level_at p"
proof -
  have "16 \<le> page_size p" "page_size p < 2 ^ 62" using inv by (simp_all add: pool_mem_inv_def)
  then have max: "page_max_free_space (page_size p) = int (page_size p) - 8"
    by (auto simp: page_max_free_space_def sizeof_page_def align_native_id ssize_of_def mod_if)
  obtain a r where r: "add_page mal p = (a, r)" by fastforce
  show thesis
  proof (cases "int (page_size p) - 8 < int sz \<or> a = 0")
    case True
    then have "palloc_in_new_page mal p sz align = Done (0, p)"
      using sz r by (auto simp: palloc_in_new_page_def max ssize_of_small add_page_def Let_def split: if_splits)
    then show thesis using that(1) by blast
  next
    case False
    note ok = add_page_ok [OF mal inv r]
    have nz: "a \<noteq> 0" and fit: "a + 8 + sz \<le> page_last r + page_size r"
      using False ok(3,7) by auto
    have dvd: "8 dvd a"
      using ok(1,3) [OF nz] pool_mem_inv_page(1) [OF ok(1) [OF nz]]
      by (auto simp: pool_mem_inv_def heap_inv_def)
    then have start: "palloc_start r align = a + 8"
      using ok(4) [OF nz] by (simp add: palloc_start_def align_native_id)
    have "palloc_in_new_page mal p sz align = Done (a + 8, r\<lparr>page_cur := a + 8 + sz\<rparr>)"
      using False sz r ok(3) palloc_in_current_page_eq [OF ok(1) [OF nz] sz, of align] fit
      by (simp add: palloc_in_new_page_def max ssize_of_small start)
    moreover have "pool_mem_inv (r\<lparr>page_cur := a + 8 + sz\<rparr>) ((a + 8, sz) # us)"
      using pool_mem_inv_current [OF ok(1) [OF nz], of "a + 8" sz] fit ok(4) [OF nz] by simp
    moreover have "pool_grown p (r\<lparr>page_cur := a + 8 + sz\<rparr>) [a] []"
      using ok(2) [OF nz] by (simp add: pool_grown_def)
    ultimately show thesis
      using that(2) [of "a + 8"] ok(3,5,6) nz dvd by simp
  qed
qed

text \<open>The contract of an allocation, whichever of the three ways serves it.\<close>

lemma palloc_with_alignment_ok:
  assumes mal: "malloc_sound mal" and inv: "pool_mem_inv p us" and sz: "sz < 2 ^ 62"
  shows "\<exists>a q ps as. palloc_with_alignment mal p sz align = Done (a, q) \<and>
    pool_mem_inv q (if a = 0 then us else (a, sz) # us) \<and> pool_grown p q ps as \<and>
    (align \<longrightarrow> 8 dvd a) \<and> levels q = levels p \<and> level_at q = level_at p \<and>
    (a = 0 \<longrightarrow> q = p \<and> mal (live p) (8 + sz) = 0)"
proof (cases "palloc_start p align + sz \<le> page_last p + page_size p")
  case True
  let ?a = "palloc_start p align"
  have "?a \<noteq> 0"
    using palloc_start_bounds(1) [of p align] inv pool_mem_inv_page(2) [OF inv]
    by (auto simp: pool_mem_inv_def)
  then have "palloc_with_alignment mal p sz align = Done (?a, p\<lparr>page_cur := ?a + sz\<rparr>)"
    using True palloc_in_current_page_eq [OF inv sz, of align] by (simp add: palloc_with_alignment_def)
  moreover have "pool_mem_inv (p\<lparr>page_cur := ?a + sz\<rparr>) ((?a, sz) # us)"
    using pool_mem_inv_current [OF inv palloc_start_bounds(1) True] .
  moreover have "align \<longrightarrow> 8 dvd ?a" by (simp add: palloc_start_def align_native_dvd)
  ultimately show ?thesis using \<open>?a \<noteq> 0\<close>
    by (intro exI [of _ ?a] exI [of _ "p\<lparr>page_cur := ?a + sz\<rparr>"] exI [of _ "[]"]) (simp add: pool_grown_def)
next
  case False
  then have cur: "palloc_in_current_page p sz align = (0, p)"
    using palloc_in_current_page_eq [OF inv sz, of align] by simp
  from mal inv sz show ?thesis
  proof (rule palloc_in_new_page_ok [where align = align])
    fix a q assume "palloc_in_new_page mal p sz align = Done (a, q)" "a \<noteq> 0" "8 dvd a"
      "pool_mem_inv q ((a, sz) # us)" "pool_grown p q [page_last q] []"
      "levels q = levels p" "level_at q = level_at p"
    then show ?thesis using cur by (auto simp: palloc_with_alignment_def)
  next
    fix q assume new: "palloc_in_new_page mal p sz align = Done (0, q)" "q = p"
    obtain a r where r: "plain_old_malloc mal p sz = (a, r)" by fastforce
    have res: "palloc_with_alignment mal p sz align = Done (a, r)"
      using cur new r by (simp add: palloc_with_alignment_def)
    show ?thesis
    proof (cases "a = 0")
      case True
      have "(8 + sz) mod 2 ^ 64 = 8 + sz" using sz by simp
      then have "r = p" "mal (live p) (8 + sz) = 0"
        using r True unfolding plain_old_malloc_def Let_def sizeof_allocd_def by (auto split: if_splits)
      then show ?thesis using True inv res pool_grown_refl by fastforce
    next
      case False
      then show ?thesis using plain_old_malloc_ok [OF mal inv sz r False] res by auto
    qed
  qed
qed

section \<open>Runs of allocations and marks\<close>

datatype pool_op = PAlloc nat bool | PMark

fun pool_exec :: "malloc_fn \<Rightarrow> pool_op \<Rightarrow> pool \<Rightarrow> pool run" where
  "pool_exec mal (PAlloc sz align) p = run_bind (palloc_with_alignment mal p sz align) (\<lambda>x. Done (snd x))"
| "pool_exec mal PMark p = run_bind (shuso_pool_mark_level mal p) (\<lambda>x. Done (snd x))"

fun pool_execs :: "malloc_fn \<Rightarrow> pool_op list \<Rightarrow> pool \<Rightarrow> pool run" where
  "pool_execs mal [] p = Done p"
| "pool_execs mal (x # xs) p = run_bind (pool_exec mal x p) (pool_execs mal xs)"

fun pool_op_valid :: "pool_op \<Rightarrow> bool" where
  "pool_op_valid (PAlloc sz align) = (sz < 2 ^ 62)"
| "pool_op_valid PMark = True"

text \<open>
  Levels survive later allocations: the array only grows at its end and the structures of
  the levels already marked are not overwritten.
\<close>

definition levels_kept :: "pool \<Rightarrow> pool \<Rightarrow> bool" where
  "levels_kept p q \<longleftrightarrow>
     (\<exists>ls. levels q = levels p @ ls) \<and> (\<forall>l \<in> set (levels p). level_at q l = level_at p l)"

lemma levels_kept_trans: "levels_kept p q \<Longrightarrow> levels_kept q r \<Longrightarrow> levels_kept p r"
  unfolding levels_kept_def by clarsimp

lemma pool_mark_level_ok:
  assumes mal: "malloc_sound mal" and inv: "pool_inv p us"
    and m: "shuso_pool_mark_level mal p = Done (n, q)"
  shows "\<exists>us' ps as. pool_inv q (us' @ us) \<and> pool_grown p q ps as \<and> levels_kept p q \<and>
    (n \<noteq> 0 \<longrightarrow> n = length (levels p) + 1 \<and> n = length (levels q) \<and>
       level_at q (last (levels q)) =
         \<lparr>lv_page = page_last q, lv_page_cur = page_cur q, lv_allocd = allocd_last q\<rparr>)"
proof -
  have mem: "pool_mem_inv p us" using inv by (simp add: pool_inv_def)
  obtain a r ps as where r: "palloc_with_alignment mal p sizeof_level True = Done (a, r)"
    "pool_mem_inv r (if a = 0 then us else (a, sizeof_level) # us)" "pool_grown p r ps as"
    "levels r = levels p" "level_at r = level_at p"
    using palloc_with_alignment_ok [OF mal mem, of sizeof_level True] by (auto simp: sizeof_level_def)
  show ?thesis
  proof (cases "a = 0")
    case True
    then have "n = 0" "q = r" using m r(1) by (auto simp: shuso_pool_mark_level_def shuso_palloc_def)
    then show ?thesis using r inv True
      by (intro exI [of _ "[]"] exI [of _ ps] exI [of _ as]) (auto simp: pool_inv_def levels_kept_def)
  next
    case False
    define lv where "lv = \<lparr>lv_page = page_last r, lv_page_cur = page_cur r, lv_allocd = allocd_last r\<rparr>"
    have q: "n = length (levels p) + 1"
      "q = r\<lparr>level_at := (level_at r)(a := lv), levels := levels r @ [a]\<rparr>"
      using m r False by (auto simp: shuso_pool_mark_level_def shuso_palloc_def lv_def Let_def
          c_assert_Done_iff)
    have new: "a \<notin> set (levels p)"
    proof
      assume "a \<in> set (levels p)"
      then have "(a, sizeof_level) \<in> set us" using inv by (auto simp: pool_inv_def)
      then have "block_disjoint (a, sizeof_level) (a, sizeof_level)"
        using r(2) False by (auto simp: pool_mem_inv_def)
      then show False by (simp add: block_disjoint_def sizeof_level_def)
    qed
    have "pool_block q u" if "pool_block r u" for u using that by (simp add: pool_block_def q)
    then have "pool_mem_inv q ((a, sizeof_level) # us)"
      using r(2) False by (simp add: q pool_mem_inv_def heap_inv_def)
    then have "pool_inv q ([(a, sizeof_level)] @ us)"
      using inv new r(4) by (auto simp: pool_inv_def q)
    moreover have "pool_grown p q ps as" using r(3) by (simp add: pool_grown_def q)
    moreover have "levels_kept p q" using r(4,5) new by (auto simp: levels_kept_def q)
    ultimately show ?thesis using q(1) r(4)
      by (intro exI [of _ "[(a, sizeof_level)]"] exI [of _ ps] exI [of _ as]) (simp add: q(2) lv_def)
  qed
qed

lemma pool_exec_ok:
  assumes mal: "malloc_sound mal" and inv: "pool_inv p us" and op: "pool_op_valid x"
    and ex: "pool_exec mal x p = Done q"
  shows "\<exists>us' ps as. pool_inv q (us' @ us) \<and> pool_grown p q ps as \<and> levels_kept p q"
proof (cases x)
  case (PAlloc sz align)
  have mem: "pool_mem_inv p us" using inv by (simp add: pool_inv_def)
  obtain a r ps as where r: "palloc_with_alignment mal p sz align = Done (a, r)"
    "pool_mem_inv r (if a = 0 then us else (a, sz) # us)" "pool_grown p r ps as"
    "levels r = levels p" "level_at r = level_at p"
    using palloc_with_alignment_ok [OF mal mem, of sz align] op PAlloc by auto
  have "q = r" using ex r(1) by (simp add: PAlloc)
  then show ?thesis
    using r inv by (intro exI [of _ "if a = 0 then [] else [(a, sz)]"] exI [of _ ps] exI [of _ as])
      (auto simp: pool_inv_def levels_kept_def)
next
  case PMark
  then obtain n where "shuso_pool_mark_level mal p = Done (n, q)"
    using ex by (auto simp: run_bind_Done_iff)
  then show ?thesis using pool_mark_level_ok [OF mal inv] by blast
qed

lemma pool_execs_ok:
  assumes "malloc_sound mal" and "pool_inv p us" and "\<forall>x \<in> set xs. pool_op_valid x"
    and "pool_execs mal xs p = Done q"
  shows "\<exists>us' ps as. pool_inv q (us' @ us) \<and> pool_grown p q ps as \<and> levels_kept p q"
  using assms(2-)
proof (induction xs arbitrary: p us)
  case Nil
  then show ?case using pool_grown_refl
    by (intro exI [of _ "[]"]) (auto simp: levels_kept_def)
next
  case (Cons x xs)
  obtain r where r: "pool_exec mal x p = Done r" "pool_execs mal xs r = Done q"
    using Cons.prems(3) by (auto simp: run_bind_Done_iff)
  obtain us1 ps1 as1 where 1: "pool_inv r (us1 @ us)" "pool_grown p r ps1 as1" "levels_kept p r"
    using pool_exec_ok [OF assms(1) Cons.prems(1) _ r(1)] Cons.prems(2) by auto
  obtain us2 ps2 as2 where 2: "pool_inv q (us2 @ us1 @ us)" "pool_grown r q ps2 as2" "levels_kept r q"
    using Cons.IH [OF 1(1) _ r(2)] Cons.prems(2) by auto
  have "pool_inv q ((us2 @ us1) @ us)" using 2(1) by simp
  then show ?case
    using pool_grown_trans [OF 1(2) 2(2)] levels_kept_trans [OF 1(3) 2(3)] by blast
qed

section \<open>Draining and emptying\<close>

definition free_all :: "addr list \<Rightarrow> block list \<Rightarrow> block list" where
  "free_all as lv = filter (\<lambda>b. fst b \<notin> set as) lv"

lemma free_all_Cons: "free_all (a # as) lv = free_all as (c_free a lv)"
  by (auto simp: free_all_def c_free_def intro!: filter_cong)

lemma free_all_free_all: "free_all as (free_all bs lv) = free_all (as @ bs) lv"
  by (auto simp: free_all_def intro!: filter_cong)

lemma free_all_Nil [simp]: "free_all [] lv = lv"
  by (simp add: free_all_def)

lemma free_all_grown:
  assumes "pool_grown p q ps as" and "distinct (map fst (live q))"
  shows "free_all (as @ ps) (live q) = live p" "free_all (ps @ as) (live q) = live p"
proof -
  obtain lv where lv: "live q = lv @ live p" "fst ` set lv = set ps \<union> set as"
    using assms(1) by (auto simp: pool_grown_def)
  have new: "fst b \<in> set ps \<union> set as" if "b \<in> set lv" for b
    unfolding lv(2) [symmetric] using that by simp
  have "set (map fst lv) \<inter> set (map fst (live p)) = {}"
    using assms(2) unfolding lv(1) map_append distinct_append by blast
  then have old: "fst b \<notin> set ps \<union> set as" if "b \<in> set (live p)" for b
    using that unfolding set_map lv(2) by auto
  show "free_all (as @ ps) (live q) = live p" "free_all (ps @ as) (live q) = live p"
    using new old by (auto simp: lv(1) free_all_def filter_empty_conv filter_id_conv)
qed

text \<open>The four loops: they free exactly the blocks in front of the given rest of the chain.\<close>

lemma drain_allocds_eq:
  assumes "allocds p = as @ bs" and "distinct (allocds p)" and "0 \<notin> set as"
  shows "drain_allocds (chain_last bs) p = Done (p\<lparr>allocds := bs, live := free_all as (live p)\<rparr>)"
  using assms
proof (induction as arbitrary: p)
  case Nil
  then show ?case by (cases p) (simp add: drain_allocds.simps)
next
  case (Cons a as)
  have ne: "a \<noteq> chain_last bs" using Cons.prems by (cases bs) auto
  have "drain_allocds (chain_last bs) p = drain_allocds (chain_last bs) (plain_old_free_last p)"
    using Cons.prems ne by (subst drain_allocds.simps) simp
  also have "\<dots> = Done ((plain_old_free_last p)\<lparr>allocds := bs,
      live := free_all as (live (plain_old_free_last p))\<rparr>)"
    using Cons.prems by (intro Cons.IH) (simp_all add: plain_old_free_last_def)
  finally show ?case using Cons.prems by (simp add: plain_old_free_last_def free_all_Cons)
qed

lemma drain_pages_eq:
  assumes "pages p = as @ bs" and "distinct (pages p)" and "0 \<notin> set as"
  shows "drain_pages (chain_last bs) p =
    Done (p\<lparr>pages := bs, page_count := page_count p - length as, live := free_all as (live p)\<rparr>)"
  using assms
proof (induction as arbitrary: p)
  case Nil
  then show ?case by (cases p) (simp add: drain_pages.simps)
next
  case (Cons a as)
  have ne: "a \<noteq> chain_last bs" using Cons.prems by (cases bs) auto
  have "drain_pages (chain_last bs) p = drain_pages (chain_last bs) (remove_last_page p)"
    using Cons.prems ne by (subst drain_pages.simps) simp
  also have "\<dots> = Done ((remove_last_page p)\<lparr>pages := bs,
      page_count := page_count (remove_last_page p) - length as,
      live := free_all as (live (remove_last_page p))\<rparr>)"
    using Cons.prems by (intro Cons.IH) (simp_all add: remove_last_page_def)
  finally show ?case using Cons.prems by (simp add: remove_last_page_def free_all_Cons)
qed

lemma empty_allocds_eq:
  "0 \<notin> set (allocds p) \<Longrightarrow> empty_allocds p = p\<lparr>allocds := [], live := free_all (allocds p) (live p)\<rparr>"
proof (induction "allocds p" arbitrary: p)
  case Nil
  then show ?case by (cases p) (simp add: empty_allocds.simps)
next
  case (Cons a as)
  have "empty_allocds p = empty_allocds (plain_old_free_last p)"
    using Cons.prems by (subst empty_allocds.simps) (simp flip: Cons(2))
  also have "\<dots> = (plain_old_free_last p)\<lparr>allocds := [], live := free_all as (c_free a (live p))\<rparr>"
    using Cons.hyps(1) [of "plain_old_free_last p"] Cons.prems
    by (simp add: plain_old_free_last_def flip: Cons(2))
  finally show ?case by (simp add: plain_old_free_last_def free_all_Cons flip: Cons(2))
qed

lemma empty_pages_eq:
  "0 \<notin> set (pages p) \<Longrightarrow> empty_pages p =
    p\<lparr>pages := [], page_count := page_count p - length (pages p), live := free_all (pages p) (live p)\<rparr>"
proof (induction "pages p" arbitrary: p)
  case Nil
  then show ?case by (cases p) (simp add: empty_pages.simps)
next
  case (Cons a as)
  have sel: "pages (remove_last_page p) = as" "page_count (remove_last_page p) = page_count p - 1"
    "live (remove_last_page p) = c_free a (live p)"
    using Cons.prems by (simp_all add: remove_last_page_def flip: Cons(2))
  have "empty_pages p = empty_pages (remove_last_page p)"
    using Cons.prems by (subst empty_pages.simps) (simp flip: Cons(2))
  also have "\<dots> = (remove_last_page p)\<lparr>pages := [], page_count := page_count p - 1 - length as,
      live := free_all as (c_free a (live p))\<rparr>"
    using Cons.hyps(1) [OF sel(1) [symmetric]] Cons.prems unfolding sel Cons.hyps(2) [symmetric] by simp
  finally show ?case
    using Cons.prems by (simp add: remove_last_page_def free_all_Cons flip: Cons(2))
qed

section \<open>The pool as an allocator\<close>

fun pool_alloc :: "malloc_fn \<times> pool \<Rightarrow> nat \<times> bool \<Rightarrow> (addr \<times> malloc_fn \<times> pool) run" where
  "pool_alloc (mal, p) (sz, align) =
     run_bind (palloc_with_alignment mal p sz align) (\<lambda>(a, q). Done (a, mal, q))"

definition pool_valid :: "malloc_fn \<times> pool \<Rightarrow> block list \<Rightarrow> bool" where
  "pool_valid s us \<longleftrightarrow> malloc_sound (fst s) \<and> pool_inv (snd s) us"

interpretation pool: allocator pool_alloc fst "\<lambda>r. fst r < 2 ^ 62" pool_valid
proof unfold_locales
  fix s us and r :: "nat \<times> bool"
  assume inv: "pool_valid s us" and r: "fst r < 2 ^ 62"
  obtain mal p where s: "s = (mal, p)" by fastforce
  have mem: "malloc_sound mal" "pool_inv p us" "pool_mem_inv p us"
    using inv by (auto simp: pool_valid_def pool_inv_def s)
  obtain a q where q: "palloc_with_alignment mal p (fst r) (snd r) = Done (a, q)"
    "pool_mem_inv q (if a = 0 then us else (a, fst r) # us)" "levels q = levels p"
    using palloc_with_alignment_ok [OF mem(1,3) r] by blast
  then have "pool_valid (mal, q) (if a = 0 then us else (a, fst r) # us)"
    using mem(1,2) by (auto simp: pool_valid_def pool_inv_def)
  then show "\<exists>a t. pool_alloc s r = Done (a, t) \<and> pool_valid t (if a = 0 then us else (a, fst r) # us)"
    using q(1) by (cases r) (auto simp: s)
next
  fix s us assume "pool_valid s us"
  then show "disjoint_blocks us" by (simp add: pool_valid_def pool_inv_def pool_mem_inv_def)
qed

section \<open>A concrete heap\<close>

text \<open>A \<^verbatim>\<open>malloc\<close> that hands out addresses in increasing order, for concrete runs.\<close>

definition bump_malloc :: malloc_fn where
  "bump_malloc lv n =
     (let a = align_native (foldr (\<lambda>b m. max m (fst b + snd b)) lv 4096 + 1)
      in if a + n < 2 ^ 63 then a else 0)"

lemma foldr_max_ge: "b \<in> set lv \<Longrightarrow> fst b + snd b \<le> foldr (\<lambda>b m. max m (fst b + snd b)) lv (k :: nat)"
  by (induction lv) auto

lemma bump_malloc_sound: "malloc_sound bump_malloc"
  unfolding malloc_sound_def
proof (intro allI impI)
  fix lv n
  let ?m = "foldr (\<lambda>b m. max m (fst b + snd b)) lv 4096 :: nat"
  assume "bump_malloc lv n \<noteq> 0"
  then have a: "bump_malloc lv n = align_native (?m + 1)" "bump_malloc lv n + n < 2 ^ 63"
    by (auto simp: bump_malloc_def Let_def split: if_splits)
  have lt: "fst b + snd b < bump_malloc lv n" if "b \<in> set lv" for b
    using foldr_max_ge [OF that, of 4096] align_native_ge [of "?m + 1"] unfolding a(1) by linarith
  then have "bump_malloc lv n \<notin> fst ` set lv" by fastforce
  moreover have "\<forall>b \<in> set lv. block_disjoint (bump_malloc lv n, n) b"
    using lt by (auto simp: block_disjoint_def less_imp_le)
  ultimately show "8 dvd bump_malloc lv n \<and> bump_malloc lv n + n < 2 ^ 63 \<and>
      bump_malloc lv n \<notin> fst ` set lv \<and> (\<forall>b \<in> set lv. block_disjoint (bump_malloc lv n, n) b)"
    using a align_native_dvd by simp
qed

lemma pool_init_inv:
  assumes mal: "malloc_sound mal" and sz: "16 \<le> n" "n < 2 ^ 62"
    and lv: "disjoint_blocks lv" "distinct (map fst lv)"
    and p: "shuso_pool_init mal sysp n p0 = (True, p)" and l: "live p0 = lv"
  shows "pool_inv p []" "\<exists>ps. pool_grown (pool_zero lv\<lparr>page_size := n\<rparr>) p ps []"
proof -
  let ?a = "mal lv n"
  have nz: "?a \<noteq> 0" and q: "p = (pool_zero lv)\<lparr>page_size := n, page_cur := align_native (?a + 8),
      pages := [?a], page_count := 1, live := (?a, n) # lv\<rparr>"
    using p sz by (auto simp: shuso_pool_init_def shuso_pool_init_clean_def add_page_def Let_def
        pool_zero_def sizeof_page_def l split: if_splits)
  note m = malloc_soundD [OF mal nz]
  have "align_native (?a + 8) = ?a + 8" using m(1) by (intro align_native_id) simp
  then show "pool_inv p []"
    using m lv nz sz
    by (auto simp: q pool_inv_def pool_mem_inv_def heap_inv_def pool_zero_def)
  show "\<exists>ps. pool_grown (pool_zero lv\<lparr>page_size := n\<rparr>) p ps []"
    by (intro exI [of _ "[?a]"]) (simp add: pool_grown_def q pool_zero_def)
qed

definition example_pool :: pool where
  "example_pool = snd (shuso_pool_init bump_malloc 4096 64 (pool_zero []))"

lemmas pool_run_defs = shuso_pool_init_def shuso_pool_init_clean_def add_page_def bump_malloc_def
  align_native_def sizeof_page_def pool_zero_def palloc_with_alignment_def palloc_in_current_page_def
  palloc_in_new_page_def plain_old_malloc_def sizeof_allocd_def page_max_free_space_def ssize_of_def
  page_used_space_def shuso_pool_mark_level_def shuso_palloc_def sizeof_level_def pool_max_levels_def

lemma example_pool_init: "shuso_pool_init bump_malloc 4096 64 (pool_zero []) = (True, example_pool)"
  by (simp add: example_pool_def pool_run_defs)

lemma example_pool_inv: "pool_inv example_pool []"
  by (rule pool_init_inv(1) [OF bump_malloc_sound _ _ _ _ example_pool_init])
    (simp_all add: pool_zero_def)

section \<open>Properties\<close>



text \<open>However many blocks of whatever sizes are taken from a pool, no request aborts and
  all blocks handed out are pairwise disjoint.\<close>

theorem pool_allocations_disjoint:
  assumes "malloc_sound mal" and "pool_inv p us" and "\<forall>r \<in> set rs. fst r < 2 ^ 62"
  shows "\<exists>t cs. alloc_all pool_alloc fst rs ((mal, p), us) = Done (t, cs @ us) \<and> disjoint_blocks (cs @ us)"
  using pool.alloc_all_disjoint [of "(mal, p)" us rs] assms by (simp add: pool_valid_def)

theorem pool_allocations_disjoint_witness:
  "\<exists>t cs. alloc_all pool_alloc fst [(16, True), (3, False), (40, True), (200, True)]
      ((bump_malloc, example_pool), []) = Done (t, cs @ []) \<and> disjoint_blocks (cs @ [])"
  by (rule pool_allocations_disjoint [OF bump_malloc_sound example_pool_inv]) simp



text \<open>Plain allocations made since a level are leaked by draining to it when the level was
  marked before any plain allocation: all of them stay in the pool and in the heap.\<close>

theorem pool_drain_keeps_plain:
  assumes mal: "malloc_sound mal" and inv: "pool_inv p us"
    and mark: "shuso_pool_mark_level mal p = Done (n, q)" "n \<noteq> 0"
    and ops: "\<forall>x \<in> set xs. pool_op_valid x" "pool_execs mal xs q = Done r"
    and none: "allocds q = []"
  shows "\<exists>s. shuso_pool_drain_to_level r n = Done (True, s) \<and> allocds s = allocds r \<and>
    set (allocds r) \<subseteq> fst ` set (live s)"
proof -
  obtain us' where q: "pool_inv q us'" "n = length (levels q)"
    "level_at q (last (levels q)) = \<lparr>lv_page = page_last q, lv_page_cur = page_cur q, lv_allocd = allocd_last q\<rparr>"
    using pool_mark_level_ok [OF mal inv mark(1)] mark(2) by blast
  obtain us'' ps as where r: "pool_inv r us''" "pool_grown q r ps as" "levels_kept q r"
    using pool_execs_ok [OF mal q(1) ops] by blast
  have lv: "level_at r (levels r ! (n - 1)) =
      \<lparr>lv_page = page_last q, lv_page_cur = page_cur q, lv_allocd = 0\<rparr>" "n \<le> length (levels r)"
    using r(3) q(2,3) mark(2) none by (auto simp: levels_kept_def nth_append last_conv_nth)
  have heap: "heap_inv r" and d: "distinct (pages r)" "0 \<notin> set (pages r)" "pages r = ps @ pages q"
    and disj: "set (pages r) \<inter> set (allocds r) = {}"
    using r(1,2) by (auto simp: pool_inv_def pool_mem_inv_def heap_inv_def pool_grown_def)
  have pl: "page_last q \<noteq> 0" "page_last r \<noteq> 0"
    using q(1) r(1) pool_mem_inv_page(2) by (auto simp: pool_inv_def)
  have "drain_pages (page_last q) r = Done (r\<lparr>pages := pages q,
      page_count := page_count r - length ps, live := free_all ps (live r)\<rparr>)"
    using drain_pages_eq [OF d(3,1)] d by simp
  moreover have "set (allocds r) \<subseteq> fst ` set (free_all ps (live r))"
    using heap_inv_starts [OF heap] disj d(3) by (fastforce simp: free_all_def)
  ultimately show ?thesis
    using lv mark(2) pl by (simp add: shuso_pool_drain_to_level_def)
qed

theorem pool_drain_keeps_plain_witness:
  "\<exists>q r s. shuso_pool_mark_level bump_malloc example_pool = Done (1, q) \<and>
    pool_execs bump_malloc [PAlloc 500 True] q = Done r \<and> length (allocds r) = 1 \<and>
    shuso_pool_drain_to_level r 1 = Done (True, s) \<and> allocds s = allocds r \<and>
    set (allocds r) \<subseteq> fst ` set (live s)"
proof -
  define q where "q = snd (case shuso_pool_mark_level bump_malloc example_pool of Done x \<Rightarrow> x)"
  have q: "shuso_pool_mark_level bump_malloc example_pool = Done (1, q)"
    by (simp add: q_def example_pool_def pool_run_defs)
  define r where "r = (case pool_execs bump_malloc [PAlloc 500 True] q of Done x \<Rightarrow> x)"
  have r: "pool_execs bump_malloc [PAlloc 500 True] q = Done r" "length (allocds r) = 1" "allocds q = []"
    by (simp_all add: r_def q_def example_pool_def pool_run_defs)
  show ?thesis
    using pool_drain_keeps_plain [OF bump_malloc_sound example_pool_inv q _ _ r(1)] q r by auto
qed

text \<open>Emptying a pool gives back all its memory: after initialisation, any allocations and
  marks, and \<^verbatim>\<open>shuso_pool_empty\<close>, the heap is the heap before initialisation.\<close>

theorem pool_empty_frees_all:
  assumes mal: "malloc_sound mal" and sz: "16 \<le> n" "n < 2 ^ 62"
    and lv: "disjoint_blocks (live p0)" "distinct (map fst (live p0))"
    and init: "shuso_pool_init mal sysp n p0 = (True, p)"
    and ops: "\<forall>x \<in> set xs. pool_op_valid x" "pool_execs mal xs p = Done q"
  shows "live (snd (shuso_pool_empty q)) = live p0"
proof -
  let ?z = "pool_zero (live p0)\<lparr>page_size := n\<rparr>"
  note p = pool_init_inv [OF mal sz lv init refl]
  obtain us ps as where q: "pool_inv q us" "pool_grown p q ps as"
    using pool_execs_ok [OF mal p(1) ops] by auto
  obtain qs where z: "pool_grown ?z q (ps @ qs) as"
    using pool_grown_trans p(2) q(2) by fastforce
  then have g: "allocds q = as" "pages q = ps @ qs" by (simp_all add: pool_grown_def pool_zero_def)
  have heap: "distinct (map fst (live q))" "0 \<notin> set (pages q)" "0 \<notin> set (allocds q)"
    using q(1) by (auto simp: pool_inv_def pool_mem_inv_def heap_inv_def)
  have "free_all (pages q) (free_all (allocds q) (live q)) = live ?z"
    using free_all_grown(2) [OF z heap(1)] g by (simp add: free_all_free_all)
  then show ?thesis
    using heap by (simp add: shuso_pool_empty_def empty_allocds_eq empty_pages_eq pool_zero_def)
qed

theorem pool_empty_frees_all_witness:
  "\<exists>q. pool_execs bump_malloc [PAlloc 48 True, PAlloc 500 False, PMark] example_pool = Done q \<and>
    length (live q) = 3 \<and> live (snd (shuso_pool_empty q)) = []"
proof -
  define q where "q = (case pool_execs bump_malloc [PAlloc 48 True, PAlloc 500 False, PMark] example_pool of Done x \<Rightarrow> x)"
  have q: "pool_execs bump_malloc [PAlloc 48 True, PAlloc 500 False, PMark] example_pool = Done q"
    "length (live q) = 3"
    by (simp_all add: q_def example_pool_def pool_run_defs)
  show ?thesis
    using pool_empty_frees_all [OF bump_malloc_sound _ _ _ _ example_pool_init _ q(1)] q
    by (auto simp: pool_zero_def)
qed

text \<open>A request of half the address space or more is not refused.  The size is cast to
  \<^verbatim>\<open>ssize_t\<close> and compares as negative, so \<^verbatim>\<open>shuso_palloc\<close> of \<open>2^64 - 8\<close> bytes returns a
  block and moves the position in the page back over memory already handed out.\<close>

theorem palloc_huge_moves_back:
  assumes "pool_inv p us" and "8 dvd page_cur p"
  shows "shuso_palloc mal p (2 ^ 64 - 8) = Done (page_cur p, p\<lparr>page_cur := page_cur p - 8\<rparr>)"
proof -
  have inv: "pool_mem_inv p us" using assms(1) by (simp add: pool_inv_def)
  have b: "page_last p + 8 \<le> page_cur p" "page_cur p \<le> page_last p + page_size p"
    "page_last p + page_size p < 2 ^ 63" "page_size p < 2 ^ 62" "page_last p \<noteq> 0"
    using inv pool_mem_inv_page(2,3) [OF inv] by (simp_all add: pool_mem_inv_def)
  then have u: "page_used_space (page_last p) (page_cur p) = page_cur p - page_last p"
    by (simp add: page_used_space_def mod_if)
  have w: "(page_cur p + (2 ^ 64 - 8)) mod 2 ^ 64 = page_cur p - 8"
    using b by (simp add: mod_if)
  have neg: "ssize_of (2 ^ 64 - 8) = - 8" by (simp add: ssize_of_def)
  have "palloc_in_current_page p (2 ^ 64 - 8) True = (page_cur p, p\<lparr>page_cur := page_cur p - 8\<rparr>)"
    unfolding palloc_in_current_page_def Let_def u neg using b assms(2) w
    by (simp add: align_native_id ssize_of_small)
  then show ?thesis using b by (simp add: shuso_palloc_def palloc_with_alignment_def)
qed

theorem palloc_huge_moves_back_witness:
  "shuso_palloc bump_malloc example_pool (2 ^ 64 - 8) =
    Done (page_cur example_pool, example_pool\<lparr>page_cur := page_cur example_pool - 8\<rparr>)"
proof (rule palloc_huge_moves_back [OF example_pool_inv])
  show "8 dvd page_cur example_pool" by (simp add: example_pool_def pool_run_defs)
qed

text \<open>The space counters add up: used and free space are the pages times their size, as
  long as that fits in 64 bits.\<close>

theorem pool_space_total:
  assumes "pool_inv p us" and "page_size p * page_count p < 2 ^ 64"
  shows "shuso_pool_space p SPACE_USED + shuso_pool_space p SPACE_FREE = page_size p * page_count p"
proof -
  have inv: "pool_mem_inv p us" using assms(1) by (simp add: pool_inv_def)
  have b: "page_last p + 8 \<le> page_cur p" "page_cur p \<le> page_last p + page_size p"
    "page_last p + page_size p < 2 ^ 63" "page_size p < 2 ^ 62" "page_last p \<noteq> 0" "1 \<le> page_count p"
    using inv pool_mem_inv_page(2,3) [OF inv] by (auto simp: pool_mem_inv_def Suc_le_eq)
  have used: "page_used_space (page_last p) (page_cur p) = page_cur p - page_last p"
    using b by (simp add: page_used_space_def mod_if)
  let ?u = "page_cur p - page_last p"
  have mul: "page_size p * page_count p = page_size p * (page_count p - 1) + page_size p"
    using b(6) by (cases "page_count p") simp_all
  have "1 \<le> page_size p" using inv by (simp add: pool_mem_inv_def)
  then have "1 * page_count p \<le> page_size p * page_count p" by (rule mult_le_mono1)
  then have "page_count p < 2 ^ 64" using assms(2) by linarith
  then have cnt: "(page_count p + 2 ^ 64 - 1) mod 2 ^ 64 = page_count p - 1"
    using b(6) by (simp add: mod_if)
  have "page_size p * (page_count p - 1) + ?u < 2 ^ 64" using mul assms(2) b(2) by linarith
  then have "shuso_pool_space p SPACE_USED = page_size p * (page_count p - 1) + ?u"
    unfolding shuso_pool_space_def using b(5) by (simp only: space_kind.case used cnt if_False mod_less)
  moreover have "shuso_pool_space p SPACE_FREE = page_size p - ?u"
    using b used by (simp add: shuso_pool_space_def mod_if)
  ultimately show ?thesis using mul b(2) by linarith
qed

theorem pool_space_total_witness:
  "shuso_pool_space example_pool SPACE_USED + shuso_pool_space example_pool SPACE_FREE = 64"
  using pool_space_total [OF example_pool_inv]
  by (simp add: example_pool_def pool_run_defs)

end
