(* ===== verification/Process.thy ===== *)
theory Process
  imports IPC_Ring
begin

text \<open>
  Processes, run states and error reporting of \<^verbatim>\<open>shuttlesock.c\<close> and \<^verbatim>\<open>common.h\<close>: the
  state a process sees (its own \<^verbatim>\<open>shuso_t\<close> and the shared \<^verbatim>\<open>shuso_common_t\<close>), process
  numbers, the run state checks and the last-error machinery.
\<close>

section \<open>Run states\<close>

datatype runstate =
    SHUSO_STATE_DEAD
  | SHUSO_STATE_STOPPED
  | SHUSO_STATE_MISCONFIGURED
  | SHUSO_STATE_CONFIGURING
  | SHUSO_STATE_CONFIGURED
  | SHUSO_STATE_NIL
  | SHUSO_STATE_STARTING
  | SHUSO_STATE_RUNNING
  | SHUSO_STATE_STOPPING

fun runstate_int :: "runstate \<Rightarrow> int" where
  "runstate_int SHUSO_STATE_DEAD = - 5"
| "runstate_int SHUSO_STATE_STOPPED = - 4"
| "runstate_int SHUSO_STATE_MISCONFIGURED = - 3"
| "runstate_int SHUSO_STATE_CONFIGURING = - 2"
| "runstate_int SHUSO_STATE_CONFIGURED = - 1"
| "runstate_int SHUSO_STATE_NIL = 0"
| "runstate_int SHUSO_STATE_STARTING = 1"
| "runstate_int SHUSO_STATE_RUNNING = 2"
| "runstate_int SHUSO_STATE_STOPPING = 3"

lemma runstate_int_inject: "runstate_int a = runstate_int b \<Longrightarrow> a = b"
  by (cases a; cases b) simp_all

text \<open>The code compares run states as the integers of their enum.\<close>

instantiation runstate :: linorder
begin

definition less_eq_runstate :: "runstate \<Rightarrow> runstate \<Rightarrow> bool" where
  "less_eq_runstate a b \<longleftrightarrow> runstate_int a \<le> runstate_int b"

definition less_runstate :: "runstate \<Rightarrow> runstate \<Rightarrow> bool" where
  "less_runstate a b \<longleftrightarrow> runstate_int a < runstate_int b"

instance
  by standard (auto simp: less_eq_runstate_def less_runstate_def intro: runstate_int_inject)

end

lemmas runstate_order = less_eq_runstate_def less_runstate_def

fun shuso_runstate_as_string :: "runstate \<Rightarrow> string" where
  "shuso_runstate_as_string SHUSO_STATE_DEAD = ''SHUSO_STATE_DEAD''"
| "shuso_runstate_as_string SHUSO_STATE_STOPPED = ''SHUSO_STATE_STOPPED''"
| "shuso_runstate_as_string SHUSO_STATE_MISCONFIGURED = ''SHUSO_STATE_MISCONFIGURED''"
| "shuso_runstate_as_string SHUSO_STATE_CONFIGURING = ''SHUSO_STATE_CONFIGURING''"
| "shuso_runstate_as_string SHUSO_STATE_CONFIGURED = ''SHUSO_STATE_CONFIGURED''"
| "shuso_runstate_as_string SHUSO_STATE_NIL = ''SHUSO_STATE_NIL''"
| "shuso_runstate_as_string SHUSO_STATE_STARTING = ''SHUSO_STATE_STARTING''"
| "shuso_runstate_as_string SHUSO_STATE_RUNNING = ''SHUSO_STATE_RUNNING''"
| "shuso_runstate_as_string SHUSO_STATE_STOPPING = ''SHUSO_STATE_STOPPING''"

section \<open>Process numbers\<close>

definition SHUTTLESOCK_UNKNOWN_PROCESS :: int where
  "SHUTTLESOCK_UNKNOWN_PROCESS = - 404"

definition SHUTTLESOCK_NOPROCESS :: int where
  "SHUTTLESOCK_NOPROCESS = - 3"

definition SHUTTLESOCK_MASTER :: int where
  "SHUTTLESOCK_MASTER = - 2"

definition SHUTTLESOCK_MANAGER :: int where
  "SHUTTLESOCK_MANAGER = - 1"

definition SHUTTLESOCK_WORKER :: int where
  "SHUTTLESOCK_WORKER = 0"

definition SHUTTLESOCK_MAX_WORKERS :: int where
  "SHUTTLESOCK_MAX_WORKERS = 256"

lemmas procnum_defs [simp] = SHUTTLESOCK_UNKNOWN_PROCESS_def SHUTTLESOCK_NOPROCESS_def
  SHUTTLESOCK_MASTER_def SHUTTLESOCK_MANAGER_def SHUTTLESOCK_WORKER_def SHUTTLESOCK_MAX_WORKERS_def

definition shuso_process_as_string :: "int \<Rightarrow> string" where
  "shuso_process_as_string procnum =
     (if procnum = SHUTTLESOCK_UNKNOWN_PROCESS then ''unknown''
      else if procnum = SHUTTLESOCK_NOPROCESS then ''no_process''
      else if procnum = SHUTTLESOCK_MASTER then ''master''
      else if procnum = SHUTTLESOCK_MANAGER then ''manager''
      else if procnum \<ge> SHUTTLESOCK_WORKER then ''worker''
      else ''???'')"

section \<open>The state of a process\<close>

text \<open>
  The function pointers of the IPC handler table: the handlers of \<^verbatim>\<open>ipc_commands.c\<close>,
  \<^verbatim>\<open>do_nothing\<close> of \<^verbatim>\<open>ipc.c\<close>, and those other modules register.
\<close>

datatype ipc_fn =
    Do_nothing
  | Signal_handle
  | Shutdown_handle
  | Reconfigure_handle
  | Set_log_fd_handle
  | Manager_proxy_message_handle
  | Received_proxied_message_handle
  | Worker_started_handle
  | All_worker_started_handle
  | Worker_stopped_handle
  | Module_fn nat

record ipc_handler =
  h_name :: string
  h_receive :: "ipc_fn option"
  h_cancel :: ipc_fn

text \<open>What a process does to the outside, in order.\<close>

datatype shuso_effect =
    Notice int              \<comment> \<open>\<^verbatim>\<open>shuso_io_resume\<close> of the notice coroutine for a process\<close>
  | Publish string int      \<comment> \<open>\<^verbatim>\<open>shuso_core_event_publish\<close> with its name and data\<close>
  | Log_error string        \<comment> \<open>\<^verbatim>\<open>shuso_log_error\<close>\<close>
  | Timer string int        \<comment> \<open>\<^verbatim>\<open>shuso_add_timer_watcher\<close> with its callback and data\<close>
  | Slab_free addr          \<comment> \<open>\<^verbatim>\<open>shuso_shared_slab_free\<close>\<close>
  | Call ipc_fn "8 word" addr  \<comment> \<open>a handler outside \<^verbatim>\<open>ipc_commands.c\<close>\<close>

text \<open>A node of the chain of buffered messages (\<^verbatim>\<open>shuso_ipc_outbuf_t\<close>).\<close>

record outbuf_node =
  ob_code :: "8 word"
  ob_ptr :: addr
  ob_dst :: int
  ob_next :: addr

record proxy_msg =
  px_code :: "8 word"
  px_src :: int
  px_dst :: int
  px_pd :: addr

datatype child_state =
    SHUSO_CHILD_RUNNING
  | SHUSO_CHILD_EXITED
  | SHUSO_CHILD_KILLED
  | SHUSO_CHILD_STOPPED

record sigchild_info =
  sc_pid :: int
  sc_state :: child_state
  sc_code :: int
  sc_waitpid_status :: "32 word"

text \<open>
  Fields named after \<^verbatim>\<open>shuso_t\<close> and \<^verbatim>\<open>shuso_common_t\<close>.  \<open>proc_state\<close> and \<open>proc_ring\<close> are
  the shared \<^verbatim>\<open>state\<close> and \<^verbatim>\<open>ipc.buf\<close> of every process by number; \<open>nodes\<close> the
  live \<^verbatim>\<open>malloc\<close>ed outbuf nodes; \<open>proxy_mem\<close> the proxy messages in shared memory by
  address; \<open>error_oom\<close> says that \<^verbatim>\<open>malloc\<close> refuses the next error message.  \<open>effects\<close> is
  the trace of outward actions, newest last.
\<close>

record shuso =
  procnum :: int
  common_state :: runstate
  proc_state :: "int \<Rightarrow> runstate"
  proc_ring :: "int \<Rightarrow> ringbuf"
  workers_start :: nat
  workers_end :: nat
  all_workers_running :: bool
  ipc_handlers :: "nat \<Rightarrow> ipc_handler option"
  manager_pid :: int
  sigchild_manager :: sigchild_info
  sigchild_last :: sigchild_info
  log_fd :: int
  error_msg :: "string option"
  error_count :: int
  error_number :: int
  error_static_memory :: bool
  error_do_not_log :: bool
  error_do_not_publish_event :: bool
  error_oom :: bool
  buf_first :: addr
  buf_last :: addr
  nodes :: "addr \<rightharpoonup> outbuf_node"
  send_retry_active :: bool
  proxy_mem :: "addr \<Rightarrow> proxy_msg"
  effects :: "shuso_effect list"

abbreviation own_state :: "shuso \<Rightarrow> runstate" where
  "own_state S \<equiv> proc_state S (procnum S)"

definition emit :: "shuso_effect \<Rightarrow> shuso \<Rightarrow> shuso" where
  "emit e S = S\<lparr>effects := effects S @ [e]\<rparr>"

section \<open>Errors\<close>

definition shuso_last_error :: "shuso \<Rightarrow> string option" where
  "shuso_last_error S = error_msg S"

definition shuso_set_error_internal_vararg :: "string \<Rightarrow> shuso \<Rightarrow> shuso" where
  "shuso_set_error_internal_vararg msg S =
     (let S = S\<lparr>error_count := error_count S + 1\<rparr>;
          S = (if error_oom S
               then S\<lparr>error_msg := Some ''failed to set error: out of memory'', error_static_memory := True\<rparr>
               else S\<lparr>error_msg := Some msg, error_static_memory := False\<rparr>);
          S = (if \<not> error_do_not_log S then emit (Log_error (the (error_msg S))) S else S)
      in if \<not> error_do_not_publish_event S \<and> common_state S > SHUSO_STATE_CONFIGURING
         then (emit (Publish ''error'' 0) (S\<lparr>error_do_not_publish_event := True\<rparr>))
                \<lparr>error_do_not_publish_event := False\<rparr>
         else S)"

definition shuso_set_error :: "string \<Rightarrow> shuso \<Rightarrow> bool \<times> shuso" where
  "shuso_set_error msg S = (False, shuso_set_error_internal_vararg msg (S\<lparr>error_number := 0\<rparr>))"

definition shuso_set_error_errno :: "int \<Rightarrow> string \<Rightarrow> shuso \<Rightarrow> bool \<times> shuso" where
  "shuso_set_error_errno errno msg S =
     (False, shuso_set_error_internal_vararg msg (S\<lparr>error_number := errno\<rparr>))"

definition shuso_error_capture_start :: "shuso \<Rightarrow> int \<times> shuso" where
  "shuso_error_capture_start S =
     (error_count S, S\<lparr>error_do_not_publish_event := True, error_do_not_log := True\<rparr>)"

definition shuso_error_capture_finish :: "int \<Rightarrow> shuso \<Rightarrow> string option \<times> shuso" where
  "shuso_error_capture_finish prev_errcount S =
     (let S = S\<lparr>error_do_not_publish_event := False, error_do_not_log := False\<rparr>
      in (if prev_errcount < error_count S then shuso_last_error S else None, S))"

definition shuso_runstate_check :: "runstate \<Rightarrow> string \<Rightarrow> shuso \<Rightarrow> (bool \<times> shuso) run" where
  "shuso_runstate_check allowed_state what S =
     (if common_state S = allowed_state then Done (True, S)
      else
        (let fail = (\<lambda>why. Done (shuso_set_error (''failed to '' @ what @ '': '' @ why) S)) in
         case common_state S of
           SHUSO_STATE_DEAD \<Rightarrow> fail ''shuttlesock is already dead''
         | SHUSO_STATE_STOPPED \<Rightarrow> fail ''shuttlesock is already stopped''
         | SHUSO_STATE_MISCONFIGURED \<Rightarrow>
             fail (case shuso_last_error S of None \<Rightarrow> ''shuttlesock is misconfigured'' | Some m \<Rightarrow> m)
         | SHUSO_STATE_CONFIGURING \<Rightarrow> fail ''shuttlesock is still being configured''
         | SHUSO_STATE_CONFIGURED \<Rightarrow> Abort
         | SHUSO_STATE_NIL \<Rightarrow> fail ''shuttlesock is unset''
         | SHUSO_STATE_STARTING \<Rightarrow> fail ''shuttlesock is starting''
         | SHUSO_STATE_RUNNING \<Rightarrow> fail ''shuttlesock is already running''
         | SHUSO_STATE_STOPPING \<Rightarrow> fail ''shuttlesock is already stopping''))"

section \<open>Which process\<close>

definition shuso_is_manager :: "shuso \<Rightarrow> bool" where
  "shuso_is_manager S \<longleftrightarrow> procnum S = SHUTTLESOCK_MANAGER"

definition shuso_is_master :: "shuso \<Rightarrow> bool" where
  "shuso_is_master S \<longleftrightarrow> procnum S = SHUTTLESOCK_MASTER"

definition shuso_is_worker :: "shuso \<Rightarrow> bool" where
  "shuso_is_worker S \<longleftrightarrow> procnum S \<ge> SHUTTLESOCK_WORKER"

definition shuso_processes_share_heap :: "int \<Rightarrow> int \<Rightarrow> bool" where
  "shuso_processes_share_heap procnum1 procnum2 =
     (if (procnum1 = SHUTTLESOCK_MASTER \<and> procnum2 \<noteq> SHUTTLESOCK_MASTER) \<or>
         (procnum2 = SHUTTLESOCK_MASTER \<and> procnum1 \<noteq> SHUTTLESOCK_MASTER)
      then False else True)"

definition shuso_workers_count :: "shuso \<Rightarrow> int" where
  "shuso_workers_count S = int (workers_end S) - int (workers_start S)"

definition shuso_procnum_valid :: "int \<Rightarrow> shuso \<Rightarrow> bool" where
  "shuso_procnum_valid n S =
     (if n < SHUTTLESOCK_MASTER then False
      else if n \<ge> SHUTTLESOCK_WORKER \<and> (n < int (workers_start S) \<or> n \<ge> int (workers_end S)) then False
      else True)"

text \<open>
  \<^verbatim>\<open>shuso_process\<close> and \<^verbatim>\<open>shuso_process_to_procnum\<close> work on pointers into the array of
  processes that starts with master and manager; a pointer is its offset from
  \<^verbatim>\<open>worker[0]\<close> in units of \<^verbatim>\<open>shuso_process_t\<close>.
\<close>

definition shuso_process :: "int \<Rightarrow> int option" where
  "shuso_process n =
     (if n < SHUTTLESOCK_MASTER \<or> n > SHUTTLESOCK_MAX_WORKERS then None else Some n)"

definition shuso_process_to_procnum :: "int \<Rightarrow> int" where
  "shuso_process_to_procnum proc =
     (if proc = SHUTTLESOCK_MASTER then SHUTTLESOCK_MASTER
      else if proc = SHUTTLESOCK_MANAGER then SHUTTLESOCK_MASTER
      else if proc \<ge> 0 \<and> proc < SHUTTLESOCK_MAX_WORKERS then proc
      else SHUTTLESOCK_NOPROCESS)"

section \<open>An example state\<close>

definition example_shuso :: "int \<Rightarrow> shuso" where
  "example_shuso n = \<lparr>procnum = n, common_state = SHUSO_STATE_RUNNING,
     proc_state = (\<lambda>_. SHUSO_STATE_RUNNING), proc_ring = (\<lambda>_. ringbuf_init), workers_start = 0,
     workers_end = 4, all_workers_running = False, ipc_handlers = (\<lambda>_. None), manager_pid = 100,
     sigchild_manager = \<lparr>sc_pid = 0, sc_state = SHUSO_CHILD_RUNNING, sc_code = 0, sc_waitpid_status = 0\<rparr>,
     sigchild_last = \<lparr>sc_pid = 0, sc_state = SHUSO_CHILD_RUNNING, sc_code = 0, sc_waitpid_status = 0\<rparr>, log_fd = 1, error_msg = None,
     error_count = 0, error_number = 0, error_static_memory = False, error_do_not_log = False,
     error_do_not_publish_event = False, error_oom = False, buf_first = 0, buf_last = 0,
     nodes = Map.empty, send_retry_active = False,
     proxy_mem = (\<lambda>_. \<lparr>px_code = 0, px_src = 0, px_dst = 0, px_pd = 0\<rparr>), effects = []\<rparr>"

end
