(* ===== verification/IPC.thy ===== *)
theory IPC
  imports Process
begin

text \<open>
  Sending and receiving IPC messages, from \<^verbatim>\<open>ipc.c\<close>: direct sends, the buffer of messages
  that could not be sent yet with its retry timer, proxying between master and workers
  through the manager, and the handler table.
\<close>

section \<open>Operations\<close>

text \<open>
  The surroundings of a process: the C heap for outbuf nodes and the shared slab for proxy
  messages (given the live nodes or the state, the address of a fresh object or 0), and
  whether publishing a core event runs through all its listeners.
\<close>

record ipc_env =
  node_malloc :: "(addr \<rightharpoonup> outbuf_node) \<Rightarrow> addr"
  shm_alloc :: "shuso \<Rightarrow> addr"
  publish_ok :: "string \<Rightarrow> bool"

definition ipc_send_direct :: "int \<Rightarrow> 8 word \<Rightarrow> addr \<Rightarrow> shuso \<Rightarrow> (bool \<times> shuso) run" where
  "ipc_send_direct dst code ptr S =
     run_bind (ring_send_direct (proc_ring S dst) code ptr)
       (\<lambda>(ok, r).
          let S = S\<lparr>proc_ring := (proc_ring S)(dst := r)\<rparr>
          in if \<not> ok then Done (False, S) else Done (True, emit (Notice dst) S))"

text \<open>Writing through the \<^verbatim>\<open>last\<close> pointer needs it to point to a live node.\<close>

definition ipc_send_outbuf_append ::
  "ipc_env \<Rightarrow> int \<Rightarrow> 8 word \<Rightarrow> addr \<Rightarrow> shuso \<Rightarrow> (bool \<times> shuso) run"
where
  "ipc_send_outbuf_append env dst code ptr S =
     (let buffered = node_malloc env (nodes S) in
      if buffered = 0 then Done (False, S)
      else
        (let S = S\<lparr>nodes := (nodes S)(buffered \<mapsto>
                   \<lparr>ob_code = code, ob_ptr = ptr, ob_dst = dst, ob_next = 0\<rparr>)\<rparr>;
             S = (if buf_first S = 0 then S\<lparr>buf_first := buffered\<rparr> else S)
         in run_bind
              (if buf_last S \<noteq> 0 then
                 (case nodes S (buf_last S) of
                    None \<Rightarrow> Abort
                  | Some n \<Rightarrow> Done (S\<lparr>nodes := (nodes S)(buf_last S \<mapsto> n\<lparr>ob_next := buffered\<rparr>)\<rparr>))
               else Done S)
              (\<lambda>S. let S = S\<lparr>buf_last := buffered\<rparr>
                   in Done (True, if \<not> send_retry_active S then S\<lparr>send_retry_active := True\<rparr> else S))))"

function (sequential)
    shuso_ipc_send :: "ipc_env \<Rightarrow> int \<Rightarrow> 8 word \<Rightarrow> addr \<Rightarrow> shuso \<Rightarrow> (bool \<times> shuso) run"
  and shuso_ipc_send_proxy_via_manager ::
    "ipc_env \<Rightarrow> int \<Rightarrow> 8 word \<Rightarrow> addr \<Rightarrow> shuso \<Rightarrow> (bool \<times> shuso) run"
where
  "shuso_ipc_send_proxy_via_manager env dst code ptr S =
     (let d = shm_alloc env S in
      if d = 0 then
        Done (shuso_set_error ''unable to allocate shared memory for IPC proxy message'' S)
      else
        shuso_ipc_send env SHUTTLESOCK_MANAGER 11 d
          (S\<lparr>proxy_mem := (proxy_mem S)
              (d := \<lparr>px_code = code, px_src = procnum S, px_dst = dst, px_pd = ptr\<rparr>)\<rparr>))"
| "shuso_ipc_send env dst code ptr S =
     (let dst_state = proc_state S dst in
      if dst_state < SHUSO_STATE_STARTING then
        (if dst \<ge> SHUTTLESOCK_WORKER then
           Done (shuso_set_error (''tried sending IPC message to worker '' @ decimal dst @
             '' with state '' @ shuso_runstate_as_string dst_state) S)
         else
           Done (shuso_set_error (''tried sending IPC message to '' @ shuso_process_as_string dst @
             '' with state '' @ shuso_runstate_as_string dst_state) S))
      else if (procnum S = SHUTTLESOCK_MASTER \<and> dst \<ge> SHUTTLESOCK_WORKER) \<or>
              (procnum S \<ge> SHUTTLESOCK_WORKER \<and> dst = SHUTTLESOCK_MASTER) then
        shuso_ipc_send_proxy_via_manager env dst code ptr S
      else if buf_first S \<noteq> 0 \<or> dst_state = SHUSO_STATE_STARTING then
        ipc_send_outbuf_append env dst code ptr S
      else
        run_bind (ipc_send_direct dst code ptr S)
          (\<lambda>(ok, S). if \<not> ok then ipc_send_outbuf_append env dst code ptr S else Done (True, S)))"
  by pat_completeness auto
termination
  by (relation "measure (case_sum (\<lambda>(env, dst, x). if dst = SHUTTLESOCK_MANAGER then 0 else 2) (\<lambda>x. 1))")
    auto

declare shuso_ipc_send.simps [simp del] shuso_ipc_send_proxy_via_manager.simps [simp del]

text \<open>\<^verbatim>\<open>ret = ret && shuso_ipc_send(..)\<close> for every worker from \<open>i\<close> up to the end.\<close>

fun send_workers_from ::
  "ipc_env \<Rightarrow> int list \<Rightarrow> 8 word \<Rightarrow> addr \<Rightarrow> bool \<times> shuso \<Rightarrow> (bool \<times> shuso) run"
where
  "send_workers_from env [] code ptr (ret, S) = Done (ret, S)"
| "send_workers_from env (i # is) code ptr (ret, S) =
     (if ret then run_bind (shuso_ipc_send env i code ptr S) (send_workers_from env is code ptr)
      else send_workers_from env is code ptr (False, S))"

definition worker_range :: "shuso \<Rightarrow> int list" where
  "worker_range S = map int [workers_start S..<workers_end S]"

definition shuso_ipc_send_workers :: "ipc_env \<Rightarrow> 8 word \<Rightarrow> addr \<Rightarrow> shuso \<Rightarrow> (bool \<times> shuso) run" where
  "shuso_ipc_send_workers env code ptr S = send_workers_from env (worker_range S) code ptr (True, S)"

text \<open>
  The timer callback that sends what is buffered.  The loop follows the chain of nodes,
  so it is written as a partial function; a dead node in the chain would be a use after
  free.
\<close>

partial_function (option) send_retry_loop :: "shuso \<Rightarrow> shuso run option" where
  "send_retry_loop S =
     (let cur = buf_first S in
      if cur = 0 then Some (Done (S\<lparr>buf_last := 0\<rparr>))
      else
        (case nodes S cur of
           None \<Rightarrow> Some Abort
         | Some n \<Rightarrow>
             (case ipc_send_direct (ob_dst n) (ob_code n) (ob_ptr n) S of
                Abort \<Rightarrow> Some Abort
              | Done (ok, S) \<Rightarrow>
                  if \<not> ok then Some (Done (S\<lparr>send_retry_active := True\<rparr>))
                  else send_retry_loop (S\<lparr>buf_first := ob_next n, nodes := (nodes S)(cur := None)\<rparr>))))"

definition ipc_send_retry_cb :: "shuso \<Rightarrow> shuso run option" where
  "ipc_send_retry_cb S = send_retry_loop S"

section \<open>The handler table\<close>

definition SHUTTLESOCK_IPC_CODE_AUTOMATIC :: nat where
  "SHUTTLESOCK_IPC_CODE_AUTOMATIC = 65535"

definition SHUTTLESOCK_IPC_CODE_AUTOMATIC_MIN :: nat where
  "SHUTTLESOCK_IPC_CODE_AUTOMATIC_MIN = 20"

definition SHUTTLESOCK_IPC_CODE_AUTOMATIC_MAX :: nat where
  "SHUTTLESOCK_IPC_CODE_AUTOMATIC_MAX = 255"

definition new_handler :: "string option \<Rightarrow> ipc_fn option \<Rightarrow> ipc_fn option \<Rightarrow> ipc_handler" where
  "new_handler name receive cancel =
     \<lparr>h_name = (case name of None \<Rightarrow> ''(unnamed)'' | Some n \<Rightarrow> n),
      h_receive = receive,
      h_cancel = (case cancel of None \<Rightarrow> Do_nothing | Some c \<Rightarrow> c)\<rparr>"

text \<open>
  The table has 256 entries; a code beyond it reads outside the array, which is an abort
  here.
\<close>

definition shuso_ipc_add_handler ::
  "string option \<Rightarrow> nat \<Rightarrow> ipc_fn option \<Rightarrow> ipc_fn option \<Rightarrow> shuso \<Rightarrow> (nat option \<times> shuso) run"
where
  "shuso_ipc_add_handler name code receive cancel S =
     run_bind (shuso_runstate_check SHUSO_STATE_CONFIGURING ''add IPC handler'' S)
       (\<lambda>(ok, S).
          if \<not> ok then Done (None, S)
          else
            (let code =
               (if code = SHUTTLESOCK_IPC_CODE_AUTOMATIC then
                  (case find (\<lambda>i. ipc_handlers S i = None)
                     [SHUTTLESOCK_IPC_CODE_AUTOMATIC_MIN..<Suc SHUTTLESOCK_IPC_CODE_AUTOMATIC_MAX] of
                     None \<Rightarrow> code
                   | Some i \<Rightarrow> i)
                else code)
             in if code = SHUTTLESOCK_IPC_CODE_AUTOMATIC then
                  Done (None, snd (shuso_set_error
                    (''All '' @ decimal (int SHUTTLESOCK_IPC_CODE_AUTOMATIC_MAX -
                       int SHUTTLESOCK_IPC_CODE_AUTOMATIC_MIN) @
                     '' automatic IPC codes are already used.'') S))
                else if code > 255 then Abort
                else
                  (case ipc_handlers S code of
                     Some h \<Rightarrow>
                       Done (None, snd (shuso_set_error (''IPC code '' @ decimal (int code) @
                         '' is already in use by '' @ h_name h) S))
                   | None \<Rightarrow>
                       Done (Some code, S\<lparr>ipc_handlers := (ipc_handlers S)(code \<mapsto>
                         new_handler name receive cancel)\<rparr>))))"

section \<open>Stopping the channel\<close>

text \<open>
  The part of \<^verbatim>\<open>shuso_ipc_channel_local_stop\<close> that cancels the buffered messages: every
  message's cancel handler is called and its node freed, in order.
\<close>

partial_function (option) cancel_outbuf :: "addr \<Rightarrow> shuso \<Rightarrow> shuso run option" where
  "cancel_outbuf cur S =
     (if cur = 0 then Some (Done S)
      else
        (case nodes S cur of
           None \<Rightarrow> Some Abort
         | Some n \<Rightarrow>
             (case ipc_handlers S (unat (ob_code n)) of
                None \<Rightarrow> Some Abort
              | Some h \<Rightarrow>
                  cancel_outbuf (ob_next n)
                    ((emit (Call (h_cancel h) (ob_code n) (ob_ptr n)) S)\<lparr>nodes := (nodes S)(cur := None)\<rparr>))))"

definition ipc_channel_local_stop_outbuf :: "shuso \<Rightarrow> shuso run option" where
  "ipc_channel_local_stop_outbuf S =
     (case cancel_outbuf (buf_first S) S of
        Some (Done S) \<Rightarrow> Some (Done (S\<lparr>buf_first := 0, buf_last := 0, send_retry_active := False\<rparr>))
      | r \<Rightarrow> r)"

section \<open>Invariant\<close>

abbreviation node_next :: "(addr \<rightharpoonup> outbuf_node) \<Rightarrow> addr \<Rightarrow> addr" where
  "node_next ns a \<equiv> (case ns a of None \<Rightarrow> 0 | Some n \<Rightarrow> ob_next n)"

text \<open>The buffered messages are the nodes \<open>xs\<close> reached from \<^verbatim>\<open>first\<close>, and \<^verbatim>\<open>last\<close> is the last of them.\<close>

definition outbuf_chain :: "shuso \<Rightarrow> addr list \<Rightarrow> bool" where
  "outbuf_chain S xs \<longleftrightarrow>
     chain (node_next (nodes S)) (buf_first S) xs \<and> distinct xs \<and> set xs \<subseteq> dom (nodes S) \<and>
     buf_last S = (if xs = [] then 0 else last xs)"

definition node_msg :: "(addr \<rightharpoonup> outbuf_node) \<Rightarrow> addr \<Rightarrow> int \<times> ipc_msg" where
  "node_msg ns a = (let n = the (ns a) in (ob_dst n, ob_code n, ob_ptr n))"

definition msgs_to :: "int \<Rightarrow> (int \<times> ipc_msg) list \<Rightarrow> ipc_msg list" where
  "msgs_to d ms = map snd (filter (\<lambda>m. fst m = d) ms)"

text \<open>
  The messages this process has sent to \<open>d\<close> and \<open>d\<close> has not received: those in its ring,
  then those still buffered here.
\<close>

definition in_flight :: "shuso \<Rightarrow> addr list \<Rightarrow> int \<Rightarrow> ipc_msg list" where
  "in_flight S xs d = ring_list (proc_ring S d) @ msgs_to d (map (node_msg (nodes S)) xs)"

definition ipc_inv :: "shuso \<Rightarrow> addr list \<Rightarrow> bool" where
  "ipc_inv S xs \<longleftrightarrow>
     outbuf_chain S xs \<and> (\<forall>d. ring_inv (proc_ring S d)) \<and>
     (\<forall>x \<in> set xs. fst (snd (node_msg (nodes S) x)) \<noteq> 0) \<and> (xs \<noteq> [] \<longrightarrow> send_retry_active S)"

definition env_sound :: "ipc_env \<Rightarrow> bool" where
  "env_sound env \<longleftrightarrow> (\<forall>ns. node_malloc env ns \<noteq> 0 \<longrightarrow> ns (node_malloc env ns) = None)"

lemma msgs_to_simps [simp]:
  "msgs_to d [] = []"
  "msgs_to d (m # ms) = (if fst m = d then [snd m] else []) @ msgs_to d ms"
  "msgs_to d (ms @ ms') = msgs_to d ms @ msgs_to d ms'"
  by (simp_all add: msgs_to_def)

lemma node_msg_upd [simp]:
  "node_msg (ns(a \<mapsto> n)) b = (if a = b then (ob_dst n, ob_code n, ob_ptr n) else node_msg ns b)"
  by (simp add: node_msg_def)

lemma emit_sel [simp]:
  "nodes (emit e S) = nodes S" "buf_first (emit e S) = buf_first S" "buf_last (emit e S) = buf_last S"
  "proc_ring (emit e S) = proc_ring S" "send_retry_active (emit e S) = send_retry_active S"
  "procnum (emit e S) = procnum S" "proc_state (emit e S) = proc_state S"
  "proxy_mem (emit e S) = proxy_mem S" "effects (emit e S) = effects S @ [e]"
  "ipc_handlers (emit e S) = ipc_handlers S" "workers_start (emit e S) = workers_start S"
  "workers_end (emit e S) = workers_end S" "common_state (emit e S) = common_state S"
  "all_workers_running (emit e S) = all_workers_running S"
  by (simp_all add: emit_def)

text \<open>Only the ring of the destination and the trace change in a direct send.\<close>

definition ring_change :: "shuso \<Rightarrow> shuso \<Rightarrow> bool" where
  "ring_change S T \<longleftrightarrow>
     (\<exists>r e. T = S\<lparr>proc_ring := r, effects := e\<rparr>)"

lemma ring_change_sel:
  assumes "ring_change S T"
  shows "nodes T = nodes S" "buf_first T = buf_first S" "buf_last T = buf_last S"
    "send_retry_active T = send_retry_active S" "procnum T = procnum S" "proc_state T = proc_state S"
  using assms by (auto simp: ring_change_def)

section \<open>Sends and the invariant\<close>

lemma ipc_send_direct_ok:
  assumes inv: "\<forall>d. ring_inv (proc_ring S d)" and c: "code \<noteq> 0"
  obtains ok T where "ipc_send_direct dst code ptr S = Done (ok, T)" "ring_change S T"
    "\<forall>d. ring_inv (proc_ring T d)"
    "\<And>d. ring_list (proc_ring T d) =
      ring_list (proc_ring S d) @ (if ok \<and> d = dst then [(code, ptr)] else [])"
    "\<not> ok \<Longrightarrow> ring_full (proc_ring T dst)"
proof -
  let ?r = "proc_ring S dst"
  have r: "ring_inv ?r" using inv by blast
  show thesis
  proof (cases "\<not> ring_full ?r \<and> ring_count ?r < 256")
    case True
    let ?w = "ring_written ?r code ptr"
    let ?T = "emit (Notice dst) (S\<lparr>proc_ring := (proc_ring S)(dst := ?w)\<rparr>)"
    have w: "ring_send_direct ?r code ptr = Done (True, ?w)" "ring_inv ?w"
      "ring_list ?w = ring_list ?r @ [(code, ptr)]"
      using ring_send_direct_room [OF r] ring_written_facts [OF r _ _ c] True by auto
    show thesis
    proof (rule that [of True ?T])
      show "ring_change S ?T" by (auto simp: ring_change_def emit_def)
    qed (use w inv in \<open>simp_all add: ipc_send_direct_def\<close>)
  next
    case False
    then have full: "ring_full ?r \<or> ring_count ?r = 256" using ring_inv_count [OF r] by auto
    obtain w where w: "ring_send_direct ?r code ptr = Done (False, w)" "ring_inv w"
      "ring_list w = ring_list ?r" "ring_full w"
      using ring_send_direct_full [OF r full] ring_inv_set_full [OF r] r by auto
    let ?T = "S\<lparr>proc_ring := (proc_ring S)(dst := w)\<rparr>"
    show thesis
    proof (rule that [of False ?T])
      have "?T = S\<lparr>proc_ring := (proc_ring S)(dst := w), effects := effects S\<rparr>" by simp
      then show "ring_change S ?T" unfolding ring_change_def by blast
    qed (use w inv in \<open>simp_all add: ipc_send_direct_def\<close>)
  qed
qed

lemma outbuf_append_ok:
  assumes inv: "ipc_inv S xs" and c: "code \<noteq> 0" and env: "env_sound env"
    and b: "node_malloc env (nodes S) = b" "b \<noteq> 0"
  shows "\<exists>T. ipc_send_outbuf_append env dst code ptr S = Done (True, T) \<and> ipc_inv T (xs @ [b]) \<and>
    (\<forall>d. in_flight T (xs @ [b]) d = in_flight S xs d @ (if d = dst then [(code, ptr)] else []))"
proof -
  let ?n = "\<lparr>ob_code = code, ob_ptr = ptr, ob_dst = dst, ob_next = 0\<rparr>"
  have ch: "chain (node_next (nodes S)) (buf_first S) xs" "distinct xs" "set xs \<subseteq> dom (nodes S)"
    "buf_last S = (if xs = [] then 0 else last xs)" and rings: "\<forall>d. ring_inv (proc_ring S d)"
    and codes: "\<forall>x \<in> set xs. fst (snd (node_msg (nodes S) x)) \<noteq> 0"
    using inv by (auto simp: ipc_inv_def outbuf_chain_def)
  have fresh: "nodes S b = None" "b \<notin> set xs" using env b ch(3) by (auto simp: env_sound_def)
  show ?thesis
  proof (cases "xs = []")
    case True
    let ?T = "S\<lparr>nodes := (nodes S)(b \<mapsto> ?n), buf_first := b, buf_last := b, send_retry_active := True\<rparr>"
    have "ipc_send_outbuf_append env dst code ptr S = Done (True, ?T)"
      using True ch(1,4) b by (cases S) (simp add: ipc_send_outbuf_append_def Let_def)
    moreover have "ipc_inv ?T (xs @ [b])"
      using True b(2) rings c by (auto simp: ipc_inv_def outbuf_chain_def)
    ultimately show ?thesis using True by (simp add: in_flight_def)
  next
    case False
    let ?l = "last xs"
    have "?l \<in> set xs" using False by simp
    then have l: "?l \<noteq> 0" "?l \<noteq> b" "buf_first S \<noteq> 0" "?l \<in> set xs"
      using False ch(1) chain_nonnull [OF ch(1)] fresh(2) by (metis, metis, metis chain_null, metis)
    obtain m where m: "nodes S ?l = Some m" using ch(3) l(4) by blast
    let ?ns = "(nodes S)(b \<mapsto> ?n, ?l \<mapsto> m\<lparr>ob_next := b\<rparr>)"
    let ?T = "S\<lparr>nodes := ?ns, buf_last := b, send_retry_active := True\<rparr>"
    have "ipc_send_outbuf_append env dst code ptr S = Done (True, ?T)"
      using False ch(4) b l m by (cases S) (simp add: ipc_send_outbuf_append_def Let_def)
    moreover have "chain (node_next ?ns) (buf_first S) (xs @ [b])"
      by (rule chain_snoc [OF ch(1) False ch(2) fresh(2) b(2)]) (use l fresh in auto)
    moreover have msg: "node_msg ?ns x = node_msg (nodes S) x" if "x \<in> set xs" for x
      using that fresh(2) m by (auto simp: node_msg_def)
    moreover have "node_msg ?ns b = (dst, code, ptr)" using l(2) by simp
    ultimately show ?thesis
      using rings codes ch(2,3) fresh(2) c
      by (intro exI [of _ ?T]) (auto simp: ipc_inv_def outbuf_chain_def in_flight_def map_idI cong: map_cong)
  qed
qed

definition proxied :: "int \<Rightarrow> int \<Rightarrow> bool" where
  "proxied src dst \<longleftrightarrow> (src = SHUTTLESOCK_MASTER \<and> dst \<ge> SHUTTLESOCK_WORKER) \<or>
     (src \<ge> SHUTTLESOCK_WORKER \<and> dst = SHUTTLESOCK_MASTER)"

lemma ipc_inv_ring_change:
  "ipc_inv S xs \<Longrightarrow> ring_change S T \<Longrightarrow> \<forall>d. ring_inv (proc_ring T d) \<Longrightarrow> ipc_inv T xs"
  by (simp add: ipc_inv_def outbuf_chain_def ring_change_sel)

lemma ipc_inv_first: "ipc_inv S xs \<Longrightarrow> buf_first S = 0 \<longleftrightarrow> xs = []"
  by (cases xs) (auto simp: ipc_inv_def outbuf_chain_def)

lemma ipc_send_unproxied:
  assumes inv: "ipc_inv S xs" and env: "env_sound env" and c: "code \<noteq> 0"
    and up: "proc_state S dst \<ge> SHUSO_STATE_STARTING" and np: "\<not> proxied (procnum S) dst"
  shows "\<exists>ok T ys. shuso_ipc_send env dst code ptr S = Done (ok, T) \<and> ipc_inv T ys \<and>
    (\<forall>d. in_flight T ys d = in_flight S xs d @ (if ok \<and> d = dst then [(code, ptr)] else [])) \<and>
    (\<not> ok \<longrightarrow> node_malloc env (nodes S) = 0)"
proof -
  have append: "\<exists>ok T ys. ipc_send_outbuf_append env dst code ptr R = Done (ok, T) \<and> ipc_inv T ys \<and>
    (\<forall>d. in_flight T ys d = in_flight R xs d @ (if ok \<and> d = dst then [(code, ptr)] else [])) \<and>
    (\<not> ok \<longrightarrow> node_malloc env (nodes R) = 0)" if R: "ipc_inv R xs" for R
  proof (cases "node_malloc env (nodes R) = 0")
    case True
    then have "ipc_send_outbuf_append env dst code ptr R = Done (False, R)"
      by (simp add: ipc_send_outbuf_append_def)
    then show ?thesis using R True by auto
  next
    case False
    then obtain T where T: "ipc_send_outbuf_append env dst code ptr R = Done (True, T)"
      "ipc_inv T (xs @ [node_malloc env (nodes R)])"
      "\<forall>d. in_flight T (xs @ [node_malloc env (nodes R)]) d =
        in_flight R xs d @ (if d = dst then [(code, ptr)] else [])"
      using outbuf_append_ok [OF R c env refl] by blast
    then show ?thesis
      by (intro exI [of _ True] exI [of _ T] exI [of _ "xs @ [node_malloc env (nodes R)]"]) simp
  qed
  have send: "shuso_ipc_send env dst code ptr S =
      (if buf_first S \<noteq> 0 \<or> proc_state S dst = SHUSO_STATE_STARTING
       then ipc_send_outbuf_append env dst code ptr S
       else run_bind (ipc_send_direct dst code ptr S)
          (\<lambda>(ok, S). if \<not> ok then ipc_send_outbuf_append env dst code ptr S else Done (True, S)))"
    using up np by (subst shuso_ipc_send.simps) (auto simp: proxied_def Let_def)
  show ?thesis
  proof (cases "buf_first S \<noteq> 0 \<or> proc_state S dst = SHUSO_STATE_STARTING")
    case True
    then show ?thesis using append [OF inv] send by simp
  next
    case False
    then have nil: "xs = []" using ipc_inv_first [OF inv] by simp
    have rings: "\<forall>d. ring_inv (proc_ring S d)" using inv by (simp add: ipc_inv_def)
    obtain ok T where T: "ipc_send_direct dst code ptr S = Done (ok, T)" "ring_change S T"
      "\<forall>d. ring_inv (proc_ring T d)"
      "\<And>d. ring_list (proc_ring T d) = ring_list (proc_ring S d) @ (if ok \<and> d = dst then [(code, ptr)] else [])"
      using ipc_send_direct_ok [OF rings c, of dst ptr] by metis
    have inv': "ipc_inv T xs" by (rule ipc_inv_ring_change [OF inv T(2,3)])
    have fl: "in_flight T xs d = in_flight S xs d @ (if ok \<and> d = dst then [(code, ptr)] else [])" for d
      using T(4) by (simp add: in_flight_def nil)
    show ?thesis
    proof (cases ok)
      case True
      then show ?thesis using send False T(1) inv' fl
        by (intro exI [of _ True] exI [of _ T] exI [of _ xs]) simp
    next
      case no: False
      have fl': "in_flight T xs = in_flight S xs" using fl no by (simp add: fun_eq_iff)
      have "shuso_ipc_send env dst code ptr S = ipc_send_outbuf_append env dst code ptr T"
        using send False T(1) no by simp
      then show ?thesis using append [OF inv'] unfolding fl' ring_change_sel(1) [OF T(2)] by metis
    qed
  qed
qed

text \<open>Inside the loop \<^verbatim>\<open>last\<close> dangles once the last node is freed; it is reset at the end.\<close>

lemma send_retry_loop_ok:
  assumes "ipc_inv (S\<lparr>buf_last := (if xs = [] then 0 else last xs)\<rparr>) xs"
    and "xs \<noteq> [] \<longrightarrow> buf_last S = last xs"
  shows "\<exists>T ys. send_retry_loop S = Some (Done T) \<and> ipc_inv T ys \<and>
    (\<exists>zs. xs = zs @ ys) \<and> (\<forall>d. in_flight T ys d = in_flight S xs d) \<and>
    (\<forall>y ys'. ys = y # ys' \<longrightarrow> ring_full (proc_ring T (fst (node_msg (nodes T) y)))) \<and>
    procnum T = procnum S"
  using assms
proof (induction xs arbitrary: S)
  case Nil
  then have "buf_first S = 0" using ipc_inv_first by fastforce
  moreover from this have "ipc_inv (S\<lparr>buf_last := 0\<rparr>) []" "in_flight (S\<lparr>buf_last := 0\<rparr>) [] = in_flight S []"
    using Nil by (auto simp: ipc_inv_def outbuf_chain_def in_flight_def)
  ultimately show ?case
    by (subst send_retry_loop.simps) auto
next
  case (Cons x xs)
  have prems: "ipc_inv S (x # xs)" "buf_last S = last (x # xs)"
    using Cons.prems by (cases S, auto)
  have ch: "chain (node_next (nodes S)) (buf_first S) (x # xs)" "distinct (x # xs)"
    "set (x # xs) \<subseteq> dom (nodes S)" and rings: "\<forall>d. ring_inv (proc_ring S d)"
    using prems(1) by (auto simp: ipc_inv_def outbuf_chain_def)
  obtain n where n: "nodes S x = Some n" "ob_code n \<noteq> 0" "buf_first S = x" "x \<noteq> 0"
    using ch prems(1) by (auto simp: ipc_inv_def node_msg_def)
  obtain ok T where T: "ipc_send_direct (ob_dst n) (ob_code n) (ob_ptr n) S = Done (ok, T)" "ring_change S T"
    "\<forall>d. ring_inv (proc_ring T d)"
    "\<And>d. ring_list (proc_ring T d) =
      ring_list (proc_ring S d) @ (if ok \<and> d = ob_dst n then [(ob_code n, ob_ptr n)] else [])"
    "\<not> ok \<Longrightarrow> ring_full (proc_ring T (ob_dst n))"
    using ipc_send_direct_ok [OF rings n(2), of "ob_dst n" "ob_ptr n"] by metis
  have inv': "ipc_inv T (x # xs)" by (rule ipc_inv_ring_change [OF prems(1) T(2,3)])
  note sel = ring_change_sel [OF T(2)]
  show ?case
  proof (cases ok)
    case False
    let ?U = "T\<lparr>send_retry_active := True\<rparr>"
    have "send_retry_loop S = Some (Done ?U)"
      using n T(1) False by (subst send_retry_loop.simps) (simp add: Let_def)
    moreover have "ipc_inv ?U (x # xs)" using inv' by (simp add: ipc_inv_def outbuf_chain_def)
    moreover have "in_flight ?U (x # xs) d = in_flight S (x # xs) d" for d
      using T(4) False by (simp add: in_flight_def sel)
    moreover have "ring_full (proc_ring ?U (fst (node_msg (nodes ?U) x)))"
      using T(5) False n(1) by (simp add: sel node_msg_def)
    ultimately show ?thesis by (intro exI [of _ ?U] exI [of _ "x # xs"]) (auto simp: sel)
  next
    case True
    let ?U = "T\<lparr>buf_first := ob_next n, nodes := (nodes T)(x := None)\<rparr>"
    have loop: "send_retry_loop S = send_retry_loop ?U"
      using n T(1) True by (subst send_retry_loop.simps) (simp add: Let_def)
    have other: "node_msg (nodes ?U) y = node_msg (nodes S) y"
      "node_next (nodes ?U) y = node_next (nodes S) y" if "y \<in> set xs" for y
      using that ch(2) by (auto simp: node_msg_def sel)
    have "chain (node_next (nodes ?U)) (ob_next n) xs"
      using ch(1) n(1) chain_cong [of xs "node_next (nodes ?U)" "node_next (nodes S)" "ob_next n"] other(2)
      by simp
    then have "ipc_inv (?U\<lparr>buf_last := (if xs = [] then 0 else last xs)\<rparr>) xs"
      using prems(1) T(3) ch other by (auto simp: ipc_inv_def outbuf_chain_def sel)
    moreover have "xs \<noteq> [] \<longrightarrow> buf_last ?U = last xs" using prems(2) by (simp add: sel)
    ultimately obtain V ys where V: "send_retry_loop ?U = Some (Done V)" "ipc_inv V ys"
      "\<exists>zs. xs = zs @ ys" "\<forall>d. in_flight V ys d = in_flight ?U xs d"
      "\<forall>y ys'. ys = y # ys' \<longrightarrow> ring_full (proc_ring V (fst (node_msg (nodes V) y)))" "procnum V = procnum ?U"
      using Cons.IH by blast
    have "in_flight ?U xs d = in_flight S (x # xs) d" for d
    proof -
      have "map (node_msg (nodes ?U)) xs = map (node_msg (nodes S)) xs"
        by (rule map_cong [OF refl other(1)])
      moreover have "node_msg (nodes S) x = (ob_dst n, ob_code n, ob_ptr n)" using n(1) by (simp add: node_msg_def)
      ultimately show ?thesis using T(4) [of d] True unfolding in_flight_def
        by (simp del: map_eq_conv fun_upd_apply)
    qed
    moreover have "procnum ?U = procnum S" by (simp add: sel)
    ultimately show ?thesis using V loop by (metis append_Cons)
  qed
qed

lemma send_retry_ok:
  assumes "ipc_inv S xs"
  shows "\<exists>T ys. ipc_send_retry_cb S = Some (Done T) \<and> ipc_inv T ys \<and>
    (\<exists>zs. xs = zs @ ys) \<and> (\<forall>d. in_flight T ys d = in_flight S xs d) \<and>
    (\<forall>y ys'. ys = y # ys' \<longrightarrow> ring_full (proc_ring T (fst (node_msg (nodes T) y)))) \<and>
    procnum T = procnum S"
proof -
  have last: "buf_last S = (if xs = [] then 0 else last xs)"
    using assms by (simp add: ipc_inv_def outbuf_chain_def)
  then have "S\<lparr>buf_last := (if xs = [] then 0 else last xs)\<rparr> = S" by (cases S) simp
  then have "ipc_inv (S\<lparr>buf_last := (if xs = [] then 0 else last xs)\<rparr>) xs" using assms by metis
  then show ?thesis
    unfolding ipc_send_retry_cb_def by (rule send_retry_loop_ok) (simp add: last)
qed

section \<open>Runs of a sender and its receivers\<close>

text \<open>
  A sending process and its destinations: sends, firings of the retry timer, destinations
  that run \<^verbatim>\<open>ipc_receive\<close> on their ring, and changes of the shared run states, in any
  order.  The run keeps the messages whose send returned true and, per destination, the
  messages its handlers were called with.
\<close>

datatype ipc_op =
    Op_send int "8 word" addr
  | Op_retry
  | Op_recv int
  | Op_state int runstate

type_synonym ipc_run_state = "shuso \<times> (int \<times> ipc_msg) list \<times> (int \<Rightarrow> ipc_msg list)"

definition log_handlers :: "8 word \<Rightarrow> (8 word \<Rightarrow> addr \<Rightarrow> ipc_msg list \<Rightarrow> ipc_msg list) option" where
  "log_handlers c = Some (\<lambda>c p w. w @ [(c, p)])"

fun ipc_exec :: "ipc_env \<Rightarrow> ipc_op \<Rightarrow> ipc_run_state \<Rightarrow> ipc_run_state run option" where
  "ipc_exec env (Op_send d c p) (S, acc, del) =
     (case shuso_ipc_send env d c p S of
        Abort \<Rightarrow> Some Abort
      | Done (ok, T) \<Rightarrow> Some (Done (T, if ok then acc @ [(d, c, p)] else acc, del)))"
| "ipc_exec env Op_retry (S, acc, del) =
     (case ipc_send_retry_cb S of
        None \<Rightarrow> None
      | Some Abort \<Rightarrow> Some Abort
      | Some (Done T) \<Rightarrow> Some (Done (T, acc, del)))"
| "ipc_exec env (Op_recv d) (S, acc, del) =
     (case ipc_receive (lift_handlers log_handlers) (proc_ring S d, del d) of
        None \<Rightarrow> None
      | Some Abort \<Rightarrow> Some Abort
      | Some (Done (ok, r, w)) \<Rightarrow>
          Some (Done (S\<lparr>proc_ring := (proc_ring S)(d := r)\<rparr>, acc, del(d := w))))"
| "ipc_exec env (Op_state d st) (S, acc, del) =
     Some (Done (S\<lparr>proc_state := (proc_state S)(d := st)\<rparr>, acc, del))"

fun ipc_execs :: "ipc_env \<Rightarrow> ipc_op list \<Rightarrow> ipc_run_state \<Rightarrow> ipc_run_state run option" where
  "ipc_execs env [] x = Some (Done x)"
| "ipc_execs env (op # ops) x =
     (case ipc_exec env op x of
        None \<Rightarrow> None
      | Some Abort \<Rightarrow> Some Abort
      | Some (Done y) \<Rightarrow> ipc_execs env ops y)"

text \<open>Sends of real codes that do not go through the manager.\<close>

fun ipc_op_valid :: "int \<Rightarrow> ipc_op \<Rightarrow> bool" where
  "ipc_op_valid src (Op_send d c p) \<longleftrightarrow> c \<noteq> 0 \<and> \<not> proxied src d"
| "ipc_op_valid src op \<longleftrightarrow> True"

text \<open>Nothing is lost, duplicated or reordered: delivered, then in flight, is what was accepted.\<close>

definition ipc_accounted :: "ipc_run_state \<Rightarrow> addr list \<Rightarrow> bool" where
  "ipc_accounted x xs \<longleftrightarrow> (case x of (S, acc, del) \<Rightarrow>
     ipc_inv S xs \<and> (\<forall>d. del d @ in_flight S xs d = msgs_to d acc))"

lemma set_error_sel [simp]:
  "nodes (snd (shuso_set_error m S)) = nodes S" "buf_first (snd (shuso_set_error m S)) = buf_first S"
  "buf_last (snd (shuso_set_error m S)) = buf_last S" "proc_ring (snd (shuso_set_error m S)) = proc_ring S"
  "send_retry_active (snd (shuso_set_error m S)) = send_retry_active S"
  "procnum (snd (shuso_set_error m S)) = procnum S" "proc_state (snd (shuso_set_error m S)) = proc_state S"
  "ipc_handlers (snd (shuso_set_error m S)) = ipc_handlers S" "fst (shuso_set_error m S) = False"
  by (simp_all add: shuso_set_error_def shuso_set_error_internal_vararg_def Let_def)

lemma ipc_inv_cong:
  assumes "nodes T = nodes S" "buf_first T = buf_first S" "buf_last T = buf_last S"
    "proc_ring T = proc_ring S" "send_retry_active T = send_retry_active S"
  shows "ipc_inv T xs = ipc_inv S xs" "in_flight T xs d = in_flight S xs d"
  using assms by (simp_all add: ipc_inv_def outbuf_chain_def in_flight_def)

lemma handle_all_log: "handle_all log_handlers ms w = w @ ms"
  by (induction ms arbitrary: w) (auto simp: handle_all_def log_handlers_def)

lemma shuso_ipc_send_down:
  assumes "proc_state S dst < SHUSO_STATE_STARTING"
  shows "\<exists>m. shuso_ipc_send env dst code ptr S = Done (shuso_set_error m S)"
  using assms by (cases "dst \<ge> 0") (auto simp: shuso_ipc_send.simps Let_def)

lemma shuso_set_error_pair: "shuso_set_error m S = (False, snd (shuso_set_error m S))"
  by (simp add: shuso_set_error_def)

lemma shuso_ipc_send_any:
  assumes inv: "ipc_inv S xs" and env: "env_sound env" and c: "code \<noteq> 0" and np: "\<not> proxied (procnum S) dst"
  shows "\<exists>ok T ys. shuso_ipc_send env dst code ptr S = Done (ok, T) \<and> ipc_inv T ys \<and>
    (\<forall>d. in_flight T ys d = in_flight S xs d @ (if ok \<and> d = dst then [(code, ptr)] else []))"
proof (cases "proc_state S dst < SHUSO_STATE_STARTING")
  case True
  then obtain m where "shuso_ipc_send env dst code ptr S = Done (False, snd (shuso_set_error m S))"
    using shuso_ipc_send_down shuso_set_error_pair by metis
  then show ?thesis
    using inv by (intro exI [of _ False] exI [of _ "snd (shuso_set_error m S)"] exI [of _ xs])
      (simp add: ipc_inv_cong [of "snd (shuso_set_error m S)" S])
next
  case False
  then show ?thesis using ipc_send_unproxied [OF inv env c _ np] by (metis not_less)
qed

text \<open>Sending never changes which process is sending.\<close>

lemma ipc_send_direct_procnum: "ipc_send_direct d c p S = Done (ok, T) \<Longrightarrow> procnum T = procnum S"
  by (auto simp: ipc_send_direct_def run_bind_Done_iff Let_def split: if_splits)

lemma outbuf_append_procnum:
  "ipc_send_outbuf_append env d c p S = Done (ok, T) \<Longrightarrow> procnum T = procnum S"
  by (auto simp: ipc_send_outbuf_append_def run_bind_Done_iff Let_def split: if_splits option.splits)

lemma shuso_ipc_send_unproxied_procnum:
  assumes "shuso_ipc_send env d c p S = Done (ok, T)" and "\<not> proxied (procnum S) d"
  shows "procnum T = procnum S"
proof (cases "proc_state S d < SHUSO_STATE_STARTING")
  case True
  then obtain m where "shuso_ipc_send env d c p S = Done (False, snd (shuso_set_error m S))"
    using shuso_ipc_send_down shuso_set_error_pair by metis
  then show ?thesis using assms(1) by auto
next
  case False
  then show ?thesis using assms
    by (subst (asm) shuso_ipc_send.simps)
      (auto simp: proxied_def Let_def run_bind_Done_iff
        dest!: ipc_send_direct_procnum outbuf_append_procnum split: if_splits)
qed

lemma ipc_exec_ok:
  assumes acc: "ipc_accounted (S, acc, del) xs" and env: "env_sound env" and v: "ipc_op_valid (procnum S) op"
  shows "\<exists>T acc' del' ys. ipc_exec env op (S, acc, del) = Some (Done (T, acc', del')) \<and>
    ipc_accounted (T, acc', del') ys \<and> procnum T = procnum S"
proof -
  have inv: "ipc_inv S xs" and del: "\<And>d. del d @ in_flight S xs d = msgs_to d acc"
    using acc by (auto simp: ipc_accounted_def)
  show ?thesis
  proof (cases op)
    case (Op_send d c p)
    then have np: "c \<noteq> 0" "\<not> proxied (procnum S) d" using v by simp_all
    obtain ok T ys where T: "shuso_ipc_send env d c p S = Done (ok, T)" "ipc_inv T ys"
      "\<And>e. in_flight T ys e = in_flight S xs e @ (if ok \<and> e = d then [(c, p)] else [])"
      using shuso_ipc_send_any [OF inv env np(1,2)] by metis
    have "ipc_accounted (T, if ok then acc @ [(d, c, p)] else acc, del) ys"
      using T(2,3) del by (auto simp: ipc_accounted_def append_assoc [symmetric] simp del: append_assoc)
    then show ?thesis
      using T(1) shuso_ipc_send_unproxied_procnum [OF T(1) np(2)] by (auto simp: Op_send)
  next
    case Op_retry
    obtain T ys where T: "ipc_send_retry_cb S = Some (Done T)" "ipc_inv T ys"
      "\<forall>d. in_flight T ys d = in_flight S xs d" "procnum T = procnum S"
      using send_retry_ok [OF inv] by blast
    then show ?thesis using del by (auto simp: Op_retry ipc_accounted_def)
  next
    case (Op_recv d)
    have "ring_inv (proc_ring S d)" using inv by (simp add: ipc_inv_def)
    then obtain r where r: "ipc_receive (lift_handlers log_handlers) (proc_ring S d, del d) =
        Some (Done (True, r, del d @ ring_list (proc_ring S d)))" "ring_inv r" "ring_list r = []"
      using ipc_receive_ok [of "proc_ring S d" log_handlers "del d"]
      by (auto simp: handle_all_log log_handlers_def)
    let ?T = "S\<lparr>proc_ring := (proc_ring S)(d := r)\<rparr>"
    have "ipc_inv ?T xs" using inv r(2) by (simp add: ipc_inv_def outbuf_chain_def)
    moreover have "(del(d := del d @ ring_list (proc_ring S d))) e @ in_flight ?T xs e = msgs_to e acc" for e
      using del [of e] r(3) by (cases "e = d") (simp_all add: in_flight_def)
    ultimately have "ipc_accounted (?T, acc, del(d := del d @ ring_list (proc_ring S d))) xs"
      unfolding ipc_accounted_def by blast
    then show ?thesis using r(1) by (auto simp: Op_recv)
  next
    case (Op_state d st)
    let ?T = "S\<lparr>proc_state := (proc_state S)(d := st)\<rparr>"
    have "ipc_inv ?T xs" "\<And>d. in_flight ?T xs d = in_flight S xs d"
      using inv ipc_inv_cong [of ?T S] by simp_all
    then show ?thesis using del by (auto simp: Op_state ipc_accounted_def)
  qed
qed

lemma ipc_execs_ok:
  assumes "ipc_accounted (S, acc, del) xs" and "env_sound env" and "\<forall>op \<in> set ops. ipc_op_valid (procnum S) op"
  shows "\<exists>T acc' del' ys. ipc_execs env ops (S, acc, del) = Some (Done (T, acc', del')) \<and>
    ipc_accounted (T, acc', del') ys"
  using assms(1,3)
proof (induction ops arbitrary: S acc del xs)
  case (Cons op ops)
  then obtain T acc' del' ys where T: "ipc_exec env op (S, acc, del) = Some (Done (T, acc', del'))"
    "ipc_accounted (T, acc', del') ys" "procnum T = procnum S"
    using ipc_exec_ok [OF Cons.prems(1) assms(2)] by (metis list.set_intros(1))
  then show ?case using Cons.IH [OF T(2)] Cons.prems(2) by auto
qed auto

section \<open>Properties\<close>

definition example_env :: ipc_env where
  "example_env = \<lparr>node_malloc = (\<lambda>ns. if ns 4096 = None then 4096 else if ns 4128 = None then 4128 else 0),
     shm_alloc = (\<lambda>S. 8192), publish_ok = (\<lambda>_. True)\<rparr>"

lemma example_env_sound: "env_sound example_env"
  by (simp add: env_sound_def example_env_def)

lemma example_shuso_inv: "ipc_inv (example_shuso n) []"
  by (simp add: ipc_inv_def outbuf_chain_def example_shuso_def ring_inv_init)



text \<open>A send to a process that is up and needs no proxy is accepted unless memory runs
  out: it returns false only if \<^verbatim>\<open>malloc\<close> fails, and whenever something is buffered the
  retry timer is armed.\<close>

theorem ipc_send_accepted:
  assumes "ipc_inv S xs" and "env_sound env" and "code \<noteq> 0"
    and "proc_state S dst \<ge> SHUSO_STATE_STARTING" and "\<not> proxied (procnum S) dst"
    and "node_malloc env (nodes S) \<noteq> 0"
  shows "\<exists>T ys. shuso_ipc_send env dst code ptr S = Done (True, T) \<and>
    in_flight T ys dst = in_flight S xs dst @ [(code, ptr)] \<and> outbuf_chain T ys \<and>
    (ys = [] \<or> send_retry_active T)"
  using ipc_send_unproxied [OF assms(1-5), of ptr] assms(6) by (fastforce simp: ipc_inv_def)

theorem ipc_send_accepted_witness:
  "\<exists>T ys. shuso_ipc_send example_env 1 7 3 (example_shuso 0) = Done (True, T) \<and>
    in_flight T ys 1 = in_flight (example_shuso 0) [] 1 @ [(7, 3)] \<and> outbuf_chain T ys \<and>
    (ys = [] \<or> send_retry_active T)"
  by (rule ipc_send_accepted [OF example_shuso_inv example_env_sound])
    (simp_all add: example_shuso_def example_env_def proxied_def runstate_order)

text \<open>Firing the retry timer makes progress or finds a full ring: it always returns, sends
  a prefix of the buffered messages, keeps every message in flight in order, and if
  messages stay buffered the ring of the first one's destination is full and the timer
  stays armed.\<close>

theorem ipc_retry_progress:
  assumes "ipc_inv S xs"
  shows "\<exists>T ys. ipc_send_retry_cb S = Some (Done T) \<and> ipc_inv T ys \<and> (\<exists>zs. xs = zs @ ys) \<and>
    (\<forall>d. in_flight T ys d = in_flight S xs d) \<and>
    (ys = [] \<or> ring_full (proc_ring T (fst (node_msg (nodes T) (hd ys)))) \<and> send_retry_active T)"
proof -
  obtain T ys where T: "ipc_send_retry_cb S = Some (Done T)" "ipc_inv T ys" "\<exists>zs. xs = zs @ ys"
    "\<forall>d. in_flight T ys d = in_flight S xs d"
    "\<forall>y ys'. ys = y # ys' \<longrightarrow> ring_full (proc_ring T (fst (node_msg (nodes T) y)))"
    using send_retry_ok [OF assms] by blast
  have "ys = [] \<or> ring_full (proc_ring T (fst (node_msg (nodes T) (hd ys)))) \<and> send_retry_active T"
    using T(2,5) by (cases ys) (auto simp: ipc_inv_def)
  then show ?thesis using T(1-4) by blast
qed

theorem ipc_retry_progress_witness:
  "\<exists>S. ipc_send_outbuf_append example_env 1 7 3 (example_shuso 0) = Done (True, S) \<and>
    (\<exists>T ys. ipc_send_retry_cb S = Some (Done T) \<and> ipc_inv T ys \<and> (\<exists>zs. [4096] = zs @ ys) \<and>
      (\<forall>d. in_flight T ys d = in_flight S [4096] d) \<and>
      (ys = [] \<or> ring_full (proc_ring T (fst (node_msg (nodes T) (hd ys)))) \<and> send_retry_active T))"
proof -
  have b: "node_malloc example_env (nodes (example_shuso 0)) = 4096"
    by (simp add: example_env_def example_shuso_def)
  obtain S where S: "ipc_send_outbuf_append example_env 1 7 3 (example_shuso 0) = Done (True, S)"
    "ipc_inv S ([] @ [4096])"
    using outbuf_append_ok [OF example_shuso_inv _ example_env_sound b, of 7 1 3] by auto
  then show ?thesis using ipc_retry_progress [of S "[4096]"] by auto
qed

text \<open>\<^verbatim>\<open>shuso_ipc_send_workers\<close> gives up at the first worker it cannot send to.  If the
  first worker of the range is not up (its initialisation failed, say), no worker at all
  gets the message: the state only records the error.\<close>

theorem ipc_send_workers_gives_up:
  assumes "workers_start S < workers_end S" and "proc_state S (int (workers_start S)) < SHUSO_STATE_STARTING"
  shows "\<exists>m. shuso_ipc_send_workers env code ptr S = Done (shuso_set_error m S)"
proof -
  have range: "worker_range S = int (workers_start S) # map int [Suc (workers_start S)..<workers_end S]"
    using assms(1) by (simp add: worker_range_def upt_conv_Cons)
  have skip: "send_workers_from env is code ptr (False, T) = Done (False, T)" for "is" T
    by (induction "is") auto
  obtain m where "shuso_ipc_send env (int (workers_start S)) code ptr S = Done (shuso_set_error m S)"
    using shuso_ipc_send_down [OF assms(2)] by blast
  moreover obtain T where "shuso_set_error m S = (False, T)" by (simp add: shuso_set_error_def)
  ultimately show ?thesis
    unfolding shuso_ipc_send_workers_def range by (intro exI [of _ m]) (simp add: skip)
qed

theorem ipc_send_workers_gives_up_witness:
  "\<exists>m. shuso_ipc_send_workers example_env 2 1
      ((example_shuso (- 1))\<lparr>proc_state := (\<lambda>_. SHUSO_STATE_RUNNING)(0 := SHUSO_STATE_NIL)\<rparr>) =
    Done (shuso_set_error m
      ((example_shuso (- 1))\<lparr>proc_state := (\<lambda>_. SHUSO_STATE_RUNNING)(0 := SHUSO_STATE_NIL)\<rparr>))"
  by (rule ipc_send_workers_gives_up) (simp_all add: example_shuso_def runstate_order)

text \<open>Registering an IPC handler while configuring never replaces a handler: on success the
  new code was free, is the code asked for or, for an automatic code, the smallest free
  one from 20 to 255, and only its entry changes; on failure the table is unchanged.\<close>

theorem ipc_add_handler_spec:
  assumes "common_state S = SHUSO_STATE_CONFIGURING"
    and "code \<le> 255 \<or> code = SHUTTLESOCK_IPC_CODE_AUTOMATIC"
  shows "\<exists>r T. shuso_ipc_add_handler name code receive cancel S = Done (r, T) \<and>
    (case r of
       None \<Rightarrow> ipc_handlers T = ipc_handlers S
     | Some k \<Rightarrow> k \<le> 255 \<and> ipc_handlers S k = None \<and>
         ipc_handlers T = (ipc_handlers S)(k \<mapsto> new_handler name receive cancel) \<and>
         (if code = SHUTTLESOCK_IPC_CODE_AUTOMATIC
          then 20 \<le> k \<and> (\<forall>j \<in> {20..<k}. ipc_handlers S j \<noteq> None) else k = code))"
proof (cases "code = SHUTTLESOCK_IPC_CODE_AUTOMATIC")
  case False
  then show ?thesis
    using assms by (cases "ipc_handlers S code")
      (auto simp: shuso_ipc_add_handler_def shuso_runstate_check_def)
next
  case True
  let ?codes = "[SHUTTLESOCK_IPC_CODE_AUTOMATIC_MIN..<Suc SHUTTLESOCK_IPC_CODE_AUTOMATIC_MAX]"
  show ?thesis
  proof (cases "find (\<lambda>i. ipc_handlers S i = None) ?codes")
    case None
    then show ?thesis using assms True
      by (auto simp: shuso_ipc_add_handler_def shuso_runstate_check_def)
  next
    case (Some k)
    have k: "20 \<le> k" "k \<le> 255" "ipc_handlers S k = None" "\<forall>j \<in> {20..<k}. ipc_handlers S j \<noteq> None"
      using find_upt_Some [OF Some]
      by (auto simp: SHUTTLESOCK_IPC_CODE_AUTOMATIC_MIN_def SHUTTLESOCK_IPC_CODE_AUTOMATIC_MAX_def)
    then have "k \<noteq> SHUTTLESOCK_IPC_CODE_AUTOMATIC" by (simp add: SHUTTLESOCK_IPC_CODE_AUTOMATIC_def)
    then have "shuso_ipc_add_handler name code receive cancel S =
        Done (Some k, S\<lparr>ipc_handlers := (ipc_handlers S)(k \<mapsto> new_handler name receive cancel)\<rparr>)"
      using assms(1) True Some k(2,3)
      by (simp add: shuso_ipc_add_handler_def shuso_runstate_check_def)
    then show ?thesis using True k by (intro exI [of _ "Some k"]) simp
  qed
qed

theorem ipc_add_handler_spec_witness:
  "\<exists>r T. shuso_ipc_add_handler None 65535 (Some (Module_fn 1)) None
      ((example_shuso (- 2))\<lparr>common_state := SHUSO_STATE_CONFIGURING\<rparr>) = Done (r, T) \<and>
    (case r of
       None \<Rightarrow> ipc_handlers T = (\<lambda>_. None)
     | Some k \<Rightarrow> k \<le> 255 \<and> 20 \<le> k)"
proof -
  let ?S = "(example_shuso (- 2))\<lparr>common_state := SHUSO_STATE_CONFIGURING\<rparr>"
  have "ipc_handlers ?S = (\<lambda>_. None)" by (simp add: example_shuso_def)
  then show ?thesis
    using ipc_add_handler_spec [of ?S 65535 None "Some (Module_fn 1)" None]
    unfolding SHUTTLESOCK_IPC_CODE_AUTOMATIC_def by (fastforce split: option.splits)
qed

end
