(* ===== verification/Lifecycle.thy ===== *)
theory Lifecycle
  imports IPC
begin

unbundle bit_operations_syntax

text \<open>
  Starting and stopping: the IPC command handlers of \<^verbatim>\<open>ipc_commands.c\<close>, the stop functions,
  signal and child handling of \<^verbatim>\<open>shuttlesock.c\<close>, and the stop listeners of the core module
  (\<^verbatim>\<open>modules/core/core.c\<close>).
\<close>

section \<open>Publishing and stopping\<close>

text \<open>
  Publishing a core event shows as an effect; its result says whether no listener
  interrupted it.
\<close>

definition shuso_core_event_publish :: "ipc_env \<Rightarrow> string \<Rightarrow> int \<Rightarrow> shuso \<Rightarrow> bool \<times> shuso" where
  "shuso_core_event_publish env name data S = (publish_ok env name, emit (Publish name data) S)"

definition shuso_stop_manager :: "ipc_env \<Rightarrow> nat \<Rightarrow> shuso \<Rightarrow> (bool \<times> shuso) run" where
  "shuso_stop_manager env forcefulness S =
     (if shuso_is_master S then
        run_bind (shuso_ipc_send env SHUTTLESOCK_MANAGER 2 forcefulness S)
          (\<lambda>(ok, S). if \<not> ok then Done (False, S) else Done (True, S))
      else if shuso_is_worker S then Done (shuso_set_error ''cannot stop manager from worker'' S)
      else c_assert (shuso_is_manager S)
        (if own_state S = SHUSO_STATE_RUNNING
         then Done (shuso_core_event_publish env ''manager.stop'' (int forcefulness) S)
         else Done (False, S)))"

definition shuso_stop :: "ipc_env \<Rightarrow> nat \<Rightarrow> shuso \<Rightarrow> (bool \<times> shuso) run" where
  "shuso_stop env forcefulness S =
     (if own_state S \<noteq> SHUSO_STATE_RUNNING \<and> own_state S \<noteq> SHUSO_STATE_STOPPING then Done (False, S)
      else if procnum S \<noteq> SHUTTLESOCK_MASTER then
        shuso_ipc_send env SHUTTLESOCK_MASTER 2 forcefulness S
      else if own_state S \<noteq> SHUSO_STATE_RUNNING then Done (False, S)
      else Done (True, snd (shuso_core_event_publish env ''master.stop'' 0 S)))"

definition set_own_state :: "runstate \<Rightarrow> shuso \<Rightarrow> shuso" where
  "set_own_state st S = S\<lparr>proc_state := (proc_state S)(procnum S := st)\<rparr>"

definition shuso_stop_worker :: "ipc_env \<Rightarrow> int \<Rightarrow> nat \<Rightarrow> shuso \<Rightarrow> (bool \<times> shuso) run" where
  "shuso_stop_worker env proc forcefulness S =
     (if procnum S = proc then
        (if own_state S = SHUSO_STATE_RUNNING
         then Done (True, snd (shuso_core_event_publish env ''worker.stop'' 0
                (set_own_state SHUSO_STATE_STOPPING S)))
         else Done (True, S))
      else shuso_ipc_send env proc 2 forcefulness S)"

section \<open>The stop listeners of the core module\<close>

text \<open>
  A listener either lets the event go on to the next listener or has delayed it; the last
  listener of \<^verbatim>\<open>manager.stop\<close> and \<^verbatim>\<open>master.stop\<close> stops the event loop.
\<close>

datatype stop_result = Delayed | Proceed

text \<open>Workers that have stopped are joined and marked dead; the result says whether all are.\<close>

fun reap_workers :: "int list \<Rightarrow> shuso \<Rightarrow> bool \<times> shuso" where
  "reap_workers [] S = (True, S)"
| "reap_workers (w # ws) S =
     (let S = (if proc_state S w = SHUSO_STATE_STOPPED
               then S\<lparr>proc_state := (proc_state S)(w := SHUSO_STATE_DEAD)\<rparr> else S);
          dead = (proc_state S w = SHUSO_STATE_DEAD);
          (rest, S) = reap_workers ws S
      in (dead \<and> rest, S))"

definition core_manager_try_stop :: "ipc_env \<Rightarrow> nat \<Rightarrow> shuso \<Rightarrow> (stop_result \<times> shuso) run" where
  "core_manager_try_stop env forcefulness S =
     c_assert (procnum S = SHUTTLESOCK_MANAGER)
       (run_bind
          (if own_state S = SHUSO_STATE_RUNNING
           then run_bind (shuso_ipc_send_workers env 2 forcefulness (set_own_state SHUSO_STATE_STOPPING S))
                  (\<lambda>x. Done (snd x))
           else Done S)
          (\<lambda>S. c_assert (own_state S = SHUSO_STATE_STOPPING)
             (let (all_workers_dead, S) = reap_workers (worker_range S) S
              in if \<not> all_workers_dead then Done (Delayed, S) else Done (Proceed, S))))"

definition core_master_try_stop :: "ipc_env \<Rightarrow> shuso \<Rightarrow> (stop_result \<times> shuso) run" where
  "core_master_try_stop env S =
     (let S = (if own_state S = SHUSO_STATE_RUNNING then set_own_state SHUSO_STATE_STOPPING S else S) in
      run_bind
        (if proc_state S SHUTTLESOCK_MANAGER = SHUSO_STATE_RUNNING
         then run_bind (shuso_stop_manager env 2 S) (\<lambda>x. Done (snd x)) else Done S)
        (\<lambda>S. if proc_state S SHUTTLESOCK_MANAGER \<noteq> SHUSO_STATE_DEAD then Done (Delayed, S)
             else Done (Proceed, S)))"

section \<open>IPC commands\<close>

definition SIGINT :: int where "SIGINT = 2"
definition SIGQUIT :: int where "SIGQUIT = 3"
definition SIGTERM :: int where "SIGTERM = 15"

definition signal_handle :: "ipc_env \<Rightarrow> addr \<Rightarrow> shuso \<Rightarrow> shuso run" where
  "signal_handle env ptr S =
     (let sig = int ptr in
      if procnum S \<noteq> SHUTTLESOCK_MASTER then Done S
      else if sig = SIGINT \<or> sig = SIGQUIT then
        run_bind (shuso_ipc_send env SHUTTLESOCK_MANAGER 2 0 S) (\<lambda>x. Done (snd x))
      else Done S)"

definition shutdown_handle :: "addr \<Rightarrow> shuso \<Rightarrow> shuso" where
  "shutdown_handle ptr S = emit (Timer ''shutdown_handle_cb'' (int ptr)) S"

definition shutdown_handle_cb :: "ipc_env \<Rightarrow> nat \<Rightarrow> shuso \<Rightarrow> shuso run" where
  "shutdown_handle_cb env stop_type S =
     (if own_state S = SHUSO_STATE_STOPPING then Done S
      else if procnum S = SHUTTLESOCK_MASTER then run_bind (shuso_stop env stop_type S) (\<lambda>x. Done (snd x))
      else if procnum S = SHUTTLESOCK_MANAGER then
        run_bind (shuso_stop_manager env stop_type S) (\<lambda>x. Done (snd x))
      else if procnum S \<ge> SHUTTLESOCK_WORKER then
        run_bind (shuso_stop_worker env (procnum S) stop_type S) (\<lambda>x. Done (snd x))
      else Done S)"

definition set_log_fd_handle :: "addr \<Rightarrow> shuso \<Rightarrow> shuso" where
  "set_log_fd_handle ptr S = S\<lparr>log_fd := int ptr\<rparr>"

text \<open>Messages to every worker, results ignored.\<close>

fun send_each :: "ipc_env \<Rightarrow> int list \<Rightarrow> 8 word \<Rightarrow> addr \<Rightarrow> shuso \<Rightarrow> shuso run" where
  "send_each env [] code ptr S = Done S"
| "send_each env (w # ws) code ptr S =
     run_bind (shuso_ipc_send env w code ptr S) (\<lambda>x. send_each env ws code ptr (snd x))"

definition worker_started_handle :: "ipc_env \<Rightarrow> shuso \<Rightarrow> shuso run" where
  "worker_started_handle env S =
     c_assert (procnum S = SHUTTLESOCK_MANAGER)
       (if list_all (\<lambda>w. proc_state S w = SHUSO_STATE_RUNNING) (worker_range S) then
          run_bind
            (if \<not> all_workers_running S then
               run_bind (shuso_ipc_send env SHUTTLESOCK_MASTER 8 0 S)
                 (\<lambda>x. send_each env (worker_range S) 8 0
                   (snd (shuso_core_event_publish env ''manager.workers_started'' 0 (snd x))))
             else Done S)
            (\<lambda>S. Done (S\<lparr>all_workers_running := True\<rparr>))
        else Done S)"

definition all_worker_started_handle :: "ipc_env \<Rightarrow> shuso \<Rightarrow> shuso" where
  "all_worker_started_handle env S =
     (if procnum S = SHUTTLESOCK_MASTER then snd (shuso_core_event_publish env ''master.workers_started'' 0 S)
      else if procnum S = SHUTTLESOCK_MANAGER then
        snd (shuso_core_event_publish env ''manager.workers_started'' 0 S)
      else if procnum S \<ge> SHUTTLESOCK_WORKER then
        snd (shuso_core_event_publish env ''worker.workers_started'' 0 S)
      else emit (Log_error (''received ALL_WORKERS_STARTED IPC command in unexpected procnum '' @
             decimal (procnum S))) S)"

definition worker_stopped_handle :: "shuso \<Rightarrow> shuso run" where
  "worker_stopped_handle S = c_assert (procnum S = SHUTTLESOCK_MANAGER) (Done S)"

text \<open>A destination outside the process table is a null pointer, dereferenced by the send.\<close>

definition manager_proxy_message_handle :: "ipc_env \<Rightarrow> addr \<Rightarrow> shuso \<Rightarrow> shuso run" where
  "manager_proxy_message_handle env ptr S =
     c_assert (procnum S = SHUTTLESOCK_MANAGER)
       (case shuso_process (px_dst (proxy_mem S ptr)) of
          None \<Rightarrow> Abort
        | Some dst \<Rightarrow>
            run_bind (shuso_ipc_send env dst 12 ptr S)
              (\<lambda>(ok, S). if \<not> ok then
                  Done (emit (Slab_free ptr) (snd (shuso_set_error ''failed to proxy IPC message'' S)))
                else Done S))"

text \<open>
  Calling the handler of a code: \<^verbatim>\<open>ipc_handlers[code].receive(S, code, ptr)\<close>.  A proxied
  message calls the handler of the code it carries, so this is recursive; a null handler
  is an abort.
\<close>

partial_function (option) ipc_call :: "ipc_env \<Rightarrow> 8 word \<Rightarrow> addr \<Rightarrow> shuso \<Rightarrow> shuso run option" where
  "ipc_call env code ptr S =
     (case ipc_handlers S (unat code) of
        None \<Rightarrow> Some Abort
      | Some h \<Rightarrow>
          (case h_receive h of
             None \<Rightarrow> Some Abort
           | Some Received_proxied_message_handle \<Rightarrow>
               ipc_call env (px_code (proxy_mem S ptr)) (px_pd (proxy_mem S ptr)) S
           | Some Do_nothing \<Rightarrow> Some (Done S)
           | Some Signal_handle \<Rightarrow> Some (signal_handle env ptr S)
           | Some Shutdown_handle \<Rightarrow> Some (Done (shutdown_handle ptr S))
           | Some Reconfigure_handle \<Rightarrow> Some (Done S)
           | Some Set_log_fd_handle \<Rightarrow> Some (Done (set_log_fd_handle ptr S))
           | Some Manager_proxy_message_handle \<Rightarrow> Some (manager_proxy_message_handle env ptr S)
           | Some Worker_started_handle \<Rightarrow> Some (worker_started_handle env S)
           | Some All_worker_started_handle \<Rightarrow> Some (Done (all_worker_started_handle env S))
           | Some Worker_stopped_handle \<Rightarrow> Some (worker_stopped_handle S)
           | Some (Module_fn n) \<Rightarrow> Some (Done (emit (Call (Module_fn n) code ptr) S))))"

text \<open>\<^verbatim>\<open>shuso_ipc_commands_init\<close>: register the handlers in order, stopping at the first failure.\<close>

definition ipc_commands :: "(string \<times> nat \<times> ipc_fn) list" where
  "ipc_commands =
     [(''signal'', 1, Signal_handle), (''shutdown'', 2, Shutdown_handle),
      (''reconfigure'', 3, Reconfigure_handle), (''set_log_fd'', 5, Set_log_fd_handle),
      (''manager_proxy_message'', 11, Manager_proxy_message_handle),
      (''receive_proxied_message'', 12, Received_proxied_message_handle),
      (''worker_started'', 9, Worker_started_handle),
      (''all_workers_started'', 8, All_worker_started_handle),
      (''worker_stopped'', 10, Worker_stopped_handle)]"

fun add_handlers :: "(string \<times> nat \<times> ipc_fn) list \<Rightarrow> shuso \<Rightarrow> (bool \<times> shuso) run" where
  "add_handlers [] S = Done (True, S)"
| "add_handlers ((name, code, fn) # hs) S =
     run_bind (shuso_ipc_add_handler (Some name) code (Some fn) None S)
       (\<lambda>(h, S). if h = None then Done (False, S) else add_handlers hs S)"

definition shuso_ipc_commands_init :: "shuso \<Rightarrow> (bool \<times> shuso) run" where
  "shuso_ipc_commands_init S = add_handlers ipc_commands S"

section \<open>Signals and children\<close>

definition signal_watcher_cb :: "ipc_env \<Rightarrow> int \<Rightarrow> shuso \<Rightarrow> shuso run" where
  "signal_watcher_cb env signum S =
     (if procnum S \<noteq> SHUTTLESOCK_MASTER then
        run_bind (shuso_ipc_send env SHUTTLESOCK_MASTER 1 (nat signum) S) (\<lambda>x. Done (snd x))
      else if signum = SIGINT \<or> signum = SIGTERM then run_bind (shuso_stop env 1 S) (\<lambda>x. Done (snd x))
      else Done S)"

definition shuso_set_log_fd :: "ipc_env \<Rightarrow> int \<Rightarrow> shuso \<Rightarrow> (bool \<times> shuso) run" where
  "shuso_set_log_fd env fd S =
     run_bind
       (if common_state S < SHUSO_STATE_RUNNING then Done S
        else if procnum S = SHUTTLESOCK_MASTER \<and> proc_state S SHUTTLESOCK_MANAGER \<ge> SHUSO_STATE_RUNNING then
          run_bind (shuso_ipc_send env SHUTTLESOCK_MANAGER 5 (nat fd) S) (\<lambda>x. Done (snd x))
        else if proc_state S SHUTTLESOCK_MASTER \<ge> SHUSO_STATE_RUNNING then
          run_bind (shuso_ipc_send env SHUTTLESOCK_MASTER 5 (nat fd) S) (\<lambda>x. Done (snd x))
        else Done S)
       (\<lambda>S. Done (True, S\<lparr>log_fd := fd\<rparr>))"

text \<open>The status macros of \<^verbatim>\<open>sys/wait.h\<close> on Linux.\<close>

definition WTERMSIG :: "32 word \<Rightarrow> int" where
  "WTERMSIG status = uint (status AND 0x7F)"

definition WEXITSTATUS :: "32 word \<Rightarrow> int" where
  "WEXITSTATUS status = uint (drop_bit 8 (status AND 0xFF00))"

definition WIFEXITED :: "32 word \<Rightarrow> bool" where
  "WIFEXITED status \<longleftrightarrow> WTERMSIG status = 0"

definition WIFSIGNALED :: "32 word \<Rightarrow> bool" where
  "WIFSIGNALED status \<longleftrightarrow> 0 < WTERMSIG status \<and> WTERMSIG status < 0x7F"

definition WIFSTOPPED :: "32 word \<Rightarrow> bool" where
  "WIFSTOPPED status \<longleftrightarrow> status AND 0xFF = 0x7F"

definition WIFCONTINUED :: "32 word \<Rightarrow> bool" where
  "WIFCONTINUED status \<longleftrightarrow> status = 0xFFFF"

definition sigchild_info_of :: "int \<Rightarrow> 32 word \<Rightarrow> sigchild_info option" where
  "sigchild_info_of pid status =
     (if WIFEXITED status then
        Some \<lparr>sc_pid = pid, sc_state = SHUSO_CHILD_EXITED, sc_code = WEXITSTATUS status,
              sc_waitpid_status = status\<rparr>
      else if WIFSIGNALED status then
        Some \<lparr>sc_pid = pid, sc_state = SHUSO_CHILD_KILLED, sc_code = WTERMSIG status,
              sc_waitpid_status = status\<rparr>
      else if WIFSTOPPED status then
        Some \<lparr>sc_pid = pid, sc_state = SHUSO_CHILD_STOPPED, sc_code = WEXITSTATUS status,
              sc_waitpid_status = status\<rparr>
      else if WIFCONTINUED status then
        Some \<lparr>sc_pid = pid, sc_state = SHUSO_CHILD_RUNNING, sc_code = 0, sc_waitpid_status = status\<rparr>
      else None)"

definition shuso_handle_sigchild :: "ipc_env \<Rightarrow> int \<Rightarrow> 32 word \<Rightarrow> shuso \<Rightarrow> shuso run" where
  "shuso_handle_sigchild env pid status S =
     (case sigchild_info_of pid status of
        None \<Rightarrow> Done (snd (shuso_set_error (''got weird waitpid status '' @ decimal (sint status) @
                  '', don't know what it is'') S))
      | Some info \<Rightarrow>
          (let S = S\<lparr>sigchild_last := info\<rparr> in
           if manager_pid S \<noteq> sc_pid info then Done S
           else
             (let S = S\<lparr>sigchild_manager := info\<rparr> in
              if sc_state info \<noteq> SHUSO_CHILD_RUNNING \<and> sc_state info \<noteq> SHUSO_CHILD_STOPPED then
                (let manager_state_before = proc_state S SHUTTLESOCK_MANAGER;
                     S = S\<lparr>proc_state := (proc_state S)(SHUTTLESOCK_MANAGER := SHUSO_STATE_DEAD)\<rparr>
                 in if procnum S = SHUTTLESOCK_MASTER \<and> manager_state_before \<noteq> SHUSO_STATE_DEAD then
                      (let S = snd (shuso_core_event_publish env ''master.manager_exited'' (sc_pid info) S)
                       in if own_state S = SHUSO_STATE_STOPPING
                          then run_bind (shuso_stop env 1 S) (\<lambda>x. Done (snd x))
                          else Done S)
                    else Done S)
              else Done S)))"

section \<open>What sending leaves alone\<close>

definition ipc_frame :: "shuso \<Rightarrow> shuso \<Rightarrow> bool" where
  "ipc_frame S T \<longleftrightarrow>
     procnum T = procnum S \<and> proc_state T = proc_state S \<and> workers_start T = workers_start S \<and>
     workers_end T = workers_end S \<and> common_state T = common_state S \<and>
     ipc_handlers T = ipc_handlers S \<and> manager_pid T = manager_pid S"

lemma ipc_frame_refl [simp]: "ipc_frame S S"
  by (simp add: ipc_frame_def)

lemma ipc_frame_trans [trans]: "ipc_frame S T \<Longrightarrow> ipc_frame T U \<Longrightarrow> ipc_frame S U"
  by (simp add: ipc_frame_def)

lemma ipc_frame_range: "ipc_frame S T \<Longrightarrow> worker_range T = worker_range S"
  by (simp add: ipc_frame_def worker_range_def)

lemma ipc_frame_set_error [simp]: "ipc_frame S (snd (shuso_set_error m S))"
  by (simp add: ipc_frame_def shuso_set_error_def shuso_set_error_internal_vararg_def Let_def emit_def)

lemma ipc_frame_direct: "ipc_send_direct d c p S = Done (ok, T) \<Longrightarrow> ipc_frame S T"
  by (auto simp: ipc_send_direct_def run_bind_Done_iff Let_def ipc_frame_def emit_def split: if_splits)

lemma ipc_frame_append: "ipc_send_outbuf_append env d c p S = Done (ok, T) \<Longrightarrow> ipc_frame S T"
  by (auto simp: ipc_send_outbuf_append_def run_bind_Done_iff Let_def ipc_frame_def split: if_splits option.splits)

lemma ipc_frame_send:
  "shuso_ipc_send env d c p S = Done (ok, T) \<Longrightarrow> ipc_frame S T"
  "shuso_ipc_send_proxy_via_manager env d c p S = Done (ok, T) \<Longrightarrow> ipc_frame S T"
proof (induction env d c p S and env d c p S arbitrary: ok T and ok T
    rule: shuso_ipc_send_shuso_ipc_send_proxy_via_manager.induct)
  case (1 env dst code ptr S)
  show ?case
  proof (cases "shm_alloc env S = 0")
    case True
    then show ?thesis using "1.prems"
      by (auto simp: shuso_ipc_send_proxy_via_manager.simps dest!: arg_cong [of _ _ snd])
  next
    case False
    then have "ipc_frame (S\<lparr>proxy_mem := (proxy_mem S)(shm_alloc env S :=
        \<lparr>px_code = code, px_src = procnum S, px_dst = dst, px_pd = ptr\<rparr>)\<rparr>) T"
      using "1.IH" "1.prems" by (simp add: shuso_ipc_send_proxy_via_manager.simps Let_def)
    then show ?thesis by (simp add: ipc_frame_def)
  qed
next
  case (2 env dst code ptr S)
  show ?case
  proof (cases "proc_state S dst < SHUSO_STATE_STARTING")
    case True
    then obtain m where "shuso_ipc_send env dst code ptr S = Done (shuso_set_error m S)"
      using shuso_ipc_send_down by blast
    then have "T = snd (shuso_set_error m S)" using "2.prems" by (metis run.inject snd_conv)
    then show ?thesis by simp
  next
    case False
    then show ?thesis
      using "2.prems" "2.IH" [OF refl False]
      by (subst (asm) shuso_ipc_send.simps)
        (auto simp: Let_def run_bind_Done_iff split: if_splits
          intro: ipc_frame_trans dest!: ipc_frame_direct ipc_frame_append)
  qed
qed

text \<open>Only the proxy path writes proxy messages.\<close>

lemma proxy_mem_append: "ipc_send_outbuf_append env d c p S = Done (ok, T) \<Longrightarrow> proxy_mem T = proxy_mem S"
  by (auto simp: ipc_send_outbuf_append_def run_bind_Done_iff Let_def split: if_splits option.splits)

lemma proxy_mem_direct: "ipc_send_direct d c p S = Done (ok, T) \<Longrightarrow> proxy_mem T = proxy_mem S"
  by (auto simp: ipc_send_direct_def run_bind_Done_iff Let_def split: if_splits)

lemma proxy_mem_send:
  assumes "shuso_ipc_send env d c p S = Done (ok, T)" and "\<not> proxied (procnum S) d"
  shows "proxy_mem T = proxy_mem S"
proof (cases "proc_state S d < SHUSO_STATE_STARTING")
  case True
  then obtain m where "shuso_ipc_send env d c p S = Done (False, snd (shuso_set_error m S))"
    using shuso_ipc_send_down shuso_set_error_pair by metis
  then show ?thesis using assms(1)
    by (auto simp: shuso_set_error_def shuso_set_error_internal_vararg_def Let_def emit_def)
next
  case False
  then show ?thesis using assms
    by (subst (asm) shuso_ipc_send.simps)
      (auto simp: proxied_def Let_def run_bind_Done_iff
        dest!: proxy_mem_direct proxy_mem_append split: if_splits)
qed

lemma ipc_frame_send_workers:
  "send_workers_from env ws code ptr (ret, S) = Done (ok, T) \<Longrightarrow> ipc_frame S T"
  by (induction ws arbitrary: ret S)
    (auto simp: run_bind_Done_iff split: if_splits dest!: ipc_frame_send(1) intro: ipc_frame_trans)

section \<open>Reaping workers\<close>

lemma reap_workers_eq:
  "reap_workers ws S =
    (\<forall>w \<in> set ws. proc_state S w = SHUSO_STATE_STOPPED \<or> proc_state S w = SHUSO_STATE_DEAD,
     S\<lparr>proc_state := (\<lambda>w. if w \<in> set ws \<and> proc_state S w = SHUSO_STATE_STOPPED
        then SHUSO_STATE_DEAD else proc_state S w)\<rparr>)"
proof (induction ws arbitrary: S)
  case Nil
  then show ?case by (cases S) simp
next
  case (Cons w ws)
  then show ?case
    by (cases "proc_state S w = SHUSO_STATE_STOPPED") (auto simp: Let_def fun_eq_iff intro!: arg_cong2 [where f = "\<lambda>p S. proc_state_update p S"])
qed

section \<open>Properties\<close>

text \<open>C15: The manager stops after its workers.  When its stop listener lets \<^verbatim>\<open>manager.stop\<close> go
  on to the listener that ends its event loop, the manager is stopping and every worker
  in its range has stopped, been joined and is marked dead.\<close>

theorem manager_stops_after_workers:
  assumes "core_manager_try_stop env f S = Done (Proceed, T)"
  shows "own_state T = SHUSO_STATE_STOPPING \<and> procnum T = SHUTTLESOCK_MANAGER \<and>
    (\<forall>w \<in> set (worker_range T). proc_state T w = SHUSO_STATE_DEAD)"
proof -
  have 1: "procnum S = - 1" using assms by (simp add: core_manager_try_stop_def c_assert_Done_iff)
  obtain R where R: "(if own_state S = SHUSO_STATE_RUNNING
      then run_bind (shuso_ipc_send_workers env 2 f (set_own_state SHUSO_STATE_STOPPING S)) (\<lambda>x. Done (snd x))
      else Done S) = Done R" "own_state R = SHUSO_STATE_STOPPING"
      "(case reap_workers (worker_range R) R of (d, T) \<Rightarrow> if \<not> d then Done (Delayed, T) else Done (Proceed, T)) = Done (Proceed, T)"
    using assms unfolding core_manager_try_stop_def c_assert_Done_iff run_bind_Done_iff by auto
  have "procnum R = procnum S"
    using R(1) by (auto simp: run_bind_Done_iff shuso_ipc_send_workers_def ipc_frame_def set_own_state_def
        split: if_splits dest!: ipc_frame_send_workers)
  then show ?thesis using R(2,3) 1 by (auto simp: reap_workers_eq worker_range_def split: if_splits)
qed

text \<open>The manager's view of a system with two workers that have stopped.\<close>

definition example_stopping :: shuso where
  "example_stopping = (example_shuso (- 1))\<lparr>workers_end := 2,
     proc_state := (\<lambda>n. if n < 0 then SHUSO_STATE_STOPPING else SHUSO_STATE_STOPPED)\<rparr>"

theorem manager_stops_after_workers_witness:
  "\<exists>T. core_manager_try_stop example_env 1 example_stopping = Done (Proceed, T) \<and>
    own_state T = SHUSO_STATE_STOPPING \<and> procnum T = SHUTTLESOCK_MANAGER \<and>
    (\<forall>w \<in> set (worker_range T). proc_state T w = SHUSO_STATE_DEAD)"
proof -
  have "\<exists>T. core_manager_try_stop example_env 1 example_stopping = Done (Proceed, T)"
    by (simp add: core_manager_try_stop_def example_stopping_def example_shuso_def reap_workers_eq worker_range_def)
  then show ?thesis using manager_stops_after_workers by blast
qed

text \<open>A stopping manager proceeds exactly when every worker is stopped or dead.  A worker
  that never started (its state is still NIL because its initialisation failed) is
  neither, so the manager delays its stop for as long as that worker is in its range.\<close>

theorem manager_stop_iff:
  assumes "procnum S = SHUTTLESOCK_MANAGER" and "own_state S = SHUSO_STATE_STOPPING"
  shows "\<exists>T. core_manager_try_stop env f S =
      Done (if \<forall>w \<in> set (worker_range S). proc_state S w = SHUSO_STATE_STOPPED \<or>
              proc_state S w = SHUSO_STATE_DEAD then Proceed else Delayed, T) \<and>
    (\<forall>w \<in> set (worker_range S). proc_state S w = SHUSO_STATE_NIL \<longrightarrow> proc_state T w = SHUSO_STATE_NIL)"
  using assms by (auto simp: core_manager_try_stop_def reap_workers_eq)

theorem manager_stop_iff_witness:
  "\<exists>T. core_manager_try_stop example_env 1 (example_stopping\<lparr>proc_state :=
      (proc_state example_stopping)(1 := SHUSO_STATE_NIL)\<rparr>) = Done (Delayed, T)"
  using manager_stop_iff [of "example_stopping\<lparr>proc_state := (proc_state example_stopping)(1 := SHUSO_STATE_NIL)\<rparr>" example_env 1]
  by (auto simp: example_stopping_def example_shuso_def worker_range_def split: if_splits)

text \<open>The master stops after the manager: its stop listener lets \<^verbatim>\<open>master.stop\<close> go on
  exactly when the manager process is dead, and meanwhile asks a running manager to shut
  down.\<close>

theorem master_stops_after_manager:
  assumes "core_master_try_stop env S = Done (r, T)" and "procnum S = SHUTTLESOCK_MASTER"
    and "own_state S = SHUSO_STATE_RUNNING \<or> own_state S = SHUSO_STATE_STOPPING"
  shows "(r = Proceed) = (proc_state S SHUTTLESOCK_MANAGER = SHUSO_STATE_DEAD) \<and> own_state T = SHUSO_STATE_STOPPING"
proof -
  let ?S = "if own_state S = SHUSO_STATE_RUNNING then set_own_state SHUSO_STATE_STOPPING S else S"
  have S: "procnum ?S = - 2" "own_state ?S = SHUSO_STATE_STOPPING"
    "proc_state ?S SHUTTLESOCK_MANAGER = proc_state S SHUTTLESOCK_MANAGER"
    using assms(2,3) by (auto simp: set_own_state_def)
  obtain R where R: "ipc_frame ?S R" "T = R"
    "r = (if proc_state R SHUTTLESOCK_MANAGER \<noteq> SHUSO_STATE_DEAD then Delayed else Proceed)"
    using assms(1) S(1)
    by (auto simp: core_master_try_stop_def Let_def run_bind_Done_iff shuso_stop_manager_def shuso_is_master_def
        split: if_splits dest!: ipc_frame_send(1))
  show ?thesis
    using R S by (auto simp: ipc_frame_def split: if_splits)
qed

theorem master_stops_after_manager_witness:
  "\<exists>r T. core_master_try_stop example_env ((example_shuso (- 2))\<lparr>proc_state :=
      (\<lambda>_. SHUSO_STATE_RUNNING)(- 1 := SHUSO_STATE_DEAD)\<rparr>) = Done (r, T) \<and>
    (r = Proceed) = (SHUSO_STATE_DEAD = SHUSO_STATE_DEAD) \<and> own_state T = SHUSO_STATE_STOPPING"
proof -
  let ?S = "(example_shuso (- 2))\<lparr>proc_state := (\<lambda>_. SHUSO_STATE_RUNNING)(- 1 := SHUSO_STATE_DEAD)\<rparr>"
  have "\<exists>r T. core_master_try_stop example_env ?S = Done (r, T)"
    by (simp add: core_master_try_stop_def example_shuso_def set_own_state_def Let_def)
  then show ?thesis
    using master_stops_after_manager [of example_env ?S] by (auto simp: example_shuso_def)
qed

text \<open>Child status handling never aborts and marks the manager dead exactly when the status
  is an exit or a fatal signal of the manager's own pid (or it was dead already); a
  stopped or continued manager and other children leave it as it is.\<close>

theorem sigchild_marks_manager:
  "\<exists>T. shuso_handle_sigchild env pid status S = Done T \<and>
    (proc_state T SHUTTLESOCK_MANAGER = SHUSO_STATE_DEAD) =
      (proc_state S SHUTTLESOCK_MANAGER = SHUSO_STATE_DEAD \<or>
       pid = manager_pid S \<and> (WIFEXITED status \<or> WIFSIGNALED status))"
proof (cases "sigchild_info_of pid status")
  case None
  then have "\<not> WIFEXITED status" "\<not> WIFSIGNALED status"
    by (auto simp: sigchild_info_of_def split: if_splits)
  then show ?thesis using None by (simp add: shuso_handle_sigchild_def)
next
  case (Some info)
  then have "sc_pid info = pid"
    "(sc_state info \<noteq> SHUSO_CHILD_RUNNING \<and> sc_state info \<noteq> SHUSO_CHILD_STOPPED) =
      (WIFEXITED status \<or> WIFSIGNALED status)"
    by (auto simp: sigchild_info_of_def split: if_splits)
  then show ?thesis
    using Some by (auto simp: shuso_handle_sigchild_def Let_def shuso_stop_def shuso_core_event_publish_def)
qed

text \<open>C37: Messages between master and workers go through the manager and arrive as sent.  A
  proxied send puts one message for the manager in flight; handling it, the manager puts
  one message for the real destination in flight; and handling that one, the destination
  calls its handler for the original code with the original pointer.\<close>

theorem proxied_message_arrives:
  assumes inv: "ipc_inv S xs" "ipc_inv M ys" and env: "env_sound env"
    and mem: "node_malloc env (nodes S) \<noteq> 0" "node_malloc env (nodes M) \<noteq> 0" "shm_alloc env S = d" "d \<noteq> 0"
    and route: "proxied (procnum S) dst" "proc_state S dst \<ge> SHUSO_STATE_STARTING"
      "proc_state S SHUTTLESOCK_MANAGER \<ge> SHUSO_STATE_STARTING" "dst \<le> SHUTTLESOCK_MAX_WORKERS"
    and man: "procnum M = SHUTTLESOCK_MANAGER" "proc_state M dst \<ge> SHUSO_STATE_STARTING"
    and handler: "\<exists>h. ipc_handlers R 12 = Some h \<and> h_receive h = Some Received_proxied_message_handle"
    and msg: "msg = \<lparr>px_code = code, px_src = procnum S, px_dst = dst, px_pd = ptr\<rparr>"
    and shared: "proxy_mem M d = msg" "proxy_mem R d = msg"
  shows "\<exists>T xs' N ys'. shuso_ipc_send env dst code ptr S = Done (True, T) \<and>
    in_flight T xs' SHUTTLESOCK_MANAGER = in_flight S xs SHUTTLESOCK_MANAGER @ [(11, d)] \<and>
    proxy_mem T d = msg \<and> manager_proxy_message_handle env d M = Done N \<and>
    in_flight N ys' dst = in_flight M ys dst @ [(12, d)] \<and>
    ipc_call env 12 d R = ipc_call env code ptr R"
proof -
  let ?S = "S\<lparr>proxy_mem := (proxy_mem S)(d := msg)\<rparr>"
  have send: "shuso_ipc_send env dst code ptr S = shuso_ipc_send env SHUTTLESOCK_MANAGER 11 d ?S"
    using route mem(3,4)
    by (subst shuso_ipc_send.simps) (auto simp: shuso_ipc_send_proxy_via_manager.simps proxied_def Let_def msg)
  have inv': "ipc_inv ?S xs" "\<And>e. in_flight ?S xs e = in_flight S xs e"
    using inv(1) ipc_inv_cong [of ?S S] by simp_all
  have np: "\<not> proxied (procnum ?S) SHUTTLESOCK_MANAGER" "\<not> proxied (procnum M) dst"
    using man(1) by (simp_all add: proxied_def)
  obtain ok T xs' where T: "shuso_ipc_send env SHUTTLESOCK_MANAGER 11 d ?S = Done (ok, T)"
    "\<forall>e. in_flight T xs' e = in_flight ?S xs e @ (if ok \<and> e = SHUTTLESOCK_MANAGER then [(11, d)] else [])"
    "\<not> ok \<longrightarrow> node_malloc env (nodes ?S) = 0"
    using ipc_send_unproxied [OF inv'(1) env _ _ np(1), of 11 d] route(3) by auto
  obtain ok' N ys' where N: "shuso_ipc_send env dst 12 d M = Done (ok', N)"
    "\<forall>e. in_flight N ys' e = in_flight M ys e @ (if ok' \<and> e = dst then [(12, d)] else [])"
    "\<not> ok' \<longrightarrow> node_malloc env (nodes M) = 0"
    using ipc_send_unproxied [OF inv(2) env _ man(2) np(2), of 12 d] by auto
  have ok: "ok" "ok'" using T(3) N(3) mem(1,2) by auto
  have T_msg: "proxy_mem T d = msg" using proxy_mem_send [OF T(1)] np(1) by simp
  have "shuso_process dst = Some dst"
    using route(1,4) by (auto simp: shuso_process_def proxied_def)
  then have "manager_proxy_message_handle env d M = Done N"
    using N(1) ok(2) man(1) shared(1) by (simp add: manager_proxy_message_handle_def msg)
  moreover have "ipc_call env 12 d R = ipc_call env code ptr R"
    using handler shared(2) by (subst ipc_call.simps) (auto simp: msg)
  ultimately show ?thesis
    using send T(1,2) T_msg N(2) ok inv'(2)
    by (intro exI [of _ T] exI [of _ xs'] exI [of _ N] exI [of _ ys']) simp
qed

theorem proxied_message_arrives_witness:
  "\<exists>T xs' N ys'. shuso_ipc_send example_env (- 2) 30 77 (example_shuso 0) = Done (True, T) \<and>
    in_flight T xs' SHUTTLESOCK_MANAGER = in_flight (example_shuso 0) [] SHUTTLESOCK_MANAGER @ [(11, 8192)] \<and>
    proxy_mem T 8192 = \<lparr>px_code = 30, px_src = procnum (example_shuso 0), px_dst = - 2, px_pd = 77\<rparr> \<and>
    manager_proxy_message_handle example_env 8192 ((example_shuso (- 1))\<lparr>proxy_mem :=
      (\<lambda>_. \<lparr>px_code = 30, px_src = procnum (example_shuso 0), px_dst = - 2, px_pd = 77\<rparr>)\<rparr>) = Done N \<and>
    in_flight N ys' (- 2) = in_flight ((example_shuso (- 1))\<lparr>proxy_mem :=
      (\<lambda>_. \<lparr>px_code = 30, px_src = procnum (example_shuso 0), px_dst = - 2, px_pd = 77\<rparr>)\<rparr>) [] (- 2) @ [(12, 8192)] \<and>
    ipc_call example_env 12 8192 ((example_shuso (- 2))\<lparr>proxy_mem :=
        (\<lambda>_. \<lparr>px_code = 30, px_src = procnum (example_shuso 0), px_dst = - 2, px_pd = 77\<rparr>),
        ipc_handlers := [12 \<mapsto> new_handler None (Some Received_proxied_message_handle) None]\<rparr>) =
      ipc_call example_env 30 77 ((example_shuso (- 2))\<lparr>proxy_mem :=
        (\<lambda>_. \<lparr>px_code = 30, px_src = procnum (example_shuso 0), px_dst = - 2, px_pd = 77\<rparr>),
        ipc_handlers := [12 \<mapsto> new_handler None (Some Received_proxied_message_handle) None]\<rparr>)"
proof (rule proxied_message_arrives [OF example_shuso_inv _ example_env_sound, where dst = "- 2"])
  show "ipc_inv ((example_shuso (- 1))\<lparr>proxy_mem :=
      (\<lambda>_. \<lparr>px_code = 30, px_src = procnum (example_shuso 0), px_dst = - 2, px_pd = 77\<rparr>)\<rparr>) []"
    using example_shuso_inv [of "- 1"] by (simp add: ipc_inv_def outbuf_chain_def)
qed (simp_all add: example_shuso_def example_env_def proxied_def new_handler_def runstate_order)

text \<open>\<^verbatim>\<open>shuso_ipc_commands_init\<close> on an empty handler table, while configuring, registers every
  built-in command under its own code and returns true.\<close>

theorem ipc_commands_registered:
  assumes "common_state S = SHUSO_STATE_CONFIGURING" and "ipc_handlers S = (\<lambda>_. None)"
  shows "\<exists>T. shuso_ipc_commands_init S = Done (True, T) \<and>
    list_all (\<lambda>(name, code, fn). ipc_handlers T code = Some (new_handler (Some name) (Some fn) None)) ipc_commands"
  using assms
  by (simp add: shuso_ipc_commands_init_def ipc_commands_def shuso_ipc_add_handler_def
      shuso_runstate_check_def SHUTTLESOCK_IPC_CODE_AUTOMATIC_def)

theorem ipc_commands_registered_witness:
  "\<exists>T. shuso_ipc_commands_init ((example_shuso (- 2))\<lparr>common_state := SHUSO_STATE_CONFIGURING\<rparr>) = Done (True, T) \<and>
    list_all (\<lambda>(name, code, fn). ipc_handlers T code = Some (new_handler (Some name) (Some fn) None)) ipc_commands"
  by (rule ipc_commands_registered) (simp_all add: example_shuso_def)

text \<open>
  A signal that the manager forwards to the master by IPC is not handled like one the
  master gets itself: \<^verbatim>\<open>SIGTERM\<close> is ignored, and \<^verbatim>\<open>SIGINT\<close> shuts the manager down but leaves
  the master running.
\<close>

lemma forwarded_sigterm_ignored:
  "signal_handle env 15 S = Done S"
  by (simp add: signal_handle_def SIGINT_def SIGQUIT_def)

lemma forwarded_sigint_leaves_master:
  "procnum S = SHUTTLESOCK_MASTER \<Longrightarrow> signal_handle env 2 S = Done T \<Longrightarrow> own_state T = own_state S"
  by (auto simp: signal_handle_def SIGINT_def run_bind_Done_iff ipc_frame_def dest!: ipc_frame_send(1))

end
