(* ===== verification/Event.thy ===== *)
theory Event
  imports Shuso_Interfaces Complex_Main
begin

text \<open>
  The event system of \<^verbatim>\<open>event.c\<close>: publishing an event to its listeners in order, and
  cancelling, pausing, delaying and resuming it.  Listeners are arbitrary functions on the
  state of the event being fired, which is how they reach the interrupt functions.
\<close>

section \<open>State\<close>

datatype event_interrupt =
    SHUSO_EVENT_NO_INTERRUPT
  | SHUSO_EVENT_PAUSE
  | SHUSO_EVENT_CANCEL
  | SHUSO_EVENT_DELAY

text \<open>\<^verbatim>\<open>shuso_event_pause_t\<close>; an event is named by its address.\<close>

record event_pause =
  ep_reason :: string
  ep_event :: addr
  ep_code :: int
  ep_data :: addr
  ep_next_listener_index :: nat

text \<open>
  The surroundings of events: the module that is active, the delayed events kept alive in
  the Lua registry by reference, the references whose timer is running, the next
  reference \<^verbatim>\<open>luaL_ref\<close> hands out, the pause a listener last stored, and the rest \<open>'w\<close>.
\<close>

record 'w event_world =
  active_module :: nat
  delays :: "nat \<rightharpoonup> event_pause"
  timers :: "nat list"
  next_ref :: nat
  stored_pause :: "event_pause option"
  user :: 'w

text \<open>
  An interrupt handler gets the kind of interrupt and, for a delay, the seconds, which it
  may change.
\<close>

type_synonym 'w interrupt_handler =
  "event_interrupt \<Rightarrow> rat option \<Rightarrow> 'w event_world \<Rightarrow> bool \<times> rat option \<times> 'w event_world"

text \<open>
  \<^verbatim>\<open>shuso_complete_event_state_t\<close> while an event fires: \<open>cev_cur\<close> is the index of the current
  listener, \<open>cev_handler\<close> the \<^verbatim>\<open>event->interrupt_handler\<close> reached through its event.
\<close>

record 'w cev =
  cev_event :: addr
  cev_handler :: "'w interrupt_handler option"
  cev_cur :: nat
  cev_code :: int
  cev_data :: addr
  cev_interrupt :: event_interrupt
  cev_interrupt_reason :: "string option"
  cev_world :: "'w event_world"

text \<open>
  A listener with its module (its function gets the code and data), and an event with its listeners up to the terminating null.
\<close>

record 'w event_listener =
  l_module :: nat
  l_fn :: "int \<Rightarrow> addr \<Rightarrow> 'w cev \<Rightarrow> 'w cev run"

record 'w event =
  ev_listeners :: "'w event_listener list"
  ev_interrupt_handler :: "'w interrupt_handler option"

section \<open>Firing\<close>

text \<open>
  The two loops of \<^verbatim>\<open>fire_event\<close>: an event without an interrupt handler runs every listener;
  one with a handler stops at the first interrupt.
\<close>

fun fire_loop :: "bool \<Rightarrow> int \<Rightarrow> addr \<Rightarrow> 'w event_listener list \<Rightarrow> 'w cev \<Rightarrow> 'w cev run" where
  "fire_loop interruptible code data [] c = Done c"
| "fire_loop interruptible code data (l # ls) c =
     (if interruptible \<and> cev_interrupt c \<noteq> SHUSO_EVENT_NO_INTERRUPT then Done c
      else
        run_bind (l_fn l code data (c\<lparr>cev_world := (cev_world c)\<lparr>active_module := l_module l\<rparr>\<rparr>))
          (\<lambda>c. fire_loop interruptible code data ls (c\<lparr>cev_cur := cev_cur c + 1\<rparr>)))"

text \<open>An index behind the terminating listener reads outside the array.\<close>

definition fire_event ::
  "(addr \<rightharpoonup> 'w event) \<Rightarrow> addr \<Rightarrow> nat \<Rightarrow> int \<Rightarrow> addr \<Rightarrow> 'w event_world \<Rightarrow> (bool \<times> 'w event_world) run"
where
  "fire_event evs e start code data w =
     (case evs e of
        None \<Rightarrow> Abort
      | Some ev \<Rightarrow>
          c_assert (start \<le> length (ev_listeners ev))
            (let interruptible = (ev_interrupt_handler ev \<noteq> None);
                 c = \<lparr>cev_event = e, cev_handler = ev_interrupt_handler ev, cev_cur = start,
                      cev_code = (if interruptible then code else 0),
                      cev_data = (if interruptible then data else 0),
                      cev_interrupt = SHUSO_EVENT_NO_INTERRUPT, cev_interrupt_reason = None, cev_world = w\<rparr>
             in run_bind (fire_loop interruptible code data (drop start (ev_listeners ev)) c)
                  (\<lambda>c. Done (cev_interrupt c = SHUSO_EVENT_NO_INTERRUPT,
                         (cev_world c)\<lparr>active_module := active_module w\<rparr>))))"

definition shuso_event_publish ::
  "(addr \<rightharpoonup> 'w event) \<Rightarrow> addr \<Rightarrow> int \<Rightarrow> addr \<Rightarrow> 'w event_world \<Rightarrow> (bool \<times> 'w event_world) run"
where
  "shuso_event_publish evs e code data w = fire_event evs e 0 code data w"

section \<open>Interrupting\<close>

definition try_to_interrupt_event ::
  "event_interrupt \<Rightarrow> rat option \<Rightarrow> 'w cev \<Rightarrow> (bool \<times> rat option \<times> 'w cev) run"
where
  "try_to_interrupt_event interrupt sec c =
     (case cev_handler c of
        None \<Rightarrow> Abort
      | Some h \<Rightarrow>
          (case h interrupt sec (cev_world c) of
             (ok, sec, w) \<Rightarrow> Done (ok, sec, c\<lparr>cev_world := w\<rparr>)))"

definition shuso_event_cancel :: "'w cev \<Rightarrow> (bool \<times> 'w cev) run" where
  "shuso_event_cancel c =
     run_bind (try_to_interrupt_event SHUSO_EVENT_CANCEL None c)
       (\<lambda>(ok, sec, c). if \<not> ok then Done (False, c)
          else Done (True, c\<lparr>cev_interrupt := SHUSO_EVENT_CANCEL\<rparr>))"

definition shuso_event_pause ::
  "string \<Rightarrow> 'w cev \<Rightarrow> (bool \<times> 'w cev) run"
where
  "shuso_event_pause reason c =
     run_bind (try_to_interrupt_event SHUSO_EVENT_PAUSE None c)
       (\<lambda>(ok, sec, c).
          if \<not> ok then Done (False, c)
          else
            (let c = c\<lparr>cev_interrupt := SHUSO_EVENT_PAUSE, cev_interrupt_reason := Some reason\<rparr>;
                 paused = \<lparr>ep_reason = reason, ep_event = cev_event c, ep_code = cev_code c,
                           ep_data = cev_data c, ep_next_listener_index = (cev_cur c + 1) mod 2 ^ 16\<rparr>
             in Done (True, c\<lparr>cev_world := (cev_world c)\<lparr>stored_pause := Some paused\<rparr>\<rparr>)))"

text \<open>
  \<open>lua_find\<close> is whether the Lua side knows the event.  The interrupt is set before that is
  asked.
\<close>

definition shuso_event_delay ::
  "(addr \<Rightarrow> bool) \<Rightarrow> string \<Rightarrow> rat \<Rightarrow> 'w cev \<Rightarrow> (bool \<times> nat option \<times> 'w cev) run"
where
  "shuso_event_delay lua_find reason max_delay_sec c =
     run_bind (try_to_interrupt_event SHUSO_EVENT_DELAY (Some max_delay_sec) c)
       (\<lambda>(ok, sec, c).
          if \<not> ok then Done (False, None, c)
          else if (case sec of None \<Rightarrow> max_delay_sec | Some s \<Rightarrow> s) \<le> 0 then Done (False, None, c)
          else
            (let c = c\<lparr>cev_interrupt := SHUSO_EVENT_DELAY, cev_interrupt_reason := Some reason\<rparr> in
             if \<not> lua_find (cev_event c) then Done (False, None, c)
             else
               (let w = cev_world c; r = next_ref w;
                    paused = \<lparr>ep_reason = reason, ep_event = cev_event c, ep_code = cev_code c,
                              ep_data = cev_data c, ep_next_listener_index = cev_cur c mod 2 ^ 16\<rparr>
                in Done (True, Some r,
                     c\<lparr>cev_world := w\<lparr>delays := (delays w)(r \<mapsto> paused), next_ref := r + 1,
                                        timers := timers w @ [r]\<rparr>\<rparr>))))"

section \<open>Resuming\<close>

text \<open>
  The delayed event of a reference that has been released is memory the Lua collector may
  have taken; touching it is an abort.
\<close>

definition clear_delayed_state ::
  "(addr \<Rightarrow> bool) \<Rightarrow> nat \<Rightarrow> 'w event_world \<Rightarrow> (event_pause option \<times> 'w event_world) run"
where
  "clear_delayed_state lua_find r w =
     (case delays w r of
        None \<Rightarrow> Abort
      | Some p \<Rightarrow>
          if \<not> lua_find (ep_event p) then Done (None, w)
          else Done (Some p, w\<lparr>delays := (delays w)(r := None)\<rparr>))"

text \<open>The timer of a delayed event fires: libev has taken it off the running timers.\<close>

definition delayed_event_handler ::
  "(addr \<rightharpoonup> 'w event) \<Rightarrow> (addr \<Rightarrow> bool) \<Rightarrow> nat \<Rightarrow> 'w event_world \<Rightarrow> 'w event_world run"
where
  "delayed_event_handler evs lua_find r w =
     run_bind (clear_delayed_state lua_find r (w\<lparr>timers := remove1 r (timers w)\<rparr>))
       (\<lambda>(p, w). case p of
          None \<Rightarrow> Done w
        | Some p \<Rightarrow>
            run_bind (fire_event evs (ep_event p) (ep_next_listener_index p) (ep_code p) (ep_data p) w)
              (\<lambda>x. Done (snd x)))"

definition shuso_event_resume_delayed ::
  "(addr \<rightharpoonup> 'w event) \<Rightarrow> (addr \<Rightarrow> bool) \<Rightarrow> nat \<Rightarrow> 'w event_world \<Rightarrow> (bool \<times> 'w event_world) run"
where
  "shuso_event_resume_delayed evs lua_find r w =
     run_bind (clear_delayed_state lua_find r w)
       (\<lambda>(p, w). case p of
          None \<Rightarrow> Done (False, w)
        | Some p \<Rightarrow> fire_event evs (ep_event p) (ep_next_listener_index p) (ep_code p) (ep_data p) w)"

definition shuso_event_resume_paused ::
  "(addr \<rightharpoonup> 'w event) \<Rightarrow> event_pause \<Rightarrow> 'w event_world \<Rightarrow> (bool \<times> 'w event_world) run"
where
  "shuso_event_resume_paused evs p w =
     fire_event evs (ep_event p) (ep_next_listener_index p) (ep_code p) (ep_data p) w"

section \<open>Listeners that do not interrupt\<close>

type_synonym 'w reaction = "nat \<times> (int \<Rightarrow> addr \<Rightarrow> 'w \<Rightarrow> 'w)"

definition plain :: "'w reaction \<Rightarrow> 'w event_listener" where
  "plain g = \<lparr>l_module = fst g,
     l_fn = (\<lambda>code data c. Done (c\<lparr>cev_world := (cev_world c)\<lparr>user := snd g code data (user (cev_world c))\<rparr>\<rparr>))\<rparr>"

definition react :: "int \<Rightarrow> addr \<Rightarrow> 'w reaction list \<Rightarrow> 'w \<Rightarrow> 'w" where
  "react code data gs u = fold (\<lambda>g. snd g code data) gs u"

lemma react_simps [simp]:
  "react code data [] u = u"
  "react code data (g # gs) u = react code data gs (snd g code data u)"
  by (simp_all add: react_def)

lemma fire_loop_interrupted:
  "cev_interrupt c \<noteq> SHUSO_EVENT_NO_INTERRUPT \<Longrightarrow> fire_loop True code data ls c = Done c"
  by (cases ls) simp_all

text \<open>The current module after the listeners \<open>gs\<close>.\<close>

definition module_after :: "'w reaction list \<Rightarrow> nat \<Rightarrow> nat" where
  "module_after gs m = (if gs = [] then m else fst (last gs))"

lemma fire_loop_plain:
  assumes "cev_interrupt c = SHUSO_EVENT_NO_INTERRUPT"
  shows "fire_loop i code data (map plain gs @ ls) c = fire_loop i code data ls
    (c\<lparr>cev_cur := cev_cur c + length gs,
       cev_world := (cev_world c)\<lparr>active_module := module_after gs (active_module (cev_world c)),
                                  user := react code data gs (user (cev_world c))\<rparr>\<rparr>)"
  using assms
proof (induction gs arbitrary: c)
  case Nil
  then show ?case by (cases c) (simp add: module_after_def)
next
  case (Cons g gs)
  then show ?case by (simp add: plain_def module_after_def)
qed

lemma fire_event_plain:
  assumes "evs e = Some ev" and "ev_listeners ev = ls @ map plain gs" and "start = length ls"
  shows "fire_event evs e start code data w = Done (True, w\<lparr>user := react code data gs (user w)\<rparr>)"
  using assms fire_loop_plain [where ls = "[]" and gs = gs]
  by (cases w) (simp add: fire_event_def Let_def)

section \<open>Listeners that interrupt\<close>

text \<open>
  A listener that reacts and then pauses the event; one that cancels it; and one that,
  like the stop listeners of the core module, delays the event until \<open>ready\<close>.
\<close>

definition pausing :: "'w reaction \<Rightarrow> string \<Rightarrow> 'w event_listener" where
  "pausing g reason = \<lparr>l_module = fst g,
     l_fn = (\<lambda>code data c. run_bind (l_fn (plain g) code data c)
       (\<lambda>c. run_bind (shuso_event_pause reason c) (\<lambda>x. Done (snd x))))\<rparr>"

definition cancelling :: "'w reaction \<Rightarrow> 'w event_listener" where
  "cancelling g = \<lparr>l_module = fst g,
     l_fn = (\<lambda>code data c. run_bind (l_fn (plain g) code data c)
       (\<lambda>c. run_bind (shuso_event_cancel c) (\<lambda>x. Done (snd x))))\<rparr>"

definition delaying ::
  "(addr \<Rightarrow> bool) \<Rightarrow> 'w reaction \<Rightarrow> ('w \<Rightarrow> bool) \<Rightarrow> rat \<Rightarrow> 'w event_listener"
where
  "delaying lua_find g ready sec = \<lparr>l_module = fst g,
     l_fn = (\<lambda>code data c. run_bind (l_fn (plain g) code data c)
       (\<lambda>c. if ready (user (cev_world c)) then Done c
            else run_bind (shuso_event_delay lua_find ''waiting'' sec c) (\<lambda>x. Done (snd (snd x)))))\<rparr>"

text \<open>A handler that grants every interrupt, as \<^verbatim>\<open>stop_event_interrupt_handler\<close> does for delays.\<close>

definition granting :: "'w interrupt_handler \<Rightarrow> bool" where
  "granting h \<longleftrightarrow> (\<forall>i sec w. h i sec w = (True, sec, w))"

lemma fire_loop_pausing:
  assumes ev: "cev_handler c = Some h" "granting h"
    and c: "cev_interrupt c = SHUSO_EVENT_NO_INTERRUPT"
  shows "fire_loop True code data (pausing g reason # ls) c =
    Done (c\<lparr>cev_cur := cev_cur c + 1, cev_interrupt := SHUSO_EVENT_PAUSE, cev_interrupt_reason := Some reason,
      cev_world := (cev_world c)\<lparr>active_module := fst g, user := snd g code data (user (cev_world c)),
        stored_pause := Some \<lparr>ep_reason = reason, ep_event = cev_event c, ep_code = cev_code c,
          ep_data = cev_data c, ep_next_listener_index = (cev_cur c + 1) mod 2 ^ 16\<rparr>\<rparr>\<rparr>)"
  using assms
  by (cases c; cases "cev_world c")
    (simp add: pausing_def plain_def shuso_event_pause_def try_to_interrupt_event_def granting_def Let_def
      fire_loop_interrupted)

section \<open>Properties\<close>

text \<open>Publishing an event runs every listener once, in order, each with the code and data
  published, returns true when none interrupts, and restores the active module.\<close>

theorem event_publish_runs_all:
  assumes "evs e = Some ev" and "ev_listeners ev = map plain gs"
  shows "shuso_event_publish evs e code data w = Done (True, w\<lparr>user := react code data gs (user w)\<rparr>)"
  unfolding shuso_event_publish_def using assms by (intro fire_event_plain [where ls = "[]"]) simp_all

definition example_world :: "nat list event_world" where
  "example_world = \<lparr>active_module = 9, delays = (\<lambda>_. None), timers = [], next_ref = 1, stored_pause = None, user = []\<rparr>"

definition log_reaction :: "nat \<Rightarrow> nat list reaction" where
  "log_reaction k = (k, \<lambda>code data u. u @ [k])"

theorem event_publish_runs_all_witness:
  "shuso_event_publish [64 \<mapsto> \<lparr>ev_listeners = map plain [log_reaction 1, log_reaction 2],
      ev_interrupt_handler = None\<rparr>] 64 0 0 example_world = Done (True, example_world\<lparr>user := [1, 2]\<rparr>)"
  using event_publish_runs_all [of "[64 \<mapsto> \<lparr>ev_listeners = map plain [log_reaction 1, log_reaction 2],
      ev_interrupt_handler = None\<rparr>]" 64 _ "[log_reaction 1, log_reaction 2]" 0 0 example_world]
  by (simp add: log_reaction_def example_world_def)

text \<open>C14: Pausing and resuming loses and repeats no listener.  If a listener pauses an event, the
  listeners before it and itself have run and publishing returns false; resuming with the
  pause it stored runs exactly the listeners after it, with the same code and data.\<close>

theorem event_pause_resume:
  assumes ev: "evs e = Some ev" "ev_listeners ev = map plain fs @ pausing g reason # map plain gs"
    and h: "ev_interrupt_handler ev = Some h" "granting h" and len: "length fs + 1 < 2 ^ 16"
  shows "\<exists>w1 p. shuso_event_publish evs e code data w = Done (False, w1) \<and> stored_pause w1 = Some p \<and>
    user w1 = react code data (fs @ [g]) (user w) \<and>
    shuso_event_resume_paused evs p w1 =
      Done (True, w1\<lparr>user := react code data (fs @ g # gs) (user w)\<rparr>)"
proof -
  define c where "c = \<lparr>cev_event = e, cev_handler = Some h, cev_cur = length fs, cev_code = code, cev_data = data,
    cev_interrupt = SHUSO_EVENT_NO_INTERRUPT, cev_interrupt_reason = None,
    cev_world = w\<lparr>active_module := module_after fs (active_module w), user := react code data fs (user w)\<rparr>\<rparr>"
  define p where "p = \<lparr>ep_reason = reason, ep_event = e, ep_code = code, ep_data = data,
    ep_next_listener_index = length fs + 1\<rparr>"
  define w1 where "w1 = w\<lparr>user := react code data (fs @ [g]) (user w), stored_pause := Some p\<rparr>"
  have "fire_loop True code data (pausing g reason # map plain gs) c =
      Done (c\<lparr>cev_cur := cev_cur c + 1, cev_interrupt := SHUSO_EVENT_PAUSE, cev_interrupt_reason := Some reason,
        cev_world := (cev_world c)\<lparr>active_module := fst g, user := snd g code data (user (cev_world c)),
          stored_pause := Some p\<rparr>\<rparr>)"
    using fire_loop_pausing [of c h code data g reason "map plain gs"] ev h len
    by (simp add: c_def p_def)
  then have "shuso_event_publish evs e code data w = Done (False, w1)"
    unfolding shuso_event_publish_def fire_event_def
    using ev h by (cases w) (simp add: Let_def fire_loop_plain c_def w1_def react_def)
  moreover have "shuso_event_resume_paused evs p w1 =
      Done (True, w1\<lparr>user := react code data (fs @ g # gs) (user w)\<rparr>)"
    unfolding shuso_event_resume_paused_def
    using fire_event_plain [of evs e ev "map plain fs @ [pausing g reason]" gs "length fs + 1" code data w1] ev
    by (simp add: p_def w1_def react_def)
  ultimately show ?thesis by (intro exI [of _ w1] exI [of _ p]) (simp add: w1_def)
qed

definition grant_all :: "'w interrupt_handler" where
  "grant_all i sec w = (True, sec, w)"

lemma granting_grant_all: "granting grant_all"
  by (simp add: granting_def grant_all_def)

theorem event_pause_resume_witness:
  "\<exists>w1 p. shuso_event_publish [64 \<mapsto> \<lparr>ev_listeners =
        [plain (log_reaction 1), pausing (log_reaction 2) ''wait'', plain (log_reaction 3)],
        ev_interrupt_handler = Some grant_all\<rparr>] 64 7 5 example_world = Done (False, w1) \<and>
    stored_pause w1 = Some p \<and> user w1 = [1, 2] \<and>
    shuso_event_resume_paused [64 \<mapsto> \<lparr>ev_listeners =
        [plain (log_reaction 1), pausing (log_reaction 2) ''wait'', plain (log_reaction 3)],
        ev_interrupt_handler = Some grant_all\<rparr>] p w1 = Done (True, w1\<lparr>user := [1, 2, 3]\<rparr>)"
proof -
  let ?ev = "\<lparr>ev_listeners = [plain (log_reaction 1), pausing (log_reaction 2) ''wait'', plain (log_reaction 3)],
    ev_interrupt_handler = Some grant_all\<rparr>"
  show ?thesis
    using event_pause_resume [of "[64 \<mapsto> ?ev]" 64 ?ev "[log_reaction 1]" "log_reaction 2" "''wait''"
        "[log_reaction 3]" grant_all 7 5 example_world] granting_grant_all
    by (simp add: log_reaction_def example_world_def)
qed

text \<open>Cancelling an event keeps the listeners after the cancelling one from running, and
  publishing returns false.\<close>

theorem event_cancel_stops:
  assumes ev: "evs e = Some ev" "ev_listeners ev = map plain fs @ cancelling g # ls"
    and h: "ev_interrupt_handler ev = Some h" "granting h"
  shows "shuso_event_publish evs e code data w =
    Done (False, w\<lparr>user := react code data (fs @ [g]) (user w)\<rparr>)"
  unfolding shuso_event_publish_def fire_event_def
  using ev h
  by (cases w) (simp add: Let_def fire_loop_plain cancelling_def shuso_event_cancel_def
      try_to_interrupt_event_def granting_def plain_def fire_loop_interrupted react_def)

theorem event_cancel_stops_witness:
  "shuso_event_publish [64 \<mapsto> \<lparr>ev_listeners =
        [plain (log_reaction 1), cancelling (log_reaction 2), plain (log_reaction 3)],
        ev_interrupt_handler = Some grant_all\<rparr>] 64 7 5 example_world =
    Done (False, example_world\<lparr>user := [1, 2]\<rparr>)"
proof -
  let ?ev = "\<lparr>ev_listeners = [plain (log_reaction 1), cancelling (log_reaction 2), plain (log_reaction 3)],
    ev_interrupt_handler = Some grant_all\<rparr>"
  show ?thesis
    using event_cancel_stops [of "[64 \<mapsto> ?ev]" 64 ?ev "[log_reaction 1]" "log_reaction 2"
        "[plain (log_reaction 3)]" grant_all 7 5 example_world] granting_grant_all
    by (simp add: log_reaction_def example_world_def)
qed

lemma fire_loop_delaying:
  assumes h: "cev_handler c = Some h" "granting h" and s: "0 < sec" "lua_find (cev_event c)"
    and c: "cev_interrupt c = SHUSO_EVENT_NO_INTERRUPT"
    and nr: "\<not> ready (snd g code data (user (cev_world c)))"
  shows "fire_loop True code data (delaying lua_find g ready sec # ls) c =
    Done (c\<lparr>cev_cur := cev_cur c + 1, cev_interrupt := SHUSO_EVENT_DELAY,
      cev_interrupt_reason := Some ''waiting'',
      cev_world := (cev_world c)\<lparr>active_module := fst g, user := snd g code data (user (cev_world c)),
        delays := (delays (cev_world c))(next_ref (cev_world c) \<mapsto>
          \<lparr>ep_reason = ''waiting'', ep_event = cev_event c, ep_code = cev_code c, ep_data = cev_data c,
           ep_next_listener_index = cev_cur c mod 2 ^ 16\<rparr>),
        next_ref := next_ref (cev_world c) + 1,
        timers := timers (cev_world c) @ [next_ref (cev_world c)]\<rparr>\<rparr>)"
  using assms
  by (cases c; cases "cev_world c")
    (simp add: delaying_def plain_def shuso_event_delay_def try_to_interrupt_event_def granting_def Let_def
      fire_loop_interrupted)

text \<open>The world after a delaying listener has put the event off.\<close>

definition delayed_world ::
  "addr \<Rightarrow> int \<Rightarrow> addr \<Rightarrow> nat \<Rightarrow> 'w \<Rightarrow> 'w event_world \<Rightarrow> 'w event_world"
where
  "delayed_world e code data idx u w = w\<lparr>user := u,
     delays := (delays w)(next_ref w \<mapsto> \<lparr>ep_reason = ''waiting'', ep_event = e, ep_code = code,
       ep_data = data, ep_next_listener_index = idx\<rparr>),
     next_ref := next_ref w + 1, timers := timers w @ [next_ref w]\<rparr>"

lemma event_delay_publish:
  assumes ev: "evs e = Some ev" "ev_listeners ev = map plain fs @ delaying lua_find g ready sec # ls"
    and h: "ev_interrupt_handler ev = Some h" "granting h" and len: "length fs < 2 ^ 16"
    and s: "0 < sec" "lua_find e" and nr: "\<not> ready (react code data (fs @ [g]) (user w))"
  shows "shuso_event_publish evs e code data w =
    Done (False, delayed_world e code data (length fs) (react code data (fs @ [g]) (user w)) w)"
proof -
  let ?c = "\<lparr>cev_event = e, cev_handler = Some h, cev_cur = length fs, cev_code = code, cev_data = data,
    cev_interrupt = SHUSO_EVENT_NO_INTERRUPT, cev_interrupt_reason = None,
    cev_world = w\<lparr>active_module := module_after fs (active_module w), user := react code data fs (user w)\<rparr>\<rparr>"
  have nr': "\<not> ready (snd g code data (react code data fs (user w)))"
    using nr by (simp add: react_def)
  show ?thesis
    unfolding shuso_event_publish_def fire_event_def
    using ev h len fire_loop_delaying [of ?c h sec lua_find ready g code data ls] s nr'
    by (cases w) (simp add: Let_def fire_loop_plain delayed_world_def react_def)
qed

text \<open>A delayed event resumes at the listener that delayed it.  Publishing stops at a listener
  that is not ready, leaving one delayed event with its timer running; when the timer
  fires after the listener has become ready, that listener runs again, then all the
  listeners after it, and nothing is left behind.\<close>

theorem event_delay_retries:
  assumes ev: "evs e = Some ev" "ev_listeners ev = map plain fs @ delaying lua_find g ready sec # map plain gs"
    and h: "ev_interrupt_handler ev = Some h" "granting h" and len: "length fs < 2 ^ 16"
    and s: "0 < sec" "lua_find e" and fresh: "delays w (next_ref w) = None" "next_ref w \<notin> set (timers w)"
    and nr: "\<not> ready (react code data (fs @ [g]) (user w))" and rd: "ready (snd g code data u)"
  shows "\<exists>w1. shuso_event_publish evs e code data w = Done (False, w1) \<and> timers w1 = timers w @ [next_ref w] \<and>
    user w1 = react code data (fs @ [g]) (user w) \<and>
    delayed_event_handler evs lua_find (next_ref w) (w1\<lparr>user := u\<rparr>) =
      Done (w\<lparr>next_ref := next_ref w + 1, user := react code data (g # gs) u\<rparr>)"
proof -
  let ?w1 = "delayed_world e code data (length fs) (react code data (fs @ [g]) (user w)) w"
  let ?w2 = "w\<lparr>next_ref := next_ref w + 1, user := u\<rparr>"
  have fire: "fire_event evs e (length fs) code data ?w2 =
      Done (True, ?w2\<lparr>user := react code data (g # gs) u\<rparr>)"
    using ev h rd unfolding fire_event_def
    by (cases w) (simp add: Let_def delaying_def plain_def fire_loop_plain [where ls = "[]", simplified])
  have "(?w1\<lparr>user := u\<rparr>)\<lparr>timers := remove1 (next_ref w) (timers ?w1), delays := (delays ?w1)(next_ref w := None)\<rparr> = ?w2"
    using fresh by (cases w) (simp add: delayed_world_def remove1_append fun_upd_idem)
  then have "delayed_event_handler evs lua_find (next_ref w) (?w1\<lparr>user := u\<rparr>) =
      Done (?w2\<lparr>user := react code data (g # gs) u\<rparr>)"
    using fire s(2) len by (simp add: delayed_event_handler_def clear_delayed_state_def delayed_world_def)
  moreover have "shuso_event_publish evs e code data w = Done (False, ?w1)"
    using ev h len s nr by (intro event_delay_publish [where lua_find = lua_find])
  ultimately show ?thesis by (intro exI [of _ ?w1]) (simp add: delayed_world_def)
qed

theorem event_delay_retries_witness:
  "\<exists>w1. shuso_event_publish [64 \<mapsto> \<lparr>ev_listeners =
        [plain (log_reaction 1), delaying (\<lambda>_. True) (log_reaction 2) (\<lambda>u. length u = 5) (1 / 10), plain (log_reaction 3)],
        ev_interrupt_handler = Some grant_all\<rparr>] 64 7 5 example_world = Done (False, w1) \<and>
    timers w1 = timers example_world @ [next_ref example_world] \<and> user w1 = [1, 2] \<and>
    delayed_event_handler [64 \<mapsto> \<lparr>ev_listeners =
        [plain (log_reaction 1), delaying (\<lambda>_. True) (log_reaction 2) (\<lambda>u. length u = 5) (1 / 10), plain (log_reaction 3)],
        ev_interrupt_handler = Some grant_all\<rparr>] (\<lambda>_. True) (next_ref example_world) (w1\<lparr>user := [1, 2, 8, 8]\<rparr>) =
      Done (example_world\<lparr>next_ref := next_ref example_world + 1, user := [1, 2, 8, 8, 2, 3]\<rparr>)"
proof -
  let ?ev = "\<lparr>ev_listeners = [plain (log_reaction 1),
    delaying (\<lambda>_. True) (log_reaction 2) (\<lambda>u. length u = 5) (1 / 10), plain (log_reaction 3)],
    ev_interrupt_handler = Some grant_all\<rparr>"
  show ?thesis
    using event_delay_retries [of "[64 \<mapsto> ?ev]" 64 ?ev "[log_reaction 1]" "\<lambda>_. True" "log_reaction 2"
        "\<lambda>u. length u = 5" "1 / 10" "[log_reaction 3]" grant_all example_world 7 5 "[1, 2, 8, 8]"] granting_grant_all
    by (simp add: log_reaction_def example_world_def)
qed

text \<open>Resuming a delayed event by hand leaves its timer running on released memory.
  \<^verbatim>\<open>shuso_event_resume_delayed\<close> drops the registry reference that keeps the delayed event
  alive and fires the event, but does not stop the timer inside it; when that timer
  fires it uses the released object.\<close>

theorem event_resume_delayed_dangles:
  assumes "delays w r = Some p" and "lua_find (ep_event p)" and "r \<in> set (timers w)"
    and "evs (ep_event p) = Some ev" and "ev_listeners ev = ls @ map plain gs"
    and "ep_next_listener_index p = length ls"
  shows "\<exists>w1. shuso_event_resume_delayed evs lua_find r w = Done (True, w1) \<and> r \<in> set (timers w1) \<and>
    delayed_event_handler evs lua_find r w1 = Abort"
  using assms fire_event_plain [of evs "ep_event p" ev ls gs "ep_next_listener_index p"]
  by (simp add: shuso_event_resume_delayed_def clear_delayed_state_def delayed_event_handler_def)

theorem event_resume_delayed_dangles_witness:
  "\<exists>w1. shuso_event_resume_delayed [64 \<mapsto> \<lparr>ev_listeners = [plain (log_reaction 1)], ev_interrupt_handler = None\<rparr>]
      (\<lambda>_. True) 1 (example_world\<lparr>delays := [1 \<mapsto> \<lparr>ep_reason = ''waiting'', ep_event = 64, ep_code = 0, ep_data = 0,
        ep_next_listener_index = 0\<rparr>], timers := [1]\<rparr>) = Done (True, w1) \<and> 1 \<in> set (timers w1) \<and>
    delayed_event_handler [64 \<mapsto> \<lparr>ev_listeners = [plain (log_reaction 1)], ev_interrupt_handler = None\<rparr>]
      (\<lambda>_. True) 1 w1 = Abort"
  by (rule event_resume_delayed_dangles [where ls = "[]" and gs = "[log_reaction 1]" and
        p = "\<lparr>ep_reason = ''waiting'', ep_event = 64, ep_code = 0, ep_data = 0, ep_next_listener_index = 0\<rparr>" and
        ev = "\<lparr>ev_listeners = [plain (log_reaction 1)], ev_interrupt_handler = None\<rparr>"])
    (simp_all add: example_world_def)

end
