(* ===== verification/IO.thy ===== *)
theory IO
  imports Shuso_Interfaces
begin

text \<open>
  Asynchronous I/O: \<^verbatim>\<open>io/io.c\<close> and its libev back end \<^verbatim>\<open>io/io_libev.c\<close>.  An operation is
  tried at once and again whenever its file descriptor becomes ready, until it is done or
  fails; then the handler coroutine runs.
\<close>

section \<open>The kernel\<close>

text \<open>
  What the next system calls on the descriptor do: transfer up to so many bytes (or, for
  \<^verbatim>\<open>accept\<close>, \<^verbatim>\<open>connect\<close> and \<^verbatim>\<open>close\<close>, return that value), or fail with an \<^verbatim>\<open>errno\<close>.
\<close>

datatype sys_result = Sys_ok nat | Sys_err int

definition EINTR :: int where
  "EINTR = 4"

definition EBADF :: int where
  "EBADF = 9"

definition EAGAIN :: int where
  "EAGAIN = 11"

definition ENOMEM :: int where
  "ENOMEM = 12"

definition EINPROGRESS :: int where
  "EINPROGRESS = 115"

definition ECANCELED :: int where
  "ECANCELED = 125"

lemmas errno_defs [simp] = EINTR_def EBADF_def EAGAIN_def ENOMEM_def EINPROGRESS_def ECANCELED_def

section \<open>State\<close>

datatype io_opcode =
    SHUSO_IO_OP_NONE
  | SHUSO_IO_OP_READV
  | SHUSO_IO_OP_WRITEV
  | SHUSO_IO_OP_READ
  | SHUSO_IO_OP_WRITE
  | SHUSO_IO_OP_SENDMSG
  | SHUSO_IO_OP_SENDTO
  | SHUSO_IO_OP_SEND
  | SHUSO_IO_OP_RECVMSG
  | SHUSO_IO_OP_RECVFROM
  | SHUSO_IO_OP_RECV
  | SHUSO_IO_OP_ACCEPT
  | SHUSO_IO_OP_CONNECT
  | SHUSO_IO_OP_CLOSE
  | SHUSO_IO_OP_SHUTDOWN

datatype io_watch_type =
    SHUSO_IO_WATCH_NONE
  | SHUSO_IO_WATCH_OP_FINISH
  | SHUSO_IO_WATCH_OP_RETRY
  | SHUSO_IO_WATCH_POLL_READ
  | SHUSO_IO_WATCH_POLL_WRITE
  | SHUSO_IO_WATCH_POLL_READWRITE

type_synonym iovec = "addr \<times> nat"

text \<open>
  \<^verbatim>\<open>shuso_io_t\<close> with the memory and the kernel it works on.  \<open>io_iov\<close> is the array that
  \<^verbatim>\<open>iov\<close> or \<^verbatim>\<open>msg->msg_iov\<close> points into, from that pointer on, and \<open>io_iovcnt\<close> the count that
  goes with it.  The union of \<^verbatim>\<open>flags\<close> and \<^verbatim>\<open>incomplete_temporary_iovec\<close> is \<open>io_tmp\<close> (0 for
  NULL); reading it as flags gives its low 32 bits.  \<open>handler_calls\<close> are the calls of the
  handler (or, marked true, of the error handler) with the result and error they saw.
\<close>

record io =
  io_fd :: int
  io_has_sockaddr :: bool
  io_buf :: addr
  io_len :: int
  io_iov :: "iovec list"
  io_iovcnt :: nat
  io_original :: bool
  io_tmp :: nat
  io_result :: int
  io_error :: int
  io_has_error_handler :: bool
  io_handler_stage :: nat
  io_closed_read :: bool
  io_closed_write :: bool
  io_opcode :: io_opcode
  io_watch_type :: io_watch_type
  io_op_again :: bool
  io_op_repeat_to_completion :: bool
  io_watcher_active :: bool
  handler_calls :: "(bool \<times> int \<times> int) list"
  mem :: "addr \<Rightarrow> 8 word"
  k_script :: "sys_result list"
  k_in :: "8 word list"
  k_out :: "8 word list"
  k_malloc :: addr
  k_freed :: "addr list"

definition io_flags :: "io \<Rightarrow> nat" where
  "io_flags io = io_tmp io mod 2 ^ 32"

section \<open>Watching and handlers\<close>

definition shuso_io_ev_watch_update :: "io \<Rightarrow> io" where
  "shuso_io_ev_watch_update io =
     (if io_watch_type io = SHUSO_IO_WATCH_NONE \<and> io_watcher_active io then io\<lparr>io_watcher_active := False\<rparr>
      else if io_watch_type io \<noteq> SHUSO_IO_WATCH_NONE \<and> \<not> io_watcher_active io
      then io\<lparr>io_watcher_active := True\<rparr>
      else io)"

definition shuso_io_run_handler :: "io \<Rightarrow> io" where
  "shuso_io_run_handler io =
     (if io_has_error_handler io \<and> io_result io = - 1 then
        io\<lparr>io_handler_stage := 0, handler_calls := handler_calls io @ [(True, io_result io, io_error io)]\<rparr>
      else
        shuso_io_ev_watch_update
          (io\<lparr>handler_calls := handler_calls io @ [(False, io_result io, io_error io)]\<rparr>))"

section \<open>Progress of an operation\<close>

text \<open>
  A short transfer of an iovec operation: skip the iovecs that are done and, when the
  transfer ended inside one, copy the rest of the array to shorten its first element.
  The copy loop runs \<^verbatim>\<open>iovcnt + iovcnt_offset\<close> times over an array of
  \<^verbatim>\<open>iovcnt - iovcnt_offset\<close> elements; running past it is an abort.
\<close>

definition io_iovec_update_on_incomplete_op ::
  "nat \<Rightarrow> nat \<Rightarrow> io \<Rightarrow> (bool \<times> io) run"
where
  "io_iovec_update_on_incomplete_op iovcnt_offset iov_start_offset io =
     (if iov_start_offset = 0 then
        c_assert (io_iovcnt io > iovcnt_offset)
          (Done (True, io\<lparr>io_original := True, io_iov := drop iovcnt_offset (io_iov io),
                          io_iovcnt := io_iovcnt io - iovcnt_offset\<rparr>))
      else if io_tmp io = 0 then
        c_assert (io_iovcnt io > 0 \<and> io_iovcnt io > iovcnt_offset)
          (if k_malloc io = 0 then Done (False, io\<lparr>io_error := ENOMEM, io_result := - 1\<rparr>)
           else
             c_assert (io_iovcnt io + iovcnt_offset \<le> io_iovcnt io - iovcnt_offset \<and>
                       io_iovcnt io \<le> length (io_iov io))
               (let tmp_iov = take (io_iovcnt io) (io_iov io) in
                c_assert (snd (hd tmp_iov) > iov_start_offset)
                  (Done (True,
                     io\<lparr>io_iov := (fst (hd tmp_iov) + iov_start_offset, snd (hd tmp_iov) - iov_start_offset) # tl tmp_iov,
                        io_iovcnt := io_iovcnt io - iovcnt_offset,
                        io_tmp := k_malloc io, io_original := True\<rparr>))))
      else
        c_assert (io_original io \<and> iovcnt_offset < length (io_iov io) \<and>
                  snd (io_iov io ! iovcnt_offset) > iov_start_offset \<and> io_iovcnt io > iovcnt_offset)
          (Done (True, io\<lparr>io_iov := drop iovcnt_offset (io_iov io),
                          io_iovcnt := io_iovcnt io - iovcnt_offset\<rparr>)))"

text \<open>The loop over the iovecs: how many are complete and what is left of the transfer.\<close>

fun iovec_scan :: "iovec list \<Rightarrow> nat \<Rightarrow> nat \<Rightarrow> nat \<times> nat" where
  "iovec_scan [] i written = (i, written)"
| "iovec_scan ((base, len) # iov) i written =
     (if written = 0 \<or> written < len then (i, written) else iovec_scan iov (i + 1) (written - len))"

definition io_iovec_op_update_and_check_completion :: "nat \<Rightarrow> io \<Rightarrow> (bool \<times> io) run" where
  "io_iovec_op_update_and_check_completion written io =
     (let (i, rest) = iovec_scan (take (io_iovcnt io) (io_iov io)) 0 written in
      if rest = 0 then Done (True, io)
      else
        run_bind (io_iovec_update_on_incomplete_op i (if i < io_iovcnt io then rest else 0) io)
          (\<lambda>(ok, io). if \<not> ok then c_assert (io_error io \<noteq> 0) (Done (True, io)) else Done (False, io)))"

definition shuso_io_op_update_and_check_completion :: "nat \<Rightarrow> io \<Rightarrow> (bool \<times> io) run" where
  "shuso_io_op_update_and_check_completion result_sz io =
     (case io_opcode io of
        SHUSO_IO_OP_NONE \<Rightarrow> Done (True, io)
      | SHUSO_IO_OP_CONNECT \<Rightarrow> Done (True, io)
      | SHUSO_IO_OP_ACCEPT \<Rightarrow> Done (True, io)
      | SHUSO_IO_OP_CLOSE \<Rightarrow> Done (True, io)
      | SHUSO_IO_OP_SHUTDOWN \<Rightarrow> Done (True, io)
      | SHUSO_IO_OP_READV \<Rightarrow> io_iovec_op_update_and_check_completion result_sz io
      | SHUSO_IO_OP_WRITEV \<Rightarrow> io_iovec_op_update_and_check_completion result_sz io
      | SHUSO_IO_OP_RECVMSG \<Rightarrow> io_iovec_op_update_and_check_completion result_sz io
      | SHUSO_IO_OP_SENDMSG \<Rightarrow> io_iovec_op_update_and_check_completion result_sz io
      | _ \<Rightarrow>
          (let io = io\<lparr>io_buf := io_buf io + result_sz, io_len := io_len io - int result_sz\<rparr>
           in c_assert (io_len io \<ge> 0) (Done (io_len io = 0, io))))"

fun is_read_op :: "io_opcode \<Rightarrow> bool" where
  "is_read_op SHUSO_IO_OP_READ = True"
| "is_read_op SHUSO_IO_OP_READV = True"
| "is_read_op SHUSO_IO_OP_RECVFROM = True"
| "is_read_op SHUSO_IO_OP_RECV = True"
| "is_read_op SHUSO_IO_OP_RECVMSG = True"
| "is_read_op _ = False"

fun is_write_op :: "io_opcode \<Rightarrow> bool" where
  "is_write_op SHUSO_IO_OP_WRITE = True"
| "is_write_op SHUSO_IO_OP_WRITEV = True"
| "is_write_op SHUSO_IO_OP_SENDMSG = True"
| "is_write_op SHUSO_IO_OP_SENDTO = True"
| "is_write_op SHUSO_IO_OP_SEND = True"
| "is_write_op _ = False"

fun is_iovec_op :: "io_opcode \<Rightarrow> bool" where
  "is_iovec_op SHUSO_IO_OP_READV = True"
| "is_iovec_op SHUSO_IO_OP_WRITEV = True"
| "is_iovec_op SHUSO_IO_OP_SENDMSG = True"
| "is_iovec_op SHUSO_IO_OP_RECVMSG = True"
| "is_iovec_op _ = False"

definition shuso_io_update_fd_closed_status_from_op_result :: "io_opcode \<Rightarrow> int \<Rightarrow> io \<Rightarrow> io" where
  "shuso_io_update_fd_closed_status_from_op_result op result io =
     (if is_read_op op then io\<lparr>io_closed_read := (result = 0)\<rparr>
      else if is_write_op op then io\<lparr>io_closed_write := (result = 0)\<rparr>
      else io)"

definition shuso_io_op_cleanup :: "io \<Rightarrow> io" where
  "shuso_io_op_cleanup io =
     (if is_iovec_op (io_opcode io) \<and> io_tmp io \<noteq> 0
      then io\<lparr>k_freed := k_freed io @ [io_tmp io], io_tmp := 0\<rparr> else io)"

section \<open>System calls\<close>

text \<open>The bytes of a list of iovecs, in order.\<close>

definition iovec_bytes :: "(addr \<Rightarrow> 8 word) \<Rightarrow> iovec list \<Rightarrow> 8 word list" where
  "iovec_bytes m iov = concat (map (\<lambda>(base, len). map m [base..<base + len]) iov)"

definition write_bytes :: "addr \<Rightarrow> 8 word list \<Rightarrow> (addr \<Rightarrow> 8 word) \<Rightarrow> addr \<Rightarrow> 8 word" where
  "write_bytes a bs m = (\<lambda>x. if a \<le> x \<and> x < a + length bs then bs ! (x - a) else m x)"

fun scatter :: "iovec list \<Rightarrow> 8 word list \<Rightarrow> (addr \<Rightarrow> 8 word) \<Rightarrow> addr \<Rightarrow> 8 word" where
  "scatter [] bs m = m"
| "scatter ((base, len) # iov) bs m = scatter iov (drop len bs) (write_bytes base (take len bs) m)"

text \<open>
  One transfer of at most \<open>n\<close> bytes: a write takes the front of the buffer or of the iovecs,
  a read fills it with what has arrived.  The result is the number of bytes.
\<close>

definition transfer :: "io_opcode \<Rightarrow> nat \<Rightarrow> io \<Rightarrow> nat \<times> io" where
  "transfer op n io =
     (let iov = (if is_iovec_op op then take (io_iovcnt io) (io_iov io) else [(io_buf io, nat (io_len io))]) in
      if is_write_op op then
        (let bs = take n (iovec_bytes (mem io) iov) in (length bs, io\<lparr>k_out := k_out io @ bs\<rparr>))
      else if is_read_op op then
        (let bs = take (min n (sum_list (map snd iov))) (k_in io)
         in (length bs, io\<lparr>mem := scatter iov bs (mem io), k_in := drop (length bs) (k_in io)\<rparr>))
      else (n, io))"

text \<open>
  The system call of an operation, repeated while it is interrupted.  \<open>None\<close> stands for a
  call the script does not reach.  A finished connect asks for the socket's error, whose
  value the script gives, and stops watching.
\<close>

fun io_syscall :: "io_opcode \<Rightarrow> sys_result list \<Rightarrow> io \<Rightarrow> ((int \<times> int) \<times> io) option" where
  "io_syscall op [] io = None"
| "io_syscall op (Sys_ok n # rs) io =
     (let io = (if op = SHUSO_IO_OP_CONNECT \<and> io_watch_type io = SHUSO_IO_WATCH_OP_FINISH
                then shuso_io_ev_watch_update (io\<lparr>io_watch_type := SHUSO_IO_WATCH_NONE\<rparr>) else io);
          (r, io) = transfer op n (io\<lparr>k_script := rs\<rparr>)
      in Some ((int r, 0), io))"
| "io_syscall op (Sys_err e # rs) io =
     (if e = EINTR then
        io_syscall op rs
          (if op = SHUSO_IO_OP_CONNECT \<and> io_watch_type io = SHUSO_IO_WATCH_OP_FINISH
           then shuso_io_ev_watch_update (io\<lparr>io_watch_type := SHUSO_IO_WATCH_NONE\<rparr>) else io)
      else
        (let io = (if op = SHUSO_IO_OP_CONNECT \<and> io_watch_type io = SHUSO_IO_WATCH_OP_FINISH
                   then shuso_io_ev_watch_update (io\<lparr>io_watch_type := SHUSO_IO_WATCH_NONE\<rparr>) else io)
         in Some ((- 1, e), io\<lparr>k_script := rs\<rparr>)))"

text \<open>The assertions in front of the system calls.\<close>

definition io_op_asserts :: "io \<Rightarrow> bool" where
  "io_op_asserts io =
     (case io_opcode io of
        SHUSO_IO_OP_NONE \<Rightarrow> False
      | SHUSO_IO_OP_WRITE \<Rightarrow> io_len io > 0
      | SHUSO_IO_OP_RECVFROM \<Rightarrow> io_has_sockaddr io
      | SHUSO_IO_OP_SENDTO \<Rightarrow> io_has_sockaddr io
      | SHUSO_IO_OP_ACCEPT \<Rightarrow> io_has_sockaddr io
      | SHUSO_IO_OP_CONNECT \<Rightarrow>
          io_fd io = - 1 \<or> io_watch_type io = SHUSO_IO_WATCH_OP_FINISH \<or> io_has_sockaddr io
      | _ \<Rightarrow> True)"

definition io_finish :: "int \<Rightarrow> io \<Rightarrow> io" where
  "io_finish result io =
     (let io = shuso_io_op_cleanup io
      in shuso_io_run_handler (io\<lparr>io_result := io_result io + result\<rparr>))"

definition io_op_outcome :: "int \<times> int \<Rightarrow> io \<Rightarrow> io run" where
  "io_op_outcome res io =
     (let (result, errno) = res; op = io_opcode io;
          io = shuso_io_update_fd_closed_status_from_op_result op result io in
      if result = - 1 then
        (if op = SHUSO_IO_OP_CONNECT \<and> (errno = EAGAIN \<or> errno = EINPROGRESS) then
           Done (shuso_io_ev_watch_update (io\<lparr>io_watch_type := SHUSO_IO_WATCH_OP_FINISH\<rparr>))
         else if errno = EAGAIN then
           Done (shuso_io_ev_watch_update (io\<lparr>io_watch_type := SHUSO_IO_WATCH_OP_RETRY\<rparr>))
         else
           Done (shuso_io_run_handler (shuso_io_op_cleanup (io\<lparr>io_result := - 1, io_error := errno\<rparr>))))
      else if result \<noteq> 0 \<and> io_op_repeat_to_completion io then
        run_bind (shuso_io_op_update_and_check_completion (nat result) io)
          (\<lambda>(complete, io).
             if \<not> complete then
               Done (shuso_io_ev_watch_update
                 (io\<lparr>io_watch_type := SHUSO_IO_WATCH_OP_RETRY, io_result := io_result io + result\<rparr>))
             else Done (io_finish result io))
      else Done (io_finish result io))"

text \<open>\<open>None\<close>: the script of the kernel ends inside the call.\<close>

definition shuso_io_ev_operation :: "io \<Rightarrow> io run option" where
  "shuso_io_ev_operation io =
     (if \<not> io_op_asserts io then Some Abort
      else if io_opcode io = SHUSO_IO_OP_CONNECT \<and> io_fd io = - 1 then
        Some (io_op_outcome (- 1, EBADF) io)
      else
        (case io_syscall (io_opcode io) (k_script io) io of
           None \<Rightarrow> None
         | Some (res, io) \<Rightarrow> Some (io_op_outcome res io)))"

section \<open>Events\<close>

fun ev_opcode_finish_match_event_type :: "io_opcode \<Rightarrow> bool \<times> bool \<Rightarrow> bool run" where
  "ev_opcode_finish_match_event_type SHUSO_IO_OP_CONNECT (rd, wr) = Done wr"
| "ev_opcode_finish_match_event_type _ (rd, wr) = Abort"

definition ev_opcode_retry_match_event_type :: "io_opcode \<Rightarrow> bool \<times> bool \<Rightarrow> bool run" where
  "ev_opcode_retry_match_event_type opcode ev =
     (if opcode = SHUSO_IO_OP_NONE then Abort
      else if is_read_op opcode then Done (fst ev)
      else if is_write_op opcode then Done (snd ev)
      else Done True)"

definition ev_watch_poll_match_event_type :: "io_watch_type \<Rightarrow> bool \<times> bool \<Rightarrow> bool" where
  "ev_watch_poll_match_event_type wt ev =
     (if fst ev then wt = SHUSO_IO_WATCH_POLL_READ \<or> wt = SHUSO_IO_WATCH_POLL_READWRITE
      else if snd ev then wt = SHUSO_IO_WATCH_POLL_WRITE \<or> wt = SHUSO_IO_WATCH_POLL_READWRITE
      else False)"

text \<open>The watcher fires for a descriptor that is readable, writable or both.\<close>

definition shuso_io_ev_watcher_handler :: "bool \<times> bool \<Rightarrow> io \<Rightarrow> io run option" where
  "shuso_io_ev_watcher_handler ev io =
     (case io_watch_type io of
        SHUSO_IO_WATCH_NONE \<Rightarrow> Some Abort
      | SHUSO_IO_WATCH_OP_FINISH \<Rightarrow>
          (case ev_opcode_finish_match_event_type (io_opcode io) ev of
             Abort \<Rightarrow> Some Abort
           | Done match \<Rightarrow> if match then shuso_io_ev_operation io else Some (Done io))
      | SHUSO_IO_WATCH_OP_RETRY \<Rightarrow>
          (case ev_opcode_retry_match_event_type (io_opcode io) ev of
             Abort \<Rightarrow> Some Abort
           | Done match \<Rightarrow>
               if match then shuso_io_ev_operation (io\<lparr>io_watch_type := SHUSO_IO_WATCH_NONE\<rparr>)
               else Some (Done io))
      | _ \<Rightarrow>
          if ev_watch_poll_match_event_type (io_watch_type io) ev
          then Some (Done (shuso_io_run_handler (io\<lparr>io_watch_type := SHUSO_IO_WATCH_NONE\<rparr>)))
          else Some (Done io))"

section \<open>Starting operations\<close>

text \<open>
  What an operation starts with: an iovec array, a message header with its iovec array, a
  socket address buffer, or a byte buffer.  Clearing \<^verbatim>\<open>incomplete_temporary_iovec\<close> also clears
  the flags it shares its memory with.
\<close>

datatype io_init =
    Init_iov "iovec list" nat
  | Init_msg "iovec list" nat
  | Init_sockaddr int
  | Init_buf addr int

definition sizeof_sockaddr :: int where
  "sizeof_sockaddr = 112"

definition io_op_run_new :: "io_opcode \<Rightarrow> io_init \<Rightarrow> bool \<Rightarrow> io \<Rightarrow> io run option" where
  "io_op_run_new opcode init partial io =
     (let io = io\<lparr>io_result := 0, io_error := 0, io_op_again := False, io_opcode := opcode\<rparr>;
          start = (\<lambda>io. shuso_io_ev_operation (io\<lparr>io_op_repeat_to_completion := \<not> partial\<rparr>))
      in case init of
           Init_iov iov n \<Rightarrow> start (io\<lparr>io_iov := iov, io_iovcnt := n, io_original := False, io_tmp := 0\<rparr>)
         | Init_msg iov n \<Rightarrow> start (io\<lparr>io_iov := iov, io_iovcnt := n, io_len := 0, io_original := False, io_tmp := 0\<rparr>)
         | Init_sockaddr len \<Rightarrow>
             if len = sizeof_sockaddr then start (io\<lparr>io_has_sockaddr := True, io_len := len\<rparr>) else Some Abort
         | Init_buf buf len \<Rightarrow> start (io\<lparr>io_buf := buf, io_len := len\<rparr>))"

definition shuso_io_connect :: "io \<Rightarrow> io run option" where
  "shuso_io_connect io = io_op_run_new SHUSO_IO_OP_CONNECT (Init_buf 0 0) False io"

definition shuso_io_close :: "io \<Rightarrow> io run option" where
  "shuso_io_close io = io_op_run_new SHUSO_IO_OP_CLOSE (Init_buf 0 0) False io"

text \<open>\<^verbatim>\<open>SHUT_RD\<close>, \<^verbatim>\<open>SHUT_WR\<close> and \<^verbatim>\<open>SHUT_RDWR\<close> are 0, 1 and 2; the opcode is the one of close.\<close>

definition shuso_io_shutdown :: "bool \<Rightarrow> bool \<Rightarrow> io \<Rightarrow> io run option" where
  "shuso_io_shutdown rd wr io =
     (let how = (if rd \<and> wr then 2 else if rd then 0 else if wr then 1 else 0)
      in io_op_run_new SHUSO_IO_OP_CLOSE (Init_buf 0 how) False io)"

definition shuso_io_accept :: "int \<Rightarrow> io \<Rightarrow> io run option" where
  "shuso_io_accept len io =
     (if len = sizeof_sockaddr then io_op_run_new SHUSO_IO_OP_ACCEPT (Init_sockaddr len) False io
      else Some Abort)"

text \<open>The transfers; \<open>partial\<close> is the \<^verbatim>\<open>_partial\<close> variant.\<close>

definition shuso_io_writev :: "bool \<Rightarrow> iovec list \<Rightarrow> nat \<Rightarrow> io \<Rightarrow> io run option" where
  "shuso_io_writev partial iov iovcnt io = io_op_run_new SHUSO_IO_OP_WRITEV (Init_iov iov iovcnt) partial io"

definition shuso_io_readv :: "bool \<Rightarrow> iovec list \<Rightarrow> nat \<Rightarrow> io \<Rightarrow> io run option" where
  "shuso_io_readv partial iov iovcnt io = io_op_run_new SHUSO_IO_OP_READV (Init_iov iov iovcnt) partial io"

definition shuso_io_sendto :: "bool \<Rightarrow> addr \<Rightarrow> int \<Rightarrow> bool \<Rightarrow> nat \<Rightarrow> io \<Rightarrow> io run option" where
  "shuso_io_sendto partial buf len to flags io =
     io_op_run_new SHUSO_IO_OP_SENDTO (Init_buf buf len) partial (io\<lparr>io_tmp := flags, io_has_sockaddr := to\<rparr>)"

definition shuso_io_recvfrom :: "bool \<Rightarrow> addr \<Rightarrow> int \<Rightarrow> bool \<Rightarrow> nat \<Rightarrow> io \<Rightarrow> io run option" where
  "shuso_io_recvfrom partial buf len from flags io =
     io_op_run_new SHUSO_IO_OP_RECVFROM (Init_buf buf len) partial (io\<lparr>io_tmp := flags, io_has_sockaddr := from\<rparr>)"

definition shuso_io_send :: "bool \<Rightarrow> addr \<Rightarrow> int \<Rightarrow> nat \<Rightarrow> io \<Rightarrow> io run option" where
  "shuso_io_send partial buf len flags io =
     io_op_run_new SHUSO_IO_OP_SEND (Init_buf buf len) partial (io\<lparr>io_tmp := flags\<rparr>)"

definition shuso_io_recv :: "bool \<Rightarrow> addr \<Rightarrow> int \<Rightarrow> nat \<Rightarrow> io \<Rightarrow> io run option" where
  "shuso_io_recv partial buf len flags io =
     io_op_run_new SHUSO_IO_OP_RECV (Init_buf buf len) partial (io\<lparr>io_tmp := flags\<rparr>)"

definition shuso_io_write :: "bool \<Rightarrow> addr \<Rightarrow> int \<Rightarrow> io \<Rightarrow> io run option" where
  "shuso_io_write partial buf len io = io_op_run_new SHUSO_IO_OP_WRITE (Init_buf buf len) partial io"

definition shuso_io_read :: "bool \<Rightarrow> addr \<Rightarrow> int \<Rightarrow> io \<Rightarrow> io run option" where
  "shuso_io_read partial buf len io = io_op_run_new SHUSO_IO_OP_READ (Init_buf buf len) partial io"

definition shuso_io_sendmsg :: "iovec list \<Rightarrow> nat \<Rightarrow> nat \<Rightarrow> io \<Rightarrow> io run option" where
  "shuso_io_sendmsg iov iovlen flags io =
     io_op_run_new SHUSO_IO_OP_SENDMSG (Init_msg iov iovlen) False (io\<lparr>io_tmp := flags\<rparr>)"

definition shuso_io_recvmsg :: "iovec list \<Rightarrow> nat \<Rightarrow> nat \<Rightarrow> io \<Rightarrow> io run option" where
  "shuso_io_recvmsg iov iovlen flags io =
     io_op_run_new SHUSO_IO_OP_RECVMSG (Init_msg iov iovlen) False (io\<lparr>io_tmp := flags\<rparr>)"

section \<open>Stopping and waiting\<close>

definition shuso_io_abort :: "io \<Rightarrow> io" where
  "shuso_io_abort io =
     shuso_io_ev_watch_update
       ((shuso_io_op_cleanup io)\<lparr>io_watch_type := SHUSO_IO_WATCH_NONE, io_error := ECANCELED, io_result := - 1\<rparr>)"

definition shuso_io_stop :: "io \<Rightarrow> io" where
  "shuso_io_stop io =
     (if io_watch_type io = SHUSO_IO_WATCH_NONE then shuso_io_abort io
      else
        (let io = io\<lparr>io_watch_type := SHUSO_IO_WATCH_NONE, io_result := - 1, io_error := ECANCELED\<rparr>
         in shuso_io_abort
              (io\<lparr>handler_calls := handler_calls io @ [(False, io_result io, io_error io)]\<rparr>)))"

definition shuso_io_suspend :: "io \<Rightarrow> io" where
  "shuso_io_suspend io =
     shuso_io_ev_watch_update (io\<lparr>io_opcode := SHUSO_IO_OP_NONE, io_watch_type := SHUSO_IO_WATCH_NONE\<rparr>)"

definition shuso_io_wait :: "bool \<Rightarrow> bool \<Rightarrow> io \<Rightarrow> io" where
  "shuso_io_wait rd wr io =
     (let io = (if rd \<and> wr then io\<lparr>io_watch_type := SHUSO_IO_WATCH_POLL_READWRITE\<rparr>
                else if rd then io\<lparr>io_watch_type := SHUSO_IO_WATCH_POLL_READ\<rparr>
                else if wr then io\<lparr>io_watch_type := SHUSO_IO_WATCH_POLL_WRITE\<rparr>
                else io)
      in shuso_io_ev_watch_update (io\<lparr>io_error := 0, io_result := 0\<rparr>))"

definition shuso_io_resume_buf :: "addr \<Rightarrow> int \<Rightarrow> io \<Rightarrow> io" where
  "shuso_io_resume_buf buf len io = shuso_io_run_handler (io\<lparr>io_buf := buf, io_len := len\<rparr>)"

section \<open>An operation driven by the event loop\<close>

text \<open>
  As long as the operation is to be retried and the kernel has something to say, the
  descriptor becomes readable and writable and the watcher fires.  Every round uses up
  some of the script; the first argument bounds the rounds, and the length of the script is
  enough.
\<close>

fun io_drive :: "nat \<Rightarrow> io \<Rightarrow> io run option" where
  "io_drive 0 io = Some (Done io)"
| "io_drive (Suc n) io =
     (if io_watch_type io = SHUSO_IO_WATCH_OP_RETRY \<and> k_script io \<noteq> [] then
        (case shuso_io_ev_watcher_handler (True, True) io of
           None \<Rightarrow> None
         | Some Abort \<Rightarrow> Some Abort
         | Some (Done io) \<Rightarrow> io_drive n io)
      else Some (Done io))"

text \<open>An operation and what the event loop then makes of it.\<close>

definition io_run :: "nat \<Rightarrow> io run option \<Rightarrow> io run option" where
  "io_run n r = (case r of Some (Done io) \<Rightarrow> io_drive n io | _ \<Rightarrow> r)"

section \<open>Buffer writes run to completion\<close>

definition buf_write_op :: "io_opcode \<Rightarrow> bool" where
  "buf_write_op op \<longleftrightarrow> is_write_op op \<and> \<not> is_iovec_op op"

text \<open>A kernel that only ever transfers something, is interrupted or asks to try again.\<close>

fun good_result :: "sys_result \<Rightarrow> bool" where
  "good_result (Sys_ok n) \<longleftrightarrow> 0 < n"
| "good_result (Sys_err e) \<longleftrightarrow> e = EINTR \<or> e = EAGAIN"

fun ok_total :: "sys_result list \<Rightarrow> nat" where
  "ok_total [] = 0"
| "ok_total (Sys_ok n # rs) = n + ok_total rs"
| "ok_total (Sys_err e # rs) = ok_total rs"

text \<open>An operation on \<open>len\<close> bytes at \<open>buf\<close>, of which \<open>sent\<close> are done, about to be tried.\<close>

definition writing :: "io \<Rightarrow> addr \<Rightarrow> nat \<Rightarrow> nat \<Rightarrow> 8 word list \<Rightarrow> (bool \<times> int \<times> int) list \<Rightarrow> bool" where
  "writing io buf len sent out calls \<longleftrightarrow>
     buf_write_op (io_opcode io) \<and> (io_opcode io = SHUSO_IO_OP_SENDTO \<longrightarrow> io_has_sockaddr io) \<and>
     io_op_repeat_to_completion io \<and> io_watch_type io = SHUSO_IO_WATCH_NONE \<and>
     sent < len \<and> io_buf io = buf + sent \<and> io_len io = int len - int sent \<and>
     io_result io = int sent \<and> io_error io = 0 \<and> handler_calls io = calls \<and>
     k_out io = out @ map (mem io) [buf..<buf + sent]"

definition written :: "io \<Rightarrow> io \<Rightarrow> addr \<Rightarrow> nat \<Rightarrow> 8 word list \<Rightarrow> (bool \<times> int \<times> int) list \<Rightarrow> bool" where
  "written io0 io buf len out calls \<longleftrightarrow>
     handler_calls io = calls @ [(False, int len, 0)] \<and> k_out io = out @ map (mem io0) [buf..<buf + len] \<and>
     io_watch_type io = SHUSO_IO_WATCH_NONE \<and> \<not> io_watcher_active io \<and> mem io = mem io0"

lemma buf_write_op_iff:
  "buf_write_op op \<longleftrightarrow> op = SHUSO_IO_OP_WRITE \<or> op = SHUSO_IO_OP_SENDTO \<or> op = SHUSO_IO_OP_SEND"
  by (cases op) (simp_all add: buf_write_op_def)

lemma watch_update_sel [simp]:
  "io_opcode (shuso_io_ev_watch_update io) = io_opcode io" "io_buf (shuso_io_ev_watch_update io) = io_buf io"
  "io_len (shuso_io_ev_watch_update io) = io_len io" "io_result (shuso_io_ev_watch_update io) = io_result io"
  "io_error (shuso_io_ev_watch_update io) = io_error io" "mem (shuso_io_ev_watch_update io) = mem io"
  "handler_calls (shuso_io_ev_watch_update io) = handler_calls io" "k_out (shuso_io_ev_watch_update io) = k_out io"
  "k_script (shuso_io_ev_watch_update io) = k_script io" "io_has_sockaddr (shuso_io_ev_watch_update io) = io_has_sockaddr io"
  "io_watch_type (shuso_io_ev_watch_update io) = io_watch_type io"
  "io_op_repeat_to_completion (shuso_io_ev_watch_update io) = io_op_repeat_to_completion io"
  "io_watcher_active (shuso_io_ev_watch_update io) = (io_watch_type io \<noteq> SHUSO_IO_WATCH_NONE)"
  by (auto simp: shuso_io_ev_watch_update_def)

lemma run_handler_ok:
  assumes "io_result io \<noteq> - 1"
  shows "shuso_io_run_handler io =
    shuso_io_ev_watch_update (io\<lparr>handler_calls := handler_calls io @ [(False, io_result io, io_error io)]\<rparr>)"
  using assms by (simp add: shuso_io_run_handler_def)

text \<open>One system call that transfers \<open>n\<close> bytes.\<close>

lemma writing_ok_outcome:
  assumes w: "writing io buf len sent out calls" and n: "0 < n"
    and t: "transfer (io_opcode io) n (io\<lparr>k_script := rs\<rparr>) = (r, io1)"
  shows "r = min n (len - sent)"
    "sent + r = len \<Longrightarrow> \<exists>io2. io_op_outcome (int r, 0) io1 = Done io2 \<and> written io io2 buf len out calls"
    "sent + r < len \<Longrightarrow> \<exists>io2. io_op_outcome (int r, 0) io1 = Done io2 \<and> mem io2 = mem io \<and> k_script io2 = rs \<and>
      io_watch_type io2 = SHUSO_IO_WATCH_OP_RETRY \<and>
      writing (io2\<lparr>io_watch_type := SHUSO_IO_WATCH_NONE\<rparr>) buf len (sent + r) out calls"
proof -
  have op: "is_write_op (io_opcode io)" "\<not> is_iovec_op (io_opcode io)" "\<not> is_read_op (io_opcode io)"
    using w by (auto simp: writing_def buf_write_op_def elim: is_write_op.elims)
  have bytes: "iovec_bytes (mem io) [(io_buf io, nat (io_len io))] = map (mem io) [buf + sent..<buf + len]"
  proof -
    have "nat (io_len io) = len - sent" "io_buf io = buf + sent" "buf + sent + (len - sent) = buf + len"
      using w by (auto simp: writing_def)
    then show ?thesis by (simp only: iovec_bytes_def list.map prod.case concat.simps append_Nil2)
  qed
  show r: "r = min n (len - sent)"
    using t op bytes by (auto simp: transfer_def Let_def)
  have taken: "take n (map (mem io) [buf + sent..<buf + len]) = map (mem io) [buf + sent..<buf + sent + r]"
  proof (cases "n \<le> len - sent")
    case True
    then have "buf + sent + n \<le> buf + len" using w by (auto simp: writing_def)
    then show ?thesis using True by (simp add: r take_map take_upt)
  qed (use w in \<open>simp add: r writing_def\<close>)
  have io1: "io1 = io\<lparr>k_script := rs, k_out := k_out io @ map (mem io) [buf + sent..<buf + sent + r]\<rparr>"
    using t op bytes taken by (auto simp: transfer_def Let_def)
  have out: "k_out io @ map (mem io) [buf + sent..<buf + sent + r] = out @ map (mem io) [buf..<buf + (sent + r)]"
  proof -
    have "[buf..<buf + sent + r] = [buf..<buf + sent] @ [buf + sent..<buf + sent + r]"
      by (rule upt_add_eq_append) simp
    then show ?thesis using w by (simp add: writing_def add.assoc)
  qed
  have r0: "0 < r" "r \<le> len - sent" using n w by (auto simp: r writing_def)
  let ?io = "io1\<lparr>io_closed_write := False\<rparr>"
  let ?io2 = "?io\<lparr>io_buf := io_buf io + r, io_len := int len - int sent - int r\<rparr>"
  have upd: "shuso_io_op_update_and_check_completion r ?io = Done (sent + r = len, ?io2)"
  proof -
    have "0 \<le> int len - int sent - int r" "(int len - int sent - int r = 0) = (sent + r = len)"
      using r0 w by (auto simp: writing_def)
    moreover have "io_len io = int len - int sent" using w by (simp add: writing_def)
    moreover have "io_opcode io = SHUSO_IO_OP_WRITE \<or> io_opcode io = SHUSO_IO_OP_SENDTO \<or> io_opcode io = SHUSO_IO_OP_SEND"
      using w by (simp add: writing_def buf_write_op_iff)
    ultimately show ?thesis
      by (elim disjE) (simp_all add: shuso_io_op_update_and_check_completion_def io1 c_assert_def)
  qed
  have outcome: "io_op_outcome (int r, 0) io1 = (if sent + r \<noteq> len
      then Done (shuso_io_ev_watch_update (?io2\<lparr>io_watch_type := SHUSO_IO_WATCH_OP_RETRY, io_result := io_result io + int r\<rparr>))
      else Done (io_finish (int r) ?io2))"
    using upd op r0 w
    by (auto simp: io_op_outcome_def Let_def shuso_io_update_fd_closed_status_from_op_result_def io1 writing_def)
  show "\<exists>io2. io_op_outcome (int r, 0) io1 = Done io2 \<and> written io io2 buf len out calls" if eq: "sent + r = len"
  proof -
    have "io_finish (int r) ?io2 = shuso_io_ev_watch_update (?io2\<lparr>io_result := int len,
        handler_calls := calls @ [(False, int len, 0)]\<rparr>)"
    proof -
      have "int sent + int r = int len" "io_result io = int sent" "handler_calls io = calls" "io_error io = 0"
        using eq w by (auto simp: writing_def)
      then show ?thesis using op by (simp add: io_finish_def Let_def shuso_io_op_cleanup_def io1 run_handler_ok)
    qed
    then show ?thesis using outcome eq w out by (simp add: written_def io1 writing_def)
  qed
  show "\<exists>io2. io_op_outcome (int r, 0) io1 = Done io2 \<and> mem io2 = mem io \<and> k_script io2 = rs \<and>
      io_watch_type io2 = SHUSO_IO_WATCH_OP_RETRY \<and>
      writing (io2\<lparr>io_watch_type := SHUSO_IO_WATCH_NONE\<rparr>) buf len (sent + r) out calls" if lt: "sent + r < len"
    using outcome lt w out by (simp add: writing_def io1)
qed

text \<open>The script in the state is replaced by what the call leaves of it.\<close>

lemma syscall_script:
  "op \<noteq> SHUSO_IO_OP_CONNECT \<Longrightarrow> io_syscall op rs (io\<lparr>k_script := ss\<rparr>) = io_syscall op rs io"
  by (induction op rs io rule: io_syscall.induct) simp_all

lemma io_op_asserts_script [simp]: "io_op_asserts (io\<lparr>k_script := ss\<rparr>) = io_op_asserts io"
  by (cases "io_opcode io") (simp_all add: io_op_asserts_def)

lemma io_run_retry:
  assumes "io_watch_type io = SHUSO_IO_WATCH_OP_RETRY" and "k_script io \<noteq> []"
    and "buf_write_op (io_opcode io)"
  shows "io_drive (Suc n) io = io_run n (shuso_io_ev_operation (io\<lparr>io_watch_type := SHUSO_IO_WATCH_NONE\<rparr>))"
proof -
  have "shuso_io_ev_watcher_handler (True, True) io = shuso_io_ev_operation (io\<lparr>io_watch_type := SHUSO_IO_WATCH_NONE\<rparr>)"
    using assms
    by (auto simp: buf_write_op_iff shuso_io_ev_watcher_handler_def ev_opcode_retry_match_event_type_def)
  then show ?thesis using assms(1,2) by (simp add: io_run_def split: option.splits run.splits)
qed

lemma writing_completes:
  assumes "writing io buf len sent out calls" and "k_script io = rs" and "\<forall>r \<in> set rs. good_result r"
    and "len - sent \<le> ok_total rs" and "length rs \<le> n"
  shows "\<exists>io'. io_run n (shuso_io_ev_operation io) = Some (Done io') \<and> written io io' buf len out calls"
  using assms
proof (induction "length rs" arbitrary: io rs sent n rule: less_induct)
  case less
  let ?op = "io_opcode io"
  have w: "writing io buf len sent out calls" by (rule less.prems(1))
  have op: "buf_write_op ?op" "?op \<noteq> SHUSO_IO_OP_CONNECT" "io_op_asserts io"
    using w by (auto simp: buf_write_op_iff writing_def io_op_asserts_def)
  have ev: "shuso_io_ev_operation io = (case io_syscall ?op rs io of None \<Rightarrow> None
      | Some (res, io) \<Rightarrow> Some (io_op_outcome res io))"
    using op less.prems(2) by (simp add: shuso_io_ev_operation_def)
  have pos: "0 < len - sent" using w by (auto simp: writing_def)
  obtain x rs' where rs: "rs = x # rs'" using less.prems(4) pos by (cases rs) auto
  have go_on: ?case if y: "shuso_io_ev_operation io = Some (Done y)" "k_script y = rs''" "mem y = mem io"
      "io_watch_type y = SHUSO_IO_WATCH_OP_RETRY"
      "writing (y\<lparr>io_watch_type := SHUSO_IO_WATCH_NONE\<rparr>) buf len sent' out calls"
      "length rs'' < length rs" "\<forall>r \<in> set rs''. good_result r" "len - sent' \<le> ok_total rs''" for y rs'' sent'
  proof -
    have ne: "rs'' \<noteq> []" using y(5,8) by (auto simp: writing_def)
    obtain m where m: "n = Suc m" "length rs'' \<le> m" using less.prems(5) y(6) by (cases n) auto
    have "io_run n (shuso_io_ev_operation io) =
        io_run m (shuso_io_ev_operation (y\<lparr>io_watch_type := SHUSO_IO_WATCH_NONE\<rparr>))"
      using y m io_run_retry [of y m] ne by (simp add: io_run_def writing_def)
    then show ?thesis
      using less.hyps [OF y(6) y(5) _ y(7,8) m(2)] y(2,3) by (simp add: written_def)
  qed
  show ?case
  proof (cases x)
    case (Sys_ok k)
    obtain r io1 where t: "transfer ?op k (io\<lparr>k_script := rs'\<rparr>) = (r, io1)" by fastforce
    have "shuso_io_ev_operation io = Some (io_op_outcome (int r, 0) io1)"
      using ev rs Sys_ok t op(2) by simp
    moreover note out = writing_ok_outcome [OF w _ t]
    have k: "0 < k" using less.prems(3) rs Sys_ok by simp
    have "sent + r = len \<or> sent + r < len" using out(1) [OF k] w by (auto simp: writing_def)
    ultimately show ?thesis
    proof (elim disjE)
      assume op1: "shuso_io_ev_operation io = Some (io_op_outcome (int r, 0) io1)" and "sent + r = len"
      then obtain io2 where io2: "io_op_outcome (int r, 0) io1 = Done io2" "written io io2 buf len out calls"
        using out(2) k by blast
      then have "io_drive n io2 = Some (Done io2)" by (cases n) (simp_all add: written_def)
      then show ?thesis using op1 io2 by (simp add: io_run_def)
    next
      assume op1: "shuso_io_ev_operation io = Some (io_op_outcome (int r, 0) io1)" and lt: "sent + r < len"
      then obtain io2 where io2: "io_op_outcome (int r, 0) io1 = Done io2" "mem io2 = mem io" "k_script io2 = rs'"
        "io_watch_type io2 = SHUSO_IO_WATCH_OP_RETRY"
        "writing (io2\<lparr>io_watch_type := SHUSO_IO_WATCH_NONE\<rparr>) buf len (sent + r) out calls"
        using out(3) k by blast
      have "len - (sent + r) \<le> ok_total rs'" using less.prems(4) rs Sys_ok out(1) [OF k] by auto
      then show ?thesis using go_on [of io2 rs' "sent + r"] op1 io2 less.prems(3) rs by simp
    qed
  next
    case (Sys_err e)
    then have "e = EINTR \<or> e = EAGAIN" using less.prems(3) rs by simp
    then show ?thesis
    proof
      assume e: "e = EINTR"
      let ?io = "io\<lparr>k_script := rs'\<rparr>"
      have "writing ?io buf len sent out calls" using w by (simp add: writing_def)
      then have "\<exists>io'. io_run n (shuso_io_ev_operation ?io) = Some (Done io') \<and> written ?io io' buf len out calls"
        using less.prems(3-5) rs Sys_err by (intro less.hyps [of rs']) auto
      moreover have "shuso_io_ev_operation ?io = shuso_io_ev_operation io"
        using op rs Sys_err e less.prems(2) syscall_script [where op = ?op and rs = rs' and ss = rs' and io = io]
        by (simp add: shuso_io_ev_operation_def)
      ultimately show ?thesis by (simp add: written_def)
    next
      assume e: "e = EAGAIN"
      let ?y = "shuso_io_ev_watch_update (io\<lparr>k_script := rs', io_closed_write := False, io_watch_type := SHUSO_IO_WATCH_OP_RETRY\<rparr>)"
      have "\<not> is_read_op ?op" using op(1) by (auto simp: buf_write_op_iff)
      then have "shuso_io_ev_operation io = Some (Done ?y)"
        using ev rs Sys_err e op by (simp add: io_op_outcome_def Let_def buf_write_op_def
            shuso_io_update_fd_closed_status_from_op_result_def)
      moreover have "writing (?y\<lparr>io_watch_type := SHUSO_IO_WATCH_NONE\<rparr>) buf len sent out calls"
        using w by (simp add: writing_def)
      ultimately show ?thesis using go_on [of ?y rs' sent] less.prems(3,4) rs Sys_err by simp
    qed
  qed
qed

section \<open>Properties\<close>

text \<open>C13: A buffer write runs to completion.  Whatever way the kernel splits \<^verbatim>\<open>shuso_io_write\<close>
  into short writes, interruptions and "try again", once it has taken enough bytes the
  handler has been called exactly once, with the full length and no error, the kernel has
  received exactly the bytes of the buffer in order, and the watcher is stopped.\<close>

theorem io_write_completes:
  assumes "io_watch_type io = SHUSO_IO_WATCH_NONE" and "0 < len"
    and "\<forall>r \<in> set (k_script io). good_result r" and "len \<le> ok_total (k_script io)"
  shows "\<exists>io'. io_run (length (k_script io)) (shuso_io_write False buf (int len) io) = Some (Done io') \<and>
    handler_calls io' = handler_calls io @ [(False, int len, 0)] \<and>
    k_out io' = k_out io @ map (mem io) [buf..<buf + len] \<and> \<not> io_watcher_active io'"
proof -
  let ?io = "io\<lparr>io_result := 0, io_error := 0, io_op_again := False, io_opcode := SHUSO_IO_OP_WRITE,
    io_buf := buf, io_len := int len, io_op_repeat_to_completion := True\<rparr>"
  have "writing ?io buf len 0 (k_out io) (handler_calls io)"
    using assms(1,2) by (simp add: writing_def buf_write_op_def)
  then obtain io' where "io_run (length (k_script io)) (shuso_io_ev_operation ?io) = Some (Done io')"
    "written ?io io' buf len (k_out io) (handler_calls io)"
    using writing_completes [of ?io buf len 0 "k_out io" "handler_calls io" "k_script io" "length (k_script io)"]
      assms(3,4) by auto
  then show ?thesis by (auto simp: shuso_io_write_def io_op_run_new_def Let_def written_def)
qed

definition example_io :: "sys_result list \<Rightarrow> io" where
  "example_io rs = \<lparr>io_fd = 5, io_has_sockaddr = False, io_buf = 0, io_len = 0, io_iov = [], io_iovcnt = 0,
     io_original = False, io_tmp = 0, io_result = 0, io_error = 0, io_has_error_handler = False,
     io_handler_stage = 0, io_closed_read = False, io_closed_write = False, io_opcode = SHUSO_IO_OP_NONE,
     io_watch_type = SHUSO_IO_WATCH_NONE, io_op_again = False, io_op_repeat_to_completion = False,
     io_watcher_active = False, handler_calls = [], mem = (\<lambda>a. of_nat a), k_script = rs, k_in = [],
     k_out = [], k_malloc = 9000, k_freed = []\<rparr>"

theorem io_write_completes_witness:
  "\<exists>io'. io_run 5 (shuso_io_write False 100 4 (example_io [Sys_err EAGAIN, Sys_ok 1, Sys_err EINTR, Sys_ok 2, Sys_ok 7])) =
      Some (Done io') \<and> handler_calls io' = [(False, 4, 0)] \<and> k_out io' = [100, 101, 102, 103] \<and>
    \<not> io_watcher_active io'"
proof -
  let ?io = "example_io [Sys_err EAGAIN, Sys_ok 1, Sys_err EINTR, Sys_ok 2, Sys_ok 7]"
  have len: "length (k_script ?io) = 5" by (simp add: example_io_def)
  have out: "map (mem ?io) [100..<100 + 4] = [100, 101, 102, 103]" by (simp add: example_io_def upt_conv_Cons)
  show ?thesis
    using io_write_completes [of ?io 4 100] unfolding len out by (simp add: example_io_def)
qed

text \<open>A vectored write that stops exactly between two buffers is reported as complete.  The
  handler runs with the short count and no error and the remaining buffers are never
  written, although \<^verbatim>\<open>shuso_io_writev\<close> is the variant that runs to completion.\<close>

theorem writev_boundary_drops_rest:
  assumes "k_script io = Sys_ok m # rs" and "0 < m"
  shows "\<exists>io'. shuso_io_writev False [(a, m), (b, n)] 2 io = Some (Done io') \<and>
    handler_calls io' = handler_calls io @ [(False, int m, 0)] \<and> k_out io' = k_out io @ map (mem io) [a..<a + m]"
  using assms
  by (simp add: shuso_io_writev_def io_op_run_new_def Let_def shuso_io_ev_operation_def io_op_asserts_def
      transfer_def iovec_bytes_def io_op_outcome_def shuso_io_update_fd_closed_status_from_op_result_def
      shuso_io_op_update_and_check_completion_def io_iovec_op_update_and_check_completion_def io_finish_def
      shuso_io_op_cleanup_def run_handler_ok)

theorem writev_boundary_drops_rest_witness:
  "\<exists>io'. shuso_io_writev False [(100, 3), (200, 5)] 2 (example_io [Sys_ok 3]) = Some (Done io') \<and>
    handler_calls io' = handler_calls (example_io [Sys_ok 3]) @ [(False, int 3, 0)] \<and>
    k_out io' = k_out (example_io [Sys_ok 3]) @ map (mem (example_io [Sys_ok 3])) [100..<100 + 3]"
  by (rule writev_boundary_drops_rest) (simp_all add: example_io_def)

text \<open>
  A short vectored write that ends inside the second buffer overruns the copy of the
  iovec array.
\<close>

lemma writev_copy_overruns:
  assumes "k_script io = Sys_ok (m + k) # rs" and "0 < m" and "0 < k" and "k < n" and "k_malloc io \<noteq> 0"
  shows "shuso_io_writev False [(a, m), (b, n)] 2 io = Some Abort"
proof -
  have "take (m + k - m) [b..<b + n] = [b..<b + k]" using assms(4) by (simp add: take_upt)
  moreover have "nat (int m + int k) = m + k" by simp
  ultimately show ?thesis using assms
    by (simp add: shuso_io_writev_def io_op_run_new_def Let_def shuso_io_ev_operation_def io_op_asserts_def
        transfer_def iovec_bytes_def io_op_outcome_def shuso_io_update_fd_closed_status_from_op_result_def
        shuso_io_op_update_and_check_completion_def io_iovec_op_update_and_check_completion_def
        io_iovec_update_on_incomplete_op_def take_map)
qed

text \<open>
  A vectored write that is cut short twice inside the same buffer sends bytes again: the
  second time the shortened iovec is not shortened further.
\<close>

lemma writev_twice_short_repeats:
  "\<exists>io'. io_run (Suc (Suc (Suc 0))) (shuso_io_writev False [(100, 3)] 1 (example_io [Sys_ok 1, Sys_ok 1, Sys_ok 2])) = Some (Done io') \<and>
    handler_calls io' = [(False, 4, 0)] \<and> k_out io' = [100, 101, 101, 102]"
  by (simp add: shuso_io_writev_def io_op_run_new_def Let_def shuso_io_ev_operation_def io_op_asserts_def
      transfer_def iovec_bytes_def io_op_outcome_def shuso_io_update_fd_closed_status_from_op_result_def
      shuso_io_op_update_and_check_completion_def io_iovec_op_update_and_check_completion_def
      io_iovec_update_on_incomplete_op_def example_io_def io_run_def
      shuso_io_ev_watch_update_def shuso_io_ev_watcher_handler_def ev_opcode_retry_match_event_type_def
      io_finish_def shuso_io_op_cleanup_def shuso_io_run_handler_def)

text \<open>\<^verbatim>\<open>shuso_io_shutdown\<close> runs the close operation.\<close>

lemma io_shutdown_closes: "shuso_io_shutdown True False io = shuso_io_close io"
  by (simp add: shuso_io_shutdown_def shuso_io_close_def)

text \<open>The flags given to \<^verbatim>\<open>shuso_io_sendmsg\<close> are lost before the system call.\<close>

lemma sendmsg_flags_lost: "shuso_io_sendmsg iov n flags io = shuso_io_sendmsg iov n 0 io"
  by (cases io) (simp add: shuso_io_sendmsg_def io_op_run_new_def Let_def)

text \<open>Stopping an operation cancels it cleanly: a watched operation's handler is called once
  with \<^verbatim>\<open>ECANCELED\<close>, afterwards nothing is watched, and a temporary iovec copy is freed.\<close>

theorem io_stop_cancels:
  "\<not> io_watcher_active (shuso_io_stop io) \<and> io_watch_type (shuso_io_stop io) = SHUSO_IO_WATCH_NONE \<and>
   io_error (shuso_io_stop io) = ECANCELED \<and> io_result (shuso_io_stop io) = - 1 \<and>
   handler_calls (shuso_io_stop io) = handler_calls io @
     (if io_watch_type io = SHUSO_IO_WATCH_NONE then [] else [(False, - 1, ECANCELED)]) \<and>
   k_freed (shuso_io_stop io) = k_freed io @
     (if is_iovec_op (io_opcode io) \<and> io_tmp io \<noteq> 0 then [io_tmp io] else [])"
  by (simp add: shuso_io_stop_def shuso_io_abort_def Let_def shuso_io_op_cleanup_def shuso_io_ev_watch_update_def)

end
