(* ===== verification/Slab.thy ===== *)
theory Slab
  imports Shuso_Interfaces
begin

text \<open>
  The shared memory slab allocator of \<^verbatim>\<open>shared_slab.c\<close>: an array of page descriptors, a
  circular list of free runs of pages, and one circular list of partly used pages for
  every chunk size from 8 to 2048 bytes.  The machine is 64-bit with pages of 4096 bytes.
  Every operation runs with the mutex of the pool held, so operations are sequential.
\<close>

unbundle bit_operations_syntax

section \<open>Sizes\<close>

definition ngx_pagesize :: nat where "ngx_pagesize = 4096"

definition ngx_pagesize_shift :: nat where "ngx_pagesize_shift = 12"

text \<open>The loop \<^verbatim>\<open>for (n = x; n >>= 1; shift++)\<close>.\<close>

fun shift_count :: "nat \<Rightarrow> nat \<Rightarrow> nat" where
  "shift_count n shift = (if n div 2 = 0 then shift else shift_count (n div 2) (shift + 1))"

declare shift_count.simps [simp del]

record slab_sizes =
  shared_slab_initialized :: bool
  shared_slab_max_size :: nat
  shared_slab_exact_size :: nat
  shared_slab_exact_shift :: nat

definition slab_sizes_zero :: slab_sizes where
  "slab_sizes_zero = \<lparr>shared_slab_initialized = False, shared_slab_max_size = 0,
     shared_slab_exact_size = 0, shared_slab_exact_shift = 0\<rparr>"

definition shuso_shared_slab_sizes_init :: "nat \<Rightarrow> slab_sizes \<Rightarrow> slab_sizes" where
  "shuso_shared_slab_sizes_init pagesize z =
     (if shared_slab_initialized z then z
      else \<lparr>shared_slab_initialized = True, shared_slab_max_size = pagesize div 2,
            shared_slab_exact_size = pagesize div (8 * 8),
            shared_slab_exact_shift =
              shift_count (pagesize div (8 * 8)) (shared_slab_exact_shift z)\<rparr>)"

text \<open>The globals after initialisation.\<close>

definition ngx_slab_max_size :: nat where
  "ngx_slab_max_size = shared_slab_max_size (shuso_shared_slab_sizes_init ngx_pagesize slab_sizes_zero)"

definition ngx_slab_exact_size :: nat where
  "ngx_slab_exact_size = shared_slab_exact_size (shuso_shared_slab_sizes_init ngx_pagesize slab_sizes_zero)"

definition ngx_slab_exact_shift :: nat where
  "ngx_slab_exact_shift = shared_slab_exact_shift (shuso_shared_slab_sizes_init ngx_pagesize slab_sizes_zero)"

section \<open>State\<close>

text \<open>
  A pointer to a \<^verbatim>\<open>shuso_slab_page_t\<close>: null, \<^verbatim>\<open>&pool->free\<close>, \<^verbatim>\<open>&slots[i]\<close> or
  \<^verbatim>\<open>&pool->pages[i]\<close>.
\<close>

datatype slab_ref = NULLref | FreeHead | SlotHead nat | PageDesc nat

text \<open>The two low bits of \<^verbatim>\<open>prev\<close>.\<close>

datatype slab_type = NGX_SLAB_PAGE | NGX_SLAB_BIG | NGX_SLAB_EXACT | NGX_SLAB_SMALL

record slab_stat =
  st_total :: "32 word"
  st_used :: "32 word"
  st_reqs :: "32 word"
  st_fails :: "32 word"

text \<open>
  \<^verbatim>\<open>shuso_slab_pool_t\<close> with the descriptors it points to, field by field: \<open>pg_prev\<close> is the
  masked pointer with the type kept in its low bits; \<open>npages\<close> is \<^verbatim>\<open>last - pages\<close>;
  \<open>bitmap i\<close> are the 64-bit words at the start of page \<open>i\<close>.
\<close>

record slab_pool =
  min_size :: nat
  min_shift :: nat
  pg_slab :: "slab_ref \<Rightarrow> 64 word"
  pg_next :: "slab_ref \<Rightarrow> slab_ref"
  pg_prev :: "slab_ref \<Rightarrow> slab_ref \<times> slab_type"
  npages :: nat
  sl_stats :: "nat \<Rightarrow> slab_stat"
  pfree :: "32 word"
  sl_start :: addr
  sl_end :: addr
  log_nomem :: bool
  bitmap :: "nat \<Rightarrow> nat \<Rightarrow> 64 word"

abbreviation set_slab :: "slab_ref \<Rightarrow> 64 word \<Rightarrow> slab_pool \<Rightarrow> slab_pool" where
  "set_slab r v p \<equiv> p\<lparr>pg_slab := (pg_slab p)(r := v)\<rparr>"

abbreviation set_next :: "slab_ref \<Rightarrow> slab_ref \<Rightarrow> slab_pool \<Rightarrow> slab_pool" where
  "set_next r v p \<equiv> p\<lparr>pg_next := (pg_next p)(r := v)\<rparr>"

abbreviation set_prev :: "slab_ref \<Rightarrow> slab_ref \<times> slab_type \<Rightarrow> slab_pool \<Rightarrow> slab_pool" where
  "set_prev r v p \<equiv> p\<lparr>pg_prev := (pg_prev p)(r := v)\<rparr>"

abbreviation set_stat :: "nat \<Rightarrow> (slab_stat \<Rightarrow> slab_stat) \<Rightarrow> slab_pool \<Rightarrow> slab_pool" where
  "set_stat slot f p \<equiv> p\<lparr>sl_stats := (sl_stats p)(slot := f (sl_stats p slot))\<rparr>"

text \<open>\<^verbatim>\<open>ngx_slab_page_type\<close>, \<^verbatim>\<open>ngx_slab_page_prev\<close> and \<^verbatim>\<open>ngx_slab_page_addr\<close>.\<close>

abbreviation ngx_slab_page_type :: "slab_pool \<Rightarrow> slab_ref \<Rightarrow> slab_type" where
  "ngx_slab_page_type p r \<equiv> snd (pg_prev p r)"

abbreviation ngx_slab_page_prev :: "slab_pool \<Rightarrow> slab_ref \<Rightarrow> slab_ref" where
  "ngx_slab_page_prev p r \<equiv> fst (pg_prev p r)"

definition ngx_slab_page_addr :: "slab_pool \<Rightarrow> nat \<Rightarrow> addr" where
  "ngx_slab_page_addr p a = a * 2 ^ ngx_pagesize_shift + sl_start p"

definition NGX_SLAB_BUSY :: "64 word" where "NGX_SLAB_BUSY = - 1"

definition NGX_SLAB_PAGE_BUSY :: "64 word" where "NGX_SLAB_PAGE_BUSY = - 1"

definition NGX_SLAB_PAGE_START :: "64 word" where "NGX_SLAB_PAGE_START = push_bit 63 1"

definition NGX_SLAB_PAGE_FREE :: "64 word" where "NGX_SLAB_PAGE_FREE = 0"

definition NGX_SLAB_SHIFT_MASK :: "64 word" where "NGX_SLAB_SHIFT_MASK = 15"

definition NGX_SLAB_MAP_SHIFT :: nat where "NGX_SLAB_MAP_SHIFT = 32"

definition NGX_SLAB_MAP_MASK :: "64 word" where "NGX_SLAB_MAP_MASK = push_bit 32 (mask 32)"

text \<open>Pointers that may be dereferenced.\<close>

fun ref_ok :: "slab_pool \<Rightarrow> slab_ref \<Rightarrow> bool" where
  "ref_ok p NULLref = False"
| "ref_ok p FreeHead = True"
| "ref_ok p (SlotHead i) = (i < ngx_pagesize_shift - min_shift p)"
| "ref_ok p (PageDesc i) = (i < npages p)"

text \<open>
  \<^verbatim>\<open>ngx_slab_error\<close> logs with \<^verbatim>\<open>S == NULL\<close>, and \<^verbatim>\<open>shuso_log_level_vararg\<close> dereferences \<^verbatim>\<open>S\<close>.
\<close>

definition ngx_slab_error :: "string \<Rightarrow> 'a run" where
  "ngx_slab_error text = Abort"

section \<open>Pages\<close>

text \<open>
  The three lines that take a descriptor out of its list: \<^verbatim>\<open>prev->next = page->next\<close> and
  \<^verbatim>\<open>page->next->prev = page->prev\<close>.
\<close>

definition slab_unlink :: "slab_ref \<Rightarrow> slab_pool \<Rightarrow> slab_pool run" where
  "slab_unlink r p =
     (let prev = ngx_slab_page_prev p r in
      c_assert (ref_ok p prev)
        (let p = set_next prev (pg_next p r) p in
         c_assert (ref_ok p (pg_next p r))
           (Done (set_prev (pg_next p r) (pg_prev p r) p))))"

text \<open>The search of \<^verbatim>\<open>ngx_slab_alloc_pages\<close> through the list of free runs.\<close>

partial_function (option) find_free_pages ::
  "slab_pool \<Rightarrow> nat \<Rightarrow> slab_ref \<Rightarrow> slab_ref run option"
where
  "find_free_pages p pages page =
     (if page = FreeHead then Some (Done FreeHead)
      else if \<not> ref_ok p page then Some Abort
      else if unat (pg_slab p page) \<ge> pages then Some (Done page)
      else find_free_pages p pages (pg_next p page))"

declare find_free_pages.simps [code]

fun mark_busy :: "nat \<Rightarrow> nat \<Rightarrow> slab_pool \<Rightarrow> slab_pool" where
  "mark_busy i 0 p = p"
| "mark_busy i (Suc pages) p =
     mark_busy (i + 1) pages
       (set_prev (PageDesc i) (NULLref, NGX_SLAB_PAGE)
         (set_next (PageDesc i) NULLref (set_slab (PageDesc i) NGX_SLAB_PAGE_BUSY p)))"

definition split_run :: "nat \<Rightarrow> nat \<Rightarrow> slab_pool \<Rightarrow> slab_pool run" where
  "split_run a pages p =
     (let page = PageDesc a; rest = PageDesc (a + pages);
          p = set_prev (PageDesc (a + unat (pg_slab p page) - 1)) (rest, NGX_SLAB_PAGE) p;
          p = set_slab rest (pg_slab p page - of_nat pages) p;
          p = set_next rest (pg_next p page) p;
          p = set_prev rest (pg_prev p page) p
      in c_assert (ngx_slab_page_type p page = NGX_SLAB_PAGE \<and> ref_ok p (ngx_slab_page_prev p page))
           (let p = set_next (ngx_slab_page_prev p page) rest p in
            c_assert (ref_ok p (pg_next p page))
              (Done (set_prev (pg_next p page) (rest, NGX_SLAB_PAGE) p))))"

text \<open>
  \<^verbatim>\<open>ngx_slab_alloc_pages\<close> with at least one page requested.  The previous descriptor is
  used without masking, hence the assertion on its type.
\<close>

definition ngx_slab_alloc_pages :: "slab_pool \<Rightarrow> nat \<Rightarrow> (nat option \<times> slab_pool) run" where
  "ngx_slab_alloc_pages p pages =
     (case find_free_pages p pages (pg_next p FreeHead) of
        Some (Done (PageDesc a)) \<Rightarrow>
          run_bind
            (if unat (pg_slab p (PageDesc a)) > pages then split_run a pages p
             else c_assert (ngx_slab_page_type p (PageDesc a) = NGX_SLAB_PAGE) (slab_unlink (PageDesc a) p))
            (\<lambda>p. let p = set_slab (PageDesc a) (of_nat pages OR NGX_SLAB_PAGE_START) p;
                     p = set_next (PageDesc a) NULLref p;
                     p = set_prev (PageDesc a) (NULLref, NGX_SLAB_PAGE) p;
                     p = p\<lparr>pfree := pfree p - of_nat pages\<rparr>
                 in Done (Some a, mark_busy (a + 1) (pages - 1) p))
      | Some (Done FreeHead) \<Rightarrow>
          if log_nomem p then ngx_slab_error ''ngx_slab_alloc() failed: no memory'' else Done (None, p)
      | _ \<Rightarrow> Abort)"

text \<open>The \<^verbatim>\<open>memset\<close> over the descriptors of a freed run.\<close>

fun zero_descs :: "nat \<Rightarrow> nat \<Rightarrow> slab_pool \<Rightarrow> slab_pool" where
  "zero_descs i 0 p = p"
| "zero_descs i (Suc pages) p =
     zero_descs (i + 1) pages
       (set_prev (PageDesc i) (NULLref, NGX_SLAB_PAGE)
         (set_next (PageDesc i) NULLref (set_slab (PageDesc i) 0 p)))"

text \<open>Joining the run at \<open>a\<close> with a free run behind it; \<open>pages\<close> is the local variable.\<close>

definition join_next :: "nat \<Rightarrow> nat \<times> slab_pool \<Rightarrow> (nat \<times> slab_pool) run" where
  "join_next a x =
     (let (pages, p) = x; page = PageDesc a; j = a + unat (pg_slab p page); join = PageDesc j in
      if j < npages p \<and> ngx_slab_page_type p join = NGX_SLAB_PAGE \<and> pg_next p join \<noteq> NULLref then
        (let pages = pages + unat (pg_slab p join);
             p = set_slab page (pg_slab p page + pg_slab p join) p
         in run_bind (slab_unlink join p)
              (\<lambda>p. Done (pages,
                 set_prev join (NULLref, NGX_SLAB_PAGE)
                   (set_next join NULLref (set_slab join NGX_SLAB_PAGE_FREE p)))))
      else Done (pages, p))"

text \<open>Joining it with a free run that ends before it, whose head becomes the page.\<close>

definition join_prev :: "nat \<Rightarrow> nat \<times> slab_pool \<Rightarrow> (nat \<times> nat \<times> slab_pool) run" where
  "join_prev a x =
     (let (pages, p) = x; page = PageDesc a in
      if a > 0 \<and> ngx_slab_page_type p (PageDesc (a - 1)) = NGX_SLAB_PAGE then
        (case (if pg_slab p (PageDesc (a - 1)) = NGX_SLAB_PAGE_FREE
               then ngx_slab_page_prev p (PageDesc (a - 1)) else PageDesc (a - 1)) of
           PageDesc j \<Rightarrow>
             if pg_next p (PageDesc j) \<noteq> NULLref then
               (let join = PageDesc j;
                    pages = pages + unat (pg_slab p join);
                    p = set_slab join (pg_slab p join + pg_slab p page) p
                in run_bind (slab_unlink join p)
                     (\<lambda>p. Done (j, pages,
                        set_prev page (NULLref, NGX_SLAB_PAGE)
                          (set_next page NULLref (set_slab page NGX_SLAB_PAGE_FREE p)))))
             else Done (a, pages, p)
         | _ \<Rightarrow> Abort)
      else Done (a, pages, p))"

text \<open>The last lines: the run goes to the front of the list of free runs.\<close>

definition link_free :: "nat \<times> nat \<times> slab_pool \<Rightarrow> slab_pool run" where
  "link_free x =
     (let (a, pages, p) = x; page = PageDesc a;
          p = (if pages \<noteq> 0 then set_prev (PageDesc (a + pages)) (page, NGX_SLAB_PAGE) p else p);
          p = set_prev page (FreeHead, NGX_SLAB_PAGE) p;
          p = set_next page (pg_next p FreeHead) p
      in c_assert (ref_ok p (pg_next p page))
           (Done (set_next FreeHead page (set_prev (pg_next p page) (page, NGX_SLAB_PAGE) p))))"

definition ngx_slab_free_pages :: "slab_pool \<Rightarrow> nat \<Rightarrow> nat \<Rightarrow> slab_pool run" where
  "ngx_slab_free_pages p a pages =
     (let page = PageDesc a;
          p = p\<lparr>pfree := pfree p + of_nat pages\<rparr>;
          p = set_slab page (of_nat pages) p;
          pages = pages - 1;
          p = zero_descs (a + 1) pages p
      in run_bind (if pg_next p page \<noteq> NULLref then slab_unlink page p else Done p)
           (\<lambda>p. run_bind (join_next a (pages, p)) (\<lambda>x. run_bind (join_prev a x) link_free)))"

section \<open>Chunks\<close>

text \<open>
  Requests are served from slot \<open>shift - min_shift\<close>, with chunks of \<open>2 ^ shift\<close> bytes.
\<close>

definition slab_shift :: "slab_pool \<Rightarrow> nat \<Rightarrow> nat" where
  "slab_shift p sz = (if sz > min_size p then shift_count (sz - 1) 1 else min_shift p)"

text \<open>The loop \<^verbatim>\<open>for (m = 1, i = 0; m; m <<= 1, i++)\<close> up to the first clear bit.\<close>

definition first_clear :: "64 word \<Rightarrow> nat option" where
  "first_clear w = find (\<lambda>i. \<not> bit w i) [0..<64]"

fun scan_bitmap :: "(nat \<Rightarrow> 64 word) \<Rightarrow> nat list \<Rightarrow> (nat \<times> nat) option" where
  "scan_bitmap bm [] = None"
| "scan_bitmap bm (n # ns) =
     (if bm n \<noteq> NGX_SLAB_BUSY then
        (case first_clear (bm n) of Some i \<Rightarrow> Some (n, i) | None \<Rightarrow> scan_bitmap bm ns)
      else scan_bitmap bm ns)"

text \<open>A page without a free chunk leaves the list of its slot and keeps its type only.\<close>

definition slab_page_full :: "nat \<Rightarrow> slab_type \<Rightarrow> slab_pool \<Rightarrow> slab_pool run" where
  "slab_page_full a t p =
     run_bind (slab_unlink (PageDesc a) p)
       (\<lambda>p. Done (set_prev (PageDesc a) (NULLref, t) (set_next (PageDesc a) NULLref p)))"

abbreviation count_used :: "nat \<Rightarrow> slab_pool \<Rightarrow> slab_pool" where
  "count_used slot p \<equiv> set_stat slot (\<lambda>st. st\<lparr>st_used := st_used st + 1\<rparr>) p"

text \<open>Taking a chunk of a page in the list of its slot, for the three classes of sizes.\<close>

definition alloc_small :: "nat \<Rightarrow> nat \<Rightarrow> nat \<Rightarrow> slab_pool \<Rightarrow> (addr \<times> slab_pool) run" where
  "alloc_small slot shift a p =
     (let words = (ngx_pagesize div 2 ^ shift) div (8 * 8) in
      case scan_bitmap (bitmap p a) [0..<words] of
        None \<Rightarrow> ngx_slab_error ''ngx_slab_alloc(): page is busy''
      | Some (n, i) \<Rightarrow>
          (let bm = (bitmap p a)(n := bitmap p a n OR push_bit i 1);
               p = p\<lparr>bitmap := (bitmap p)(a := bm)\<rparr>;
               addr = ngx_slab_page_addr p a + (n * 8 * 8 + i) * 2 ^ shift;
               p = count_used slot p
           in if bm n = NGX_SLAB_BUSY \<and> list_all (\<lambda>j. bm j = NGX_SLAB_BUSY) [n + 1..<words] then
                run_bind (slab_page_full a NGX_SLAB_SMALL p) (\<lambda>p. Done (addr, p))
              else Done (addr, p)))"

definition alloc_exact :: "nat \<Rightarrow> nat \<Rightarrow> nat \<Rightarrow> slab_pool \<Rightarrow> (addr \<times> slab_pool) run" where
  "alloc_exact slot shift a p =
     (case first_clear (pg_slab p (PageDesc a)) of
        None \<Rightarrow> ngx_slab_error ''ngx_slab_alloc(): page is busy''
      | Some i \<Rightarrow>
          (let p = set_slab (PageDesc a) (pg_slab p (PageDesc a) OR push_bit i 1) p
           in run_bind
                (if pg_slab p (PageDesc a) = NGX_SLAB_BUSY then slab_page_full a NGX_SLAB_EXACT p else Done p)
                (\<lambda>p. Done (ngx_slab_page_addr p a + i * 2 ^ shift, count_used slot p))))"

definition alloc_big :: "nat \<Rightarrow> nat \<Rightarrow> nat \<Rightarrow> slab_pool \<Rightarrow> (addr \<times> slab_pool) run" where
  "alloc_big slot shift a p =
     (let mask = push_bit NGX_SLAB_MAP_SHIFT (push_bit (ngx_pagesize div 2 ^ shift) 1 - 1) :: 64 word in
      case find (\<lambda>i. \<not> bit (pg_slab p (PageDesc a)) (NGX_SLAB_MAP_SHIFT + i))
             (takeWhile (\<lambda>i. bit mask (NGX_SLAB_MAP_SHIFT + i)) [0..<64 - NGX_SLAB_MAP_SHIFT]) of
        None \<Rightarrow> ngx_slab_error ''ngx_slab_alloc(): page is busy''
      | Some i \<Rightarrow>
          (let p = set_slab (PageDesc a) (pg_slab p (PageDesc a) OR push_bit (NGX_SLAB_MAP_SHIFT + i) 1) p
           in run_bind
                (if pg_slab p (PageDesc a) AND NGX_SLAB_MAP_MASK = mask
                 then slab_page_full a NGX_SLAB_BIG p else Done p)
                (\<lambda>p. Done (ngx_slab_page_addr p a + i * 2 ^ shift, count_used slot p))))"

text \<open>A new page becomes the only one in the list of its slot.\<close>

definition link_slot :: "nat \<Rightarrow> slab_type \<Rightarrow> nat \<Rightarrow> slab_pool \<Rightarrow> slab_pool" where
  "link_slot slot t a p =
     set_next (SlotHead slot) (PageDesc a)
       (set_prev (PageDesc a) (SlotHead slot, t) (set_next (PageDesc a) (SlotHead slot) p))"

text \<open>The number of chunks that the bitmap of a page of small chunks takes.\<close>

definition bitmap_chunks :: "nat \<Rightarrow> nat" where
  "bitmap_chunks shift =
     (let n = (ngx_pagesize div 2 ^ shift) div (2 ^ shift * 8) in if n = 0 then 1 else n)"

definition new_bitmap :: "nat \<Rightarrow> (nat \<Rightarrow> 64 word) \<Rightarrow> nat \<Rightarrow> 64 word" where
  "new_bitmap shift old =
     (let n = bitmap_chunks shift; i = (n + 1) div (8 * 8);
          words = (ngx_pagesize div 2 ^ shift) div (8 * 8)
      in (\<lambda>j. if j < i then NGX_SLAB_BUSY
              else if j = i then push_bit ((n + 1) mod (8 * 8)) 1 - 1
              else if j < words then 0 else old j))"

definition new_small :: "nat \<Rightarrow> nat \<Rightarrow> nat \<Rightarrow> slab_pool \<Rightarrow> addr \<times> slab_pool" where
  "new_small slot shift a p =
     (let n = bitmap_chunks shift;
          p = p\<lparr>bitmap := (bitmap p)(a := new_bitmap shift (bitmap p a))\<rparr>;
          p = link_slot slot NGX_SLAB_SMALL a (set_slab (PageDesc a) (of_nat shift) p);
          p = set_stat slot (\<lambda>st. st\<lparr>st_total := st_total st + of_nat (ngx_pagesize div 2 ^ shift - n)\<rparr>) p
      in (ngx_slab_page_addr p a + n * 2 ^ shift, count_used slot p))"

definition new_exact :: "nat \<Rightarrow> nat \<Rightarrow> slab_pool \<Rightarrow> addr \<times> slab_pool" where
  "new_exact slot a p =
     (let p = link_slot slot NGX_SLAB_EXACT a (set_slab (PageDesc a) 1 p);
          p = set_stat slot (\<lambda>st. st\<lparr>st_total := st_total st + 8 * 8\<rparr>) p
      in (ngx_slab_page_addr p a, count_used slot p))"

definition new_big :: "nat \<Rightarrow> nat \<Rightarrow> nat \<Rightarrow> slab_pool \<Rightarrow> addr \<times> slab_pool" where
  "new_big slot shift a p =
     (let p = link_slot slot NGX_SLAB_BIG a
                (set_slab (PageDesc a) (push_bit NGX_SLAB_MAP_SHIFT 1 OR of_nat shift) p);
          p = set_stat slot (\<lambda>st. st\<lparr>st_total := st_total st + of_nat (ngx_pagesize div 2 ^ shift)\<rparr>) p
      in (ngx_slab_page_addr p a, count_used slot p))"

definition ngx_slab_alloc_locked :: "slab_pool \<Rightarrow> nat \<Rightarrow> (addr \<times> slab_pool) run" where
  "ngx_slab_alloc_locked p sz =
     (if sz > ngx_slab_max_size then
        run_bind
          (ngx_slab_alloc_pages p
             (sz div 2 ^ ngx_pagesize_shift + (if sz mod ngx_pagesize \<noteq> 0 then 1 else 0)))
          (\<lambda>(page, p). case page of
               Some a \<Rightarrow> Done (ngx_slab_page_addr p a, p)
             | None \<Rightarrow> Done (0, p))
      else
        (let shift = slab_shift p sz; slot = shift - min_shift p;
             p = set_stat slot (\<lambda>st. st\<lparr>st_reqs := st_reqs st + 1\<rparr>) p;
             page = pg_next p (SlotHead slot)
         in c_assert (ref_ok p page)
              (case (if pg_next p page \<noteq> page then page else NULLref) of
                 PageDesc a \<Rightarrow>
                   if shift < ngx_slab_exact_shift then alloc_small slot shift a p
                   else if shift = ngx_slab_exact_shift then alloc_exact slot shift a p
                   else alloc_big slot shift a p
               | NULLref \<Rightarrow>
                   run_bind (ngx_slab_alloc_pages p 1)
                     (\<lambda>(page, p). case page of
                          Some a \<Rightarrow>
                            if shift < ngx_slab_exact_shift then Done (new_small slot shift a p)
                            else if shift = ngx_slab_exact_shift then Done (new_exact slot a p)
                            else Done (new_big slot shift a p)
                        | None \<Rightarrow>
                            Done (0, set_stat slot (\<lambda>st. st\<lparr>st_fails := st_fails st + 1\<rparr>) p))
               | _ \<Rightarrow> Abort)))"

text \<open>A full page goes back to the front of the list of its slot when a chunk is freed.\<close>

definition relink_slot :: "nat \<Rightarrow> slab_type \<Rightarrow> nat \<Rightarrow> slab_pool \<Rightarrow> slab_pool run" where
  "relink_slot slot t a p =
     (let page = PageDesc a;
          p = set_next page (pg_next p (SlotHead slot)) p;
          p = set_next (SlotHead slot) page p;
          p = set_prev page (SlotHead slot, t) p
      in c_assert (ref_ok p (pg_next p page)) (Done (set_prev (pg_next p page) (page, t) p)))"

abbreviation count_free :: "nat \<Rightarrow> slab_pool \<Rightarrow> slab_pool" where
  "count_free slot p \<equiv> set_stat slot (\<lambda>st. st\<lparr>st_used := st_used st - 1\<rparr>) p"

definition free_small :: "nat \<Rightarrow> addr \<Rightarrow> slab_pool \<Rightarrow> slab_pool run" where
  "free_small a addr p =
     (let page = PageDesc a; shift = unat (pg_slab p page AND NGX_SLAB_SHIFT_MASK) in
      if addr mod 2 ^ shift \<noteq> 0 then ngx_slab_error ''ngx_slab_free(): pointer to wrong chunk''
      else
        (let c = (addr mod ngx_pagesize) div 2 ^ shift; i = c mod (8 * 8); n = c div (8 * 8);
             b = (addr - addr mod ngx_pagesize - sl_start p) div ngx_pagesize
         in if bit (bitmap p b n) i then
              (let slot = shift - min_shift p in
               run_bind (if pg_next p page = NULLref then relink_slot slot NGX_SLAB_SMALL a p else Done p)
                 (\<lambda>p. let bm = (bitmap p b)(n := bitmap p b n AND NOT (push_bit i 1));
                          p = p\<lparr>bitmap := (bitmap p)(b := bm)\<rparr>;
                          r = bitmap_chunks shift;
                          words = (ngx_pagesize div 2 ^ shift) div (8 * 8)
                      in if bm (r div (8 * 8)) AND NOT (push_bit (r mod (8 * 8)) 1 - 1) \<noteq> 0
                            \<or> list_ex (\<lambda>j. bm j \<noteq> 0) [r div (8 * 8) + 1..<words]
                         then Done (count_free slot p)
                         else run_bind (ngx_slab_free_pages p a 1)
                           (\<lambda>p. Done (count_free slot (set_stat slot
                              (\<lambda>st. st\<lparr>st_total := st_total st - of_nat (ngx_pagesize div 2 ^ shift - r)\<rparr>) p)))))
            else ngx_slab_error ''ngx_slab_free(): chunk is already free''))"

definition free_exact :: "nat \<Rightarrow> addr \<Rightarrow> slab_pool \<Rightarrow> slab_pool run" where
  "free_exact a addr p =
     (let page = PageDesc a; i = (addr mod ngx_pagesize) div 2 ^ ngx_slab_exact_shift in
      if addr mod ngx_slab_exact_size \<noteq> 0 then ngx_slab_error ''ngx_slab_free(): pointer to wrong chunk''
      else if bit (pg_slab p page) i then
        (let slot = ngx_slab_exact_shift - min_shift p in
         run_bind (if pg_slab p page = NGX_SLAB_BUSY then relink_slot slot NGX_SLAB_EXACT a p else Done p)
           (\<lambda>p. let p = set_slab page (pg_slab p page AND NOT (push_bit i 1)) p
                in if pg_slab p page \<noteq> 0 then Done (count_free slot p)
                   else run_bind (ngx_slab_free_pages p a 1)
                     (\<lambda>p. Done (count_free slot (set_stat slot
                        (\<lambda>st. st\<lparr>st_total := st_total st - 8 * 8\<rparr>) p)))))
      else ngx_slab_error ''ngx_slab_free(): chunk is already free'')"

definition free_big :: "nat \<Rightarrow> addr \<Rightarrow> slab_pool \<Rightarrow> slab_pool run" where
  "free_big a addr p =
     (let page = PageDesc a; shift = unat (pg_slab p page AND NGX_SLAB_SHIFT_MASK) in
      if addr mod 2 ^ shift \<noteq> 0 then ngx_slab_error ''ngx_slab_free(): pointer to wrong chunk''
      else
        (let i = (addr mod ngx_pagesize) div 2 ^ shift + NGX_SLAB_MAP_SHIFT in
         if bit (pg_slab p page) i then
           (let slot = shift - min_shift p in
            run_bind (if pg_next p page = NULLref then relink_slot slot NGX_SLAB_BIG a p else Done p)
              (\<lambda>p. let p = set_slab page (pg_slab p page AND NOT (push_bit i 1)) p
                   in if pg_slab p page AND NGX_SLAB_MAP_MASK \<noteq> 0 then Done (count_free slot p)
                      else run_bind (ngx_slab_free_pages p a 1)
                        (\<lambda>p. Done (count_free slot (set_stat slot
                           (\<lambda>st. st\<lparr>st_total := st_total st - of_nat (ngx_pagesize div 2 ^ shift)\<rparr>) p)))))
         else ngx_slab_error ''ngx_slab_free(): chunk is already free''))"

definition free_page_run :: "nat \<Rightarrow> addr \<Rightarrow> slab_pool \<Rightarrow> slab_pool run" where
  "free_page_run a addr p =
     (let slab = pg_slab p (PageDesc a) in
      if addr mod ngx_pagesize \<noteq> 0 then ngx_slab_error ''ngx_slab_free(): pointer to wrong chunk''
      else if slab AND NGX_SLAB_PAGE_START = 0 then ngx_slab_error ''ngx_slab_free(): page is already free''
      else if slab = NGX_SLAB_PAGE_BUSY then ngx_slab_error ''ngx_slab_free(): pointer to wrong page''
      else ngx_slab_free_pages p a (unat (slab AND NOT NGX_SLAB_PAGE_START)))"

text \<open>
  \<^verbatim>\<open>ngx_slab_free_locked\<close>.  An address behind the last page, up to \<^verbatim>\<open>pool->end\<close>, passes the
  range test and reads behind the descriptors in use.
\<close>

definition ngx_slab_free_locked :: "slab_pool \<Rightarrow> addr \<Rightarrow> slab_pool run" where
  "ngx_slab_free_locked p addr =
     (if addr < sl_start p \<or> addr > sl_end p then ngx_slab_error ''ngx_slab_free(): outside of pool''
      else
        (let a = (addr - sl_start p) div 2 ^ ngx_pagesize_shift in
         c_assert (a < npages p)
           (case ngx_slab_page_type p (PageDesc a) of
              NGX_SLAB_SMALL \<Rightarrow> free_small a addr p
            | NGX_SLAB_EXACT \<Rightarrow> free_exact a addr p
            | NGX_SLAB_BIG \<Rightarrow> free_big a addr p
            | NGX_SLAB_PAGE \<Rightarrow> free_page_run a addr p)))"

section \<open>Initialisation\<close>

definition sizeof_slab_pool :: nat where "sizeof_slab_pool = 152"

definition sizeof_slab_page :: nat where "sizeof_slab_page = 24"

definition sizeof_slab_stat :: nat where "sizeof_slab_stat = 16"

definition ngx_align_ptr :: "nat \<Rightarrow> nat \<Rightarrow> nat" where
  "ngx_align_ptr x a = (x + (a - 1)) div a * a"

text \<open>Subtraction of \<^verbatim>\<open>size_t\<close> values and of pointers.\<close>

definition usub :: "nat \<Rightarrow> nat \<Rightarrow> nat" where
  "usub x y = nat ((int x - int y) mod 2 ^ 64)"

text \<open>
  \<^verbatim>\<open>ngx_slab_init\<close> on a zeroed pool at \<open>base\<close> that ends at \<open>fin\<close>, with the page descriptors
  of the array and of the slots.  \<^verbatim>\<open>size\<close> and \<^verbatim>\<open>pages\<close> are unsigned, \<^verbatim>\<open>m\<close> is signed.
\<close>

definition ngx_slab_init :: "addr \<Rightarrow> addr \<Rightarrow> nat \<Rightarrow> slab_pool" where
  "ngx_slab_init base fin shift =
     (let n = ngx_pagesize_shift - shift;
          slots = base + sizeof_slab_pool;
          sz = usub (usub fin slots) (n * (sizeof_slab_page + sizeof_slab_stat));
          q = slots + n * sizeof_slab_page + n * sizeof_slab_stat;
          pages = sz div (ngx_pagesize + sizeof_slab_page);
          start = ngx_align_ptr (q + pages * sizeof_slab_page) ngx_pagesize;
          m = ssize_of (usub pages (usub fin start div ngx_pagesize));
          pages = (if m > 0 then pages - nat m else pages)
      in \<lparr>min_size = 2 ^ shift, min_shift = shift,
          pg_slab = (\<lambda>_. 0)(PageDesc 0 := of_nat pages),
          pg_next = (\<lambda>r. case r of SlotHead i \<Rightarrow> if i < n then SlotHead i else NULLref
                        | FreeHead \<Rightarrow> PageDesc 0
                        | PageDesc i \<Rightarrow> if i = 0 then FreeHead else NULLref
                        | NULLref \<Rightarrow> NULLref),
          pg_prev = (\<lambda>_. (NULLref, NGX_SLAB_PAGE))(PageDesc 0 := (FreeHead, NGX_SLAB_PAGE)),
          npages = pages,
          sl_stats = (\<lambda>_. \<lparr>st_total = 0, st_used = 0, st_reqs = 0, st_fails = 0\<rparr>),
          pfree = of_nat pages, sl_start = start, sl_end = fin, log_nomem = False,
          bitmap = (\<lambda>_ _. 0)\<rparr>)"

end
