(* ===== verification/Slab_Pages.thy ===== *)
theory Slab_Pages
  imports Slab
begin

text \<open>
  The page level of the slab allocator: a layout that tiles the array of pages, the
  invariant that ties the descriptors and the circular lists to it, and the correctness of
  \<^verbatim>\<open>ngx_slab_alloc_pages\<close> and \<^verbatim>\<open>ngx_slab_free_pages\<close>.
\<close>

section \<open>Layouts\<close>

text \<open>
  A layout maps the first page of every tile to what the tile is: a free run, an allocated
  run, a page of chunks of \<open>2 ^ k\<close> bytes with the set of chunks in use, or a hole, a run
  that is being freed.
\<close>

datatype tile = Free_run nat | Page_run nat | Chunks nat "nat set" | Hole nat

type_synonym layout = "nat \<rightharpoonup> tile"

fun tile_len :: "tile \<Rightarrow> nat" where
  "tile_len (Free_run n) = n"
| "tile_len (Page_run n) = n"
| "tile_len (Chunks k U) = 1"
| "tile_len (Hole n) = n"

definition nchunks :: "nat \<Rightarrow> nat" where
  "nchunks k = ngx_pagesize div 2 ^ k"

text \<open>The chunks of a page that can be handed out: all but those of the bitmap.\<close>

definition chunk_range :: "nat \<Rightarrow> nat set" where
  "chunk_range k = {(if k < 6 then bitmap_chunks k else 0)..<nchunks k}"

fun type_of_shift :: "nat \<Rightarrow> slab_type" where
  "type_of_shift k = (if k < 6 then NGX_SLAB_SMALL else if k = 6 then NGX_SLAB_EXACT else NGX_SLAB_BIG)"

text \<open>The list a tile is linked into.\<close>

fun list_of :: "tile \<Rightarrow> slab_ref option" where
  "list_of (Free_run n) = Some FreeHead"
| "list_of (Page_run n) = None"
| "list_of (Chunks k U) = (if U = chunk_range k then None else Some (SlotHead (k - 3)))"
| "list_of (Hole n) = None"

fun head_type :: "slab_ref \<Rightarrow> slab_type" where
  "head_type (SlotHead i) = type_of_shift (i + 3)"
| "head_type _ = NGX_SLAB_PAGE"

definition heads :: "slab_ref set" where
  "heads = insert FreeHead (SlotHead ` {..<9})"

definition tiling :: "nat \<Rightarrow> layout \<Rightarrow> bool" where
  "tiling N L \<longleftrightarrow>
     (\<forall>a t. L a = Some t \<longrightarrow> 0 < tile_len t \<and> a + tile_len t \<le> N) \<and>
     (\<forall>a t b u. L a = Some t \<longrightarrow> L b = Some u \<longrightarrow> a < b \<longrightarrow> a + tile_len t \<le> b) \<and>
     (\<forall>i < N. \<exists>a t. L a = Some t \<and> a \<le> i \<and> i < a + tile_len t)"

definition coalesced :: "layout \<Rightarrow> bool" where
  "coalesced L \<longleftrightarrow> (\<forall>a n m. L a = Some (Free_run n) \<longrightarrow> L (a + n) \<noteq> Some (Free_run m))"

section \<open>Circular lists\<close>

primrec seg :: "slab_pool \<Rightarrow> slab_type \<Rightarrow> slab_ref \<Rightarrow> nat list \<Rightarrow> slab_ref \<Rightarrow> bool" where
  "seg p t r [] e \<longleftrightarrow> pg_next p r = e"
| "seg p t r (x # xs) e \<longleftrightarrow>
     pg_next p r = PageDesc x \<and> pg_prev p (PageDesc x) = (r, t) \<and> seg p t (PageDesc x) xs e"

definition ring :: "slab_pool \<Rightarrow> slab_ref \<Rightarrow> nat list \<Rightarrow> bool" where
  "ring p h xs \<longleftrightarrow> seg p (head_type h) h xs h \<and> distinct xs"

abbreviation seg_last :: "slab_ref \<Rightarrow> nat list \<Rightarrow> slab_ref" where
  "seg_last r xs \<equiv> (if xs = [] then r else PageDesc (last xs))"

section \<open>The invariant\<close>

definition free_interior :: "slab_pool \<Rightarrow> nat \<Rightarrow> bool" where
  "free_interior p i \<longleftrightarrow> pg_slab p (PageDesc i) = 0 \<and> pg_next p (PageDesc i) = NULLref \<and>
     ngx_slab_page_type p (PageDesc i) = NGX_SLAB_PAGE"

definition busy_interior :: "slab_pool \<Rightarrow> nat \<Rightarrow> bool" where
  "busy_interior p i \<longleftrightarrow> pg_slab p (PageDesc i) = NGX_SLAB_PAGE_BUSY \<and>
     pg_next p (PageDesc i) = NULLref \<and> ngx_slab_page_type p (PageDesc i) = NGX_SLAB_PAGE"

text \<open>Bit \<open>i\<close> of the map of a page of chunks, wherever the class of its size keeps it.\<close>

definition chunk_bit :: "slab_pool \<Rightarrow> nat \<Rightarrow> nat \<Rightarrow> nat \<Rightarrow> bool" where
  "chunk_bit p a k i \<longleftrightarrow>
     (if k < 6 then bit (bitmap p a (i div 64)) (i mod 64)
      else if k = 6 then bit (pg_slab p (PageDesc a)) i
      else bit (pg_slab p (PageDesc a)) (32 + i))"

definition chunk_data :: "slab_pool \<Rightarrow> nat \<Rightarrow> nat \<Rightarrow> nat set \<Rightarrow> bool" where
  "chunk_data p a k U \<longleftrightarrow>
     3 \<le> k \<and> k \<le> 11 \<and> U \<subseteq> chunk_range k \<and>
     (\<forall>i < nchunks k. chunk_bit p a k i \<longleftrightarrow> i \<in> U \<or> i \<notin> chunk_range k) \<and>
     (k < 6 \<longrightarrow> pg_slab p (PageDesc a) = of_nat k) \<and>
     (k > 6 \<longrightarrow> pg_slab p (PageDesc a) AND NGX_SLAB_SHIFT_MASK = of_nat k \<and>
        (\<forall>i. 32 + nchunks k \<le> i \<longrightarrow> \<not> bit (pg_slab p (PageDesc a)) i))"

fun tile_ok :: "slab_pool \<Rightarrow> nat \<Rightarrow> tile \<Rightarrow> bool" where
  "tile_ok p a (Free_run n) \<longleftrightarrow>
     pg_slab p (PageDesc a) = of_nat n \<and> (\<forall>i \<in> {a<..<a + n}. free_interior p i) \<and>
     (1 < n \<and> a + n < npages p \<longrightarrow> pg_prev p (PageDesc (a + n - 1)) = (PageDesc a, NGX_SLAB_PAGE))"
| "tile_ok p a (Page_run n) \<longleftrightarrow>
     pg_slab p (PageDesc a) = of_nat n OR NGX_SLAB_PAGE_START \<and>
     pg_next p (PageDesc a) = NULLref \<and> pg_prev p (PageDesc a) = (NULLref, NGX_SLAB_PAGE) \<and>
     (\<forall>i \<in> {a<..<a + n}. busy_interior p i)"
| "tile_ok p a (Chunks k U) \<longleftrightarrow>
     chunk_data p a k U \<and>
     (U = chunk_range k \<longrightarrow>
        pg_next p (PageDesc a) = NULLref \<and> pg_prev p (PageDesc a) = (NULLref, type_of_shift k))"
| "tile_ok p a (Hole n) \<longleftrightarrow>
     pg_slab p (PageDesc a) = of_nat n \<and> (\<forall>i \<in> {a<..<a + n}. free_interior p i)"

definition geometry :: "slab_pool \<Rightarrow> bool" where
  "geometry p \<longleftrightarrow> min_shift p = 3 \<and> min_size p = 8 \<and> \<not> log_nomem p \<and> npages p < 2 ^ 32 \<and>
     0 < sl_start p \<and> 4096 dvd sl_start p \<and> sl_start p + npages p * 4096 \<le> sl_end p"

text \<open>
  The invariant with the tiles that start in \<open>A\<close> exempt: their descriptors are
  unconstrained and they are in no list.
\<close>

definition inv_but :: "nat set \<Rightarrow> slab_pool \<Rightarrow> layout \<Rightarrow> (slab_ref \<Rightarrow> nat list) \<Rightarrow> bool" where
  "inv_but A p L ls \<longleftrightarrow>
     geometry p \<and> tiling (npages p) L \<and>
     (\<forall>b t. L b = Some t \<longrightarrow> b \<notin> A \<longrightarrow> tile_ok p b t) \<and>
     (\<forall>h \<in> heads. ring p h (ls h) \<and>
        set (ls h) = {b. b \<notin> A \<and> (\<exists>t. L b = Some t \<and> list_of t = Some h)})"

definition free_len :: "tile option \<Rightarrow> nat" where
  "free_len t = (case t of Some (Free_run n) \<Rightarrow> n | Some (Hole n) \<Rightarrow> n | _ \<Rightarrow> 0)"

definition free_pages :: "nat \<Rightarrow> layout \<Rightarrow> nat" where
  "free_pages N L = (\<Sum>a < N. free_len (L a))"

text \<open>The invariant of the allocator between operations.\<close>

definition slab_inv :: "slab_pool \<Rightarrow> layout \<Rightarrow> bool" where
  "slab_inv p L \<longleftrightarrow>
     (\<exists>ls. inv_but {} p L ls) \<and> coalesced L \<and>
     (\<forall>a n. L a \<noteq> Some (Hole n)) \<and> (\<forall>a k. L a \<noteq> Some (Chunks k {})) \<and>
     pfree p = of_nat (free_pages (npages p) L)"

section \<open>Lemmas on lists\<close>

lemma seg_append:
  "seg p t r (xs @ x # ys) e \<longleftrightarrow>
     seg p t r xs (PageDesc x) \<and> pg_prev p (PageDesc x) = (seg_last r xs, t) \<and> seg p t (PageDesc x) ys e"
  by (induction xs arbitrary: r) auto

lemma seg_snoc: "seg p t r xs e \<Longrightarrow> pg_next p (seg_last r xs) = e"
  by (induction xs arbitrary: r) (auto split: if_splits)

lemma seg_first: "seg p t r xs e \<Longrightarrow> pg_next p r = (case xs of [] \<Rightarrow> e | x # _ \<Rightarrow> PageDesc x)"
  by (cases xs) auto

lemma seg_cong:
  assumes "\<And>q. q \<in> insert r (PageDesc ` set xs) \<Longrightarrow> pg_next p' q = pg_next p q"
    and "\<And>x. x \<in> set xs \<Longrightarrow> pg_prev p' (PageDesc x) = pg_prev p (PageDesc x)"
  shows "seg p' t r xs e \<longleftrightarrow> seg p t r xs e"
  using assms by (induction xs arbitrary: r) auto

lemma ring_cong:
  assumes "\<And>q. q \<in> insert h (PageDesc ` set xs) \<Longrightarrow> pg_next p' q = pg_next p q"
    and "\<And>x. x \<in> set xs \<Longrightarrow> pg_prev p' (PageDesc x) = pg_prev p (PageDesc x)"
  shows "ring p' h xs \<longleftrightarrow> ring p h xs"
  unfolding ring_def using seg_cong [of h xs p' p, OF assms] by simp

text \<open>Changing only where a segment ends.\<close>

lemma seg_retarget:
  assumes "seg p t r xs e" and "distinct xs" and "r \<notin> PageDesc ` set xs"
    and "pg_next p' (seg_last r xs) = e'"
    and "\<And>q. q \<in> insert r (PageDesc ` set xs) \<Longrightarrow> q \<noteq> seg_last r xs \<Longrightarrow> pg_next p' q = pg_next p q"
    and "\<And>x. x \<in> set xs \<Longrightarrow> pg_prev p' (PageDesc x) = pg_prev p (PageDesc x)"
  shows "seg p' t r xs e'"
  using assms
proof (induction xs arbitrary: r)
  case (Cons x xs)
  have ne: "r \<noteq> seg_last (PageDesc x) xs" using Cons.prems(3) by auto
  have n: "pg_next p' r = pg_next p r" using Cons.prems(5) [of r] ne by (simp split: if_splits)
  have "seg p' t (PageDesc x) xs e'"
  proof (rule Cons.IH)
    show "seg p t (PageDesc x) xs e" "distinct xs" "PageDesc x \<notin> PageDesc ` set xs"
      using Cons.prems(1,2) by auto
    show "pg_next p' (seg_last (PageDesc x) xs) = e'" using Cons.prems(4) by (auto split: if_splits)
    show "pg_next p' q = pg_next p q"
      if "q \<in> insert (PageDesc x) (PageDesc ` set xs)" "q \<noteq> seg_last (PageDesc x) xs" for q
      using that Cons.prems(5) [of q] by (auto split: if_splits)
    show "pg_prev p' (PageDesc y) = pg_prev p (PageDesc y)" if "y \<in> set xs" for y
      using that Cons.prems(6) by auto
  qed
  then show ?case using Cons.prems(1) Cons.prems(6) [of x] n by auto
qed auto

lemma head_not_page: "h \<in> heads \<Longrightarrow> h \<noteq> PageDesc x"
  by (auto simp: heads_def)

lemma head_not_null: "h \<in> heads \<Longrightarrow> h \<noteq> NULLref"
  by (auto simp: heads_def)

lemma ring_neighbours:
  assumes "ring p h (xs @ x # ys)"
  shows "pg_prev p (PageDesc x) = (seg_last h xs, head_type h)"
    and "pg_next p (PageDesc x) = (case ys of [] \<Rightarrow> h | y # _ \<Rightarrow> PageDesc y)"
    and "pg_next p (seg_last h xs) = PageDesc x"
proof -
  from assms have s: "seg p (head_type h) h xs (PageDesc x)" "seg p (head_type h) (PageDesc x) ys h"
    "pg_prev p (PageDesc x) = (seg_last h xs, head_type h)"
    by (auto simp: ring_def seg_append)
  show "pg_prev p (PageDesc x) = (seg_last h xs, head_type h)" by (rule s(3))
  show "pg_next p (PageDesc x) = (case ys of [] \<Rightarrow> h | y # _ \<Rightarrow> PageDesc y)"
    using seg_first [OF s(2)] by simp
  show "pg_next p (seg_last h xs) = PageDesc x" using seg_snoc [OF s(1)] .
qed

text \<open>Taking an element out of a ring.\<close>

lemma ring_unlink:
  assumes r: "ring p h (xs @ x # ys)" and h: "h \<in> heads"
    and nx: "pg_next p' = (pg_next p)(fst (pg_prev p (PageDesc x)) := pg_next p (PageDesc x))"
    and pv: "pg_prev p' = (pg_prev p)(pg_next p (PageDesc x) := pg_prev p (PageDesc x))"
  shows "ring p' h (xs @ ys)"
proof -
  let ?t = "head_type h"
  note nb = ring_neighbours [OF r]
  have s1: "seg p ?t h xs (PageDesc x)" and s2: "seg p ?t (PageDesc x) ys h"
    and d: "distinct (xs @ x # ys)"
    using r by (auto simp: ring_def seg_append)
  have hx: "h \<notin> PageDesc ` set (xs @ x # ys)" using head_not_page [OF h] by blast
  have ln: "last xs \<notin> set ys" if "xs \<noteq> []" using last_in_set [OF that] d by auto
  have nx': "pg_next p' = (pg_next p)(seg_last h xs := pg_next p (PageDesc x))"
    using nx nb(1) by simp
  have s1': "seg p' ?t h xs (pg_next p (PageDesc x))"
  proof (rule seg_retarget [OF s1])
    show "pg_prev p' (PageDesc y) = pg_prev p (PageDesc y)" if "y \<in> set xs" for y
      using that d head_not_page [OF h] by (auto simp: pv nb(2) split: list.splits)
  qed (use d hx nx' in auto)
  show ?thesis
  proof (cases ys)
    case Nil
    then show ?thesis using s1' nb(2) d by (simp add: ring_def)
  next
    case (Cons y zs)
    have "seg p' ?t (PageDesc y) zs h \<longleftrightarrow> seg p ?t (PageDesc y) zs h"
      by (rule seg_cong) (use d hx Cons ln nb(2) in \<open>auto simp: nx' pv split: if_splits\<close>)
    moreover have "pg_prev p' (PageDesc y) = (seg_last h xs, ?t)"
      using nb Cons by (simp add: pv)
    ultimately show ?thesis using s1' s2 d nb(2) Cons by (simp add: ring_def seg_append)
  qed
qed

text \<open>Putting another element in the place of one.\<close>

lemma ring_replace:
  assumes r: "ring p h (xs @ x # ys)" and h: "h \<in> heads" and b: "b \<notin> set (xs @ x # ys)"
    and nx: "pg_next p' = (pg_next p)(PageDesc b := pg_next p (PageDesc x),
               fst (pg_prev p (PageDesc x)) := PageDesc b)"
    and pv: "\<And>q. q \<in> insert (PageDesc b) (PageDesc ` set (xs @ ys)) \<Longrightarrow>
               pg_prev p' q = ((pg_prev p)(PageDesc b := pg_prev p (PageDesc x),
                 pg_next p (PageDesc x) := (PageDesc b, head_type h))) q"
  shows "ring p' h (xs @ b # ys)"
proof -
  let ?t = "head_type h"
  note nb = ring_neighbours [OF r]
  have s1: "seg p ?t h xs (PageDesc x)" and s2: "seg p ?t (PageDesc x) ys h"
    and d: "distinct (xs @ x # ys)"
    using r by (auto simp: ring_def seg_append)
  have hx: "h \<notin> PageDesc ` set (xs @ x # ys)" "h \<noteq> PageDesc b" using head_not_page [OF h] by blast+
  have nx': "pg_next p' = (pg_next p)(PageDesc b := pg_next p (PageDesc x), seg_last h xs := PageDesc b)"
    using nx nb(1) by simp
  have lb: "seg_last h xs \<noteq> PageDesc b" using b hx by auto
  have ln: "last xs \<notin> set ys" if "xs \<noteq> []" using last_in_set [OF that] d by auto
  have s1': "seg p' ?t h xs (PageDesc b)"
  proof (rule seg_retarget [OF s1])
    show "pg_prev p' (PageDesc y) = pg_prev p (PageDesc y)" if "y \<in> set xs" for y
      using that d b head_not_page [OF h] by (auto simp: pv nb(2) split: list.splits)
  qed (use d b hx nx' in auto)
  have nb2: "pg_next p (PageDesc x) \<noteq> PageDesc b"
    using b hx by (auto simp: nb(2) split: list.splits)
  have prevb: "pg_prev p' (PageDesc b) = (seg_last h xs, ?t)" using nb2 nb(1) by (auto simp: pv)
  have s2': "seg p' ?t (PageDesc b) ys h"
  proof (cases ys)
    case Nil
    then show ?thesis using nb(2) lb by (simp add: nx')
  next
    case (Cons y zs)
    have "seg p' ?t (PageDesc y) zs h \<longleftrightarrow> seg p ?t (PageDesc y) zs h"
    proof (rule seg_cong)
      show "pg_next p' q = pg_next p q" if "q \<in> insert (PageDesc y) (PageDesc ` set zs)" for q
        using that d b hx Cons ln by (auto simp: nx')
      show "pg_prev p' (PageDesc z) = pg_prev p (PageDesc z)" if "z \<in> set zs" for z
        using that d b hx Cons by (auto simp: pv nb(2))
    qed
    moreover have "pg_prev p' (PageDesc y) = (PageDesc b, ?t)"
      using nb(2) Cons by (auto simp: pv)
    ultimately show ?thesis using s2 Cons nb(2) lb by (auto simp: nx')
  qed
  show ?thesis using s1' s2' prevb d b by (auto simp: ring_def seg_append)
qed

text \<open>Putting an element in front.\<close>

lemma ring_push:
  assumes r: "ring p h xs" and h: "h \<in> heads" and x: "x \<notin> set xs"
    and nx: "pg_next p' = (pg_next p)(PageDesc x := pg_next p h, h := PageDesc x)"
    and pv: "pg_prev p' = (pg_prev p)(PageDesc x := (h, head_type h), pg_next p h := (PageDesc x, head_type h))"
  shows "ring p' h (x # xs)"
proof -
  let ?t = "head_type h"
  have s: "seg p ?t h xs h" and d: "distinct xs" using r by (auto simp: ring_def)
  have hx: "h \<noteq> PageDesc y" for y using head_not_page [OF h] .
  have n: "pg_next p h = (case xs of [] \<Rightarrow> h | y # _ \<Rightarrow> PageDesc y)" using seg_first [OF s] .
  have px: "pg_next p h \<noteq> PageDesc x" using x hx n by (auto split: list.splits)
  have "seg p' ?t (PageDesc x) xs h"
  proof (cases xs)
    case Nil
    then show ?thesis using n hx by (simp add: nx)
  next
    case (Cons y zs)
    have "seg p' ?t (PageDesc y) zs h \<longleftrightarrow> seg p ?t (PageDesc y) zs h"
      by (rule seg_cong) (use d hx x Cons n in \<open>auto simp: nx pv\<close>)
    then show ?thesis using s Cons n hx by (auto simp: nx pv)
  qed
  then show ?thesis using d x px hx by (auto simp: ring_def nx pv)
qed

section \<open>Lemmas on layouts\<close>

definition cells :: "layout \<Rightarrow> nat set \<Rightarrow> nat set" where
  "cells L A = {i. \<exists>a t. a \<in> A \<and> L a = Some t \<and> a \<le> i \<and> i < a + tile_len t}"

lemma tiling_len: "tiling N L \<Longrightarrow> L a = Some t \<Longrightarrow> 0 < tile_len t \<and> a + tile_len t \<le> N"
  by (simp add: tiling_def)

lemma tiling_order: "tiling N L \<Longrightarrow> L a = Some t \<Longrightarrow> L b = Some u \<Longrightarrow> a < b \<Longrightarrow> a + tile_len t \<le> b"
  unfolding tiling_def by blast

lemma tiling_unique:
  assumes "tiling N L" and "L a = Some t" and "L b = Some u"
    and "a \<le> i" "i < a + tile_len t" "b \<le> i" "i < b + tile_len u"
  shows "a = b"
  using tiling_order [OF assms(1,2,3)] tiling_order [OF assms(1,3,2)] assms(4-)
  by (cases a b rule: linorder_cases) auto

lemma cells_other:
  "tiling N L \<Longrightarrow> L b = Some t \<Longrightarrow> b \<notin> A \<Longrightarrow> b \<le> i \<Longrightarrow> i < b + tile_len t \<Longrightarrow> i \<notin> cells L A"
  using tiling_unique by (fastforce simp: cells_def)

lemma cells_self: "tiling N L \<Longrightarrow> L a = Some t \<Longrightarrow> a \<in> A \<Longrightarrow> a \<in> cells L A"
  using tiling_len by (fastforce simp: cells_def)

lemma cells_insert:
  "L a = Some t \<Longrightarrow> cells L (insert a A) = {a..<a + tile_len t} \<union> cells L A"
  by (auto simp: cells_def)

lemma cells_empty [simp]: "cells L {} = {}"
  by (simp add: cells_def)

text \<open>The tile that starts where another one ends, and the one that ends where it starts.\<close>

lemma tiling_next:
  assumes "tiling N L" and "L a = Some t" and "a + tile_len t < N"
  shows "\<exists>u. L (a + tile_len t) = Some u"
proof -
  obtain b u where b: "L b = Some u" "b \<le> a + tile_len t" "a + tile_len t < b + tile_len u"
    using assms unfolding tiling_def by blast
  have "\<not> b < a + tile_len t"
  proof
    assume "b < a + tile_len t"
    then have "b \<le> a" using tiling_order [OF assms(1,2) b(1)] by fastforce
    then have "b < a \<or> b = a" by auto
    then show False
      using tiling_order [OF assms(1) b(1) assms(2)] b(1,3) assms(2) tiling_len [OF assms(1,2)] by auto
  qed
  then show ?thesis using b by (metis le_neq_implies_less)
qed

lemma tiling_prev:
  assumes "tiling N L" and "L a = Some t" and "0 < a"
  shows "\<exists>b u. L b = Some u \<and> b + tile_len u = a"
proof -
  have "a - 1 < N" using tiling_len [OF assms(1,2)] by linarith
  then obtain b u where b: "L b = Some u" "b \<le> a - 1" "a - 1 < b + tile_len u"
    using assms unfolding tiling_def by blast
  then have "b + tile_len u \<le> a" using tiling_order [OF assms(1) b(1) assms(2)] assms(3) by simp
  then show ?thesis using b by (intro exI [of _ b] exI [of _ u]) auto
qed

lemma tiling_relabel:
  assumes "tiling N L" and "L a = Some t" and "tile_len t' = tile_len t"
  shows "tiling N (L(a \<mapsto> t'))"
  unfolding tiling_def
proof (intro conjI allI impI)
  show "0 < tile_len u" if "(L(a \<mapsto> t')) b = Some u" for b u
    using that tiling_len [OF assms(1)] assms by (auto split: if_splits)
  show "b + tile_len u \<le> N" if "(L(a \<mapsto> t')) b = Some u" for b u
    using that tiling_len [OF assms(1)] assms by (auto split: if_splits)
  show "b + tile_len u \<le> c" if "(L(a \<mapsto> t')) b = Some u" "(L(a \<mapsto> t')) c = Some v" "b < c" for b u c v
    using that tiling_order [OF assms(1)] assms(2,3) by (auto split: if_splits)
  fix i assume "i < N"
  then obtain b u where "L b = Some u" "b \<le> i" "i < b + tile_len u"
    using assms(1) unfolding tiling_def by blast
  then show "\<exists>b u. (L(a \<mapsto> t')) b = Some u \<and> b \<le> i \<and> i < b + tile_len u"
    using assms(2,3) by (intro exI [of _ b] exI [of _ "if b = a then t' else u"]) auto
qed

lemma tiling_split:
  assumes "tiling N L" and "L a = Some t" and "tile_len t1 + tile_len t2 = tile_len t"
    and "0 < tile_len t1" "0 < tile_len t2"
  shows "tiling N (L(a \<mapsto> t1, a + tile_len t1 \<mapsto> t2))" (is "tiling N ?L")
  unfolding tiling_def
proof (intro conjI allI impI)
  let ?c = "a + tile_len t1"
  note ord = tiling_order [OF assms(1)] and len = tiling_len [OF assms(1)]
  show "0 < tile_len u" "b + tile_len u \<le> N" if "?L b = Some u" for b u
    using that len [of b] len [OF assms(2)] assms(3-) by (auto split: if_splits)
  show "b + tile_len u \<le> d" if "?L b = Some u" "?L d = Some v" "b < d" for b u d v
    using that ord [of b u d v] ord [OF assms(2), of d v] ord [OF assms(2), of b u] ord [of b u a, OF _ assms(2)] assms(3-)
    by (cases a b rule: linorder_cases) (auto split: if_splits)
  fix i assume "i < N"
  then obtain b u where b: "L b = Some u" "b \<le> i" "i < b + tile_len u"
    using assms(1) unfolding tiling_def by blast
  have bc: "b \<noteq> ?c" using ord [OF assms(2) b(1)] assms(3-) by auto
  consider "b \<noteq> a" | "b = a" "i < ?c" | "b = a" "?c \<le> i" by linarith
  then show "\<exists>b u. ?L b = Some u \<and> b \<le> i \<and> i < b + tile_len u"
  proof cases
    case 1
    then show ?thesis using b bc by (intro exI [of _ b] exI [of _ u]) auto
  next
    case 2
    then show ?thesis using b assms(4) by (intro exI [of _ a] exI [of _ t1]) auto
  next
    case 3
    then show ?thesis using b assms(2,3) by (intro exI [of _ ?c] exI [of _ t2]) auto
  qed
qed

lemma tiling_merge:
  assumes "tiling N L" and "L a = Some t" and "L (a + tile_len t) = Some u"
    and "tile_len v = tile_len t + tile_len u"
  shows "tiling N (L(a + tile_len t := None, a \<mapsto> v))" (is "tiling N ?L")
  unfolding tiling_def
proof (intro conjI allI impI)
  let ?c = "a + tile_len t"
  note ord = tiling_order [OF assms(1)] and len = tiling_len [OF assms(1)]
  show "0 < tile_len w" "b + tile_len w \<le> N" if "?L b = Some w" for b w
    using that len [of b] len [OF assms(2)] len [OF assms(3)] assms(4) by (auto split: if_splits)
  show "b + tile_len w \<le> d" if "?L b = Some w" "?L d = Some x" "b < d" for b w d x
    using that ord [of b w d x] ord [OF assms(3), of d x] ord [OF assms(2), of d x]
      ord [of b w a, OF _ assms(2)] len [OF assms(3)] assms(4)
    by (auto split: if_splits)
  fix i assume "i < N"
  then obtain b w where b: "L b = Some w" "b \<le> i" "i < b + tile_len w"
    using assms(1) unfolding tiling_def by blast
  show "\<exists>b u. ?L b = Some u \<and> b \<le> i \<and> i < b + tile_len u"
  proof (cases "b = a \<or> b = ?c")
    case True
    then show ?thesis using b assms(2-) by (intro exI [of _ a] exI [of _ v]) auto
  next
    case False
    then show ?thesis using b by (intro exI [of _ b] exI [of _ w]) auto
  qed
qed

section \<open>Lemmas on the invariant\<close>

lemma chunk_data_cong:
  "bitmap p' a = bitmap p a \<Longrightarrow> pg_slab p' (PageDesc a) = pg_slab p (PageDesc a) \<Longrightarrow>
   chunk_data p' a k U = chunk_data p a k U"
  by (simp add: chunk_data_def chunk_bit_def)

lemma tile_ok_cong:
  assumes "tile_ok p a t" and "npages p' = npages p" and "bitmap p' a = bitmap p a"
    and "0 < tile_len t"
    and "\<And>i. a \<le> i \<Longrightarrow> i < a + tile_len t \<Longrightarrow> pg_slab p' (PageDesc i) = pg_slab p (PageDesc i)"
    and "\<And>i. a < i \<Longrightarrow> i < a + tile_len t \<Longrightarrow> pg_next p' (PageDesc i) = pg_next p (PageDesc i)"
    and "\<And>i. a < i \<Longrightarrow> i < a + tile_len t \<Longrightarrow> pg_prev p' (PageDesc i) = pg_prev p (PageDesc i)"
    and "list_of t = None \<Longrightarrow> pg_next p' (PageDesc a) = pg_next p (PageDesc a) \<and>
           pg_prev p' (PageDesc a) = pg_prev p (PageDesc a)"
  shows "tile_ok p' a t"
proof (cases t)
  case (Free_run n)
  then show ?thesis using assms by (auto simp: free_interior_def)
next
  case (Page_run n)
  then show ?thesis using assms by (auto simp: busy_interior_def)
next
  case (Chunks k U)
  have "pg_slab p' (PageDesc a) = pg_slab p (PageDesc a)" using assms(4,5) by simp
  then have "chunk_data p' a k U = chunk_data p a k U" using assms(3) by (rule chunk_data_cong [rotated])
  then show ?thesis using assms(1,8) Chunks by auto
next
  case (Hole n)
  then show ?thesis using assms by (auto simp: free_interior_def)
qed

lemma inv_but_tile:
  "inv_but A p L ls \<Longrightarrow> L b = Some t \<Longrightarrow> b \<notin> A \<Longrightarrow> tile_ok p b t"
  by (simp add: inv_but_def)

lemma inv_but_set:
  "inv_but A p L ls \<Longrightarrow> h \<in> heads \<Longrightarrow>
   set (ls h) = {b. b \<notin> A \<and> (\<exists>t. L b = Some t \<and> list_of t = Some h)}"
  by (simp add: inv_but_def)

lemma inv_but_list:
  "inv_but A p L ls \<Longrightarrow> h \<in> heads \<Longrightarrow> b \<in> set (ls h) \<longleftrightarrow> b \<notin> A \<and> (\<exists>t. L b = Some t \<and> list_of t = Some h)"
  by (simp add: inv_but_set)

lemma inv_but_ring: "inv_but A p L ls \<Longrightarrow> h \<in> heads \<Longrightarrow> ring p h (ls h)"
  by (simp add: inv_but_def)

lemma inv_but_tiling: "inv_but A p L ls \<Longrightarrow> tiling (npages p) L"
  by (simp add: inv_but_def)

lemma inv_but_geometry: "inv_but A p L ls \<Longrightarrow> geometry p"
  by (simp add: inv_but_def)

lemma list_of_heads: "tile_ok p a t \<Longrightarrow> list_of t = Some h \<Longrightarrow> h \<in> heads"
  by (cases t) (auto simp: heads_def chunk_data_def split: if_splits)

text \<open>Writes to the descriptors of exempt tiles do not matter.\<close>

lemma inv_but_modify:
  assumes inv: "inv_but A p L ls"
    and "geometry p'" and "npages p' = npages p"
    and s: "\<And>i. i \<notin> cells L A \<Longrightarrow> pg_slab p' (PageDesc i) = pg_slab p (PageDesc i)"
    and n: "\<And>i. i \<notin> cells L A \<Longrightarrow> pg_next p' (PageDesc i) = pg_next p (PageDesc i)"
    and v: "\<And>i. i \<notin> cells L A \<Longrightarrow> pg_prev p' (PageDesc i) = pg_prev p (PageDesc i)"
    and b: "\<And>i. i \<notin> cells L A \<Longrightarrow> bitmap p' i = bitmap p i"
    and h: "\<And>h. h \<in> heads \<Longrightarrow> pg_next p' h = pg_next p h"
  shows "inv_but A p' L ls"
proof -
  note tl = inv_but_tiling [OF inv]
  have out: "i \<notin> cells L A" if "L c = Some t" "c \<notin> A" "c \<le> i" "i < c + tile_len t" for c t i
    using cells_other [OF tl] that by blast
  have self: "c \<notin> cells L A" if "L c = Some t" "c \<notin> A" for c t
    using out [OF that] tiling_len [OF tl that(1)] by simp
  have "tile_ok p' c t" if c: "L c = Some t" "c \<notin> A" for c t
    by (rule tile_ok_cong [OF inv_but_tile [OF inv c]])
      (use out [OF c] self [OF c] s n v b assms(3) tiling_len [OF tl c(1)] in auto)
  moreover have "ring p' q (ls q)" if q: "q \<in> heads" for q
  proof -
    have m: "x \<notin> cells L A" if "x \<in> set (ls q)" for x
      using that self by (auto simp: inv_but_list [OF inv q])
    show ?thesis using inv_but_ring [OF inv q] ring_cong [of q "ls q" p' p] h [OF q] n v m by auto
  qed
  ultimately show ?thesis using inv assms(2,3) by (simp add: inv_but_def)
qed

lemma inv_but_relabel:
  assumes "inv_but A p L ls" and "a \<in> A" and "L a = Some t" and "tile_len t' = tile_len t"
  shows "inv_but A p (L(a \<mapsto> t')) ls"
  using assms tiling_relabel [OF inv_but_tiling [OF assms(1)] assms(3,4)]
  unfolding inv_but_def by auto

lemma inv_but_exempt:
  assumes "inv_but A p L ls" and "L a = Some t" and "list_of t = None"
  shows "inv_but (insert a A) p L ls"
  using assms unfolding inv_but_def by auto

lemma inv_but_settle:
  assumes "inv_but (insert a A) p L ls" and "L a = Some t" and "list_of t = None" and "tile_ok p a t"
  shows "inv_but A p L ls"
  using assms unfolding inv_but_def by (auto, metis option.inject)

lemma inv_but_member:
  assumes inv: "inv_but A p L ls" and L: "L a = Some t" and a: "a \<notin> A" and l: "list_of t = Some h"
  shows "h \<in> heads" "a \<in> set (ls h)"
  using list_of_heads [OF inv_but_tile [OF inv L a] l] inv_but_list [OF inv, of h a] assms by auto

lemma inv_but_ref_ok:
  assumes inv: "inv_but A p L ls" and h: "h \<in> heads"
  shows "ref_ok p h" and "x \<in> set (ls h) \<Longrightarrow> ref_ok p (PageDesc x)"
  using inv h tiling_len [OF inv_but_tiling [OF inv]]
  by (auto simp: heads_def inv_but_def geometry_def ngx_pagesize_shift_def) fastforce+

lemma inv_but_interior:
  assumes inv: "inv_but A p L ls" and L: "L b = Some t" and i: "b < i" "i < b + tile_len t"
  shows "L i = None"
  using tiling_unique [OF inv_but_tiling [OF inv], of i _ b t i] tiling_len [OF inv_but_tiling [OF inv], of i] L i
  by (cases "L i") fastforce+

text \<open>
  Writes to \<open>next\<close> and \<open>prev\<close> of the elements of a list keep the tiles that are not exempt.
\<close>

lemma tile_ok_relink:
  assumes inv: "inv_but A p L ls" and h: "h \<in> heads" and L: "L b = Some t" and b: "b \<notin> A"
    and p': "npages p' = npages p" "bitmap p' = bitmap p" "pg_slab p' = pg_slab p"
    and n: "\<And>i. i \<notin> set (ls h) \<Longrightarrow> pg_next p' (PageDesc i) = pg_next p (PageDesc i)"
    and v: "\<And>i. i \<notin> set (ls h) \<Longrightarrow> pg_prev p' (PageDesc i) = pg_prev p (PageDesc i)"
  shows "tile_ok p' b t"
proof (rule tile_ok_cong [OF inv_but_tile [OF inv L b]])
  have i: "i \<notin> set (ls h)" if "b < i" "i < b + tile_len t" for i
    using inv_but_interior [OF inv L that] by (simp add: inv_but_list [OF inv h])
  show "pg_next p' (PageDesc i) = pg_next p (PageDesc i)"
    "pg_prev p' (PageDesc i) = pg_prev p (PageDesc i)" if "b < i" "i < b + tile_len t" for i
    using n v i [OF that] by auto
  show "pg_next p' (PageDesc b) = pg_next p (PageDesc b) \<and> pg_prev p' (PageDesc b) = pg_prev p (PageDesc b)"
    if "list_of t = None"
    using n [of b] v [of b] that L by (auto simp: inv_but_list [OF inv h])
qed (use p' tiling_len [OF inv_but_tiling [OF inv] L] in auto)

lemma ring_other:
  assumes inv: "inv_but A p L ls" and h: "h \<in> heads" and q: "q \<in> heads" "q \<noteq> h"
    and hd: "pg_next p' q = pg_next p q"
    and n: "\<And>i. i \<notin> set (ls h) \<Longrightarrow> pg_next p' (PageDesc i) = pg_next p (PageDesc i)"
    and v: "\<And>i. i \<notin> set (ls h) \<Longrightarrow> pg_prev p' (PageDesc i) = pg_prev p (PageDesc i)"
  shows "ring p' q (ls q)"
proof -
  have "i \<notin> set (ls h)" if "i \<in> set (ls q)" for i
    using that q(2) by (auto simp: inv_but_list [OF inv h] inv_but_list [OF inv q(1)])
  then show ?thesis
    using inv_but_ring [OF inv q(1)] ring_cong [of q "ls q" p' p] hd n v by auto
qed

text \<open>Only the links differ.\<close>

definition links_only :: "slab_pool \<Rightarrow> slab_pool \<Rightarrow> bool" where
  "links_only p p' \<longleftrightarrow> (\<exists>nx pv. p' = p\<lparr>pg_next := nx, pg_prev := pv\<rparr>)"

lemma links_onlyD:
  assumes "links_only p p'"
  shows "pg_slab p' = pg_slab p" "bitmap p' = bitmap p" "npages p' = npages p" "pfree p' = pfree p"
    "sl_start p' = sl_start p" "sl_end p' = sl_end p" "geometry p' = geometry p" "min_shift p' = min_shift p"
  using assms by (auto simp: links_only_def geometry_def)

lemma inv_but_unlink:
  assumes inv: "inv_but A p L ls" and L: "L a = Some t" and a: "a \<notin> A" and l: "list_of t = Some h"
  obtains p' where "slab_unlink (PageDesc a) p = Done p'"
    and "inv_but (insert a A) p' L (ls(h := remove1 a (ls h)))"
    and "links_only p p'"
    and "\<And>i. i = a \<or> i \<notin> set (ls h) \<Longrightarrow> pg_next p' (PageDesc i) = pg_next p (PageDesc i)"
    and "\<And>i. i = a \<or> i \<notin> set (ls h) \<Longrightarrow> pg_prev p' (PageDesc i) = pg_prev p (PageDesc i)"
proof -
  note h = inv_but_member(1) [OF inv L a l] and m = inv_but_member(2) [OF inv L a l]
  obtain xs ys where xy: "ls h = xs @ a # ys" using split_list [OF m] by blast
  have r: "ring p h (xs @ a # ys)" using inv_but_ring [OF inv h] xy by simp
  have d: "distinct (xs @ a # ys)" using r by (simp add: ring_def)
  note nb = ring_neighbours [OF r]
  define pr where "pr = fst (pg_prev p (PageDesc a))"
  define nn where "nn = pg_next p (PageDesc a)"
  have pr: "pr = seg_last h xs" using nb(1) by (simp add: pr_def)
  have pr_in: "pr \<in> insert h (PageDesc ` set xs)" by (simp add: pr)
  have nn_in: "nn \<in> insert h (PageDesc ` set ys)" using nb(2) by (auto simp: nn_def split: list.splits)
  have pa: "pr \<noteq> PageDesc a" "nn \<noteq> PageDesc a" using pr_in nn_in d head_not_page [OF h, of a] by auto
  have ok: "ref_ok p pr" "ref_ok p nn"
    using pr_in nn_in inv_but_ref_ok [OF inv h] xy by auto
  define p' where "p' = p\<lparr>pg_next := (pg_next p)(pr := nn), pg_prev := (pg_prev p)(nn := pg_prev p (PageDesc a))\<rparr>"
  have ok': "ref_ok (set_next pr nn p) nn" using ok(2) by (cases nn) auto
  have run: "slab_unlink (PageDesc a) p = Done p'"
    using ok ok' pa by (simp add: slab_unlink_def Let_def p'_def pr_def nn_def)
  have n: "pg_next p' (PageDesc i) = pg_next p (PageDesc i)"
    and v: "pg_prev p' (PageDesc i) = pg_prev p (PageDesc i)" if "i = a \<or> i \<notin> set (ls h)" for i
    using that pr_in nn_in pa head_not_page [OF h, of i] xy by (auto simp: p'_def)
  have ring': "ring p' q ((ls(h := remove1 a (ls h))) q)" if q: "q \<in> heads" for q
  proof (cases "q = h")
    case True
    have "remove1 a (ls h) = xs @ ys" using d xy by (simp add: remove1_append)
    then show ?thesis
      using True ring_unlink [OF r h, of p'] by (simp add: p'_def pr_def nn_def)
  next
    case False
    have "pg_next p' q = pg_next p q" using pr_in False head_not_page [OF q] by (auto simp: p'_def)
    then show ?thesis using ring_other [OF inv h q False, of p'] n v False by auto
  qed
  have "tile_ok p' b u" if "L b = Some u" "b \<notin> insert a A" for b u
    by (rule tile_ok_relink [OF inv h that(1)]) (use that n v in \<open>auto simp: p'_def\<close>)
  moreover have "set ((ls(h := remove1 a (ls h))) q) =
      {b. b \<notin> insert a A \<and> (\<exists>t. L b = Some t \<and> list_of t = Some q)}" if q: "q \<in> heads" for q
  proof (cases "q = h")
    case True
    have "set (remove1 a (ls h)) = set (ls h) - {a}" using d xy by (intro set_remove1_eq) simp
    then show ?thesis using True by (auto simp: inv_but_set [OF inv h])
  next
    case False
    then show ?thesis using L l by (auto simp: inv_but_set [OF inv q])
  qed
  moreover have "geometry p'" "tiling (npages p') L"
    using inv_but_geometry [OF inv] inv_but_tiling [OF inv] by (simp_all add: p'_def geometry_def)
  ultimately have "inv_but (insert a A) p' L (ls(h := remove1 a (ls h)))"
    using ring' unfolding inv_but_def by blast
  moreover have "links_only p p'" by (auto simp: links_only_def p'_def)
  ultimately show ?thesis using that run n v by blast
qed

lemma inv_but_push:
  assumes inv: "inv_but (insert a A) p L ls" and a: "a \<notin> A" and L: "L a = Some t"
    and l: "list_of t = Some h" and ok: "tile_ok p a t"
    and p': "p' = p\<lparr>pg_next := (pg_next p)(PageDesc a := pg_next p h, h := PageDesc a),
        pg_prev := (pg_prev p)(PageDesc a := (h, head_type h), pg_next p h := (PageDesc a, head_type h))\<rparr>"
  shows "inv_but A p' L (ls(h := a # ls h))" and "ref_ok p (pg_next p h)"
proof -
  note h = list_of_heads [OF ok l]
  note r = inv_but_ring [OF inv h]
  have am: "a \<notin> set (ls q)" if "q \<in> heads" for q by (simp add: inv_but_list [OF inv that])
  have nx: "pg_next p h = (case ls h of [] \<Rightarrow> h | y # _ \<Rightarrow> PageDesc y)"
    using seg_first r by (auto simp: ring_def)
  then have nx_in: "pg_next p h \<in> insert h (PageDesc ` set (ls h))" by (auto split: list.splits)
  show "ref_ok p (pg_next p h)" using nx_in inv_but_ref_ok [OF inv h] by auto
  have nxa: "pg_next p h \<noteq> PageDesc a" using nx_in am [OF h] head_not_page [OF h, of a] by auto
  have n: "pg_next p' (PageDesc i) = pg_next p (PageDesc i)"
    and v: "pg_prev p' (PageDesc i) = pg_prev p (PageDesc i)" if "i \<notin> set (ls h)" "i \<noteq> a" for i
    using that nx_in head_not_page [OF h, of i] by (auto simp: p')
  have fld: "npages p' = npages p" "bitmap p' = bitmap p" "pg_slab p' = pg_slab p" by (simp_all add: p')
  have tiles: "tile_ok p' b u" if b: "L b = Some u" "b \<notin> A" for b u
  proof (cases "b = a")
    case True
    have ai: "i \<notin> set (ls h)" if "a < i" "i < a + tile_len t" for i
      using inv_but_interior [OF inv L that] by (simp add: inv_but_list [OF inv h])
    have "tile_ok p' a t"
      by (rule tile_ok_cong [OF ok]) (use fld n v ai l tiling_len [OF inv_but_tiling [OF inv] L] in auto)
    then show ?thesis using True b L by simp
  next
    case False
    then have bA: "b \<notin> insert a A" using b by simp
    have bi: "i \<noteq> a \<and> i \<notin> set (ls h)" if "b < i" "i < b + tile_len u" for i
      using inv_but_interior [OF inv b(1) that] L by (auto simp: inv_but_list [OF inv h])
    show ?thesis
      by (rule tile_ok_cong [OF inv_but_tile [OF inv b(1) bA]])
        (use fld n v bi bA b tiling_len [OF inv_but_tiling [OF inv] b(1)] in
          \<open>auto simp: inv_but_list [OF inv h]\<close>)
  qed
  have rings: "ring p' q ((ls(h := a # ls h)) q)" if q: "q \<in> heads" for q
  proof (cases "q = h")
    case True
    then show ?thesis using ring_push [OF r h am [OF h], of p'] by (simp add: p')
  next
    case False
    have e: "pg_next p' q = pg_next p q" using False head_not_page [OF q] by (simp add: p')
    have "i \<notin> set (ls h) \<and> i \<noteq> a" if "i \<in> set (ls q)" for i
      using that False am [OF q] by (auto simp: inv_but_list [OF inv h] inv_but_list [OF inv q])
    then show ?thesis
      using False inv_but_ring [OF inv q] ring_cong [of q "ls q" p' p] n v e by auto
  qed
  have sets: "set ((ls(h := a # ls h)) q) = {b. b \<notin> A \<and> (\<exists>t. L b = Some t \<and> list_of t = Some q)}"
    if q: "q \<in> heads" for q
    using L l a by (auto simp: inv_but_set [OF inv q] inv_but_set [OF inv h])
  have "geometry p'" "tiling (npages p') L"
    using inv_but_geometry [OF inv] inv_but_tiling [OF inv] by (simp_all add: p' geometry_def)
  then show "inv_but A p' L (ls(h := a # ls h))"
    using tiles rings sets unfolding inv_but_def by blast
qed

lemma inv_but_merge:
  assumes inv: "inv_but (insert c A) p L ls" and a: "a \<in> A" and L: "L a = Some t" "L c = Some u"
    and c: "c = a + tile_len t" and v: "tile_len v = tile_len t + tile_len u" and cA: "c \<notin> A"
  shows "inv_but A p (L(c := None, a \<mapsto> v)) ls"
proof -
  have "tiling (npages p) (L(c := None, a \<mapsto> v))"
    using tiling_merge [OF inv_but_tiling [OF inv] L(1) _ v] L c by simp
  then show ?thesis using inv a cA unfolding inv_but_def by auto
qed

section \<open>Words\<close>

lemma unat_small: "n < 2 ^ 32 \<Longrightarrow> unat (of_nat n :: 64 word) = n"
  by (simp add: unat_of_nat take_bit_nat_eq_self)

lemma small_bit: "n < 2 ^ 32 \<Longrightarrow> bit (of_nat n :: 64 word) i \<Longrightarrow> i < 32"
proof -
  assume n: "n < 2 ^ 32" and b: "bit (of_nat n :: 64 word) i"
  have "take_bit 32 n = n" using n by (simp add: take_bit_nat_eq_self)
  then show ?thesis using b by (metis bit_of_nat_iff bit_take_bit_iff)
qed

lemma page_start_bits: "bit NGX_SLAB_PAGE_START i \<longleftrightarrow> i = 63"
  unfolding NGX_SLAB_PAGE_START_def bit_push_bit_iff by (auto simp: bit_1_iff)

lemma page_run_word:
  assumes "n < 2 ^ 32"
  shows "of_nat n OR NGX_SLAB_PAGE_START \<noteq> (0 :: 64 word)"
    and "(of_nat n OR NGX_SLAB_PAGE_START) AND NGX_SLAB_PAGE_START \<noteq> (0 :: 64 word)"
    and "of_nat n OR NGX_SLAB_PAGE_START \<noteq> NGX_SLAB_PAGE_BUSY"
    and "(of_nat n OR NGX_SLAB_PAGE_START) AND NOT NGX_SLAB_PAGE_START = (of_nat n :: 64 word)"
proof -
  let ?w = "of_nat n OR NGX_SLAB_PAGE_START :: 64 word"
  have w: "bit ?w i \<longleftrightarrow> bit (of_nat n :: 64 word) i \<or> i = 63" for i
    by (simp add: bit_or_iff page_start_bits)
  show "?w \<noteq> 0" using w [of 63] by auto
  have "bit (?w AND NGX_SLAB_PAGE_START) 63" using w [of 63] by (simp add: bit_and_iff page_start_bits)
  then show "?w AND NGX_SLAB_PAGE_START \<noteq> 0" by auto
  have "\<not> bit ?w 40" using small_bit [OF assms, of 40] w [of 40] by auto
  then show "?w \<noteq> NGX_SLAB_PAGE_BUSY" by (auto simp: NGX_SLAB_PAGE_BUSY_def)
  show "?w AND NOT NGX_SLAB_PAGE_START = of_nat n"
  proof (rule bit_word_eqI)
    fix i assume "i < LENGTH(64)"
    then show "bit (?w AND NOT NGX_SLAB_PAGE_START) i = bit (of_nat n :: 64 word) i"
      using small_bit [OF assms, of i] unfolding bit_and_iff bit_not_iff w page_start_bits by auto
  qed
qed

section \<open>Loops over descriptors\<close>

lemma mark_busy_eq:
  "mark_busy i k p = p\<lparr>pg_slab := (\<lambda>r. if r \<in> PageDesc ` {i..<i + k} then NGX_SLAB_PAGE_BUSY else pg_slab p r),
     pg_next := (\<lambda>r. if r \<in> PageDesc ` {i..<i + k} then NULLref else pg_next p r),
     pg_prev := (\<lambda>r. if r \<in> PageDesc ` {i..<i + k} then (NULLref, NGX_SLAB_PAGE) else pg_prev p r)\<rparr>"
proof (induction k arbitrary: i p)
  case (Suc k)
  have "{i..<i + Suc k} = insert i {i + 1..<i + 1 + k}" by auto
  then show ?case unfolding mark_busy.simps Suc.IH by (auto simp: fun_eq_iff)
qed simp

lemma zero_descs_eq:
  "zero_descs i k p = p\<lparr>pg_slab := (\<lambda>r. if r \<in> PageDesc ` {i..<i + k} then 0 else pg_slab p r),
     pg_next := (\<lambda>r. if r \<in> PageDesc ` {i..<i + k} then NULLref else pg_next p r),
     pg_prev := (\<lambda>r. if r \<in> PageDesc ` {i..<i + k} then (NULLref, NGX_SLAB_PAGE) else pg_prev p r)\<rparr>"
proof (induction k arbitrary: i p)
  case (Suc k)
  have "{i..<i + Suc k} = insert i {i + 1..<i + 1 + k}" by auto
  then show ?case unfolding zero_descs.simps Suc.IH by (auto simp: fun_eq_iff)
qed simp

section \<open>Free pages of a layout\<close>

lemma free_pages_update:
  assumes "a < N"
  shows "free_pages N (L(a := x)) + free_len (L a) = free_pages N L + free_len x"
proof -
  have "free_pages N L = free_len (L a) + (\<Sum>i \<in> {..<N} - {a}. free_len (L i))"
    unfolding free_pages_def using assms by (subst sum.remove [of _ a]) auto
  moreover have "free_pages N (L(a := x)) = free_len x + (\<Sum>i \<in> {..<N} - {a}. free_len (L i))"
    unfolding free_pages_def using assms by (subst sum.remove [of _ a]) auto
  ultimately show ?thesis by simp
qed

lemma free_len_simps [simp]:
  "free_len None = 0" "free_len (Some (Free_run n)) = n" "free_len (Some (Hole n)) = n"
  "free_len (Some (Page_run n)) = 0" "free_len (Some (Chunks k U)) = 0"
  by (simp_all add: free_len_def)

section \<open>Allocating pages\<close>

text \<open>Taking \<open>n\<close> pages from the front of the free run of \<open>m\<close> pages at \<open>a\<close>.\<close>

definition take_run :: "layout \<Rightarrow> nat \<Rightarrow> nat \<Rightarrow> nat \<Rightarrow> layout" where
  "take_run L a m n =
     (if m = n then L(a \<mapsto> Page_run n) else L(a \<mapsto> Page_run n, a + n \<mapsto> Free_run (m - n)))"

lemma find_free_pages_seg:
  assumes "seg p t r xs FreeHead" and "\<forall>x \<in> set xs. ref_ok p (PageDesc x)"
  shows "find_free_pages p n (pg_next p r) =
    Some (Done (case find (\<lambda>a. n \<le> unat (pg_slab p (PageDesc a))) xs of
                  Some a \<Rightarrow> PageDesc a | None \<Rightarrow> FreeHead))"
  using assms
proof (induction xs arbitrary: r)
  case Nil
  then show ?case by (simp add: find_free_pages.simps)
next
  case (Cons x xs)
  then show ?case using Cons.IH [of "PageDesc x"] by (subst find_free_pages.simps) auto
qed

lemma split_run_ok:
  assumes inv: "inv_but {} p L ls" and L: "L a = Some (Free_run m)" and n: "0 < n" "n < m"
  shows "\<exists>p' ls'. split_run a n p = Done p' \<and>
    inv_but {a} p' (L(a \<mapsto> Page_run n, a + n \<mapsto> Free_run (m - n))) ls' \<and>
    (pfree p' = pfree p \<and> npages p' = npages p \<and> sl_start p' = sl_start p)"
proof -
  let ?h = FreeHead
  let ?b = "PageDesc (a + n)" and ?e = "PageDesc (a + m - 1)"
  note tl = inv_but_tiling [OF inv] and geo = inv_but_geometry [OF inv]
  have h: "?h \<in> heads" by (simp add: heads_def)
  have ok: "tile_ok p a (Free_run m)" using inv_but_tile [OF inv L] by simp
  have mN: "a + m \<le> npages p" using tiling_len [OF tl L] by simp
  have m32: "m < 2 ^ 32" using mN geo by (simp add: geometry_def)
  have slab: "pg_slab p (PageDesc a) = of_nat m" using ok by simp
  have u: "unat (pg_slab p (PageDesc a)) = m" using slab unat_small [OF m32] by simp
  have mem: "a \<in> set (ls ?h)" using inv_but_member(2) [OF inv L] by simp
  obtain xs ys where xy: "ls ?h = xs @ a # ys" using split_list [OF mem] by blast
  have r: "ring p ?h (xs @ a # ys)" using inv_but_ring [OF inv h] xy by simp
  note nb = ring_neighbours [OF r]
  have d: "distinct (xs @ a # ys)" using r by (simp add: ring_def)
  define pr where "pr = seg_last ?h xs"
  define nn where "nn = pg_next p (PageDesc a)"
  have prev: "pg_prev p (PageDesc a) = (pr, NGX_SLAB_PAGE)" using nb(1) by (simp add: pr_def)
  have pr_in: "pr \<in> insert ?h (PageDesc ` set xs)" by (simp add: pr_def)
  have nn_in: "nn \<in> insert ?h (PageDesc ` set ys)" using nb(2) by (auto simp: nn_def split: list.splits)
  have mems: "i \<notin> set (ls ?h)" if "a < i" "i < a + m" for i
    using inv_but_interior [OF inv L, of i] that by (simp add: inv_but_list [OF inv h])
  have an: "a + n \<notin> set (ls ?h)" "a + m - 1 \<notin> set (ls ?h)" using mems n by auto
  have ne: "pr \<noteq> PageDesc a" "nn \<noteq> PageDesc a" "pr \<noteq> ?b" "nn \<noteq> ?b" "pr \<noteq> ?e" "nn \<noteq> ?e"
    using pr_in nn_in d an xy by auto
  have refs: "ref_ok p pr" "ref_ok p nn" using pr_in nn_in inv_but_ref_ok [OF inv h] xy by auto
  define p' where "p' = p\<lparr>pg_slab := (pg_slab p)(?b := of_nat m - of_nat n),
      pg_next := (pg_next p)(?b := nn, pr := ?b),
      pg_prev := (pg_prev p)(?e := (?b, NGX_SLAB_PAGE), ?b := (pr, NGX_SLAB_PAGE), nn := (?b, NGX_SLAB_PAGE))\<rparr>"
  have refs': "ref_ok q pr" "ref_ok q nn" if "npages q = npages p" "min_shift q = min_shift p" for q
    using refs that by (cases pr; cases nn; auto)+
  have ae: "a \<noteq> a + m - Suc 0" using n by simp
  have run: "split_run a n p = Done p'"
    using ae ne n prev slab u refs' unfolding split_run_def Let_def
    by (simp add: p'_def nn_def prev)
  let ?L = "L(a \<mapsto> Page_run n, a + n \<mapsto> Free_run (m - n))"
  let ?ls = "ls(?h := xs @ (a + n) # ys)"
  have Lan: "L (a + n) = None" using inv_but_interior [OF inv L] n by simp
  have nxt: "pg_next p' (PageDesc i) = pg_next p (PageDesc i)"
    and prv: "pg_prev p' (PageDesc i) = pg_prev p (PageDesc i)"
    if "i \<notin> set (ls ?h)" "i \<noteq> a + n" "i \<noteq> a + m - 1" for i
    using that pr_in nn_in xy by (auto simp: p'_def)
  have tiles: "tile_ok p' b t" if b: "?L b = Some t" "b \<notin> {a}" for b t
  proof (cases "b = a + n")
    case True
    then have t: "t = Free_run (m - n)" using b by simp
    have "of_nat m - of_nat n = (of_nat (m - n) :: 64 word)" using n by (simp add: of_nat_diff)
    moreover have "free_interior p' i" if "a + n < i" "i < a + m" for i
    proof -
      have "free_interior p i" using ok that by simp
      moreover have "i \<notin> set (ls ?h)" using mems that by simp
      ultimately show ?thesis
        using that pr_in nn_in xy by (auto simp: free_interior_def p'_def)
    qed
    ultimately show ?thesis using t True ne n by (auto simp: p'_def)
  next
    case False
    then have Lb: "L b = Some t" using b by simp
    have sep: "i < a \<or> a + m \<le> i" if "b \<le> i" "i < b + tile_len t" for i
      using tiling_order [OF tl Lb L] tiling_order [OF tl L Lb] b(2) that by (cases a b rule: linorder_cases) auto
    have i: "i \<notin> set (ls ?h)" if "b < i" "i < b + tile_len t" for i
      using inv_but_interior [OF inv Lb that] by (simp add: inv_but_list [OF inv h])
    have sep': "i \<noteq> a + n \<and> i \<noteq> a + m - 1" if "b \<le> i" "i < b + tile_len t" for i
      using sep [OF that] n by auto
    show ?thesis
    proof (rule tile_ok_cong [OF inv_but_tile [OF inv Lb]])
      show "pg_slab p' (PageDesc j) = pg_slab p (PageDesc j)" if "b \<le> j" "j < b + tile_len t" for j
        using sep' [OF that] by (simp add: p'_def)
      show "pg_next p' (PageDesc j) = pg_next p (PageDesc j)"
        "pg_prev p' (PageDesc j) = pg_prev p (PageDesc j)" if "b < j" "j < b + tile_len t" for j
        using nxt [of j] prv [of j] i [OF that] sep' [of j] that by auto
      show "pg_next p' (PageDesc b) = pg_next p (PageDesc b) \<and> pg_prev p' (PageDesc b) = pg_prev p (PageDesc b)"
        if "list_of t = None"
        using nxt [of b] prv [of b] that Lb sep' [of b] tiling_len [OF tl Lb] by (auto simp: inv_but_list [OF inv h])
    qed (use tiling_len [OF tl Lb] in \<open>auto simp: p'_def\<close>)
  qed
  have rings: "ring p' q (?ls q)" if q: "q \<in> heads" for q
  proof (cases "q = ?h")
    case True
    have bn: "a + n \<notin> set (xs @ a # ys)" using an xy by simp
    have "ring p' ?h (xs @ (a + n) # ys)"
    proof (rule ring_replace [OF r h bn])
      show "pg_next p' = (pg_next p)(?b := pg_next p (PageDesc a), fst (pg_prev p (PageDesc a)) := ?b)"
        by (simp add: p'_def nn_def prev)
      show "pg_prev p' s = ((pg_prev p)(?b := pg_prev p (PageDesc a), pg_next p (PageDesc a) := (?b, head_type ?h))) s"
        if "s \<in> insert ?b (PageDesc ` set (xs @ ys))" for s
        using that an xy by (auto simp: p'_def nn_def prev)
    qed
    then show ?thesis using True by simp
  next
    case False
    have e: "pg_next p' q = pg_next p q" using False pr_in head_not_page [OF q] by (auto simp: p'_def)
    have "i \<notin> set (ls ?h) \<and> i \<noteq> a + n \<and> i \<noteq> a + m - 1" if iq: "i \<in> set (ls q)" for i
    proof -
      obtain t where t: "L i = Some t" "list_of t = Some q" using iq by (auto simp: inv_but_list [OF inv q])
      then have "i \<notin> set (ls ?h)" using False by (auto simp: inv_but_list [OF inv h])
      moreover have "\<not> (a < i \<and> i < a + m)" using t(1) inv_but_interior [OF inv L, of i] by auto
      then have "i \<noteq> a + n \<and> i \<noteq> a + m - 1" using n by linarith
      ultimately show ?thesis by simp
    qed
    then show ?thesis using False inv_but_ring [OF inv q] ring_cong [of q "ls q" p' p] nxt prv e by auto
  qed
  have sets: "set (?ls q) = {b. b \<notin> {a} \<and> (\<exists>t. ?L b = Some t \<and> list_of t = Some q)}" if q: "q \<in> heads" for q
  proof (cases "q = ?h")
    case True
    have "set (xs @ ys) = set (ls ?h) - {a}" using xy d by auto
    then show ?thesis using True n Lan by (auto simp: inv_but_set [OF inv h])
  next
    case False
    then show ?thesis using L Lan by (auto simp: inv_but_set [OF inv q])
  qed
  have "tiling (npages p') ?L"
    using tiling_split [OF tl L, of "Page_run n" "Free_run (m - n)"] n by (simp add: p'_def)
  moreover have "geometry p'" using geo by (simp add: geometry_def p'_def)
  ultimately have "inv_but {a} p' ?L ?ls" using tiles rings sets unfolding inv_but_def by blast
  then show ?thesis using run by (auto simp: p'_def)
qed

lemma slab_invD:
  assumes "slab_inv p L"
  obtains ls where "inv_but {} p L ls" "coalesced L" "\<And>a n. L a \<noteq> Some (Hole n)"
    "\<And>a k. L a \<noteq> Some (Chunks k {})" "pfree p = of_nat (free_pages (npages p) L)"
  using assms unfolding slab_inv_def by blast

lemma coalesced_take:
  assumes "tiling N L" and c: "coalesced L" and L: "L a = Some (Free_run m)" and n: "0 < n" "n \<le> m"
  shows "coalesced (take_run L a m n)"
proof -
  note ord = tiling_order [OF assms(1)]
  have "L (a + m) \<noteq> Some (Free_run j)" for j using c L by (auto simp: coalesced_def)
  moreover have "b + k \<noteq> a + n" if "L b = Some (Free_run k)" "b \<noteq> a" "n < m" for b k
    using ord [OF that(1) L] ord [OF L that(1)] that n by (cases a b rule: linorder_cases) auto
  moreover have "L (b + k) \<noteq> Some (Free_run j)" if "L b = Some (Free_run k)" for b k j
    using c that by (auto simp: coalesced_def)
  ultimately show ?thesis using n by (auto simp: coalesced_def take_run_def)
qed

lemma free_pages_take:
  assumes "tiling N L" and L: "L a = Some (Free_run m)" and n: "0 < n" "n \<le> m"
  shows "free_pages N (take_run L a m n) + n = free_pages N L"
proof -
  have aN: "a + m \<le> N" using tiling_len [OF assms(1) L] by simp
  have e: "free_pages N (L(a \<mapsto> Page_run n)) + m = free_pages N L"
    using free_pages_update [of a N L "Some (Page_run n)"] aN L n by simp
  show ?thesis
  proof (cases "m = n")
    case True
    then show ?thesis using e by (simp add: take_run_def)
  next
    case False
    have "L (a + n) = None"
    proof (rule ccontr)
      assume "L (a + n) \<noteq> None"
      then obtain t where "L (a + n) = Some t" by blast
      then show False using tiling_order [OF assms(1) L] n False by fastforce
    qed
    then show ?thesis
      using free_pages_update [of "a + n" N "L(a \<mapsto> Page_run n)" "Some (Free_run (m - n))"] e aN n False
      by (simp add: take_run_def)
  qed
qed

text \<open>Settling the pages taken from the front of a run.\<close>

lemma inv_but_page_run:
  assumes inv: "inv_but {a} p L ls" and L: "L a = Some (Page_run n)"
    and p': "p' = mark_busy (a + 1) (n - 1)
       (p\<lparr>pg_slab := (pg_slab p)(PageDesc a := of_nat n OR NGX_SLAB_PAGE_START),
          pg_next := (pg_next p)(PageDesc a := NULLref),
          pg_prev := (pg_prev p)(PageDesc a := (NULLref, NGX_SLAB_PAGE)), pfree := f\<rparr>)"
  shows "inv_but {} p' L ls"
proof -
  have n: "0 < n" using tiling_len [OF inv_but_tiling [OF inv] L] by simp
  have c: "cells L {a} = {a..<a + n}" using cells_insert [of L a "Page_run n" "{}"] L by simp
  have "inv_but {a} p' L ls"
    by (rule inv_but_modify [OF inv])
      (use inv_but_geometry [OF inv] n head_not_page in \<open>auto simp: p' mark_busy_eq c geometry_def\<close>)
  moreover have "tile_ok p' a (Page_run n)"
    using n by (auto simp: p' mark_busy_eq busy_interior_def)
  ultimately show ?thesis using inv_but_settle [of a "{}" p' L ls] L by simp
qed

lemma ngx_slab_alloc_pages_ok:
  assumes inv: "slab_inv p L" and n: "0 < n"
  shows "(\<exists>a m p'. ngx_slab_alloc_pages p n = Done (Some a, p') \<and> L a = Some (Free_run m) \<and> n \<le> m \<and>
             slab_inv p' (take_run L a m n) \<and> npages p' = npages p \<and> sl_start p' = sl_start p) \<or>
         (ngx_slab_alloc_pages p n = Done (None, p) \<and> (\<forall>a m. L a = Some (Free_run m) \<longrightarrow> m < n))"
proof -
  obtain ls where i: "inv_but {} p L ls" and co: "coalesced L" and nh: "\<And>a n. L a \<noteq> Some (Hole n)"
    and ne: "\<And>a k. L a \<noteq> Some (Chunks k {})" and pf: "pfree p = of_nat (free_pages (npages p) L)"
    using inv by (rule slab_invD) blast
  note tl = inv_but_tiling [OF i] and geo = inv_but_geometry [OF i]
  have h: "FreeHead \<in> heads" by (simp add: heads_def)
  have sl: "unat (pg_slab p (PageDesc a)) = m" if "L a = Some (Free_run m)" for a m
    using inv_but_tile [OF i that] tiling_len [OF tl that] geo unat_small [of m] by (auto simp: geometry_def)
  have mem: "a \<in> set (ls FreeHead) \<longleftrightarrow> (\<exists>m. L a = Some (Free_run m))" for a
    using inv_but_list [OF i h, of a]
    by (auto elim!: list_of.elims [where y = "Some FreeHead"] split: if_splits)
  have find: "find_free_pages p n (pg_next p FreeHead) =
      Some (Done (case find (\<lambda>a. n \<le> unat (pg_slab p (PageDesc a))) (ls FreeHead) of
                    Some a \<Rightarrow> PageDesc a | None \<Rightarrow> FreeHead))"
    using inv_but_ring [OF i h] inv_but_ref_ok [OF i h]
    by (intro find_free_pages_seg) (auto simp: ring_def)
  show ?thesis
  proof (cases "find (\<lambda>a. n \<le> unat (pg_slab p (PageDesc a))) (ls FreeHead)")
    case None
    have "m < n" if "L a = Some (Free_run m)" for a m
      using None that sl [OF that] mem [of a] by (force simp: find_None_iff)
    then show ?thesis using None find geo by (simp add: ngx_slab_alloc_pages_def geometry_def)
  next
    case (Some a)
    then have "a \<in> set (ls FreeHead)" "n \<le> unat (pg_slab p (PageDesc a))"
      by (auto simp: find_Some_iff)
    then obtain m where L: "L a = Some (Free_run m)" and m: "n \<le> m" using mem sl by auto
    note u = sl [OF L]
    define fin where "fin q = mark_busy (a + 1) (n - 1)
       (q\<lparr>pg_slab := (pg_slab q)(PageDesc a := of_nat n OR NGX_SLAB_PAGE_START),
          pg_next := (pg_next q)(PageDesc a := NULLref),
          pg_prev := (pg_prev q)(PageDesc a := (NULLref, NGX_SLAB_PAGE)), pfree := pfree q - of_nat n\<rparr>)" for q
    have "\<exists>q ls'. (if m > n then split_run a n p
             else c_assert (ngx_slab_page_type p (PageDesc a) = NGX_SLAB_PAGE) (slab_unlink (PageDesc a) p)) = Done q \<and>
           inv_but {a} q (take_run L a m n) ls' \<and> pfree q = pfree p \<and> npages q = npages p \<and> sl_start q = sl_start p"
    proof (cases "m = n")
      case False
      then show ?thesis
        using split_run_ok [OF i L n] m unfolding take_run_def by auto
    next
      case True
      obtain q where q: "slab_unlink (PageDesc a) p = Done q"
        "inv_but {a} q L (ls(FreeHead := remove1 a (ls FreeHead)))"
        "links_only p q"
        by (rule inv_but_unlink [OF i L, of FreeHead]) auto
      have "inv_but {a} q (take_run L a m n) (ls(FreeHead := remove1 a (ls FreeHead)))"
        using inv_but_relabel [OF q(2) _ L, of "Page_run n"] True by (simp add: take_run_def)
      moreover obtain xs ys where "ls FreeHead = xs @ a # ys"
        using split_list \<open>a \<in> set (ls FreeHead)\<close> by metis
      then have "ngx_slab_page_type p (PageDesc a) = NGX_SLAB_PAGE"
        using ring_neighbours(1) [of p FreeHead xs a ys] inv_but_ring [OF i h] by simp
      moreover have "pfree q = pfree p" "npages q = npages p" "sl_start q = sl_start p"
        using links_onlyD [OF q(3)] by simp_all
      ultimately show ?thesis using q(1) True by auto
    qed
    then obtain q ls' where q: "(if m > n then split_run a n p
             else c_assert (ngx_slab_page_type p (PageDesc a) = NGX_SLAB_PAGE) (slab_unlink (PageDesc a) p)) = Done q"
      "inv_but {a} q (take_run L a m n) ls'" "pfree q = pfree p" "npages q = npages p" "sl_start q = sl_start p"
      by blast
    have run: "ngx_slab_alloc_pages p n = Done (Some a, fin q)"
      unfolding ngx_slab_alloc_pages_def find Some using q(1) u
      by (simp add: fin_def)
    have La: "take_run L a m n a = Some (Page_run n)" using n by (simp add: take_run_def)
    have fq: "npages (fin q) = npages p" "sl_start (fin q) = sl_start p" "pfree (fin q) = pfree p - of_nat n"
      using q by (simp_all add: fin_def mark_busy_eq)
    have "inv_but {} (fin q) (take_run L a m n) ls'"
      by (rule inv_but_page_run [OF q(2) La]) (simp add: fin_def)
    moreover have "pfree (fin q) = of_nat (free_pages (npages p) (take_run L a m n))"
      using free_pages_take [OF tl L n m] pf fq(3) by (metis add_diff_cancel_right' of_nat_add)
    moreover have "coalesced (take_run L a m n)" by (rule coalesced_take [OF tl co L n m])
    ultimately have "slab_inv (fin q) (take_run L a m n)"
      using nh ne fq(1) unfolding slab_inv_def by (auto simp: take_run_def)
    then show ?thesis using run L m fq by blast
  qed
qed

section \<open>Freeing pages\<close>

text \<open>The tiles in use.\<close>

definition busy :: "layout \<Rightarrow> (nat \<times> tile) set" where
  "busy L = {(b, u). L b = Some u \<and> free_len (Some u) = 0}"

text \<open>The run of \<open>n\<close> pages at \<open>a\<close> is being freed.\<close>

definition freeing :: "slab_pool \<Rightarrow> layout \<Rightarrow> nat \<Rightarrow> nat \<Rightarrow> bool" where
  "freeing p L a n \<longleftrightarrow>
     (\<exists>ls. inv_but {} p L ls) \<and> coalesced L \<and> L a = Some (Hole n) \<and>
     (\<forall>b m. L b = Some (Hole m) \<longrightarrow> b = a)"

lemma slab_unlink_frame:
  assumes "slab_unlink r p = Done q"
  shows "slab_unlink r (p\<lparr>pg_slab := s, pfree := f\<rparr>) = Done (q\<lparr>pg_slab := s, pfree := f\<rparr>)"
proof -
  have "ref_ok (p\<lparr>pg_slab := s, pfree := f\<rparr>) x = ref_ok p x" for x by (cases x) auto
  moreover have "ref_ok (p\<lparr>pg_slab := s, pfree := f, pg_next := g\<rparr>) x = ref_ok (p\<lparr>pg_next := g\<rparr>) x"
    for x g by (cases x) auto
  ultimately show ?thesis
    using assms by (auto simp: slab_unlink_def Let_def c_assert_def split: if_splits)
qed

lemma linked_next:
  assumes "inv_but A p L ls" and "L a = Some t" and "a \<notin> A" and "list_of t = Some h"
  shows "pg_next p (PageDesc a) \<noteq> NULLref" and "ngx_slab_page_type p (PageDesc a) = head_type h"
proof -
  note m = inv_but_member [OF assms]
  obtain xs ys where "ls h = xs @ a # ys" using split_list [OF m(2)] by blast
  then have r: "ring p h (xs @ a # ys)" using inv_but_ring [OF assms(1) m(1)] by simp
  show "pg_next p (PageDesc a) \<noteq> NULLref" "ngx_slab_page_type p (PageDesc a) = head_type h"
    using ring_neighbours [OF r] head_not_null [OF m(1)] by (auto split: list.splits)
qed

lemma shift_cases:
  assumes "3 \<le> k" "k \<le> (11 :: nat)"
  obtains "k = 3" | "k = 4" | "k = 5" | "k = 6" | "k = 7" | "k = 8" | "k = 9" | "k = 10" | "k = 11"
  using assms by linarith

lemma chunk_range_ne: "3 \<le> k \<Longrightarrow> k \<le> 11 \<Longrightarrow> chunk_range k \<noteq> {}"
  by (erule (1) shift_cases)
    (auto simp: chunk_range_def nchunks_def bitmap_chunks_def ngx_pagesize_def)

text \<open>A tile in no list becomes a hole.\<close>

lemma hole_from_page_run:
  assumes inv: "inv_but {} p L ls" and L: "L a = Some (Page_run n)"
    and p': "p' = zero_descs (a + 1) (n - 1)
      (p\<lparr>pg_slab := (pg_slab p)(PageDesc a := of_nat n), pfree := f\<rparr>)"
  shows "inv_but {} p' (L(a \<mapsto> Hole n)) ls"
proof -
  have n: "0 < n" using tiling_len [OF inv_but_tiling [OF inv] L] by simp
  have c: "cells L {a} = {a..<a + n}" using cells_insert [of L a "Page_run n" "{}"] L by simp
  have "inv_but {a} p' L ls"
    by (rule inv_but_modify [OF inv_but_exempt [OF inv L]])
      (use inv_but_geometry [OF inv] n head_not_page in \<open>auto simp: p' zero_descs_eq c geometry_def\<close>)
  from inv_but_relabel [OF this _ L, of "Hole n"]
  have "inv_but {a} p' (L(a \<mapsto> Hole n)) ls" by simp
  moreover have "tile_ok p' a (Hole n)" using n by (auto simp: p' zero_descs_eq free_interior_def)
  ultimately show ?thesis using inv_but_settle [of a "{}" p' _ ls] by simp
qed

lemma hole_from_chunks:
  assumes inv: "inv_but {} p L ls" and L: "L a = Some (Chunks k {})"
    and p': "p' = p\<lparr>pg_slab := (pg_slab p)(PageDesc a := 1), pfree := f\<rparr>"
  shows "\<exists>q ls'. slab_unlink (PageDesc a) p' = Done q \<and> inv_but {} q (L(a \<mapsto> Hole 1)) ls' \<and>
    links_only p' q"
proof -
  have k: "3 \<le> k" "k \<le> 11" using inv_but_tile [OF inv L] by (simp_all add: chunk_data_def)
  have l: "list_of (Chunks k {}) = Some (SlotHead (k - 3))" using chunk_range_ne [OF k] by auto
  obtain q where q: "slab_unlink (PageDesc a) p = Done q"
    "inv_but {a} q L (ls(SlotHead (k - 3) := remove1 a (ls (SlotHead (k - 3)))))" "links_only p q"
    by (rule inv_but_unlink [OF inv L _ l]) auto
  let ?ls = "ls(SlotHead (k - 3) := remove1 a (ls (SlotHead (k - 3))))"
  define r where "r = q\<lparr>pg_slab := (pg_slab p)(PageDesc a := 1), pfree := f\<rparr>"
  have c: "cells L {a} = {a}" using cells_insert [of L a "Chunks k {}" "{}"] L by auto
  have "inv_but {a} r L ?ls"
    by (rule inv_but_modify [OF q(2)])
      (use inv_but_geometry [OF q(2)] c links_onlyD(1) [OF q(3)] in \<open>auto simp: r_def geometry_def\<close>)
  from inv_but_relabel [OF this _ L, of "Hole 1"]
  have "inv_but {a} r (L(a \<mapsto> Hole 1)) ?ls" by simp
  moreover have "tile_ok r a (Hole 1)" by (auto simp: r_def)
  ultimately have "inv_but {} r (L(a \<mapsto> Hole 1)) ?ls"
    using inv_but_settle [of a "{}" r _ ?ls "Hole 1"] by simp
  moreover have "slab_unlink (PageDesc a) p' = Done r"
    using slab_unlink_frame [OF q(1)] by (simp add: p' r_def)
  moreover obtain nx pv where "q = p\<lparr>pg_next := nx, pg_prev := pv\<rparr>" using q(3) by (auto simp: links_only_def)
  then have "links_only p' r" unfolding links_only_def by (intro exI [of _ nx] exI [of _ pv]) (simp add: p' r_def)
  ultimately show ?thesis by blast
qed

lemma hole_len:
  assumes "inv_but A p L ls" and "L a = Some t"
  shows "tile_len t < 2 ^ 32" and "0 < tile_len t" and "a + tile_len t \<le> npages p"
  using tiling_len [OF inv_but_tiling [OF assms(1)] assms(2)] inv_but_geometry [OF assms(1)]
  by (auto simp: geometry_def)

text \<open>
  Merging the tiles at \<open>a\<close> and \<open>c = a + tile_len t\<close>, one the hole and one a free run that has
  been taken out of its list: the head of the merged run counts both, and the descriptor of
  \<open>c\<close> becomes an interior one.
\<close>

lemma hole_merge:
  assumes inv: "inv_but {a, c} p L ls" and L: "L a = Some t" "L c = Some u" and c: "c = a + tile_len t"
    and t: "t = Hole m \<and> u = Free_run n \<or> t = Free_run m \<and> u = Hole n"
    and int: "\<forall>i \<in> {a<..<a + m} \<union> {c<..<c + n}. free_interior p i"
    and p': "p' = p\<lparr>pg_slab := (pg_slab p)(PageDesc a := of_nat (m + n), PageDesc c := 0),
       pg_next := (pg_next p)(PageDesc c := NULLref),
       pg_prev := (pg_prev p)(PageDesc c := (NULLref, NGX_SLAB_PAGE))\<rparr>"
  shows "inv_but {} p' (L(c := None, a \<mapsto> Hole (m + n))) ls"
proof -
  have tl: "tile_len t = m" "tile_len u = n" using t by auto
  have pos: "0 < m" "0 < n" using hole_len(2) [OF inv L(1)] hole_len(2) [OF inv L(2)] tl by auto
  have cs: "a \<in> cells L {a, c}" "c \<in> cells L {a, c}"
    using cells_self [OF inv_but_tiling [OF inv]] L by auto
  have "inv_but {a, c} p' L ls"
    by (rule inv_but_modify [OF inv])
      (use inv_but_geometry [OF inv] cs head_not_page in \<open>auto simp: p' geometry_def\<close>)
  then have "inv_but (insert c {a}) p' L ls" by (simp add: insert_commute)
  from inv_but_merge [OF this _ L c, of "Hole (m + n)"]
  have "inv_but {a} p' (L(c := None, a \<mapsto> Hole (m + n))) ls" using tl pos c by simp
  moreover have "tile_ok p' a (Hole (m + n))"
  proof -
    have "free_interior p' i" if "a < i" "i < a + (m + n)" for i
    proof (cases "i = c")
      case False
      then have "free_interior p i" using int that c tl by auto
      then show ?thesis using False that by (auto simp: free_interior_def p')
    qed (simp add: free_interior_def p')
    then show ?thesis using c tl pos by (simp add: p')
  qed
  ultimately show ?thesis using inv_but_settle [of a "{}" p' _ ls] by simp
qed

lemma freeing_merge:
  assumes "coalesced L" and "tiling N L" and "\<forall>b j. L b = Some (Hole j) \<longrightarrow> b = a \<or> b = c"
    and L: "L a = Some t" "L c = Some u" and c: "c = a + tile_len t"
    and t: "t = Hole m \<and> u = Free_run n \<or> t = Free_run m \<and> u = Hole n"
  defines "M \<equiv> L(c := None, a \<mapsto> Hole (m + n))"
  shows "coalesced M" and "\<forall>b j. M b = Some (Hole j) \<longrightarrow> b = a" and "busy M = busy L"
    and "free_pages N M = free_pages N L"
proof -
  note len = tiling_len [OF assms(2) L(1)] tiling_len [OF assms(2) L(2)]
  show "coalesced M" using assms(1) unfolding coalesced_def M_def by auto
  show "\<forall>b j. M b = Some (Hole j) \<longrightarrow> b = a" using assms(3) by (auto simp: M_def)
  show "busy M = busy L" using t L len by (auto simp: busy_def M_def split: if_splits)
  have "free_pages N (L(c := None)) + n = free_pages N L"
    using free_pages_update [of c N L None] L(2) t len by auto
  moreover have "free_pages N M + m = free_pages N (L(c := None)) + (m + n)"
    using free_pages_update [of a N "L(c := None)" "Some (Hole (m + n))"] L(1) t len c
    by (auto simp: M_def)
  ultimately show "free_pages N M = free_pages N L" by linarith
qed

text \<open>The type and the list of the tile behind or before a run decide whether it is free.\<close>

lemma tile_head_free:
  assumes inv: "inv_but A p L ls" and L: "L b = Some t" and b: "b \<notin> A" and nh: "\<forall>n. t \<noteq> Hole n"
  shows "ngx_slab_page_type p (PageDesc b) = NGX_SLAB_PAGE \<and> pg_next p (PageDesc b) \<noteq> NULLref \<longleftrightarrow>
         (\<exists>m. t = Free_run m)"
proof (cases t)
  case (Free_run m)
  then show ?thesis using linked_next [OF inv L b, of FreeHead] by simp
next
  case (Page_run m)
  then show ?thesis using inv_but_tile [OF inv L b] by simp
next
  case (Chunks k U)
  show ?thesis
  proof (cases "U = chunk_range k")
    case True
    then show ?thesis using inv_but_tile [OF inv L b] Chunks by simp
  next
    case False
    have "3 \<le> k" using inv_but_tile [OF inv L b] Chunks by (simp add: chunk_data_def)
    then show ?thesis using linked_next(2) [OF inv L b, of "SlotHead (k - 3)"] False Chunks by auto
  qed
qed (use nh in auto)

text \<open>
  Taking the free one of two adjacent tiles out of its list and merging it with the hole.
\<close>

lemma hole_absorb:
  assumes inv: "inv_but {} p L ls" and L: "L a = Some t" "L c = Some u" and c: "c = a + tile_len t"
    and t: "t = Hole m \<and> u = Free_run n \<and> y = c \<or> t = Free_run m \<and> u = Hole n \<and> y = a"
  shows "\<exists>q ls'. (\<forall>s. slab_unlink (PageDesc y) (p\<lparr>pg_slab := s\<rparr>) = Done (q\<lparr>pg_slab := s\<rparr>)) \<and> links_only p q \<and>
    inv_but {} (q\<lparr>pg_slab := (pg_slab p)(PageDesc a := of_nat (m + n), PageDesc c := 0),
       pg_next := (pg_next q)(PageDesc c := NULLref),
       pg_prev := (pg_prev q)(PageDesc c := (NULLref, NGX_SLAB_PAGE))\<rparr>) (L(c := None, a \<mapsto> Hole (m + n))) ls'"
proof -
  obtain j where Ly: "L y = Some (Free_run j)" using t L by auto
  have h: "FreeHead \<in> heads" by (simp add: heads_def)
  obtain q where q: "slab_unlink (PageDesc y) p = Done q"
    "inv_but {y} q L (ls(FreeHead := remove1 y (ls FreeHead)))" "links_only p q"
    and qn: "\<And>i. i = y \<or> i \<notin> set (ls FreeHead) \<Longrightarrow> pg_next q (PageDesc i) = pg_next p (PageDesc i)"
    and qp: "\<And>i. i = y \<or> i \<notin> set (ls FreeHead) \<Longrightarrow> pg_prev q (PageDesc i) = pg_prev p (PageDesc i)"
    by (rule inv_but_unlink [OF inv Ly, of FreeHead]) auto
  have tl: "tile_len t = m" "tile_len u = n" using t by auto
  have "free_interior q i" if i: "i \<in> {a<..<a + m} \<union> {c<..<c + n}" for i
  proof -
    have "L i = None"
      using i inv_but_interior [OF inv L(1), of i] inv_but_interior [OF inv L(2), of i] tl by auto
    then have "i \<notin> set (ls FreeHead)" by (simp add: inv_but_list [OF inv h])
    moreover have "free_interior p i" using i inv_but_tile [OF inv L(1)] inv_but_tile [OF inv L(2)] t by auto
    ultimately show ?thesis using qn qp links_onlyD(1) [OF q(3)] by (simp add: free_interior_def)
  qed
  then have int: "\<forall>i \<in> {a<..<a + m} \<union> {c<..<c + n}. free_interior q i" by blast
  let ?ls = "ls(FreeHead := remove1 y (ls FreeHead))"
  have q2: "inv_but {a, c} q L ?ls"
    using t inv_but_exempt [OF q(2) L(1)] inv_but_exempt [OF q(2) L(2)] by (auto simp: insert_commute)
  have "inv_but {} (q\<lparr>pg_slab := (pg_slab q)(PageDesc a := of_nat (m + n), PageDesc c := 0),
       pg_next := (pg_next q)(PageDesc c := NULLref),
       pg_prev := (pg_prev q)(PageDesc c := (NULLref, NGX_SLAB_PAGE))\<rparr>) (L(c := None, a \<mapsto> Hole (m + n))) ?ls"
    by (rule hole_merge [OF q2 L c _ int refl]) (use t in auto)
  moreover have "slab_unlink (PageDesc y) (p\<lparr>pg_slab := s\<rparr>) = Done (q\<lparr>pg_slab := s\<rparr>)" for s
    using slab_unlink_frame [OF q(1), of "pfree p" s] links_onlyD(4) [OF q(3)] by simp
  ultimately show ?thesis using q(3) links_onlyD(1) [OF q(3)] by metis
qed

lemma join_next_ok:
  assumes fr: "freeing p L a n"
  shows "\<exists>n' p' M. join_next a (n - 1, p) = Done (n' - 1, p') \<and> freeing p' M a n' \<and>
    (\<forall>m. M (a + n') \<noteq> Some (Free_run m)) \<and> busy M = busy L \<and>
    free_pages (npages p) M = free_pages (npages p) L \<and>
    pfree p' = pfree p \<and> npages p' = npages p \<and> sl_start p' = sl_start p"
proof -
  obtain ls where inv: "inv_but {} p L ls" and co: "coalesced L" and La: "L a = Some (Hole n)"
    and one: "\<forall>b m. L b = Some (Hole m) \<longrightarrow> b = a"
    using fr by (auto simp: freeing_def)
  note tl = inv_but_tiling [OF inv]
  have n: "n < 2 ^ 32" "0 < n" "a + n \<le> npages p" using hole_len [OF inv La] by auto
  have slab: "pg_slab p (PageDesc a) = of_nat n" using inv_but_tile [OF inv La] by simp
  have u: "unat (pg_slab p (PageDesc a)) = n" using slab unat_small [OF n(1)] by simp
  show ?thesis
  proof (cases "\<exists>m. L (a + n) = Some (Free_run m)")
    case True
    then obtain m where Lc: "L (a + n) = Some (Free_run m)" by blast
    let ?c = "a + n" and ?M = "L(a + n := None, a \<mapsto> Hole (n + m))"
    have m: "m < 2 ^ 32" "0 < m" "?c + m \<le> npages p" using hole_len [OF inv Lc] by auto
    have sm: "pg_slab p (PageDesc ?c) = of_nat m" using inv_but_tile [OF inv Lc] by simp
    have um: "unat (pg_slab p (PageDesc ?c)) = m" using sm unat_small [OF m(1)] by simp
    obtain q ls' where q: "\<And>s. slab_unlink (PageDesc ?c) (p\<lparr>pg_slab := s\<rparr>) = Done (q\<lparr>pg_slab := s\<rparr>)"
      "links_only p q"
      "inv_but {} (q\<lparr>pg_slab := (pg_slab p)(PageDesc a := of_nat (n + m), PageDesc ?c := 0),
         pg_next := (pg_next q)(PageDesc ?c := NULLref),
         pg_prev := (pg_prev q)(PageDesc ?c := (NULLref, NGX_SLAB_PAGE))\<rparr>) ?M ls'"
      using hole_absorb [OF inv La Lc, of n m ?c] by auto
    define p' where "p' = q\<lparr>pg_slab := (pg_slab p)(PageDesc a := of_nat (n + m), PageDesc ?c := 0),
       pg_next := (pg_next q)(PageDesc ?c := NULLref),
       pg_prev := (pg_prev q)(PageDesc ?c := (NULLref, NGX_SLAB_PAGE))\<rparr>"
    have "?c < npages p" "n - 1 + m = n + m - 1" using m n by auto
    moreover have "ngx_slab_page_type p (PageDesc ?c) = NGX_SLAB_PAGE \<and> pg_next p (PageDesc ?c) \<noteq> NULLref"
      using tile_head_free [OF inv Lc] by simp
    ultimately have run: "join_next a (n - 1, p) = Done (n + m - 1, p')"
      using u um slab sm q(1) by (simp add: join_next_def Let_def p'_def NGX_SLAB_PAGE_FREE_def)
    have mg: "coalesced ?M" "\<forall>b j. ?M b = Some (Hole j) \<longrightarrow> b = a" "busy ?M = busy L"
      "free_pages (npages p) ?M = free_pages (npages p) L"
      by (rule freeing_merge [OF co tl _ La Lc]; use one in simp)+
    have "?M a = Some (Hole (n + m))" by simp
    then have "freeing p' ?M a (n + m)" unfolding freeing_def using q(3) mg(1,2) p'_def by blast
    moreover have "L (a + n + m) \<noteq> Some (Free_run j)" for j using co Lc unfolding coalesced_def by blast
    then have "?M (a + (n + m)) \<noteq> Some (Free_run j)" for j using m by (simp add: add.assoc)
    moreover note mg(3,4)
    ultimately show ?thesis using run links_onlyD [OF q(2)]
      by (intro exI [of _ "n + m"] exI [of _ p'] exI [of _ ?M]) (simp add: p'_def)
  next
    case False
    have "join_next a (n - 1, p) = Done (n - 1, p)"
    proof (cases "a + n < npages p")
      case True
      then obtain t where t: "L (a + n) = Some t" using tiling_next [OF tl La] by auto
      moreover have "\<forall>j. t \<noteq> Hole j" using one t n by auto
      ultimately show ?thesis using tile_head_free [OF inv t] False u by (auto simp: join_next_def)
    qed (simp add: join_next_def u)
    then show ?thesis using fr False by blast
  qed
qed

text \<open>The descriptor before a run leads to the head of a free run that ends there.\<close>

lemma prev_descriptor:
  assumes inv: "inv_but {} p L ls" and La: "L a = Some (Hole n)" and Lb: "L b = Some t" and b: "b + tile_len t = a"
    and nh: "\<forall>m. t \<noteq> Hole m"
  shows "(\<exists>m. t = Free_run m) \<and> ngx_slab_page_type p (PageDesc (a - 1)) = NGX_SLAB_PAGE \<and>
           (if pg_slab p (PageDesc (a - 1)) = 0 then ngx_slab_page_prev p (PageDesc (a - 1))
            else PageDesc (a - 1)) = PageDesc b \<or>
         (\<forall>m. t \<noteq> Free_run m) \<and> (ngx_slab_page_type p (PageDesc (a - 1)) = NGX_SLAB_PAGE \<longrightarrow>
           pg_slab p (PageDesc (a - 1)) \<noteq> 0 \<and> pg_next p (PageDesc (a - 1)) = NULLref)"
proof -
  note ok = inv_but_tile [OF inv Lb] and len = hole_len [OF inv Lb]
  have aN: "a < npages p" using hole_len [OF inv La] by simp
  show ?thesis
  proof (cases t)
    case (Free_run m)
    have m32: "m < 2 ^ 32" and m0: "0 < m" using len Free_run by auto
    show ?thesis
    proof (cases "m = 1")
      case True
      have "ngx_slab_page_type p (PageDesc b) = NGX_SLAB_PAGE"
        using tile_head_free [OF inv Lb] Free_run by simp
      moreover have "pg_slab p (PageDesc b) = 1" using ok Free_run True by simp
      ultimately show ?thesis using b Free_run True by auto
    next
      case False
      then have "free_interior p (a - 1)" "pg_prev p (PageDesc (a - 1)) = (PageDesc b, NGX_SLAB_PAGE)"
        using ok Free_run b m0 aN by auto
      then show ?thesis using Free_run by (simp add: free_interior_def)
    qed
  next
    case (Page_run m)
    have m32: "m < 2 ^ 32" and m0: "0 < m" using len Page_run by auto
    show ?thesis
    proof (cases "m = 1")
      case True
      then have "a - 1 = b" using b Page_run by simp
      then show ?thesis using ok Page_run page_run_word(1) [OF m32] by simp
    next
      case False
      then have "busy_interior p (a - 1)" using ok Page_run b m0 by auto
      then show ?thesis using Page_run by (simp add: busy_interior_def NGX_SLAB_PAGE_BUSY_def)
    qed
  next
    case (Chunks k U)
    have "ngx_slab_page_type p (PageDesc b) \<noteq> NGX_SLAB_PAGE"
    proof (cases "U = chunk_range k")
      case True
      then show ?thesis using ok Chunks by simp
    next
      case False
      have "3 \<le> k" using ok Chunks by (simp add: chunk_data_def)
      then show ?thesis using linked_next(2) [OF inv Lb, of "SlotHead (k - 3)"] False Chunks by auto
    qed
    moreover have "a - 1 = b" using b Chunks by simp
    ultimately show ?thesis using Chunks by simp
  qed (use nh in auto)
qed

lemma join_prev_ok:
  assumes fr: "freeing p L a n" and nx: "\<forall>m. L (a + n) \<noteq> Some (Free_run m)"
  shows "\<exists>a' n' p' M. join_prev a (n - 1, p) = Done (a', n' - 1, p') \<and> freeing p' M a' n' \<and>
    (\<forall>m. M (a' + n') \<noteq> Some (Free_run m)) \<and> (\<forall>b m. M b = Some (Free_run m) \<longrightarrow> b + m \<noteq> a') \<and>
    busy M = busy L \<and> free_pages (npages p) M = free_pages (npages p) L \<and>
    pfree p' = pfree p \<and> npages p' = npages p \<and> sl_start p' = sl_start p"
proof -
  obtain ls where inv: "inv_but {} p L ls" and co: "coalesced L" and La: "L a = Some (Hole n)"
    and one: "\<forall>b m. L b = Some (Hole m) \<longrightarrow> b = a"
    using fr by (auto simp: freeing_def)
  note tl = inv_but_tiling [OF inv]
  have n: "n < 2 ^ 32" "0 < n" "a + n \<le> npages p" using hole_len [OF inv La] by auto
  have slab: "pg_slab p (PageDesc a) = of_nat n" using inv_but_tile [OF inv La] by simp
  show ?thesis
  proof (cases "\<exists>b m. L b = Some (Free_run m) \<and> b + m = a")
    case True
    then obtain b m where Lb: "L b = Some (Free_run m)" and b: "a = b + m" by blast
    let ?M = "L(a := None, b \<mapsto> Hole (m + n))"
    have m: "m < 2 ^ 32" "0 < m" using hole_len [OF inv Lb] by auto
    have sm: "pg_slab p (PageDesc b) = of_nat m" using inv_but_tile [OF inv Lb] by simp
    have um: "unat (pg_slab p (PageDesc b)) = m" using sm unat_small [OF m(1)] by simp
    obtain q ls' where q: "\<And>s. slab_unlink (PageDesc b) (p\<lparr>pg_slab := s\<rparr>) = Done (q\<lparr>pg_slab := s\<rparr>)"
      "links_only p q"
      "inv_but {} (q\<lparr>pg_slab := (pg_slab p)(PageDesc b := of_nat (m + n), PageDesc a := 0),
         pg_next := (pg_next q)(PageDesc a := NULLref),
         pg_prev := (pg_prev q)(PageDesc a := (NULLref, NGX_SLAB_PAGE))\<rparr>) ?M ls'"
      using hole_absorb [OF inv Lb La, of m n b] b by auto
    define p' where "p' = q\<lparr>pg_slab := (pg_slab p)(PageDesc b := of_nat (m + n), PageDesc a := 0),
       pg_next := (pg_next q)(PageDesc a := NULLref),
       pg_prev := (pg_prev q)(PageDesc a := (NULLref, NGX_SLAB_PAGE))\<rparr>"
    have pd: "ngx_slab_page_type p (PageDesc (a - 1)) = NGX_SLAB_PAGE"
      "(if pg_slab p (PageDesc (a - 1)) = 0 then ngx_slab_page_prev p (PageDesc (a - 1))
            else PageDesc (a - 1)) = PageDesc b"
      using prev_descriptor [OF inv La Lb] b by auto
    have nn: "pg_next p (PageDesc b) \<noteq> NULLref" using tile_head_free [OF inv Lb] by simp
    have "n - 1 + m = m + n - 1" "a \<noteq> b" "0 < a" using n m b by auto
    then have run: "join_prev a (n - 1, p) = Done (b, m + n - 1, p')"
      using pd nn um slab sm q(1)
      by (simp add: join_prev_def Let_def p'_def NGX_SLAB_PAGE_FREE_def)
    have mg: "coalesced ?M" "\<forall>c j. ?M c = Some (Hole j) \<longrightarrow> c = b" "busy ?M = busy L"
      "free_pages (npages p) ?M = free_pages (npages p) L"
      by (rule freeing_merge [OF co tl _ Lb La]; use one b in simp)+
    have "?M b = Some (Hole (m + n))" by simp
    then have "freeing p' ?M b (m + n)" unfolding freeing_def using q(3) mg(1,2) p'_def by blast
    moreover have "?M (b + (m + n)) \<noteq> Some (Free_run j)" for j
      using nx b n by (simp add: add.assoc)
    moreover have "c + j \<noteq> b" if "?M c = Some (Free_run j)" for c j
      using that co Lb by (auto simp: coalesced_def split: if_splits)
    moreover note mg(3,4)
    ultimately show ?thesis using run links_onlyD [OF q(2)]
      by (intro exI [of _ b] exI [of _ "m + n"] exI [of _ p'] exI [of _ ?M]) (simp add: p'_def)
  next
    case False
    have "join_prev a (n - 1, p) = Done (a, n - 1, p)"
    proof (cases "a = 0")
      case False
      then obtain b t where t: "L b = Some t" "b + tile_len t = a" using tiling_prev [OF tl La] by auto
      have "b \<noteq> a" using t hole_len(2) [OF inv t(1)] by auto
      then have nh: "\<forall>m. t \<noteq> Hole m" using one t by auto
      have "\<forall>m. t \<noteq> Free_run m" using t \<open>\<not> (\<exists>b m. L b = Some (Free_run m) \<and> b + m = a)\<close> by (metis tile_len.simps(1))
      then show ?thesis using prev_descriptor [OF inv La t nh] False
        by (auto simp: join_prev_def NGX_SLAB_PAGE_FREE_def Let_def)
    qed (simp add: join_prev_def)
    then show ?thesis using fr nx False by blast
  qed
qed

text \<open>A hole between tiles that are not free goes to the front of the list of free runs.\<close>

lemma free_hole_ok:
  assumes fr: "freeing p L a n" and nx: "\<forall>m. L (a + n) \<noteq> Some (Free_run m)"
    and pv: "\<forall>b m. L b = Some (Free_run m) \<longrightarrow> b + m \<noteq> a"
    and q: "q = (if n - 1 \<noteq> 0 then set_prev (PageDesc (a + (n - 1))) (PageDesc a, NGX_SLAB_PAGE) p else p)"
    and p': "p' = q\<lparr>pg_next := (pg_next p)(PageDesc a := pg_next p FreeHead, FreeHead := PageDesc a),
       pg_prev := (pg_prev q)(PageDesc a := (FreeHead, NGX_SLAB_PAGE), pg_next p FreeHead := (PageDesc a, NGX_SLAB_PAGE))\<rparr>"
  shows "\<exists>ls. inv_but {} p' (L(a \<mapsto> Free_run n)) ls" and "coalesced (L(a \<mapsto> Free_run n))"
    and "\<forall>b m. (L(a \<mapsto> Free_run n)) b \<noteq> Some (Hole m)" and "busy (L(a \<mapsto> Free_run n)) = busy L"
    and "free_pages (npages p) (L(a \<mapsto> Free_run n)) = free_pages (npages p) L"
    and "ref_ok q (pg_next p FreeHead)" and "pg_next p FreeHead \<noteq> PageDesc a"
proof -
  obtain ls where inv: "inv_but {} p L ls" and co: "coalesced L" and La: "L a = Some (Hole n)"
    and one: "\<forall>b m. L b = Some (Hole m) \<longrightarrow> b = a"
    using fr by (auto simp: freeing_def)
  have n: "n < 2 ^ 32" "0 < n" "a + n \<le> npages p" using hole_len [OF inv La] by auto
  let ?M = "L(a \<mapsto> Free_run n)"
  have c: "cells L {a} = {a..<a + n}" using cells_insert [of L a "Hole n" "{}"] La by simp
  have "inv_but {a} q L ls"
    by (rule inv_but_modify [OF inv_but_exempt [OF inv La]])
      (use inv_but_geometry [OF inv] n head_not_page in \<open>auto simp: q c geometry_def\<close>)
  from inv_but_relabel [OF this _ La, of "Free_run n"]
  have i1: "inv_but {a} q ?M ls" by simp
  have ok: "tile_ok q a (Free_run n)"
    using inv_but_tile [OF inv La] n by (auto simp: q free_interior_def)
  have nq: "pg_next q = pg_next p" by (simp add: q)
  have "inv_but {} p' ?M (ls(FreeHead := a # ls FreeHead)) \<and> ref_ok q (pg_next q FreeHead)"
    using inv_but_push [OF i1 _ _ _ ok refl] by (simp add: p' nq)
  then show "\<exists>ls. inv_but {} p' ?M ls" "ref_ok q (pg_next p FreeHead)" using nq by auto
  show "pg_next p FreeHead \<noteq> PageDesc a"
  proof -
    have h: "FreeHead \<in> heads" by (simp add: heads_def)
    have "a \<notin> set (ls FreeHead)" using La by (simp add: inv_but_list [OF inv h])
    moreover have "pg_next p FreeHead = (case ls FreeHead of [] \<Rightarrow> FreeHead | y # _ \<Rightarrow> PageDesc y)"
      using seg_first inv_but_ring [OF inv h] by (auto simp: ring_def)
    ultimately show ?thesis by (auto split: list.splits)
  qed
  show "coalesced ?M" using co nx pv n by (auto simp: coalesced_def)
  show "\<forall>b m. ?M b \<noteq> Some (Hole m)" using one by auto
  show "busy ?M = busy L" using La n by (auto simp: busy_def split: if_splits)
  show "free_pages (npages p) ?M = free_pages (npages p) L"
    using free_pages_update [of a "npages p" L "Some (Free_run n)"] La n by simp
qed

text \<open>The part of \<^verbatim>\<open>ngx_slab_free_pages\<close> from the joins on.\<close>

lemma free_pages_tail_ok:
  assumes fr: "freeing p L a n"
  shows "\<exists>p' M. run_bind (join_next a (n - 1, p)) (\<lambda>x. run_bind (join_prev a x) link_free) = Done p' \<and>
    (\<exists>ls. inv_but {} p' M ls) \<and> coalesced M \<and> (\<forall>b m. M b \<noteq> Some (Hole m)) \<and> busy M = busy L \<and>
    free_pages (npages p) M = free_pages (npages p) L \<and>
    pfree p' = pfree p \<and> npages p' = npages p \<and> sl_start p' = sl_start p"
proof -
  obtain n1 p1 M1 where j: "join_next a (n - 1, p) = Done (n1 - 1, p1)" "freeing p1 M1 a n1"
    "\<forall>m. M1 (a + n1) \<noteq> Some (Free_run m)" "busy M1 = busy L"
    "free_pages (npages p) M1 = free_pages (npages p) L"
    "pfree p1 = pfree p" "npages p1 = npages p" "sl_start p1 = sl_start p"
    using join_next_ok [OF fr] by blast
  obtain b n2 p2 M2 where k: "join_prev a (n1 - 1, p1) = Done (b, n2 - 1, p2)" "freeing p2 M2 b n2"
    "\<forall>m. M2 (b + n2) \<noteq> Some (Free_run m)" "\<forall>c m. M2 c = Some (Free_run m) \<longrightarrow> c + m \<noteq> b"
    "busy M2 = busy M1" "free_pages (npages p1) M2 = free_pages (npages p1) M1"
    "pfree p2 = pfree p1" "npages p2 = npages p1" "sl_start p2 = sl_start p1"
    using join_prev_ok [OF j(2,3)] by blast
  define q where "q = (if n2 - 1 \<noteq> 0 then set_prev (PageDesc (b + (n2 - 1))) (PageDesc b, NGX_SLAB_PAGE) p2 else p2)"
  define p' where "p' = q\<lparr>pg_next := (pg_next p2)(PageDesc b := pg_next p2 FreeHead, FreeHead := PageDesc b),
       pg_prev := (pg_prev q)(PageDesc b := (FreeHead, NGX_SLAB_PAGE), pg_next p2 FreeHead := (PageDesc b, NGX_SLAB_PAGE))\<rparr>"
  note f = free_hole_ok [OF k(2,3,4) q_def p'_def]
  have "ref_ok (q\<lparr>pg_prev := g, pg_next := g'\<rparr>) x = ref_ok q x" for g g' x by (cases x) auto
  moreover have nq: "pg_next q = pg_next p2" by (simp add: q_def)
  ultimately have "run_bind (join_next a (n - 1, p)) (\<lambda>x. run_bind (join_prev a x) link_free) = Done p'"
    unfolding j(1) run_bind.simps k(1) link_free_def prod.case Let_def q_def [symmetric] using f(6)
    by (simp add: p'_def)
  moreover have "pfree p' = pfree p" "npages p' = npages p" "sl_start p' = sl_start p"
    using j k by (simp_all add: p'_def q_def)
  ultimately show ?thesis using f(1-5) j(4-8) k(5-9) by (intro exI [of _ p'] exI [of _ "M2(b \<mapsto> Free_run n2)"]) simp
qed

lemma ngx_slab_free_pages_ok:
  assumes inv: "inv_but {} p L ls" and co: "coalesced L" and nh: "\<forall>b m. L b \<noteq> Some (Hole m)"
    and L: "L a = Some t" and t: "t = Page_run n \<or> (\<exists>k. t = Chunks k {}) \<and> n = 1"
  shows "\<exists>p' M. ngx_slab_free_pages p a n = Done p' \<and> (\<exists>ls. inv_but {} p' M ls) \<and> coalesced M \<and>
    (\<forall>b m. M b \<noteq> Some (Hole m)) \<and> busy M = busy L - {(a, t)} \<and>
    free_pages (npages p) M = free_pages (npages p) L + n \<and>
    pfree p' = pfree p + of_nat n \<and> npages p' = npages p \<and> sl_start p' = sl_start p"
proof -
  let ?M = "L(a \<mapsto> Hole n)"
  define q where "q = zero_descs (a + 1) (n - 1)
      (p\<lparr>pg_slab := (pg_slab p)(PageDesc a := of_nat n), pfree := pfree p + of_nat n\<rparr>)"
  have len: "tile_len t = n" using t by auto
  have n: "0 < n" "a < npages p" using hole_len [OF inv L] len by auto
  have nx: "pg_next q (PageDesc a) = pg_next p (PageDesc a)" by (auto simp: q_def zero_descs_eq)
  have "\<exists>r ls'. (if pg_next q (PageDesc a) \<noteq> NULLref then slab_unlink (PageDesc a) q else Done q) = Done r \<and>
      inv_but {} r ?M ls' \<and> pfree r = pfree p + of_nat n \<and> npages r = npages p \<and> sl_start r = sl_start p"
  proof (cases "t = Page_run n")
    case True
    then have Ln: "L a = Some (Page_run n)" using L by simp
    have "inv_but {} q ?M ls" by (rule hole_from_page_run [OF inv Ln q_def])
    moreover have "pg_next p (PageDesc a) = NULLref" using inv_but_tile [OF inv Ln] by simp
    ultimately show ?thesis using nx by (auto simp: q_def zero_descs_eq)
  next
    case False
    then obtain k where Lk: "L a = Some (Chunks k {})" and n1: "n = 1" using t L by auto
    have q: "q = p\<lparr>pg_slab := (pg_slab p)(PageDesc a := 1), pfree := pfree p + of_nat n\<rparr>"
      by (simp add: q_def n1)
    obtain r ls' where r: "slab_unlink (PageDesc a) q = Done r" "inv_but {} r ?M ls'" "links_only q r"
      using hole_from_chunks [OF inv Lk q] n1 by auto
    have "list_of (Chunks k {}) = Some (SlotHead (k - 3))"
      using chunk_range_ne [of k] inv_but_tile [OF inv Lk] by (auto simp: chunk_data_def)
    then have "pg_next p (PageDesc a) \<noteq> NULLref" using linked_next(1) [OF inv Lk] by simp
    then show ?thesis using nx r links_onlyD [OF r(3)] by (auto simp: q)
  qed
  then obtain r ls' where r: "(if pg_next q (PageDesc a) \<noteq> NULLref then slab_unlink (PageDesc a) q else Done q) = Done r"
    "inv_but {} r ?M ls'" "pfree r = pfree p + of_nat n" "npages r = npages p" "sl_start r = sl_start p"
    by blast
  have "coalesced ?M" using co by (auto simp: coalesced_def)
  then have "freeing r ?M a n" using r(2) nh by (auto simp: freeing_def)
  from free_pages_tail_ok [OF this]
  obtain p' M where p': "run_bind (join_next a (n - 1, r)) (\<lambda>x. run_bind (join_prev a x) link_free) = Done p'"
    "(\<exists>ls. inv_but {} p' M ls) \<and> coalesced M \<and> (\<forall>b m. M b \<noteq> Some (Hole m)) \<and> busy M = busy ?M \<and>
    free_pages (npages r) M = free_pages (npages r) ?M \<and>
    pfree p' = pfree r \<and> npages p' = npages r \<and> sl_start p' = sl_start r"
    by blast
  have "set_slab (PageDesc a) (of_nat n) (p\<lparr>pfree := pfree p + of_nat n\<rparr>) =
      p\<lparr>pg_slab := (pg_slab p)(PageDesc a := of_nat n), pfree := pfree p + of_nat n\<rparr>" by simp
  then have "ngx_slab_free_pages p a n = Done p'"
    unfolding ngx_slab_free_pages_def Let_def using r(1) p'(1) by (simp only: q_def [symmetric] run_bind.simps)
  moreover have "busy ?M = busy L - {(a, t)}"
    using L n by (auto simp: busy_def split: if_splits)
  moreover have "free_pages (npages p) ?M = free_pages (npages p) L + n"
    using free_pages_update [of a "npages p" L "Some (Hole n)"] L t n by auto
  ultimately show ?thesis using p'(2) r(3-5) by (intro exI [of _ p'] exI [of _ M]) simp
qed

end
