(* ===== verification/Slab_Chunks.thy ===== *)
theory Slab_Chunks
  imports Slab_Pages
begin

text \<open>
  The chunk level of the slab allocator: the bit maps of the three classes of pages, and
  the correctness of \<^verbatim>\<open>ngx_slab_alloc_locked\<close> and \<^verbatim>\<open>ngx_slab_free_locked\<close> in terms of the
  memory blocks in use.
\<close>

section \<open>Blocks in use\<close>

fun tile_blocks :: "addr \<Rightarrow> nat \<times> tile \<Rightarrow> block set" where
  "tile_blocks s (b, Page_run n) = {(s + b * 4096, n * 4096)}"
| "tile_blocks s (b, Chunks k U) = (\<lambda>i. (s + b * 4096 + i * 2 ^ k, 2 ^ k)) ` U"
| "tile_blocks s (b, t) = {}"

definition used_blocks :: "slab_pool \<Rightarrow> layout \<Rightarrow> block set" where
  "used_blocks p L = \<Union> (tile_blocks (sl_start p) ` busy L)"

section \<open>Bits\<close>

lemma bit_push_one: "bit (push_bit n 1 :: 64 word) j \<longleftrightarrow> j = n \<and> j < 64"
  unfolding bit_push_bit_iff by (auto simp: bit_1_iff)

lemma bit_ones: "bit (push_bit n 1 - 1 :: 64 word) j \<longleftrightarrow> j < n \<and> j < 64"
proof -
  have "push_bit n 1 - 1 = (mask n :: 64 word)" by (simp add: mask_eq_exp_minus_1 push_bit_of_1)
  then show ?thesis by (auto simp: bit_mask_iff)
qed

lemma busy_iff: "w = NGX_SLAB_BUSY \<longleftrightarrow> (\<forall>i < 64. bit w i)"
  by (auto simp: NGX_SLAB_BUSY_def bit_eq_iff)

lemma word_zero_iff: "(w :: 64 word) = 0 \<longleftrightarrow> (\<forall>i < 64. \<not> bit w i)"
  by (auto simp: bit_eq_iff)

lemma word_bit_less: "bit (w :: 64 word) i \<Longrightarrow> i < 64"
  using bit_imp_le_length by fastforce

lemma first_clear_Some:
  assumes "first_clear w = Some i"
  shows "i < 64" "\<not> bit w i"
  using find_upt_Some [OF assms [unfolded first_clear_def]] by auto

lemma first_clear_None: "first_clear w = None \<Longrightarrow> w = NGX_SLAB_BUSY"
  by (auto simp: first_clear_def find_None_iff busy_iff)

lemma scan_bitmap_None: "scan_bitmap bm ns = None \<Longrightarrow> n \<in> set ns \<Longrightarrow> bm n = NGX_SLAB_BUSY"
  by (induction ns) (auto split: if_splits option.splits dest: first_clear_None)

lemma scan_bitmap_Some:
  assumes "scan_bitmap bm ns = Some (n, i)"
  shows "i < 64" "\<not> bit (bm n) i" "\<exists>xs ys. ns = xs @ n # ys \<and> (\<forall>m \<in> set xs. bm m = NGX_SLAB_BUSY)"
proof -
  have "i < 64 \<and> \<not> bit (bm n) i \<and> (\<exists>xs ys. ns = xs @ n # ys \<and> (\<forall>m \<in> set xs. bm m = NGX_SLAB_BUSY))"
    using assms
  proof (induction ns)
    case (Cons m ns)
    show ?case
    proof (cases "bm m = NGX_SLAB_BUSY \<or> first_clear (bm m) = None")
      case True
      then have b: "bm m = NGX_SLAB_BUSY" using first_clear_None by blast
      then obtain xs ys where "i < 64" "\<not> bit (bm n) i" "ns = xs @ n # ys" "\<forall>m \<in> set xs. bm m = NGX_SLAB_BUSY"
        using Cons by auto
      then show ?thesis using b by (intro conjI exI [of _ "m # xs"] exI [of _ ys]) auto
    next
      case False
      then show ?thesis using Cons.prems first_clear_Some [of "bm m" i]
        by (intro conjI exI [of _ "[]"] exI [of _ ns]) (auto split: if_splits)
    qed
  qed simp
  then show "i < 64" "\<not> bit (bm n) i" "\<exists>xs ys. ns = xs @ n # ys \<and> (\<forall>m \<in> set xs. bm m = NGX_SLAB_BUSY)"
    by auto
qed

lemma scan_bitmap_upt:
  assumes "scan_bitmap bm [0..<w] = Some (n, i)"
  shows "n < w" "i < 64" "\<not> bit (bm n) i" "\<forall>m < n. bm m = NGX_SLAB_BUSY"
proof -
  obtain xs ys where xs: "[0..<w] = xs @ n # ys" "\<forall>m \<in> set xs. bm m = NGX_SLAB_BUSY"
    using scan_bitmap_Some(3) [OF assms] by blast
  have "[0..<w] ! length xs = n" "length xs < w"
    using xs(1) by (simp_all add: nth_append flip: length_upt [of 0 w])
      (metis add_Suc_right length_append length_Cons length_upt diff_zero less_add_Suc1)
  then have n: "n = length xs" by simp
  have "xs = take n [0..<w]" using xs(1) n by simp
  then have "xs = [0..<n]" using \<open>length xs < w\<close> n by simp
  then have "set xs = {0..<n}" using set_upt [of 0 n] by (simp only:)
  then show "n < w" "i < 64" "\<not> bit (bm n) i" "\<forall>m < n. bm m = NGX_SLAB_BUSY"
    using xs(2) \<open>length xs < w\<close> n scan_bitmap_Some(1,2) [OF assms] by auto
qed

section \<open>The data of a page of chunks\<close>

lemma nchunks_small: "3 \<le> k \<Longrightarrow> k < 6 \<Longrightarrow> 64 * (nchunks k div 64) = nchunks k \<and>
    bitmap_chunks k < 64 \<and> bitmap_chunks k < nchunks k \<and> 1 \<le> nchunks k div 64"
proof -
  assume "3 \<le> k" "k < 6"
  then have "k = 3 \<or> k = 4 \<or> k = 5" by auto
  then show ?thesis by (auto simp: nchunks_def bitmap_chunks_def ngx_pagesize_def)
qed

lemma nchunks_6 [simp]: "nchunks 6 = 64"
  by (simp add: nchunks_def ngx_pagesize_def)

lemma nchunks_big: "6 < k \<Longrightarrow> k \<le> 11 \<Longrightarrow> nchunks k \<le> 32 \<and> 2 \<le> nchunks k"
proof -
  assume "6 < k" "k \<le> 11"
  then have "k = 7 \<or> k = 8 \<or> k = 9 \<or> k = 10 \<or> k = 11" by auto
  then show ?thesis by (auto simp: nchunks_def ngx_pagesize_def)
qed

lemma nchunks_size: "3 \<le> k \<Longrightarrow> k \<le> 11 \<Longrightarrow> nchunks k * 2 ^ k = 4096"
  by (erule (1) shift_cases) (auto simp: nchunks_def ngx_pagesize_def)

lemma chunk_range_simps:
  "k < 6 \<Longrightarrow> chunk_range k = {bitmap_chunks k..<nchunks k}"
  "6 \<le> k \<Longrightarrow> chunk_range k = {0..<nchunks k}"
  by (simp_all add: chunk_range_def)

text \<open>A page is full exactly when every bit of its map is set.\<close>

lemma chunk_data_full:
  assumes "chunk_data p a k U"
  shows "U = chunk_range k \<longleftrightarrow> (\<forall>i < nchunks k. chunk_bit p a k i)"
  using assms unfolding chunk_data_def chunk_range_def by (auto split: if_splits)

lemma chunk_data_bit:
  assumes "chunk_data p a k U" and "i \<in> chunk_range k"
  shows "chunk_bit p a k i \<longleftrightarrow> i \<in> U"
  using assms unfolding chunk_data_def by (auto simp: chunk_range_def)

text \<open>Changing one bit of the map.\<close>

lemma chunk_data_change:
  assumes cd: "chunk_data p a k U" and i: "i \<in> chunk_range k"
    and bits: "\<And>j. j < nchunks k \<Longrightarrow> chunk_bit p' a k j \<longleftrightarrow> (if j = i then v else chunk_bit p a k j)"
    and small: "k < 6 \<Longrightarrow> pg_slab p' (PageDesc a) = pg_slab p (PageDesc a)"
    and big: "6 < k \<Longrightarrow> pg_slab p' (PageDesc a) AND NGX_SLAB_SHIFT_MASK = pg_slab p (PageDesc a) AND NGX_SLAB_SHIFT_MASK"
      "\<And>j. 6 < k \<Longrightarrow> 32 + nchunks k \<le> j \<Longrightarrow> bit (pg_slab p' (PageDesc a)) j \<longleftrightarrow> bit (pg_slab p (PageDesc a)) j"
  shows "chunk_data p' a k (if v then insert i U else U - {i})"
  using assms unfolding chunk_data_def by (auto simp: chunk_range_def)

lemma shift_mask_bits: "bit NGX_SLAB_SHIFT_MASK j \<longleftrightarrow> j < 4"
proof -
  have m: "NGX_SLAB_SHIFT_MASK = mask 4" by (simp add: NGX_SLAB_SHIFT_MASK_def mask_eq_exp_minus_1)
  show ?thesis unfolding m bit_mask_iff by auto
qed

lemma map_mask_bits: "bit NGX_SLAB_MAP_MASK j \<longleftrightarrow> 32 \<le> j \<and> j < 64"
proof -
  have "bit NGX_SLAB_MAP_MASK j \<longleftrightarrow> bit (push_bit 32 (mask 32) :: 64 word) j"
    by (simp only: NGX_SLAB_MAP_MASK_def)
  then show ?thesis unfolding bit_push_bit_iff bit_mask_iff by auto
qed

lemma small_change:
  assumes cd: "chunk_data p a k U" and k: "k < 6" and i: "i < 64" "n * 64 + i \<in> chunk_range k"
    and w: "\<And>j. j < 64 \<Longrightarrow> bit w j \<longleftrightarrow> (if j = i then v else bit (bitmap p a n) j)"
    and p': "bitmap p' a = (bitmap p a)(n := w)" "pg_slab p' (PageDesc a) = pg_slab p (PageDesc a)"
  shows "chunk_data p' a k (if v then insert (n * 64 + i) U else U - {n * 64 + i})"
proof (rule chunk_data_change [OF cd i(2)])
  fix j
  have "j = n * 64 + i \<longleftrightarrow> j div 64 = n \<and> j mod 64 = i" using i(1) by auto
  then show "chunk_bit p' a k j \<longleftrightarrow> (if j = n * 64 + i then v else chunk_bit p a k j)"
    using k w [of "j mod 64"] p' by (auto simp: chunk_bit_def)
qed (use k p' in auto)

lemma exact_change:
  assumes cd: "chunk_data p a 6 U" and i: "i < 64"
    and w: "\<And>j. j < 64 \<Longrightarrow> bit (pg_slab p' (PageDesc a)) j \<longleftrightarrow> (if j = i then v else bit (pg_slab p (PageDesc a)) j)"
  shows "chunk_data p' a 6 (if v then insert i U else U - {i})"
  by (rule chunk_data_change [OF cd]) (use i w in \<open>auto simp: chunk_bit_def chunk_range_def\<close>)

lemma big_change:
  assumes cd: "chunk_data p a k U" and k: "6 < k" and i: "i < nchunks k"
    and w: "\<And>j. j < 64 \<Longrightarrow> bit (pg_slab p' (PageDesc a)) j \<longleftrightarrow>
      (if j = 32 + i then v else bit (pg_slab p (PageDesc a)) j)"
  shows "chunk_data p' a k (if v then insert i U else U - {i})"
proof (rule chunk_data_change [OF cd])
  have k11: "k \<le> 11" using cd by (simp add: chunk_data_def)
  note nb = nchunks_big [OF k k11]
  show "i \<in> chunk_range k" using i k by (simp add: chunk_range_simps)
  show "chunk_bit p' a k j \<longleftrightarrow> (if j = i then v else chunk_bit p a k j)" if "j < nchunks k" for j
    using w [of "32 + j"] that nb k by (simp add: chunk_bit_def)
  show "pg_slab p' (PageDesc a) AND NGX_SLAB_SHIFT_MASK = pg_slab p (PageDesc a) AND NGX_SLAB_SHIFT_MASK"
    by (rule bit_word_eqI) (use w in \<open>auto simp: bit_and_iff shift_mask_bits\<close>)
  show "bit (pg_slab p' (PageDesc a)) j \<longleftrightarrow> bit (pg_slab p (PageDesc a)) j" if "32 + nchunks k \<le> j" for j
    using w [of j] that i word_bit_less by (cases "j < 64") auto
qed (use k in auto)

section \<open>Changing a page of chunks\<close>

lemma inv_but_update_tile:
  assumes inv: "inv_but {} p L ls" and L: "L a = Some t" and t': "tile_len t' = tile_len t" "list_of t' = list_of t"
    and ok: "tile_ok p' a t'" and geo: "geometry p'" "npages p' = npages p"
    and links: "pg_next p' = pg_next p" "pg_prev p' = pg_prev p"
    and s: "\<And>i. i \<noteq> a \<Longrightarrow> pg_slab p' (PageDesc i) = pg_slab p (PageDesc i)"
    and b: "\<And>i. i \<noteq> a \<Longrightarrow> bitmap p' i = bitmap p i"
  shows "inv_but {} p' (L(a \<mapsto> t')) ls"
proof -
  note tl = inv_but_tiling [OF inv]
  have "tile_ok p' c u" if c: "(L(a \<mapsto> t')) c = Some u" for c u
  proof (cases "c = a")
    case False
    then have Lc: "L c = Some u" using c by simp
    have out: "i \<noteq> a" if "c \<le> i" "i < c + tile_len u" for i
      using cells_other [OF tl Lc, of "{a}" i] that False cells_self [OF tl L, of "{a}"] by auto
    show ?thesis
      by (rule tile_ok_cong [OF inv_but_tile [OF inv Lc]])
        (use out s b links geo False tiling_len [OF tl Lc] in auto)
  qed (use c ok in simp)
  moreover have "ring p' h (ls h)" if "h \<in> heads" for h
    using inv_but_ring [OF inv that] ring_cong [of h "ls h" p' p] links by auto
  moreover have "set (ls h) = {c. c \<notin> {} \<and> (\<exists>u. (L(a \<mapsto> t')) c = Some u \<and> list_of u = Some h)}" if "h \<in> heads" for h
    using L t'(2) by (auto simp: inv_but_set [OF inv that])
  ultimately show ?thesis
    using geo tiling_relabel [OF tl L t'(1)] unfolding inv_but_def by simp
qed

lemma slab_unlink_frame':
  assumes "slab_unlink r p = Done q" and "pg_next p' = pg_next p" "pg_prev p' = pg_prev p"
    "npages p' = npages p" "min_shift p' = min_shift p"
  shows "slab_unlink r p' = Done (p'\<lparr>pg_next := pg_next q, pg_prev := pg_prev q\<rparr>)"
proof -
  have "ref_ok p' x = ref_ok p x" for x using assms(4,5) by (cases x) auto
  moreover have "ref_ok (p'\<lparr>pg_next := g\<rparr>) x = ref_ok (p\<lparr>pg_next := g\<rparr>) x"
    for x g using assms(4,5) by (cases x) auto
  ultimately show ?thesis
    using assms by (auto simp: slab_unlink_def Let_def c_assert_def split: if_splits)
qed

abbreviation same_but_page :: "nat \<Rightarrow> slab_pool \<Rightarrow> slab_pool \<Rightarrow> bool" where
  "same_but_page a p p' \<equiv> geometry p' \<and> npages p' = npages p \<and> sl_start p' = sl_start p \<and>
     pfree p' = pfree p \<and> min_shift p' = min_shift p \<and>
     pg_next p' = pg_next p \<and> pg_prev p' = pg_prev p \<and>
     (\<forall>i. i \<noteq> a \<longrightarrow> pg_slab p' (PageDesc i) = pg_slab p (PageDesc i) \<and> bitmap p' i = bitmap p i)"

text \<open>Taking the last free chunk of a page takes the page out of its list.\<close>

lemma slab_page_full_ok:
  assumes inv: "inv_but {} p L ls" and L: "L a = Some (Chunks k U)" and U: "U \<noteq> chunk_range k"
    and p': "same_but_page a p p'" and cd: "chunk_data p' a k (chunk_range k)"
  shows "\<exists>q ls'. slab_page_full a (type_of_shift k) p' = Done q \<and>
    inv_but {} q (L(a \<mapsto> Chunks k (chunk_range k))) ls' \<and> links_only p' q"
proof -
  have l: "list_of (Chunks k U) = Some (SlotHead (k - 3))" using U by simp
  let ?h = "SlotHead (k - 3)"
  obtain q where q: "slab_unlink (PageDesc a) p = Done q"
    "inv_but {a} q L (ls(?h := remove1 a (ls ?h)))" "links_only p q"
    by (rule inv_but_unlink [OF inv L _ l]) auto
  let ?ls = "ls(?h := remove1 a (ls ?h))"
  define r where "r = p'\<lparr>pg_next := (pg_next q)(PageDesc a := NULLref),
    pg_prev := (pg_prev q)(PageDesc a := (NULLref, type_of_shift k))\<rparr>"
  have run: "slab_page_full a (type_of_shift k) p' = Done r"
    using slab_unlink_frame' [OF q(1), of p'] p' by (simp add: slab_page_full_def r_def)
  have c: "cells L {a} = {a}" using cells_insert [of L a "Chunks k U" "{}"] L by auto
  have "inv_but {a} r L ?ls"
    by (rule inv_but_modify [OF q(2)])
      (use p' c links_onlyD [OF q(3)] head_not_page in \<open>auto simp: r_def geometry_def\<close>)
  from inv_but_relabel [OF this _ L, of "Chunks k (chunk_range k)"]
  have "inv_but {a} r (L(a \<mapsto> Chunks k (chunk_range k))) ?ls" by simp
  moreover have "chunk_data r a k (chunk_range k)"
    using cd unfolding chunk_data_def chunk_bit_def by (simp add: r_def)
  then have "tile_ok r a (Chunks k (chunk_range k))" by (simp add: r_def)
  ultimately have "inv_but {} r (L(a \<mapsto> Chunks k (chunk_range k))) ?ls"
    using inv_but_settle [of a "{}" r _ ?ls] by simp
  then show ?thesis using run by (auto simp: links_only_def r_def)
qed

lemma inv_but_take_chunk:
  assumes inv: "inv_but {} p L ls" and L: "L a = Some (Chunks k U)" and U: "U \<noteq> chunk_range k"
    and p': "same_but_page a p p'" and cd: "chunk_data p' a k V"
  shows "\<exists>q ls'. (if V = chunk_range k then slab_page_full a (type_of_shift k) p' else Done p') = Done q \<and>
    inv_but {} q (L(a \<mapsto> Chunks k V)) ls' \<and> links_only p' q"
proof (cases "V = chunk_range k")
  case True
  then show ?thesis using slab_page_full_ok [OF inv L U p'] cd by auto
next
  case False
  have "inv_but {} p' (L(a \<mapsto> Chunks k V)) ls"
    by (rule inv_but_update_tile [OF inv L]) (use False U p' cd in auto)
  moreover have "links_only p' p'"
    unfolding links_only_def by (intro exI [of _ "pg_next p'"] exI [of _ "pg_prev p'"]) simp
  ultimately show ?thesis using False by auto
qed

text \<open>Freeing a chunk of a full page puts the page back into its list.\<close>

lemma relink_slot_ok:
  assumes inv: "inv_but {} p L ls" and L: "L a = Some (Chunks k (chunk_range k))" and V: "V \<noteq> chunk_range k"
    and p': "same_but_page a p p'" and cd: "chunk_data p' a k V"
  shows "\<exists>q ls'. relink_slot (k - 3) (type_of_shift k) a p = Done q \<and>
    inv_but {} (p'\<lparr>pg_next := pg_next q, pg_prev := pg_prev q\<rparr>) (L(a \<mapsto> Chunks k V)) ls' \<and> links_only p q"
proof -
  let ?h = "SlotHead (k - 3)" and ?M = "L(a \<mapsto> Chunks k V)"
  have k: "3 \<le> k" "k \<le> 11" using cd by (simp_all add: chunk_data_def)
  have c: "cells L {a} = {a}" using cells_insert [of L a "Chunks k (chunk_range k)" "{}"] L by auto
  have "inv_but {a} p' L ls"
    by (rule inv_but_modify [OF inv_but_exempt [OF inv L]]) (use p' c in auto)
  from inv_but_relabel [OF this _ L, of "Chunks k V"]
  have i: "inv_but {a} p' ?M ls" by simp
  have ok: "tile_ok p' a (Chunks k V)" using cd V by simp
  have l: "list_of (Chunks k V) = Some ?h" using V by simp
  have ht: "head_type ?h = type_of_shift k" using k by simp
  define q where "q = p\<lparr>pg_next := (pg_next p)(PageDesc a := pg_next p ?h, ?h := PageDesc a),
    pg_prev := (pg_prev p)(PageDesc a := (?h, type_of_shift k), pg_next p ?h := (PageDesc a, type_of_shift k))\<rparr>"
  have push: "inv_but {} (p'\<lparr>pg_next := pg_next q, pg_prev := pg_prev q\<rparr>) ?M (ls(?h := a # ls ?h))"
    "ref_ok p' (pg_next p' ?h)"
    using inv_but_push [OF i _ _ l ok refl] p' unfolding ht by (simp_all add: q_def)
  have "ref_ok p' x = ref_ok p x" for x using p' by (cases x) auto
  then have "ref_ok p (pg_next p ?h)" using push(2) p' by simp
  moreover have "ref_ok (p\<lparr>pg_next := g, pg_prev := g'\<rparr>) x = ref_ok p x" for x g g' by (cases x) auto
  ultimately have "relink_slot (k - 3) (type_of_shift k) a p = Done q"
    unfolding relink_slot_def Let_def by (simp add: q_def)
  then show ?thesis using push(1) by (auto simp: links_only_def q_def)
qed

section \<open>Taking a chunk\<close>

text \<open>What a step on chunks leaves alone.\<close>

abbreviation kept :: "slab_pool \<Rightarrow> slab_pool \<Rightarrow> bool" where
  "kept p q \<equiv> pfree q = pfree p \<and> npages q = npages p \<and> sl_start q = sl_start p"

lemma inv_but_stats: "inv_but A p L ls \<Longrightarrow> inv_but A (p\<lparr>sl_stats := st\<rparr>) L ls"
  by (rule inv_but_modify) (auto simp: inv_but_def geometry_def)

lemma page_addr: "ngx_slab_page_addr p a = sl_start p + a * 4096"
  by (simp add: ngx_slab_page_addr_def ngx_pagesize_shift_def)

lemma bit_power_two: "bit (2 ^ n :: 64 word) j \<longleftrightarrow> j = n \<and> j < 64"
  using bit_push_one [of n j] by simp

lemma bit_set_iff: "bit (w OR 2 ^ i :: 64 word) j \<longleftrightarrow> bit w j \<or> j = i \<and> j < 64"
  by (simp add: bit_or_iff bit_power_two)

lemma alloc_small_ok:
  assumes inv: "inv_but {} p L ls" and L: "L a = Some (Chunks k U)" and U: "U \<noteq> chunk_range k" and k: "k < 6"
  shows "\<exists>i q ls'. alloc_small slot k a p = Done (sl_start p + a * 4096 + i * 2 ^ k, q) \<and>
    i \<in> chunk_range k - U \<and> inv_but {} q (L(a \<mapsto> Chunks k (insert i U))) ls' \<and> kept p q"
proof -
  have cd: "chunk_data p a k U" using inv_but_tile [OF inv L] by simp
  have k3: "3 \<le> k" and k11: "k \<le> 11" using cd by (simp_all add: chunk_data_def)
  define ws where "ws = nchunks k div 64"
  have ws: "64 * ws = nchunks k" using nchunks_small [OF k3 k] by (simp add: ws_def)
  have bits: "(\<forall>j < nchunks k. bit (bm (j div 64)) (j mod 64)) \<longleftrightarrow> (\<forall>m < ws. bm m = NGX_SLAB_BUSY)"
    for bm :: "nat \<Rightarrow> 64 word"
  proof
    assume *: "\<forall>j < nchunks k. bit (bm (j div 64)) (j mod 64)"
    show "\<forall>m < ws. bm m = NGX_SLAB_BUSY"
    proof (intro allI impI)
      fix m assume m: "m < ws"
      have "bit (bm m) i" if "i < 64" for i
        using * [rule_format, of "m * 64 + i"] that m ws by auto
      then show "bm m = NGX_SLAB_BUSY" by (simp add: busy_iff)
    qed
  next
    assume *: "\<forall>m < ws. bm m = NGX_SLAB_BUSY"
    show "\<forall>j < nchunks k. bit (bm (j div 64)) (j mod 64)"
      using * ws by (auto simp: busy_iff less_mult_imp_div_less mult.commute)
  qed
  obtain n i where scan: "scan_bitmap (bitmap p a) [0..<ws] = Some (n, i)"
  proof (cases "scan_bitmap (bitmap p a) [0..<ws]")
    case None
    then have "\<forall>m < ws. bitmap p a m = NGX_SLAB_BUSY" using scan_bitmap_None [of "bitmap p a"] by simp
    then have "U = chunk_range k" using bits chunk_data_full [OF cd] k by (simp add: chunk_bit_def)
    then show ?thesis using U by simp
  qed auto
  note sc = scan_bitmap_upt [OF scan]
  let ?c = "n * 64 + i"
  have cn: "?c < nchunks k" using sc(1,2) ws by auto
  have "\<not> chunk_bit p a k ?c" using sc(2,3) k by (simp add: chunk_bit_def)
  then have c: "?c \<in> chunk_range k - U" using cd cn unfolding chunk_data_def by blast
  define bm where "bm = (bitmap p a)(n := bitmap p a n OR push_bit i 1)"
  define p' where "p' = (p\<lparr>bitmap := (bitmap p)(a := bm)\<rparr>)
    \<lparr>sl_stats := (sl_stats p)(slot := (sl_stats p slot)\<lparr>st_used := st_used (sl_stats p slot) + 1\<rparr>)\<rparr>"
  have cd': "chunk_data p' a k (insert ?c U)"
    using small_change [OF cd k sc(2), of n "bitmap p a n OR push_bit i 1" True p'] c
    by (auto simp: bit_set_iff p'_def bm_def)
  have sm: "same_but_page a p p'"
    using inv_but_geometry [OF inv] by (auto simp: p'_def geometry_def)
  have full: "bm n = NGX_SLAB_BUSY \<and> list_all (\<lambda>j. bm j = NGX_SLAB_BUSY) [n + 1..<ws] \<longleftrightarrow>
      insert ?c U = chunk_range k"
  proof -
    have "(\<forall>j < nchunks k. chunk_bit p' a k j) \<longleftrightarrow> (\<forall>m < ws. bm m = NGX_SLAB_BUSY)"
      using bits [of bm] k by (simp add: chunk_bit_def p'_def)
    also have "\<dots> \<longleftrightarrow> bm n = NGX_SLAB_BUSY \<and> (\<forall>j \<in> {n + 1..<ws}. bm j = NGX_SLAB_BUSY)"
    proof -
      have "bm m = NGX_SLAB_BUSY" if "m < n" for m using sc(4) that by (simp add: bm_def)
      then show ?thesis using sc(1) by (metis atLeastLessThan_iff Suc_eq_plus1 Suc_leI linorder_neqE_nat)
    qed
    finally show ?thesis using chunk_data_full [OF cd'] by (auto simp: list_all_iff)
  qed
  obtain q ls' where q: "(if insert ?c U = chunk_range k then slab_page_full a (type_of_shift k) p' else Done p') = Done q"
    "inv_but {} q (L(a \<mapsto> Chunks k (insert ?c U))) ls'" "links_only p' q"
    using inv_but_take_chunk [OF inv L U sm cd'] by blast
  have "alloc_small slot k a p = Done (sl_start p + a * 4096 + ?c * 2 ^ k, q)"
  proof -
    have w: "ngx_pagesize div 2 ^ k div (8 * 8) = ws" by (simp add: ws_def nchunks_def)
    have pa: "ngx_slab_page_addr (p\<lparr>bitmap := (bitmap p)(a := bm)\<rparr>) a + (n * 8 * 8 + i) * 2 ^ k
        = sl_start p + a * 4096 + ?c * 2 ^ k" by (simp add: page_addr)
    show ?thesis
      unfolding alloc_small_def Let_def w scan option.case prod.case bm_def [symmetric] pa full
      using q(1) k by (simp add: p'_def split: if_splits)
  qed
  then show ?thesis using c q links_onlyD [OF q(3)] by (intro exI [of _ ?c]) (auto simp: p'_def)
qed

lemma alloc_exact_ok:
  assumes inv: "inv_but {} p L ls" and L: "L a = Some (Chunks 6 U)" and U: "U \<noteq> chunk_range 6"
  shows "\<exists>i q ls'. alloc_exact slot 6 a p = Done (sl_start p + a * 4096 + i * 2 ^ 6, q) \<and>
    i \<in> chunk_range 6 - U \<and> inv_but {} q (L(a \<mapsto> Chunks 6 (insert i U))) ls' \<and> kept p q"
proof -
  have cd: "chunk_data p a 6 U" using inv_but_tile [OF inv L] by simp
  let ?w = "pg_slab p (PageDesc a)"
  have full: "V = chunk_range 6 \<longleftrightarrow> pg_slab r (PageDesc a) = NGX_SLAB_BUSY" if "chunk_data r a 6 V" for r V
    using chunk_data_full [OF that] by (simp add: chunk_bit_def busy_iff)
  obtain i where fc: "first_clear ?w = Some i"
    using first_clear_None [of ?w] full [OF cd] U by (cases "first_clear ?w") auto
  note i = first_clear_Some [OF fc]
  have ir: "i \<in> chunk_range 6 - U"
    using i chunk_data_bit [OF cd, of i] by (auto simp: chunk_range_def chunk_bit_def)
  define p' where "p' = set_slab (PageDesc a) (?w OR push_bit i 1) p"
  have cd': "chunk_data p' a 6 (insert i U)"
    using exact_change [OF cd i(1), of p' True] by (auto simp: p'_def bit_set_iff)
  have sm: "same_but_page a p p'"
    using inv_but_geometry [OF inv] by (auto simp: p'_def geometry_def)
  obtain q ls' where q: "(if insert i U = chunk_range 6 then slab_page_full a (type_of_shift 6) p' else Done p') = Done q"
    "inv_but {} q (L(a \<mapsto> Chunks 6 (insert i U))) ls'" "links_only p' q"
    using inv_but_take_chunk [OF inv L U sm cd'] by blast
  have e: "(if pg_slab p' (PageDesc a) = NGX_SLAB_BUSY then slab_page_full a NGX_SLAB_EXACT p' else Done p') = Done q"
    using q(1) full [OF cd'] by (simp split: if_splits)
  let ?q = "count_used slot q"
  have "alloc_exact slot 6 a p = Done (sl_start p + a * 4096 + i * 2 ^ 6, ?q)"
    unfolding alloc_exact_def fc option.case Let_def p'_def [symmetric] e
    using links_onlyD [OF q(3)] by (simp add: page_addr p'_def)
  then show ?thesis using ir inv_but_stats [OF q(2)] links_onlyD [OF q(3)]
    by (intro exI [of _ i] exI [of _ ?q] exI [of _ ls']) (simp add: p'_def)
qed

lemma alloc_big_ok:
  assumes inv: "inv_but {} p L ls" and L: "L a = Some (Chunks k U)" and U: "U \<noteq> chunk_range k" and k: "6 < k"
  shows "\<exists>i q ls'. alloc_big slot k a p = Done (sl_start p + a * 4096 + i * 2 ^ k, q) \<and>
    i \<in> chunk_range k - U \<and> inv_but {} q (L(a \<mapsto> Chunks k (insert i U))) ls' \<and> kept p q"
proof -
  have cd: "chunk_data p a k U" using inv_but_tile [OF inv L] by simp
  have k11: "k \<le> 11" using cd by (simp add: chunk_data_def)
  note nb = nchunks_big [OF k k11]
  let ?w = "pg_slab p (PageDesc a)"
  define msk where "msk = (push_bit NGX_SLAB_MAP_SHIFT (push_bit (ngx_pagesize div 2 ^ k) 1 - 1) :: 64 word)"
  have mb: "bit msk j \<longleftrightarrow> 32 \<le> j \<and> j < 32 + nchunks k" for j
    using nb unfolding msk_def bit_push_bit_iff bit_ones by (auto simp: NGX_SLAB_MAP_SHIFT_def nchunks_def)
  have full: "V = chunk_range k \<longleftrightarrow> pg_slab r (PageDesc a) AND NGX_SLAB_MAP_MASK = msk"
    if cr: "chunk_data r a k V" for r V
  proof -
    let ?s = "pg_slab r (PageDesc a)"
    have hi: "bit ?s j \<Longrightarrow> j < 32 + nchunks k" for j
      using cr k unfolding chunk_data_def by (meson not_less)
    have b: "bit (?s AND NGX_SLAB_MAP_MASK) j \<longleftrightarrow> bit ?s j \<and> 32 \<le> j" for j
      using word_bit_less [of ?s j] by (auto simp: bit_and_iff map_mask_bits)
    have "?s AND NGX_SLAB_MAP_MASK = msk \<longleftrightarrow> (\<forall>j. bit ?s j \<and> 32 \<le> j \<longleftrightarrow> 32 \<le> j \<and> j < 32 + nchunks k)"
      using b mb by (metis bit_eqI)
    also have "\<dots> \<longleftrightarrow> (\<forall>j. 32 \<le> j \<and> j < 32 + nchunks k \<longrightarrow> bit ?s j)" using hi by blast
    also have "\<dots> \<longleftrightarrow> (\<forall>j < nchunks k. bit (pg_slab r (PageDesc a)) (32 + j))"
      by (metis add_less_cancel_left le_add1 le_Suc_ex)
    finally show ?thesis using chunk_data_full [OF cr] k by (simp add: chunk_bit_def)
  qed
  have tw: "takeWhile (\<lambda>i. bit msk (NGX_SLAB_MAP_SHIFT + i)) [0..<64 - NGX_SLAB_MAP_SHIFT] = [0..<nchunks k]"
  proof -
    have "[0..<64 - NGX_SLAB_MAP_SHIFT] = [0..<nchunks k] @ [nchunks k..<32]"
      using nb upt_add_eq_append [of 0 "nchunks k" "32 - nchunks k"] by (simp add: NGX_SLAB_MAP_SHIFT_def)
    moreover have "takeWhile (\<lambda>i. i < nchunks k) [nchunks k..<32] = []"
      by (cases "nchunks k < 32") (simp_all add: upt_conv_Cons)
    ultimately have "takeWhile (\<lambda>i. i < nchunks k) [0..<64 - NGX_SLAB_MAP_SHIFT] = [0..<nchunks k]"
      by (simp add: takeWhile_append)
    then show ?thesis using mb by (simp add: NGX_SLAB_MAP_SHIFT_def)
  qed
  obtain i where fc: "find (\<lambda>i. \<not> bit ?w (NGX_SLAB_MAP_SHIFT + i)) [0..<nchunks k] = Some i"
  proof (cases "find (\<lambda>i. \<not> bit ?w (NGX_SLAB_MAP_SHIFT + i)) [0..<nchunks k]")
    case None
    then have "\<forall>j < nchunks k. chunk_bit p a k j"
      using k by (auto simp: find_None_iff chunk_bit_def NGX_SLAB_MAP_SHIFT_def)
    then show ?thesis using chunk_data_full [OF cd] U by simp
  qed auto
  have i: "i < nchunks k" "\<not> bit ?w (32 + i)"
    using find_upt_Some [OF fc] by (auto simp: NGX_SLAB_MAP_SHIFT_def)
  have ir: "i \<in> chunk_range k - U"
    using i chunk_data_bit [OF cd, of i] k by (auto simp: chunk_range_def chunk_bit_def)
  define p' where "p' = set_slab (PageDesc a) (?w OR push_bit (NGX_SLAB_MAP_SHIFT + i) 1) p"
  have cd': "chunk_data p' a k (insert i U)"
    using big_change [OF cd k i(1), of p' True] by (auto simp: p'_def bit_set_iff NGX_SLAB_MAP_SHIFT_def)
  have sm: "same_but_page a p p'"
    using inv_but_geometry [OF inv] by (auto simp: p'_def geometry_def)
  obtain q ls' where q: "(if insert i U = chunk_range k then slab_page_full a (type_of_shift k) p' else Done p') = Done q"
    "inv_but {} q (L(a \<mapsto> Chunks k (insert i U))) ls'" "links_only p' q"
    using inv_but_take_chunk [OF inv L U sm cd'] by blast
  have e: "(if pg_slab p' (PageDesc a) AND NGX_SLAB_MAP_MASK = msk then slab_page_full a NGX_SLAB_BIG p' else Done p') = Done q"
    using q(1) full [OF cd'] k by (simp split: if_splits)
  let ?q = "count_used slot q"
  have "alloc_big slot k a p = Done (sl_start p + a * 4096 + i * 2 ^ k, ?q)"
    unfolding alloc_big_def Let_def msk_def [symmetric] tw fc option.case p'_def [symmetric] e
    using links_onlyD [OF q(3)] by (simp add: page_addr p'_def)
  then show ?thesis using ir inv_but_stats [OF q(2)] links_onlyD [OF q(3)]
    by (intro exI [of _ i] exI [of _ ?q] exI [of _ ls']) (simp add: p'_def)
qed

section \<open>New pages of chunks\<close>

definition first_chunk :: "nat \<Rightarrow> nat" where
  "first_chunk k = (if k < 6 then bitmap_chunks k else 0)"

lemma first_chunk_range:
  assumes "3 \<le> k" "k \<le> 11"
  shows "first_chunk k \<in> chunk_range k" and "{first_chunk k} \<noteq> chunk_range k"
proof -
  have "first_chunk k + 1 \<in> chunk_range k" and r: "first_chunk k \<in> chunk_range k"
    using assms by (cases rule: shift_cases;
      simp add: first_chunk_def chunk_range_def nchunks_def bitmap_chunks_def ngx_pagesize_def)+
  then show "first_chunk k \<in> chunk_range k" "{first_chunk k} \<noteq> chunk_range k"
    by (simp, metis singletonD add_eq_self_zero zero_neq_one)
qed

lemma inv_but_new_chunks:
  assumes inv: "inv_but {} p L ls" and L: "L a = Some (Page_run 1)" and ls: "ls (SlotHead (k - 3)) = []"
    and V: "V \<noteq> chunk_range k" and cd: "chunk_data p' a k V"
    and geo: "geometry p'" "npages p' = npages p"
    and s: "\<And>i. i \<noteq> a \<Longrightarrow> pg_slab p' (PageDesc i) = pg_slab p (PageDesc i) \<and> bitmap p' i = bitmap p i"
    and nx: "pg_next p' = (pg_next p)(PageDesc a := SlotHead (k - 3), SlotHead (k - 3) := PageDesc a)"
    and pv: "pg_prev p' = (pg_prev p)(PageDesc a := (SlotHead (k - 3), type_of_shift k))"
  shows "\<exists>ls'. inv_but {} p' (L(a \<mapsto> Chunks k V)) ls'"
proof -
  let ?h = "SlotHead (k - 3)" and ?M = "L(a \<mapsto> Chunks k V)"
  have k: "3 \<le> k" "k \<le> 11" using cd by (simp_all add: chunk_data_def)
  have h: "?h \<in> heads" using k by (auto simp: heads_def)
  have ht: "head_type ?h = type_of_shift k" using k by simp
  have nh: "pg_next p ?h = ?h" using inv_but_ring [OF inv h] ls by (simp add: ring_def)
  have c: "cells L {a} = {a}" using cells_insert [of L a "Page_run 1" "{}"] L by auto
  let ?r = "p'\<lparr>pg_next := pg_next p, pg_prev := pg_prev p\<rparr>"
  have "inv_but {a} ?r L ls"
    by (rule inv_but_modify [OF inv_but_exempt [OF inv L]]) (use geo s c in \<open>auto simp: geometry_def\<close>)
  from inv_but_relabel [OF this _ L, of "Chunks k V"]
  have i: "inv_but {a} ?r ?M ls" by simp
  have "chunk_data ?r a k V" using cd chunk_data_cong [of ?r a p' k V] by simp
  then have ok: "tile_ok ?r a (Chunks k V)" using V by simp
  have l: "list_of (Chunks k V) = Some ?h" using V by simp
  let ?q = "?r\<lparr>pg_next := (pg_next ?r)(PageDesc a := pg_next ?r ?h, ?h := PageDesc a),
        pg_prev := (pg_prev ?r)(PageDesc a := (?h, head_type ?h), pg_next ?r ?h := (PageDesc a, head_type ?h))\<rparr>"
  have push: "inv_but {} ?q ?M (ls(?h := a # ls ?h))"
    using inv_but_push(1) [OF i _ _ l ok refl] by simp
  have "inv_but {} p' ?M (ls(?h := a # ls ?h))"
    by (rule inv_but_modify [OF push]) (use geo nx pv nh ht in auto)
  then show ?thesis by blast
qed

lemma of_nat_low_bits: "k < 16 \<Longrightarrow> bit (of_nat k :: 64 word) j \<Longrightarrow> j < 4"
proof -
  assume n: "k < 16" and b: "bit (of_nat k :: 64 word) j"
  have "take_bit 4 k = k" using n by (simp add: take_bit_nat_eq_self)
  then show ?thesis using b by (metis bit_of_nat_iff bit_take_bit_iff)
qed

lemma chunk_data_new_small:
  assumes k: "3 \<le> k" "k < 6" and b: "bitmap p a = new_bitmap k old" and s: "pg_slab p (PageDesc a) = of_nat k"
  shows "chunk_data p a k {first_chunk k}"
proof -
  note ns = nchunks_small [OF k]
  let ?n = "bitmap_chunks k"
  have n: "?n + 1 < 64"
    using k by (elim shift_cases [of k]) (auto simp: bitmap_chunks_def ngx_pagesize_def)
  have bm: "new_bitmap k old j = (if j = 0 then push_bit (?n + 1) 1 - 1 else if j < nchunks k div 64 then 0 else old j)" for j
    using n by (simp add: new_bitmap_def Let_def nchunks_def)
  have cb: "chunk_bit p a k j \<longleftrightarrow> j \<le> ?n" if j: "j < nchunks k" for j
  proof (cases "j < 64")
    case True
    then show ?thesis using k b bm bit_ones [of "?n + 1" j] by (auto simp: chunk_bit_def)
  next
    case False
    have "j div 64 < nchunks k div 64" using j ns by (metis less_mult_imp_div_less mult.commute)
    moreover have "j div 64 \<noteq> 0" using False by (simp add: div_eq_0_iff)
    ultimately show ?thesis using False n k b bm by (simp add: chunk_bit_def)
  qed
  have "first_chunk k \<in> chunk_range k" using first_chunk_range(1) k by simp
  then show ?thesis
    using cb k s unfolding chunk_data_def by (auto simp: first_chunk_def chunk_range_def)
qed

lemma chunk_data_new_exact:
  "pg_slab p (PageDesc a) = 1 \<Longrightarrow> chunk_data p a 6 {first_chunk 6}"
  unfolding chunk_data_def chunk_bit_def first_chunk_def chunk_range_def by (auto simp: bit_1_iff)

lemma chunk_data_new_big:
  assumes k: "6 < k" "k \<le> 11" and s: "pg_slab p (PageDesc a) = push_bit NGX_SLAB_MAP_SHIFT 1 OR of_nat k"
  shows "chunk_data p a k {first_chunk k}"
proof -
  let ?w = "push_bit 32 1 OR of_nat k :: 64 word"
  have w: "bit ?w j \<longleftrightarrow> j = 32 \<or> bit (of_nat k :: 64 word) j" for j
    unfolding bit_or_iff bit_push_one by auto
  have lo: "bit (of_nat k :: 64 word) j \<Longrightarrow> j < 4" for j by (rule of_nat_low_bits) (use k in auto)
  have "?w AND NGX_SLAB_SHIFT_MASK = of_nat k"
  proof (rule bit_word_eqI)
    fix j
    show "bit (?w AND NGX_SLAB_SHIFT_MASK) j = bit (of_nat k :: 64 word) j"
      unfolding bit_and_iff w shift_mask_bits using lo [of j] by auto
  qed
  moreover have "\<not> bit ?w j" if "32 + nchunks k \<le> j" for j
    using w [of j] lo [of j] that nchunks_big [OF k] by auto
  moreover have "bit ?w (32 + j) \<longleftrightarrow> j = 0" for j using w [of "32 + j"] lo [of "32 + j"] by auto
  moreover have "pg_slab p (PageDesc a) = ?w" using s by (simp add: NGX_SLAB_MAP_SHIFT_def)
  ultimately show ?thesis
    using k nchunks_big [OF k] unfolding chunk_data_def chunk_bit_def
    by (simp add: first_chunk_def chunk_range_def)
qed

text \<open>The three ways of starting a page of chunks, in the class of its shift.\<close>

definition new_chunks :: "nat \<Rightarrow> nat \<Rightarrow> slab_pool \<Rightarrow> addr \<times> slab_pool" where
  "new_chunks k a p =
     (if k < 6 then new_small (k - 3) k a p else if k = 6 then new_exact (k - 3) a p
      else new_big (k - 3) k a p)"

lemma new_chunks_ok:
  assumes inv: "inv_but {} p L ls" and L: "L a = Some (Page_run 1)" and ls: "ls (SlotHead (k - 3)) = []"
    and k: "3 \<le> k" "k \<le> 11"
  shows "\<exists>q ls'. new_chunks k a p = (sl_start p + a * 4096 + first_chunk k * 2 ^ k, q) \<and>
    inv_but {} q (L(a \<mapsto> Chunks k {first_chunk k})) ls' \<and> kept p q"
proof -
  define q where "q = snd (new_chunks k a p)"
  have f: "geometry q" "npages q = npages p" "kept p q"
    "\<And>i. i \<noteq> a \<Longrightarrow> pg_slab q (PageDesc i) = pg_slab p (PageDesc i) \<and> bitmap q i = bitmap p i"
    "pg_next q = (pg_next p)(PageDesc a := SlotHead (k - 3), SlotHead (k - 3) := PageDesc a)"
    "pg_prev q = (pg_prev p)(PageDesc a := (SlotHead (k - 3), type_of_shift k))"
    using inv_but_geometry [OF inv] k
    by (auto simp: q_def new_chunks_def new_small_def new_exact_def new_big_def link_slot_def Let_def geometry_def)
  have "chunk_data q a k {first_chunk k}"
  proof -
    consider "k < 6" | "k = 6" | "6 < k" by linarith
    then show ?thesis
    proof cases
      case 1
      show ?thesis by (rule chunk_data_new_small [where old = "bitmap p a"])
          (use k 1 in \<open>auto simp: q_def new_chunks_def new_small_def link_slot_def Let_def\<close>)
    next
      case 2
      show ?thesis unfolding 2 by (rule chunk_data_new_exact)
          (auto simp: 2 q_def new_chunks_def new_exact_def link_slot_def Let_def)
    next
      case 3
      show ?thesis by (rule chunk_data_new_big)
          (use k 3 in \<open>auto simp: q_def new_chunks_def new_big_def link_slot_def Let_def\<close>)
    qed
  qed
  from inv_but_new_chunks [OF inv L ls first_chunk_range(2) [OF k] this f(1,2,4,5,6)]
  obtain ls' where "inv_but {} q (L(a \<mapsto> Chunks k {first_chunk k})) ls'" by blast
  moreover have "fst (new_chunks k a p) = sl_start p + a * 4096 + first_chunk k * 2 ^ k"
    by (simp add: new_chunks_def new_small_def new_exact_def new_big_def link_slot_def Let_def page_addr
        first_chunk_def)
  ultimately show ?thesis using f(3) by (intro exI [of _ q] exI [of _ ls']) (auto simp: q_def prod_eq_iff)
qed

section \<open>Blocks of a layout\<close>

definition opt_blocks :: "addr \<Rightarrow> nat \<Rightarrow> tile option \<Rightarrow> block set" where
  "opt_blocks s a x = (case x of None \<Rightarrow> {} | Some t \<Rightarrow> tile_blocks s (a, t))"

lemma opt_blocks_simps [simp]:
  "opt_blocks s a None = {}" "opt_blocks s a (Some (Free_run n)) = {}" "opt_blocks s a (Some (Hole n)) = {}"
  "opt_blocks s a (Some (Page_run n)) = {(s + a * 4096, n * 4096)}"
  "opt_blocks s a (Some (Chunks k U)) = (\<lambda>i. (s + a * 4096 + i * 2 ^ k, 2 ^ k)) ` U"
  by (simp_all add: opt_blocks_def)

lemma used_blocks_opt: "used_blocks p L = (\<Union>a. opt_blocks (sl_start p) a (L a))"
proof -
  have "tile_blocks s (b, t) = {}" if "free_len (Some t) \<noteq> 0" for s b t using that by (cases t) auto
  then show ?thesis
    unfolding used_blocks_def busy_def opt_blocks_def by (fastforce split: option.splits)
qed

lemma used_blocks_update:
  "used_blocks p (L(a := x)) = opt_blocks (sl_start p) a x \<union> (\<Union>b \<in> - {a}. opt_blocks (sl_start p) b (L b))"
  unfolding used_blocks_opt by (auto split: if_splits)

lemma used_blocks_at:
  "used_blocks p L = opt_blocks (sl_start p) a (L a) \<union> (\<Union>b \<in> - {a}. opt_blocks (sl_start p) b (L b))"
  unfolding used_blocks_opt by auto

lemma used_blocks_kept: "sl_start q = sl_start p \<Longrightarrow> used_blocks q L = used_blocks p L"
  by (simp add: used_blocks_def)

text \<open>A block lies in the pages of its tile.\<close>

lemma opt_blocks_within:
  assumes "tile_ok p a t" and "b \<in> opt_blocks s a (Some t)"
  shows "block_within b (s + a * 4096, tile_len t * 4096)" and "0 < tile_len t \<Longrightarrow> 0 < snd b"
proof -
  have "block_within b (s + a * 4096, tile_len t * 4096) \<and> (0 < tile_len t \<longrightarrow> 0 < snd b)"
  proof (cases t)
    case (Chunks k U)
    then have cd: "chunk_data p a k U" using assms(1) by simp
    then obtain i where i: "i \<in> U" "b = (s + a * 4096 + i * 2 ^ k, 2 ^ k)" using assms Chunks by auto
    have "i < nchunks k" using i(1) cd by (auto simp: chunk_data_def chunk_range_def)
    then have "(i + 1) * 2 ^ k \<le> nchunks k * 2 ^ k" by (intro mult_le_mono1) simp
    also have "\<dots> = 4096" using nchunks_size [of k] cd by (simp add: chunk_data_def)
    finally show ?thesis using i(2) Chunks by (simp add: block_within_def)
  qed (use assms in \<open>auto simp: block_within_def\<close>)
  then show "block_within b (s + a * 4096, tile_len t * 4096)" "0 < tile_len t \<Longrightarrow> 0 < snd b" by auto
qed

lemma used_blocksE:
  assumes "b \<in> used_blocks p L"
  obtains a t where "L a = Some t" "b \<in> opt_blocks (sl_start p) a (Some t)"
proof -
  obtain a where a: "b \<in> opt_blocks (sl_start p) a (L a)" using assms unfolding used_blocks_opt by blast
  then show ?thesis using that by (cases "L a") auto
qed

lemma used_block_within:
  assumes "inv_but {} p L ls" and "L a = Some t" and "b \<in> opt_blocks (sl_start p) a (Some t)"
  shows "block_within b (sl_start p + a * 4096, tile_len t * 4096)" and "0 < snd b"
  using opt_blocks_within [OF inv_but_tile [OF assms(1,2), simplified] assms(3)] hole_len(2) [OF assms(1,2)] by auto

lemma tiles_disjoint:
  assumes "tiling N L" and "L a = Some t" and "L b = Some u" and "a \<noteq> b"
  shows "block_disjoint (s + a * 4096, tile_len t * 4096) (s + b * 4096, tile_len u * 4096)"
  using tiling_order [OF assms(1,2,3)] tiling_order [OF assms(1,3,2)] assms(4)
  by (cases a b rule: linorder_cases) (auto simp: block_disjoint_def)

text \<open>The blocks in use do not overlap and lie between \<^verbatim>\<open>start\<close> and \<^verbatim>\<open>end\<close>.\<close>

lemma used_blocks_disjoint:
  assumes inv: "inv_but {} p L ls" and b: "b \<in> used_blocks p L" and c: "c \<in> used_blocks p L" and ne: "b \<noteq> c"
  shows "block_disjoint b c"
proof -
  obtain a t where a: "L a = Some t" "b \<in> opt_blocks (sl_start p) a (Some t)" using b by (rule used_blocksE)
  obtain x u where x: "L x = Some u" "c \<in> opt_blocks (sl_start p) x (Some u)" using c by (rule used_blocksE)
  show ?thesis
  proof (cases "a = x")
    case False
    then show ?thesis
      using block_within_disjoint2 used_block_within(1) [OF inv a] used_block_within(1) [OF inv x]
        tiles_disjoint [OF inv_but_tiling [OF inv] a(1) x(1)] by simp
  next
    case True
    then obtain k U i j where i: "b = (sl_start p + a * 4096 + i * 2 ^ k, 2 ^ k)"
      "c = (sl_start p + a * 4096 + j * 2 ^ k, 2 ^ k)" "i \<noteq> j"
      using a x ne by (cases t) auto
    have "i * 2 ^ k + 2 ^ k \<le> j * 2 ^ k \<or> j * 2 ^ k + 2 ^ k \<le> i * (2 :: nat) ^ k"
      using i(3) mult_le_mono1 [of "i + 1" j "2 ^ k"] mult_le_mono1 [of "j + 1" i "2 ^ k"]
      by (cases i j rule: linorder_cases) auto
    then show ?thesis using i by (auto simp: block_disjoint_def)
  qed
qed

lemma used_blocks_bounds:
  assumes inv: "inv_but {} p L ls" and b: "b \<in> used_blocks p L"
  shows "sl_start p \<le> fst b" "fst b + snd b \<le> sl_end p" "0 < snd b"
proof -
  obtain a t where a: "L a = Some t" "b \<in> opt_blocks (sl_start p) a (Some t)" using b by (rule used_blocksE)
  note w = used_block_within [OF inv a]
  have "a + tile_len t \<le> npages p" using hole_len [OF inv a(1)] by auto
  then have "sl_start p + a * 4096 + tile_len t * 4096 \<le> sl_end p" "0 < snd b"
    using inv_but_geometry [OF inv] w(2) by (auto simp: geometry_def)
  then show "sl_start p \<le> fst b" "fst b + snd b \<le> sl_end p" "0 < snd b"
    using w(1) by (auto simp: block_within_def)
qed

lemma new_block_fresh:
  assumes inv: "inv_but {} p L ls" and L: "L a = Some t" and i: "i \<in> {..<tile_len t * 4096}"
    and own: "\<And>c. (sl_start p + a * 4096 + i, c) \<notin> opt_blocks (sl_start p) a (Some t)"
  shows "(sl_start p + a * 4096 + i, c) \<notin> used_blocks p L"
proof
  assume "(sl_start p + a * 4096 + i, c) \<in> used_blocks p L"
  then obtain b u where b: "L b = Some u" "(sl_start p + a * 4096 + i, c) \<in> opt_blocks (sl_start p) b (Some u)"
    by (rule used_blocksE)
  then have ne: "a \<noteq> b" using own L by auto
  have "block_disjoint (sl_start p + a * 4096, tile_len t * 4096) (sl_start p + a * 4096 + i, c)"
    using block_within_disjoint [OF used_block_within(1) [OF inv b]]
      block_disjoint_sym [OF tiles_disjoint [OF inv_but_tiling [OF inv] L b(1) ne]] block_disjoint_sym by blast
  moreover have "0 < c" using used_block_within(2) [OF inv b] by simp
  ultimately show False using i by (auto simp: block_disjoint_def)
qed

section \<open>Sizes\<close>

lemma shift_count_bounds:
  "s \<le> shift_count n s \<and> n < 2 ^ (shift_count n s - s + 1) \<and> (0 < n \<longrightarrow> 2 ^ (shift_count n s - s) \<le> n)"
proof (induction n s rule: shift_count.induct)
  case (1 n s)
  show ?case
  proof (cases "n div 2 = 0")
    case True
    then have "n < 2" by simp
    then show ?thesis using True by (subst (1 2 3) shift_count.simps) auto
  next
    case False
    let ?r = "shift_count (n div 2) (s + 1)"
    have r: "shift_count n s = ?r" using False by (subst shift_count.simps) simp
    note IH = 1 [OF False]
    have e: "?r - s = Suc (?r - (s + 1))" using IH by linarith
    have "n < 2 * 2 ^ (?r - (s + 1) + 1)" "2 * 2 ^ (?r - (s + 1)) \<le> n" using IH False by auto
    then show ?thesis using r e IH by simp
  qed
qed

lemma slab_constants:
  "ngx_slab_max_size = 2048" "ngx_slab_exact_size = 64" "ngx_slab_exact_shift = 6"
  by (simp_all add: ngx_slab_max_size_def ngx_slab_exact_size_def ngx_slab_exact_shift_def
      shuso_shared_slab_sizes_init_def slab_sizes_zero_def ngx_pagesize_def shift_count.simps)

lemma slab_shift_bounds:
  assumes "geometry p" and "sz \<le> 2048"
  shows "3 \<le> slab_shift p sz" "slab_shift p sz \<le> 11" "sz \<le> 2 ^ slab_shift p sz"
proof -
  have "3 \<le> slab_shift p sz \<and> slab_shift p sz \<le> 11 \<and> sz \<le> 2 ^ slab_shift p sz"
  proof (cases "sz > 8")
    case True
    let ?r = "shift_count (sz - 1) 1"
    have r: "slab_shift p sz = ?r" using True assms(1) by (simp add: slab_shift_def geometry_def)
    note sb = shift_count_bounds [of 1 "sz - 1"]
    have b: "1 \<le> ?r" "2 ^ (?r - 1) \<le> sz - 1" using sb True by auto
    have "?r - 1 + 1 = ?r" using b(1) by simp
    then have b2: "sz - 1 < 2 ^ ?r" using sb by (simp only:)
    have "(2 :: nat) ^ 3 \<le> sz - 1" using True by simp
    then have "(2 :: nat) ^ 3 < 2 ^ ?r" using b2 by linarith
    then have "3 < ?r" by (rule power_less_imp_less_exp [rotated]) simp
    moreover have "(2 :: nat) ^ (?r - 1) < 2 ^ 11" using b(2) assms(2) by simp
    then have "?r - 1 < 11" by (rule power_less_imp_less_exp [rotated]) simp
    ultimately show ?thesis using r b2 by auto
  next
    case False
    then show ?thesis using assms(1) by (simp add: slab_shift_def geometry_def)
  qed
  then show "3 \<le> slab_shift p sz" "slab_shift p sz \<le> 11" "sz \<le> 2 ^ slab_shift p sz" by auto
qed

section \<open>Allocation\<close>

lemma slab_inv_stats: "slab_inv p L \<Longrightarrow> slab_inv (p\<lparr>sl_stats := st\<rparr>) L"
  using inv_but_stats unfolding slab_inv_def by fastforce

text \<open>Replacing a tile in use by another one in use.\<close>

lemma slab_inv_retile:
  assumes inv: "slab_inv p L" and q: "inv_but {} q (L(a \<mapsto> t')) ls'" "kept p q"
    and L: "L a = Some t" "free_len (Some t) = 0" and t': "free_len (Some t') = 0" "\<And>k. t' \<noteq> Chunks k {}" "\<And>n. t' \<noteq> Hole n"
  shows "slab_inv q (L(a \<mapsto> t'))"
proof -
  obtain ls where i: "inv_but {} p L ls" and r: "coalesced L" "\<And>a n. L a \<noteq> Some (Hole n)"
    "\<And>a k. L a \<noteq> Some (Chunks k {})" "pfree p = of_nat (free_pages (npages p) L)"
    using inv by (rule slab_invD) blast
  have "a < npages p" using hole_len [OF i L(1)] by simp
  then have "free_pages (npages p) (L(a \<mapsto> t')) = free_pages (npages p) L"
    using free_pages_update [of a "npages p" L "Some t'"] L t' by simp
  moreover have "\<forall>n. t' \<noteq> Free_run n"
    using t'(1) hole_len(2) [OF q(1), of a t'] by auto
  then have "coalesced (L(a \<mapsto> t'))" using r(1) by (auto simp: coalesced_def)
  ultimately show ?thesis using q r t'(2,3) unfolding slab_inv_def by auto
qed

lemma used_blocks_add:
  "opt_blocks (sl_start p) a (L a) = {} \<Longrightarrow>
   used_blocks p (L(a := x)) = opt_blocks (sl_start p) a x \<union> used_blocks p L"
  using used_blocks_at [of p L a] by (simp add: used_blocks_update)

lemma used_blocks_take:
  assumes i: "inv_but {} p L ls" and L: "L a = Some (Free_run m)" and n: "0 < n" "n \<le> m"
  shows "used_blocks p (take_run L a m n) = insert (sl_start p + a * 4096, n * 4096) (used_blocks p L)"
proof -
  have "L (a + n) = None" if "n < m" using inv_but_interior [OF i L, of "a + n"] n that by simp
  then show ?thesis
    using used_blocks_add [of p a L "Some (Page_run n)"] L n
      used_blocks_add [of p "a + n" "L(a \<mapsto> Page_run n)" "Some (Free_run (m - n))"]
    by (cases "m = n") (simp_all add: take_run_def)
qed

definition pages_needed :: "nat \<Rightarrow> nat" where
  "pages_needed sz = (if sz \<le> 2048 then 1 else (sz + 4095) div 4096)"

lemma pages_needed_code:
  "sz > 2048 \<Longrightarrow> sz div 2 ^ ngx_pagesize_shift + (if sz mod ngx_pagesize \<noteq> 0 then 1 else 0) = pages_needed sz"
proof -
  assume "sz > 2048"
  moreover have "x div 4096 + (if x mod 4096 \<noteq> 0 then 1 else 0) = (x + 4095) div 4096" for x :: nat
  proof -
    have "x + 4095 = (x mod 4096 + 4095) + x div 4096 * 4096" using div_mult_mod_eq [of x 4096] by linarith
    then have "(x + 4095) div 4096 = x div 4096 + (x mod 4096 + 4095) div 4096"
      by (metis div_mult_self1 add.commute zero_neq_numeral)
    moreover have "(x mod 4096 + 4095) div 4096 = 1" if "x mod 4096 \<noteq> 0"
      by (rule div_nat_eqI) (use that mod_less_divisor [of 4096 x] in auto)
    ultimately show ?thesis by simp
  qed
  ultimately show ?thesis by (simp add: pages_needed_def ngx_pagesize_shift_def ngx_pagesize_def)
qed

text \<open>What a successful allocation of the block \<open>(a, cs)\<close> does.\<close>

definition allocates :: "slab_pool \<Rightarrow> layout \<Rightarrow> slab_pool \<Rightarrow> addr \<Rightarrow> nat \<Rightarrow> bool" where
  "allocates p L q a cs \<longleftrightarrow>
     (\<exists>M. slab_inv q M \<and> (a, cs) \<notin> used_blocks p L \<and>
          used_blocks q M = insert (a, cs) (used_blocks p L) \<and> sl_start q = sl_start p \<and> npages q = npages p)"

lemma allocates_pages:
  assumes inv: "slab_inv p L" and L: "L a = Some (Free_run m)" and n: "0 < n" "n \<le> m"
    and q: "slab_inv q (take_run L a m n)" "sl_start q = sl_start p" "npages q = npages p"
  shows "allocates p L q (sl_start p + a * 4096) (n * 4096)"
proof -
  obtain ls where i: "inv_but {} p L ls" using inv by (rule slab_invD) blast
  have "(sl_start p + a * 4096 + 0, c) \<notin> used_blocks p L" for c
    by (rule new_block_fresh [OF i L]) (use n in auto)
  moreover have "used_blocks q (take_run L a m n) = insert (sl_start p + a * 4096, n * 4096) (used_blocks p L)"
    using used_blocks_take [OF i L n] used_blocks_kept [OF q(2)] by simp
  ultimately show ?thesis using q unfolding allocates_def by (intro exI [of _ "take_run L a m n"]) simp
qed

lemma allocates_chunk:
  assumes inv: "slab_inv p L" and L: "L a = Some (Chunks k U)" and i: "i \<in> chunk_range k - U"
    and q: "inv_but {} q (L(a \<mapsto> Chunks k (insert i U))) ls'" "kept p q"
  shows "allocates p L q (sl_start p + a * 4096 + i * 2 ^ k) (2 ^ k)"
proof -
  obtain ls where v: "inv_but {} p L ls" using inv by (rule slab_invD) blast
  have k: "3 \<le> k" "k \<le> 11" using inv_but_tile [OF v L] by (simp_all add: chunk_data_def)
  have "i < nchunks k" using i by (auto simp: chunk_range_def)
  then have "i * 2 ^ k < nchunks k * 2 ^ k" by simp
  then have "i * 2 ^ k < 4096" using nchunks_size [OF k] by simp
  then have "(sl_start p + a * 4096 + i * 2 ^ k, 2 ^ k) \<notin> used_blocks p L"
    by (intro new_block_fresh [OF v L]) (use i in auto)
  moreover have "used_blocks q (L(a \<mapsto> Chunks k (insert i U))) =
      insert (sl_start p + a * 4096 + i * 2 ^ k, 2 ^ k) (used_blocks p L)"
    using used_blocks_at [of p L a] L q(2) by (simp add: used_blocks_kept [of q p] used_blocks_update)
  moreover have "slab_inv q (L(a \<mapsto> Chunks k (insert i U)))"
    by (rule slab_inv_retile [OF inv q L]) auto
  ultimately show ?thesis using q(2) unfolding allocates_def by blast
qed

lemma allocates_new_chunk:
  assumes inv: "slab_inv p L" and L: "L a = Some (Free_run m)" and k: "3 \<le> k" "k \<le> 11"
    and p1: "slab_inv p1 (take_run L a m 1)" "sl_start p1 = sl_start p" "npages p1 = npages p"
    and q: "inv_but {} q ((take_run L a m 1)(a \<mapsto> Chunks k {first_chunk k})) ls'" "kept p1 q"
  shows "allocates p L q (sl_start p + a * 4096 + first_chunk k * 2 ^ k) (2 ^ k)"
proof -
  obtain ls where v: "inv_but {} p L ls" using inv by (rule slab_invD) blast
  have m: "0 < m" using hole_len [OF v L] by simp
  let ?M = "(take_run L a m 1)(a \<mapsto> Chunks k {first_chunk k})"
  have T: "take_run L a m 1 a = Some (Page_run 1)" by (simp add: take_run_def)
  have "first_chunk k < nchunks k" using first_chunk_range(1) [OF k] by (auto simp: chunk_range_def)
  then have "first_chunk k * 2 ^ k < nchunks k * 2 ^ k" by simp
  then have "first_chunk k * 2 ^ k < m * 4096" using nchunks_size [OF k] m by simp
  then have "(sl_start p + a * 4096 + first_chunk k * 2 ^ k, 2 ^ k) \<notin> used_blocks p L"
    by (intro new_block_fresh [OF v L]) auto
  moreover have "L (a + 1) = None" if "m \<noteq> 1" using inv_but_interior [OF v L, of "a + 1"] m that by simp
  then have "used_blocks p ?M = insert (sl_start p + a * 4096 + first_chunk k * 2 ^ k, 2 ^ k) (used_blocks p L)"
    using used_blocks_add [of p a L "Some (Chunks k {first_chunk k})"] L
      used_blocks_add [of p "a + 1" "L(a \<mapsto> Chunks k {first_chunk k})" "Some (Free_run (m - 1))"]
    by (cases "m = 1") (simp_all add: take_run_def fun_upd_twist)
  then have "used_blocks q ?M = insert (sl_start p + a * 4096 + first_chunk k * 2 ^ k, 2 ^ k) (used_blocks p L)"
    using used_blocks_kept [of q p] p1(2) q(2) by simp
  moreover have "slab_inv q ?M" by (rule slab_inv_retile [OF p1(1) q T]) auto
  ultimately show ?thesis using q(2) p1(2,3) unfolding allocates_def by (intro exI [of _ ?M]) simp
qed

text \<open>The page that the list of a slot starts with, if any.\<close>

lemma slot_first:
  assumes inv: "inv_but {} p L ls" and k: "3 \<le> k" "k \<le> 11"
  defines "h \<equiv> SlotHead (k - 3)"
  shows "ref_ok p (pg_next p h)"
    and "ls h = [] \<Longrightarrow> pg_next p h = h" "ls h = [] \<Longrightarrow> pg_next p (pg_next p h) = pg_next p h"
    and "ls h = a # as \<Longrightarrow> pg_next p h = PageDesc a \<and> pg_next p (PageDesc a) \<noteq> PageDesc a \<and>
           (\<exists>U. L a = Some (Chunks k U) \<and> U \<noteq> chunk_range k)"
proof -
  have h: "h \<in> heads" using k by (auto simp: h_def heads_def)
  note r = inv_but_ring [OF inv h]
  have n: "pg_next p h = (case ls h of [] \<Rightarrow> h | y # _ \<Rightarrow> PageDesc y)" using seg_first r by (auto simp: ring_def)
  show "ref_ok p (pg_next p h)" using n inv_but_ref_ok [OF inv h] by (auto split: list.splits)
  show "ls h = [] \<Longrightarrow> pg_next p h = h" "ls h = [] \<Longrightarrow> pg_next p (pg_next p h) = pg_next p h" using n by auto
  assume l: "ls h = a # as"
  have "ring p h ([] @ a # as)" using r l by simp
  from ring_neighbours(2) [OF this] have "pg_next p (PageDesc a) \<noteq> PageDesc a"
    using r l head_not_page [OF h] by (auto simp: ring_def split: list.splits)
  moreover obtain t where t: "L a = Some t" "list_of t = Some h"
    using l inv_but_list [OF inv h, of a] by auto
  then obtain k' U where "t = Chunks k' U" "k' - 3 = k - 3" "U \<noteq> chunk_range k'"
    by (cases t) (auto simp: h_def split: if_splits)
  moreover have "3 \<le> k'" using inv_but_tile [OF inv t(1)] \<open>t = Chunks k' U\<close> by (simp add: chunk_data_def)
  moreover from this have "k' = k" using k \<open>k' - 3 = k - 3\<close> by linarith
  ultimately show "pg_next p h = PageDesc a \<and> pg_next p (PageDesc a) \<noteq> PageDesc a \<and>
           (\<exists>U. L a = Some (Chunks k U) \<and> U \<noteq> chunk_range k)"
    using n l t k by auto
qed

lemma alloc_listed_ok:
  assumes inv: "inv_but {} p L ls" and L: "L a = Some (Chunks k U)" and U: "U \<noteq> chunk_range k"
  shows "\<exists>i q ls'. (if k < ngx_slab_exact_shift then alloc_small slot k a p
                   else if k = ngx_slab_exact_shift then alloc_exact slot k a p
                   else alloc_big slot k a p) = Done (sl_start p + a * 4096 + i * 2 ^ k, q) \<and>
    i \<in> chunk_range k - U \<and> inv_but {} q (L(a \<mapsto> Chunks k (insert i U))) ls' \<and> kept p q"
  using alloc_small_ok [OF inv L U] alloc_exact_ok [OF inv, of a U slot] alloc_big_ok [OF inv L U] L U
  unfolding slab_constants by (cases k "6 :: nat" rule: linorder_cases) simp_all

lemma empty_slot_kept:
  assumes inv: "inv_but {} p L ls" and q: "inv_but {} q (take_run L a m 1) ls'"
    and k: "3 \<le> k" "k \<le> 11" and e: "ls (SlotHead (k - 3)) = []"
  shows "ls' (SlotHead (k - 3)) = []"
proof -
  have h: "SlotHead (k - 3) \<in> heads" using k by (auto simp: heads_def)
  have "{b. b \<notin> {} \<and> (\<exists>t. L b = Some t \<and> list_of t = Some (SlotHead (k - 3)))} = {}"
    using inv_but_set [OF inv h] e by simp
  then have "{b. b \<notin> {} \<and> (\<exists>t. take_run L a m 1 b = Some t \<and> list_of t = Some (SlotHead (k - 3)))} = {}"
    by (auto simp: take_run_def split: if_splits)
  then have "set (ls' (SlotHead (k - 3))) = {}" using inv_but_set [OF q h] by (simp only:)
  then show ?thesis by simp
qed

text \<open>
  An allocation hands out a block of at least the size asked for that is not in use, or
  returns null when no run of free pages is long enough.
\<close>

lemma ngx_slab_alloc_locked_ok:
  assumes inv: "slab_inv p L"
  shows "(\<exists>a q cs. ngx_slab_alloc_locked p sz = Done (a, q) \<and> a \<noteq> 0 \<and> sz \<le> cs \<and> allocates p L q a cs) \<or>
         (\<exists>q. ngx_slab_alloc_locked p sz = Done (0, q) \<and> slab_inv q L \<and> sl_start q = sl_start p \<and>
            npages q = npages p \<and>
            (\<forall>a m. L a = Some (Free_run m) \<longrightarrow> m < pages_needed sz))"
proof -
  obtain ls where i: "inv_but {} p L ls" using inv by (rule slab_invD) blast
  have geo: "geometry p" and st: "0 < sl_start p" using inv_but_geometry [OF i] by (auto simp: geometry_def)
  show ?thesis
  proof (cases "sz > 2048")
    case True
    let ?n = "pages_needed sz"
    have n: "0 < ?n" "sz \<le> ?n * 4096"
      using True div_mult_mod_eq [of "sz + 4095" 4096] mod_less_divisor [of 4096 "sz + 4095"]
      by (simp_all add: pages_needed_def div_greater_zero_iff)
    have code: "ngx_slab_alloc_locked p sz = run_bind (ngx_slab_alloc_pages p ?n)
        (\<lambda>(page, p). case page of Some a \<Rightarrow> Done (ngx_slab_page_addr p a, p) | None \<Rightarrow> Done (0, p))"
      unfolding ngx_slab_alloc_locked_def slab_constants pages_needed_code [OF True] using True by simp
    from ngx_slab_alloc_pages_ok [OF inv n(1)] show ?thesis
    proof (elim disjE exE conjE)
      fix a m q assume a: "ngx_slab_alloc_pages p ?n = Done (Some a, q)" "L a = Some (Free_run m)" "?n \<le> m"
        "slab_inv q (take_run L a m ?n)" "npages q = npages p" "sl_start q = sl_start p"
      have "allocates p L q (sl_start p + a * 4096) (?n * 4096)"
        by (rule allocates_pages [OF inv a(2) n(1) a(3,4,6,5)])
      moreover have "ngx_slab_alloc_locked p sz = Done (sl_start p + a * 4096, q)"
        using code a(1,6) by (simp add: page_addr)
      ultimately show ?thesis using n(2) st by (intro disjI1) (metis add_is_0 less_numeral_extra(3))
    qed (use code inv in simp)
  next
    case False
    define k where "k = slab_shift p sz"
    have k: "3 \<le> k" "k \<le> 11" "sz \<le> 2 ^ k" using slab_shift_bounds [OF geo] False by (simp_all add: k_def)
    define p0 where "p0 = set_stat (k - 3) (\<lambda>st. st\<lparr>st_reqs := st_reqs st + 1\<rparr>) p"
    have inv0: "slab_inv p0 L" using slab_inv_stats [OF inv] by (simp add: p0_def)
    have i0: "inv_but {} p0 L ls" using inv_but_stats [OF i] by (simp add: p0_def)
    have ub: "used_blocks p0 L = used_blocks p L" "sl_start p0 = sl_start p"
      and np: "npages p0 = npages p"
      by (simp_all add: p0_def used_blocks_def)
    then have al: "allocates p0 L q a c = allocates p L q a c" for q a c using np by (simp add: allocates_def)
    let ?h = "SlotHead (k - 3)"
    note sf = slot_first [OF i0 k(1,2)]
    have ms: "min_shift p = 3" using geo by (simp add: geometry_def)
    note code = ngx_slab_alloc_locked_def [of p sz] 
    show ?thesis
    proof (cases "ls ?h")
      case (Cons a as)
      then have f: "pg_next p0 ?h = PageDesc a" "pg_next p0 (PageDesc a) \<noteq> PageDesc a"
        and "\<exists>U. L a = Some (Chunks k U) \<and> U \<noteq> chunk_range k" using sf(4) by auto
      then obtain U where U: "L a = Some (Chunks k U)" "U \<noteq> chunk_range k" by blast
      obtain j q ls' where q: "(if k < ngx_slab_exact_shift then alloc_small (k - 3) k a p0
                   else if k = ngx_slab_exact_shift then alloc_exact (k - 3) k a p0
                   else alloc_big (k - 3) k a p0) = Done (sl_start p0 + a * 4096 + j * 2 ^ k, q)"
        "j \<in> chunk_range k - U" "inv_but {} q (L(a \<mapsto> Chunks k (insert j U))) ls'" "kept p0 q"
        using alloc_listed_ok [OF i0 U] by blast
      have "ngx_slab_alloc_locked p sz = Done (sl_start p0 + a * 4096 + j * 2 ^ k, q)"
        unfolding code slab_constants(1) Let_def k_def [symmetric] ms p0_def [symmetric] f(1)
        using False q(1) f(2) sf(1) f(1) by simp
      moreover have "allocates p L q (sl_start p0 + a * 4096 + j * 2 ^ k) (2 ^ k)"
        using allocates_chunk [OF inv0 U(1) q(2,3,4)] al by simp
      ultimately show ?thesis using k(3) st ub(2) by (intro disjI1) (metis add_is_0 less_numeral_extra(3))
    next
      case Nil
      note e = sf(2,3) [OF Nil]
      have run: "ngx_slab_alloc_locked p sz = run_bind (ngx_slab_alloc_pages p0 1)
          (\<lambda>(page, p). case page of
               Some a \<Rightarrow> Done (new_chunks k a p)
             | None \<Rightarrow> Done (0, set_stat (k - 3) (\<lambda>st. st\<lparr>st_fails := st_fails st + 1\<rparr>) p))"
        unfolding code slab_constants(1) Let_def k_def [symmetric] ms p0_def [symmetric] e(1)
        using False sf(1) e by (auto simp: new_chunks_def slab_constants intro!: arg_cong [where f = "run_bind _"] split: option.splits)
      from ngx_slab_alloc_pages_ok [OF inv0 zero_less_one] show ?thesis
      proof (elim disjE exE conjE)
        fix a m p1 assume a: "ngx_slab_alloc_pages p0 1 = Done (Some a, p1)" "L a = Some (Free_run m)"
          "slab_inv p1 (take_run L a m 1)" "npages p1 = npages p0" "sl_start p1 = sl_start p0"
        obtain ls1 where i1: "inv_but {} p1 (take_run L a m 1) ls1" using a(3) by (rule slab_invD) blast
        have T: "take_run L a m 1 a = Some (Page_run 1)" by (simp add: take_run_def)
        obtain q ls' where q: "new_chunks k a p1 = (sl_start p1 + a * 4096 + first_chunk k * 2 ^ k, q)"
          "inv_but {} q ((take_run L a m 1)(a \<mapsto> Chunks k {first_chunk k})) ls'" "kept p1 q"
          using new_chunks_ok [OF i1 T empty_slot_kept [OF i0 i1 k(1,2) Nil] k(1,2)] by blast
        have "allocates p L q (sl_start p + a * 4096 + first_chunk k * 2 ^ k) (2 ^ k)"
          using allocates_new_chunk [OF inv0 a(2) k(1,2) a(3,5,4) q(2,3)] al ub(2) by simp
        moreover have "ngx_slab_alloc_locked p sz = Done (sl_start p + a * 4096 + first_chunk k * 2 ^ k, q)"
          using run a(1,5) q(1) ub(2) by simp
        ultimately show ?thesis using k(3) st by (intro disjI1) (metis add_is_0 less_numeral_extra(3))
      next
        assume "ngx_slab_alloc_pages p0 1 = Done (None, p0)" "\<forall>a m. L a = Some (Free_run m) \<longrightarrow> m < 1"
        then show ?thesis using run False slab_inv_stats [OF inv0] ub(2) np by (simp add: pages_needed_def)
      qed
    qed
  qed
qed

section \<open>Freeing\<close>

text \<open>What freeing the block \<open>b\<close> does.\<close>

definition frees :: "slab_pool \<Rightarrow> layout \<Rightarrow> slab_pool \<Rightarrow> block \<Rightarrow> bool" where
  "frees p L q b \<longleftrightarrow>
     (\<exists>M. slab_inv q M \<and> used_blocks q M = used_blocks p L - {b} \<and> sl_start q = sl_start p \<and> npages q = npages p)"

lemma frees_stats: "frees p L (q\<lparr>sl_stats := st\<rparr>) b = frees p L q b"
proof -
  have "slab_inv (q\<lparr>sl_stats := st\<rparr>) M = slab_inv q M" for M
    using slab_inv_stats [of q M st] slab_inv_stats [of "q\<lparr>sl_stats := st\<rparr>" M "sl_stats q"] by auto
  then show ?thesis by (simp add: frees_def used_blocks_def)
qed

lemma own_blocks_only:
  assumes inv: "inv_but {} p L ls" and L: "L a = Some t" and b: "b \<in> opt_blocks (sl_start p) a (Some t)"
    and c: "c \<noteq> a"
  shows "b \<notin> opt_blocks (sl_start p) c (L c)"
proof
  assume "b \<in> opt_blocks (sl_start p) c (L c)"
  then obtain u where u: "L c = Some u" "b \<in> opt_blocks (sl_start p) c (Some u)"
    by (cases "L c") auto
  have "block_disjoint b b"
    using block_within_disjoint2 used_block_within(1) [OF inv L b] used_block_within(1) [OF inv u]
      tiles_disjoint [OF inv_but_tiling [OF inv] L u(1)] c by blast
  then show False using used_block_within(2) [OF inv L b] by (auto simp: block_disjoint_def)
qed

lemma used_blocks_remove:
  assumes inv: "inv_but {} p L ls" and L: "L a = Some t"
    and x: "opt_blocks (sl_start p) a x = opt_blocks (sl_start p) a (Some t) - {b}"
    and b: "b \<in> opt_blocks (sl_start p) a (Some t)"
  shows "used_blocks p (L(a := x)) = used_blocks p L - {b}"
  using used_blocks_at [of p L a] own_blocks_only [OF inv L b] x L unfolding used_blocks_update by auto

text \<open>Freeing the pages of a tile with at most the block \<open>b\<close> left.\<close>

lemma free_tile_ok:
  assumes inv: "inv_but {} p L ls" and co: "coalesced L" and nh: "\<forall>b m. L b \<noteq> Some (Hole m)"
    and ne: "\<And>c k. c \<noteq> a \<Longrightarrow> L c \<noteq> Some (Chunks k {})"
    and pf: "pfree p = of_nat (free_pages (npages p) L)"
    and L: "L a = Some t" and t: "t = Page_run n \<or> (\<exists>k. t = Chunks k {}) \<and> n = 1"
  shows "\<exists>q M. ngx_slab_free_pages p a n = Done q \<and> slab_inv q M \<and>
    used_blocks q M = used_blocks p (L(a := None)) \<and> sl_start q = sl_start p \<and> npages q = npages p"
proof -
  obtain q M where q: "ngx_slab_free_pages p a n = Done q" "\<exists>ls. inv_but {} q M ls" "coalesced M"
    "\<forall>b m. M b \<noteq> Some (Hole m)" "busy M = busy L - {(a, t)}"
    "free_pages (npages p) M = free_pages (npages p) L + n"
    "pfree q = pfree p + of_nat n" "npages q = npages p" "sl_start q = sl_start p"
    using ngx_slab_free_pages_ok [OF inv co nh L t] by blast
  have "M b \<noteq> Some (Chunks k {})" for b k
  proof
    assume "M b = Some (Chunks k {})"
    then have "(b, Chunks k {}) \<in> busy L - {(a, t)}" using q(5) by (auto simp: busy_def)
    then show False using ne [of b k] L by (cases "b = a") (auto simp: busy_def)
  qed
  then have "slab_inv q M" using q pf unfolding slab_inv_def by auto
  moreover have "busy (L(a := None)) = busy L - {(a, t)}" using L by (auto simp: busy_def split: if_splits)
  then have "used_blocks q M = used_blocks p (L(a := None))" using q(5,9) by (simp add: used_blocks_def)
  ultimately show ?thesis using q(1,8,9) by blast
qed

lemma block_address:
  assumes geo: "geometry p" and k: "k \<le> 12" and i: "i * 2 ^ k < 4096"
    and addr: "addr = sl_start p + a * 4096 + i * 2 ^ k"
  shows "(addr - sl_start p) div 4096 = a" "addr mod 4096 = i * 2 ^ k" "addr mod 2 ^ k = 0"
    "(addr - addr mod 4096 - sl_start p) div 4096 = a"
proof -
  obtain s where s: "sl_start p = s * 4096" using geo by (auto simp: geometry_def dvd_def mult.commute)
  have e: "addr = (s + a) * 4096 + i * 2 ^ k" using addr s by (simp add: algebra_simps)
  show m: "addr mod 4096 = i * 2 ^ k" unfolding e using i by (simp only: mod_mult_self3 mod_less)
  have "addr - sl_start p = a * 4096 + i * 2 ^ k" using addr by simp
  then show "(addr - sl_start p) div 4096 = a" using i by simp
  have "(2 :: nat) ^ k dvd 2 ^ 12" by (rule le_imp_power_dvd [OF k])
  then have "2 ^ k dvd (4096 :: nat)" by simp
  then have "2 ^ k dvd addr" unfolding e by (intro dvd_add dvd_mult) simp_all
  then show "addr mod 2 ^ k = 0" by simp
  show "(addr - addr mod 4096 - sl_start p) div 4096 = a" unfolding m by (simp add: addr)
qed

lemma free_page_run_ok:
  assumes inv: "slab_inv p L" and L: "L a = Some (Page_run n)"
  shows "\<exists>q. free_page_run a (sl_start p + a * 4096) p = Done q \<and>
    frees p L q (sl_start p + a * 4096, n * 4096)"
proof -
  obtain ls where i: "inv_but {} p L ls" and r: "coalesced L" "\<And>a n. L a \<noteq> Some (Hole n)"
    "\<And>a k. L a \<noteq> Some (Chunks k {})" "pfree p = of_nat (free_pages (npages p) L)"
    using inv by (rule slab_invD) blast
  have n: "n < 2 ^ 32" using hole_len [OF i L] by simp
  have slab: "pg_slab p (PageDesc a) = of_nat n OR NGX_SLAB_PAGE_START" using inv_but_tile [OF i L] by simp
  have m: "(sl_start p + a * 4096) mod ngx_pagesize = 0"
    using block_address(2) [OF inv_but_geometry [OF i], of 0 0 _ a] by (simp add: ngx_pagesize_def)
  obtain q M where q: "ngx_slab_free_pages p a n = Done q" "slab_inv q M"
    "used_blocks q M = used_blocks p (L(a := None))" "sl_start q = sl_start p" "npages q = npages p"
    using free_tile_ok [OF i r(1) _ _ r(4) L, of n] r(2,3) by blast
  have "free_page_run a (sl_start p + a * 4096) p = Done q"
    unfolding free_page_run_def Let_def slab m using page_run_word [OF n] unat_small [OF n] q(1) by simp
  moreover have "used_blocks p (L(a := None)) = used_blocks p L - {(sl_start p + a * 4096, n * 4096)}"
    by (rule used_blocks_remove [OF i L]) auto
  ultimately show ?thesis using q unfolding frees_def by auto
qed

text \<open>The state after a chunk has been marked free, with its page back in the list of its slot.\<close>

lemma release_ok:
  assumes inv: "inv_but {} p L ls" and L: "L a = Some (Chunks k U)" and i: "i \<in> U"
    and p': "same_but_page a p p'" and cd: "chunk_data p' a k (U - {i})"
  shows "\<exists>q ls'. (if U = chunk_range k then relink_slot (k - 3) (type_of_shift k) a p else Done p) = Done q \<and>
    links_only p q \<and> inv_but {} (p'\<lparr>pg_next := pg_next q, pg_prev := pg_prev q\<rparr>) (L(a \<mapsto> Chunks k (U - {i}))) ls'"
proof (cases "U = chunk_range k")
  case True
  then have "U - {i} \<noteq> chunk_range k" using i by auto
  then show ?thesis using relink_slot_ok [OF inv _ _ p' cd] True L by auto
next
  case False
  have "U \<subseteq> chunk_range k" using inv_but_tile [OF inv L] by (simp add: chunk_data_def)
  then have "U - {i} \<noteq> chunk_range k" using i by auto
  then have "inv_but {} p' (L(a \<mapsto> Chunks k (U - {i}))) ls"
    by (intro inv_but_update_tile [OF inv L]) (use False p' cd in auto)
  moreover have "p'\<lparr>pg_next := pg_next p, pg_prev := pg_prev p\<rparr> = p'" using p' by simp
  moreover have "links_only p p"
    unfolding links_only_def by (intro exI [of _ "pg_next p"] exI [of _ "pg_prev p"]) simp
  ultimately show ?thesis using False by auto
qed

lemma release_frees:
  assumes inv: "slab_inv p L" and L: "L a = Some (Chunks k U)" and i: "i \<in> U"
    and r: "inv_but {} r (L(a \<mapsto> Chunks k (U - {i}))) ls'" "kept p r"
  shows "U - {i} \<noteq> {} \<Longrightarrow> frees p L r (sl_start p + a * 4096 + i * 2 ^ k, 2 ^ k)"
    and "U - {i} = {} \<Longrightarrow> \<exists>q. ngx_slab_free_pages r a 1 = Done q \<and>
           frees p L q (sl_start p + a * 4096 + i * 2 ^ k, 2 ^ k)"
proof -
  obtain ls where v: "inv_but {} p L ls" and w: "coalesced L" "\<And>a n. L a \<noteq> Some (Hole n)"
    "\<And>a k. L a \<noteq> Some (Chunks k {})" "pfree p = of_nat (free_pages (npages p) L)"
    using inv by (rule slab_invD) blast
  let ?M = "L(a \<mapsto> Chunks k (U - {i}))" and ?b = "(sl_start p + a * 4096 + i * 2 ^ k, 2 ^ k)"
  have b: "?b \<in> opt_blocks (sl_start p) a (Some (Chunks k U))" using i by auto
  have inj: "(\<lambda>i. (sl_start p + a * 4096 + i * 2 ^ k, 2 ^ k :: nat)) ` (U - {i}) =
      (\<lambda>i. (sl_start p + a * 4096 + i * 2 ^ k, 2 ^ k)) ` U - {?b}" by auto
  have u: "used_blocks p ?M = used_blocks p L - {?b}"
    by (rule used_blocks_remove [OF v L _ b]) (use inj in simp)
  show "frees p L r ?b" if "U - {i} \<noteq> {}"
  proof -
    have "slab_inv r ?M" by (rule slab_inv_retile [OF inv r L]) (use that in auto)
    then show ?thesis using u r(2) used_blocks_kept [of r p ?M] unfolding frees_def by (intro exI [of _ ?M]) simp
  qed
  assume e: "U - {i} = {}"
  have "coalesced ?M" using w(1) by (auto simp: coalesced_def)
  moreover have "a < npages p" using hole_len [OF v L] by simp
  then have "free_pages (npages r) ?M = free_pages (npages p) L"
    using free_pages_update [of a "npages p" L "Some (Chunks k (U - {i}))"] L r(2) by simp
  then have "pfree r = of_nat (free_pages (npages r) ?M)" using w(4) r(2) by simp
  moreover have "?M a = Some (Chunks k {})" "\<forall>b m. ?M b \<noteq> Some (Hole m)"
    "\<And>c j. c \<noteq> a \<Longrightarrow> ?M c \<noteq> Some (Chunks j {})" using e w(2,3) by auto
  ultimately obtain q M where q: "ngx_slab_free_pages r a 1 = Done q" "slab_inv q M"
    "used_blocks q M = used_blocks r (?M(a := None))" "sl_start q = sl_start r" "npages q = npages r"
    using free_tile_ok [OF r(1), of a "Chunks k {}" 1] by blast
  have "U = {i}" using e i by auto
  then have "used_blocks p (L(a := None)) = used_blocks p L - {?b}"
    by (intro used_blocks_remove [OF v L]) auto
  then have "used_blocks r (?M(a := None)) = used_blocks p L - {?b}"
    using r(2) used_blocks_kept [of r p] by simp
  then show "\<exists>q. ngx_slab_free_pages r a 1 = Done q \<and> frees p L q ?b"
    using q r(2) unfolding frees_def by auto
qed

lemma chunk_full_next:
  assumes inv: "inv_but {} p L ls" and L: "L a = Some (Chunks k U)"
  shows "pg_next p (PageDesc a) = NULLref \<longleftrightarrow> U = chunk_range k"
  using inv_but_tile [OF inv L] linked_next(1) [OF inv L, of "SlotHead (k - 3)"] by (cases "U = chunk_range k") auto

lemma bit_clear_iff: "bit (w AND NOT (2 ^ i) :: 64 word) j \<longleftrightarrow> bit w j \<and> j \<noteq> i"
  using word_bit_less [of w j] by (auto simp: bit_and_iff bit_not_iff bit_power_two)

lemma links_only_eq: "links_only p q \<Longrightarrow> q = p\<lparr>pg_next := pg_next q, pg_prev := pg_prev q\<rparr>"
  by (auto simp: links_only_def)

lemma free_small_ok:
  assumes inv: "slab_inv p L" and L: "L a = Some (Chunks k U)" and i: "i \<in> U" and k: "k < 6"
    and addr: "addr = sl_start p + a * 4096 + i * 2 ^ k"
  shows "\<exists>q. free_small a addr p = Done q \<and> frees p L q (addr, 2 ^ k)"
proof -
  obtain ls where v: "inv_but {} p L ls" using inv by (rule slab_invD) blast
  have cd: "chunk_data p a k U" using inv_but_tile [OF v L] by simp
  have k3: "3 \<le> k" "k \<le> 11" and ir: "i \<in> chunk_range k" using cd i by (auto simp: chunk_data_def)
  note geo = inv_but_geometry [OF v] and ns = nchunks_small [OF k3(1) k]
  have slab: "pg_slab p (PageDesc a) = of_nat k" using cd k by (simp add: chunk_data_def)
  have sh: "unat (pg_slab p (PageDesc a) AND NGX_SLAB_SHIFT_MASK) = k"
    using k3(1) k unfolding slab NGX_SLAB_SHIFT_MASK_def by (elim shift_cases [of k]) auto
  have inch: "i < nchunks k" using ir by (auto simp: chunk_range_def)
  then have "i * 2 ^ k < nchunks k * 2 ^ k" by simp
  then have i4: "i * 2 ^ k < 4096" using nchunks_size [OF k3] by simp
  note ad = block_address [OF geo _ i4 addr]
  define n where "n = i div 64"
  define b where "b = i mod 64"
  have nb: "i = n * 64 + b" "b < 64" by (simp_all add: n_def b_def)
  have set: "bit (bitmap p a n) b" using chunk_data_bit [OF cd ir] i k by (simp add: chunk_bit_def n_def b_def)
  define w where "w = bitmap p a n AND NOT (2 ^ b)"
  define p' where "p' = p\<lparr>bitmap := (bitmap p)(a := (bitmap p a)(n := w))\<rparr>"
  have cd': "chunk_data p' a k (U - {i})"
    using small_change [OF cd k nb(2), of n w False p'] ir nb(1) by (auto simp: p'_def w_def bit_clear_iff)
  have sm: "same_but_page a p p'" using geo by (auto simp: p'_def geometry_def)
  obtain q ls' where q: "(if U = chunk_range k then relink_slot (k - 3) (type_of_shift k) a p else Done p) = Done q"
    "links_only p q" "inv_but {} (p'\<lparr>pg_next := pg_next q, pg_prev := pg_prev q\<rparr>) (L(a \<mapsto> Chunks k (U - {i}))) ls'"
    using release_ok [OF v L i sm cd'] by blast
  define r where "r = q\<lparr>bitmap := (bitmap q)(a := (bitmap q a)(n := w))\<rparr>"
  have rp: "r = p'\<lparr>pg_next := pg_next q, pg_prev := pg_prev q\<rparr>"
    unfolding r_def p'_def by (subst links_only_eq [OF q(2)]) (simp add: links_onlyD [OF q(2)])
  have rel: "(if pg_next p (PageDesc a) = NULLref then relink_slot (k - 3) NGX_SLAB_SMALL a p else Done p) = Done q"
    using q(1) chunk_full_next [OF v L] k by (simp split: if_splits)
  let ?bm = "(bitmap p a)(n := w)" and ?c = "bitmap_chunks k"
  have empty: "?bm (?c div (8 * 8)) AND NOT (push_bit (?c mod (8 * 8)) 1 - 1) \<noteq> 0 \<or>
      list_ex (\<lambda>j. ?bm j \<noteq> 0) [?c div (8 * 8) + 1..<(ngx_pagesize div 2 ^ k) div (8 * 8)] \<longleftrightarrow> U - {i} \<noteq> {}"
  proof -
    have cb: "chunk_bit p' a k j \<longleftrightarrow> bit (?bm (j div 64)) (j mod 64)" for j using k by (simp add: chunk_bit_def p'_def)
    have z: "?c div (8 * 8) = 0" "?c mod (8 * 8) = ?c" using ns by auto
    have "U - {i} = {j \<in> chunk_range k. chunk_bit p' a k j}"
      using chunk_data_bit [OF cd'] cd' by (auto simp: chunk_data_def)
    then have "U - {i} \<noteq> {} \<longleftrightarrow> (\<exists>j. ?c \<le> j \<and> j < nchunks k \<and> bit (?bm (j div 64)) (j mod 64))"
      using cb k by (auto simp: chunk_range_def)
    also have "\<dots> \<longleftrightarrow> (\<exists>j < 64. ?c \<le> j \<and> bit (?bm 0) j) \<or> (\<exists>m \<in> {1..<nchunks k div 64}. ?bm m \<noteq> 0)"
    proof
      assume "\<exists>j. ?c \<le> j \<and> j < nchunks k \<and> bit (?bm (j div 64)) (j mod 64)"
      then obtain j where j: "?c \<le> j" "j < nchunks k" "bit (?bm (j div 64)) (j mod 64)" by blast
      show "(\<exists>j < 64. ?c \<le> j \<and> bit (?bm 0) j) \<or> (\<exists>m \<in> {1..<nchunks k div 64}. ?bm m \<noteq> 0)"
      proof (cases "j < 64")
        case True
        then have "j div 64 = 0" "j mod 64 = j" by simp_all
        then show ?thesis using j True by metis
      next
        case False
        have "j div 64 < nchunks k div 64" using j(2) ns by (metis less_mult_imp_div_less mult.commute)
        moreover have "1 \<le> j div 64" using False by (simp add: Suc_le_eq div_greater_zero_iff)
        moreover have "?bm (j div 64) \<noteq> 0" using j(3) by (metis bit_0_eq bot_apply bot_bool_def)
        ultimately show ?thesis by (metis atLeastLessThan_iff)
      qed
    next
      assume "(\<exists>j < 64. ?c \<le> j \<and> bit (?bm 0) j) \<or> (\<exists>m \<in> {1..<nchunks k div 64}. ?bm m \<noteq> 0)"
      then show "\<exists>j. ?c \<le> j \<and> j < nchunks k \<and> bit (?bm (j div 64)) (j mod 64)"
      proof
        assume "\<exists>j < 64. ?c \<le> j \<and> bit (?bm 0) j"
        then obtain j where j: "j < 64" "?c \<le> j" "bit (?bm 0) j" by blast
        then have "j div 64 = 0" "j mod 64 = j" "j < nchunks k" using ns by auto
        then show ?thesis using j by metis
      next
        assume "\<exists>m \<in> {1..<nchunks k div 64}. ?bm m \<noteq> 0"
        then obtain m where m: "1 \<le> m" "m < nchunks k div 64" "?bm m \<noteq> 0" by auto
        then obtain x where x: "x < 64" "bit (?bm m) x" using word_zero_iff by blast
        have "(m * 64 + x) div 64 = m" "(m * 64 + x) mod 64 = x" using x(1) by auto
        moreover have "?c \<le> m * 64 + x" "m * 64 + x < nchunks k" using m x(1) ns by auto
        ultimately show ?thesis using x(2) by metis
      qed
    qed
    also have "(\<exists>j < 64. ?c \<le> j \<and> bit (?bm 0) j) \<longleftrightarrow> ?bm 0 AND NOT (push_bit ?c 1 - 1) \<noteq> 0"
      unfolding word_zero_iff bit_and_iff bit_not_iff bit_ones by auto
    finally show ?thesis unfolding z list_ex_iff by (simp add: nchunks_def)
  qed
  have kr: "kept p r" using links_onlyD [OF q(2)] by (simp add: r_def)
  note fr = release_frees [OF inv L i q(3) [folded rp] kr, folded addr]
  have "free_small a addr p = (if U - {i} \<noteq> {} then Done (count_free (k - 3) r)
      else run_bind (ngx_slab_free_pages r a 1) (\<lambda>p. Done (count_free (k - 3) (set_stat (k - 3)
          (\<lambda>st. st\<lparr>st_total := st_total st - of_nat (ngx_pagesize div 2 ^ k - bitmap_chunks k)\<rparr>) p))))"
  proof -
    have c: "addr mod ngx_pagesize div 2 ^ k = i" using ad(2) k3 by (simp add: ngx_pagesize_def)
    have pg: "(addr - addr mod ngx_pagesize - sl_start p) div ngx_pagesize = a" using ad(4) k3 by (simp add: ngx_pagesize_def)
    have ms: "min_shift p = 3" using geo by (simp add: geometry_def)
    have bq: "bitmap q = bitmap p" using links_onlyD [OF q(2)] by simp
    have b88: "i mod (8 * 8) = b" "i div (8 * 8) = n" by (simp_all add: b_def n_def)
    have w2: "bitmap p a n AND NOT (push_bit b 1) = w" by (simp add: w_def)
    show ?thesis
      unfolding free_small_def Let_def sh c pg ms b88 rel run_bind.simps bq w2 empty
      using ad(3) k3 set by (simp add: r_def bq)
  qed
  then show ?thesis using fr by (cases "U - {i} = {}") (auto simp: frees_stats)
qed

lemma free_exact_ok:
  assumes inv: "slab_inv p L" and L: "L a = Some (Chunks 6 U)" and i: "i \<in> U"
    and addr: "addr = sl_start p + a * 4096 + i * 2 ^ 6"
  shows "\<exists>q. free_exact a addr p = Done q \<and> frees p L q (addr, 2 ^ 6)"
proof -
  obtain ls where v: "inv_but {} p L ls" using inv by (rule slab_invD) blast
  have cd: "chunk_data p a 6 U" using inv_but_tile [OF v L] by simp
  have ir: "i < 64" using cd i by (auto simp: chunk_data_def chunk_range_def)
  note geo = inv_but_geometry [OF v]
  have ad: "addr mod 4096 = i * 64" "addr mod 64 = 0"
    using block_address(2,3) [OF geo _ _ addr] ir by auto
  let ?w = "pg_slab p (PageDesc a)"
  have set: "bit ?w i" using cd i ir by (simp add: chunk_data_def chunk_bit_def)
  define p' where "p' = set_slab (PageDesc a) (?w AND NOT (2 ^ i)) p"
  have cd': "chunk_data p' a 6 (U - {i})"
    using exact_change [OF cd ir, of p' False] by (auto simp: p'_def bit_clear_iff)
  have sm: "same_but_page a p p'" using geo by (auto simp: p'_def geometry_def)
  obtain q ls' where q: "(if U = chunk_range 6 then relink_slot (6 - 3) (type_of_shift 6) a p else Done p) = Done q"
    "links_only p q" "inv_but {} (p'\<lparr>pg_next := pg_next q, pg_prev := pg_prev q\<rparr>) (L(a \<mapsto> Chunks 6 (U - {i}))) ls'"
    using release_ok [OF v L i sm cd'] by blast
  define r where "r = q\<lparr>pg_slab := (pg_slab p)(PageDesc a := ?w AND NOT (2 ^ i))\<rparr>"
  have rp: "r = p'\<lparr>pg_next := pg_next q, pg_prev := pg_prev q\<rparr>"
    unfolding r_def p'_def by (subst links_only_eq [OF q(2)]) (simp add: links_onlyD [OF q(2)])
  have "U = chunk_range 6 \<longleftrightarrow> ?w = NGX_SLAB_BUSY"
    using chunk_data_full [OF cd] by (simp add: chunk_bit_def busy_iff)
  then have rel: "(if ?w = NGX_SLAB_BUSY then relink_slot 3 NGX_SLAB_EXACT a p else Done p) = Done q"
    using q(1) by (simp split: if_splits)
  have empty: "?w AND NOT (2 ^ i) \<noteq> 0 \<longleftrightarrow> U - {i} \<noteq> {}"
  proof -
    have "U = {j. j < 64 \<and> bit ?w j}"
      using cd by (auto simp: chunk_data_def chunk_bit_def chunk_range_def)
    then show ?thesis unfolding word_zero_iff bit_clear_iff by auto
  qed
  have kr: "kept p r" using links_onlyD [OF q(2)] by (simp add: r_def)
  note fr = release_frees [OF inv L i q(3) [folded rp] kr, folded addr]
  have "free_exact a addr p = (if U - {i} \<noteq> {} then Done (count_free 3 r)
      else run_bind (ngx_slab_free_pages r a 1) (\<lambda>p. Done (count_free 3 (set_stat 3
          (\<lambda>st. st\<lparr>st_total := st_total st - 8 * 8\<rparr>) p))))"
  proof -
    have c: "addr mod ngx_pagesize div 2 ^ 6 = i" using ad(1) by (simp add: ngx_pagesize_def)
    have ms: "(6 :: nat) - min_shift p = 3" using geo by (simp add: geometry_def)
    have sq: "pg_slab q = pg_slab p" using links_onlyD [OF q(2)] by simp
    have w2: "?w AND NOT (push_bit i 1) = ?w AND NOT (2 ^ i)" by simp
    have sr: "pg_slab r (PageDesc a) = ?w AND NOT (2 ^ i)" by (simp add: r_def)
    show ?thesis
      unfolding free_exact_def slab_constants Let_def c ms rel run_bind.simps sq w2 r_def [symmetric] sr empty
      using ad(2) set by simp
  qed
  then show ?thesis using fr by (cases "U - {i} = {}") (auto simp: frees_stats)
qed

lemma free_big_ok:
  assumes inv: "slab_inv p L" and L: "L a = Some (Chunks k U)" and i: "i \<in> U" and k: "6 < k"
    and addr: "addr = sl_start p + a * 4096 + i * 2 ^ k"
  shows "\<exists>q. free_big a addr p = Done q \<and> frees p L q (addr, 2 ^ k)"
proof -
  obtain ls where v: "inv_but {} p L ls" using inv by (rule slab_invD) blast
  have cd: "chunk_data p a k U" using inv_but_tile [OF v L] by simp
  have k3: "3 \<le> k" "k \<le> 11" using cd by (auto simp: chunk_data_def)
  have ir: "i < nchunks k" using cd i k by (auto simp: chunk_data_def chunk_range_def)
  note geo = inv_but_geometry [OF v] and nb = nchunks_big [OF k k3(2)]
  let ?w = "pg_slab p (PageDesc a)" and ?i = "i + NGX_SLAB_MAP_SHIFT"
  have sh: "unat (?w AND NGX_SLAB_SHIFT_MASK) = k"
    using cd k k3(2) unat_small [of k] by (simp add: chunk_data_def)
  have "i * 2 ^ k < nchunks k * 2 ^ k" using ir by simp
  then have i4: "i * 2 ^ k < 4096" using nchunks_size [OF k3] by simp
  note ad = block_address [OF geo _ i4 addr]
  have hi: "bit ?w j \<Longrightarrow> j < 32 + nchunks k" for j
    using cd k unfolding chunk_data_def by (meson not_less)
  have lt: "bit ?w (32 + j) \<Longrightarrow> j < nchunks k" for j using hi [of "32 + j"] by simp
  have bits: "U = {j. bit ?w (32 + j)}"
    using cd k lt by (auto simp: chunk_data_def chunk_bit_def chunk_range_def)
  have set: "bit ?w ?i" using bits i by (auto simp: NGX_SLAB_MAP_SHIFT_def add.commute)
  define p' where "p' = set_slab (PageDesc a) (?w AND NOT (2 ^ ?i)) p"
  have cd': "chunk_data p' a k (U - {i})"
    using big_change [OF cd k ir, of p' False] by (auto simp: p'_def bit_clear_iff NGX_SLAB_MAP_SHIFT_def)
  have sm: "same_but_page a p p'" using geo by (auto simp: p'_def geometry_def)
  obtain q ls' where q: "(if U = chunk_range k then relink_slot (k - 3) (type_of_shift k) a p else Done p) = Done q"
    "links_only p q" "inv_but {} (p'\<lparr>pg_next := pg_next q, pg_prev := pg_prev q\<rparr>) (L(a \<mapsto> Chunks k (U - {i}))) ls'"
    using release_ok [OF v L i sm cd'] by blast
  define r where "r = q\<lparr>pg_slab := (pg_slab p)(PageDesc a := ?w AND NOT (2 ^ ?i))\<rparr>"
  have rp: "r = p'\<lparr>pg_next := pg_next q, pg_prev := pg_prev q\<rparr>"
    unfolding r_def p'_def by (subst links_only_eq [OF q(2)]) (simp add: links_onlyD [OF q(2)])
  have rel: "(if pg_next p (PageDesc a) = NULLref then relink_slot (k - 3) NGX_SLAB_BIG a p else Done p) = Done q"
    using q(1) chunk_full_next [OF v L] k by (simp split: if_splits)
  have empty: "(?w AND NOT (2 ^ ?i)) AND NGX_SLAB_MAP_MASK \<noteq> 0 \<longleftrightarrow> U - {i} \<noteq> {}"
  proof -
    have "(?w AND NOT (2 ^ ?i)) AND NGX_SLAB_MAP_MASK \<noteq> 0 \<longleftrightarrow> (\<exists>j < 64. bit ?w j \<and> j \<noteq> 32 + i \<and> 32 \<le> j)"
      unfolding word_zero_iff bit_and_iff [of "?w AND NOT (2 ^ ?i)"] bit_clear_iff map_mask_bits
      by (auto simp: NGX_SLAB_MAP_SHIFT_def add.commute)
    also have "\<dots> \<longleftrightarrow> (\<exists>j. bit ?w (32 + j) \<and> j \<noteq> i)"
      using word_bit_less [of ?w] by (metis le_add1 le_Suc_ex add_left_cancel)
    finally show ?thesis using bits by auto
  qed
  have kr: "kept p r" using links_onlyD [OF q(2)] by (simp add: r_def)
  note fr = release_frees [OF inv L i q(3) [folded rp] kr, folded addr]
  have "free_big a addr p = (if U - {i} \<noteq> {} then Done (count_free (k - 3) r)
      else run_bind (ngx_slab_free_pages r a 1) (\<lambda>p. Done (count_free (k - 3) (set_stat (k - 3)
          (\<lambda>st. st\<lparr>st_total := st_total st - of_nat (ngx_pagesize div 2 ^ k)\<rparr>) p))))"
  proof -
    have c: "addr mod ngx_pagesize div 2 ^ k = i" using ad(2) k3 by (simp add: ngx_pagesize_def)
    have ms: "min_shift p = 3" using geo by (simp add: geometry_def)
    have sq: "pg_slab q = pg_slab p" using links_onlyD [OF q(2)] by simp
    have w2: "?w AND NOT (push_bit ?i 1) = ?w AND NOT (2 ^ ?i)" by simp
    have sr: "pg_slab r (PageDesc a) = ?w AND NOT (2 ^ ?i)" by (simp add: r_def)
    show ?thesis
      unfolding free_big_def Let_def sh c ms rel run_bind.simps sq w2 r_def [symmetric] sr empty
      using ad(3) k3 set by simp
  qed
  then show ?thesis using fr by (cases "U - {i} = {}") (auto simp: frees_stats)
qed

lemma chunks_type:
  assumes inv: "inv_but {} p L ls" and L: "L a = Some (Chunks k U)"
  shows "ngx_slab_page_type p (PageDesc a) = type_of_shift k"
proof -
  have "3 \<le> k" using inv_but_tile [OF inv L] by (simp add: chunk_data_def)
  then show ?thesis
    using inv_but_tile [OF inv L] linked_next(2) [OF inv L, of "SlotHead (k - 3)"]
    by (cases "U = chunk_range k") auto
qed

text \<open>Freeing a block in use takes exactly that block out of use.\<close>

lemma ngx_slab_free_locked_ok:
  assumes inv: "slab_inv p L" and b: "(addr, cs) \<in> used_blocks p L"
  shows "\<exists>q. ngx_slab_free_locked p addr = Done q \<and> frees p L q (addr, cs)"
proof -
  obtain ls where v: "inv_but {} p L ls" using inv by (rule slab_invD) blast
  note geo = inv_but_geometry [OF v]
  obtain a t where a: "L a = Some t" "(addr, cs) \<in> opt_blocks (sl_start p) a (Some t)" using b by (rule used_blocksE)
  have aN: "a < npages p" using hole_len [OF v a(1)] by simp
  have bnd: "\<not> (addr < sl_start p \<or> addr > sl_end p)" using used_blocks_bounds [OF v b] by auto
  show ?thesis
  proof (cases t)
    case (Page_run n)
    then have ad: "addr = sl_start p + a * 4096" "cs = n * 4096" using a(2) by auto
    have L: "L a = Some (Page_run n)" using a(1) Page_run by simp
    have "ngx_slab_page_type p (PageDesc a) = NGX_SLAB_PAGE" using inv_but_tile [OF v L] by simp
    then have "ngx_slab_free_locked p addr = free_page_run a addr p"
      unfolding ngx_slab_free_locked_def Let_def using bnd aN ad(1) by (simp add: ngx_pagesize_shift_def)
    then show ?thesis using free_page_run_ok [OF inv L] ad by simp
  next
    case (Chunks k U)
    then obtain i where i: "i \<in> U" "addr = sl_start p + a * 4096 + i * 2 ^ k" "cs = 2 ^ k" using a(2) by auto
    have L: "L a = Some (Chunks k U)" using a(1) Chunks by simp
    have k: "3 \<le> k" "k \<le> 11" "U \<subseteq> chunk_range k" using inv_but_tile [OF v L] by (simp_all add: chunk_data_def)
    have "i < nchunks k" using i k by (auto simp: chunk_range_def)
    then have "i * 2 ^ k < nchunks k * 2 ^ k" by simp
    then have "i * 2 ^ k < 4096" using nchunks_size k by simp
    then have "(addr - sl_start p) div 4096 = a" using block_address(1) [OF geo _ _ i(2)] k by simp
    then have e: "ngx_slab_free_locked p addr = (case type_of_shift k of
          NGX_SLAB_SMALL \<Rightarrow> free_small a addr p | NGX_SLAB_EXACT \<Rightarrow> free_exact a addr p
        | NGX_SLAB_BIG \<Rightarrow> free_big a addr p | NGX_SLAB_PAGE \<Rightarrow> free_page_run a addr p)"
      unfolding ngx_slab_free_locked_def Let_def using bnd aN chunks_type [OF v L]
      by (simp add: ngx_pagesize_shift_def)
    consider "k < 6" | "k = 6" | "6 < k" by linarith
    then show ?thesis
    proof cases
      case 1
      then show ?thesis using e free_small_ok [OF inv L i(1) 1 i(2)] i(3) by simp
    next
      case 2
      then show ?thesis using e free_exact_ok [OF inv, of a U i addr] L i by simp
    next
      case 3
      then show ?thesis using e free_big_ok [OF inv L i(1) 3 i(2)] i(3) by simp
    qed
  qed (use a(2) in auto)
qed

end
