(* ===== verification/Slab_Spec.thy ===== *)
theory Slab_Spec
  imports Slab_Chunks
begin

text \<open>
  What the slab allocator promises its clients: initialisation, allocation and freeing as
  specified on the set of blocks in use, and any sequence of requests by clients that free
  what they were given.
\<close>

section \<open>Clients\<close>

text \<open>
  A client step: an allocation that succeeds or returns null, or the freeing of a block
  that is held.  The state is the pool and the blocks held, with the sizes asked for.
\<close>

inductive slab_client_step :: "slab_pool \<times> block list \<Rightarrow> slab_pool \<times> block list \<Rightarrow> bool" where
  client_alloc: "ngx_slab_alloc_locked p sz = Done (a, q) \<Longrightarrow> a \<noteq> 0 \<Longrightarrow>
    slab_client_step (p, bs) (q, (a, sz) # bs)"
| client_null: "ngx_slab_alloc_locked p sz = Done (0, q) \<Longrightarrow> slab_client_step (p, bs) (q, bs)"
| client_free: "(a, sz) \<in> set bs \<Longrightarrow> ngx_slab_free_locked p a = Done q \<Longrightarrow>
    slab_client_step (p, bs) (q, remove1 (a, sz) bs)"

inductive_cases slab_client_stepE: "slab_client_step (p, bs) s"

definition client_inv :: "slab_pool \<times> block list \<Rightarrow> bool" where
  "client_inv x \<longleftrightarrow> (\<exists>L. slab_inv (fst x) L \<and> distinct (map fst (snd x)) \<and>
     fst ` used_blocks (fst x) L = fst ` set (snd x) \<and>
     (\<forall>a cs sz. (a, cs) \<in> used_blocks (fst x) L \<longrightarrow> (a, sz) \<in> set (snd x) \<longrightarrow> sz \<le> cs))"

text \<open>Memory from \<open>base\<close> to \<open>fin\<close> in which a pool has room for at least one page.\<close>

definition slab_room :: "addr \<Rightarrow> addr \<Rightarrow> bool" where
  "slab_room base fin \<longleftrightarrow> 0 < base \<and> base + 16384 \<le> fin \<and> fin < base + 2 ^ 43 \<and> fin < 2 ^ 63"

section \<open>Initialisation\<close>

lemma usub_le: "y \<le> x \<Longrightarrow> x < 2 ^ 64 \<Longrightarrow> usub x y = x - y"
  by (simp add: usub_def nat_diff_distrib flip: of_nat_diff)

lemma ngx_align_ptr_bounds:
  "0 < a \<Longrightarrow> x \<le> ngx_align_ptr x a \<and> ngx_align_ptr x a < x + a \<and> a dvd ngx_align_ptr x a"
proof -
  assume a: "0 < a"
  have "x + (a - 1) < ngx_align_ptr x a + a" "ngx_align_ptr x a \<le> x + (a - 1)"
    using a dividend_less_div_times [OF a, of "x + (a - 1)"] by (simp_all add: ngx_align_ptr_def)
  moreover have "a dvd ngx_align_ptr x a" by (simp add: ngx_align_ptr_def)
  ultimately show ?thesis using a by linarith
qed

lemma ngx_slab_init_fields:
  fixes base fin
  defines "p \<equiv> ngx_slab_init base fin 3"
  shows "min_shift p = 3" "min_size p = 2 ^ 3" "log_nomem p = False" "pfree p = of_nat (npages p)"
    "pg_slab p = (\<lambda>_. 0)(PageDesc 0 := of_nat (npages p))"
    "pg_next p = (\<lambda>r. case r of SlotHead i \<Rightarrow> if i < ngx_pagesize_shift - 3 then SlotHead i else NULLref
       | FreeHead \<Rightarrow> PageDesc 0 | PageDesc i \<Rightarrow> if i = 0 then FreeHead else NULLref | NULLref \<Rightarrow> NULLref)"
    "pg_prev p = (\<lambda>_. (NULLref, NGX_SLAB_PAGE))(PageDesc 0 := (FreeHead, NGX_SLAB_PAGE))"
  by (simp_all only: p_def ngx_slab_init_def Let_def slab_pool.simps)

lemma ngx_slab_init_pages:
  assumes room: "slab_room base fin"
  defines "p \<equiv> ngx_slab_init base fin 3"
  shows "0 < npages p" "npages p < 2 ^ 32" "0 < sl_start p" "4096 dvd sl_start p"
    "sl_start p + npages p * 4096 \<le> sl_end p"
proof -
  define q where "q = base + 152 + 9 * 24 + 9 * 16"
  define sz where "sz = fin - (base + 152) - 9 * 40"
  define n where "n = sz div 4120"
  define start where "start = ngx_align_ptr (q + n * 24) 4096"
  define av where "av = (fin - start) div 4096"
  have r: "0 < base" "base + 16384 \<le> fin" "fin < base + 2 ^ 43" "fin < 2 ^ 63"
    using room by (auto simp: slab_room_def)
  have sz: "sz = fin - q" "15872 \<le> sz" "sz < 2 ^ 43" using r by (auto simp: sz_def q_def)
  have n: "n * 4120 \<le> sz" "sz < n * 4120 + 4120" "3 \<le> n"
    using dividend_less_div_times [of 4120 sz] div_le_mono [OF sz(2), of 4120]
    by (auto simp: n_def)
  have st: "q + n * 24 \<le> start" "start < q + n * 24 + 4096" "4096 dvd start"
    using ngx_align_ptr_bounds [of 4096 "q + n * 24"] by (auto simp: start_def)
  have fin: "q + n * 4120 \<le> fin" using n(1) sz r by (simp add: q_def)
  have sf: "start + (n - 1) * 4096 \<le> fin" using st(2) fin n(3) by (simp add: algebra_simps)
  have av: "n - 1 \<le> av" "av * 4096 \<le> fin - start"
    using sf div_le_mono [of "(n - 1) * 4096" "fin - start" 4096] by (auto simp: av_def)
  have "start \<le> fin" using sf by simp
  then have u: "usub (usub fin (base + 152)) (9 * (24 + 16)) = sz" "usub fin start = fin - start"
    using r usub_le [of "base + 152" fin] usub_le [of 360 "fin - (base + 152)"] usub_le [of start fin]
    by (simp_all add: sz_def)
  have avn: "av < 2 ^ 51" "n < 2 ^ 51" using av(2) r n(1) sz(3) by auto
  have m: "ssize_of (usub n av) = int n - int av"
  proof (cases "av \<le> n")
    case True
    then show ?thesis using avn usub_le [of av n] by (simp add: ssize_of_def)
  next
    case False
    have "(int n - int av) mod 2 ^ 64 = (int n - int av + 2 ^ 64) mod 2 ^ 64" by simp
    also have "\<dots> = int n - int av + 2 ^ 64" using avn False by (intro mod_pos_pos_trivial) auto
    finally have "usub n av = nat (int n - int av + 2 ^ 64)" unfolding usub_def by (simp only:)
    then show ?thesis using avn False by (simp add: ssize_of_def)
  qed
  have np: "npages p = (if int n - int av > 0 then n - nat (int n - int av) else n)"
    and ss: "sl_start p = start" and se: "sl_end p = fin"
    using u m
    by (simp_all add: p_def ngx_slab_init_def Let_def ngx_pagesize_shift_def ngx_pagesize_def sizeof_slab_pool_def
        sizeof_slab_page_def sizeof_slab_stat_def q_def n_def start_def av_def del: of_nat_diff)
  have np2: "npages p \<le> av" "npages p \<le> n" "n - 1 \<le> npages p" using np av(1) by auto
  then show "0 < npages p" "npages p < 2 ^ 32" using n sz(3) by auto
  show "0 < sl_start p" "4096 dvd sl_start p" using ss st r by (auto simp: q_def)
  have "npages p * 4096 \<le> fin - start" using np2(1) av(2) by (meson le_trans mult_le_mono1)
  then show "sl_start p + npages p * 4096 \<le> sl_end p" using ss se \<open>start \<le> fin\<close> by simp
qed

lemma ngx_slab_init_inv:
  assumes room: "slab_room base fin"
  defines "p \<equiv> ngx_slab_init base fin 3"
  shows "slab_inv p [0 \<mapsto> Free_run (npages p)]" and "used_blocks p [0 \<mapsto> Free_run (npages p)] = {}"
proof -
  note np = ngx_slab_init_pages [OF room, folded p_def]
  let ?L = "[0 \<mapsto> Free_run (npages p)]" and ?ls = "\<lambda>h. if h = FreeHead then [0] else ([] :: nat list)"
  have geo: "geometry p"
    using np ngx_slab_init_fields(1-3) [of base fin, folded p_def] by (simp add: geometry_def)
  have tl: "tiling (npages p) ?L" using np by (auto simp: tiling_def)
  have f: "pg_slab p (PageDesc i) = (if i = 0 then of_nat (npages p) else 0)"
    "pg_next p (PageDesc i) = (if i = 0 then FreeHead else NULLref)" "pg_next p FreeHead = PageDesc 0"
    "pg_prev p (PageDesc i) = (if i = 0 then FreeHead else NULLref, NGX_SLAB_PAGE)" for i
    using ngx_slab_init_fields(5-7) [of base fin, folded p_def] by auto
  have "tile_ok p 0 (Free_run (npages p))" by (auto simp: f free_interior_def)
  moreover have "ring p h (?ls h)" if "h \<in> heads" for h
    using that f ngx_slab_init_fields(6) [of base fin, folded p_def]
    by (auto simp: heads_def ring_def ngx_pagesize_shift_def)
  moreover have "set (?ls h) = {b. b \<notin> {} \<and> (\<exists>t. ?L b = Some t \<and> list_of t = Some h)}" for h by auto
  ultimately have "inv_but {} p ?L ?ls" using geo tl by (auto simp: inv_but_def)
  moreover have "free_pages (npages p) ?L = npages p"
    using free_pages_update [of 0 "npages p" Map.empty "Some (Free_run (npages p))"] np(1)
    by (simp add: free_pages_def)
  moreover have "pfree p = of_nat (npages p)" using ngx_slab_init_fields(4) [of base fin] by (simp only: p_def)
  ultimately show "slab_inv p ?L" using np(1) by (auto simp: slab_inv_def coalesced_def)
  show "used_blocks p ?L = {}" by (auto simp: used_blocks_opt)
qed

section \<open>Blocks in use, without the lists\<close>

lemma slab_used_disjoint:
  assumes "slab_inv p L" and "b \<in> used_blocks p L" and "c \<in> used_blocks p L" and "b \<noteq> c"
  shows "block_disjoint b c"
  using assms used_blocks_disjoint by (metis slab_inv_def)

lemma slab_used_bounds:
  assumes "slab_inv p L" and "b \<in> used_blocks p L"
  shows "sl_start p \<le> fst b" "fst b + snd b \<le> sl_end p" "0 < snd b"
  using assms used_blocks_bounds by (metis slab_inv_def)+

lemma slab_used_inj:
  assumes "slab_inv p L" and "(a, c) \<in> used_blocks p L" and "(a, d) \<in> used_blocks p L"
  shows "c = d"
  using slab_used_disjoint [OF assms] slab_used_bounds(3) [OF assms(1,2)] slab_used_bounds(3) [OF assms(1,3)]
  by (auto simp: block_disjoint_def)

text \<open>With no block in use the pages are one free run again.\<close>

lemma slab_all_free:
  assumes inv: "slab_inv p L" and e: "used_blocks p L = {}" and n: "0 < npages p"
  shows "L = [0 \<mapsto> Free_run (npages p)]"
proof -
  obtain ls where i: "inv_but {} p L ls" and co: "coalesced L" and nh: "\<And>a n. L a \<noteq> Some (Hole n)"
    and ne: "\<And>a k. L a \<noteq> Some (Chunks k {})"
    using inv by (rule slab_invD) blast
  note tl = inv_but_tiling [OF i]
  have free: "\<exists>m. L a = Some (Free_run m)" if L: "L a = Some t" for a t
  proof -
    have "opt_blocks (sl_start p) a (L a) = {}" using e by (simp add: used_blocks_opt)
    then show ?thesis using L nh [of a] ne [of a] by (cases t) auto
  qed
  obtain a t where "L a = Some t" "a \<le> 0" using tl n unfolding tiling_def by blast
  then obtain m where L0: "L 0 = Some (Free_run m)" using free by auto
  have m: "m \<le> npages p" "0 < m" using hole_len [OF i L0] by auto
  have "m = npages p"
  proof (rule ccontr)
    assume "m \<noteq> npages p"
    then obtain u where "L (0 + m) = Some u" using tiling_next [OF tl L0] m by auto
    then show False using free co L0 unfolding coalesced_def by metis
  qed
  moreover have "L b = None" if "b \<noteq> 0" for b
  proof (cases "L b")
    case (Some u)
    then have "m \<le> b" "b + tile_len u \<le> npages p" "0 < tile_len u"
      using tiling_order [OF tl L0 Some] that hole_len [OF i Some] by auto
    then show ?thesis using \<open>m = npages p\<close> by simp
  qed
  ultimately show ?thesis using L0 by (auto simp: fun_eq_iff)
qed

section \<open>The allocator as an allocator\<close>

definition slab_holds :: "slab_pool \<Rightarrow> block list \<Rightarrow> bool" where
  "slab_holds p bs \<longleftrightarrow> (\<exists>L. slab_inv p L \<and> distinct (map fst bs) \<and>
     (\<forall>b \<in> set bs. \<exists>cs \<ge> snd b. (fst b, cs) \<in> used_blocks p L))"

lemma slab_holds_disjoint:
  assumes "slab_holds p bs" shows "disjoint_blocks bs"
proof -
  obtain L where L: "slab_inv p L" "distinct (map fst bs)" "\<forall>b \<in> set bs. \<exists>cs \<ge> snd b. (fst b, cs) \<in> used_blocks p L"
    using assms by (auto simp: slab_holds_def)
  from L(2,3) show ?thesis
  proof (induction bs)
    case (Cons b bs)
    have "block_disjoint b c" if c: "c \<in> set bs" for c
    proof -
      have "fst b \<noteq> fst c" using Cons.prems(1) c by (auto simp: image_iff)
      moreover obtain x y where "snd b \<le> x" "(fst b, x) \<in> used_blocks p L" "snd c \<le> y" "(fst c, y) \<in> used_blocks p L"
        using Cons.prems(2) c by (metis list.set_intros)
      moreover have "block_within b (fst b, x)" "block_within c (fst c, y)"
        using calculation by (auto simp: block_within_def)
      ultimately show ?thesis
        using slab_used_disjoint [OF L(1), of "(fst b, x)" "(fst c, y)"] block_within_disjoint2 by (metis fst_conv)
    qed
    then show ?case using Cons by simp
  qed simp
qed

lemma allocates_fresh:
  assumes al: "allocates p L q a cs" and M: "slab_inv q M" "(a, cs) \<notin> used_blocks p L"
    "used_blocks q M = insert (a, cs) (used_blocks p L)"
  shows "a \<notin> fst ` used_blocks p L"
  using M slab_used_inj [OF M(1), of a cs] by fastforce

interpretation slab: allocator ngx_slab_alloc_locked "\<lambda>sz. sz" "\<lambda>_. True" slab_holds
proof unfold_locales
  fix p bs and sz :: nat
  assume h: "slab_holds p bs"
  then obtain L where L: "slab_inv p L" "distinct (map fst bs)" "\<forall>b \<in> set bs. \<exists>cs \<ge> snd b. (fst b, cs) \<in> used_blocks p L"
    by (auto simp: slab_holds_def)
  from ngx_slab_alloc_locked_ok [OF L(1), of sz]
  show "\<exists>a t. ngx_slab_alloc_locked p sz = Done (a, t) \<and> slab_holds t (if a = 0 then bs else (a, sz) # bs)"
  proof (elim disjE exE conjE)
    fix a q cs assume a: "ngx_slab_alloc_locked p sz = Done (a, q)" "a \<noteq> 0" "sz \<le> cs" "allocates p L q a cs"
    then obtain M where M: "slab_inv q M" "(a, cs) \<notin> used_blocks p L"
      "used_blocks q M = insert (a, cs) (used_blocks p L)" unfolding allocates_def by blast
    have "a \<notin> fst ` set bs" using allocates_fresh [OF a(4) M] L(3) by (force simp: image_iff)
    then have "slab_holds q ((a, sz) # bs)"
      unfolding slab_holds_def using M L(2,3) a(3) by (intro exI [of _ M]) auto
    then show ?thesis using a by auto
  next
    fix q assume q: "ngx_slab_alloc_locked p sz = Done (0, q)" "slab_inv q L" "sl_start q = sl_start p" "npages q = npages p"
    then have "slab_holds q bs" using L(2,3) used_blocks_kept [OF q(3)] by (auto simp: slab_holds_def)
    then show ?thesis using q(1) by auto
  qed
qed (auto intro: slab_holds_disjoint)

section \<open>The invariant of clients\<close>

lemma client_holds: "client_inv (p, bs) \<Longrightarrow> slab_holds p bs"
proof -
  assume "client_inv (p, bs)"
  then obtain L where L: "slab_inv p L" "distinct (map fst bs)" "fst ` used_blocks p L = fst ` set bs"
    "\<forall>a cs sz. (a, cs) \<in> used_blocks p L \<longrightarrow> (a, sz) \<in> set bs \<longrightarrow> sz \<le> cs"
    by (auto simp: client_inv_def)
  have "\<exists>cs \<ge> snd b. (fst b, cs) \<in> used_blocks p L" if b: "b \<in> set bs" for b
  proof -
    have "fst b \<in> fst ` used_blocks p L" using L(3) b by simp
    then obtain cs where "(fst b, cs) \<in> used_blocks p L" by auto
    then show ?thesis using L(4) b by (metis prod.collapse)
  qed
  then show ?thesis using L(1,2) by (auto simp: slab_holds_def)
qed

lemma client_inv_init: "slab_room base fin \<Longrightarrow> client_inv (ngx_slab_init base fin 3, [])"
  using ngx_slab_init_inv [of base fin] unfolding client_inv_def by auto

lemma client_inv_alloc:
  assumes inv: "client_inv (p, bs)" and al: "ngx_slab_alloc_locked p sz = Done (a, q)"
  shows "client_inv (q, if a = 0 then bs else (a, sz) # bs)"
proof -
  obtain L where L: "slab_inv p L" "distinct (map fst bs)" "fst ` used_blocks p L = fst ` set bs"
    "\<forall>a cs sz. (a, cs) \<in> used_blocks p L \<longrightarrow> (a, sz) \<in> set bs \<longrightarrow> sz \<le> cs"
    using inv by (auto simp: client_inv_def)
  from ngx_slab_alloc_locked_ok [OF L(1), of sz] show ?thesis
  proof (elim disjE exE conjE)
    fix b r cs assume b: "ngx_slab_alloc_locked p sz = Done (b, r)" "b \<noteq> 0" "sz \<le> cs" "allocates p L r b cs"
    then have br: "b = a" "r = q" using al by auto
    obtain M where M: "slab_inv r M" "(b, cs) \<notin> used_blocks p L"
      "used_blocks r M = insert (b, cs) (used_blocks p L)" using b(4) unfolding allocates_def by blast
    have "b \<notin> fst ` set bs" using allocates_fresh [OF b(4) M] L(3) by simp
    moreover from this have "(b, x) \<notin> set bs" "(b, x) \<notin> used_blocks p L" for x
      using L(3) by (metis fst_conv imageI)+
    ultimately have "client_inv (r, (b, sz) # bs)"
      unfolding client_inv_def using M L(2,3,4) b(3) by (intro exI [of _ M]) auto
    then show ?thesis using br b(2) by simp
  next
    fix r assume r: "ngx_slab_alloc_locked p sz = Done (0, r)" "slab_inv r L" "sl_start r = sl_start p" "npages r = npages p"
    then have "client_inv (r, bs)" using L used_blocks_kept [OF r(3)] by (auto simp: client_inv_def)
    then show ?thesis using r(1) al by auto
  qed
qed

lemma client_inv_free:
  assumes inv: "client_inv (p, bs)" and b: "(a, sz) \<in> set bs"
  shows "\<exists>q. ngx_slab_free_locked p a = Done q \<and> client_inv (q, remove1 (a, sz) bs)"
proof -
  obtain L where L: "slab_inv p L" "distinct (map fst bs)" "fst ` used_blocks p L = fst ` set bs"
    "\<forall>a cs sz. (a, cs) \<in> used_blocks p L \<longrightarrow> (a, sz) \<in> set bs \<longrightarrow> sz \<le> cs"
    using inv by (auto simp: client_inv_def)
  have "a \<in> fst ` used_blocks p L" using L(3) b by force
  then obtain cs where cs: "(a, cs) \<in> used_blocks p L" by auto
  obtain q where q: "ngx_slab_free_locked p a = Done q" "frees p L q (a, cs)"
    using ngx_slab_free_locked_ok [OF L(1) cs] by blast
  obtain M where M: "slab_inv q M" "used_blocks q M = used_blocks p L - {(a, cs)}"
    using q(2) unfolding frees_def by blast
  have "distinct bs" using L(2) by (simp add: distinct_map)
  then have s: "set (remove1 (a, sz) bs) = set bs - {(a, sz)}" by simp
  have "inj_on fst (set bs)" using L(2) by (simp add: distinct_map)
  then have "fst ` (set bs - {(a, sz)}) = fst ` set bs - {a}"
    using b by (simp add: inj_on_image_set_diff [of fst "set bs"])
  moreover have "fst ` (used_blocks p L - {(a, cs)}) = fst ` used_blocks p L - {a}"
  proof -
    have "inj_on fst (used_blocks p L)" using slab_used_inj [OF L(1)] by (auto simp: inj_on_def)
    then show ?thesis using cs by (simp add: inj_on_image_set_diff [of fst "used_blocks p L"])
  qed
  ultimately have f: "fst ` used_blocks q M = fst ` set (remove1 (a, sz) bs)" using L(3) M(2) s by simp
  have "client_inv (q, remove1 (a, sz) bs)"
    unfolding client_inv_def
  proof (intro exI [of _ M] conjI)
    show "distinct (map fst (snd (q, remove1 (a, sz) bs)))"
      using L(2) by (simp add: distinct_map inj_on_def s distinct_remove1)
  qed (use M f L(4) s in auto)
  then show ?thesis using q(1) by blast
qed

interpretation slab_clients: invariant_system
  "\<lambda>s. \<exists>base fin. slab_room base fin \<and> s = (ngx_slab_init base fin 3, [])" slab_client_step client_inv
proof unfold_locales
  fix s :: "slab_pool \<times> block list"
  assume "\<exists>base fin. slab_room base fin \<and> s = (ngx_slab_init base fin 3, [])"
  then show "client_inv s" using client_inv_init by auto
next
  fix s t assume i: "client_inv s" and st: "slab_client_step s t"
  from st i show "client_inv t"
  proof cases
    case (client_alloc p sz a q bs)
    then show ?thesis using client_inv_alloc [of p bs sz a q] i by simp
  next
    case (client_null p sz q bs)
    then show ?thesis using client_inv_alloc [of p bs sz 0 q] i by simp
  next
    case (client_free a sz bs p q)
    then show ?thesis using client_inv_free [of p bs a sz] i by auto
  qed
qed

lemma slab_pages_kept:
  assumes "ngx_slab_init base fin 3 = p0" and "slab_client_step\<^sup>*\<^sup>* (p0, []) (p, bs)" and "slab_room base fin"
  shows "client_inv (p, bs)"
  using slab_clients.invar_reachable [of "(p0, [])" "(p, bs)"] assms by auto

lemma slab_used_pages:
  assumes "slab_inv p L" and "b \<in> used_blocks p L"
  shows "fst b + snd b \<le> sl_start p + npages p * 4096"
proof -
  obtain ls where i: "inv_but {} p L ls" using assms(1) by (rule slab_invD) blast
  obtain a t where a: "L a = Some t" "b \<in> opt_blocks (sl_start p) a (Some t)" using assms(2) by (rule used_blocksE)
  have "a * 4096 + tile_len t * 4096 \<le> npages p * 4096" using hole_len(3) [OF i a(1)] by simp
  then show ?thesis using used_block_within(1) [OF i a] by (simp add: block_within_def)
qed

lemma client_const:
  assumes "slab_client_step s t" and "client_inv s"
  shows "npages (fst t) = npages (fst s)" and "sl_start (fst t) = sl_start (fst s)"
proof -
  obtain L where L: "slab_inv (fst s) L" using assms(2) by (auto simp: client_inv_def)
  have alloc: "npages q = npages (fst s) \<and> sl_start q = sl_start (fst s)"
    if "ngx_slab_alloc_locked (fst s) sz = Done (a, q)" for sz a q
    using ngx_slab_alloc_locked_ok [OF L, of sz] that by (auto simp: allocates_def)
  have free: "npages q = npages (fst s) \<and> sl_start q = sl_start (fst s)"
    if f: "ngx_slab_free_locked (fst s) a = Done q" and b: "(a, sz) \<in> set (snd s)" for a q sz
  proof -
    obtain M where M: "slab_inv (fst s) M" "fst ` used_blocks (fst s) M = fst ` set (snd s)"
      using assms(2) by (auto simp: client_inv_def)
    have "a \<in> fst ` used_blocks (fst s) M" using M(2) b by force
    then obtain cs where "(a, cs) \<in> used_blocks (fst s) M" by auto
    then show ?thesis using ngx_slab_free_locked_ok [OF M(1)] f by (fastforce simp: frees_def)
  qed
  from assms(1) have "npages (fst t) = npages (fst s) \<and> sl_start (fst t) = sl_start (fst s)"
    by cases (use alloc free in auto)
  then show "npages (fst t) = npages (fst s)" "sl_start (fst t) = sl_start (fst s)" by auto
qed

lemma client_run:
  assumes "slab_room base fin" and "slab_client_step\<^sup>*\<^sup>* (ngx_slab_init base fin 3, []) s"
  shows "client_inv s" and "npages (fst s) = npages (ngx_slab_init base fin 3)"
    and "sl_start (fst s) = sl_start (ngx_slab_init base fin 3)"
proof -
  show inv: "client_inv s" using slab_clients.invar_reachable assms by blast
  from assms(2) have "npages (fst s) = npages (ngx_slab_init base fin 3) \<and>
      sl_start (fst s) = sl_start (ngx_slab_init base fin 3)"
  proof (induction rule: rtranclp_induct)
    case (step s t)
    have "client_inv s" using slab_clients.invar_reachable assms(1) step(1) by blast
    then show ?case using client_const [OF step(2)] step(3) by simp
  qed simp
  then show "npages (fst s) = npages (ngx_slab_init base fin 3)"
    "sl_start (fst s) = sl_start (ngx_slab_init base fin 3)" by auto
qed

lemma alloc_from_run:
  assumes inv: "slab_inv p L" and L: "L b = Some (Free_run m)" and sz: "pages_needed sz \<le> m"
  shows "\<exists>a q. ngx_slab_alloc_locked p sz = Done (a, q) \<and> a \<noteq> 0"
  using ngx_slab_alloc_locked_ok [OF inv, of sz] L sz by (metis not_less)

section \<open>Properties\<close>

text \<open>C4: On a pool that satisfies its invariant, an allocation never aborts.  It either hands
  out a block of at least the size asked for, inside the pages of the pool and disjoint from
  every block in use, or returns null, and then no run of free pages is long enough.\<close>

theorem slab_alloc_spec:
  assumes "slab_inv p L"
  shows "\<exists>a q M. ngx_slab_alloc_locked p sz = Done (a, q) \<and> slab_inv q M \<and>
    (if a = 0 then used_blocks q M = used_blocks p L \<and>
        (\<forall>b m. L b = Some (Free_run m) \<longrightarrow> m < pages_needed sz)
     else \<exists>cs \<ge> sz. used_blocks q M = insert (a, cs) (used_blocks p L) \<and>
        (\<forall>b \<in> used_blocks p L. block_disjoint (a, cs) b) \<and>
        sl_start p \<le> a \<and> a + cs \<le> sl_start p + npages p * 4096)"
  using ngx_slab_alloc_locked_ok [OF assms, of sz]
proof (elim disjE exE conjE)
  fix a q cs assume a: "ngx_slab_alloc_locked p sz = Done (a, q)" "a \<noteq> 0" "sz \<le> cs" "allocates p L q a cs"
  then obtain M where M: "slab_inv q M" "(a, cs) \<notin> used_blocks p L"
    "used_blocks q M = insert (a, cs) (used_blocks p L)" "sl_start q = sl_start p" "npages q = npages p"
    unfolding allocates_def by blast
  have "block_disjoint (a, cs) b" if "b \<in> used_blocks p L" for b
    using slab_used_disjoint [OF M(1), of "(a, cs)" b] that M(2,3) by auto
  moreover have "sl_start p \<le> a" "a + cs \<le> sl_start p + npages p * 4096"
    using slab_used_bounds(1) [OF M(1), of "(a, cs)"] slab_used_pages [OF M(1), of "(a, cs)"] M by auto
  ultimately show ?thesis using a M by (intro exI [of _ a] exI [of _ q] exI [of _ M]) auto
next
  fix q assume q: "ngx_slab_alloc_locked p sz = Done (0, q)" "slab_inv q L" "sl_start q = sl_start p"
    "\<forall>a m. L a = Some (Free_run m) \<longrightarrow> m < pages_needed sz"
  then show ?thesis using used_blocks_kept [OF q(3), of L] by (intro exI [of _ 0] exI [of _ q] exI [of _ L]) simp
qed

lemma example_room: "slab_room 4096 69632"
  by (simp add: slab_room_def)

lemma slab_alloc_spec_witness:
  "\<exists>L a q M. slab_inv (ngx_slab_init 4096 69632 3) L \<and>
     ngx_slab_alloc_locked (ngx_slab_init 4096 69632 3) 100 = Done (a, q) \<and> slab_inv q M \<and> a \<noteq> 0 \<and>
     (\<exists>cs \<ge> 100. used_blocks q M = {(a, cs)})"
proof -
  let ?p = "ngx_slab_init 4096 69632 3"
  note i = ngx_slab_init_inv [OF example_room]
  have n: "pages_needed 100 \<le> npages ?p" using ngx_slab_init_pages(1) [OF example_room] by (simp add: pages_needed_def)
  show ?thesis
    using slab_alloc_spec [OF i(1), of 100]
  proof (elim exE conjE)
    fix a q M assume a: "ngx_slab_alloc_locked ?p 100 = Done (a, q)" "slab_inv q M"
      "if a = 0 then used_blocks q M = used_blocks ?p [0 \<mapsto> Free_run (npages ?p)] \<and>
          (\<forall>b m. [0 \<mapsto> Free_run (npages ?p)] b = Some (Free_run m) \<longrightarrow> m < pages_needed 100)
       else \<exists>cs \<ge> 100. used_blocks q M = insert (a, cs) (used_blocks ?p [0 \<mapsto> Free_run (npages ?p)]) \<and>
          (\<forall>b \<in> used_blocks ?p [0 \<mapsto> Free_run (npages ?p)]. block_disjoint (a, cs) b) \<and>
          sl_start ?p \<le> a \<and> a + cs \<le> sl_start ?p + npages ?p * 4096"
    have "a \<noteq> 0"
    proof
      assume "a = 0"
      then have "\<forall>b m. [0 \<mapsto> Free_run (npages ?p)] b = Some (Free_run m) \<longrightarrow> m < pages_needed 100"
        using a(3) by simp
      then have "npages ?p < pages_needed 100" by (metis fun_upd_same)
      then show False using n by simp
    qed
    then show ?thesis using a i by auto
  qed
qed

text \<open>C5: Freeing a block in use never aborts, and takes exactly that block out of use.\<close>

theorem slab_free_spec:
  assumes "slab_inv p L" and "(a, cs) \<in> used_blocks p L"
  shows "\<exists>q M. ngx_slab_free_locked p a = Done q \<and> slab_inv q M \<and>
    used_blocks q M = used_blocks p L - {(a, cs)}"
  using ngx_slab_free_locked_ok [OF assms] unfolding frees_def by blast

lemma slab_free_spec_witness:
  "\<exists>p L a cs q M. slab_inv p L \<and> used_blocks p L = {(a, cs)} \<and> 100 \<le> cs \<and>
     ngx_slab_free_locked p a = Done q \<and> slab_inv q M \<and> used_blocks q M = {}"
proof -
  let ?p = "ngx_slab_init 4096 69632 3"
  note i = ngx_slab_init_inv [OF example_room]
  have n: "pages_needed 100 \<le> npages ?p" using ngx_slab_init_pages(1) [OF example_room] by (simp add: pages_needed_def)
  have "\<not> (\<forall>a m. [0 \<mapsto> Free_run (npages ?p)] a = Some (Free_run m) \<longrightarrow> m < pages_needed 100)"
    using n by (auto simp: not_less)
  then obtain a r cs where a: "100 \<le> cs" "allocates ?p [0 \<mapsto> Free_run (npages ?p)] r a cs"
    using ngx_slab_alloc_locked_ok [OF i(1), of 100] by blast
  then obtain L where L: "slab_inv r L" "used_blocks r L = {(a, cs)}" unfolding allocates_def using i(2) by auto
  from slab_free_spec [OF L(1), of a cs] obtain q M where "ngx_slab_free_locked r a = Done q" "slab_inv q M"
    "used_blocks q M = {}" using L(2) by auto
  then show ?thesis using L a(1) by blast
qed

text \<open>C6: In every state that clients can reach, whatever they allocate and whatever of it they
  free, every further allocation and every freeing of a held block returns, and the blocks
  held are pairwise disjoint and inside the pages of the pool.\<close>

theorem slab_clients_safe:
  assumes "slab_room base fin"
    and "slab_client_step\<^sup>*\<^sup>* (ngx_slab_init base fin 3, []) (p, bs)"
  shows "(\<forall>sz. \<exists>x. ngx_slab_alloc_locked p sz = Done x) \<and>
    (\<forall>b \<in> set bs. \<exists>q. ngx_slab_free_locked p (fst b) = Done q) \<and> disjoint_blocks bs \<and>
    (\<forall>b \<in> set bs. sl_start (ngx_slab_init base fin 3) \<le> fst b \<and>
       fst b + snd b \<le> sl_start (ngx_slab_init base fin 3) + npages (ngx_slab_init base fin 3) * 4096)"
proof (intro conjI ballI allI)
  note inv = client_run(1) [OF assms] and const = client_run(2,3) [OF assms, simplified]
  note h = client_holds [OF inv]
  show "\<exists>x. ngx_slab_alloc_locked p sz = Done x" for sz using slab.alloc_ok [OF h] by blast
  show "\<exists>q. ngx_slab_free_locked p (fst b) = Done q" if "b \<in> set bs" for b
    using client_inv_free [OF inv, of "fst b" "snd b"] that by auto
  show "disjoint_blocks bs" by (rule slab.invar_disjoint [OF h])
  fix b assume b: "b \<in> set bs"
  then obtain L cs where "slab_inv p L" "snd b \<le> cs" "(fst b, cs) \<in> used_blocks p L"
    using h by (auto simp: slab_holds_def)
  then show "sl_start (ngx_slab_init base fin 3) \<le> fst b"
    "fst b + snd b \<le> sl_start (ngx_slab_init base fin 3) + npages (ngx_slab_init base fin 3) * 4096"
    using slab_used_bounds(1) [of p L "(fst b, cs)"] slab_used_pages [of p L "(fst b, cs)"] const by auto
qed

lemma example_client:
  "\<exists>a q. a \<noteq> 0 \<and> slab_client_step (ngx_slab_init 4096 69632 3, []) (q, [(a, 100)])"
proof -
  have "pages_needed 100 \<le> npages (ngx_slab_init 4096 69632 3)"
    using ngx_slab_init_pages(1) [OF example_room] by (simp add: pages_needed_def)
  then show ?thesis
    using alloc_from_run [OF ngx_slab_init_inv(1) [OF example_room], of 0] client_alloc by (metis fun_upd_same)
qed

lemma slab_clients_safe_witness:
  "\<exists>p a. slab_client_step\<^sup>*\<^sup>* (ngx_slab_init 4096 69632 3, []) (p, [(a, 100)]) \<and>
     (\<exists>q. ngx_slab_free_locked p a = Done q) \<and> (\<exists>x. ngx_slab_alloc_locked p 5000 = Done x)"
proof -
  obtain a p where "slab_client_step (ngx_slab_init 4096 69632 3, []) (p, [(a, 100)])"
    using example_client by blast
  then have r: "slab_client_step\<^sup>*\<^sup>* (ngx_slab_init 4096 69632 3, []) (p, [(a, 100)])" by blast
  note c = slab_clients_safe [OF example_room r]
  have "\<exists>q. ngx_slab_free_locked p a = Done q" using c by simp
  moreover have "\<exists>x. ngx_slab_alloc_locked p 5000 = Done x" using c by blast
  ultimately show ?thesis using r by blast
qed

text \<open>C7: When clients have freed everything they allocated, in any order, the pool is one run
  of free pages again: every page is counted as free and a request for all of them succeeds.\<close>

theorem slab_clients_restore:
  assumes "slab_room base fin"
    and "slab_client_step\<^sup>*\<^sup>* (ngx_slab_init base fin 3, []) (p, [])"
  shows "pfree p = pfree (ngx_slab_init base fin 3) \<and>
    (\<exists>a q. a \<noteq> 0 \<and>
       ngx_slab_alloc_locked p (npages (ngx_slab_init base fin 3) * 4096) = Done (a, q))"
proof -
  let ?n = "npages (ngx_slab_init base fin 3)"
  note inv = client_run(1) [OF assms] and const = client_run(2) [OF assms, simplified]
  obtain L where L: "slab_inv p L" "used_blocks p L = {}" using inv by (auto simp: client_inv_def)
  have n: "0 < npages p" using ngx_slab_init_pages(1) [OF assms(1)] const by simp
  have L0: "L = [0 \<mapsto> Free_run (npages p)]" by (rule slab_all_free [OF L n])
  have "free_pages (npages p) [0 \<mapsto> Free_run (npages p)] = npages p"
    using free_pages_update [of 0 "npages p" Map.empty "Some (Free_run (npages p))"] n
    by (simp add: free_pages_def)
  then have "pfree p = of_nat (npages p)" using L(1) L0 unfolding slab_inv_def by simp
  moreover have "pages_needed (?n * 4096) \<le> npages p"
    using const n by (simp add: pages_needed_def)
  moreover have "\<exists>a q. ngx_slab_alloc_locked p (?n * 4096) = Done (a, q) \<and> a \<noteq> 0"
    by (rule alloc_from_run [OF L(1), of 0 "npages p"]) (use L0 calculation(2) in auto)
  ultimately show ?thesis using const ngx_slab_init_fields(4) [of base fin] by auto
qed

lemma slab_clients_restore_witness:
  "\<exists>p s. slab_client_step (ngx_slab_init 4096 69632 3, []) s \<and> slab_client_step s (p, []) \<and>
     pfree p = pfree (ngx_slab_init 4096 69632 3)"
proof -
  obtain a q where s: "slab_client_step (ngx_slab_init 4096 69632 3, []) (q, [(a, 100)])"
    using example_client by blast
  have "client_inv (q, [(a, 100)])"
    by (rule client_run(1) [OF example_room]) (use s in blast)
  then obtain p where "ngx_slab_free_locked q a = Done p" using client_inv_free [of q "[(a, 100)]" a 100] by auto
  then have t: "slab_client_step (q, [(a, 100)]) (p, [])" using client_free [of a 100 "[(a, 100)]" q p] by simp
  have "slab_client_step\<^sup>*\<^sup>* (ngx_slab_init 4096 69632 3, []) (p, [])"
    using s t by (metis converse_rtranclp_into_rtranclp rtranclp.rtrancl_refl)
  then show ?thesis using slab_clients_restore [OF example_room] s t by blast
qed

end
