(* ===== verification/Shared_Slab.thy ===== *)
theory Shared_Slab
  imports Slab_Spec Process
begin

text \<open>
  The functions around the slab allocator in \<^verbatim>\<open>shared_slab.c\<close>: creating the shared
  mapping, taking the mutex, and allocating zeroed memory.
\<close>

section \<open>State\<close>

text \<open>
  \<^verbatim>\<open>shuso_shared_slab_t\<close>, with the state of the mutex of its pool and the bytes of the pages.
\<close>

record shared_slab =
  shm_name :: string
  shm_ptr :: addr
  shm_size :: nat
  shm_pool :: slab_pool
  shm_locked :: bool
  shm_mem :: "addr \<Rightarrow> 8 word"

text \<open>
  \<^verbatim>\<open>pthread_mutex_lock\<close> on a mutex the caller holds already never returns; another holder
  is waited for.
\<close>

definition shuso_shared_slab_lock :: "shared_slab \<Rightarrow> shared_slab run" where
  "shuso_shared_slab_lock shm = (if shm_locked shm then Abort else Done (shm\<lparr>shm_locked := True\<rparr>))"

definition shuso_shared_slab_unlock :: "shared_slab \<Rightarrow> shared_slab" where
  "shuso_shared_slab_unlock shm = shm\<lparr>shm_locked := False\<rparr>"

section \<open>Operations\<close>

definition shuso_shared_slab_alloc_locked :: "shared_slab \<Rightarrow> nat \<Rightarrow> (addr \<times> shared_slab) run" where
  "shuso_shared_slab_alloc_locked shm sz =
     run_bind (ngx_slab_alloc_locked (shm_pool shm) sz) (\<lambda>(a, p). Done (a, shm\<lparr>shm_pool := p\<rparr>))"

definition shuso_shared_slab_alloc :: "shared_slab \<Rightarrow> nat \<Rightarrow> (addr \<times> shared_slab) run" where
  "shuso_shared_slab_alloc shm sz =
     run_bind (shuso_shared_slab_lock shm)
       (\<lambda>shm. run_bind (shuso_shared_slab_alloc_locked shm sz)
         (\<lambda>(a, shm). Done (a, shuso_shared_slab_unlock shm)))"

text \<open>\<^verbatim>\<open>ngx_slab_calloc_locked\<close> clears the bytes asked for, not the whole chunk.\<close>

definition shuso_shared_slab_calloc_locked :: "shared_slab \<Rightarrow> nat \<Rightarrow> (addr \<times> shared_slab) run" where
  "shuso_shared_slab_calloc_locked shm sz =
     run_bind (shuso_shared_slab_alloc_locked shm sz)
       (\<lambda>(a, shm). if a \<noteq> 0
          then Done (a, shm\<lparr>shm_mem := (\<lambda>x. if a \<le> x \<and> x < a + sz then 0 else shm_mem shm x)\<rparr>)
          else Done (a, shm))"

definition shuso_shared_slab_calloc :: "shared_slab \<Rightarrow> nat \<Rightarrow> (addr \<times> shared_slab) run" where
  "shuso_shared_slab_calloc shm sz =
     run_bind (shuso_shared_slab_lock shm)
       (\<lambda>shm. run_bind (shuso_shared_slab_calloc_locked shm sz)
         (\<lambda>(a, shm). Done (a, shuso_shared_slab_unlock shm)))"

definition shuso_shared_slab_free_locked :: "shared_slab \<Rightarrow> addr \<Rightarrow> shared_slab run" where
  "shuso_shared_slab_free_locked shm a =
     run_bind (ngx_slab_free_locked (shm_pool shm) a) (\<lambda>p. Done (shm\<lparr>shm_pool := p\<rparr>))"

definition shuso_shared_slab_free :: "shared_slab \<Rightarrow> addr \<Rightarrow> shared_slab run" where
  "shuso_shared_slab_free shm a =
     run_bind (shuso_shared_slab_lock shm)
       (\<lambda>shm. run_bind (shuso_shared_slab_free_locked shm a) (\<lambda>shm. Done (shuso_shared_slab_unlock shm)))"

section \<open>Creation\<close>

text \<open>
  What the system calls return: the address of the mapping, or 0 for \<^verbatim>\<open>MAP_FAILED\<close>, and the
  results of the three \<^verbatim>\<open>pthread\<close> calls.  The resources taken and not released are recorded.
\<close>

record shm_system =
  sys_mmap :: "nat \<Rightarrow> addr"
  sys_mutexattr_init :: int
  sys_mutexattr_setpshared :: int
  sys_mutex_init :: int

record shm_resources =
  res_mapped :: bool
  res_mutexattr :: bool
  res_mutex :: bool

definition SHUTTLESOCK_SHARED_SLAB_DEFAULT_SIZE :: nat where
  "SHUTTLESOCK_SHARED_SLAB_DEFAULT_SIZE = 16777216"

definition shuso_shared_slab_create ::
  "shm_system \<Rightarrow> nat \<Rightarrow> string \<Rightarrow> shuso \<Rightarrow> (bool \<times> shuso) \<times> shared_slab option \<times> shm_resources"
where
  "shuso_shared_slab_create sys sz name S =
     (let sz = (if sz = 0 then SHUTTLESOCK_SHARED_SLAB_DEFAULT_SIZE else sz);
          base = sys_mmap sys sz
      in if base = 0 then
           (shuso_set_error ''failed to create shared memory slab'' S, None,
            \<lparr>res_mapped = False, res_mutexattr = False, res_mutex = False\<rparr>)
         else
           (let have_mutexattr = (sys_mutexattr_init sys = 0);
                ok = (have_mutexattr \<and> sys_mutexattr_setpshared sys = 0 \<and> sys_mutex_init sys = 0)
            in if ok then
                 ((True, S),
                  Some \<lparr>shm_name = name, shm_ptr = base, shm_size = sz,
                        shm_pool = ngx_slab_init base (base + sz) 3, shm_locked = False, shm_mem = (\<lambda>_. 0)\<rparr>,
                  \<lparr>res_mapped = True, res_mutexattr = False, res_mutex = True\<rparr>)
               else
                 (shuso_set_error ''failed to create mutex for shared memory slab'' S, None,
                  (let destroyed = have_mutexattr in
                   \<lparr>res_mapped = False, res_mutexattr = (have_mutexattr \<and> \<not> destroyed), res_mutex = False\<rparr>))))"

section \<open>Correctness\<close>


lemma shared_slab_create_releases:
  assumes "shuso_shared_slab_create sys sz name S = ((ok, S'), x, res)"
  shows "ok \<longleftrightarrow> x \<noteq> None" and "\<not> ok \<Longrightarrow> \<not> res_mapped res \<and> \<not> res_mutex res" and "\<not> res_mutexattr res"
  using assms by (auto simp: shuso_shared_slab_create_def shuso_set_error_def Let_def split: if_splits)

lemma shared_slab_create_inv:
  assumes "shuso_shared_slab_create sys sz name S = ((True, S'), Some shm, res)"
    and "sys_mmap sys (if sz = 0 then SHUTTLESOCK_SHARED_SLAB_DEFAULT_SIZE else sz) = base"
    and "slab_room base (base + (if sz = 0 then SHUTTLESOCK_SHARED_SLAB_DEFAULT_SIZE else sz))"
  shows "\<exists>L. slab_inv (shm_pool shm) L \<and> used_blocks (shm_pool shm) L = {}" and "\<not> shm_locked shm"
  using assms ngx_slab_init_inv [OF assms(3)]
  by (auto simp: shuso_shared_slab_create_def shuso_set_error_def Let_def split: if_splits)

text \<open>A block in use does not meet the bit map at the start of a page of small chunks.\<close>

lemma used_block_avoids_bitmap:
  assumes inv: "slab_inv p L" and L: "L a = Some (Chunks k U)" and k: "k < 6" and b: "b \<in> used_blocks p L"
  shows "block_disjoint b (sl_start p + a * 4096, bitmap_chunks k * 2 ^ k)"
proof -
  obtain ls where i: "inv_but {} p L ls" using inv by (rule slab_invD) blast
  have cd: "chunk_data p a k U" using inv_but_tile [OF i L] by simp
  have k3: "3 \<le> k" using cd by (simp add: chunk_data_def)
  have "bitmap_chunks k * 2 ^ k \<le> nchunks k * 2 ^ k" using nchunks_small [OF k3 k] by simp
  then have w: "block_within (sl_start p + a * 4096, bitmap_chunks k * 2 ^ k) (sl_start p + a * 4096, 1 * 4096)"
    using nchunks_size [OF k3] k by (simp add: block_within_def)
  obtain c t where c: "L c = Some t" "b \<in> opt_blocks (sl_start p) c (Some t)" using b by (rule used_blocksE)
  show ?thesis
  proof (cases "c = a")
    case True
    then obtain j where j: "j \<in> U" "b = (sl_start p + a * 4096 + j * 2 ^ k, 2 ^ k)" using c L by auto
    have "bitmap_chunks k \<le> j" using j(1) cd k by (auto simp: chunk_data_def chunk_range_def)
    then have "bitmap_chunks k * 2 ^ k \<le> j * 2 ^ k" by simp
    then show ?thesis using j(2) by (simp add: block_disjoint_def)
  next
    case False
    have "block_disjoint (sl_start p + c * 4096, tile_len t * 4096) (sl_start p + a * 4096, 1 * 4096)"
      using tiles_disjoint [OF inv_but_tiling [OF i] c(1) L False, of "sl_start p"] by simp
    then show ?thesis using block_within_disjoint2 [OF used_block_within(1) [OF i c] w] by blast
  qed
qed

lemma bitmap_words_fit: "3 \<le> k \<Longrightarrow> k < 6 \<Longrightarrow> nchunks k div 64 * 8 \<le> bitmap_chunks k * 2 ^ k"
  by (rule shift_cases [of k]) (auto simp: nchunks_def bitmap_chunks_def ngx_pagesize_def)

text \<open>Zeroed allocation: the block is as from an ordinary one, its bytes asked for are zero, and
  no byte outside it changes; the mutex is free again.\<close>

lemma shuso_shared_slab_calloc_ok:
  assumes inv: "slab_inv (shm_pool shm) L" and lk: "\<not> shm_locked shm"
  shows "\<exists>a shm' M. shuso_shared_slab_calloc shm sz = Done (a, shm') \<and> slab_inv (shm_pool shm') M \<and>
    \<not> shm_locked shm' \<and>
    (\<forall>x. shm_mem shm' x = (if a \<noteq> 0 \<and> a \<le> x \<and> x < a + sz then 0 else shm_mem shm x)) \<and>
    (a \<noteq> 0 \<longrightarrow> (\<exists>cs \<ge> sz. (a, cs) \<in> used_blocks (shm_pool shm') M))"
  using ngx_slab_alloc_locked_ok [OF inv, of sz]
proof (elim disjE exE conjE)
  fix a q cs assume a: "ngx_slab_alloc_locked (shm_pool shm) sz = Done (a, q)" "a \<noteq> 0" "sz \<le> cs"
    "allocates (shm_pool shm) L q a cs"
  then obtain M where "slab_inv q M" "used_blocks q M = insert (a, cs) (used_blocks (shm_pool shm) L)"
    unfolding allocates_def by blast
  then show ?thesis
    using a lk by (intro exI [of _ a] exI [of _ "shm\<lparr>shm_pool := q,
        shm_mem := (\<lambda>x. if a \<le> x \<and> x < a + sz then 0 else shm_mem shm x), shm_locked := False\<rparr>"] exI [of _ M])
      (auto simp: shuso_shared_slab_calloc_def shuso_shared_slab_calloc_locked_def shuso_shared_slab_lock_def
        shuso_shared_slab_alloc_locked_def shuso_shared_slab_unlock_def cong: if_cong)
next
  fix q assume "ngx_slab_alloc_locked (shm_pool shm) sz = Done (0, q)" "slab_inv q L"
  then show ?thesis
    using lk by (intro exI [of _ 0] exI [of _ "shm\<lparr>shm_pool := q, shm_locked := False\<rparr>"] exI [of _ L])
      (auto simp: shuso_shared_slab_calloc_def shuso_shared_slab_calloc_locked_def shuso_shared_slab_lock_def
        shuso_shared_slab_alloc_locked_def shuso_shared_slab_unlock_def cong: if_cong)
qed

section \<open>Blocks that are held\<close>

text \<open>The blocks of shared memory that its users hold, each as they asked for it.\<close>

definition shm_owned :: "shared_slab \<Rightarrow> block set \<Rightarrow> bool" where
  "shm_owned shm B \<longleftrightarrow> \<not> shm_locked shm \<and> (\<exists>bs. set bs = B \<and> client_inv (shm_pool shm, bs))"

lemma shm_owned_alloc:
  assumes "shm_owned shm B"
  shows "\<exists>a shm'. shuso_shared_slab_alloc shm sz = Done (a, shm') \<and>
    (a = 0 \<and> shm_owned shm' B \<or> a \<noteq> 0 \<and> a \<notin> fst ` B \<and> shm_owned shm' (insert (a, sz) B))"
proof -
  obtain bs where inv: "client_inv (shm_pool shm, bs)" and bs: "set bs = B" and lk: "\<not> shm_locked shm"
    using assms by (auto simp: shm_owned_def)
  obtain a p where al: "ngx_slab_alloc_locked (shm_pool shm) sz = Done (a, p)"
    using slab.alloc_ok [OF client_holds [OF inv], of sz] by auto
  have new: "client_inv (p, if a = 0 then bs else (a, sz) # bs)" by (rule client_inv_alloc [OF inv al])
  then have "a \<noteq> 0 \<Longrightarrow> a \<notin> fst ` B" using bs by (auto simp: client_inv_def)
  then show ?thesis
    using al new lk bs
    by (cases "a = 0") (auto simp: shuso_shared_slab_alloc_def shuso_shared_slab_lock_def shuso_shared_slab_alloc_locked_def
      shuso_shared_slab_unlock_def shm_owned_def intro: exI [of _ "(a, sz) # bs"])
qed

lemma shm_owned_free:
  assumes "shm_owned shm B" "(a, sz) \<in> B"
  shows "\<exists>shm'. shuso_shared_slab_free shm a = Done shm' \<and> shm_owned shm' (B - {(a, sz)})"
proof -
  obtain bs where inv: "client_inv (shm_pool shm, bs)" and bs: "set bs = B" and lk: "\<not> shm_locked shm"
    using assms by (auto simp: shm_owned_def)
  have "distinct (map fst bs)" using inv by (auto simp: client_inv_def)
  then have "set (remove1 (a, sz) bs) = B - {(a, sz)}" using bs by (simp add: distinct_map)
  then show ?thesis using client_inv_free [OF inv, of a sz] assms(2) bs lk
    by (auto simp: shuso_shared_slab_free_def shuso_shared_slab_lock_def shuso_shared_slab_free_locked_def
      shuso_shared_slab_unlock_def shm_owned_def intro: exI [of _ "remove1 (a, sz) bs"])
qed

end
