(* ===== verification/Buffer.thy ===== *)
theory Buffer
  imports Pool Shared_Slab
begin

text \<open>
  The output buffers of \<^verbatim>\<open>buffer.c\<close>: a FIFO queue of links, each with the data it carries,
  whose memory comes from \<^verbatim>\<open>malloc\<close>, from a memory pool or from the shared slab.
\<close>

section \<open>State\<close>

datatype shuso_buffer_data_type =
    SHUSO_BUF_MSGHDR
  | SHUSO_BUF_IOVEC
  | SHUSO_BUF_CHARBUF

datatype shuso_buffer_memory_type =
    SHUSO_BUF_DEFAULT
  | SHUSO_BUF_HEAP
  | SHUSO_BUF_POOL
  | SHUSO_BUF_FIXED
  | SHUSO_BUF_SHARED
  | SHUSO_BUF_MMAPPED
  | SHUSO_BUF_EXTERNAL

text \<open>
  \<^verbatim>\<open>shuso_buffer_link_t\<close>: \<open>bl_data\<close> is the union of the pointers, \<open>bl_num\<close> that of \<^verbatim>\<open>iovcnt\<close>,
  \<^verbatim>\<open>len\<close> and \<^verbatim>\<open>flags\<close>.
\<close>

record buffer_link =
  bl_data :: addr
  bl_num :: int
  bl_data_type :: shuso_buffer_data_type
  bl_memory_type :: shuso_buffer_memory_type
  bl_have_cleanup :: bool
  bl_next :: addr

text \<open>\<^verbatim>\<open>shuso_buffer_link_cleanup_t\<close>; a null function pointer is 0.\<close>

record buffer_cleanup =
  cl_fn :: addr
  cl_privdata :: addr

text \<open>What \<^verbatim>\<open>struct msgblob_s\<close> says of the message that passes a file descriptor.\<close>

record msgblob =
  mb_iov :: addr
  mb_iovlen :: nat
  mb_control :: addr
  mb_controllen :: nat
  mb_cmsg_len :: nat
  mb_fd :: int
  mb_iov_base :: addr
  mb_iov_len :: nat

text \<open>\<^verbatim>\<open>shuso_buffer_t\<close>, without the pointer to its allocator, which is in the state below.\<close>

record buffer =
  buf_head :: addr
  buf_tail :: addr
  buf_memory_type :: shuso_buffer_memory_type

text \<open>
  The memory that buffers use: links, cleanups and messages by address, the process with its
  pool (and in it the C heap), the shared slab, and the cleanup functions called so far with
  the link and private data they got.
\<close>

record buf_sys =
  bs_S :: shuso
  bs_pool :: pool
  bs_shm :: shared_slab
  bs_link :: "addr \<Rightarrow> buffer_link"
  bs_cleanup :: "addr \<Rightarrow> buffer_cleanup"
  bs_msg :: "addr \<Rightarrow> msgblob"
  bs_cleaned :: "(addr \<times> addr \<times> addr) list"

section \<open>Operations\<close>

definition shuso_buffer_init :: "shuso_buffer_memory_type \<Rightarrow> addr \<Rightarrow> buffer run" where
  "shuso_buffer_init mtype allocator_data =
     (let buf = \<lparr>buf_head = 0, buf_tail = 0, buf_memory_type = mtype\<rparr> in
      case mtype of
        SHUSO_BUF_HEAP \<Rightarrow> c_assert (allocator_data = 0) (Done buf)
      | SHUSO_BUF_POOL \<Rightarrow> c_assert (allocator_data \<noteq> 0) (Done buf)
      | SHUSO_BUF_FIXED \<Rightarrow> c_assert (allocator_data \<noteq> 0) (Done buf)
      | SHUSO_BUF_SHARED \<Rightarrow> c_assert (allocator_data \<noteq> 0) (Done buf)
      | SHUSO_BUF_EXTERNAL \<Rightarrow> Done buf
      | _ \<Rightarrow> Abort)"

definition c_malloc :: "malloc_fn \<Rightarrow> nat \<Rightarrow> buf_sys \<Rightarrow> addr \<times> buf_sys" where
  "c_malloc mal sz s =
     (let lv = live (bs_pool s); a = mal lv sz in
      if a = 0 then (0, s) else (a, s\<lparr>bs_pool := (bs_pool s)\<lparr>live := (a, sz) # lv\<rparr>\<rparr>))"

text \<open>\<^verbatim>\<open>errno\<close> is what the refused request left in it; \<^verbatim>\<open>%d\<close> reads the size as an \<^verbatim>\<open>int\<close>.\<close>

definition shuso_buffer_allocate :: "malloc_fn \<Rightarrow> int \<Rightarrow> buffer \<Rightarrow> nat \<Rightarrow> buf_sys \<Rightarrow> (addr \<times> buf_sys) run" where
  "shuso_buffer_allocate mal errno buf sz s =
     run_bind
       (case buf_memory_type buf of
          SHUSO_BUF_HEAP \<Rightarrow> Done (c_malloc mal sz s)
        | SHUSO_BUF_POOL \<Rightarrow>
            run_bind (shuso_palloc mal (bs_pool s) sz) (\<lambda>(a, p). Done (a, s\<lparr>bs_pool := p\<rparr>))
        | SHUSO_BUF_SHARED \<Rightarrow>
            run_bind (shuso_shared_slab_alloc (bs_shm s) sz) (\<lambda>(a, m). Done (a, s\<lparr>bs_shm := m\<rparr>))
        | _ \<Rightarrow> Abort)
       (\<lambda>(data, s).
          if data = 0 then
            Done (0, s\<lparr>bs_S := snd (shuso_set_error_errno errno
              (''Failed to allocate '' @ decimal (sint (of_nat sz :: 32 word)) @ '' bytes for buffer'') (bs_S s))\<rparr>)
          else Done (data, s))"

definition shuso_buffer_cleanup :: "addr \<Rightarrow> buf_sys \<Rightarrow> buf_sys run" where
  "shuso_buffer_cleanup link s =
     (if \<not> bl_have_cleanup (bs_link s link) then Done s
      else
        (let lnc = bs_cleanup s link in
         c_assert (cl_fn lnc \<noteq> 0)
           (Done (s\<lparr>bs_cleaned := bs_cleaned s @ [(cl_fn lnc, link, cl_privdata lnc)]\<rparr>))))"

definition shuso_buffer_free :: "buffer \<Rightarrow> addr \<Rightarrow> buf_sys \<Rightarrow> buf_sys run" where
  "shuso_buffer_free buf link s =
     c_assert (buf_head buf \<noteq> link \<and> buf_tail buf \<noteq> link)
       (run_bind (shuso_buffer_cleanup link s)
         (\<lambda>s. let mtype = bl_memory_type (bs_link s link);
                  mtype = (if mtype = SHUSO_BUF_DEFAULT then buf_memory_type buf else mtype)
              in case mtype of
                   SHUSO_BUF_HEAP \<Rightarrow>
                     Done (s\<lparr>bs_pool := (bs_pool s)\<lparr>live := c_free link (live (bs_pool s))\<rparr>\<rparr>)
                 | SHUSO_BUF_POOL \<Rightarrow> Done s
                 | SHUSO_BUF_FIXED \<Rightarrow> Done s
                 | SHUSO_BUF_SHARED \<Rightarrow>
                     run_bind (shuso_shared_slab_free (bs_shm s) link) (\<lambda>m. Done (s\<lparr>bs_shm := m\<rparr>))
                 | _ \<Rightarrow> Abort))"

definition shuso_buffer_queue :: "addr \<Rightarrow> buffer \<times> buf_sys \<Rightarrow> buffer \<times> buf_sys" where
  "shuso_buffer_queue link x =
     (let (buf, s) = x; last = buf_tail buf;
          buf = (if buf_head buf = 0 then buf\<lparr>buf_head := link\<rparr> else buf);
          s = (if last \<noteq> 0
               then s\<lparr>bs_link := (bs_link s)(last := (bs_link s last)\<lparr>bl_next := link\<rparr>)\<rparr> else s)
      in (buf\<lparr>buf_tail := link\<rparr>, s))"

definition shuso_buffer_dequeue :: "buffer \<times> buf_sys \<Rightarrow> addr \<times> (buffer \<times> buf_sys)" where
  "shuso_buffer_dequeue x =
     (let (buf, s) = x; link = buf_head buf in
      if link = 0 then (0, (buf, s))
      else
        (let buf = buf\<lparr>buf_head := bl_next (bs_link s link)\<rparr>;
             buf = (if buf_tail buf = link then buf\<lparr>buf_tail := 0\<rparr> else buf)
         in (link, (buf, s))))"

definition shuso_buffer_last :: "buffer \<Rightarrow> addr" where
  "shuso_buffer_last buf = buf_tail buf"

definition shuso_buffer_next :: "buffer \<Rightarrow> addr" where
  "shuso_buffer_next buf = buf_head buf"

text \<open>Sizes of the structures on a 64-bit machine; \<^verbatim>\<open>CMSG_SPACE(sizeof(int))\<close> is 24.\<close>

definition sizeof_link :: nat where "sizeof_link = 32"

definition sizeof_link_with_cleanup :: nat where "sizeof_link_with_cleanup = 48"

definition sizeof_iovec :: nat where "sizeof_iovec = 16"

definition sizeof_msghdr :: nat where "sizeof_msghdr = 56"

definition sizeof_msgblob :: nat where "sizeof_msgblob = 96"

abbreviation set_link :: "addr \<Rightarrow> buffer_link \<Rightarrow> buf_sys \<Rightarrow> buf_sys" where
  "set_link a l s \<equiv> s\<lparr>bs_link := (bs_link s)(a := l)\<rparr>"

definition shuso_buffer_add_charbuf ::
  "malloc_fn \<Rightarrow> int \<Rightarrow> nat \<Rightarrow> buffer \<times> buf_sys \<Rightarrow> (addr \<times> (buffer \<times> buf_sys)) run"
where
  "shuso_buffer_add_charbuf mal errno len x =
     (let (buf, s) = x; sz = (sizeof_link + len) mod 2 ^ 64 in
      run_bind (shuso_buffer_allocate mal errno buf sz s)
        (\<lambda>(link, s). if link = 0 then Done (0, (buf, s))
           else
             (let charbuf = link + sizeof_link;
                  s = set_link link \<lparr>bl_data = charbuf, bl_num = int len, bl_data_type = SHUSO_BUF_CHARBUF,
                        bl_memory_type = SHUSO_BUF_DEFAULT, bl_have_cleanup = False, bl_next = 0\<rparr> s
              in Done (charbuf, shuso_buffer_queue link (buf, s)))))"

text \<open>The number of vectors is an \<^verbatim>\<open>int\<close>, multiplied as a \<^verbatim>\<open>size_t\<close>.\<close>

definition shuso_buffer_add_iovec ::
  "malloc_fn \<Rightarrow> int \<Rightarrow> int \<Rightarrow> buffer \<times> buf_sys \<Rightarrow> (addr \<times> (buffer \<times> buf_sys)) run"
where
  "shuso_buffer_add_iovec mal errno iovcnt x =
     (let (buf, s) = x; sz = nat ((int sizeof_link + int sizeof_iovec * iovcnt) mod 2 ^ 64) in
      run_bind (shuso_buffer_allocate mal errno buf sz s)
        (\<lambda>(link, s). if link = 0 then Done (0, (buf, s))
           else
             (let iov = link + sizeof_link;
                  s = set_link link \<lparr>bl_data = iov, bl_num = iovcnt, bl_data_type = SHUSO_BUF_IOVEC,
                        bl_memory_type = SHUSO_BUF_DEFAULT, bl_have_cleanup = False, bl_next = 0\<rparr> s
              in Done (iov, shuso_buffer_queue link (buf, s)))))"

definition shuso_buffer_add_msg_fd_with_cleanup ::
  "malloc_fn \<Rightarrow> int \<Rightarrow> int \<Rightarrow> nat \<Rightarrow> addr \<Rightarrow> addr \<Rightarrow> buffer \<times> buf_sys \<Rightarrow>
   (addr \<times> (buffer \<times> buf_sys)) run"
where
  "shuso_buffer_add_msg_fd_with_cleanup mal errno fd data_sz cleanup cleanup_pd x =
     (let (buf, s) = x;
          header = (if cleanup \<noteq> 0 then sizeof_link_with_cleanup else sizeof_link);
          sz = (header + sizeof_msgblob + data_sz) mod 2 ^ 64
      in run_bind (shuso_buffer_allocate mal errno buf sz s)
        (\<lambda>(link, s). if link = 0 then Done (0, (buf, s))
           else
             (let s = (if cleanup \<noteq> 0
                       then s\<lparr>bs_cleanup := (bs_cleanup s)(link := \<lparr>cl_fn = cleanup, cl_privdata = cleanup_pd\<rparr>)\<rparr>
                       else s);
                  msgblob = link + header;
                  msg = msgblob;
                  iov_base = msgblob + sizeof_msgblob;
                  s = s\<lparr>bs_msg := (bs_msg s)(msg :=
                        \<lparr>mb_iov = msgblob + sizeof_msghdr, mb_iovlen = 1,
                         mb_control = msgblob + sizeof_msghdr + sizeof_iovec, mb_controllen = 24,
                         mb_cmsg_len = 20, mb_fd = fd, mb_iov_base = iov_base, mb_iov_len = data_sz\<rparr>)\<rparr>;
                  s = set_link link \<lparr>bl_data = msg, bl_num = 0, bl_data_type = SHUSO_BUF_IOVEC,
                        bl_memory_type = SHUSO_BUF_DEFAULT, bl_have_cleanup = (cleanup \<noteq> 0), bl_next = 0\<rparr> s
              in Done (iov_base, shuso_buffer_queue link (buf, s)))))"

definition shuso_buffer_add_msg_fd ::
  "malloc_fn \<Rightarrow> int \<Rightarrow> int \<Rightarrow> nat \<Rightarrow> buffer \<times> buf_sys \<Rightarrow> (addr \<times> (buffer \<times> buf_sys)) run"
where
  "shuso_buffer_add_msg_fd mal errno fd data_sz x =
     shuso_buffer_add_msg_fd_with_cleanup mal errno fd data_sz 0 0 x"

definition shuso_buffer_link_init_msg :: "addr \<Rightarrow> addr \<Rightarrow> int \<Rightarrow> buf_sys \<Rightarrow> buf_sys" where
  "shuso_buffer_link_init_msg link msg flags s =
     set_link link \<lparr>bl_data = msg, bl_num = flags, bl_data_type = SHUSO_BUF_MSGHDR,
       bl_memory_type = SHUSO_BUF_EXTERNAL, bl_have_cleanup = False, bl_next = 0\<rparr> s"

definition shuso_buffer_link_init_charbuf :: "addr \<Rightarrow> addr \<Rightarrow> nat \<Rightarrow> buf_sys \<Rightarrow> buf_sys" where
  "shuso_buffer_link_init_charbuf link charbuf len s =
     set_link link \<lparr>bl_data = charbuf, bl_num = int len, bl_data_type = SHUSO_BUF_CHARBUF,
       bl_memory_type = SHUSO_BUF_EXTERNAL, bl_have_cleanup = False, bl_next = 0\<rparr> s"

definition shuso_buffer_link_init_shuso_str :: "addr \<Rightarrow> addr \<times> nat \<Rightarrow> buf_sys \<Rightarrow> buf_sys" where
  "shuso_buffer_link_init_shuso_str link str s =
     set_link link \<lparr>bl_data = fst str, bl_num = int (snd str), bl_data_type = SHUSO_BUF_CHARBUF,
       bl_memory_type = SHUSO_BUF_EXTERNAL, bl_have_cleanup = False, bl_next = 0\<rparr> s"

definition shuso_buffer_link_init_iovec :: "addr \<Rightarrow> addr \<Rightarrow> int \<Rightarrow> buf_sys \<Rightarrow> buf_sys" where
  "shuso_buffer_link_init_iovec link iov iovcnt s =
     set_link link \<lparr>bl_data = iov, bl_num = iovcnt, bl_data_type = SHUSO_BUF_IOVEC,
       bl_memory_type = SHUSO_BUF_EXTERNAL, bl_have_cleanup = False, bl_next = 0\<rparr> s"

section \<open>The queue of links\<close>

definition buffer_rep :: "buffer \<times> buf_sys \<Rightarrow> addr list \<Rightarrow> bool" where
  "buffer_rep x xs \<longleftrightarrow>
     chain (\<lambda>a. bl_next (bs_link (snd x) a)) (buf_head (fst x)) xs \<and> distinct xs \<and>
     buf_tail (fst x) = (if xs = [] then 0 else last xs)"

definition link_ready :: "buffer \<times> buf_sys \<Rightarrow> addr \<Rightarrow> bool" where
  "link_ready x a \<longleftrightarrow> a \<noteq> 0 \<and> bl_next (bs_link (snd x) a) = 0"

definition buffer_deq :: "buffer \<times> buf_sys \<Rightarrow> addr option \<times> (buffer \<times> buf_sys)" where
  "buffer_deq x = (case shuso_buffer_dequeue x of (a, y) \<Rightarrow> (if a = 0 then None else Some a, y))"

lemma queue_rep:
  assumes rep: "buffer_rep x xs" and ready: "link_ready x a" and new: "a \<notin> set xs"
  shows "buffer_rep (shuso_buffer_queue a x) (xs @ [a])"
proof (cases "xs = []")
  case True
  then show ?thesis using rep ready
    by (auto simp: buffer_rep_def link_ready_def shuso_buffer_queue_def Let_def split: prod.splits)
next
  case False
  obtain buf s where x: "x = (buf, s)" by (cases x)
  let ?n = "\<lambda>b. bl_next (bs_link s b)" and ?n' = "\<lambda>b. bl_next (bs_link (snd (shuso_buffer_queue a x)) b)"
  have c: "chain ?n (buf_head buf) xs" "distinct xs" "buf_tail buf = last xs"
    using rep False x by (auto simp: buffer_rep_def)
  have t: "last xs \<noteq> 0" using chain_nonnull [OF c(1)] False by (metis last_in_set)
  have h: "buf_head buf \<noteq> 0" using c(1) False by (cases xs) auto
  have n': "?n' b = (if b = last xs then a else ?n b)" for b
    using t c(3) x by (simp add: shuso_buffer_queue_def Let_def)
  have "a \<noteq> last xs" using new False by auto
  then have "chain ?n' (buf_head buf) (xs @ [a])"
    using chain_snoc [OF c(1) False c(2) new, of ?n'] ready n' x by (simp add: link_ready_def)
  then show ?thesis using c new h x by (auto simp: buffer_rep_def shuso_buffer_queue_def Let_def)
qed

lemma dequeue_cons:
  assumes "buffer_rep x (a # xs)"
  shows "fst (shuso_buffer_dequeue x) = a" "a \<noteq> 0" "buffer_rep (snd (shuso_buffer_dequeue x)) xs"
    "bs_link (snd (snd (shuso_buffer_dequeue x))) = bs_link (snd x)"
  using assms by (auto simp: buffer_rep_def shuso_buffer_dequeue_def Let_def split: prod.splits if_splits)

interpretation buffer: fifo_queue shuso_buffer_queue buffer_deq buffer_rep link_ready
proof unfold_locales
  fix q xs x assume "buffer_rep q xs" "link_ready q x" "x \<notin> set xs"
  then show "buffer_rep (shuso_buffer_queue x q) (xs @ [x])" by (rule queue_rep)
next
  fix q assume "buffer_rep q []"
  then show "buffer_deq q = (None, q)"
    by (cases q) (auto simp: buffer_rep_def buffer_deq_def shuso_buffer_dequeue_def)
next
  fix q x xs assume "buffer_rep q (x # xs)"
  from dequeue_cons [OF this] show "fst (buffer_deq q) = Some x \<and> buffer_rep (snd (buffer_deq q)) xs"
    by (simp add: buffer_deq_def case_prod_beta)
next
  fix q xs y x assume "buffer_rep q xs" "y \<notin> set xs" "link_ready q y"
  then show "link_ready (shuso_buffer_queue x q) y"
    by (auto simp: link_ready_def buffer_rep_def shuso_buffer_queue_def Let_def split: prod.splits if_splits)
next
  fix q y assume "link_ready q y"
  then show "link_ready (snd (buffer_deq q)) y"
    by (auto simp: link_ready_def buffer_deq_def shuso_buffer_dequeue_def Let_def split: prod.splits)
qed

section \<open>The memory of a buffer\<close>

text \<open>
  What a buffer may rely on of its allocator: the blocks it holds are blocks of the heap, of
  the pool or of the slab.
\<close>

definition buffer_holds :: "malloc_fn \<times> int \<times> buffer \<times> buf_sys \<Rightarrow> block list \<Rightarrow> bool" where
  "buffer_holds x bs \<longleftrightarrow> (case x of (mal, errno, buf, s) \<Rightarrow>
     malloc_sound mal \<and>
     (case buf_memory_type buf of
        SHUSO_BUF_HEAP \<Rightarrow> set bs \<subseteq> set (live (bs_pool s)) \<and> disjoint_blocks bs
      | SHUSO_BUF_POOL \<Rightarrow> \<exists>us. pool_inv (bs_pool s) (bs @ us)
      | SHUSO_BUF_SHARED \<Rightarrow> slab_holds (shm_pool (bs_shm s)) bs \<and> \<not> shm_locked (bs_shm s)
      | _ \<Rightarrow> False))"

definition buffer_alloc ::
  "malloc_fn \<times> int \<times> buffer \<times> buf_sys \<Rightarrow> nat \<Rightarrow> (addr \<times> (malloc_fn \<times> int \<times> buffer \<times> buf_sys)) run"
where
  "buffer_alloc x sz = (case x of (mal, errno, buf, s) \<Rightarrow>
     run_bind (shuso_buffer_allocate mal errno buf sz s) (\<lambda>(a, s). Done (a, (mal, errno, buf, s))))"

lemma buffer_allocate_ok:
  assumes holds: "buffer_holds (mal, errno, buf, s) bs" and sz: "sz < 2 ^ 62"
  shows "\<exists>a t. shuso_buffer_allocate mal errno buf sz s = Done (a, t) \<and>
    buffer_holds (mal, errno, buf, t) (if a = 0 then bs else (a, sz) # bs) \<and>
    bs_link t = bs_link s \<and> bs_msg t = bs_msg s \<and> bs_cleanup t = bs_cleanup s \<and> bs_cleaned t = bs_cleaned s \<and>
    (a = 0 \<longrightarrow> error_count (bs_S t) = error_count (bs_S s) + 1) \<and> (a \<noteq> 0 \<longrightarrow> bs_S t = bs_S s)"
proof -
  have mal: "malloc_sound mal" using holds by (simp add: buffer_holds_def)
  have err: "error_count (snd (shuso_set_error_errno e m S)) = error_count S + 1" for e m S
    by (simp add: shuso_set_error_errno_def shuso_set_error_internal_vararg_def Let_def emit_def)
  consider (heap) "buf_memory_type buf = SHUSO_BUF_HEAP" | (pool) "buf_memory_type buf = SHUSO_BUF_POOL"
    | (shared) "buf_memory_type buf = SHUSO_BUF_SHARED"
    using holds by (cases "buf_memory_type buf") (auto simp: buffer_holds_def)
  then show ?thesis
  proof cases
    case heap
    let ?a = "mal (live (bs_pool s)) sz"
    have "?a \<noteq> 0 \<Longrightarrow> \<forall>b \<in> set (live (bs_pool s)). block_disjoint (?a, sz) b"
      using mal by (simp add: malloc_sound_def)
    then show ?thesis using holds heap mal err
      by (cases "?a = 0")
        (auto simp: buffer_holds_def shuso_buffer_allocate_def c_malloc_def Let_def)
  next
    case pool
    then obtain us where us: "pool_inv (bs_pool s) (bs @ us)" using holds by (auto simp: buffer_holds_def)
    obtain a q where a: "palloc_with_alignment mal (bs_pool s) sz True = Done (a, q)"
      "pool_inv q (if a = 0 then bs @ us else (a, sz) # bs @ us)"
      using pool.alloc_ok [of "(mal, bs_pool s)" "bs @ us" "(sz, True)"] mal us sz
      by (auto simp: pool_valid_def run_bind_Done_iff cong: if_cong)
    then show ?thesis using pool mal us err
      by (intro exI [of _ a]) (auto simp: buffer_holds_def shuso_buffer_allocate_def shuso_palloc_def split: if_splits)
  next
    case shared
    let ?m = "bs_shm s"
    have h: "slab_holds (shm_pool ?m) bs" "\<not> shm_locked ?m" using holds shared by (auto simp: buffer_holds_def)
    obtain a p where a: "ngx_slab_alloc_locked (shm_pool ?m) sz = Done (a, p)"
      "slab_holds p (if a = 0 then bs else (a, sz) # bs)"
      using slab.alloc_ok [OF h(1), of sz] by blast
    have "shuso_shared_slab_alloc ?m sz = Done (a, ?m\<lparr>shm_pool := p, shm_locked := False\<rparr>)"
      using a h by (simp add: shuso_shared_slab_alloc_def shuso_shared_slab_lock_def
          shuso_shared_slab_alloc_locked_def shuso_shared_slab_unlock_def)
    then show ?thesis using shared mal a err
      by (intro exI [of _ a]) (auto simp: buffer_holds_def shuso_buffer_allocate_def)
  qed
qed

lemma buffer_holds_disjoint:
  assumes "buffer_holds x bs"
  shows "disjoint_blocks bs"
proof (cases x)
  case (fields mal errno buf s)
  then show ?thesis using assms slab_holds_disjoint
    by (cases "buf_memory_type buf")
      (auto simp: buffer_holds_def pool_inv_def pool_mem_inv_def sorted_wrt_append)
qed

interpretation buffer_memory: allocator buffer_alloc "\<lambda>sz. sz" "\<lambda>sz. sz < 2 ^ 62" buffer_holds
proof unfold_locales
  fix x bs and sz :: nat assume h: "buffer_holds x bs" "sz < 2 ^ 62"
  obtain mal errno buf s where x: "x = (mal, errno, buf, s)" by (cases x)
  from buffer_allocate_ok [OF h(1) [unfolded x] h(2)]
  show "\<exists>a t. buffer_alloc x sz = Done (a, t) \<and> buffer_holds t (if a = 0 then bs else (a, sz) # bs)"
    by (auto simp: buffer_alloc_def x)
qed (rule buffer_holds_disjoint)

section \<open>Adding to a buffer\<close>

text \<open>Every queued link is the start of a block that the buffer holds and that has room for it.\<close>

definition buffer_inv :: "malloc_fn \<Rightarrow> buffer \<times> buf_sys \<Rightarrow> addr list \<Rightarrow> block list \<Rightarrow> bool" where
  "buffer_inv mal x xs bs \<longleftrightarrow>
     buffer_rep x xs \<and> buffer_holds (mal, 0, x) bs \<and> (\<forall>a \<in> set xs. \<exists>n \<ge> sizeof_link. (a, n) \<in> set bs)"

lemma buffer_holds_cong:
  "bs_pool t = bs_pool s \<Longrightarrow> bs_shm t = bs_shm s \<Longrightarrow> buf_memory_type b = buf_memory_type c \<Longrightarrow>
   buffer_holds (mal, e, b, t) bs = buffer_holds (mal, e', c, s) bs"
  by (cases "buf_memory_type c") (simp_all add: buffer_holds_def)

lemma buffer_rep_cong: "bs_link t = bs_link s \<Longrightarrow> buffer_rep (b, t) xs = buffer_rep (b, s) xs"
  by (simp add: buffer_rep_def)

lemma buffer_inv_cong:
  "bs_pool t = bs_pool s \<Longrightarrow> bs_shm t = bs_shm s \<Longrightarrow> bs_link t = bs_link s \<Longrightarrow>
   buffer_inv mal (b, t) xs bs = buffer_inv mal (b, s) xs bs"
  using buffer_holds_cong [of t s b b mal 0 bs 0] buffer_rep_cong [of t s b xs] by (simp add: buffer_inv_def)

lemma queue_keeps:
  "buf_memory_type (fst (shuso_buffer_queue a (b, s))) = buf_memory_type b"
  "bs_pool (snd (shuso_buffer_queue a (b, s))) = bs_pool s"
  "bs_shm (snd (shuso_buffer_queue a (b, s))) = bs_shm s"
  "bs_msg (snd (shuso_buffer_queue a (b, s))) = bs_msg s"
  "bs_cleanup (snd (shuso_buffer_queue a (b, s))) = bs_cleanup s"
  "bs_S (snd (shuso_buffer_queue a (b, s))) = bs_S s"
  "bs_cleaned (snd (shuso_buffer_queue a (b, s))) = bs_cleaned s"
  "a \<noteq> buf_tail b \<Longrightarrow> bs_link (snd (shuso_buffer_queue a (b, s))) a = bs_link s a"
  by (simp_all add: shuso_buffer_queue_def Let_def)

text \<open>What a link says of its memory and contents; queueing other links does not change it.\<close>

definition link_info :: "buffer_link \<Rightarrow> addr \<times> int \<times> shuso_buffer_data_type \<times> shuso_buffer_memory_type \<times> bool" where
  "link_info l = (bl_data l, bl_num l, bl_data_type l, bl_memory_type l, bl_have_cleanup l)"

lemma queue_link_info: "link_info (bs_link (snd (shuso_buffer_queue a (b, s))) c) = link_info (bs_link s c)"
  by (simp add: link_info_def shuso_buffer_queue_def Let_def)

text \<open>
  The step that all the functions share: a block is allocated, a link with a null
  \<^verbatim>\<open>next\<close> is written to its start, and the link is queued.
\<close>

lemma buffer_add_link:
  assumes inv: "buffer_inv mal (buf, s) xs bs" and holds: "buffer_holds (mal, 0, buf, t) ((a, sz) # bs)"
    and a: "a \<noteq> 0" and sz: "sizeof_link \<le> sz"
    and t: "bs_link u = (bs_link s)(a := l)" "bl_next l = 0" "bs_pool u = bs_pool t" "bs_shm u = bs_shm t"
  shows "buffer_inv mal (shuso_buffer_queue a (buf, u)) (xs @ [a]) ((a, sz) # bs)"
    and "bs_link (snd (shuso_buffer_queue a (buf, u))) a = l"
proof -
  have d: "disjoint_blocks ((a, sz) # bs)" using buffer_holds_disjoint [OF holds] .
  have new: "a \<notin> set xs"
  proof
    assume "a \<in> set xs"
    then obtain n where n: "sizeof_link \<le> n" "(a, n) \<in> set bs" using inv by (auto simp: buffer_inv_def)
    then have "block_disjoint (a, sz) (a, n)" using d by auto
    then show False using sz n(1) by (simp add: block_disjoint_def sizeof_link_def)
  qed
  have rs: "buffer_rep (buf, s) xs" using inv by (simp add: buffer_inv_def)
  have "chain (\<lambda>b. bl_next (bs_link u b)) (buf_head buf) xs =
      chain (\<lambda>b. bl_next (bs_link s b)) (buf_head buf) xs"
    using new t(1) by (intro chain_cong) auto
  then have "buffer_rep (buf, u) xs" using rs by (simp add: buffer_rep_def)
  moreover have "link_ready (buf, u) a" using a t(1,2) by (simp add: link_ready_def)
  ultimately have r: "buffer_rep (shuso_buffer_queue a (buf, u)) (xs @ [a])" using new by (rule queue_rep)
  have "buffer_holds (mal, 0, shuso_buffer_queue a (buf, u)) ((a, sz) # bs)"
  proof (cases "shuso_buffer_queue a (buf, u)")
    case (Pair b v)
    have k: "buf_memory_type b = buf_memory_type buf" "bs_pool v = bs_pool t" "bs_shm v = bs_shm t"
      using queue_keeps(1-3) [of a buf u] t(3,4) by (simp_all add: Pair)
    show ?thesis using holds buffer_holds_cong [OF k(2,3,1), of mal 0 _ 0] by (simp add: Pair)
  qed
  then show "buffer_inv mal (shuso_buffer_queue a (buf, u)) (xs @ [a]) ((a, sz) # bs)"
    using r sz inv by (auto simp: buffer_inv_def)
  have "a \<noteq> buf_tail buf" using rs new a by (auto simp: buffer_rep_def)
  then show "bs_link (snd (shuso_buffer_queue a (buf, u))) a = l" using queue_keeps(8) t(1) by simp
qed

text \<open>What a refused or served request for a link of \<open>sz\<close> bytes leaves.\<close>

definition buffer_refused ::
  "malloc_fn \<Rightarrow> buffer \<times> buf_sys \<Rightarrow> addr list \<Rightarrow> block list \<Rightarrow> addr \<times> (buffer \<times> buf_sys) \<Rightarrow> bool"
where
  "buffer_refused mal x xs bs r \<longleftrightarrow>
     fst r = 0 \<and> fst (snd r) = fst x \<and> buffer_inv mal (snd r) xs bs \<and>
     bs_link (snd (snd r)) = bs_link (snd x) \<and> bs_msg (snd (snd r)) = bs_msg (snd x) \<and>
     error_count (bs_S (snd (snd r))) = error_count (bs_S (snd x)) + 1"

definition buffer_added ::
  "malloc_fn \<Rightarrow> buffer \<times> buf_sys \<Rightarrow> addr list \<Rightarrow> block list \<Rightarrow> nat \<Rightarrow> nat \<Rightarrow> buffer_link \<Rightarrow>
   addr \<Rightarrow> addr \<times> (buffer \<times> buf_sys) \<Rightarrow> bool"
where
  "buffer_added mal x xs bs sz off l a r \<longleftrightarrow>
     a \<noteq> 0 \<and> fst r = a + off \<and> buffer_inv mal (snd r) (xs @ [a]) ((a, sz) # bs) \<and>
     bs_link (snd (snd r)) a = l \<and> bs_S (snd (snd r)) = bs_S (snd x)"

lemma buffer_allocate_inv:
  assumes inv: "buffer_inv mal (buf, s) xs bs" and sz: "sz < 2 ^ 62"
  obtains (refused) t where "shuso_buffer_allocate mal e buf sz s = Done (0, t)" "bs_link t = bs_link s"
      "buffer_refused mal (buf, s) xs bs (0, (buf, t))"
    | (served) a t where "shuso_buffer_allocate mal e buf sz s = Done (a, t)" "a \<noteq> 0"
      "buffer_holds (mal, 0, buf, t) ((a, sz) # bs)" "bs_link t = bs_link s" "bs_S t = bs_S s"
      "bs_msg t = bs_msg s" "bs_cleanup t = bs_cleanup s"
proof -
  have h: "buffer_holds (mal, e, buf, s) bs"
    using inv buffer_holds_cong [OF refl refl refl, of mal e buf s bs 0] by (simp add: buffer_inv_def)
  obtain a t where t: "shuso_buffer_allocate mal e buf sz s = Done (a, t)"
    "buffer_holds (mal, e, buf, t) (if a = 0 then bs else (a, sz) # bs)"
    "bs_link t = bs_link s" "bs_msg t = bs_msg s" "bs_cleanup t = bs_cleanup s"
    "a = 0 \<longrightarrow> error_count (bs_S t) = error_count (bs_S s) + 1" "a \<noteq> 0 \<longrightarrow> bs_S t = bs_S s"
    using buffer_allocate_ok [OF h sz] by blast
  have h0: "buffer_holds (mal, 0, buf, t) (if a = 0 then bs else (a, sz) # bs)"
    using t(2) buffer_holds_cong [OF refl refl refl, of mal 0 buf t _ e] by simp
  show thesis
  proof (cases "a = 0")
    case True
    then have "buffer_refused mal (buf, s) xs bs (0, (buf, t))"
      using inv t(3,4,6) h0 buffer_rep_cong [OF t(3)] by (simp add: buffer_refused_def buffer_inv_def)
    then show ?thesis using True t(1,3) by (intro refused) simp_all
  next
    case False
    then show ?thesis using served [of a t] t h0 by simp
  qed
qed

lemma buffer_add_charbuf_ok:
  assumes inv: "buffer_inv mal x xs bs" and len: "len < 2 ^ 61"
  shows "\<exists>r. shuso_buffer_add_charbuf mal e len x = Done r \<and>
    (buffer_refused mal x xs bs r \<or>
     (\<exists>a. buffer_added mal x xs bs (sizeof_link + len) sizeof_link
        \<lparr>bl_data = a + sizeof_link, bl_num = int len, bl_data_type = SHUSO_BUF_CHARBUF,
         bl_memory_type = SHUSO_BUF_DEFAULT, bl_have_cleanup = False, bl_next = 0\<rparr> a r))"
proof (cases x)
  case (Pair buf s)
  let ?sz = "sizeof_link + len"
  have sz: "?sz < 2 ^ 62" "?sz mod 2 ^ 64 = ?sz" using len by (simp_all add: sizeof_link_def)
  show ?thesis
    using inv [unfolded Pair] sz(1)
  proof (cases rule: buffer_allocate_inv [where e = e])
    case (refused t)
    have "shuso_buffer_add_charbuf mal e len x = Done (0, (buf, t))"
      using refused(1) sz(2) by (simp add: shuso_buffer_add_charbuf_def Let_def Pair)
    then show ?thesis using refused(3) by (simp add: Pair)
  next
    case (served a t)
    let ?l = "\<lparr>bl_data = a + sizeof_link, bl_num = int len, bl_data_type = SHUSO_BUF_CHARBUF,
         bl_memory_type = SHUSO_BUF_DEFAULT, bl_have_cleanup = False, bl_next = 0\<rparr>"
    have run: "shuso_buffer_add_charbuf mal e len x = Done (a + sizeof_link, shuso_buffer_queue a (buf, set_link a ?l t))"
      using served(1,2) sz(2) by (simp add: shuso_buffer_add_charbuf_def Let_def Pair)
    note add = buffer_add_link [OF inv [unfolded Pair] served(3,2) _, of "set_link a ?l t" ?l]
    show ?thesis unfolding run
      using add served by (auto simp: buffer_added_def Pair queue_keeps)
  qed
qed

lemma buffer_add_iovec_ok:
  assumes inv: "buffer_inv mal x xs bs" and n: "0 \<le> n" "n < 2 ^ 31"
  shows "\<exists>r. shuso_buffer_add_iovec mal e n x = Done r \<and>
    (buffer_refused mal x xs bs r \<or>
     (\<exists>a. buffer_added mal x xs bs (sizeof_link + sizeof_iovec * nat n) sizeof_link
        \<lparr>bl_data = a + sizeof_link, bl_num = n, bl_data_type = SHUSO_BUF_IOVEC,
         bl_memory_type = SHUSO_BUF_DEFAULT, bl_have_cleanup = False, bl_next = 0\<rparr> a r))"
proof (cases x)
  case (Pair buf s)
  let ?sz = "sizeof_link + sizeof_iovec * nat n"
  have "(int sizeof_link + int sizeof_iovec * n) mod 2 ^ 64 = int sizeof_link + int sizeof_iovec * n"
    using n by (intro mod_pos_pos_trivial) (simp_all add: sizeof_link_def sizeof_iovec_def)
  then have sz: "?sz < 2 ^ 62" "nat ((int sizeof_link + int sizeof_iovec * n) mod 2 ^ 64) = ?sz"
    using n by (simp_all add: sizeof_link_def sizeof_iovec_def nat_add_distrib nat_mult_distrib)
  show ?thesis
    using inv [unfolded Pair] sz(1)
  proof (cases rule: buffer_allocate_inv [where e = e])
    case (refused t)
    have "shuso_buffer_add_iovec mal e n x = Done (0, (buf, t))"
      using refused(1) sz(2) by (simp add: shuso_buffer_add_iovec_def Let_def Pair)
    then show ?thesis using refused(3) by (simp add: Pair)
  next
    case (served a t)
    let ?l = "\<lparr>bl_data = a + sizeof_link, bl_num = n, bl_data_type = SHUSO_BUF_IOVEC,
         bl_memory_type = SHUSO_BUF_DEFAULT, bl_have_cleanup = False, bl_next = 0\<rparr>"
    have run: "shuso_buffer_add_iovec mal e n x = Done (a + sizeof_link, shuso_buffer_queue a (buf, set_link a ?l t))"
      using served(1,2) sz(2) by (simp add: shuso_buffer_add_iovec_def Let_def Pair)
    note add = buffer_add_link [OF inv [unfolded Pair] served(3,2) _, of "set_link a ?l t" ?l]
    show ?thesis unfolding run
      using add served by (auto simp: buffer_added_def Pair queue_keeps)
  qed
qed

lemma buffer_add_msg_fd_ok:
  assumes inv: "buffer_inv mal x xs bs" and len: "len < 2 ^ 61"
    and off: "off = (if cleanup \<noteq> 0 then sizeof_link_with_cleanup else sizeof_link)"
  shows "\<exists>r. shuso_buffer_add_msg_fd_with_cleanup mal e fd len cleanup pd x = Done r \<and>
    (buffer_refused mal x xs bs r \<or>
     (\<exists>a. buffer_added mal x xs bs (off + sizeof_msgblob + len) (off + sizeof_msgblob)
        \<lparr>bl_data = a + off, bl_num = 0, bl_data_type = SHUSO_BUF_IOVEC,
         bl_memory_type = SHUSO_BUF_DEFAULT, bl_have_cleanup = (cleanup \<noteq> 0), bl_next = 0\<rparr> a r \<and>
        mb_fd (bs_msg (snd (snd r)) (a + off)) = fd \<and>
        mb_iov_base (bs_msg (snd (snd r)) (a + off)) = a + off + sizeof_msgblob \<and>
        mb_iov_len (bs_msg (snd (snd r)) (a + off)) = len \<and>
        (cleanup \<noteq> 0 \<longrightarrow> bs_cleanup (snd (snd r)) a = \<lparr>cl_fn = cleanup, cl_privdata = pd\<rparr>) \<and>
        (\<forall>c. c \<noteq> a \<longrightarrow> link_info (bs_link (snd (snd r)) c) = link_info (bs_link (snd x) c)) \<and>
        (\<forall>c. c \<noteq> a + off \<longrightarrow> bs_msg (snd (snd r)) c = bs_msg (snd x) c)))"
proof (cases x)
  case (Pair buf s)
  let ?sz = "off + sizeof_msgblob + len"
  have off32: "sizeof_link \<le> off" using off by (simp add: sizeof_link_def sizeof_link_with_cleanup_def)
  have sz: "?sz < 2 ^ 62" "?sz mod 2 ^ 64 = ?sz" using len off
    by (auto simp: sizeof_link_def sizeof_link_with_cleanup_def sizeof_msgblob_def)
  show ?thesis
    using inv [unfolded Pair] sz(1)
  proof (cases rule: buffer_allocate_inv [where e = e])
    case (refused t)
    have "shuso_buffer_add_msg_fd_with_cleanup mal e fd len cleanup pd x = Done (0, (buf, t))"
      using refused(1) sz(2) off by (simp add: shuso_buffer_add_msg_fd_with_cleanup_def Let_def Pair)
    then show ?thesis using refused(3) by (simp add: Pair)
  next
    case (served a t)
    let ?l = "\<lparr>bl_data = a + off, bl_num = 0, bl_data_type = SHUSO_BUF_IOVEC,
         bl_memory_type = SHUSO_BUF_DEFAULT, bl_have_cleanup = (cleanup \<noteq> 0), bl_next = 0\<rparr>"
    let ?t = "if cleanup \<noteq> 0 then t\<lparr>bs_cleanup := (bs_cleanup t)(a := \<lparr>cl_fn = cleanup, cl_privdata = pd\<rparr>)\<rparr> else t"
    define u where "u = set_link a ?l (?t\<lparr>bs_msg := (bs_msg ?t)(a + off :=
        \<lparr>mb_iov = a + off + sizeof_msghdr, mb_iovlen = 1, mb_control = a + off + sizeof_msghdr + sizeof_iovec,
         mb_controllen = 24, mb_cmsg_len = 20, mb_fd = fd, mb_iov_base = a + off + sizeof_msgblob,
         mb_iov_len = len\<rparr>)\<rparr>)"
    have u: "bs_link u = (bs_link s)(a := ?l)" "bs_pool u = bs_pool t" "bs_shm u = bs_shm t" "bs_S u = bs_S s"
      "mb_fd (bs_msg u (a + off)) = fd" "mb_iov_base (bs_msg u (a + off)) = a + off + sizeof_msgblob"
      "mb_iov_len (bs_msg u (a + off)) = len"
      "cleanup \<noteq> 0 \<longrightarrow> bs_cleanup u a = \<lparr>cl_fn = cleanup, cl_privdata = pd\<rparr>"
      "\<forall>c. c \<noteq> a + off \<longrightarrow> bs_msg u c = bs_msg s c"
      using served by (simp_all add: u_def)
    have run: "shuso_buffer_add_msg_fd_with_cleanup mal e fd len cleanup pd x =
        Done (a + off + sizeof_msgblob, shuso_buffer_queue a (buf, u))"
      unfolding shuso_buffer_add_msg_fd_with_cleanup_def Let_def Pair u_def
      using served(1,2) sz(2) off by (auto simp: add.assoc)
    have add: "buffer_inv mal (shuso_buffer_queue a (buf, u)) (xs @ [a]) ((a, ?sz) # bs)"
      "bs_link (snd (shuso_buffer_queue a (buf, u))) a = ?l"
      using buffer_add_link [OF inv [unfolded Pair] served(3,2) _ u(1) _ u(2,3)] off32 by simp_all
    then have "buffer_added mal x xs bs ?sz (off + sizeof_msgblob) ?l a (a + off + sizeof_msgblob, shuso_buffer_queue a (buf, u))"
      using served(2) u(4) by (simp add: buffer_added_def Pair queue_keeps)
    moreover have "\<forall>c. c \<noteq> a \<longrightarrow> link_info (bs_link (snd (shuso_buffer_queue a (buf, u))) c) = link_info (bs_link s c)"
      using u(1) by (simp add: queue_link_info)
    ultimately show ?thesis unfolding run using u Pair by (auto simp: queue_keeps)
  qed
qed

section \<open>Freeing a link\<close>

text \<open>A block of the heap that was added, taken off the queue and freed leaves the heap as it was.\<close>

lemma buffer_heap_free:
  assumes h: "buf_memory_type buf = SHUSO_BUF_HEAP" and a: "a \<noteq> buf_head buf" "a \<noteq> buf_tail buf"
    and l: "bl_memory_type (bs_link s a) = SHUSO_BUF_DEFAULT" "\<not> bl_have_cleanup (bs_link s a)"
    and lv: "live (bs_pool s) = (a, n) # bs" "a \<notin> fst ` set bs"
  shows "\<exists>t. shuso_buffer_free buf a s = Done t \<and> live (bs_pool t) = bs \<and> bs_link t = bs_link s"
proof -
  have "filter (\<lambda>b. fst b \<noteq> a) bs = bs" using lv(2) by (intro filter_True) auto
  then show ?thesis using assms by (simp add: shuso_buffer_free_def shuso_buffer_cleanup_def c_free_def)
qed

text \<open>
  A link whose memory the client brought itself (\<^verbatim>\<open>SHUSO_BUF_EXTERNAL\<close>) aborts the process
  when it is freed, after its cleanup has run.
\<close>

lemma buffer_free_external_aborts:
  "bl_memory_type (bs_link s a) = SHUSO_BUF_EXTERNAL \<Longrightarrow> shuso_buffer_free buf a s = Abort"
  by (cases "bl_have_cleanup (bs_link s a)")
    (auto simp: shuso_buffer_free_def shuso_buffer_cleanup_def c_assert_def Let_def)

section \<open>A link that is queued twice\<close>

lemma dequeue_closed:
  assumes "buf_head (fst x) \<in> A" and "0 \<notin> A" and "\<forall>a \<in> A. bl_next (bs_link (snd x) a) \<in> A"
  shows "fst (shuso_buffer_dequeue x) \<in> A" "buf_head (fst (snd (shuso_buffer_dequeue x))) \<in> A"
    "bs_link (snd (snd (shuso_buffer_dequeue x))) = bs_link (snd x)"
  using assms by (auto simp: shuso_buffer_dequeue_def Let_def split: prod.splits)

lemma dequeues_closed:
  fixes n :: nat
  assumes "buf_head (fst x) \<in> A" and "0 \<notin> A" and "\<forall>a \<in> A. bl_next (bs_link (snd x) a) \<in> A"
  defines "y \<equiv> ((\<lambda>z. snd (shuso_buffer_dequeue z)) ^^ n) x"
  shows "buf_head (fst y) \<in> A" "bs_link (snd y) = bs_link (snd x)"
proof -
  have "buf_head (fst y) \<in> A \<and> bs_link (snd y) = bs_link (snd x)"
    unfolding y_def
  proof (induction n)
    case (Suc n)
    then show ?case
      using dequeue_closed(2,3) [of "((\<lambda>z. snd (shuso_buffer_dequeue z)) ^^ n) x" A] assms by simp
  qed (use assms in simp)
  then show "buf_head (fst y) \<in> A" "bs_link (snd y) = bs_link (snd x)" by auto
qed

lemma chain_next_in:
  "chain nxt a xs \<Longrightarrow> x \<in> set xs \<Longrightarrow> x \<noteq> last xs \<Longrightarrow> nxt x \<in> set xs"
proof (induction xs arbitrary: a)
  case (Cons y ys)
  show ?case
  proof (cases "x = y")
    case True
    then show ?thesis using Cons.prems by (cases ys) auto
  next
    case False
    then have "x \<in> set ys" "x \<noteq> last ys" using Cons.prems by (cases ys; auto)+
    then show ?thesis using Cons by auto
  qed
qed simp

lemma requeue_closed:
  assumes rep: "buffer_rep x (a # b # xs)"
  defines "z \<equiv> shuso_buffer_queue a (snd (shuso_buffer_dequeue x))"
  shows "buf_head (fst z) \<in> set (a # b # xs)" "0 \<notin> set (a # b # xs)"
    "\<forall>c \<in> set (a # b # xs). bl_next (bs_link (snd z) c) \<in> set (a # b # xs)"
proof -
  let ?y = "snd (shuso_buffer_dequeue x)"
  note d = dequeue_cons [OF rep]
  have c: "chain (\<lambda>c. bl_next (bs_link (snd x) c)) a (a # b # xs)" using rep by (auto simp: buffer_rep_def)
  have t: "buf_tail (fst ?y) = last (b # xs)" "buf_head (fst ?y) = b" "b \<noteq> 0"
    using d(3) by (auto simp: buffer_rep_def)
  show zero: "0 \<notin> set (a # b # xs)" by (rule chain_nonnull [OF c])
  then have "last (b # xs) \<noteq> 0" by (metis last_in_set list.distinct(1) list.set_intros(2))
  then have n: "bl_next (bs_link (snd z) c) = (if c = last (b # xs) then a else bl_next (bs_link (snd x) c))" for c
    using t d(4) by (cases ?y) (simp add: z_def shuso_buffer_queue_def Let_def)
  show "buf_head (fst z) \<in> set (a # b # xs)"
    using t by (cases ?y) (simp add: z_def shuso_buffer_queue_def Let_def)
  show "\<forall>c \<in> set (a # b # xs). bl_next (bs_link (snd z) c) \<in> set (a # b # xs)"
  proof
    fix e assume e: "e \<in> set (a # b # xs)"
    show "bl_next (bs_link (snd z) e) \<in> set (a # b # xs)"
    proof (cases "e = last (b # xs)")
      case True
      then show ?thesis using n [of e] by simp
    next
      case False
      then have "e \<noteq> last (a # b # xs)" by simp
      then show ?thesis using n [of e] chain_next_in [OF c e] False by simp
    qed
  qed
qed

section \<open>Properties\<close>

definition example_buf_sys :: buf_sys where
  "example_buf_sys = \<lparr>bs_S = example_shuso 0, bs_pool = example_pool,
     bs_shm = \<lparr>shm_name = ''shm'', shm_ptr = 4096, shm_size = 65536, shm_pool = ngx_slab_init 4096 69632 3,
       shm_locked = False, shm_mem = (\<lambda>_. 0)\<rparr>,
     bs_link = (\<lambda>_. \<lparr>bl_data = 0, bl_num = 0, bl_data_type = SHUSO_BUF_CHARBUF,
       bl_memory_type = SHUSO_BUF_EXTERNAL, bl_have_cleanup = False, bl_next = 0\<rparr>),
     bs_cleanup = (\<lambda>_. \<lparr>cl_fn = 0, cl_privdata = 0\<rparr>),
     bs_msg = (\<lambda>_. \<lparr>mb_iov = 0, mb_iovlen = 0, mb_control = 0, mb_controllen = 0, mb_cmsg_len = 0, mb_fd = 0,
       mb_iov_base = 0, mb_iov_len = 0\<rparr>),
     bs_cleaned = []\<rparr>"

abbreviation example_buffer :: "shuso_buffer_memory_type \<Rightarrow> buffer" where
  "example_buffer t \<equiv> \<lparr>buf_head = 0, buf_tail = 0, buf_memory_type = t\<rparr>"

lemma example_buffer_rep: "buffer_rep (example_buffer t, example_buf_sys) []"
  by (simp add: buffer_rep_def)

lemma example_buffer_inv: "buffer_inv bump_malloc (example_buffer SHUSO_BUF_POOL, example_buf_sys) [] []"
  using example_pool_inv bump_malloc_sound example_buffer_rep
  by (auto simp: buffer_inv_def buffer_holds_def example_buf_sys_def)



text \<open>C9: Adding a character buffer to a consistent buffer of the heap, of a pool or of the shared
  slab never aborts.  If the allocator refuses, it returns null, sets one error and leaves the
  queue as it was; else the new link is the last one of the queue, in a block of its own, and
  the bytes returned directly follow it in that block.\<close>

theorem buffer_add_charbuf_spec:
  assumes "buffer_inv mal x xs bs" and "len < 2 ^ 61"
  shows "\<exists>data y. shuso_buffer_add_charbuf mal errno len x = Done (data, y) \<and>
    (if data = 0 then fst y = fst x \<and> buffer_inv mal y xs bs \<and>
       error_count (bs_S (snd y)) = error_count (bs_S (snd x)) + 1
     else buffer_inv mal y (xs @ [data - 32]) ((data - 32, 32 + len) # bs) \<and>
       bl_data (bs_link (snd y) (data - 32)) = data \<and> bl_num (bs_link (snd y) (data - 32)) = int len \<and>
       bl_data_type (bs_link (snd y) (data - 32)) = SHUSO_BUF_CHARBUF)"
proof -
  obtain data y where r: "shuso_buffer_add_charbuf mal errno len x = Done (data, y)"
    "buffer_refused mal x xs bs (data, y) \<or>
     (\<exists>a. buffer_added mal x xs bs (sizeof_link + len) sizeof_link
        \<lparr>bl_data = a + sizeof_link, bl_num = int len, bl_data_type = SHUSO_BUF_CHARBUF,
         bl_memory_type = SHUSO_BUF_DEFAULT, bl_have_cleanup = False, bl_next = 0\<rparr> a (data, y))"
    using buffer_add_charbuf_ok [OF assms, of errno] by (metis surj_pair)
  from r(2) show ?thesis
  proof (elim disjE exE)
    fix a assume "buffer_added mal x xs bs (sizeof_link + len) sizeof_link
        \<lparr>bl_data = a + sizeof_link, bl_num = int len, bl_data_type = SHUSO_BUF_CHARBUF,
         bl_memory_type = SHUSO_BUF_DEFAULT, bl_have_cleanup = False, bl_next = 0\<rparr> a (data, y)"
    then show ?thesis using r(1)
      by (intro exI [of _ data] exI [of _ y]) (simp add: buffer_added_def sizeof_link_def)
  qed (use r(1) in \<open>simp add: buffer_refused_def\<close>)
qed

theorem buffer_add_charbuf_spec_witness:
  "\<exists>data y. shuso_buffer_add_charbuf bump_malloc 12 10 (example_buffer SHUSO_BUF_POOL, example_buf_sys) = Done (data, y) \<and>
    (if data = 0 then fst y = example_buffer SHUSO_BUF_POOL \<and> buffer_inv bump_malloc y [] [] \<and>
       error_count (bs_S (snd y)) = error_count (bs_S example_buf_sys) + 1
     else buffer_inv bump_malloc y [data - 32] [(data - 32, 42)] \<and>
       bl_data (bs_link (snd y) (data - 32)) = data \<and> bl_num (bs_link (snd y) (data - 32)) = 10 \<and>
       bl_data_type (bs_link (snd y) (data - 32)) = SHUSO_BUF_CHARBUF)"
  using buffer_add_charbuf_spec [OF example_buffer_inv, of 10 12] by (simp cong: if_cong)

text \<open>Dequeuing does not clear the \<^verbatim>\<open>next\<close> of the link.  If the first of several links is
  dequeued and queued again, the queue becomes a cycle: however often one dequeues, there is
  always another link, and it is one of the old ones.\<close>

theorem buffer_requeue_cycle:
  assumes "buffer_rep x (a # b # xs)"
  shows "fst (shuso_buffer_dequeue (((\<lambda>y. snd (shuso_buffer_dequeue y)) ^^ n)
      (shuso_buffer_queue a (snd (shuso_buffer_dequeue x))))) \<in> set (a # b # xs) - {0}"
proof -
  note r = requeue_closed [OF assms]
  note d = dequeues_closed [OF r]
  show ?thesis using dequeue_closed(1) [OF d(1) r(2)] d(2) r(2,3) by auto
qed

theorem buffer_requeue_cycle_witness:
  "fst (shuso_buffer_dequeue (((\<lambda>y. snd (shuso_buffer_dequeue y)) ^^ 1000)
     (shuso_buffer_queue 64 (snd (shuso_buffer_dequeue
        (shuso_buffer_queue 128 (shuso_buffer_queue 64
           (example_buffer SHUSO_BUF_EXTERNAL, example_buf_sys)))))))) \<in> set [64, 128] - {0}"
  by (rule buffer_requeue_cycle)
    (simp add: buffer_rep_def shuso_buffer_queue_def example_buf_sys_def Let_def)

end
