(* ===== verification/Watchers.thy ===== *)
theory Watchers
  imports Shuso_Prelude
begin

text \<open>
  The timer watchers of \<^verbatim>\<open>watchers.c\<close>, which are kept in the doubly linked list of
  \<^verbatim>\<open>llist.h\<close>, and their removal when the loop of a process is cleaned up.
\<close>

section \<open>State\<close>

text \<open>A \<^verbatim>\<open>double\<close> that is only passed on to libev, by its representation.\<close>

type_synonym tstamp = "64 word"

text \<open>
  \<^verbatim>\<open>shuso_ev_timer_link_t\<close>, the list \<^verbatim>\<open>base_watchers.timer\<close> with the links that are allocated,
  and the links whose timer runs on the loop.
\<close>

record timer_link =
  tl_prev :: addr
  tl_next :: addr
  tl_after :: tstamp
  tl_repeat :: tstamp
  tl_cb :: addr
  tl_pd :: addr

record timers =
  tw_head :: addr
  tw_tail :: addr
  tw_count :: "64 word"
  tw_mem :: "addr \<rightharpoonup> timer_link"
  tw_active :: "addr set"

section \<open>Linked lists\<close>

text \<open>Access to a link that is not allocated, or through a null pointer, is \<open>Abort\<close>.\<close>

definition get_link :: "addr \<Rightarrow> timers \<Rightarrow> timer_link run" where
  "get_link a w = (case tw_mem w a of Some l \<Rightarrow> Done l | None \<Rightarrow> Abort)"

definition upd_link :: "addr \<Rightarrow> (timer_link \<Rightarrow> timer_link) \<Rightarrow> timers \<Rightarrow> timers run" where
  "upd_link a f w =
     run_bind (get_link a w) (\<lambda>l. Done (w\<lparr>tw_mem := (tw_mem w)(a \<mapsto> f l)\<rparr>))"

abbreviation set_tl_next :: "addr \<Rightarrow> addr \<Rightarrow> timers \<Rightarrow> timers run" where
  "set_tl_next a n \<equiv> upd_link a (\<lambda>l. l\<lparr>tl_next := n\<rparr>)"

abbreviation set_tl_prev :: "addr \<Rightarrow> addr \<Rightarrow> timers \<Rightarrow> timers run" where
  "set_tl_prev a p \<equiv> upd_link a (\<lambda>l. l\<lparr>tl_prev := p\<rparr>)"

definition llist_init :: "timers \<Rightarrow> timers" where
  "llist_init w = w\<lparr>tw_head := 0, tw_tail := 0, tw_count := 0\<rparr>"

definition llist_append :: "addr \<Rightarrow> timers \<Rightarrow> timers run" where
  "llist_append el w =
     run_bind
       (if tw_tail w = 0 then set_tl_prev el 0 (w\<lparr>tw_tail := el, tw_head := el\<rparr>)
        else run_bind (set_tl_next (tw_tail w) el w)
          (\<lambda>w. run_bind (set_tl_prev el (tw_tail w) w) (\<lambda>w. Done (w\<lparr>tw_tail := el\<rparr>))))
       (\<lambda>w. set_tl_next el 0 (w\<lparr>tw_count := tw_count w + 1\<rparr>))"

definition llist_prepend :: "addr \<Rightarrow> timers \<Rightarrow> timers run" where
  "llist_prepend el w =
     run_bind
       (if tw_head w = 0 then set_tl_next el 0 (w\<lparr>tw_head := el\<rparr>)
        else run_bind (set_tl_prev (tw_head w) el w) (\<lambda>w. set_tl_next el (tw_head w) w))
       (\<lambda>w. let w = (if tw_tail w = 0 then w\<lparr>tw_tail := el\<rparr> else w)
            in set_tl_prev el 0 (w\<lparr>tw_count := tw_count w + 1\<rparr>))"

definition llist_remove :: "addr \<Rightarrow> timers \<Rightarrow> timers run" where
  "llist_remove el w =
     run_bind (get_link el w) (\<lambda>l.
       let w = (if tw_tail w = el then w\<lparr>tw_tail := tl_prev l\<rparr> else w);
           w = (if tw_head w \<noteq> 0 then w\<lparr>tw_head := tl_next l\<rparr> else w)
       in run_bind
            (if tl_next l \<noteq> 0 then
               run_bind (if tl_prev l \<noteq> 0 then run_bind (get_link (tl_prev l) w) (\<lambda>p. Done (tl_next p)) else Done 0)
                 (\<lambda>v. set_tl_prev (tl_next l) v w)
             else Done w)
            (\<lambda>w. run_bind (run_bind (get_link el w) (\<lambda>l.
                if tl_prev l \<noteq> 0 then
                  run_bind (if tl_next l \<noteq> 0 then run_bind (get_link (tl_next l) w) (\<lambda>n. Done (tl_prev n)) else Done 0)
                    (\<lambda>v. set_tl_next (tl_prev l) v w)
                else Done w))
               (\<lambda>w. run_bind (set_tl_next el 0 (w\<lparr>tw_count := tw_count w - 1\<rparr>)) (set_tl_prev el 0))))"

section \<open>Timer watchers\<close>

text \<open>\<^verbatim>\<open>malloc\<close> of a link is a parameter: it returns 0 or the address of a new one.\<close>

type_synonym link_malloc = "(addr \<rightharpoonup> timer_link) \<Rightarrow> addr"

definition link_malloc_sound :: "link_malloc \<Rightarrow> bool" where
  "link_malloc_sound mal \<longleftrightarrow> (\<forall>m. mal m \<noteq> 0 \<longrightarrow> m (mal m) = None)"

definition shuso_ev_timer_init :: "addr \<Rightarrow> tstamp \<Rightarrow> tstamp \<Rightarrow> addr \<Rightarrow> addr \<Rightarrow> timers \<Rightarrow> timers" where
  "shuso_ev_timer_init a after repeat cb pd w =
     w\<lparr>tw_mem := (tw_mem w)(a \<mapsto> \<lparr>tl_prev = 0, tl_next = 0, tl_after = after, tl_repeat = repeat,
       tl_cb = cb, tl_pd = pd\<rparr>)\<rparr>"

definition shuso_ev_timer_start :: "addr \<Rightarrow> timers \<Rightarrow> timers" where
  "shuso_ev_timer_start a w = w\<lparr>tw_active := insert a (tw_active w)\<rparr>"

definition shuso_ev_timer_stop :: "addr \<Rightarrow> timers \<Rightarrow> timers" where
  "shuso_ev_timer_stop a w = w\<lparr>tw_active := tw_active w - {a}\<rparr>"

definition shuso_add_timer_watcher ::
  "link_malloc \<Rightarrow> tstamp \<Rightarrow> tstamp \<Rightarrow> addr \<Rightarrow> addr \<Rightarrow> timers \<Rightarrow> (addr \<times> timers) run"
where
  "shuso_add_timer_watcher mal after repeat cb pd w =
     (let wl = mal (tw_mem w) in
      if wl = 0 then Done (0, w)
      else
        run_bind (llist_append wl (shuso_ev_timer_start wl (shuso_ev_timer_init wl after repeat cb pd w)))
          (\<lambda>w. Done (wl, w)))"

definition free_link :: "addr \<Rightarrow> timers \<Rightarrow> timers" where
  "free_link a w = w\<lparr>tw_mem := (tw_mem w)(a := None)\<rparr>"

definition shuso_remove_timer_watcher :: "addr \<Rightarrow> timers \<Rightarrow> timers run" where
  "shuso_remove_timer_watcher wl w =
     run_bind (llist_remove wl (shuso_ev_timer_stop wl w)) (\<lambda>w. Done (free_link wl w))"

text \<open>The loop of \<^verbatim>\<open>DELETE_BASE_WATCHERS\<close>; \<open>None\<close> would be a loop that never ends.\<close>

partial_function (option) delete_links :: "addr \<Rightarrow> timers \<Rightarrow> timers run option" where
  "delete_links cur w =
     (if cur = 0 then Some (Done w)
      else (case tw_mem w cur of
              None \<Rightarrow> Some Abort
            | Some l \<Rightarrow> delete_links (tl_next l) (free_link cur (shuso_ev_timer_stop cur w))))"

definition delete_base_watchers :: "timers \<Rightarrow> timers run option" where
  "delete_base_watchers w =
     map_option (\<lambda>r. run_bind r (\<lambda>w. Done (llist_init w))) (delete_links (tw_head w) w)"

section \<open>Well-formed lists\<close>

text \<open>
  The links \<open>xs\<close>, in this order from \<open>p\<close> on; all are allocated, and all timers run.
\<close>

fun dlist :: "(addr \<rightharpoonup> timer_link) \<Rightarrow> addr \<Rightarrow> addr \<Rightarrow> addr list \<Rightarrow> bool" where
  "dlist m p a [] \<longleftrightarrow> a = 0"
| "dlist m p a (x # xs) \<longleftrightarrow>
     a = x \<and> x \<noteq> 0 \<and> (\<exists>l. m x = Some l \<and> tl_prev l = p \<and> dlist m x (tl_next l) xs)"

definition timers_rep :: "timers \<Rightarrow> addr list \<Rightarrow> bool" where
  "timers_rep w xs \<longleftrightarrow>
     dlist (tw_mem w) 0 (tw_head w) xs \<and> distinct xs \<and> tw_tail w = (if xs = [] then 0 else last xs) \<and>
     tw_count w = of_nat (length xs) \<and> set xs \<subseteq> tw_active w"

lemma dlist_cong: "(\<And>x. x \<in> set xs \<Longrightarrow> m' x = m x) \<Longrightarrow> dlist m' p a xs = dlist m p a xs"
  by (induction xs arbitrary: p a) auto

lemma dlist_dom: "dlist m p a xs \<Longrightarrow> x \<in> set xs \<Longrightarrow> \<exists>l. m x = Some l"
  by (induction xs arbitrary: p a) auto

lemma dlist_nonnull: "dlist m p a xs \<Longrightarrow> 0 \<notin> set xs"
  by (induction xs arbitrary: p a) auto

lemma dlist_snoc:
  assumes "dlist m p a xs" and "xs \<noteq> []" and "distinct xs" and "b \<notin> set xs" and "b \<noteq> 0"
    and "m' (last xs) = Some (the (m (last xs))\<lparr>tl_next := b\<rparr>)"
    and "m' b = Some l" and "tl_prev l = last xs" and "tl_next l = 0"
    and "\<And>x. x \<in> set xs \<Longrightarrow> x \<noteq> last xs \<Longrightarrow> m' x = m x"
  shows "dlist m' p a (xs @ [b])"
  using assms
proof (induction xs arbitrary: p a)
  case (Cons x xs)
  show ?case
  proof (cases "xs = []")
    case True
    then show ?thesis using Cons.prems by auto
  next
    case False
    then have ne: "x \<noteq> last xs" using Cons.prems(3) by auto
    then have "m' x = m x" using Cons.prems(10) [of x] False by simp
    moreover obtain k where k: "m x = Some k" "tl_prev k = p" "dlist m x (tl_next k) xs" "a = x" "x \<noteq> 0"
      using Cons.prems(1) by auto
    moreover have "dlist m' x (tl_next k) (xs @ [b])"
      using Cons.prems False by (intro Cons.IH [OF k(3)]) auto
    ultimately show ?thesis by simp
  qed
qed simp

section \<open>Adding and removing in order\<close>

lemma add_timer_ok:
  assumes rep: "timers_rep w xs" and mal: "link_malloc_sound mal"
  shows "\<exists>a w'. shuso_add_timer_watcher mal after repeat cb pd w = Done (a, w') \<and>
    (if a = 0 then w' = w
     else timers_rep w' (xs @ [a]) \<and> a \<notin> set xs \<and> tw_mem w a = None \<and>
       (\<exists>l. tw_mem w' a = Some l \<and> tl_after l = after \<and> tl_repeat l = repeat \<and> tl_cb l = cb \<and> tl_pd l = pd) \<and>
       dom (tw_mem w') = insert a (dom (tw_mem w)) \<and> tw_active w' = insert a (tw_active w))"
proof (cases "mal (tw_mem w) = 0")
  case True
  then show ?thesis by (simp add: shuso_add_timer_watcher_def)
next
  case False
  let ?a = "mal (tw_mem w)"
  have fresh: "tw_mem w ?a = None" using mal False by (simp add: link_malloc_sound_def)
  have d: "dlist (tw_mem w) 0 (tw_head w) xs" "distinct xs" "tw_tail w = (if xs = [] then 0 else last xs)"
    "tw_count w = of_nat (length xs)" "set xs \<subseteq> tw_active w"
    using rep by (auto simp: timers_rep_def)
  have new: "?a \<notin> set xs" using dlist_dom [OF d(1), of ?a] fresh by auto
  let ?l = "\<lparr>tl_prev = 0, tl_next = 0, tl_after = after, tl_repeat = repeat, tl_cb = cb, tl_pd = pd\<rparr>"
  show ?thesis
  proof (cases "xs = []")
    case True
    then show ?thesis using False fresh d
      by (auto simp: shuso_add_timer_watcher_def llist_append_def upd_link_def get_link_def
          shuso_ev_timer_init_def shuso_ev_timer_start_def Let_def timers_rep_def)
  next
    case ne: False
    then have l: "last xs \<in> set xs" by simp
    then obtain k where k: "tw_mem w (last xs) = Some k" using dlist_dom [OF d(1)] by blast
    have t: "tw_tail w = last xs" "last xs \<noteq> 0" "last xs \<noteq> ?a"
      using d(3) ne by (simp, metis l dlist_nonnull [OF d(1)], metis l new)
    let ?m = "(tw_mem w)(?a \<mapsto> ?l\<lparr>tl_prev := last xs\<rparr>, last xs \<mapsto> k\<lparr>tl_next := ?a\<rparr>)"
    have run: "shuso_add_timer_watcher mal after repeat cb pd w = Done (?a,
        w\<lparr>tw_mem := ?m, tw_tail := ?a, tw_count := tw_count w + 1, tw_active := insert ?a (tw_active w)\<rparr>)"
      using False t k fresh
      by (simp add: shuso_add_timer_watcher_def llist_append_def upd_link_def get_link_def
          shuso_ev_timer_init_def shuso_ev_timer_start_def Let_def fun_upd_twist)
    have "dlist ?m 0 (tw_head w) (xs @ [?a])"
      using t k new False by (intro dlist_snoc [OF d(1) ne d(2)]) auto
    then show ?thesis unfolding run
      using False new d fresh k by (auto simp: timers_rep_def)
  qed
qed

text \<open>The oldest watcher can be removed: the others stay in the list.\<close>

lemma remove_oldest_ok:
  assumes rep: "timers_rep w (a # xs)"
  shows "\<exists>w'. shuso_remove_timer_watcher a w = Done w' \<and> timers_rep w' xs \<and>
    dom (tw_mem w') = dom (tw_mem w) - {a} \<and> tw_active w' = tw_active w - {a}"
proof -
  obtain l where l: "tw_mem w a = Some l" "tl_prev l = 0" "dlist (tw_mem w) a (tl_next l) xs"
    "tw_head w = a" "a \<noteq> 0"
    using rep by (auto simp: timers_rep_def)
  have d: "distinct (a # xs)" "tw_tail w = last (a # xs)" "tw_count w = of_nat (length (a # xs))"
    "set (a # xs) \<subseteq> tw_active w"
    using rep by (auto simp: timers_rep_def)
  show ?thesis
  proof (cases xs)
    case Nil
    then show ?thesis using l d
      by (auto simp: shuso_remove_timer_watcher_def llist_remove_def upd_link_def get_link_def Let_def
          shuso_ev_timer_stop_def free_link_def timers_rep_def)
  next
    case (Cons b ys)
    then obtain k where k: "tw_mem w b = Some k" "tl_prev k = a" "dlist (tw_mem w) b (tl_next k) ys"
      "tl_next l = b" "b \<noteq> 0"
      using l(3) by auto
    have ne: "a \<noteq> b" "last xs \<noteq> a" "a \<notin> set ys" "b \<notin> set ys" "last (a # xs) = last xs"
      using d(1) Cons last_in_set [of xs] by auto
    let ?m = "(tw_mem w)(b \<mapsto> k\<lparr>tl_prev := 0\<rparr>, a := None)"
    have run: "shuso_remove_timer_watcher a w =
        Done (w\<lparr>tw_head := b, tw_count := tw_count w - 1, tw_mem := ?m, tw_active := tw_active w - {a}\<rparr>)"
      using l k ne d(2)
      by (simp add: shuso_remove_timer_watcher_def llist_remove_def upd_link_def get_link_def Let_def
          shuso_ev_timer_stop_def free_link_def fun_upd_twist)
    have "dlist ?m b (tl_next k) ys = dlist (tw_mem w) b (tl_next k) ys"
      using ne by (intro dlist_cong) auto
    then have "dlist ?m 0 b xs" using k ne Cons by auto
    then show ?thesis unfolding run using d ne k Cons by (auto simp: timers_rep_def)
  qed
qed

text \<open>Cleaning up frees every link of a well-formed list and stops its timer.\<close>

lemma delete_links_ok:
  "dlist (tw_mem w) p a xs \<Longrightarrow> distinct xs \<Longrightarrow>
   delete_links a w = Some (Done (w\<lparr>tw_mem := (\<lambda>x. if x \<in> set xs then None else tw_mem w x),
     tw_active := tw_active w - set xs\<rparr>))"
proof (induction xs arbitrary: w p a)
  case Nil
  then show ?case by (subst delete_links.simps) simp
next
  case (Cons x xs)
  then obtain l where l: "tw_mem w x = Some l" "dlist (tw_mem w) x (tl_next l) xs" "a = x" "x \<noteq> 0"
    by auto
  let ?w = "free_link x (shuso_ev_timer_stop x w)"
  have "dlist (tw_mem ?w) x (tl_next l) xs = dlist (tw_mem w) x (tl_next l) xs"
    using Cons.prems(2) by (intro dlist_cong) (auto simp: free_link_def shuso_ev_timer_stop_def)
  with l(2) have "dlist (tw_mem ?w) x (tl_next l) xs" by simp
  from Cons.IH [OF this] show ?case
    using l Cons.prems(2)
    by (subst delete_links.simps) (auto simp: free_link_def shuso_ev_timer_stop_def fun_eq_iff intro!: timers.equality)
qed

lemma delete_base_watchers_ok:
  assumes "timers_rep w xs"
  shows "\<exists>w'. delete_base_watchers w = Some (Done w') \<and> timers_rep w' [] \<and>
    dom (tw_mem w') = dom (tw_mem w) - set xs \<and> tw_active w' = tw_active w - set xs"
proof -
  have "dlist (tw_mem w) 0 (tw_head w) xs" "distinct xs" using assms by (auto simp: timers_rep_def)
  from delete_links_ok [OF this] show ?thesis
    by (auto simp: delete_base_watchers_def llist_init_def timers_rep_def split: if_splits)
qed

section \<open>Removing another one\<close>

lemma dlist_suffix: "dlist m p h (xs @ ys) \<Longrightarrow> \<exists>q k. dlist m q k ys \<and> (xs = [] \<longrightarrow> q = p) \<and> (xs \<noteq> [] \<longrightarrow> q = last xs)"
proof (induction xs arbitrary: p h)
  case (Cons x xs)
  obtain l :: timer_link where "dlist m x (tl_next l) (xs @ ys)" using Cons.prems by auto
  from Cons.IH [OF this] show ?case by auto
qed auto

lemma remove_newest:
  assumes "timers_rep w (xs @ [a, b])"
  shows "\<exists>w'. shuso_remove_timer_watcher b w = Done w' \<and> tw_head w' = 0 \<and>
    dom (tw_mem w') = dom (tw_mem w) - {b} \<and> tw_active w' = tw_active w - {b}"
proof -
  have d: "dlist (tw_mem w) 0 (tw_head w) (xs @ [a, b])" "distinct (xs @ [a, b])" "tw_tail w = b"
    using assms by (auto simp: timers_rep_def)
  obtain q l k where l: "tw_mem w a = Some l" "tl_next l = b" "tw_mem w b = Some k" "tl_prev k = a" "tl_next k = 0"
    "a \<noteq> 0" "b \<noteq> 0"
    using dlist_suffix [OF d(1)] by auto
  have h: "tw_head w \<noteq> 0" using d(1) by (cases xs) auto
  have "a \<noteq> b" using d(2) by auto
  then show ?thesis using l d(3) h
    by (auto simp: shuso_remove_timer_watcher_def llist_remove_def upd_link_def get_link_def Let_def
        shuso_ev_timer_stop_def free_link_def)
qed

section \<open>Properties\<close>

definition no_timers :: timers where
  "no_timers = \<lparr>tw_head = 0, tw_tail = 0, tw_count = 0, tw_mem = Map.empty, tw_active = {}\<rparr>"

definition bump_links :: link_malloc where
  "bump_links m = (if m 64 = None then 64 else if m 128 = None then 128 else if m 192 = None then 192 else 0)"

lemma bump_links_sound: "link_malloc_sound bump_links"
  by (simp add: link_malloc_sound_def bump_links_def)

lemma no_timers_rep: "timers_rep no_timers []"
  by (simp add: no_timers_def timers_rep_def)

text \<open>Three timers in a row, as \<^verbatim>\<open>shuso_add_timer_watcher\<close> makes them.\<close>

definition three_timers :: timers where
  "three_timers = \<lparr>tw_head = 64, tw_tail = 192, tw_count = 3,
     tw_mem = [64 \<mapsto> \<lparr>tl_prev = 0, tl_next = 128, tl_after = 1, tl_repeat = 0, tl_cb = 8, tl_pd = 0\<rparr>,
       128 \<mapsto> \<lparr>tl_prev = 64, tl_next = 192, tl_after = 1, tl_repeat = 0, tl_cb = 8, tl_pd = 0\<rparr>,
       192 \<mapsto> \<lparr>tl_prev = 128, tl_next = 0, tl_after = 1, tl_repeat = 0, tl_cb = 8, tl_pd = 0\<rparr>],
     tw_active = {64, 128, 192}\<rparr>"

lemma three_timers_rep: "timers_rep three_timers [64, 128, 192]"
  by (simp add: three_timers_def timers_rep_def)

text \<open>Timer watchers that are removed in the order in which they were added, or not at all, are
  handled right: adding appends a running timer (or changes nothing when \<^verbatim>\<open>malloc\<close> refuses),
  removing the oldest leaves the others, and cleaning up frees and stops exactly those left.\<close>

theorem timer_watchers_in_order:
  assumes "timers_rep w xs" and "link_malloc_sound mal"
  shows "(\<exists>a w'. shuso_add_timer_watcher mal after repeat cb pd w = Done (a, w') \<and>
      (if a = 0 then w' = w else timers_rep w' (xs @ [a]) \<and> a \<notin> dom (tw_mem w))) \<and>
    (case xs of [] \<Rightarrow> True
     | a # ys \<Rightarrow> \<exists>w'. shuso_remove_timer_watcher a w = Done w' \<and> timers_rep w' ys \<and>
         dom (tw_mem w') = dom (tw_mem w) - {a} \<and> tw_active w' = tw_active w - {a}) \<and>
    (\<exists>w'. delete_base_watchers w = Some (Done w') \<and> timers_rep w' [] \<and>
       dom (tw_mem w') = dom (tw_mem w) - set xs \<and> tw_active w' = tw_active w - set xs)"
proof (intro conjI)
  show "\<exists>a w'. shuso_add_timer_watcher mal after repeat cb pd w = Done (a, w') \<and>
      (if a = 0 then w' = w else timers_rep w' (xs @ [a]) \<and> a \<notin> dom (tw_mem w))"
    using add_timer_ok [OF assms, of after "repeat" cb pd] by (auto split: if_splits)
  show "case xs of [] \<Rightarrow> True
     | a # ys \<Rightarrow> \<exists>w'. shuso_remove_timer_watcher a w = Done w' \<and> timers_rep w' ys \<and>
         dom (tw_mem w') = dom (tw_mem w) - {a} \<and> tw_active w' = tw_active w - {a}"
    using remove_oldest_ok assms(1) by (cases xs) auto
qed (rule delete_base_watchers_ok [OF assms(1)])

theorem timer_watchers_in_order_witness:
  "(\<exists>a w'. shuso_add_timer_watcher bump_links 1 0 8 16 three_timers = Done (a, w') \<and>
      (if a = 0 then w' = three_timers
       else timers_rep w' ([64, 128, 192] @ [a]) \<and> a \<notin> dom (tw_mem three_timers))) \<and>
   (\<exists>w'. shuso_remove_timer_watcher 64 three_timers = Done w' \<and> timers_rep w' [128, 192] \<and>
      dom (tw_mem w') = dom (tw_mem three_timers) - {64} \<and> tw_active w' = tw_active three_timers - {64}) \<and>
   (\<exists>w'. delete_base_watchers three_timers = Some (Done w') \<and> timers_rep w' [] \<and>
      dom (tw_mem w') = dom (tw_mem three_timers) - set [64, 128, 192] \<and>
      tw_active w' = tw_active three_timers - set [64, 128, 192])"
  using timer_watchers_in_order [OF three_timers_rep bump_links_sound, of 1 0 8 16] by simp

text \<open>A watcher removed out of order is not: when the newest of several watchers is removed, the
  list is empty although the others remain, so that cleaning up the loop neither frees them
  nor stops their timers.\<close>

theorem timer_remove_newest_leaks:
  assumes "timers_rep w (xs @ [a, b])"
  shows "\<exists>w' w''. shuso_remove_timer_watcher b w = Done w' \<and> delete_base_watchers w' = Some (Done w'') \<and>
    set (xs @ [a]) \<subseteq> dom (tw_mem w'') \<and> set (xs @ [a]) \<subseteq> tw_active w''"
proof -
  obtain w' where w': "shuso_remove_timer_watcher b w = Done w'" "tw_head w' = 0"
    "dom (tw_mem w') = dom (tw_mem w) - {b}" "tw_active w' = tw_active w - {b}"
    using remove_newest [OF assms] by blast
  have "delete_base_watchers w' = Some (Done (llist_init w'))"
    using w'(2) by (simp add: delete_base_watchers_def delete_links.simps)
  moreover have "set (xs @ [a]) \<subseteq> dom (tw_mem w) - {b}" "set (xs @ [a]) \<subseteq> tw_active w - {b}"
    using assms dlist_dom [of "tw_mem w" 0 "tw_head w" "xs @ [a, b]"] by (auto simp: timers_rep_def)
  ultimately show ?thesis using w' by (auto simp: llist_init_def)
qed

theorem timer_remove_newest_leaks_witness:
  "\<exists>w' w''. shuso_remove_timer_watcher 192 three_timers = Done w' \<and> delete_base_watchers w' = Some (Done w'') \<and>
    set ([64] @ [128]) \<subseteq> dom (tw_mem w'') \<and> set ([64] @ [128]) \<subseteq> tw_active w''"
  by (rule timer_remove_newest_leaks) (simp add: three_timers_rep)

text \<open>Removing the middle one of three and then the last one writes to the freed link.\<close>

lemma timer_remove_middle_dangles:
  "run_bind (shuso_remove_timer_watcher 128 three_timers) (shuso_remove_timer_watcher 192) = Abort"
  by (simp add: three_timers_def shuso_remove_timer_watcher_def llist_remove_def upd_link_def get_link_def
      Let_def shuso_ev_timer_stop_def free_link_def)

text \<open>Prepending to a list that is not empty leaves its head where it was.\<close>

lemma llist_prepend_keeps_head:
  "tw_head w \<noteq> 0 \<Longrightarrow> llist_prepend el w = Done w' \<Longrightarrow> tw_head w' = tw_head w"
  by (auto simp: llist_prepend_def upd_link_def get_link_def run_bind_Done_iff Let_def split: if_splits option.splits)

end
