(* ===== verification/Instring.thy ===== *)
theory Instring
  imports Buffer
begin

text \<open>
  Interpolated strings of \<^verbatim>\<open>instring.c\<close>: strings made of literals and variables, which are
  evaluated on demand and converted to a value of the type asked for, with a cache.
\<close>

section \<open>State\<close>

text \<open>
  \<^verbatim>\<open>shuso_variable_t\<close>.  The evaluation function is an address; \<open>v_setting\<close> and \<open>v_block\<close> are
  the setting the variable stands in and its block; \<open>v_privdata\<close> is \<open>None\<close> when it was never written.
\<close>

record variable =
  v_name :: string
  v_module :: "string option"
  v_setting :: addr
  v_block :: addr
  v_params :: "string list"
  v_eval :: addr
  v_privdata :: "addr option"

datatype instring_token = Token_literal string | Token_variable variable

datatype value_state = VALUE_UNKNOWN | VALUE_INVALID | VALUE_VALID

record value_states =
  vs_boolean :: value_state
  vs_integer :: value_state
  vs_number :: value_state
  vs_size :: value_state
  vs_string :: value_state

text \<open>
  \<^verbatim>\<open>shuso_instring_t\<close>.  An element of \<^verbatim>\<open>variables.array\<close> points to the variable of a token and
  is the number of that token, or \<open>None\<close> when it was never written; \<open>is_iov\<close> holds the bytes
  that the elements of \<^verbatim>\<open>buffer.iov\<close> point to (none for a null pointer).  Doubles are their bits.
\<close>

record instring =
  is_variables :: "nat option list"
  is_tokens :: "instring_token list"
  is_buf_head :: buffer
  is_buf_link_iovcnt :: nat
  is_iov :: "string list"
  cv_reset_state :: value_states
  cv_state :: value_states
  cv_boolean :: bool
  cv_integer :: int
  cv_number :: "64 word"
  cv_size :: nat
  cv_string :: "string option"
  cv_string_lua_ref :: "nat option"

text \<open>
  What the code around supplies: the evaluation of variables, the conversions that
  \<^verbatim>\<open>instring.lua\<close> builds on Lua's \<^verbatim>\<open>tonumber\<close>, and the references of \<^verbatim>\<open>luaL_ref\<close>.
\<close>

record instring_env =
  ie_eval :: "variable \<Rightarrow> string option"
  ie_tointeger :: "string \<Rightarrow> int option"
  ie_tonumber :: "string \<Rightarrow> 64 word option"
  ie_tosize :: "string \<Rightarrow> int option"
  ie_ref :: "(nat \<rightharpoonup> string) \<Rightarrow> nat"

type_synonym instring_state = "instring \<times> (nat \<rightharpoonup> string)"

section \<open>Interpolation\<close>

text \<open>The loop over the variables: whether any was evaluated, and the new \<^verbatim>\<open>buffer.iov\<close>.\<close>

fun interpolate_vars ::
  "instring_env \<Rightarrow> instring_token list \<Rightarrow> nat \<Rightarrow> nat option list \<Rightarrow> bool \<times> string list \<Rightarrow> (bool \<times> string list) run"
where
  "interpolate_vars env toks i [] x = Done x"
| "interpolate_vars env toks i (None # vs) x = Abort"
| "interpolate_vars env toks i (Some t # vs) x =
     (if t < length toks then
        (case toks ! t of
           Token_literal _ \<Rightarrow> Abort
         | Token_variable var \<Rightarrow>
             (case ie_eval env var of
                Some val \<Rightarrow> interpolate_vars env toks (i + 1) vs (True, (snd x)[i := val])
              | None \<Rightarrow> interpolate_vars env toks (i + 1) vs x))
      else Abort)"

definition shuso_instring_interpolate :: "instring_env \<Rightarrow> instring_state \<Rightarrow> instring_state run" where
  "shuso_instring_interpolate env x =
     (let (s, reg) = x in
      if is_variables s = [] then Done (s, reg)
      else
        run_bind (interpolate_vars env (is_tokens s) 0 (is_variables s) (False, is_iov s))
          (\<lambda>(reset, iov).
             let s = s\<lparr>is_iov := iov\<rparr> in
             if reset then
               (let reg = (case cv_string_lua_ref s of Some r \<Rightarrow> reg(r := None) | None \<Rightarrow> reg)
                in Done (s\<lparr>cv_string_lua_ref := None, cv_state := cv_reset_state s\<rparr>, reg))
             else Done (s, reg)))"

definition luaS_push_iovec_as_string :: "string list \<Rightarrow> string run" where
  "luaS_push_iovec_as_string iov = c_assert (list_all (\<lambda>s. length s < 1000) iov) (Done (concat iov))"

text \<open>A call of one of the conversions of \<^verbatim>\<open>instring.lua\<close>, \<open>None\<close> being nil.\<close>

definition luaS_instring_tovalue :: "(string \<Rightarrow> 'a option) \<Rightarrow> instring \<Rightarrow> 'a option run" where
  "luaS_instring_tovalue towhat s = run_bind (luaS_push_iovec_as_string (is_iov s)) (\<lambda>str. Done (towhat str))"

definition instring_toboolean :: "string \<Rightarrow> bool option" where
  "instring_toboolean str =
     (if str = ''yes'' \<or> str = ''1'' \<or> str = ''true'' \<or> str = ''on'' then Some True
      else if str = ''no'' \<or> str = ''0'' \<or> str = ''false'' \<or> str = ''off'' then Some False
      else None)"

section \<open>Values\<close>

text \<open>
  The functions that return a value: whether there is one, and what they store through
  \<^verbatim>\<open>retval\<close> unless it is null (\<open>want\<close> is false).
\<close>

definition shuso_instring_boolean_value ::
  "instring_env \<Rightarrow> bool \<Rightarrow> instring_state \<Rightarrow> ((bool \<times> bool option) \<times> instring_state) run"
where
  "shuso_instring_boolean_value env want x =
     run_bind (shuso_instring_interpolate env x) (\<lambda>(s, reg).
       case vs_boolean (cv_state s) of
         VALUE_VALID \<Rightarrow> Done ((True, if want then Some (cv_boolean s) else None), (s, reg))
       | VALUE_INVALID \<Rightarrow> Done ((False, None), (s, reg))
       | VALUE_UNKNOWN \<Rightarrow>
           run_bind (luaS_instring_tovalue instring_toboolean s) (\<lambda>r. case r of
             None \<Rightarrow> Done ((False, None), (s\<lparr>cv_state := (cv_state s)\<lparr>vs_boolean := VALUE_INVALID\<rparr>\<rparr>, reg))
           | Some v \<Rightarrow> Done ((True, if want then Some v else None),
               (s\<lparr>cv_state := (cv_state s)\<lparr>vs_boolean := VALUE_VALID\<rparr>, cv_boolean := v\<rparr>, reg))))"

text \<open>A Lua integer has 64 bits; an \<^verbatim>\<open>int\<close> takes the low 32 of them.\<close>

definition c_int :: "int \<Rightarrow> int" where
  "c_int i = sint (word_of_int i :: 32 word)"

definition shuso_instring_integer_value ::
  "instring_env \<Rightarrow> bool \<Rightarrow> instring_state \<Rightarrow> ((bool \<times> int option) \<times> instring_state) run"
where
  "shuso_instring_integer_value env want x =
     run_bind (shuso_instring_interpolate env x) (\<lambda>(s, reg).
       case vs_integer (cv_state s) of
         VALUE_VALID \<Rightarrow> Done ((True, if want then Some (cv_integer s) else None), (s, reg))
       | VALUE_INVALID \<Rightarrow> Done ((False, None), (s, reg))
       | VALUE_UNKNOWN \<Rightarrow>
           run_bind (luaS_instring_tovalue (ie_tointeger env) s) (\<lambda>r. case r of
             None \<Rightarrow> Done ((False, None), (s\<lparr>cv_state := (cv_state s)\<lparr>vs_integer := VALUE_INVALID\<rparr>\<rparr>, reg))
           | Some v \<Rightarrow> Done ((True, if want then Some (c_int v) else None),
               (s\<lparr>cv_state := (cv_state s)\<lparr>vs_integer := VALUE_VALID\<rparr>, cv_integer := c_int v\<rparr>, reg))))"

definition shuso_instring_number_value ::
  "instring_env \<Rightarrow> bool \<Rightarrow> instring_state \<Rightarrow> ((bool \<times> 64 word option) \<times> instring_state) run"
where
  "shuso_instring_number_value env want x =
     run_bind (shuso_instring_interpolate env x) (\<lambda>(s, reg).
       case vs_number (cv_state s) of
         VALUE_VALID \<Rightarrow> Done ((True, if want then Some (cv_number s) else None), (s, reg))
       | VALUE_INVALID \<Rightarrow> Done ((False, None), (s, reg))
       | VALUE_UNKNOWN \<Rightarrow>
           run_bind (luaS_instring_tovalue (ie_tonumber env) s) (\<lambda>r. case r of
             None \<Rightarrow> Done ((False, None), (s\<lparr>cv_state := (cv_state s)\<lparr>vs_number := VALUE_INVALID\<rparr>\<rparr>, reg))
           | Some v \<Rightarrow> Done ((True, if want then Some v else None),
               (s\<lparr>cv_state := (cv_state s)\<lparr>vs_number := VALUE_VALID\<rparr>, cv_number := v\<rparr>, reg))))"

text \<open>A \<^verbatim>\<open>double\<close> that is set to a natural number: rounded to 53 bits, ties to even.\<close>

fun bit_length :: "nat \<Rightarrow> nat" where
  "bit_length n = (if n = 0 then 0 else Suc (bit_length (n div 2)))"

declare bit_length.simps [simp del]

definition double_of_nat :: "nat \<Rightarrow> nat" where
  "double_of_nat n =
     (if n < 2 ^ 53 then n
      else
        (let k = bit_length n - 53; q = n div 2 ^ k; r = n mod 2 ^ k; h = 2 ^ (k - 1)
         in (if r > h \<or> (r = h \<and> odd q) then q + 1 else q) * 2 ^ k))"

text \<open>The size goes through a variable of type \<^verbatim>\<open>double\<close>; a size of a string is not negative.\<close>

definition shuso_instring_size_value ::
  "instring_env \<Rightarrow> bool \<Rightarrow> instring_state \<Rightarrow> ((bool \<times> nat option) \<times> instring_state) run"
where
  "shuso_instring_size_value env want x =
     run_bind (shuso_instring_interpolate env x) (\<lambda>(s, reg).
       case vs_size (cv_state s) of
         VALUE_VALID \<Rightarrow> Done ((True, if want then Some (cv_size s) else None), (s, reg))
       | VALUE_INVALID \<Rightarrow> Done ((False, None), (s, reg))
       | VALUE_UNKNOWN \<Rightarrow>
           run_bind (luaS_instring_tovalue (ie_tosize env) s) (\<lambda>r. case r of
             None \<Rightarrow> Done ((False, None), (s\<lparr>cv_state := (cv_state s)\<lparr>vs_size := VALUE_INVALID\<rparr>\<rparr>, reg))
           | Some v \<Rightarrow> Done ((True, if want then Some (double_of_nat (nat v)) else None),
               (s\<lparr>cv_state := (cv_state s)\<lparr>vs_size := VALUE_VALID\<rparr>, cv_size := double_of_nat (nat v)\<rparr>, reg))))"

text \<open>\<^verbatim>\<open>cached_value.string\<close> is only written when the caller wants the value.\<close>

definition shuso_instring_string_value ::
  "instring_env \<Rightarrow> bool \<Rightarrow> instring_state \<Rightarrow> ((bool \<times> string option) \<times> instring_state) run"
where
  "shuso_instring_string_value env want x =
     run_bind (shuso_instring_interpolate env x) (\<lambda>(s, reg).
       case vs_string (cv_state s) of
         VALUE_VALID \<Rightarrow> Done ((True, if want then cv_string s else None), (s, reg))
       | VALUE_INVALID \<Rightarrow> Done ((False, None), (s, reg))
       | VALUE_UNKNOWN \<Rightarrow>
           run_bind (luaS_instring_tovalue (\<lambda>str. Some str) s) (\<lambda>r. case r of
             None \<Rightarrow> Done ((False, None), (s\<lparr>cv_state := (cv_state s)\<lparr>vs_string := VALUE_INVALID\<rparr>\<rparr>, reg))
           | Some v \<Rightarrow>
               (let s = s\<lparr>cv_state := (cv_state s)\<lparr>vs_string := VALUE_VALID\<rparr>\<rparr>;
                    s = (if want then s\<lparr>cv_string := Some v\<rparr> else s);
                    r = ie_ref env reg
                in c_assert (cv_string_lua_ref s = None)
                     (Done ((True, if want then cv_string s else None),
                        (s\<lparr>cv_string_lua_ref := Some r\<rparr>, reg(r \<mapsto> v)))))))"

definition shuso_instring_buffer_value ::
  "instring_env \<Rightarrow> instring_state \<Rightarrow> ((bool \<times> buffer) \<times> instring_state) run"
where
  "shuso_instring_buffer_value env x =
     run_bind (shuso_instring_interpolate env x) (\<lambda>(s, reg). Done ((True, is_buf_head s), (s, reg)))"

section \<open>From Lua\<close>

text \<open>
  A token of an instring object in Lua, and what \<^verbatim>\<open>find_variable\<close> of the configuration
  returns for it: the evaluation function, the private data and whether it is constant.
\<close>

datatype lua_token =
    Lua_literal string
  | Lua_variable string "string option" "string list"

record lua_variable =
  lv_eval :: addr
  lv_privdata :: "addr option"
  lv_constant :: bool

record config_env =
  ce_find_variable :: "string \<Rightarrow> addr \<Rightarrow> lua_variable option"
  ce_parent_block :: "addr \<Rightarrow> addr"

text \<open>
  The pool serves a given number of requests, and then none; \<open>None\<close> is a function that
  returned false or null after setting an error.
\<close>

definition pal :: "nat \<Rightarrow> nat option" where
  "pal left = (if left = 0 then None else Some (left - 1))"

definition instring_token_literal_lua_to_c :: "string \<Rightarrow> nat \<Rightarrow> (instring_token \<times> string) option \<times> nat" where
  "instring_token_literal_lua_to_c value left =
     (case pal left of
        None \<Rightarrow> (None, left)
      | Some left \<Rightarrow> (Some (Token_literal value, value), left))"

text \<open>
  The array of parameters is allocated for one pointer, so that storing a second one is a
  write behind its end.
\<close>

fun copy_params :: "nat \<Rightarrow> string list \<Rightarrow> nat \<Rightarrow> (bool \<times> nat) run" where
  "copy_params j [] left = Done (True, left)"
| "copy_params j (p # ps) left =
     (case pal left of
        None \<Rightarrow> Done (False, left)
      | Some left \<Rightarrow> c_assert (j < 1) (copy_params (j + 1) ps left))"

text \<open>
  A module name is looked up through \<^verbatim>\<open>var->module\<close> before that is set.  A constant variable
  is evaluated, but then read from the field \<^verbatim>\<open>value\<close> that its token does not have: the copy
  is from a null pointer.  When the evaluation fails, the error message lacks an argument.
\<close>

definition instring_token_variable_lua_to_c ::
  "instring_env \<Rightarrow> config_env \<Rightarrow> addr \<Rightarrow> string \<Rightarrow> string option \<Rightarrow> string list \<Rightarrow> nat \<Rightarrow>
   ((instring_token \<times> string) option \<times> nat) run"
where
  "instring_token_variable_lua_to_c env cfg setting name module_name params left =
     (let block = ce_parent_block cfg setting in
      c_assert (block \<noteq> 0)
       (if module_name \<noteq> None then Abort
        else
          (case ce_find_variable cfg name block of
             None \<Rightarrow> Done (None, left)
           | Some lv \<Rightarrow>
               c_assert (lv_eval lv \<noteq> 0)
                (case pal left of
                   None \<Rightarrow> Done (None, left)
                 | Some left \<Rightarrow>
                     (let var = \<lparr>v_name = name, v_module = None, v_setting = setting, v_block = block,
                            v_params = params, v_eval = lv_eval lv, v_privdata = lv_privdata lv\<rparr>
                      in run_bind
                        (if params \<noteq> [] then
                           (case pal left of
                              None \<Rightarrow> Done (False, left)
                            | Some left \<Rightarrow> copy_params 0 params left)
                         else Done (True, left))
                        (\<lambda>(ok, left).
                          if \<not> ok then Done (None, left)
                          else if lv_constant lv then
                            (case ie_eval env var of
                               None \<Rightarrow> Abort
                             | Some _ \<Rightarrow> (case pal left of None \<Rightarrow> Done (None, left) | Some left \<Rightarrow> Abort))
                          else Done (Some (Token_variable var, []), left)))))))"

text \<open>The loop over the tokens.\<close>

fun convert_tokens ::
  "instring_env \<Rightarrow> config_env \<Rightarrow> addr \<Rightarrow> lua_token list \<Rightarrow> nat \<Rightarrow>
   ((instring_token \<times> string) list option \<times> nat) run"
where
  "convert_tokens env cfg setting [] left = Done (Some [], left)"
| "convert_tokens env cfg setting (t # ts) left =
     run_bind
       (case t of
          Lua_literal value \<Rightarrow> Done (instring_token_literal_lua_to_c value left)
        | Lua_variable name module_name params \<Rightarrow>
            instring_token_variable_lua_to_c env cfg setting name module_name params left)
       (\<lambda>(r, left). case r of
          None \<Rightarrow> Done (None, left)
        | Some x \<Rightarrow>
            run_bind (convert_tokens env cfg setting ts left) (\<lambda>(rs, left). Done (map_option ((#) x) rs, left)))"

fun is_lua_variable :: "lua_token \<Rightarrow> bool" where
  "is_lua_variable (Lua_literal s) = False"
| "is_lua_variable (Lua_variable n m ps) = True"

fun is_variable :: "instring_token \<Rightarrow> bool" where
  "is_variable (Token_literal s) = False"
| "is_variable (Token_variable v) = True"

text \<open>The numbers of the tokens that are variables, in order.\<close>

definition variable_tokens :: "instring_token list \<Rightarrow> nat list" where
  "variable_tokens toks = filter (\<lambda>i. is_variable (toks ! i)) [0..<length toks]"

definition unknown_values :: value_states where
  "unknown_values = \<lparr>vs_boolean = VALUE_UNKNOWN, vs_integer = VALUE_UNKNOWN, vs_number = VALUE_UNKNOWN,
     vs_size = VALUE_UNKNOWN, vs_string = VALUE_UNKNOWN\<rparr>"

text \<open>
  After the tokens: the array of variables, which has as many elements as the Lua object has
  variables and is not tested for being null, and the values of a literal.
\<close>

definition instring_finish ::
  "instring_env \<Rightarrow> lua_token list \<Rightarrow> (instring_token \<times> string) list \<Rightarrow> nat \<times> (nat \<rightharpoonup> string) \<Rightarrow>
   (instring option \<times> nat \<times> (nat \<rightharpoonup> string)) run"
where
  "instring_finish env ltoks rs x =
     (let (left, reg) = x; toks = map fst rs; iov = map snd rs;
          var_count = length (filter is_lua_variable ltoks);
          written = variable_tokens toks;
          s = \<lparr>is_variables = map Some written @ replicate (var_count - length written) None,
            is_tokens = toks,
            is_buf_head = \<lparr>buf_head = 0, buf_tail = 0, buf_memory_type = SHUSO_BUF_EXTERNAL\<rparr>,
            is_buf_link_iovcnt = length ltoks, is_iov = iov, cv_reset_state = unknown_values,
            cv_state = unknown_values, cv_boolean = False, cv_integer = 0, cv_number = 0,
            cv_size = 0, cv_string = None, cv_string_lua_ref = None\<rparr>
      in if var_count > 0 then
           (case pal left of
              None \<Rightarrow> c_assert (written = []) (Done (Some s, left, reg))
            | Some left \<Rightarrow> Done (Some s, left, reg))
         else
           (case toks of
              [Token_literal str] \<Rightarrow>
                (let r = ie_ref env reg;
                     s = s\<lparr>is_iov := [str], cv_string := Some str, cv_string_lua_ref := Some r,
                       cv_state := (cv_state s)\<lparr>vs_string := VALUE_VALID\<rparr>\<rparr>
                 in run_bind (shuso_instring_boolean_value env False (s, reg(r \<mapsto> str))) (\<lambda>(_, x).
                    run_bind (shuso_instring_integer_value env False x) (\<lambda>(_, x).
                    run_bind (shuso_instring_number_value env False x) (\<lambda>(_, x).
                    run_bind (shuso_instring_size_value env False x) (\<lambda>(_, (s, reg)).
                    Done (Some s, left, reg))))))
            | _ \<Rightarrow> Abort))"

text \<open>
  \<open>left\<close> are the requests the pool still serves, \<open>preallocd\<close> says that the caller brought
  the memory of the instring.  (The shortcut for an object with a field \<^verbatim>\<open>ptr\<close>, which no code
  sets, is left out.)
\<close>

definition luaS_instring_lua_to_c_generic ::
  "instring_env \<Rightarrow> config_env \<Rightarrow> addr \<Rightarrow> bool \<Rightarrow> lua_token list \<Rightarrow> nat \<times> (nat \<rightharpoonup> string) \<Rightarrow>
   (instring option \<times> nat \<times> (nat \<rightharpoonup> string)) run"
where
  "luaS_instring_lua_to_c_generic env cfg setting preallocd ltoks x =
     (let (left, reg) = x in
      case (if preallocd then Some left else pal left) of
        None \<Rightarrow> Done (None, left, reg)
      | Some left \<Rightarrow>
     (case pal left of
        None \<Rightarrow> Done (None, left, reg)
      | Some left \<Rightarrow>
     (case pal left of
        None \<Rightarrow> Done (None, left, reg)
      | Some left \<Rightarrow>
          run_bind (convert_tokens env cfg setting ltoks left) (\<lambda>(r, left).
            case r of
              None \<Rightarrow> Done (None, left, reg)
            | Some rs \<Rightarrow> instring_finish env ltoks rs (left, reg)))))"

section \<open>Copies for the workers\<close>

definition shuso_instring_copy_for_worker :: "instring \<Rightarrow> nat \<Rightarrow> (instring option \<times> nat) run" where
  "shuso_instring_copy_for_worker old left =
     (if is_variables old = [] then Done (Some old, left)
      else
        c_assert (is_tokens old \<noteq> [])
          (let vars = pal left; left = (case vars of None \<Rightarrow> left | Some l \<Rightarrow> l);
               toks = pal left; left = (case toks of None \<Rightarrow> left | Some l \<Rightarrow> l)
           in if vars = None \<or> toks = None then Done (None, left)
              else
                (case pal left of
                   None \<Rightarrow> Done (None, left)
                 | Some left \<Rightarrow>
                     c_assert (length (variable_tokens (is_tokens old)) = length (is_variables old))
                       (Done (Some (old\<lparr>
                          is_variables := map Some (variable_tokens (is_tokens old)),
                          is_buf_head := \<lparr>buf_head = 0, buf_tail = 0, buf_memory_type = SHUSO_BUF_EXTERNAL\<rparr>,
                          is_buf_link_iovcnt := length (is_tokens old),
                          is_iov := map (\<lambda>t. case t of Token_literal str \<Rightarrow> str | Token_variable _ \<Rightarrow> [])
                            (is_tokens old)\<rparr>), left)))))"

fun copy_instrings :: "instring list \<Rightarrow> nat \<Rightarrow> (instring list option \<times> nat) run" where
  "copy_instrings [] left = Done (Some [], left)"
| "copy_instrings (old # olds) left =
     run_bind (shuso_instring_copy_for_worker old left) (\<lambda>(r, left). case r of
        None \<Rightarrow> Done (None, left)
      | Some s \<Rightarrow> run_bind (copy_instrings olds left) (\<lambda>(rs, left). Done (map_option ((#) s) rs, left)))"

definition shuso_instrings_copy_for_worker :: "instring list \<Rightarrow> nat \<Rightarrow> (instring list option \<times> nat) run" where
  "shuso_instrings_copy_for_worker old left =
     (if old = [] then Done (Some old, left)
      else if list_all (\<lambda>s. is_variables s = []) old then Done (Some old, left)
      else (case pal left of
              None \<Rightarrow> Done (None, left)
            | Some left \<Rightarrow> copy_instrings old left))"

text \<open>The conversion of a list of instrings.\<close>

fun convert_instrings ::
  "instring_env \<Rightarrow> config_env \<Rightarrow> addr \<Rightarrow> lua_token list list \<Rightarrow> nat \<times> (nat \<rightharpoonup> string) \<Rightarrow>
   (instring list option \<times> nat \<times> (nat \<rightharpoonup> string)) run"
where
  "convert_instrings env cfg setting [] x = Done (Some [], x)"
| "convert_instrings env cfg setting (l # ls) x =
     run_bind (luaS_instring_lua_to_c_generic env cfg setting True l x) (\<lambda>(r, x). case r of
        None \<Rightarrow> Done (None, x)
      | Some s \<Rightarrow>
          run_bind (convert_instrings env cfg setting ls x) (\<lambda>(rs, x). Done (map_option ((#) s) rs, x)))"

definition luaS_instrings_lua_to_c ::
  "instring_env \<Rightarrow> config_env \<Rightarrow> addr \<Rightarrow> lua_token list list \<Rightarrow> nat \<times> (nat \<rightharpoonup> string) \<Rightarrow>
   (instring list option \<times> nat \<times> (nat \<rightharpoonup> string)) run"
where
  "luaS_instrings_lua_to_c env cfg setting ls x =
     (case pal (fst x) of
        None \<Rightarrow> Done (None, x)
      | Some left \<Rightarrow> convert_instrings env cfg setting ls (left, snd x))"

section \<open>Well-formed instrings\<close>

text \<open>
  The array of variables points to the variable tokens in order, there is one
  \<^verbatim>\<open>iovec\<close> per token, and what the cache says is valid is the conversion of the current bytes.
\<close>

definition conv_ok :: "value_state \<Rightarrow> 'a \<Rightarrow> 'a option \<Rightarrow> bool" where
  "conv_ok st cached r \<longleftrightarrow>
     (case st of VALUE_UNKNOWN \<Rightarrow> True | VALUE_INVALID \<Rightarrow> r = None | VALUE_VALID \<Rightarrow> r = Some cached)"

lemma conv_ok_simps [simp]:
  "conv_ok VALUE_UNKNOWN c r"
  "conv_ok VALUE_INVALID c r \<longleftrightarrow> r = None"
  "conv_ok VALUE_VALID c r \<longleftrightarrow> r = Some c"
  by (simp_all add: conv_ok_def)

definition cache_ok :: "instring_env \<Rightarrow> instring \<Rightarrow> bool" where
  "cache_ok env s \<longleftrightarrow>
     (let t = concat (is_iov s); st = cv_state s in
      conv_ok (vs_boolean st) (cv_boolean s) (instring_toboolean t) \<and>
      conv_ok (vs_integer st) (cv_integer s) (map_option c_int (ie_tointeger env t)) \<and>
      conv_ok (vs_number st) (cv_number s) (ie_tonumber env t) \<and>
      conv_ok (vs_size st) (cv_size s) (map_option (\<lambda>v. double_of_nat (nat v)) (ie_tosize env t)) \<and>
      conv_ok (vs_string st) (cv_string s) (Some (Some t)) \<and>
      (cv_string_lua_ref s \<noteq> None \<longrightarrow> vs_string st = VALUE_VALID))"

definition instring_wf :: "instring \<Rightarrow> bool" where
  "instring_wf s \<longleftrightarrow>
     is_variables s = map Some (variable_tokens (is_tokens s)) \<and> is_tokens s \<noteq> [] \<and>
     length (is_iov s) = length (is_tokens s) \<and> is_buf_link_iovcnt s = length (is_tokens s) \<and>
     cv_reset_state s = unknown_values"

text \<open>The value of the variable of a token.\<close>

definition token_value :: "instring_env \<Rightarrow> instring_token \<Rightarrow> string option" where
  "token_value env t = (case t of Token_literal s \<Rightarrow> None | Token_variable v \<Rightarrow> ie_eval env v)"

text \<open>
  What interpolation leaves in \<^verbatim>\<open>buffer.iov\<close>: the value of the \<open>i\<close>-th variable goes to
  element \<open>i\<close>, whichever token the variable is.
\<close>

definition interpolated :: "instring_env \<Rightarrow> instring \<Rightarrow> string list" where
  "interpolated env s =
     map (\<lambda>i. if i < length (variable_tokens (is_tokens s))
              then (case token_value env (is_tokens s ! (variable_tokens (is_tokens s) ! i)) of
                      Some val \<Rightarrow> val | None \<Rightarrow> is_iov s ! i)
              else is_iov s ! i) [0..<length (is_iov s)]"

lemma variable_tokens_less: "t \<in> set (variable_tokens toks) \<Longrightarrow> t < length toks \<and> is_variable (toks ! t)"
  by (auto simp: variable_tokens_def)

lemma variable_tokens_length: "length (variable_tokens toks) \<le> length toks"
  unfolding variable_tokens_def by (rule order_trans [OF length_filter_le]) simp

lemma interpolate_vars_ok:
  assumes "\<forall>t \<in> set js. t < length toks \<and> is_variable (toks ! t)" and "i + length js \<le> length iov"
  shows "interpolate_vars env toks i (map Some js) (r, iov) =
    Done (r \<or> (\<exists>t \<in> set js. token_value env (toks ! t) \<noteq> None),
      map (\<lambda>k. if i \<le> k \<and> k < i + length js
               then (case token_value env (toks ! (js ! (k - i))) of Some val \<Rightarrow> val | None \<Rightarrow> iov ! k)
               else iov ! k) [0..<length iov])"
  using assms
proof (induction js arbitrary: i r iov)
  case Nil
  then show ?case by (auto intro!: nth_equalityI)
next
  case (Cons t js)
  then obtain v where v: "t < length toks" "toks ! t = Token_variable v" by (cases "toks ! t") auto
  show ?case
  proof (cases "ie_eval env v")
    case None
    have "interpolate_vars env toks i (map Some (t # js)) (r, iov) =
        interpolate_vars env toks (i + 1) (map Some js) (r, iov)"
      using v None by simp
    then show ?thesis
      using Cons.IH [of "i + 1" iov r] Cons.prems v None
      by (auto simp: token_value_def nth_Cons' not_less_eq_eq intro!: map_cong split: option.splits)
  next
    case (Some val)
    have "interpolate_vars env toks i (map Some (t # js)) (r, iov) =
        interpolate_vars env toks (i + 1) (map Some js) (True, iov[i := val])"
      using v Some by simp
    then show ?thesis
      using Cons.IH [of "i + 1" "iov[i := val]" True] Cons.prems v Some
      by (auto simp: token_value_def nth_Cons' nth_list_update not_less_eq_eq intro!: map_cong split: option.splits)
  qed
qed

lemma interpolated_length: "length (interpolated env s) = length (is_iov s)"
  by (simp add: interpolated_def)

lemma interpolated_none:
  assumes "instring_wf s" and "\<forall>t \<in> set (variable_tokens (is_tokens s)). token_value env (is_tokens s ! t) = None"
  shows "interpolated env s = is_iov s"
  using assms by (intro nth_equalityI) (auto simp: interpolated_def)

text \<open>Interpolation keeps the instring well-formed and its cache true.\<close>

lemma interpolate_ok:
  assumes wf: "instring_wf s" and cache: "cache_ok env s"
  obtains s' reg' where "shuso_instring_interpolate env (s, reg) = Done (s', reg')" "instring_wf s'" "cache_ok env s'"
    "is_iov s' = interpolated env s" "is_tokens s' = is_tokens s" "is_buf_head s' = is_buf_head s"
proof -
  let ?js = "variable_tokens (is_tokens s)"
  let ?any = "\<exists>t \<in> set ?js. token_value env (is_tokens s ! t) \<noteq> None"
  have js: "\<forall>t \<in> set ?js. t < length (is_tokens s) \<and> is_variable (is_tokens s ! t)"
    using variable_tokens_less by blast
  have vars: "is_variables s = map Some ?js" "0 + length ?js \<le> length (is_iov s)"
    using wf variable_tokens_length [of "is_tokens s"] by (auto simp: instring_wf_def)
  have loop: "interpolate_vars env (is_tokens s) 0 (is_variables s) (False, is_iov s) = Done (?any, interpolated env s)"
    using interpolate_vars_ok [OF js vars(2), of env False] by (simp add: vars(1) interpolated_def)
  show thesis
  proof (cases ?any)
    case True
    then have ne: "is_variables s \<noteq> []" using vars(1) by auto
    let ?s = "s\<lparr>is_iov := interpolated env s, cv_string_lua_ref := None, cv_state := cv_reset_state s\<rparr>"
    obtain reg' where "shuso_instring_interpolate env (s, reg) = Done (?s, reg')"
      using loop True ne by (simp add: shuso_instring_interpolate_def Let_def)
    moreover have "instring_wf ?s" "cache_ok env ?s"
      using wf by (auto simp: instring_wf_def cache_ok_def interpolated_length unknown_values_def Let_def)
    ultimately show thesis by (rule that) simp_all
  next
    case False
    then have i: "interpolated env s = is_iov s" using interpolated_none [OF wf] by blast
    have "s\<lparr>is_iov := is_iov s\<rparr> = s" by simp
    then have "shuso_instring_interpolate env (s, reg) = Done (s, reg)"
      using loop False i by (auto simp: shuso_instring_interpolate_def Let_def)
    then show thesis using that wf cache i by simp
  qed
qed

abbreviation short_pieces :: "string list \<Rightarrow> bool" where
  "short_pieces iov \<equiv> list_all (\<lambda>s. length s < 1000) iov"

lemma tovalue_short:
  "short_pieces (is_iov s) \<Longrightarrow> luaS_instring_tovalue f s = Done (f (concat (is_iov s)))"
  by (simp add: luaS_instring_tovalue_def luaS_push_iovec_as_string_def)

text \<open>What every function that returns a value does, given the conversion of the text.\<close>

definition value_spec ::
  "instring_env \<Rightarrow> bool \<Rightarrow> instring \<Rightarrow> 'a option \<Rightarrow> ((bool \<times> 'a option) \<times> instring_state) run \<Rightarrow> bool"
where
  "value_spec env want s r m \<longleftrightarrow>
     (\<exists>s' reg'. m = Done ((r \<noteq> None, if want then r else None), (s', reg')) \<and> instring_wf s' \<and> cache_ok env s' \<and>
        is_iov s' = interpolated env s \<and> is_tokens s' = is_tokens s)"

lemma boolean_value_ok:
  assumes wf: "instring_wf s" and cache: "cache_ok env s" and short: "short_pieces (interpolated env s)"
  shows "value_spec env want s (instring_toboolean (concat (interpolated env s)))
    (shuso_instring_boolean_value env want (s, reg))"
proof -
  obtain s' reg' where i: "shuso_instring_interpolate env (s, reg) = Done (s', reg')" "instring_wf s'" "cache_ok env s'"
    "is_iov s' = interpolated env s" "is_tokens s' = is_tokens s"
    using interpolate_ok [OF wf cache, of reg] by metis
  note def = shuso_instring_boolean_value_def value_spec_def i(1)
  show ?thesis
  proof (cases "vs_boolean (cv_state s')")
    case VALUE_UNKNOWN
    then show ?thesis using i short
      by (cases "instring_toboolean (concat (interpolated env s))")
        (auto simp: def tovalue_short instring_wf_def cache_ok_def Let_def)
  qed (use i in \<open>auto simp: def cache_ok_def Let_def\<close>)
qed

lemma integer_value_ok:
  assumes wf: "instring_wf s" and cache: "cache_ok env s" and short: "short_pieces (interpolated env s)"
  shows "value_spec env want s (map_option c_int (ie_tointeger env (concat (interpolated env s))))
    (shuso_instring_integer_value env want (s, reg))"
proof -
  obtain s' reg' where i: "shuso_instring_interpolate env (s, reg) = Done (s', reg')" "instring_wf s'" "cache_ok env s'"
    "is_iov s' = interpolated env s" "is_tokens s' = is_tokens s"
    using interpolate_ok [OF wf cache, of reg] by metis
  note def = shuso_instring_integer_value_def value_spec_def i(1)
  show ?thesis
  proof (cases "vs_integer (cv_state s')")
    case VALUE_UNKNOWN
    then show ?thesis using i short
      by (cases "ie_tointeger env (concat (interpolated env s))")
        (auto simp: def tovalue_short instring_wf_def cache_ok_def Let_def)
  qed (use i in \<open>auto simp: def cache_ok_def Let_def\<close>)
qed

lemma number_value_ok:
  assumes wf: "instring_wf s" and cache: "cache_ok env s" and short: "short_pieces (interpolated env s)"
  shows "value_spec env want s (ie_tonumber env (concat (interpolated env s)))
    (shuso_instring_number_value env want (s, reg))"
proof -
  obtain s' reg' where i: "shuso_instring_interpolate env (s, reg) = Done (s', reg')" "instring_wf s'" "cache_ok env s'"
    "is_iov s' = interpolated env s" "is_tokens s' = is_tokens s"
    using interpolate_ok [OF wf cache, of reg] by metis
  note def = shuso_instring_number_value_def value_spec_def i(1)
  show ?thesis
  proof (cases "vs_number (cv_state s')")
    case VALUE_UNKNOWN
    then show ?thesis using i short
      by (cases "ie_tonumber env (concat (interpolated env s))")
        (auto simp: def tovalue_short instring_wf_def cache_ok_def Let_def)
  qed (use i in \<open>auto simp: def cache_ok_def Let_def\<close>)
qed

lemma size_value_ok:
  assumes wf: "instring_wf s" and cache: "cache_ok env s" and short: "short_pieces (interpolated env s)"
  shows "value_spec env want s (map_option (\<lambda>v. double_of_nat (nat v)) (ie_tosize env (concat (interpolated env s))))
    (shuso_instring_size_value env want (s, reg))"
proof -
  obtain s' reg' where i: "shuso_instring_interpolate env (s, reg) = Done (s', reg')" "instring_wf s'" "cache_ok env s'"
    "is_iov s' = interpolated env s" "is_tokens s' = is_tokens s"
    using interpolate_ok [OF wf cache, of reg] by metis
  note def = shuso_instring_size_value_def value_spec_def i(1)
  show ?thesis
  proof (cases "vs_size (cv_state s')")
    case VALUE_UNKNOWN
    then show ?thesis using i short
      by (cases "ie_tosize env (concat (interpolated env s))")
        (auto simp: def tovalue_short instring_wf_def cache_ok_def Let_def)
  qed (use i in \<open>auto simp: def cache_ok_def Let_def\<close>)
qed

lemma string_value_ok:
  assumes wf: "instring_wf s" and cache: "cache_ok env s" and short: "short_pieces (interpolated env s)"
  shows "value_spec env True s (Some (concat (interpolated env s))) (shuso_instring_string_value env True (s, reg))"
proof -
  obtain s' reg' where i: "shuso_instring_interpolate env (s, reg) = Done (s', reg')" "instring_wf s'" "cache_ok env s'"
    "is_iov s' = interpolated env s" "is_tokens s' = is_tokens s"
    using interpolate_ok [OF wf cache, of reg] by metis
  note def = shuso_instring_string_value_def value_spec_def i(1)
  show ?thesis
  proof (cases "vs_string (cv_state s')")
    case VALUE_UNKNOWN
    then have "cv_string_lua_ref s' = None" using i(3) by (auto simp: cache_ok_def Let_def)
    then show ?thesis using i short VALUE_UNKNOWN
      by (auto simp: def tovalue_short instring_wf_def cache_ok_def Let_def)
  next
    case VALUE_VALID
    then have "cv_string s' = Some (concat (interpolated env s))" using i by (auto simp: cache_ok_def Let_def)
    then show ?thesis using i VALUE_VALID by (auto simp: def)
  qed (use i in \<open>auto simp: cache_ok_def Let_def\<close>)
qed

section \<open>Conversion gives well-formed instrings\<close>

text \<open>A token of the object in Lua and what is made of it, with its \<^verbatim>\<open>iovec\<close>.\<close>

fun token_matches :: "lua_token \<Rightarrow> instring_token \<times> string \<Rightarrow> bool" where
  "token_matches (Lua_literal value) (Token_literal s, iov) \<longleftrightarrow> s = value \<and> iov = value"
| "token_matches (Lua_variable name m params) (Token_variable v, iov) \<longleftrightarrow>
     v_name v = name \<and> v_params v = params \<and> iov = []"
| "token_matches _ _ \<longleftrightarrow> False"

lemma variable_lua_to_c_matches:
  assumes "instring_token_variable_lua_to_c env cfg setting name m params left = Done (Some x, left')"
  shows "token_matches (Lua_variable name m params) x"
  using assms
  by (auto simp: instring_token_variable_lua_to_c_def Let_def c_assert_Done_iff run_bind_Done_iff
      split: option.splits if_splits)

lemma convert_tokens_matches:
  "convert_tokens env cfg setting ltoks left = Done (Some rs, left') \<Longrightarrow> list_all2 token_matches ltoks rs"
proof (induction ltoks arbitrary: left rs)
  case (Cons t ts)
  then obtain x l rs' where x: "rs = x # rs'" "convert_tokens env cfg setting ts l = Done (Some rs', left')"
    "(case t of
          Lua_literal value \<Rightarrow> Done (instring_token_literal_lua_to_c value left)
        | Lua_variable name module_name params \<Rightarrow>
            instring_token_variable_lua_to_c env cfg setting name module_name params left) = Done (Some x, l)"
    by (auto simp: run_bind_Done_iff split: option.splits)
  have "token_matches t x"
  proof (cases t)
    case (Lua_literal str)
    then show ?thesis using x(3)
      by (auto simp: instring_token_literal_lua_to_c_def split: option.splits)
  next
    case (Lua_variable name m params)
    then show ?thesis using x(3) variable_lua_to_c_matches by simp
  qed
  then show ?case using Cons.IH [OF x(2)] x(1) by simp
qed simp

lemma matches_variables:
  "list_all2 token_matches ltoks rs \<Longrightarrow>
   length (variable_tokens (map fst rs)) = length (filter is_lua_variable ltoks)"
proof -
  assume m: "list_all2 token_matches ltoks rs"
  have "length (variable_tokens toks) = length (filter is_variable toks)" for toks
  proof -
    have "filter is_variable toks = map ((!) toks) (variable_tokens toks)"
      unfolding variable_tokens_def by (subst map_nth [of toks, symmetric], subst filter_map) (simp add: o_def)
    then show ?thesis by simp
  qed
  moreover have "length (filter is_variable (map fst rs)) = length (filter is_lua_variable ltoks)"
    using m
  proof (induction ltoks rs rule: list_all2_induct)
    case (Cons t ts x xs)
    then show ?case by (cases t; cases x; cases "fst x") auto
  qed simp
  ultimately show "length (variable_tokens (map fst rs)) = length (filter is_lua_variable ltoks)" by simp
qed

lemma boolean_value_long:
  "is_variables s = [] \<Longrightarrow> vs_boolean (cv_state s) = VALUE_UNKNOWN \<Longrightarrow> \<not> short_pieces (is_iov s) \<Longrightarrow>
   shuso_instring_boolean_value env want (s, reg) = Abort"
  by (simp add: shuso_instring_boolean_value_def shuso_instring_interpolate_def luaS_instring_tovalue_def
      luaS_push_iovec_as_string_def c_assert_def)

text \<open>The values of a literal are computed when it is converted.\<close>

lemma literal_values:
  assumes wf: "instring_wf s" and cache: "cache_ok env s" and lit: "is_tokens s = [Token_literal str]" "is_iov s = [str]"
    and unknown: "vs_boolean (cv_state s) = VALUE_UNKNOWN"
    and run: "run_bind (shuso_instring_boolean_value env False (s, reg)) (\<lambda>(_, x).
       run_bind (shuso_instring_integer_value env False x) (\<lambda>(_, x).
       run_bind (shuso_instring_number_value env False x) (\<lambda>(_, x).
       run_bind (shuso_instring_size_value env False x) (\<lambda>(_, (s, reg)).
       Done (Some s, left, reg))))) = Done (Some s', y)"
  shows "instring_wf s' \<and> cache_ok env s' \<and> is_tokens s' = [Token_literal str] \<and> is_iov s' = [str]"
proof -
  have vars: "variable_tokens [Token_literal str] = []" by (simp add: variable_tokens_def)
  have inter: "interpolated env q = [str]" if "is_tokens q = [Token_literal str]" "is_iov q = [str]" for q
    using that by (simp add: interpolated_def vars)
  have "is_variables s = []" using wf lit vars by (simp add: instring_wf_def)
  then have short: "length str < 1000" using run boolean_value_long [of s env False reg] unknown lit(2)
    by (cases "length str < 1000") auto
  obtain s1 r1 where s1: "shuso_instring_boolean_value env False (s, reg) = Done ((instring_toboolean str \<noteq> None, None), (s1, r1))"
    "instring_wf s1" "cache_ok env s1" "is_tokens s1 = [Token_literal str]" "is_iov s1 = [str]"
    using boolean_value_ok [OF wf cache, of False reg] short lit by (auto simp: value_spec_def inter)
  obtain b2 s2 r2 where s2: "shuso_instring_integer_value env False (s1, r1) = Done (b2, (s2, r2))"
    "instring_wf s2" "cache_ok env s2" "is_tokens s2 = [Token_literal str]" "is_iov s2 = [str]"
    using integer_value_ok [OF s1(2,3), of False r1] short s1(4,5) by (auto simp: value_spec_def inter)
  obtain b3 s3 r3 where s3: "shuso_instring_number_value env False (s2, r2) = Done (b3, (s3, r3))"
    "instring_wf s3" "cache_ok env s3" "is_tokens s3 = [Token_literal str]" "is_iov s3 = [str]"
    using number_value_ok [OF s2(2,3), of False r2] short s2(4,5) by (auto simp: value_spec_def inter)
  obtain b4 s4 r4 where s4: "shuso_instring_size_value env False (s3, r3) = Done (b4, (s4, r4))"
    "instring_wf s4" "cache_ok env s4" "is_tokens s4 = [Token_literal str]" "is_iov s4 = [str]"
    using size_value_ok [OF s3(2,3), of False r3] short s3(4,5) by (auto simp: value_spec_def inter)
  show ?thesis using run s1(1) s2(1) s3(1) s4 by auto
qed

lemma conversion_ok:
  assumes conv: "luaS_instring_lua_to_c_generic env cfg setting preallocd ltoks (n, reg) = Done (Some s, y)"
    and size: "ltoks \<noteq> []"
  shows "instring_wf s \<and> cache_ok env s \<and> list_all2 token_matches ltoks (zip (is_tokens s) (is_iov s))"
proof -
  obtain left left' rs where rs: "convert_tokens env cfg setting ltoks left = Done (Some rs, left')"
    and cont: "instring_finish env ltoks rs (left', reg) = Done (Some s, y)"
    using conv by (auto simp: luaS_instring_lua_to_c_generic_def run_bind_Done_iff split: option.splits if_splits)
  note m = convert_tokens_matches [OF rs]
  have len: "length rs = length ltoks" using m by (simp add: list_all2_lengthD)
  note vars = matches_variables [OF m]
  let ?s = "\<lparr>is_variables = map Some (variable_tokens (map fst rs)), is_tokens = map fst rs,
     is_buf_head = \<lparr>buf_head = 0, buf_tail = 0, buf_memory_type = SHUSO_BUF_EXTERNAL\<rparr>,
     is_buf_link_iovcnt = length ltoks, is_iov = map snd rs, cv_reset_state = unknown_values,
     cv_state = unknown_values, cv_boolean = False, cv_integer = 0, cv_number = 0,
     cv_size = 0, cv_string = None, cv_string_lua_ref = None\<rparr>"
  have wf: "instring_wf ?s" using size len by (auto simp: instring_wf_def)
  have cache: "cache_ok env ?s" by (simp add: cache_ok_def unknown_values_def)
  show ?thesis
  proof (cases "filter is_lua_variable ltoks = []")
    case False
    then have "s = ?s" using cont vars
      by (auto simp: instring_finish_def Let_def c_assert_Done_iff split: option.splits if_splits)
    then show ?thesis using wf cache m by (simp add: zip_map_fst_snd)
  next
    case True
    obtain str where str: "map fst rs = [Token_literal str]"
      using cont True by (auto simp: instring_finish_def Let_def split: list.splits instring_token.splits)
    then obtain x where x: "rs = [(Token_literal str, x)]" by (cases rs) auto
    then obtain v where v: "ltoks = [Lua_literal v]" "v = str" "x = str"
      using m by (cases ltoks; cases "hd ltoks") auto
    have vt: "variable_tokens [Token_literal str] = []" by (simp add: variable_tokens_def)
    let ?r = "ie_ref env reg"
    let ?q = "?s\<lparr>is_iov := [str], cv_string := Some str, cv_string_lua_ref := Some ?r,
       cv_state := unknown_values\<lparr>vs_string := VALUE_VALID\<rparr>\<rparr>"
    have q: "instring_wf ?q" "cache_ok env ?q" "is_tokens ?q = [Token_literal str]" "is_iov ?q = [str]"
      "vs_boolean (cv_state ?q) = VALUE_UNKNOWN"
      using wf x by (auto simp: instring_wf_def cache_ok_def unknown_values_def)
    have "run_bind (shuso_instring_boolean_value env False (?q, reg(?r \<mapsto> str))) (\<lambda>(_, x).
       run_bind (shuso_instring_integer_value env False x) (\<lambda>(_, x).
       run_bind (shuso_instring_number_value env False x) (\<lambda>(_, x).
       run_bind (shuso_instring_size_value env False x) (\<lambda>(_, (s, reg)).
       Done (Some s, left', reg))))) = Done (Some s, y)"
      using cont True x vt by (simp add: instring_finish_def Let_def)
    from literal_values [OF q this] show ?thesis using v by simp
  qed
qed

section \<open>Copies\<close>

lemma copy_ok:
  assumes wf: "instring_wf old" and run: "shuso_instring_copy_for_worker old left = Done (Some new, left')"
  shows "instring_wf new \<and> is_tokens new = is_tokens old \<and>
    (is_variables old \<noteq> [] \<longrightarrow> is_iov new = map (\<lambda>t. case t of Token_literal str \<Rightarrow> str | Token_variable _ \<Rightarrow> []) (is_tokens old))"
  using assms
  by (auto simp: shuso_instring_copy_for_worker_def instring_wf_def c_assert_Done_iff Let_def
      split: if_splits option.splits)

lemma copy_succeeds:
  assumes wf: "instring_wf old" and left: "3 \<le> left"
  shows "\<exists>new left'. shuso_instring_copy_for_worker old left = Done (Some new, left')"
proof -
  have "pal left = Some (left - 1)" "pal (left - 1) = Some (left - 1 - 1)" "pal (left - 1 - 1) = Some (left - 1 - 1 - 1)"
    using left by (auto simp: pal_def)
  then show ?thesis using wf by (simp add: shuso_instring_copy_for_worker_def instring_wf_def Let_def)
qed

section \<open>The text an instring stands for\<close>

definition expand :: "instring_env \<Rightarrow> instring_token list \<Rightarrow> string" where
  "expand env toks =
     concat (map (\<lambda>t. case t of Token_literal s \<Rightarrow> s
                     | Token_variable v \<Rightarrow> (case ie_eval env v of Some val \<Rightarrow> val | None \<Rightarrow> [])) toks)"

lemma variable_tokens_prefix:
  "variable_tokens (map Token_variable vs @ map Token_literal ls) = [0..<length vs]"
proof -
  have "filter (\<lambda>i. is_variable ((map Token_variable vs @ map Token_literal ls) ! i)) [0..<length vs + length ls] =
      filter (\<lambda>i. i < length vs) [0..<length vs + length ls]"
    by (rule filter_cong) (auto simp: nth_append)
  also have "\<dots> = filter (\<lambda>i. i < length vs) ([0..<length vs] @ [length vs..<length vs + length ls])"
    using upt_add_eq_append [of 0 "length vs" "length ls"] by simp
  also have "\<dots> = [0..<length vs]" by (simp add: filter_empty_conv filter_True)
  finally show ?thesis by (simp add: variable_tokens_def)
qed

lemma interpolated_prefix:
  assumes wf: "instring_wf s" and toks: "is_tokens s = map Token_variable vs @ map Token_literal ls"
    and evals: "\<forall>v \<in> set vs. ie_eval env v \<noteq> None" and lits: "drop (length vs) (is_iov s) = ls"
  shows "interpolated env s = map (\<lambda>v. the (ie_eval env v)) vs @ ls"
proof (rule nth_equalityI)
  have len: "length (is_iov s) = length vs + length ls" using wf toks by (simp add: instring_wf_def)
  then show "length (interpolated env s) = length (map (\<lambda>v. the (ie_eval env v)) vs @ ls)"
    by (simp add: interpolated_length)
  fix i assume i: "i < length (interpolated env s)"
  have lit: "is_iov s ! i = ls ! (i - length vs)" if "length vs \<le> i"
    using that i len lits nth_drop [of "length vs" "is_iov s" "i - length vs"] by (simp add: interpolated_length)
  have ev: "ie_eval env (vs ! i) \<noteq> None" if "i < length vs" using that evals by (metis nth_mem)
  show "interpolated env s ! i = (map (\<lambda>v. the (ie_eval env v)) vs @ ls) ! i"
    using i ev len lit
    by (auto simp: interpolated_def toks variable_tokens_prefix token_value_def nth_append split: option.splits)
qed

lemma expand_prefix:
  "\<forall>v \<in> set vs. ie_eval env v \<noteq> None \<Longrightarrow>
   expand env (map Token_variable vs @ map Token_literal ls) = concat (map (\<lambda>v. the (ie_eval env v)) vs @ ls)"
  by (simp add: expand_def o_def) (rule arg_cong [where f = concat], auto split: option.splits)

section \<open>Properties\<close>

definition example_instring_env :: instring_env where
  "example_instring_env = \<lparr>ie_eval = (\<lambda>v. if v_name v = ''mode'' then Some ''on'' else None),
     ie_tointeger = (\<lambda>s. if s = ''7'' then Some 7 else None), ie_tonumber = (\<lambda>s. None),
     ie_tosize = (\<lambda>s. if s = ''7'' then Some 7 else None), ie_ref = (\<lambda>reg. if reg 1 = None then 1 else 2)\<rparr>"

definition example_config_env :: config_env where
  "example_config_env = \<lparr>ce_find_variable = (\<lambda>name block. if name = ''mode''
       then Some \<lparr>lv_eval = 64, lv_privdata = None, lv_constant = False\<rparr> else None),
     ce_parent_block = (\<lambda>s. 4096)\<rparr>"

abbreviation example_variable :: variable where
  "example_variable \<equiv> \<lparr>v_name = ''mode'', v_module = None, v_setting = 512, v_block = 4096, v_params = [],
     v_eval = 64, v_privdata = None\<rparr>"

text \<open>What the conversion of \<^verbatim>\<open>"$mode-x"\<close> gives.\<close>

definition example_instring :: instring where
  "example_instring = \<lparr>is_variables = [Some 0], is_tokens = [Token_variable example_variable, Token_literal ''-x''],
     is_buf_head = \<lparr>buf_head = 0, buf_tail = 0, buf_memory_type = SHUSO_BUF_EXTERNAL\<rparr>,
     is_buf_link_iovcnt = 2, is_iov = [[], ''-x''], cv_reset_state = unknown_values, cv_state = unknown_values,
     cv_boolean = False, cv_integer = 0, cv_number = 0, cv_size = 0, cv_string = None, cv_string_lua_ref = None\<rparr>"

lemma example_instring_wf: "instring_wf example_instring" "cache_ok env example_instring"
  by (simp_all add: example_instring_def instring_wf_def cache_ok_def unknown_values_def variable_tokens_def)

text \<open>C12: Every instring that the conversion from Lua returns is well-formed: it has the tokens of
  the Lua object, one \<^verbatim>\<open>iovec\<close> per token that holds the bytes of a literal, pointers to exactly
  its variables in order, and a cache that agrees with its text.\<close>

theorem instring_conversion_wf:
  assumes "luaS_instring_lua_to_c_generic env cfg setting preallocd ltoks (left, reg) = Done (Some s, y)"
  shows "instring_wf s \<and> cache_ok env s \<and> list_all2 token_matches ltoks (zip (is_tokens s) (is_iov s))"
proof (rule conversion_ok [OF assms])
  show "ltoks \<noteq> []"
    using assms by (auto simp: luaS_instring_lua_to_c_generic_def instring_finish_def split: option.splits if_splits)
qed

lemma example_conversion:
  "luaS_instring_lua_to_c_generic example_instring_env example_config_env 512 False
     [Lua_variable ''mode'' None [], Lua_literal ''-x''] (100, Map.empty) = Done (Some example_instring, 94, Map.empty)"
  by (simp add: luaS_instring_lua_to_c_generic_def pal_def instring_token_variable_lua_to_c_def
      instring_token_literal_lua_to_c_def example_config_env_def example_instring_def instring_finish_def
      variable_tokens_def unknown_values_def Let_def)

theorem instring_conversion_wf_witness:
  "instring_wf example_instring \<and> cache_ok example_instring_env example_instring \<and>
   list_all2 token_matches [Lua_variable ''mode'' None [], Lua_literal ''-x'']
     (zip (is_tokens example_instring) (is_iov example_instring))"
  by (rule instring_conversion_wf [OF example_conversion])


lemma example_interpolated: "interpolated example_instring_env example_instring = [''on'', ''-x'']"
  by (simp add: interpolated_def example_instring_def example_instring_env_def variable_tokens_def token_value_def)




text \<open>Interpolation stores the value of the first variable in the first element, of the second in
  the second, and so on, whichever tokens they are: in a literal followed by a variable, the
  value replaces the literal.\<close>

theorem instring_literal_overwritten:
  assumes "instring_wf s" and "cache_ok env s" and "is_tokens s = [Token_literal l, Token_variable v]"
    and "is_iov s = [l, []]" and "ie_eval env v = Some val" and "length val < 1000"
  shows "(\<exists>y. shuso_instring_string_value env True (s, reg) = Done ((True, Some val), y)) \<and>
    expand env (is_tokens s) = l @ val"
proof -
  have "variable_tokens [Token_literal l, Token_variable v] = [1]" by (simp add: variable_tokens_def)
  then have "interpolated env s = [val, []]"
    using assms(3-5) by (simp add: interpolated_def token_value_def)
  then show ?thesis
    using string_value_ok [OF assms(1,2), of reg] assms(3,5,6) by (auto simp: value_spec_def expand_def)
qed

theorem instring_literal_overwritten_witness:
  "\<exists>s. is_tokens s = [Token_literal ''x-'', Token_variable example_variable] \<and>
     (\<exists>y. shuso_instring_string_value example_instring_env True (s, Map.empty) = Done ((True, Some ''on''), y)) \<and>
     expand example_instring_env (is_tokens s) = ''x-on''"
proof -
  let ?s = "example_instring\<lparr>is_variables := [Some 1], is_tokens := [Token_literal ''x-'', Token_variable example_variable],
     is_iov := [''x-'', []]\<rparr>"
  have "instring_wf ?s" "cache_ok example_instring_env ?s"
    by (simp_all add: example_instring_def instring_wf_def cache_ok_def unknown_values_def variable_tokens_def)
  from instring_literal_overwritten [OF this, of "''x-''" example_variable "''on''" Map.empty]
  show ?thesis by (intro exI [of _ ?s]) (simp add: example_instring_env_def)
qed

text \<open>Asking for the string without wanting it marks a string that was never stored as valid.\<close>

lemma instring_string_unwanted:
  assumes "is_variables s = []" and "vs_string (cv_state s) = VALUE_UNKNOWN" and "cv_string s = None"
    and "cv_string_lua_ref s = None" and "short_pieces (is_iov s)"
  shows "\<exists>x y. shuso_instring_string_value env False (s, reg) = Done ((True, None), x) \<and>
    shuso_instring_string_value env True x = Done ((True, None), y)"
  using assms by (simp add: shuso_instring_string_value_def shuso_instring_interpolate_def tovalue_short Let_def)

text \<open>The buffer of an instring is never given its link: it is empty.\<close>

lemma instring_buffer_empty:
  assumes "instring_finish env ltoks rs x = Done (Some s, y)" and "filter is_lua_variable ltoks \<noteq> []"
  shows "buf_head (is_buf_head s) = 0"
  using assms by (auto simp: instring_finish_def c_assert_Done_iff Let_def split: option.splits if_splits prod.splits)

end
