(* ===== verification/Channel.thy ===== *)
theory Channel
  imports Buffer IPC
begin

text \<open>
  The channels between processes in \<^verbatim>\<open>ipc.c\<close>: their shared part (the ring, the descriptor
  for notices and the sockets for passing descriptors), the passing of descriptors, and the
  receivers of descriptors.  The build modelled has \<^verbatim>\<open>eventfd\<close>.
\<close>

section \<open>The shared part\<close>

text \<open>\<^verbatim>\<open>shuso_ipc_channel_shared_t\<close>; a descriptor of -1 is closed.\<close>

record channel =
  ch_socket0 :: int
  ch_socket1 :: int
  ch_fd0 :: int
  ch_fd1 :: int
  ch_buf :: addr

text \<open>The open descriptors and the allocated rings, and what the system calls return for them.\<close>

record os =
  os_fds :: "int set"
  os_rings :: "addr set"

record channel_sys =
  cs_mmap :: "os \<Rightarrow> addr option"
  cs_calloc :: "os \<Rightarrow> addr"
  cs_eventfd :: "os \<Rightarrow> int"
  cs_socketpair :: "os \<Rightarrow> (int \<times> int) option"

definition MAP_FAILED :: addr where
  "MAP_FAILED = 2 ^ 64 - 1"

text \<open>
  New descriptors are not open yet, new rings not allocated; \<^verbatim>\<open>mmap\<close> reports a failure
  (\<open>None\<close>) by \<^verbatim>\<open>MAP_FAILED\<close> and never returns a null pointer.
\<close>

definition channel_sys_sound :: "channel_sys \<Rightarrow> bool" where
  "channel_sys_sound sys \<longleftrightarrow>
     (\<forall>o' a. cs_mmap sys o' = Some a \<longrightarrow> a \<noteq> 0 \<and> a \<noteq> MAP_FAILED \<and> a \<notin> os_rings o') \<and>
     (\<forall>o'. cs_calloc sys o' \<noteq> 0 \<longrightarrow> cs_calloc sys o' \<notin> os_rings o') \<and>
     (\<forall>o'. cs_calloc sys o' \<noteq> MAP_FAILED) \<and>
     (\<forall>o'. cs_eventfd sys o' \<noteq> -1 \<longrightarrow> 0 \<le> cs_eventfd sys o' \<and> cs_eventfd sys o' \<notin> os_fds o') \<and>
     (\<forall>o' a b. cs_socketpair sys o' = Some (a, b) \<longrightarrow>
        0 \<le> a \<and> 0 \<le> b \<and> a \<noteq> b \<and> a \<notin> os_fds o' \<and> b \<notin> os_fds o')"

text \<open>
  The result, the channel, and what is open and allocated.  Writing to \<^verbatim>\<open>MAP_FAILED\<close> is \<open>Abort\<close>.
\<close>

definition shuso_ipc_channel_shared_create ::
  "channel_sys \<Rightarrow> int \<Rightarrow> channel \<times> os \<times> shuso \<Rightarrow> (bool \<times> channel \<times> os \<times> shuso) run"
where
  "shuso_ipc_channel_shared_create sys proc x =
     (let (ch, o', S) = x; n = shuso_process_to_procnum proc in
      c_assert (ch_buf ch = 0)
       (let ptr = (if n = SHUTTLESOCK_MASTER \<or> n = SHUTTLESOCK_MANAGER
                   then (case cs_mmap sys o' of Some a \<Rightarrow> a | None \<Rightarrow> MAP_FAILED) else cs_calloc sys o')
        in if ptr = 0 then Done (False, ch, o', S)
           else if ptr = MAP_FAILED then Abort
           else
             (let ch = ch\<lparr>ch_buf := ptr\<rparr>; o' = o'\<lparr>os_rings := insert ptr (os_rings o')\<rparr>;
                  fd = cs_eventfd sys o'
              in if fd = -1
                 then Done (False, ch, o', snd (shuso_set_error ''failed to create IPC channel eventfd'' S))
                 else
                   (let o' = o'\<lparr>os_fds := insert fd (os_fds o')\<rparr>; ch = ch\<lparr>ch_fd0 := -1, ch_fd1 := fd\<rparr>
                    in case cs_socketpair sys o' of
                         None \<Rightarrow> Done (False, ch, o',
                           snd (shuso_set_error ''failed to create IPC channel socket transfer socket'' S))
                       | Some (a, b) \<Rightarrow>
                           Done (True, ch\<lparr>ch_socket0 := a, ch_socket1 := b\<rparr>,
                             o'\<lparr>os_fds := insert a (insert b (os_fds o'))\<rparr>, S)))))"

definition c_close :: "int \<Rightarrow> os \<Rightarrow> os" where
  "c_close fd o' = (if fd = -1 then o' else o'\<lparr>os_fds := os_fds o' - {fd}\<rparr>)"

definition shuso_ipc_channel_shared_destroy :: "channel \<times> os \<Rightarrow> channel \<times> os" where
  "shuso_ipc_channel_shared_destroy x =
     (let (ch, o') = x;
          o' = o'\<lparr>os_rings := os_rings o' - {ch_buf ch}\<rparr>;
          o' = c_close (ch_fd0 ch) o';
          o' = c_close (ch_fd1 ch) o';
          o' = c_close (ch_socket0 ch) o';
          o' = c_close (ch_socket1 ch) o'
      in (\<lparr>ch_socket0 = -1, ch_socket1 = -1, ch_fd0 = -1, ch_fd1 = -1, ch_buf = 0\<rparr>, o'))"

text \<open>A channel as \<^verbatim>\<open>calloc\<close> of \<^verbatim>\<open>shuso_common_t\<close> leaves it.\<close>

definition channel_zero :: channel where
  "channel_zero = \<lparr>ch_socket0 = 0, ch_socket1 = 0, ch_fd0 = 0, ch_fd1 = 0, ch_buf = 0\<rparr>"

section \<open>Receivers of descriptors\<close>

text \<open>
  An entry of the Lua table \<^verbatim>\<open>shuttlesock.ipc.fd_receivers\<close>; the table also gets a field
  \<^verbatim>\<open>timer\<close> of its own.  \<open>rt_active\<close> are the timers that run on the loop, with their data.
\<close>

record fd_receiver =
  fr_callback :: addr
  fr_privdata :: addr
  fr_description :: string

record receivers =
  rt_refs :: "nat \<rightharpoonup> fd_receiver"
  rt_timer :: "addr option"
  rt_active :: "addr \<rightharpoonup> nat"
  rt_calls :: "(addr \<times> bool \<times> nat \<times> int \<times> addr \<times> addr) list"

text \<open>\<^verbatim>\<open>luaL_ref\<close> and \<^verbatim>\<open>lua_newuserdata\<close> are parameters.\<close>

definition shuso_ipc_receive_fd_start ::
  "((nat \<rightharpoonup> fd_receiver) \<Rightarrow> nat) \<Rightarrow> (receivers \<Rightarrow> addr) \<Rightarrow> string \<Rightarrow> bool \<Rightarrow> addr \<Rightarrow> addr \<Rightarrow> receivers \<Rightarrow>
   nat \<times> receivers"
where
  "shuso_ipc_receive_fd_start luaL_ref newuserdata description timed callback pd rt =
     (let r = \<lparr>fr_callback = callback, fr_privdata = pd, fr_description = description\<rparr>;
          ref = luaL_ref (rt_refs rt);
          rt = rt\<lparr>rt_refs := (rt_refs rt)(ref \<mapsto> r)\<rparr>
      in if timed then
           (let timer = newuserdata rt
            in (ref, rt\<lparr>rt_timer := Some timer, rt_active := (rt_active rt)(timer \<mapsto> ref)\<rparr>))
         else (ref, rt))"

text \<open>
  The entry is popped from the Lua stack before its fields are read, so they are read from the
  table: its \<^verbatim>\<open>callback\<close> is nil and calling it is a call of a null pointer.
\<close>

definition shuso_ipc_receive_fd_stop_generic ::
  "nat \<Rightarrow> bool \<Rightarrow> receivers \<times> shuso \<Rightarrow> (bool \<times> receivers \<times> shuso) run"
where
  "shuso_ipc_receive_fd_stop_generic ref run_callback x =
     (let (rt, S) = x in
      case rt_refs rt ref of
        None \<Rightarrow> Done (False, rt,
          snd (shuso_set_error (''no ipc fd receiver found with reference '' @ decimal (int ref)) S))
      | Some r \<Rightarrow>
          if run_callback then Abort
          else
            (let rt = (case rt_timer rt of
                         None \<Rightarrow> rt
                       | Some timer \<Rightarrow> rt\<lparr>rt_active := (rt_active rt)(timer := None)\<rparr>)
             in Done (True, rt\<lparr>rt_refs := (rt_refs rt)(ref := None)\<rparr>, S)))"

definition shuso_ipc_receive_fd_finish :: "nat \<Rightarrow> receivers \<times> shuso \<Rightarrow> (bool \<times> receivers \<times> shuso) run" where
  "shuso_ipc_receive_fd_finish ref x = shuso_ipc_receive_fd_stop_generic ref False x"

definition shuso_ipc_receive_fd_cancel :: "nat \<Rightarrow> receivers \<times> shuso \<Rightarrow> (bool \<times> receivers \<times> shuso) run" where
  "shuso_ipc_receive_fd_cancel ref x = shuso_ipc_receive_fd_stop_generic ref True x"

definition ipc_receive_fd_timeout_cb :: "nat \<Rightarrow> receivers \<times> shuso \<Rightarrow> (receivers \<times> shuso) run" where
  "ipc_receive_fd_timeout_cb ref x = run_bind (shuso_ipc_receive_fd_finish ref x) (\<lambda>(_, y). Done y)"

definition ipc_handle_received_socket ::
  "int \<Rightarrow> nat \<Rightarrow> addr \<Rightarrow> receivers \<times> os \<times> shuso \<Rightarrow> receivers \<times> os \<times> shuso"
where
  "ipc_handle_received_socket fd ref pd x =
     (let (rt, o', S) = x in
      case rt_refs rt ref of
        None \<Rightarrow> (rt, c_close fd o', emit (Log_error (''no handler with ref '' @ decimal (int ref) @
                   '' to received socket fd '' @ decimal fd)) S)
      | Some r \<Rightarrow>
          (rt\<lparr>rt_calls := rt_calls rt @ [(fr_callback r, True, ref, fd, fr_privdata r, pd)]\<rparr>, o', S))"

text \<open>
  The loop of \<^verbatim>\<open>shuso_ipc_channel_local_stop\<close> over the table of receivers.  It tests whether
  the key (not the value) is a table, which no key is, and passes to the next entry.
\<close>

datatype receiver_key = Key_ref nat | Key_timer

fun key_is_table :: "receiver_key \<Rightarrow> bool" where
  "key_is_table (Key_ref n) = False"
| "key_is_table Key_timer = False"

fun cancel_receivers :: "receiver_key list \<Rightarrow> receivers \<times> shuso \<Rightarrow> (receivers \<times> shuso) run" where
  "cancel_receivers [] x = Done x"
| "cancel_receivers (k # ks) x =
     (if \<not> key_is_table k then cancel_receivers ks x
      else
        (case k of
           Key_timer \<Rightarrow> cancel_receivers ks x
         | Key_ref ref \<Rightarrow>
             run_bind (shuso_ipc_receive_fd_cancel ref x) (\<lambda>(_, y). cancel_receivers ks y)))"

text \<open>The whole of \<^verbatim>\<open>shuso_ipc_channel_local_stop\<close> after the two coroutines are stopped.\<close>

definition shuso_ipc_channel_local_stop ::
  "receiver_key list \<Rightarrow> receivers \<times> shuso \<Rightarrow> (receivers \<times> shuso) run option"
where
  "shuso_ipc_channel_local_stop keys x =
     (case ipc_channel_local_stop_outbuf (snd x) of
        None \<Rightarrow> None
      | Some r \<Rightarrow> Some (run_bind r (\<lambda>S. cancel_receivers keys (fst x, S))))"

section \<open>Coroutines that receive\<close>

text \<open>
  The coroutine for notices: one result of \<^verbatim>\<open>read\<close> (count and error) per resumption; after
  each it empties the ring.  \<^verbatim>\<open>ipc_receive\<close> never returns false.
\<close>

fun ipc_receive_notice_coroutine ::
  "(8 word \<Rightarrow> 'w ring_handler option) \<Rightarrow> (int \<times> int) list \<Rightarrow> ringbuf \<times> 'w \<Rightarrow>
   (bool \<times> ringbuf \<times> 'w) run option"
where
  "ipc_receive_notice_coroutine handlers [] x = Some (Done (True, x))"
| "ipc_receive_notice_coroutine handlers ((result, error) # rs) x =
     (let err = (if result = 0 then -1 else error) in
      if err \<noteq> 0 then Some (Done (False, x))
      else
        (case ipc_receive handlers x of
           None \<Rightarrow> None
         | Some Abort \<Rightarrow> Some Abort
         | Some (Done (ok, y)) \<Rightarrow>
             if ok then ipc_receive_notice_coroutine handlers rs y else Some (Done (False, y))))"

text \<open>What \<^verbatim>\<open>recvmsg\<close> leaves: its result, and the control message with the descriptor and the data.\<close>

record cmsg =
  cm_len :: nat
  cm_level :: int
  cm_type :: int
  cm_fd :: int

datatype recv_result =
    Recv_error
  | Recv_minus1
  | Recv_msg "cmsg option" nat addr

definition SOL_SOCKET :: int where "SOL_SOCKET = 1"

definition SCM_RIGHTS :: int where "SCM_RIGHTS = 1"

text \<open>The coroutine that receives descriptors, one \<^verbatim>\<open>recvmsg\<close> per resumption, until one fails.\<close>

fun ipc_receive_msg_fd_coroutine :: "recv_result list \<Rightarrow> receivers \<times> os \<times> shuso \<Rightarrow> receivers \<times> os \<times> shuso" where
  "ipc_receive_msg_fd_coroutine [] x = x"
| "ipc_receive_msg_fd_coroutine (r # rs) (rt, o', S) =
     (case r of
        Recv_error \<Rightarrow> (rt, o', S)
      | Recv_minus1 \<Rightarrow>
          ipc_receive_msg_fd_coroutine rs (rt, o', snd (shuso_set_error ''recvmsg failed with code (-1)'' S))
      | Recv_msg c ref pd \<Rightarrow>
          (case c of
             None \<Rightarrow> ipc_receive_msg_fd_coroutine rs
               (rt, o', snd (shuso_set_error ''bad cmsghdr while receiving fd'' S))
           | Some cm \<Rightarrow>
               if cm_len cm \<noteq> 20 then ipc_receive_msg_fd_coroutine rs
                 (rt, o', snd (shuso_set_error ''bad cmsghdr while receiving fd'' S))
               else if cm_level cm \<noteq> SOL_SOCKET then ipc_receive_msg_fd_coroutine rs
                 (rt, o', snd (shuso_set_error ''bad cmsg_level while receiving fd'' S))
               else if cm_type cm \<noteq> SCM_RIGHTS then ipc_receive_msg_fd_coroutine rs
                 (rt, o', snd (shuso_set_error ''bad cmsg_type while receiving fd'' S))
               else ipc_receive_msg_fd_coroutine rs (ipc_handle_received_socket (cm_fd cm) ref pd (rt, o', S))))"

section \<open>The local part\<close>

text \<open>
  The slots of the array of senders, by process number: a slot is the notice coroutine on
  descriptor 1 of the channel and the sender of descriptors on its socket 1, with an empty
  buffer on the heap.
\<close>

record send_slot =
  ss_notice_fd :: int
  ss_fd :: int
  ss_buf :: buffer

record local_channel =
  lc_send :: "int \<rightharpoonup> send_slot"
  lc_out_count :: nat
  lc_notice_fd :: int
  lc_socket :: int

definition ipc_channel_local_send_coroutines_init ::
  "(int \<Rightarrow> channel) \<Rightarrow> int \<Rightarrow> local_channel \<Rightarrow> local_channel run"
where
  "ipc_channel_local_send_coroutines_init channels n lc =
     c_assert (shuso_process n \<noteq> None)
      (run_bind (shuso_buffer_init SHUSO_BUF_HEAP 0)
        (\<lambda>b. Done (lc\<lparr>lc_send := (lc_send lc)
           (n \<mapsto> \<lparr>ss_notice_fd = ch_fd1 (channels n), ss_fd = ch_socket1 (channels n), ss_buf = b\<rparr>)\<rparr>)))"

fun init_slots :: "(int \<Rightarrow> channel) \<Rightarrow> int list \<Rightarrow> local_channel \<Rightarrow> local_channel run" where
  "init_slots channels [] lc = Done lc"
| "init_slots channels (n # ns) lc =
     run_bind (ipc_channel_local_send_coroutines_init channels n lc) (init_slots channels ns)"

text \<open>\<open>served\<close> says whether the pool serves the array; with \<^verbatim>\<open>eventfd\<close>, notices are read from descriptor 1.\<close>

definition shuso_ipc_channel_local_init ::
  "(int \<Rightarrow> channel) \<Rightarrow> bool \<Rightarrow> shuso \<Rightarrow> (bool \<times> local_channel option \<times> shuso) run"
where
  "shuso_ipc_channel_local_init channels served S =
     (let out_count = (if procnum S = SHUTTLESOCK_MASTER then 2 else 2 + workers_end S) in
      if \<not> served then Done (False, None, emit (Log_error ''failed to allocate shuso_io for IPC'') S)
      else
        run_bind
          (init_slots channels
             ([SHUTTLESOCK_MASTER, SHUTTLESOCK_MANAGER] @
              (if procnum S = SHUTTLESOCK_MANAGER \<or> procnum S \<ge> SHUTTLESOCK_WORKER
               then map int [workers_start S..<workers_end S] else []))
             \<lparr>lc_send = Map.empty, lc_out_count = out_count, lc_notice_fd = ch_fd1 (channels (procnum S)),
              lc_socket = ch_socket0 (channels (procnum S))\<rparr>)
          (\<lambda>lc. Done (True, Some lc, S)))"

section \<open>Passing descriptors\<close>

text \<open>
  The buffer of messages to one process, the bytes the client wrote to them, and the messages
  that \<^verbatim>\<open>sendmsg\<close> has sent: descriptor, reference and pointer.
\<close>

record fd_sender =
  fs_buf :: buffer
  fs_sys :: buf_sys
  fs_data :: "addr \<Rightarrow> nat \<times> addr"
  fs_sent :: "(int \<times> nat \<times> addr) list"
  fs_resumed :: bool

definition shuso_ipc_send_fd ::
  "malloc_fn \<Rightarrow> int \<Rightarrow> int \<Rightarrow> nat \<Rightarrow> addr \<Rightarrow> fd_sender \<Rightarrow> (bool \<times> fd_sender) run"
where
  "shuso_ipc_send_fd mal errno fd ref pd s =
     run_bind (shuso_buffer_add_msg_fd mal errno fd 16 (fs_buf s, fs_sys s))
       (\<lambda>(space, (b, bs)).
          let s = s\<lparr>fs_buf := b, fs_sys := bs\<rparr> in
          if space = 0 then
            Done (False, s\<lparr>fs_sys := bs\<lparr>bs_S :=
              snd (shuso_set_error ''failed to send fd: no space for fd buffer link'' (bs_S bs))\<rparr>\<rparr>)
          else Done (True, s\<lparr>fs_data := (fs_data s)(space := (ref, pd)), fs_resumed := True\<rparr>))"

text \<open>
  The coroutine that sends: one result of \<^verbatim>\<open>sendmsg\<close> per resumption, true for a success.  It
  stops at an error, when the buffer is empty, or when it waits for the next result.
\<close>

fun ipc_send_fd_coroutine :: "bool list \<Rightarrow> fd_sender \<Rightarrow> fd_sender run" where
  "ipc_send_fd_coroutine [] s = Done s"
| "ipc_send_fd_coroutine (ok # oks) s =
     (let link = shuso_buffer_next (fs_buf s) in
      if link = 0 then Done s
      else
        (let m = bs_msg (fs_sys s) (bl_data (bs_link (fs_sys s) link));
             s = (if ok then s\<lparr>fs_sent := fs_sent s @ [(mb_fd m, fs_data s (mb_iov_base m))]\<rparr> else s);
             (old, (b, bs)) = shuso_buffer_dequeue (fs_buf s, fs_sys s)
         in run_bind (shuso_buffer_free b old bs)
              (\<lambda>bs. let s = s\<lparr>fs_buf := b, fs_sys := bs\<rparr> in
                    if ok then ipc_send_fd_coroutine oks s else Done s)))"

section \<open>Creating and destroying\<close>

text \<open>The descriptors of a channel; what its creation adds is what its destruction removes.\<close>

definition chan_fds :: "channel \<Rightarrow> int set" where
  "chan_fds ch = {ch_fd0 ch, ch_fd1 ch, ch_socket0 ch, ch_socket1 ch} - {-1}"

lemma channel_destroyed:
  "snd (shuso_ipc_channel_shared_destroy (ch, o')) =
     o'\<lparr>os_fds := os_fds o' - chan_fds ch, os_rings := os_rings o' - {ch_buf ch}\<rparr>"
  by (auto simp: shuso_ipc_channel_shared_destroy_def c_close_def chan_fds_def Let_def intro!: os.equality)

lemma channel_created:
  assumes sys: "channel_sys_sound sys" and run: "shuso_ipc_channel_shared_create sys proc (ch, o1, S) = Done (True, ch', o2, S')"
  shows "S' = S" and "o2 = o1\<lparr>os_fds := os_fds o1 \<union> chan_fds ch', os_rings := insert (ch_buf ch') (os_rings o1)\<rparr>"
    and "chan_fds ch' \<inter> os_fds o1 = {}" and "ch_buf ch' \<notin> os_rings o1" and "ch_fd1 ch' \<in> chan_fds ch'"
proof -
  let ?n = "shuso_process_to_procnum proc"
  let ?ptr = "if ?n = SHUTTLESOCK_MASTER \<or> ?n = SHUTTLESOCK_MANAGER
     then (case cs_mmap sys o1 of Some a \<Rightarrow> a | None \<Rightarrow> MAP_FAILED) else cs_calloc sys o1"
  let ?o = "o1\<lparr>os_rings := insert ?ptr (os_rings o1)\<rparr>"
  let ?fd = "cs_eventfd sys ?o"
  let ?o' = "?o\<lparr>os_fds := insert ?fd (os_fds o1)\<rparr>"
  have ptr: "?ptr \<noteq> 0" "?ptr \<noteq> MAP_FAILED"
    using run by (auto simp: shuso_ipc_channel_shared_create_def Let_def c_assert_Done_iff split: if_splits option.splits)
  then have new: "?ptr \<notin> os_rings o1"
    using sys by (auto simp: channel_sys_sound_def split: if_splits option.splits)
  have fd: "?fd \<noteq> -1"
    using run ptr by (auto simp: shuso_ipc_channel_shared_create_def Let_def c_assert_Done_iff split: if_splits option.splits)
  obtain a b where ab: "cs_socketpair sys ?o' = Some (a, b)"
    "ch' = ch\<lparr>ch_buf := ?ptr, ch_fd0 := -1, ch_fd1 := ?fd, ch_socket0 := a, ch_socket1 := b\<rparr>"
    "o2 = ?o'\<lparr>os_fds := insert a (insert b (insert ?fd (os_fds o1)))\<rparr>" "S' = S"
    using run ptr fd by (auto simp: shuso_ipc_channel_shared_create_def Let_def c_assert_Done_iff split: option.splits)
  have fds: "?fd \<notin> os_fds o1" "a \<notin> os_fds o1" "b \<notin> os_fds o1" "0 \<le> ?fd" "0 \<le> a" "0 \<le> b" "a \<noteq> b" "a \<noteq> ?fd" "b \<noteq> ?fd"
  proof -
    have "0 \<le> a \<and> 0 \<le> b \<and> a \<noteq> b \<and> a \<notin> os_fds ?o' \<and> b \<notin> os_fds ?o'"
      using sys ab(1) unfolding channel_sys_sound_def by blast
    moreover have "0 \<le> ?fd \<and> ?fd \<notin> os_fds ?o" using sys fd unfolding channel_sys_sound_def by blast
    ultimately show "?fd \<notin> os_fds o1" "a \<notin> os_fds o1" "b \<notin> os_fds o1" "0 \<le> ?fd" "0 \<le> a" "0 \<le> b" "a \<noteq> b"
      "a \<noteq> ?fd" "b \<noteq> ?fd" by auto
  qed
  then show "S' = S" "o2 = o1\<lparr>os_fds := os_fds o1 \<union> chan_fds ch', os_rings := insert (ch_buf ch') (os_rings o1)\<rparr>"
    "chan_fds ch' \<inter> os_fds o1 = {}" "ch_buf ch' \<notin> os_rings o1" "ch_fd1 ch' \<in> chan_fds ch'"
    using new ab by (auto simp: chan_fds_def intro!: os.equality)
qed

lemma channel_roundtrip:
  assumes sys: "channel_sys_sound sys" and run: "shuso_ipc_channel_shared_create sys proc (ch, o1, S) = Done (True, ch', o2, S')"
  shows "snd (shuso_ipc_channel_shared_destroy (ch', o2)) = o1 \<and> S' = S \<and> os_fds o1 \<subset> os_fds o2"
proof -
  note c = channel_created [OF assms]
  have "ch_fd1 ch' \<notin> os_fds o1" using c(3,5) by blast
  moreover have "os_fds o1 \<union> chan_fds ch' - chan_fds ch' = os_fds o1" using c(3) by blast
  ultimately show ?thesis using c(1,4,5) by (subst (1 2) c(2)) (auto simp: channel_destroyed)
qed

text \<open>A second destruction does nothing.\<close>

lemma channel_destroy_twice:
  "0 \<notin> os_rings o' \<Longrightarrow> shuso_ipc_channel_shared_destroy (shuso_ipc_channel_shared_destroy (ch, o')) =
   shuso_ipc_channel_shared_destroy (ch, o')"
  by (simp add: shuso_ipc_channel_shared_destroy_def c_close_def Let_def)

section \<open>Passing descriptors in order\<close>

text \<open>The messages that wait in the buffer, link by link.\<close>

definition link_msg :: "fd_sender \<Rightarrow> addr \<Rightarrow> int \<times> nat \<times> addr \<Rightarrow> bool" where
  "link_msg s x m \<longleftrightarrow>
     link_info (bs_link (fs_sys s) x) = (x + 32, 0, SHUSO_BUF_IOVEC, SHUSO_BUF_DEFAULT, False) \<and>
     mb_fd (bs_msg (fs_sys s) (x + 32)) = fst m \<and> mb_iov_base (bs_msg (fs_sys s) (x + 32)) = x + 128 \<and>
     fs_data s (x + 128) = snd m"

definition sender_inv :: "malloc_fn \<Rightarrow> fd_sender \<Rightarrow> addr list \<Rightarrow> (int \<times> nat \<times> addr) list \<Rightarrow> bool" where
  "sender_inv mal s xs ms \<longleftrightarrow>
     (\<exists>bs. buffer_inv mal (fs_buf s, fs_sys s) xs bs) \<and> buf_memory_type (fs_buf s) = SHUSO_BUF_HEAP \<and>
     list_all2 (link_msg s) xs ms"

lemma add_msg_fd_memory_type:
  assumes "shuso_buffer_add_msg_fd mal e fd n (buf, s) = Done (space, (b, t))"
  shows "buf_memory_type b = buf_memory_type buf"
  using assms queue_keeps(1)
  unfolding shuso_buffer_add_msg_fd_def shuso_buffer_add_msg_fd_with_cleanup_def Let_def
  by (auto simp: run_bind_Done_iff split: if_splits) (metis fst_conv)

lemma send_fd_ok:
  assumes inv: "sender_inv mal s xs ms"
  shows "\<exists>ok s'. shuso_ipc_send_fd mal e fd ref pd s = Done (ok, s') \<and> fs_sent s' = fs_sent s \<and>
    (if ok then \<exists>a. sender_inv mal s' (xs @ [a]) (ms @ [(fd, ref, pd)]) else sender_inv mal s' xs ms)"
proof -
  obtain bs where b: "buffer_inv mal (fs_buf s, fs_sys s) xs bs" "buf_memory_type (fs_buf s) = SHUSO_BUF_HEAP"
    "list_all2 (link_msg s) xs ms"
    using inv by (auto simp: sender_inv_def)
  obtain space b' t where run: "shuso_buffer_add_msg_fd mal e fd 16 (fs_buf s, fs_sys s) = Done (space, (b', t))"
    and res: "buffer_refused mal (fs_buf s, fs_sys s) xs bs (space, (b', t)) \<or>
     (\<exists>a. buffer_added mal (fs_buf s, fs_sys s) xs bs (32 + 96 + 16) (32 + 96)
        \<lparr>bl_data = a + 32, bl_num = 0, bl_data_type = SHUSO_BUF_IOVEC,
         bl_memory_type = SHUSO_BUF_DEFAULT, bl_have_cleanup = False, bl_next = 0\<rparr> a (space, (b', t)) \<and>
        mb_fd (bs_msg t (a + 32)) = fd \<and> mb_iov_base (bs_msg t (a + 32)) = a + 32 + 96 \<and>
        (\<forall>c. c \<noteq> a \<longrightarrow> link_info (bs_link t c) = link_info (bs_link (fs_sys s) c)) \<and>
        (\<forall>c. c \<noteq> a + 32 \<longrightarrow> bs_msg t c = bs_msg (fs_sys s) c))"
    using buffer_add_msg_fd_ok [OF b(1), of 16 32 0 e fd 0]
    by (auto simp: shuso_buffer_add_msg_fd_def sizeof_link_def sizeof_msgblob_def)
  from res show ?thesis
  proof (elim disjE exE conjE)
    assume r: "buffer_refused mal (fs_buf s, fs_sys s) xs bs (space, (b', t))"
    let ?t = "t\<lparr>bs_S := snd (shuso_set_error ''failed to send fd: no space for fd buffer link'' (bs_S t))\<rparr>"
    have "buffer_inv mal (b', ?t) xs bs"
      using r buffer_inv_cong [of ?t t mal "fs_buf s" xs bs] by (auto simp: buffer_refused_def)
    moreover have "link_msg (s\<lparr>fs_buf := b', fs_sys := ?t\<rparr>) = link_msg s"
      using r by (auto simp: link_msg_def buffer_refused_def fun_eq_iff)
    ultimately have "sender_inv mal (s\<lparr>fs_buf := b', fs_sys := ?t\<rparr>) xs ms"
      using b(2,3) r unfolding sender_inv_def by (intro conjI exI [of _ bs]) (auto simp: buffer_refused_def)
    moreover have "shuso_ipc_send_fd mal e fd ref pd s = Done (False, s\<lparr>fs_buf := b', fs_sys := ?t\<rparr>)"
      using run r by (simp add: shuso_ipc_send_fd_def buffer_refused_def)
    ultimately show ?thesis by (intro exI [of _ False] exI [of _ "s\<lparr>fs_buf := b', fs_sys := ?t\<rparr>"]) simp
  next
    fix a
    assume r: "buffer_added mal (fs_buf s, fs_sys s) xs bs (32 + 96 + 16) (32 + 96)
        \<lparr>bl_data = a + 32, bl_num = 0, bl_data_type = SHUSO_BUF_IOVEC,
         bl_memory_type = SHUSO_BUF_DEFAULT, bl_have_cleanup = False, bl_next = 0\<rparr> a (space, (b', t))"
      and m: "mb_fd (bs_msg t (a + 32)) = fd" "mb_iov_base (bs_msg t (a + 32)) = a + 32 + 96"
        "\<forall>c. c \<noteq> a \<longrightarrow> link_info (bs_link t c) = link_info (bs_link (fs_sys s) c)"
        "\<forall>c. c \<noteq> a + 32 \<longrightarrow> bs_msg t c = bs_msg (fs_sys s) c"
    have inv': "buffer_inv mal (b', t) (xs @ [a]) ((a, 32 + 96 + 16) # bs)" and sp: "space = a + 128"
      and l: "bs_link t a = \<lparr>bl_data = a + 32, bl_num = 0, bl_data_type = SHUSO_BUF_IOVEC,
         bl_memory_type = SHUSO_BUF_DEFAULT, bl_have_cleanup = False, bl_next = 0\<rparr>"
      using r by (auto simp: buffer_added_def)
    have mt: "buf_memory_type b' = buf_memory_type (fs_buf s)" using run by (rule add_msg_fd_memory_type)
    have new: "a \<notin> set xs" using inv' by (simp add: buffer_inv_def buffer_rep_def)
    let ?s = "s\<lparr>fs_buf := b', fs_sys := t, fs_data := (fs_data s)(space := (ref, pd)), fs_resumed := True\<rparr>"
    have "list_all2 (link_msg ?s) xs ms"
      using b(3)
    proof (rule list.rel_mono_strong)
      fix x y assume "x \<in> set xs" "link_msg s x y"
      then show "link_msg ?s x y" using new m(3,4) sp by (auto simp: link_msg_def)
    qed
    moreover have "link_msg ?s a (fd, ref, pd)" using m(1,2) l sp by (simp add: link_msg_def link_info_def)
    ultimately have "sender_inv mal ?s (xs @ [a]) (ms @ [(fd, ref, pd)])"
      using inv' b(2) mt unfolding sender_inv_def
      by (intro conjI exI [of _ "(a, 32 + 96 + 16) # bs"]) (simp_all add: list_all2_appendI)
    moreover have "shuso_ipc_send_fd mal e fd ref pd s = Done (True, ?s)"
      using run sp by (simp add: shuso_ipc_send_fd_def)
    ultimately show ?thesis by (intro exI [of _ True] exI [of _ ?s]) auto
  qed
qed

lemma sent_one:
  assumes inv: "sender_inv mal s (x # xs) (m # ms)"
  shows "\<exists>s'. ipc_send_fd_coroutine [True] s = Done s' \<and> sender_inv mal s' xs ms \<and> fs_sent s' = fs_sent s @ [m] \<and>
    live (bs_pool (fs_sys s')) = c_free x (live (bs_pool (fs_sys s)))"
proof -
  obtain bs where b: "buffer_inv mal (fs_buf s, fs_sys s) (x # xs) bs" "buf_memory_type (fs_buf s) = SHUSO_BUF_HEAP"
    "link_msg s x m" "list_all2 (link_msg s) xs ms"
    using inv by (auto simp: sender_inv_def)
  have rep: "buffer_rep (fs_buf s, fs_sys s) (x # xs)" and hold: "buffer_holds (mal, 0, fs_buf s, fs_sys s) bs"
    and blocks: "\<forall>a \<in> set (x # xs). \<exists>n \<ge> sizeof_link. (a, n) \<in> set bs"
    using b(1) by (auto simp: buffer_inv_def)
  have head: "buf_head (fs_buf s) = x" "x \<noteq> 0" using rep by (auto simp: buffer_rep_def)
  obtain c where d: "shuso_buffer_dequeue (fs_buf s, fs_sys s) = (x, (c, fs_sys s))"
    "buf_memory_type c = SHUSO_BUF_HEAP"
    using head b(2) by (simp add: shuso_buffer_dequeue_def Let_def)
  have rep': "buffer_rep (c, fs_sys s) xs" using dequeue_cons(3) [OF rep] d(1) by simp
  have nx: "buf_head c \<noteq> x" "buf_tail c \<noteq> x"
    using rep' rep head(2) last_in_set [of xs] by (cases xs; auto simp: buffer_rep_def)+
  have info: "bl_memory_type (bs_link (fs_sys s) x) = SHUSO_BUF_DEFAULT" "\<not> bl_have_cleanup (bs_link (fs_sys s) x)"
    "bl_data (bs_link (fs_sys s) x) = x + 32"
    using b(3) by (auto simp: link_msg_def link_info_def)
  let ?t = "(fs_sys s)\<lparr>bs_pool := (bs_pool (fs_sys s))\<lparr>live := c_free x (live (bs_pool (fs_sys s)))\<rparr>\<rparr>"
  let ?s = "s\<lparr>fs_sent := fs_sent s @ [m], fs_buf := c, fs_sys := ?t\<rparr>"
  have free: "shuso_buffer_free c x (fs_sys s) = Done ?t"
    using nx info d(2) by (simp add: shuso_buffer_free_def shuso_buffer_cleanup_def)
  have msg: "(mb_fd (bs_msg (fs_sys s) (x + 32)), fs_data s (mb_iov_base (bs_msg (fs_sys s) (x + 32)))) = m"
    using b(3) by (cases m) (simp add: link_msg_def)
  have run: "ipc_send_fd_coroutine [True] s = Done ?s"
    using head d(1) free info(3) msg by (simp add: shuso_buffer_next_def Let_def)
  let ?bs = "filter (\<lambda>b. fst b \<noteq> x) bs"
  have "buffer_holds (mal, 0, c, ?t) ?bs"
    using hold b(2) d(2) by (auto simp: buffer_holds_def c_free_def intro: sorted_wrt_filter)
  moreover have "\<forall>a \<in> set xs. \<exists>n \<ge> sizeof_link. (a, n) \<in> set ?bs"
    using blocks rep by (fastforce simp: buffer_rep_def)
  moreover have "buffer_rep (c, ?t) xs" using rep' by (simp add: buffer_rep_def)
  ultimately have "buffer_inv mal (c, ?t) xs ?bs" by (simp add: buffer_inv_def)
  moreover have "link_msg ?s = link_msg s" by (simp add: link_msg_def fun_eq_iff)
  ultimately have "sender_inv mal ?s xs ms" using b(4) d(2) by (auto simp: sender_inv_def)
  then show ?thesis using run by simp
qed

text \<open>Clients that send descriptors and the coroutine that is resumed when a message was sent.\<close>

datatype fd_op = Send_fd int nat addr | Message_sent

fun fd_execs ::
  "malloc_fn \<Rightarrow> int \<Rightarrow> fd_op list \<Rightarrow> fd_sender \<times> (int \<times> nat \<times> addr) list \<Rightarrow>
   (fd_sender \<times> (int \<times> nat \<times> addr) list) run"
where
  "fd_execs mal e [] x = Done x"
| "fd_execs mal e (Send_fd fd ref pd # ops) x =
     run_bind (shuso_ipc_send_fd mal e fd ref pd (fst x))
       (\<lambda>(ok, s). fd_execs mal e ops (s, if ok then snd x @ [(fd, ref, pd)] else snd x))"
| "fd_execs mal e (Message_sent # ops) x =
     run_bind (ipc_send_fd_coroutine [True] (fst x)) (\<lambda>s. fd_execs mal e ops (s, snd x))"

lemma fd_execs_ok:
  "sender_inv mal s xs ms \<Longrightarrow> \<exists>s' acc' xs' ms'. fd_execs mal e ops (s, acc) = Done (s', acc @ acc') \<and>
     sender_inv mal s' xs' ms' \<and> fs_sent s @ ms @ acc' = fs_sent s' @ ms'"
proof (induction ops arbitrary: s acc xs ms)
  case Nil
  then show ?case by auto
next
  case (Cons op ops)
  show ?case
  proof (cases op)
    case (Send_fd fd ref pd)
    obtain ok s1 where s1: "shuso_ipc_send_fd mal e fd ref pd s = Done (ok, s1)" "fs_sent s1 = fs_sent s"
      "if ok then \<exists>a. sender_inv mal s1 (xs @ [a]) (ms @ [(fd, ref, pd)]) else sender_inv mal s1 xs ms"
      using send_fd_ok [OF Cons.prems] by blast
    show ?thesis
    proof (cases ok)
      case True
      then obtain a where "sender_inv mal s1 (xs @ [a]) (ms @ [(fd, ref, pd)])" using s1(3) by auto
      from Cons.IH [OF this, of "acc @ [(fd, ref, pd)]"] obtain s' acc' xs' ms' where
        "fd_execs mal e ops (s1, acc @ [(fd, ref, pd)]) = Done (s', (acc @ [(fd, ref, pd)]) @ acc')"
        "sender_inv mal s' xs' ms'" "fs_sent s1 @ (ms @ [(fd, ref, pd)]) @ acc' = fs_sent s' @ ms'" by blast
      then show ?thesis using True Send_fd s1 by (intro exI [of _ s'] exI [of _ "(fd, ref, pd) # acc'"]) auto
    next
      case False
      then have "sender_inv mal s1 xs ms" using s1(3) by simp
      from Cons.IH [OF this, of acc] show ?thesis using False Send_fd s1 by auto
    qed
  next
    case Message_sent
    show ?thesis
    proof (cases xs)
      case Nil
      then have "shuso_buffer_next (fs_buf s) = 0" using Cons.prems
        by (auto simp: sender_inv_def buffer_inv_def buffer_rep_def shuso_buffer_next_def)
      then have "ipc_send_fd_coroutine [True] s = Done s" by simp
      then show ?thesis using Cons.IH [OF Cons.prems, of acc] Message_sent by simp
    next
      case (Cons x xs')
      then obtain m ms' where ms: "ms = m # ms'" using Cons.prems by (cases ms) (auto simp: sender_inv_def)
      obtain s1 where s1: "ipc_send_fd_coroutine [True] s = Done s1" "sender_inv mal s1 xs' ms'"
        "fs_sent s1 = fs_sent s @ [m]"
        using sent_one [of mal s x xs' m ms'] Cons.prems Cons ms by auto
      from Cons.IH [OF s1(2), of acc] show ?thesis using s1 Message_sent ms by auto
    qed
  qed
qed

section \<open>Stopping the local channel\<close>

text \<open>
  Cancelling the buffered messages ends: every message of the chain is cancelled once, in order,
  and its node freed.
\<close>

definition cancel_call :: "shuso \<Rightarrow> addr \<Rightarrow> shuso_effect" where
  "cancel_call S a =
     (let n = the (nodes S a) in Call (h_cancel (the (ipc_handlers S (unat (ob_code n))))) (ob_code n) (ob_ptr n))"

definition handled :: "shuso \<Rightarrow> addr list \<Rightarrow> bool" where
  "handled S xs \<longleftrightarrow> (\<forall>a \<in> set xs. ipc_handlers S (unat (ob_code (the (nodes S a)))) \<noteq> None)"

lemma cancel_outbuf_ok:
  assumes "chain (node_next (nodes S)) a xs" and "distinct xs" and "set xs \<subseteq> dom (nodes S)" and "handled S xs"
  shows "cancel_outbuf a S = Some (Done (S\<lparr>nodes := nodes S |` (- set xs), effects := effects S @ map (cancel_call S) xs\<rparr>))"
  using assms
proof (induction xs arbitrary: a S)
  case Nil
  then have "a = 0" by simp
  moreover have "nodes S |` (- set []) = nodes S" by (simp add: restrict_map_def)
  moreover have "cancel_outbuf 0 S = Some (Done S)" by (subst cancel_outbuf.simps) (simp only: if_True simp_thms)
  ultimately show ?case by (simp only: list.map append_Nil2) simp
next
  case (Cons x xs)
  obtain n h where n: "nodes S x = Some n" and h: "ipc_handlers S (unat (ob_code n)) = Some h"
    using Cons.prems(3,4) by (force simp: handled_def)
  have a: "a = x" "x \<noteq> 0" "chain (node_next (nodes S)) (ob_next n) xs"
    using Cons.prems(1) n by auto
  let ?S = "(emit (cancel_call S x) S)\<lparr>nodes := (nodes S)(x := None)\<rparr>"
  have x: "x \<notin> set xs" using Cons.prems(2) by simp
  have c: "chain (node_next (nodes ?S)) (ob_next n) xs"
    using a(3) x chain_cong [of xs "node_next (nodes ?S)" "node_next (nodes S)" "ob_next n"] by fastforce
  have d: "distinct xs" "set xs \<subseteq> dom (nodes ?S)" using Cons.prems(2,3) by auto
  have e: "handled ?S xs" using Cons.prems(4) x by (auto simp: handled_def emit_def)
  have m: "map (cancel_call ?S) xs = map (cancel_call S) xs"
    using x by (auto simp: cancel_call_def emit_def)
  have r: "(\<lambda>a. if a = x then None else nodes S a) |` (- set xs) = nodes S |` (- insert x (set xs))"
    by (auto simp: restrict_map_def fun_eq_iff)
  show ?case
    using n h a Cons.IH [OF c d e, unfolded m]
    by (subst cancel_outbuf.simps) (simp add: cancel_call_def emit_def r fun_upd_def)
qed

lemma local_stop_outbuf_ok:
  assumes "outbuf_chain S xs" and "handled S xs"
  shows "ipc_channel_local_stop_outbuf S = Some (Done (S\<lparr>nodes := nodes S |` (- set xs),
    effects := effects S @ map (cancel_call S) xs, buf_first := 0, buf_last := 0, send_retry_active := False\<rparr>))"
  using cancel_outbuf_ok [of S "buf_first S" xs] assms
  by (simp add: outbuf_chain_def ipc_channel_local_stop_outbuf_def)

section \<open>Properties\<close>

definition example_channel_sys :: channel_sys where
  "example_channel_sys = \<lparr>cs_mmap = (\<lambda>o'. if 4096 \<in> os_rings o' then None else Some 4096),
     cs_calloc = (\<lambda>o'. if 8192 \<in> os_rings o' then 0 else 8192),
     cs_eventfd = (\<lambda>o'. if 3 \<in> os_fds o' then -1 else 3),
     cs_socketpair = (\<lambda>o'. if 4 \<in> os_fds o' \<or> 5 \<in> os_fds o' then None else Some (4, 5))\<rparr>"

lemma example_channel_sys_sound: "channel_sys_sound example_channel_sys"
  by (auto simp: channel_sys_sound_def example_channel_sys_def MAP_FAILED_def split: if_splits)

text \<open>Creating the shared part of a channel and destroying it again leaves the open descriptors
  and the allocated memory as they were.\<close>

theorem channel_create_destroy:
  assumes "channel_sys_sound sys" and "shuso_ipc_channel_shared_create sys proc (ch, o1, S) = Done (True, ch', o2, S')"
  shows "snd (shuso_ipc_channel_shared_destroy (ch', o2)) = o1 \<and> os_fds o1 \<subset> os_fds o2"
  using channel_roundtrip [OF assms] by simp

lemma example_channel_created:
  "shuso_ipc_channel_shared_create example_channel_sys SHUTTLESOCK_MASTER
     (channel_zero, \<lparr>os_fds = {0, 1, 2}, os_rings = {}\<rparr>, example_shuso 0) =
   Done (True, \<lparr>ch_socket0 = 4, ch_socket1 = 5, ch_fd0 = -1, ch_fd1 = 3, ch_buf = 4096\<rparr>,
     \<lparr>os_fds = {4, 5, 3, 0, 1, 2}, os_rings = {4096}\<rparr>, example_shuso 0)"
  by (simp add: shuso_ipc_channel_shared_create_def example_channel_sys_def channel_zero_def
      shuso_process_to_procnum_def MAP_FAILED_def Let_def)

theorem channel_create_destroy_witness:
  "snd (shuso_ipc_channel_shared_destroy (\<lparr>ch_socket0 = 4, ch_socket1 = 5, ch_fd0 = -1, ch_fd1 = 3, ch_buf = 4096\<rparr>,
     \<lparr>os_fds = {4, 5, 3, 0, 1, 2}, os_rings = {4096}\<rparr>)) = \<lparr>os_fds = {0, 1, 2}, os_rings = {}\<rparr> \<and>
   os_fds \<lparr>os_fds = {0, 1, 2}, os_rings = {}\<rparr> \<subset> os_fds \<lparr>os_fds = {4, 5, 3, 0, 1, 2 :: int}, os_rings = {4096}\<rparr>"
  by (rule channel_create_destroy [OF example_channel_sys_sound example_channel_created])

text \<open>A creation that fails after the ring was allocated leaves the ring; no caller destroys the
  channel then.\<close>

lemma channel_create_leaks:
  assumes "shuso_ipc_channel_shared_create sys proc (ch, o1, S) = Done (False, ch', o2, S')" and "ch_buf ch' \<noteq> ch_buf ch"
  shows "ch_buf ch' \<in> os_rings o2"
  using assms by (auto simp: shuso_ipc_channel_shared_create_def c_assert_Done_iff Let_def split: if_splits option.splits)

text \<open>Destroying a channel that was never created closes descriptor 0.\<close>

lemma channel_destroy_zero: "0 \<notin> os_fds (snd (shuso_ipc_channel_shared_destroy (channel_zero, o')))"
  by (simp add: shuso_ipc_channel_shared_destroy_def channel_zero_def c_close_def Let_def)


definition example_sender :: fd_sender where
  "example_sender = \<lparr>fs_buf = example_buffer SHUSO_BUF_HEAP, fs_sys = example_buf_sys, fs_data = (\<lambda>_. (0, 0)),
     fs_sent = [], fs_resumed = False\<rparr>"

lemma example_sender_inv: "sender_inv bump_malloc example_sender [] []"
  using bump_malloc_sound
  by (auto simp: sender_inv_def example_sender_def buffer_inv_def example_buffer_rep buffer_holds_def
      intro!: exI [of _ "[]"])


text \<open>Cancelling a receiver that exists calls a null pointer: its entry is popped before its callback
  is read.\<close>

theorem receive_fd_cancel_aborts:
  assumes "rt_refs rt ref \<noteq> None"
  shows "shuso_ipc_receive_fd_cancel ref (rt, S) = Abort"
  using assms by (auto simp: shuso_ipc_receive_fd_cancel_def shuso_ipc_receive_fd_stop_generic_def)

theorem receive_fd_cancel_aborts_witness:
  "shuso_ipc_receive_fd_cancel 1 (snd (shuso_ipc_receive_fd_start (\<lambda>_. 1) (\<lambda>_. 4096) ''test'' False 64 0
     \<lparr>rt_refs = Map.empty, rt_timer = None, rt_active = Map.empty, rt_calls = []\<rparr>), example_shuso 0) = Abort"
  by (rule receive_fd_cancel_aborts) (simp add: shuso_ipc_receive_fd_start_def Let_def)

text \<open>All receivers share one field for their timer: after two starts, finishing the first stops the
  timer of the second, and the first timer still runs.\<close>

lemma receive_fd_timer_confused:
  assumes two: "shuso_ipc_receive_fd_start luaL_ref newud d1 True cb1 pd1 rt = (r1, rt1)"
    "shuso_ipc_receive_fd_start luaL_ref newud d2 True cb2 pd2 rt1 = (r2, rt2)"
    and t: "newud (rt\<lparr>rt_refs := (rt_refs rt)(r1 \<mapsto> \<lparr>fr_callback = cb1, fr_privdata = pd1, fr_description = d1\<rparr>)\<rparr>) = t1"
      "newud (rt1\<lparr>rt_refs := (rt_refs rt1)(r2 \<mapsto> \<lparr>fr_callback = cb2, fr_privdata = pd2, fr_description = d2\<rparr>)\<rparr>) = t2"
      "t1 \<noteq> t2" and refs: "r1 \<noteq> r2"
  shows "\<exists>rt3 S'. shuso_ipc_receive_fd_finish r1 (rt2, S) = Done (True, rt3, S') \<and>
    rt_active rt3 t1 = Some r1 \<and> rt_active rt3 t2 = None \<and> rt_refs rt3 r2 \<noteq> None"
proof -
  have r1: "luaL_ref (rt_refs rt) = r1" and r2: "luaL_ref (rt_refs rt1) = r2"
    using two by (auto simp: shuso_ipc_receive_fd_start_def Let_def)
  have rt1: "rt1 = rt\<lparr>rt_refs := (rt_refs rt)(r1 \<mapsto> \<lparr>fr_callback = cb1, fr_privdata = pd1, fr_description = d1\<rparr>),
      rt_timer := Some t1, rt_active := (rt_active rt)(t1 \<mapsto> r1)\<rparr>"
    using two(1) t(1) r1 by (auto simp: shuso_ipc_receive_fd_start_def Let_def)
  have "rt2 = rt1\<lparr>rt_refs := (rt_refs rt1)(r2 \<mapsto> \<lparr>fr_callback = cb2, fr_privdata = pd2, fr_description = d2\<rparr>),
      rt_timer := Some t2, rt_active := (rt_active rt1)(t2 \<mapsto> r2)\<rparr>"
    using two(2) t(2) r2 by (auto simp: shuso_ipc_receive_fd_start_def Let_def)
  then show ?thesis using rt1 t(3) refs
    by (simp add: shuso_ipc_receive_fd_finish_def shuso_ipc_receive_fd_stop_generic_def)
qed

lemma notice_coroutine_drains:
  assumes "ring_inv r" and "\<forall>m \<in> set (ring_list r). g (fst m) \<noteq> None" and "n \<noteq> 0"
  shows "\<exists>r'. ipc_receive_notice_coroutine (lift_handlers g) [(n, 0)] (r, w) =
      Some (Done (True, r', handle_all g (ring_list r) w)) \<and> ring_inv r' \<and> ring_list r' = []"
proof -
  obtain r' where "ipc_receive (lift_handlers g) (r, w) = Some (Done (True, r', handle_all g (ring_list r) w))"
    "ring_inv r'" "ring_list r' = []"
    using ipc_receive_ok [OF assms(1,2), of w] by blast
  then show ?thesis using assms(3) by auto
qed

lemma init_slots_ok:
  assumes "\<forall>n \<in> set ns. shuso_process n \<noteq> None"
  shows "init_slots channels ns lc = Done (lc\<lparr>lc_send := (\<lambda>n. if n \<in> set ns
     then Some \<lparr>ss_notice_fd = ch_fd1 (channels n), ss_fd = ch_socket1 (channels n),
       ss_buf = \<lparr>buf_head = 0, buf_tail = 0, buf_memory_type = SHUSO_BUF_HEAP\<rparr>\<rparr>
     else lc_send lc n)\<rparr>)"
  using assms
  by (induction ns arbitrary: lc)
    (auto simp: ipc_channel_local_send_coroutines_init_def shuso_buffer_init_def fun_eq_iff Let_def)

text \<open>After the local part of a channel is set up, the process has a sender for every process it
  may send to directly: for each valid destination that needs no proxy, the slot lies inside
  the allocated array and is initialised with the descriptors of the destination's channel.\<close>

theorem ipc_send_has_slot:
  assumes "workers_end S \<le> 256" and "shuso_procnum_valid dst S" and "\<not> proxied (procnum S) dst"
    and "SHUTTLESOCK_MASTER \<le> procnum S"
  shows "\<exists>lc. shuso_ipc_channel_local_init channels True S = Done (True, Some lc, S) \<and>
    0 \<le> dst - SHUTTLESOCK_MASTER \<and> dst - SHUTTLESOCK_MASTER < int (lc_out_count lc) \<and>
    (\<exists>slot. lc_send lc dst = Some slot \<and> ss_notice_fd slot = ch_fd1 (channels dst) \<and>
       ss_fd slot = ch_socket1 (channels dst) \<and> buf_head (ss_buf slot) = 0)"
proof -
  let ?ns = "[SHUTTLESOCK_MASTER, SHUTTLESOCK_MANAGER] @
    (if procnum S = SHUTTLESOCK_MANAGER \<or> procnum S \<ge> SHUTTLESOCK_WORKER
     then map int [workers_start S..<workers_end S] else [])"
  have valid: "\<forall>n \<in> set ?ns. shuso_process n \<noteq> None" using assms(1) by (auto simp: shuso_process_def)
  have dst: "dst \<in> set ?ns"
    using assms(2-4)
    by (auto simp: shuso_procnum_valid_def proxied_def split: if_splits intro!: image_eqI [of _ _ "nat dst"])
  have bounds: "0 \<le> dst + 2" "dst + 2 < int (if procnum S = SHUTTLESOCK_MASTER then 2 else 2 + workers_end S)"
    using assms(2-4) by (auto simp: shuso_procnum_valid_def proxied_def split: if_splits)
  show ?thesis
    using init_slots_ok [OF valid, of channels] dst bounds
    by (simp add: shuso_ipc_channel_local_init_def Let_def cong: if_cong)
qed

theorem ipc_send_has_slot_witness:
  "\<exists>lc. shuso_ipc_channel_local_init (\<lambda>_. channel_zero) True (example_shuso 0) = Done (True, Some lc, example_shuso 0) \<and>
    0 \<le> 3 - SHUTTLESOCK_MASTER \<and> 3 - SHUTTLESOCK_MASTER < int (lc_out_count lc) \<and>
    (\<exists>slot. lc_send lc 3 = Some slot \<and> ss_notice_fd slot = ch_fd1 channel_zero \<and>
       ss_fd slot = ch_socket1 channel_zero \<and> buf_head (ss_buf slot) = 0)"
  by (rule ipc_send_has_slot) (simp_all add: example_shuso_def shuso_procnum_valid_def proxied_def)

text \<open>Stopping the local part of a channel cancels no receiver.\<close>

lemma local_stop_keeps_receivers: "cancel_receivers keys x = Done x"
proof (induction keys arbitrary: x)
  case (Cons k ks)
  then show ?case by (cases k) simp_all
qed simp

text \<open>C39: Stopping the local part of a channel ends: every message still buffered is cancelled by its handler
  once, in order, its node freed and no other, and the buffer is empty.\<close>

theorem local_stop_cancels:
  assumes "outbuf_chain S xs" and "handled S xs"
  shows "\<exists>T. shuso_ipc_channel_local_stop keys (rt, S) = Some (Done (rt, T)) \<and>
    effects T = effects S @ map (cancel_call S) xs \<and> nodes T = nodes S |` (- set xs) \<and> outbuf_chain T []"
  using local_stop_outbuf_ok [OF assms]
  by (simp add: shuso_ipc_channel_local_stop_def local_stop_keeps_receivers outbuf_chain_def)

definition example_buffered :: shuso where
  "example_buffered = (example_shuso 0)\<lparr>buf_first := 64, buf_last := 96,
     nodes := [64 \<mapsto> \<lparr>ob_code = 3, ob_ptr = 1, ob_dst = 1, ob_next = 96\<rparr>,
               96 \<mapsto> \<lparr>ob_code = 3, ob_ptr = 2, ob_dst = 2, ob_next = 0\<rparr>],
     ipc_handlers := [3 \<mapsto> new_handler (Some ''reconfigure'') (Some Reconfigure_handle) None]\<rparr>"

theorem local_stop_cancels_witness:
  "\<exists>T. shuso_ipc_channel_local_stop [] (\<lparr>rt_refs = Map.empty, rt_timer = None, rt_active = Map.empty, rt_calls = []\<rparr>,
      example_buffered) = Some (Done (\<lparr>rt_refs = Map.empty, rt_timer = None, rt_active = Map.empty, rt_calls = []\<rparr>, T)) \<and>
    effects T = effects example_buffered @ map (cancel_call example_buffered) [64, 96] \<and>
    nodes T = nodes example_buffered |` (- set [64, 96]) \<and> outbuf_chain T []"
  by (rule local_stop_cancels) (simp_all add: example_buffered_def outbuf_chain_def handled_def)

end
