(* ===== verification/Startup.thy ===== *)
theory Startup
  imports Channel Lifecycle Watchers
begin

text \<open>
  Creating, configuring, running and destroying shuttlesock, and starting its workers
  (\<^verbatim>\<open>shuttlesock.c\<close>): which resources each step takes, what is released when a step fails, and
  the run states.  Threads are started, not run: what a worker does then is in the other theories.
\<close>

section \<open>Resources\<close>

text \<open>
  What is taken and released, each at most once: memory blocks, the Lua states, pools, the
  shared slab, the event loop and resolvers.  A worker's resources carry its number.
\<close>

datatype res =
    R_common
  | R_state
  | R_resolver_global
  | R_lua
  | R_pool
  | R_slab
  | R_loop
  | R_resolver
  | R_worker_state int
  | R_worker_pool int
  | R_worker_resolver int
  | R_worker_lua int

text \<open>What is held, and what was released without being held.\<close>

record ledger =
  held :: "res set"
  twice :: "res list"

definition acquire :: "res \<Rightarrow> ledger \<Rightarrow> ledger" where
  "acquire r L = L\<lparr>held := insert r (held L)\<rparr>"

definition release :: "res \<Rightarrow> ledger \<Rightarrow> ledger" where
  "release r L = (if r \<in> held L then L\<lparr>held := held L - {r}\<rparr> else L\<lparr>twice := r # twice L\<rparr>)"

text \<open>Emptying a pool that is empty already does nothing.\<close>

definition shuso_pool_emptied :: "res \<Rightarrow> ledger \<Rightarrow> ledger" where
  "shuso_pool_emptied r L = L\<lparr>held := held L - {r}\<rparr>"

abbreviation release_if :: "bool \<Rightarrow> res \<Rightarrow> ledger \<Rightarrow> ledger" where
  "release_if b r L \<equiv> if b then release r L else L"

section \<open>Creation\<close>

text \<open>Which of the steps succeed; those that set the message themselves give it.\<close>

record create_sys =
  cr_common :: bool
  cr_state :: bool
  cr_resolver_global :: "string option"
  cr_lua_create :: bool
  cr_pool :: bool
  cr_lua_initialize :: bool
  cr_config_initialize :: bool
  cr_core_modules :: "string option"

text \<open>The label \<^verbatim>\<open>fail\<close>, with the flags the code keeps.\<close>

definition create_fail ::
  "bool \<Rightarrow> bool \<Rightarrow> bool \<Rightarrow> bool \<Rightarrow> bool \<Rightarrow> string option \<Rightarrow> ledger \<Rightarrow> bool \<times> string option \<times> ledger"
where
  "create_fail resolver_global_initialized pool_initialized own_lua S common_ctx errmsg L =
     (let L = release_if resolver_global_initialized R_resolver_global L;
          L = (if pool_initialized then shuso_pool_emptied R_pool L else L);
          L = release_if (S \<and> own_lua) R_lua L;
          L = release_if S R_state L;
          L = release_if common_ctx R_common L
      in (False, errmsg, L))"

definition shuso_create_with_lua :: "create_sys \<Rightarrow> bool \<Rightarrow> ledger \<Rightarrow> bool \<times> string option \<times> ledger" where
  "shuso_create_with_lua sys lua L =
     (if \<not> cr_common sys then
        create_fail False False False False False (Some ''not enough memory to allocate common_ctx'') L
      else
        (let L = acquire R_common L in
         if \<not> cr_state sys then
           create_fail False False False False True (Some ''not enough memory to allocate S'') L
         else
           (let L = acquire R_state L in
            case cr_resolver_global sys of
              Some msg \<Rightarrow> create_fail False False False True True (Some msg) L
            | None \<Rightarrow>
                (let L = acquire R_resolver_global L in
                 if \<not> lua \<and> \<not> cr_lua_create sys then
                   create_fail True False False True True (Some ''failed to create Lua VM'') L
                 else
                   (let L = (if lua then L else acquire R_lua L) in
                    if \<not> cr_pool sys then create_fail True False (\<not> lua) True True None L
                    else
                      (let L = acquire R_pool L in
                       if \<not> cr_lua_initialize sys then
                         create_fail True True (\<not> lua) True True (Some ''failed to initialize lua'') L
                       else if \<not> cr_config_initialize sys then
                         create_fail True True (\<not> lua) True True (Some ''failed to initialize config system'') L
                       else
                         (case cr_core_modules sys of
                            Some msg \<Rightarrow> create_fail True True (\<not> lua) True True (Some msg) L
                          | None \<Rightarrow> (True, None, L))))))))"

definition shuso_create :: "create_sys \<Rightarrow> ledger \<Rightarrow> bool \<times> string option \<times> ledger" where
  "shuso_create sys L = shuso_create_with_lua sys False L"

section \<open>State\<close>

text \<open>
  A process after its creation: its \<^verbatim>\<open>shuso_t\<close> and the parts of it that the other theories
  model, the mapping of the shared slab and the pointers into it, the two settings with
  defaults (a \<^verbatim>\<open>float\<close> in units of \<open>2 ^ -149\<close>), the watchers that are started, the workers
  whose entry in the table of processes points to a state, and the threads started.
\<close>

record startup =
  su_S :: shuso
  su_ledger :: ledger
  su_lua_external :: bool
  su_lua_state :: bool
  su_loop :: bool
  su_shm :: "shared_slab option"
  su_shm_ptr :: addr
  su_shm_size :: nat
  su_states :: addr
  su_workers_start :: addr
  su_workers_end :: addr
  su_retry_delay :: int
  su_send_timeout :: int
  su_workers :: nat
  su_channels :: "int \<Rightarrow> channel"
  su_os :: os
  su_receivers :: receivers
  su_timers :: timers
  su_child_watcher :: bool
  su_signal_watchers :: "int list"
  su_local :: "local_channel option"
  su_receiving :: bool
  su_worker_S :: "int set"
  su_threads :: "int list"

abbreviation upd_S :: "(shuso \<Rightarrow> shuso) \<Rightarrow> startup \<Rightarrow> startup" where
  "upd_S f s \<equiv> s\<lparr>su_S := f (su_S s)\<rparr>"

abbreviation upd_L :: "(ledger \<Rightarrow> ledger) \<Rightarrow> startup \<Rightarrow> startup" where
  "upd_L f s \<equiv> s\<lparr>su_ledger := f (su_ledger s)\<rparr>"

section \<open>Configuration\<close>

record config_sys =
  cf_config_generate :: bool
  cf_default_loop :: bool
  cf_slab_size :: nat
  cf_shm :: shm_system
  cf_master_modules :: "startup \<Rightarrow> bool \<times> startup"

definition set_default_config :: "int \<Rightarrow> int \<Rightarrow> int" where
  "set_default_config v d = (if v = 0 then d else v)"

definition DEFAULT_IPC_SEND_RETRY_DELAY :: int where
  "DEFAULT_IPC_SEND_RETRY_DELAY = 13421773 * 2 ^ 121"

definition DEFAULT_IPC_SEND_TIMEOUT :: int where
  "DEFAULT_IPC_SEND_TIMEOUT = 2 ^ 148"

definition configure_fail :: "bool \<Rightarrow> string option \<Rightarrow> startup \<Rightarrow> bool \<times> startup" where
  "configure_fail shm_slab_created errmsg s =
     (let errmsg = (case errmsg of None \<Rightarrow> shuso_last_error (su_S s) | _ \<Rightarrow> errmsg);
          msg = (case errmsg of None \<Rightarrow> ''unknown error'' | Some m \<Rightarrow> m);
          s = upd_S (\<lambda>S. S\<lparr>common_state := SHUSO_STATE_MISCONFIGURED\<rparr>) s;
          s = upd_S (\<lambda>S. snd (shuso_set_error (''failed to configure shuttlesock: '' @ msg) S)) s;
          s = (if shm_slab_created then upd_L (release R_slab) s else s)
      in (False, s))"

text \<open>\<^verbatim>\<open>_Atomic(shuso_runstate_t)\<close> has 4 bytes, one for each process; the bounds of the workers have 2.\<close>

definition sizeof_states :: nat where
  "sizeof_states = 4 * (256 + 2)"

text \<open>The part after the slab was created: IPC commands, and three blocks of the slab.\<close>

definition configure_shared :: "config_sys \<Rightarrow> shared_slab \<Rightarrow> startup \<Rightarrow> (bool \<times> startup) run" where
  "configure_shared sys shm s =
     run_bind (shuso_ipc_commands_init (su_S s)) (\<lambda>(ok, S).
       let s = s\<lparr>su_S := S\<rparr> in
       if \<not> ok then Done (configure_fail True (Some ''failed to initialize IPC commands'') s)
       else
         run_bind (shuso_shared_slab_calloc shm sizeof_states) (\<lambda>(states, shm).
           let s = s\<lparr>su_shm := Some shm\<rparr> in
           if states = 0
           then Done (configure_fail True (Some ''failed to allocate shared memory for process states'') s)
           else
             run_bind (shuso_shared_slab_alloc shm 2) (\<lambda>(ws, shm).
             run_bind (shuso_shared_slab_alloc shm 2) (\<lambda>(we, shm).
               let s = s\<lparr>su_states := states, su_workers_start := ws, su_workers_end := we, su_shm := Some shm,
                    su_S := (su_S s)\<lparr>proc_state := (\<lambda>_. SHUSO_STATE_NIL)\<rparr>\<rparr>
               in if ws = 0 \<or> we = 0
                  then Done (configure_fail True (Some ''failed to allocate shared memory for worker range indices'') s)
                  else
                    (let (ok, s) = cf_master_modules sys s in
                     if \<not> ok then Done (configure_fail True None s)
                     else Done (True, upd_S (\<lambda>S. S\<lparr>common_state := SHUSO_STATE_CONFIGURED\<rparr>) s))))))"

definition shuso_configure_finish :: "config_sys \<Rightarrow> startup \<Rightarrow> (bool \<times> startup) run" where
  "shuso_configure_finish sys s =
     run_bind (shuso_runstate_check SHUSO_STATE_CONFIGURING ''finish configuring'' (su_S s)) (\<lambda>(ok, S).
       let s = s\<lparr>su_S := S\<rparr> in
       if \<not> ok then Done (False, s)
       else if \<not> cf_config_generate sys then Done (configure_fail False None s)
       else if \<not> cf_default_loop sys
       then Done (configure_fail False (Some ''failed to create event loop'') (s\<lparr>su_loop := False\<rparr>))
       else
         (let s = upd_L (acquire R_loop) (s\<lparr>su_loop := True\<rparr>);
              sz = (if cf_slab_size sys = 0 then SHUTTLESOCK_SHARED_SLAB_DEFAULT_SIZE else cf_slab_size sys);
              mapped = sys_mmap (cf_shm sys) sz;
              s = s\<lparr>su_retry_delay := set_default_config (su_retry_delay s) DEFAULT_IPC_SEND_RETRY_DELAY,
                    su_send_timeout := set_default_config (su_send_timeout s) DEFAULT_IPC_SEND_TIMEOUT\<rparr>;
              s' = s\<lparr>su_shm_ptr := mapped, su_shm_size := (if mapped = 0 then su_shm_size s else sz)\<rparr>
          in c_assert (su_workers s \<noteq> 0)
              (case shuso_shared_slab_create (cf_shm sys) (cf_slab_size sys) ''main shuttlesock slab'' (su_S s) of
                 ((False, S), _) \<Rightarrow>
                   Done (configure_fail False (Some ''failed to created shared memory slab'') (s'\<lparr>su_S := S\<rparr>))
               | ((True, S), Some shm, _) \<Rightarrow>
                   configure_shared sys shm (upd_L (acquire R_slab) (s'\<lparr>su_S := S, su_shm := Some shm\<rparr>))
               | ((True, S), None, _) \<Rightarrow> Abort)))"

section \<open>Destruction\<close>

text \<open>
  \<^verbatim>\<open>shuso_lua_destroy\<close> asserts that the Lua state is not external.  The slab is unmapped by
  the pointer and size stored for it: nothing happens for size 0, as when it was never mapped.
\<close>

definition shuso_lua_destroy :: "res \<Rightarrow> startup \<Rightarrow> startup run" where
  "shuso_lua_destroy r s =
     c_assert (\<not> su_lua_external s)
      (c_assert (su_lua_state s) (Done (upd_L (release r) (s\<lparr>su_lua_state := False\<rparr>))))"

definition shuso_destroy :: "startup \<Rightarrow> (bool \<times> startup) run" where
  "shuso_destroy s =
     run_bind (shuso_lua_destroy R_lua s) (\<lambda>s.
       let s = (if su_loop s then upd_L (release R_loop) s else s);
           s = upd_L (shuso_pool_emptied R_pool) s;
           s = (if su_shm_size s \<noteq> 0 then upd_L (release R_slab) s else s);
           s = (if procnum (su_S s) \<le> SHUTTLESOCK_MANAGER then upd_L (release R_common) s else s);
           s = upd_L (release R_state) s;
           s = upd_L (release R_resolver_global) s
       in Done (True, s))"

section \<open>Channels and watchers\<close>

text \<open>
  The results of what the code calls while it runs: channels, the resolver, \<^verbatim>\<open>fork\<close>, the
  modules, the pool, the two \<^verbatim>\<open>pthread\<close> calls for the thread of each worker, and the event loop,
  which may change the state as the other theories describe it.
\<close>

record worker_sys =
  wk_calloc :: bool
  wk_pool :: bool
  wk_resolver :: bool
  wk_lua_create :: bool
  wk_lua_initialize :: bool
  wk_modules :: bool
  wk_attr_init :: bool
  wk_thread :: bool

record run_sys =
  rn_env :: ipc_env
  rn_channels :: channel_sys
  rn_resolver :: bool
  rn_fork :: int
  rn_manager_modules :: bool
  rn_send_array :: bool
  rn_worker_array :: bool
  rn_worker :: "int \<Rightarrow> worker_sys"
  rn_loop_new :: bool
  rn_loop :: "startup \<Rightarrow> startup"
  rn_receiver_keys :: "receiver_key list"

abbreviation publish :: "run_sys \<Rightarrow> string \<Rightarrow> startup \<Rightarrow> startup" where
  "publish sys name \<equiv> upd_S (\<lambda>S. snd (shuso_core_event_publish (rn_env sys) name 0 S))"

definition create_channel :: "run_sys \<Rightarrow> int \<Rightarrow> startup \<Rightarrow> (bool \<times> startup) run" where
  "create_channel sys proc s =
     run_bind (shuso_ipc_channel_shared_create (rn_channels sys) proc (su_channels s proc, su_os s, su_S s))
       (\<lambda>(ok, ch, o', S). Done (ok, s\<lparr>su_channels := (su_channels s)(proc := ch), su_os := o', su_S := S\<rparr>))"

definition destroy_channel :: "int \<Rightarrow> startup \<Rightarrow> startup" where
  "destroy_channel proc s =
     (let (ch, o') = shuso_ipc_channel_shared_destroy (su_channels s proc, su_os s)
      in s\<lparr>su_channels := (su_channels s)(proc := ch), su_os := o'\<rparr>)"

text \<open>The result of \<^verbatim>\<open>shuso_ipc_channel_local_init\<close> is not looked at.\<close>

definition start_local_channel :: "run_sys \<Rightarrow> startup \<Rightarrow> startup run" where
  "start_local_channel sys s =
     run_bind (shuso_ipc_channel_local_init (su_channels s) (rn_send_array sys) (su_S s))
       (\<lambda>(ok, lc, S). Done (s\<lparr>su_local := lc, su_S := S, su_receiving := True\<rparr>))"

definition shuttlesock_watched_signals :: "int list" where
  "shuttlesock_watched_signals = [15, 2, 3, 1, 18, 10, 12, 28]"

definition shuso_init_signal_watchers :: "startup \<Rightarrow> startup" where
  "shuso_init_signal_watchers s =
     fold (\<lambda>signum s. s\<lparr>su_signal_watchers := su_signal_watchers s @ [signum]\<rparr>) shuttlesock_watched_signals s"

text \<open>The workers in the range; each entry of the table is one process.\<close>

abbreviation workers_in_range :: "startup \<Rightarrow> int list" where
  "workers_in_range s \<equiv> map int [workers_start (su_S s)..<workers_end (su_S s)]"

definition shuso_cleanup_loop :: "receiver_key list \<Rightarrow> startup \<Rightarrow> startup run option" where
  "shuso_cleanup_loop keys s =
     (case shuso_ipc_channel_local_stop keys (su_receivers s, su_S s) of
        None \<Rightarrow> None
      | Some Abort \<Rightarrow> Some Abort
      | Some (Done (rt, S)) \<Rightarrow>
          (let s = s\<lparr>su_receiving := False, su_receivers := rt, su_S := S\<rparr> in
           if procnum S < SHUTTLESOCK_WORKER then
             (let s = s\<lparr>su_signal_watchers := filter (\<lambda>n. n \<notin> set shuttlesock_watched_signals) (su_signal_watchers s),
                   su_child_watcher := False\<rparr>
              in case delete_base_watchers (su_timers s) of
                   None \<Rightarrow> None
                 | Some Abort \<Rightarrow> Some Abort
                 | Some (Done w) \<Rightarrow>
                     (let s = s\<lparr>su_timers := w\<rparr>;
                          s = destroy_channel SHUTTLESOCK_MANAGER (destroy_channel SHUTTLESOCK_MASTER s);
                          s = (if procnum S = SHUTTLESOCK_MANAGER
                               then fold destroy_channel (workers_in_range s) s else s)
                      in Some (Done s)))
           else Some (Done s)))"

section \<open>Workers\<close>

text \<open>
  The manager prepares a worker.  The label \<^verbatim>\<open>fail\<close> of the code, with the flags it keeps; the
  Lua state of the worker is not among them.
\<close>

definition worker_fail :: "int \<Rightarrow> bool \<Rightarrow> bool \<Rightarrow> bool \<Rightarrow> bool \<Rightarrow> string \<Rightarrow> startup \<Rightarrow> (bool \<times> startup) run" where
  "worker_fail proc shared_ipc_created resolver_initialized pool_initialized wS err s =
     (let s = (if shared_ipc_created then destroy_channel proc s else s);
          s = upd_L (release_if resolver_initialized (R_worker_resolver proc)) s;
          s = (if pool_initialized then upd_L (shuso_pool_emptied (R_worker_pool proc)) s else s);
          s = upd_L (release_if wS (R_worker_state proc)) s
      in Done (False, upd_S (\<lambda>S. snd (shuso_set_error
           (''failed to initialize worker '' @ decimal proc @ '': '' @ err) S)) s))"

definition set_proc_state :: "int \<Rightarrow> runstate \<Rightarrow> startup \<Rightarrow> startup" where
  "set_proc_state proc st = upd_S (\<lambda>S. S\<lparr>proc_state := (proc_state S)(proc := st)\<rparr>)"

definition shuso_initialize_worker :: "run_sys \<Rightarrow> int \<Rightarrow> startup \<Rightarrow> (bool \<times> startup) run" where
  "shuso_initialize_worker sys proc s =
     (let n = shuso_process_to_procnum proc; wk = rn_worker sys proc in
      c_assert (n \<ge> SHUTTLESOCK_WORKER)
       (c_assert (procnum (su_S s) = SHUTTLESOCK_MANAGER)
         (c_assert (proc_state (su_S s) proc = SHUSO_STATE_NIL)
           (if \<not> wk_calloc wk then worker_fail proc False False False False ''failed to create worker state'' s
            else
              run_bind (create_channel sys proc (upd_L (acquire (R_worker_state proc)) s)) (\<lambda>(ok, s).
                if \<not> ok then worker_fail proc False False False True ''failed to create shared IPC channel for worker'' s
                else
                  (let s = set_proc_state proc SHUSO_STATE_NIL (s\<lparr>su_worker_S := insert proc (su_worker_S s)\<rparr>) in
                   if \<not> wk_pool wk then worker_fail proc True False False True ''failed to initialize pool'' s
                   else
                     (let s = upd_L (acquire (R_worker_pool proc)) s in
                      if \<not> wk_resolver wk then worker_fail proc True False True True ''unable to initialize resolver'' s
                      else
                        (let s = upd_L (acquire (R_worker_resolver proc)) s in
                         if \<not> wk_lua_create wk then worker_fail proc True True True True ''failed to create Lua state'' s
                         else
                           (let s = upd_L (acquire (R_worker_lua proc)) s in
                            if \<not> wk_lua_initialize wk then worker_fail proc True True True True ''failed to initialize Lua'' s
                            else
                              (let s = publish sys ''worker.start.before.lua_gxcopy'' s in
                               if \<not> wk_modules wk then worker_fail proc True True True True ''failed to initialize modules'' s
                               else Done (True, publish sys ''worker.start.before'' s)))))))))))"

text \<open>The array of states: a null pointer for a worker that could not be prepared.\<close>

fun initialize_each :: "run_sys \<Rightarrow> int list \<Rightarrow> startup \<Rightarrow> (int option list \<times> startup) run" where
  "initialize_each sys [] s = Done ([], s)"
| "initialize_each sys (w # ws) s =
     run_bind (shuso_initialize_worker sys w s) (\<lambda>(ok, s).
       let s = (if ok then s else upd_S (\<lambda>S. snd (shuso_set_error (''failed to spawn worker '' @ decimal w) S)) s)
       in run_bind (initialize_each sys ws s) (\<lambda>(rest, s). Done ((if ok then Some w else None) # rest, s)))"

definition shuso_initialize_workers :: "run_sys \<Rightarrow> startup \<Rightarrow> (int option list option \<times> startup) run" where
  "shuso_initialize_workers sys s =
     (if \<not> rn_worker_array sys
      then Done (None, upd_S (\<lambda>S. snd (shuso_set_error ''can't allocate worker state array'' S)) s)
      else run_bind (initialize_each sys (workers_in_range s) s) (\<lambda>(ws, s). Done (Some ws, s)))"

definition shuso_spawn_worker :: "run_sys \<Rightarrow> int \<Rightarrow> startup \<Rightarrow> (bool \<times> startup) run" where
  "shuso_spawn_worker sys w s =
     c_assert (proc_state (su_S s) w = SHUSO_STATE_NIL)
      (let s = set_proc_state w SHUSO_STATE_STARTING s;
           fail = (\<lambda>err. Done (False, upd_S (\<lambda>S. snd (shuso_set_error
             (''failed to start worker '' @ decimal w @ '': '' @ err) S)) s))
       in if \<not> wk_attr_init (rn_worker sys w) then fail ''pthread_attr_init() failed''
          else if \<not> wk_thread (rn_worker sys w) then fail ''failed to create thread''
          else Done (True, s\<lparr>su_threads := su_threads s @ [w]\<rparr>))"

fun spawn_each :: "run_sys \<Rightarrow> int option list \<Rightarrow> startup \<Rightarrow> (nat \<times> startup) run" where
  "spawn_each sys [] s = Done (0, s)"
| "spawn_each sys (None # ws) s = spawn_each sys ws s"
| "spawn_each sys (Some w # ws) s =
     run_bind (shuso_spawn_worker sys w s) (\<lambda>(ok, s).
     run_bind (spawn_each sys ws s) (\<lambda>(failed, s). Done (if ok then failed else failed + 1, s)))"

definition shuso_spawn_workers :: "run_sys \<Rightarrow> int option list \<Rightarrow> startup \<Rightarrow> (bool \<times> startup) run" where
  "shuso_spawn_workers sys worker_state s =
     run_bind (spawn_each sys worker_state s) (\<lambda>(failed, s).
       Done (failed = 0, upd_S (\<lambda>S. S\<lparr>workers_end := workers_end S - failed\<rparr>) s))"

section \<open>The thread of a worker\<close>

definition shuso_worker_shutdown :: "run_sys \<Rightarrow> startup \<Rightarrow> startup run option" where
  "shuso_worker_shutdown sys s =
     (case shuso_cleanup_loop (rn_receiver_keys sys) s of
        None \<Rightarrow> None
      | Some r \<Rightarrow> Some (run_bind r (\<lambda>s.
          let w = procnum (su_S s) in
          c_assert (own_state (su_S s) = SHUSO_STATE_STOPPING)
           (run_bind (shuso_lua_destroy (R_worker_lua w) (upd_L (release R_loop) (s\<lparr>su_loop := False\<rparr>))) (\<lambda>s.
             let s = upd_L (release (R_worker_resolver w)) s;
                 s = upd_L (shuso_pool_emptied (R_worker_pool w)) s;
                 s = upd_L (release (R_worker_state w)) s
             in Done (upd_S (set_own_state SHUSO_STATE_STOPPED) s))))))"

text \<open>\<^verbatim>\<open>ev_set_userdata\<close> needs a loop; the message to the manager is number 9.\<close>

definition shuso_run_worker :: "run_sys \<Rightarrow> startup \<Rightarrow> startup run option" where
  "shuso_run_worker sys s =
     (let started =
        c_assert (rn_loop_new sys)
         (run_bind (start_local_channel sys (upd_L (acquire R_loop) (s\<lparr>su_loop := True\<rparr>))) (\<lambda>s.
            let s = publish sys ''worker.start'' (upd_S (set_own_state SHUSO_STATE_RUNNING) s)
            in run_bind (shuso_ipc_send (rn_env sys) SHUTTLESOCK_MANAGER 9 (nat (procnum (su_S s))) (su_S s))
                 (\<lambda>(ok, S). Done (s\<lparr>su_S := S\<rparr>))))
      in case started of
           Abort \<Rightarrow> Some Abort
         | Done s \<Rightarrow> shuso_worker_shutdown sys (rn_loop sys s))"

section \<open>Running\<close>

definition shuso_core_io_uring_setup :: bool where
  "shuso_core_io_uring_setup = True"

text \<open>The number of workers is stored with 16 bits.\<close>

definition shuso_fork_manager :: "run_sys \<Rightarrow> startup \<Rightarrow> bool \<times> startup" where
  "shuso_fork_manager sys s =
     (if procnum (su_S s) = SHUTTLESOCK_MANAGER
      then (False, upd_S (\<lambda>S. snd (shuso_set_error ''can't spawn manager from manager'' S)) s)
      else if procnum (su_S s) \<ge> SHUTTLESOCK_WORKER
      then (False, upd_S (\<lambda>S. snd (shuso_set_error ''can't spawn manager from worker'' S)) s)
      else
        (let pid = rn_fork sys in
         if pid > 0 then (True, upd_S (\<lambda>S. S\<lparr>manager_pid := pid\<rparr>) s)
         else if pid = -1 then (False, s)
         else
           (let s = upd_S (\<lambda>S. S\<lparr>procnum := SHUTTLESOCK_MANAGER\<rparr>) s;
                s = upd_S (set_own_state SHUSO_STATE_STARTING) s;
                s = upd_S (set_own_state SHUSO_STATE_RUNNING) s;
                s = upd_S (\<lambda>S. S\<lparr>workers_start := 0, workers_end := su_workers s mod 2 ^ 16\<rparr>) s
            in if \<not> rn_manager_modules sys then (False, s) else (True, s))))"

definition run_fail :: "bool \<Rightarrow> bool \<Rightarrow> bool \<Rightarrow> string \<Rightarrow> startup \<Rightarrow> bool \<times> startup" where
  "run_fail master_ipc_created manager_ipc_created resolver_initialized err s =
     (let s = (if master_ipc_created then destroy_channel SHUTTLESOCK_MASTER s else s);
          s = (if manager_ipc_created then destroy_channel SHUTTLESOCK_MANAGER s else s);
          s = upd_L (release_if resolver_initialized R_resolver) s;
          s = upd_S (set_own_state SHUSO_STATE_DEAD) s
      in (False, upd_S (\<lambda>S. snd (shuso_set_error err S)) s))"

text \<open>What the process does between the fork and its loop: an error message, if any.\<close>

definition start_process :: "run_sys \<Rightarrow> startup \<Rightarrow> (string option \<times> startup) run" where
  "start_process sys s =
     (if shuso_is_master (su_S s) then
        run_bind (start_local_channel sys s) (\<lambda>s. Done (None, publish sys ''master.start'' s))
      else
        c_assert (shuso_is_manager (su_S s))
         (run_bind (shuso_initialize_workers sys s) (\<lambda>(ws, s).
            case ws of
              None \<Rightarrow> Done (Some ''failed to initialize workers'', s)
            | Some ws \<Rightarrow>
                run_bind (start_local_channel sys s) (\<lambda>s.
                run_bind (shuso_spawn_workers sys ws s) (\<lambda>(ok, s).
                  if \<not> ok then Done (Some ''failed to spawn all workers'', s)
                  else Done (None, publish sys ''manager.start'' s))))))"

definition run_loop :: "run_sys \<Rightarrow> startup \<Rightarrow> (bool \<times> startup) run option" where
  "run_loop sys s =
     (let s = rn_loop sys s;
          s = (if shuso_is_master (su_S s) then publish sys ''master.exit'' s
               else if shuso_is_manager (su_S s) then publish sys ''manager.exit'' s else s)
      in case shuso_cleanup_loop (rn_receiver_keys sys) s of
           None \<Rightarrow> None
         | Some r \<Rightarrow> Some (run_bind r (\<lambda>s.
             let s = upd_L (release R_resolver) s;
                 s = upd_S (set_own_state SHUSO_STATE_STOPPED) s
             in Done (True, upd_L (shuso_pool_emptied R_pool) s))))"

definition run_forked :: "run_sys \<Rightarrow> startup \<Rightarrow> (bool \<times> startup) run option" where
  "run_forked sys s =
     (let s = s\<lparr>su_child_watcher := True\<rparr>;
          s = upd_S (set_own_state SHUSO_STATE_RUNNING) s;
          (ok, s) = shuso_fork_manager sys s
      in if \<not> ok then Some (Done (run_fail True True True ''failed to spawn manager process'' s))
         else
           (case start_process sys (shuso_init_signal_watchers s) of
              Abort \<Rightarrow> Some Abort
            | Done (Some err, s) \<Rightarrow> Some (Done (run_fail True True True err s))
            | Done (None, s) \<Rightarrow>
                if \<not> shuso_core_io_uring_setup
                then Some (Done (run_fail True True True ''failed to set up io_uring'' s))
                else run_loop sys s))"

definition shuso_run :: "run_sys \<Rightarrow> startup \<Rightarrow> (bool \<times> startup) run option" where
  "shuso_run sys s =
     (case shuso_runstate_check SHUSO_STATE_CONFIGURED ''run'' (su_S s) of
        Abort \<Rightarrow> Some Abort
      | Done (False, S) \<Rightarrow> Some (Done (False, s\<lparr>su_S := S\<rparr>))
      | Done (True, S) \<Rightarrow>
          (let s = upd_S (set_own_state SHUSO_STATE_STARTING) (s\<lparr>su_S := S\<rparr>) in
           case create_channel sys SHUTTLESOCK_MASTER s of
             Abort \<Rightarrow> Some Abort
           | Done (False, s) \<Rightarrow>
               Some (Done (run_fail False False False ''failed to create shared IPC channel for master'' s))
           | Done (True, s) \<Rightarrow>
               (case create_channel sys SHUTTLESOCK_MANAGER s of
                  Abort \<Rightarrow> Some Abort
                | Done (False, s) \<Rightarrow>
                    Some (Done (run_fail True False False ''failed to create shared IPC channel for manager'' s))
                | Done (True, s) \<Rightarrow>
                    if \<not> rn_resolver sys
                    then Some (Done (run_fail True True False ''failed to initialize resolver shared DNS resolver'' s))
                    else run_forked sys (upd_L (acquire R_resolver) s))))"

section \<open>Creation and destruction\<close>

definition created_resources :: "bool \<Rightarrow> res set" where
  "created_resources lua = {R_common, R_state, R_resolver_global, R_pool} \<union> (if lua then {} else {R_lua})"

lemmas ledger_defs = acquire_def release_def shuso_pool_emptied_def

lemma release_held: "r \<in> held L \<Longrightarrow> release r L = L\<lparr>held := held L - {r}\<rparr>"
  by (simp add: release_def)

lemma create_fail_eq:
  assumes "rg \<longrightarrow> R_resolver_global \<in> held L" and "S \<and> lua \<longrightarrow> R_lua \<in> held L" and "S \<longrightarrow> R_state \<in> held L"
    and "c \<longrightarrow> R_common \<in> held L"
  shows "create_fail rg p lua S c err L = (False, err, L\<lparr>held := {r \<in> held L.
    \<not> (rg \<and> r = R_resolver_global \<or> p \<and> r = R_pool \<or> S \<and> lua \<and> r = R_lua \<or> S \<and> r = R_state \<or> c \<and> r = R_common)}\<rparr>)"
proof -
  have L: "L = \<lparr>held = held L, twice = twice L\<rparr>" by simp
  show ?thesis
    using assms
    by (subst (1 2) L) (cases rg; cases p; cases lua; cases S; cases c;
        auto simp: create_fail_def release_held shuso_pool_emptied_def)
qed

lemma create_outcome:
  assumes "held L \<inter> created_resources False = {}"
  shows "case shuso_create_with_lua sys lua L of (ok, err, L') \<Rightarrow> twice L' = twice L \<and>
    held L' = (if ok then held L \<union> created_resources lua else held L) \<and> (ok \<longrightarrow> err = None)"
proof -
  have n: "R_common \<notin> held L" "R_state \<notin> held L" "R_resolver_global \<notin> held L" "R_pool \<notin> held L" "R_lua \<notin> held L"
    using assms by (auto simp: created_resources_def)
  show ?thesis
    using n by (auto simp: shuso_create_with_lua_def create_fail_eq acquire_def created_resources_def Let_def
        split: option.split)
qed

lemma create_succeeds_iff:
  "fst (shuso_create_with_lua sys lua L) \<longleftrightarrow>
     cr_common sys \<and> cr_state sys \<and> cr_resolver_global sys = None \<and> (lua \<or> cr_lua_create sys) \<and> cr_pool sys \<and>
     cr_lua_initialize sys \<and> cr_config_initialize sys \<and> cr_core_modules sys = None"
  by (auto simp: shuso_create_with_lua_def create_fail_def Let_def split: option.split)

text \<open>A pool that cannot be initialised makes the creation fail without a message.\<close>

lemma create_pool_failure_silent:
  "cr_common sys \<Longrightarrow> cr_state sys \<Longrightarrow> cr_resolver_global sys = None \<Longrightarrow> cr_lua_create sys \<Longrightarrow> \<not> cr_pool sys \<Longrightarrow>
   fst (snd (shuso_create sys L)) = None"
  by (simp add: shuso_create_def shuso_create_with_lua_def create_fail_def Let_def)

text \<open>The state that a successful creation leaves, with the message buffer and settings of \<^verbatim>\<open>calloc\<close>.\<close>

definition created :: "bool \<Rightarrow> ledger \<Rightarrow> startup \<Rightarrow> bool" where
  "created lua L s \<longleftrightarrow> su_ledger s = L \<and> su_lua_external s = lua \<and> su_lua_state s \<and> \<not> su_loop s \<and>
     su_shm s = None \<and> su_shm_size s = 0 \<and> procnum (su_S s) = SHUTTLESOCK_MASTER \<and>
     common_state (su_S s) = SHUSO_STATE_CONFIGURING \<and> ipc_handlers (su_S s) = (\<lambda>_. None)"

lemma destroy_created:
  assumes "held L \<inter> created_resources False = {}" and "shuso_create sys L = (True, err, L')" and "created False L' s"
  shows "\<exists>s'. shuso_destroy s = Done (True, s') \<and> su_ledger s' = L"
proof -
  have n: "R_common \<notin> held L" "R_state \<notin> held L" "R_resolver_global \<notin> held L" "R_pool \<notin> held L" "R_lua \<notin> held L"
    using assms by (auto simp: created_resources_def)
  have L': "L' = L\<lparr>held := held L \<union> created_resources False\<rparr>"
    using create_outcome [OF assms(1), where sys = sys and lua = False] assms(2) by (auto simp: shuso_create_def)
  have s: "su_ledger s = L'" "\<not> su_lua_external s" "su_lua_state s" "\<not> su_loop s" "su_shm_size s = 0"
    "procnum (su_S s) = SHUTTLESOCK_MASTER"
    using assms(3) by (simp_all add: created_def)
  let ?L = "release R_resolver_global (release R_state (release R_common (shuso_pool_emptied R_pool (release R_lua L'))))"
  have "shuso_destroy s = Done (True, s\<lparr>su_lua_state := False, su_ledger := ?L\<rparr>)"
    using s by (simp add: shuso_destroy_def shuso_lua_destroy_def)
  moreover have "?L = L"
    using n by (auto simp: L' release_held shuso_pool_emptied_def created_resources_def intro!: ledger.equality)
  ultimately show ?thesis by simp
qed

text \<open>A state created on the client's Lua state cannot be destroyed.\<close>

lemma destroy_external_aborts: "created True L s \<Longrightarrow> shuso_destroy s = Abort"
  by (simp add: shuso_destroy_def shuso_lua_destroy_def created_def)

section \<open>Configuration\<close>

lemma set_error_common_state [simp]: "common_state (snd (shuso_set_error m S)) = common_state S"
  by (simp add: shuso_set_error_def shuso_set_error_internal_vararg_def emit_def Let_def)

lemma configure_fail_ok:
  assumes "configure_fail b err s = (ok, s')"
  shows "\<not> ok" and "common_state (su_S s') = SHUSO_STATE_MISCONFIGURED"
    and "su_ledger s' = (if b then release R_slab (su_ledger s) else su_ledger s)"
    and "su_shm_size s' = su_shm_size s" and "su_lua_state s' = su_lua_state s"
    and "su_lua_external s' = su_lua_external s"
  using assms by (cases b; auto simp: configure_fail_def Let_def)+

text \<open>The modules of the master do not touch what the configuration has set up.\<close>

definition modules_sound :: "config_sys \<Rightarrow> bool" where
  "modules_sound sys \<longleftrightarrow> (\<forall>s. let s' = snd (cf_master_modules sys s) in
     su_ledger s' = su_ledger s \<and> su_shm s' = su_shm s \<and> su_states s' = su_states s \<and>
     su_workers_start s' = su_workers_start s \<and> su_workers_end s' = su_workers_end s \<and>
     proc_state (su_S s') = proc_state (su_S s) \<and> ipc_handlers (su_S s') = ipc_handlers (su_S s) \<and>
     su_shm_size s' = su_shm_size s)"

text \<open>The two ways to allocate from the shared slab both keep the contract of an allocator.\<close>

definition shm_holds :: "shared_slab \<Rightarrow> block list \<Rightarrow> bool" where
  "shm_holds shm bs \<longleftrightarrow> slab_holds (shm_pool shm) bs \<and> \<not> shm_locked shm"

lemmas shm_alloc_defs = shuso_shared_slab_alloc_def shuso_shared_slab_calloc_def shuso_shared_slab_calloc_locked_def
  shuso_shared_slab_lock_def shuso_shared_slab_alloc_locked_def shuso_shared_slab_unlock_def shm_holds_def

interpretation shared_alloc: allocator shuso_shared_slab_alloc "\<lambda>sz. sz" "\<lambda>_. True" shm_holds
proof unfold_locales
  fix shm bs and sz :: nat
  assume h: "shm_holds shm bs"
  then obtain a p where "ngx_slab_alloc_locked (shm_pool shm) sz = Done (a, p)" "slab_holds p (if a = 0 then bs else (a, sz) # bs)"
    using slab.alloc_ok [of "shm_pool shm" bs sz] by (auto simp: shm_holds_def)
  then show "\<exists>a t. shuso_shared_slab_alloc shm sz = Done (a, t) \<and> shm_holds t (if a = 0 then bs else (a, sz) # bs)"
    using h by (simp add: shm_alloc_defs)
qed (auto simp: shm_holds_def intro: slab_holds_disjoint)

interpretation shared_calloc: allocator shuso_shared_slab_calloc "\<lambda>sz. sz" "\<lambda>_. True" shm_holds
proof unfold_locales
  fix shm bs and sz :: nat
  assume h: "shm_holds shm bs"
  then obtain a p where "ngx_slab_alloc_locked (shm_pool shm) sz = Done (a, p)" "slab_holds p (if a = 0 then bs else (a, sz) # bs)"
    using slab.alloc_ok [of "shm_pool shm" bs sz] by (auto simp: shm_holds_def)
  then show "\<exists>a t. shuso_shared_slab_calloc shm sz = Done (a, t) \<and> shm_holds t (if a = 0 then bs else (a, sz) # bs)"
    using h by (cases "a = 0") (simp_all add: shm_alloc_defs)
qed (auto simp: shm_holds_def intro: slab_holds_disjoint)

text \<open>The handlers are registered, and the state of the process is otherwise as it was.\<close>

lemma shuso_ipc_commands_init_ok:
  assumes "common_state S = SHUSO_STATE_CONFIGURING" and "ipc_handlers S = (\<lambda>_. None)"
  shows "\<exists>h. shuso_ipc_commands_init S = Done (True, S\<lparr>ipc_handlers := h\<rparr>)"
  using assms
  by (simp add: shuso_ipc_commands_init_def ipc_commands_def shuso_ipc_add_handler_def
      shuso_runstate_check_def SHUTTLESOCK_IPC_CODE_AUTOMATIC_def) (rule exI, rule refl)

definition configured :: "startup \<Rightarrow> startup \<Rightarrow> bool" where
  "configured s s' \<longleftrightarrow> common_state (su_S s') = SHUSO_STATE_CONFIGURED \<and>
     (\<exists>shm. su_shm s' = Some shm \<and>
        shm_holds shm [(su_workers_end s', 2), (su_workers_start s', 2), (su_states s', sizeof_states)]) \<and>
     su_ledger s' = su_ledger s \<and> proc_state (su_S s') = (\<lambda>_. SHUSO_STATE_NIL)"

definition misconfigured :: "startup \<Rightarrow> startup \<Rightarrow> bool" where
  "misconfigured s s' \<longleftrightarrow> common_state (su_S s') = SHUSO_STATE_MISCONFIGURED \<and>
     su_ledger s' = release R_slab (su_ledger s)"

lemma misconfigured_fail:
  assumes "su_ledger t = su_ledger s"
  shows "\<exists>s'. configure_fail True err t = (False, s') \<and> misconfigured s s'"
  using configure_fail_ok [of True err t] assms by (cases "configure_fail True err t") (auto simp: misconfigured_def)

lemma misconfigured_run:
  assumes "r = Done (configure_fail True err t)" and "su_ledger t = su_ledger s"
  shows "\<exists>ok s'. r = Done (ok, s') \<and> (if ok then configured s s' else misconfigured s s')"
  using misconfigured_fail [OF assms(2)] assms(1) by fastforce

lemma configure_shared_ok:
  assumes mods: "modules_sound sys" and shm: "shm_holds shm []"
    and S: "common_state (su_S s) = SHUSO_STATE_CONFIGURING" "ipc_handlers (su_S s) = (\<lambda>_. None)"
  shows "\<exists>ok s'. configure_shared sys shm s = Done (ok, s') \<and> (if ok then configured s s' else misconfigured s s')"
proof -
  obtain h where h: "shuso_ipc_commands_init (su_S s) = Done (True, (su_S s)\<lparr>ipc_handlers := h\<rparr>)"
    using shuso_ipc_commands_init_ok [OF S] by blast
  obtain a t where a: "shuso_shared_slab_calloc shm sizeof_states = Done (a, t)"
    "shm_holds t (if a = 0 then [] else [(a, sizeof_states)])"
    using shared_calloc.alloc_ok [OF shm, of sizeof_states] by auto
  show ?thesis
  proof (cases "a = 0")
    case True
    show ?thesis
      by (rule misconfigured_run [of _ "Some ''failed to allocate shared memory for process states''"
            "s\<lparr>su_S := (su_S s)\<lparr>ipc_handlers := h\<rparr>, su_shm := Some t\<rparr>"])
        (use h a True in \<open>simp_all add: configure_shared_def\<close>)
  next
    case False
    then obtain b u where b: "shuso_shared_slab_alloc t 2 = Done (b, u)"
      "shm_holds u (if b = 0 then [(a, sizeof_states)] else [(b, 2), (a, sizeof_states)])"
      using shared_alloc.alloc_ok [of t "[(a, sizeof_states)]" 2] a by auto
    obtain c v where c: "shuso_shared_slab_alloc u 2 = Done (c, v)"
      "b \<noteq> 0 \<Longrightarrow> c \<noteq> 0 \<Longrightarrow> shm_holds v [(c, 2), (b, 2), (a, sizeof_states)]"
      using shared_alloc.alloc_ok [OF b(2), of 2] by (auto split: if_splits)
    let ?s = "s\<lparr>su_states := a, su_workers_start := b, su_workers_end := c, su_shm := Some v,
      su_S := (su_S s)\<lparr>ipc_handlers := h, proc_state := (\<lambda>_. SHUSO_STATE_NIL)\<rparr>\<rparr>"
    obtain ok s2 where m: "cf_master_modules sys ?s = (ok, s2)" by (cases "cf_master_modules sys ?s")
    have k: "su_ledger s2 = su_ledger s" "su_shm s2 = Some v" "su_states s2 = a" "su_workers_start s2 = b"
      "su_workers_end s2 = c" "proc_state (su_S s2) = (\<lambda>_. SHUSO_STATE_NIL)"
      using mods [unfolded modules_sound_def, rule_format, of ?s] m by (simp_all add: Let_def)
    show ?thesis
    proof (cases "b = 0 \<or> c = 0")
      case True
      show ?thesis
        by (rule misconfigured_run [of _ "Some ''failed to allocate shared memory for worker range indices''" ?s])
          (use h a(1) b(1) c(1) False True in \<open>simp_all add: configure_shared_def\<close>)
    next
      case ne: False
      then have v: "shm_holds v [(c, 2), (b, 2), (a, sizeof_states)]" using c(2) by simp
      obtain s' where f: "configure_fail True None s2 = (False, s')" "misconfigured s s'"
        using misconfigured_fail [OF k(1)] by blast
      have run: "configure_shared sys shm s =
          (if ok then Done (True, upd_S (\<lambda>S. S\<lparr>common_state := SHUSO_STATE_CONFIGURED\<rparr>) s2) else Done (False, s'))"
        using h a(1) b(1) c(1) False ne m f by (simp add: configure_shared_def)
      show ?thesis
      proof (cases ok)
        case True
        then show ?thesis using run k v by (intro exI [of _ True]) (simp add: configured_def)
      next
        case nok: False
        then show ?thesis using f run by (intro exI [of _ False]) simp
      qed
    qed
  qed
qed

lemma configure_finish_ok:
  fixes sys s
  defines "sz \<equiv> (if cf_slab_size sys = 0 then SHUTTLESOCK_SHARED_SLAB_DEFAULT_SIZE else cf_slab_size sys)"
  assumes mods: "modules_sound sys"
    and S: "common_state (su_S s) = SHUSO_STATE_CONFIGURING" "ipc_handlers (su_S s) = (\<lambda>_. None)"
    and w: "su_workers s \<noteq> 0" and slab: "R_slab \<notin> held (su_ledger s)"
    and room: "sys_mmap (cf_shm sys) sz = 0 \<or> slab_room (sys_mmap (cf_shm sys) sz) (sys_mmap (cf_shm sys) sz + sz)"
  shows "\<exists>ok s'. shuso_configure_finish sys s = Done (ok, s') \<and>
    (if ok then common_state (su_S s') = SHUSO_STATE_CONFIGURED \<and> proc_state (su_S s') = (\<lambda>_. SHUSO_STATE_NIL) \<and>
       (\<exists>shm. su_shm s' = Some shm \<and>
          shm_holds shm [(su_workers_end s', 2), (su_workers_start s', 2), (su_states s', sizeof_states)])
     else common_state (su_S s') = SHUSO_STATE_MISCONFIGURED \<and> R_slab \<notin> held (su_ledger s'))"
proof -
  have fail: ?thesis
    if r: "shuso_configure_finish sys s = Done (configure_fail False err t)" and t: "R_slab \<notin> held (su_ledger t)" for err t
  proof -
    obtain ok s' where f: "configure_fail False err t = (ok, s')" by (cases "configure_fail False err t")
    show ?thesis using configure_fail_ok [OF f] r t f by (intro exI [of _ False] exI [of _ s']) simp
  qed
  note defs = shuso_configure_finish_def shuso_runstate_check_def S
  show ?thesis
  proof (cases "cf_config_generate sys \<and> cf_default_loop sys")
    case False
    show ?thesis
    proof (cases "cf_config_generate sys")
      case True
      show ?thesis
        by (rule fail [of "Some ''failed to create event loop''" "s\<lparr>su_loop := False\<rparr>"])
          (use True False slab in \<open>simp_all add: defs\<close>)
    next
      case False
      show ?thesis by (rule fail [of None s]) (use False slab in \<open>simp_all add: defs\<close>)
    qed
  next
    case True
    obtain ok S' x res where c: "shuso_shared_slab_create (cf_shm sys) (cf_slab_size sys) ''main shuttlesock slab'' (su_S s) =
        ((ok, S'), x, res)"
      by (metis prod.exhaust)
    let ?t = "s\<lparr>su_loop := True, su_ledger := acquire R_loop (su_ledger s),
      su_retry_delay := set_default_config (su_retry_delay s) DEFAULT_IPC_SEND_RETRY_DELAY,
      su_send_timeout := set_default_config (su_send_timeout s) DEFAULT_IPC_SEND_TIMEOUT,
      su_shm_ptr := sys_mmap (cf_shm sys) sz, su_shm_size := (if sys_mmap (cf_shm sys) sz = 0 then su_shm_size s else sz),
      su_S := S'\<rparr>"
    show ?thesis
    proof (cases ok)
      case False
      then show ?thesis using True c w slab
        by (intro fail [of "Some ''failed to created shared memory slab''" ?t])
          (simp_all add: defs Let_def sz_def acquire_def cong: if_cong)
    next
      case okt: True
      then obtain shm where shm: "x = Some shm" using shared_slab_create_releases(1) [OF c] by auto
      have base: "sys_mmap (cf_shm sys) sz \<noteq> 0" and S': "S' = su_S s"
        using c okt by (auto simp: shuso_shared_slab_create_def shuso_set_error_def sz_def Let_def split: if_splits)
      have "shm_holds shm []"
        using shared_slab_create_inv [of "cf_shm sys" "cf_slab_size sys" "''main shuttlesock slab''" "su_S s" S' shm res]
          c okt shm room base by (auto simp: sz_def shm_holds_def slab_holds_def cong: if_cong)
      from configure_shared_ok [OF mods this, of "upd_L (acquire R_slab) (?t\<lparr>su_shm := Some shm\<rparr>)"]
      obtain ok' s' where r: "configure_shared sys shm (upd_L (acquire R_slab) (?t\<lparr>su_shm := Some shm\<rparr>)) = Done (ok', s')"
        "if ok' then configured (upd_L (acquire R_slab) (?t\<lparr>su_shm := Some shm\<rparr>)) s'
         else misconfigured (upd_L (acquire R_slab) (?t\<lparr>su_shm := Some shm\<rparr>)) s'"
        using S S' by auto
      have run: "shuso_configure_finish sys s = Done (ok', s')"
        using r(1) True c okt shm w base by (simp add: defs Let_def sz_def cong: if_cong)
      show ?thesis unfolding run using r(2)
        by (cases ok') (auto simp: configured_def misconfigured_def acquire_def release_def)
    qed
  qed
qed

lemma held_release [simp]: "held (release r L) = held L - {r}"
  by (simp add: release_def)

lemma twice_release [simp]: "twice (release r L) = (if r \<in> held L then twice L else r # twice L)"
  by (simp add: release_def)

lemma emptied_simps [simp]:
  "held (shuso_pool_emptied r L) = held L - {r}"
  "twice (shuso_pool_emptied r L) = twice L"
  by (simp_all add: shuso_pool_emptied_def)

text \<open>After a failure that unmapped the slab, the destruction unmaps it again.\<close>

lemma misconfigured_slab_unmapped_twice:
  assumes "configure_fail True err s = (ok, s1)" and "su_shm_size s \<noteq> 0"
    and "su_lua_state s" and "\<not> su_lua_external s" and "R_slab \<in> held (su_ledger s)"
  shows "\<exists>s2. shuso_destroy s1 = Done (True, s2) \<and> R_slab \<in> set (twice (su_ledger s2))"
proof -
  note f = configure_fail_ok [OF assms(1)]
  show ?thesis
    using assms by (simp add: shuso_destroy_def shuso_lua_destroy_def Let_def f)
qed

section \<open>Cleaning up\<close>

lemma cleanup_master_ok:
  assumes "procnum (su_S s) = SHUTTLESOCK_MASTER" and "outbuf_chain (su_S s) xs" and "handled (su_S s) xs"
    and "timers_rep (su_timers s) ts"
  shows "\<exists>s'. shuso_cleanup_loop keys s = Some (Done s') \<and> su_ledger s' = su_ledger s \<and>
    procnum (su_S s') = SHUTTLESOCK_MASTER \<and>
    su_os s' = su_os (destroy_channel SHUTTLESOCK_MANAGER (destroy_channel SHUTTLESOCK_MASTER s))"
proof -
  obtain w where w: "delete_base_watchers (su_timers s) = Some (Done w)"
    using delete_base_watchers_ok [OF assms(4)] by blast
  show ?thesis
    using assms(1) local_stop_outbuf_ok [OF assms(2,3)] w
    by (simp add: shuso_cleanup_loop_def shuso_ipc_channel_local_stop_def local_stop_keeps_receivers
        destroy_channel_def Let_def split: prod.splits)
qed

section \<open>The run of the master\<close>

lemma destroy_channel_os:
  "su_os (destroy_channel proc s) =
     (su_os s)\<lparr>os_fds := os_fds (su_os s) - chan_fds (su_channels s proc),
       os_rings := os_rings (su_os s) - {ch_buf (su_channels s proc)}\<rparr>"
  using channel_destroyed [of "su_channels s proc" "su_os s"]
  by (auto simp: destroy_channel_def Let_def split: prod.splits)

lemma create_channel_ok:
  assumes "channel_sys_sound (rn_channels sys)" and "create_channel sys proc s = Done (True, s')"
  shows "\<exists>ch. s' = s\<lparr>su_channels := (su_channels s)(proc := ch),
      su_os := (su_os s)\<lparr>os_fds := os_fds (su_os s) \<union> chan_fds ch, os_rings := insert (ch_buf ch) (os_rings (su_os s))\<rparr>\<rparr> \<and>
    chan_fds ch \<inter> os_fds (su_os s) = {} \<and> ch_buf ch \<notin> os_rings (su_os s)"
proof -
  obtain ch o2 S where c: "shuso_ipc_channel_shared_create (rn_channels sys) proc (su_channels s proc, su_os s, su_S s) =
      Done (True, ch, o2, S)" "s' = s\<lparr>su_channels := (su_channels s)(proc := ch), su_os := o2, su_S := S\<rparr>"
    using assms(2) by (auto simp: create_channel_def run_bind_Done_iff)
  note d = channel_created [OF assms(1) c(1)]
  show ?thesis unfolding c(2) d(1,2) using d(3,4) by (intro exI [of _ ch]) simp
qed

text \<open>
  The event loop of a process keeps its channels, descriptors and resources, its list of timer
  watchers in order, and a chain of buffered messages that have handlers.
\<close>

definition loop_sound :: "run_sys \<Rightarrow> bool" where
  "loop_sound sys \<longleftrightarrow> (\<forall>s. let t = rn_loop sys s in
     su_channels t = su_channels s \<and> su_os t = su_os s \<and> su_ledger t = su_ledger s \<and>
     procnum (su_S t) = procnum (su_S s) \<and> (\<exists>ts. timers_rep (su_timers t) ts) \<and>
     (\<exists>xs. outbuf_chain (su_S t) xs \<and> handled (su_S t) xs))"

lemma outbuf_chain_publish [simp]:
  "outbuf_chain (snd (shuso_core_event_publish env name d S)) xs = outbuf_chain S xs"
  "handled (snd (shuso_core_event_publish env name d S)) xs = handled S xs"
  by (simp_all add: shuso_core_event_publish_def emit_def outbuf_chain_def handled_def)

lemma procnum_publish [simp]: "procnum (snd (shuso_core_event_publish env name d S)) = procnum S"
  by (simp add: shuso_core_event_publish_def emit_def)

lemma run_loop_master:
  assumes "loop_sound sys" and "procnum (su_S s) = SHUTTLESOCK_MASTER"
  shows "\<exists>s'. run_loop sys s = Some (Done (True, s')) \<and> procnum (su_S s') = SHUTTLESOCK_MASTER \<and>
    own_state (su_S s') = SHUSO_STATE_STOPPED \<and> R_resolver \<notin> held (su_ledger s') \<and>
    su_os s' = su_os (destroy_channel SHUTTLESOCK_MANAGER (destroy_channel SHUTTLESOCK_MASTER s))"
proof -
  let ?t = "publish sys ''master.exit'' (rn_loop sys s)"
  obtain ts xs where t: "su_channels ?t = su_channels s" "su_os ?t = su_os s" "procnum (su_S ?t) = SHUTTLESOCK_MASTER"
    "timers_rep (su_timers ?t) ts" "outbuf_chain (su_S ?t) xs" "handled (su_S ?t) xs"
    using assms(1) [unfolded loop_sound_def Let_def, THEN spec, of s] assms(2) by auto
  obtain s' where c: "shuso_cleanup_loop (rn_receiver_keys sys) ?t = Some (Done s')"
    "procnum (su_S s') = SHUTTLESOCK_MASTER"
    "su_os s' = su_os (destroy_channel SHUTTLESOCK_MANAGER (destroy_channel SHUTTLESOCK_MASTER ?t))"
    using cleanup_master_ok [OF t(3,5,6,4), of "rn_receiver_keys sys"] by blast
  have m: "shuso_is_master (su_S (rn_loop sys s))" using t(3) by (simp add: shuso_is_master_def)
  have "su_os (destroy_channel SHUTTLESOCK_MANAGER (destroy_channel SHUTTLESOCK_MASTER ?t)) =
      su_os (destroy_channel SHUTTLESOCK_MANAGER (destroy_channel SHUTTLESOCK_MASTER s))"
    using t(1,2) by (simp add: destroy_channel_def Let_def split: prod.splits)
  then show ?thesis using m c
    by (simp add: run_loop_def set_own_state_def Let_def)
qed

lemma start_master_ok:
  assumes "procnum (su_S s) = SHUTTLESOCK_MASTER"
  shows "\<exists>s'. start_process sys s = Done (None, s') \<and> su_channels s' = su_channels s \<and> su_os s' = su_os s \<and>
    procnum (su_S s') = SHUTTLESOCK_MASTER"
proof -
  have "\<forall>n \<in> set [SHUTTLESOCK_MASTER, SHUTTLESOCK_MANAGER]. shuso_process n \<noteq> None"
    by (simp add: shuso_process_def)
  note i = init_slots_ok [OF this, of "su_channels s"]
  show ?thesis
    using assms i [simplified]
    by (simp add: start_process_def shuso_is_master_def start_local_channel_def shuso_ipc_channel_local_init_def
        emit_def Let_def)
qed

lemma run_fail_ok:
  assumes "run_fail True True r err s = (ok, s')"
  shows "\<not> ok" and "procnum (su_S s') = procnum (su_S s)" and "own_state (su_S s') = SHUSO_STATE_DEAD"
    and "su_os s' = su_os (destroy_channel SHUTTLESOCK_MANAGER (destroy_channel SHUTTLESOCK_MASTER s))"
    and "r \<Longrightarrow> R_resolver \<notin> held (su_ledger s')"
    and "\<not> r \<Longrightarrow> su_ledger s' = su_ledger s"
  using assms
  by (cases r; auto simp: run_fail_def set_own_state_def destroy_channel_def Let_def split: prod.splits)+

lemma both_channels_destroyed:
  assumes sys: "channel_sys_sound (rn_channels sys)"
    and m: "create_channel sys SHUTTLESOCK_MASTER s = Done (True, s1)"
    and g: "create_channel sys SHUTTLESOCK_MANAGER s1 = Done (True, s2)"
    and t: "su_channels t = su_channels s2" "su_os t = su_os s2"
  shows "su_os (destroy_channel SHUTTLESOCK_MANAGER (destroy_channel SHUTTLESOCK_MASTER t)) = su_os s"
proof -
  obtain c where c: "s1 = s\<lparr>su_channels := (su_channels s)(SHUTTLESOCK_MASTER := c),
      su_os := (su_os s)\<lparr>os_fds := os_fds (su_os s) \<union> chan_fds c, os_rings := insert (ch_buf c) (os_rings (su_os s))\<rparr>\<rparr>"
    "chan_fds c \<inter> os_fds (su_os s) = {}" "ch_buf c \<notin> os_rings (su_os s)"
    using create_channel_ok [OF sys m] by blast
  obtain d where d: "s2 = s1\<lparr>su_channels := (su_channels s1)(SHUTTLESOCK_MANAGER := d),
      su_os := (su_os s1)\<lparr>os_fds := os_fds (su_os s1) \<union> chan_fds d, os_rings := insert (ch_buf d) (os_rings (su_os s1))\<rparr>\<rparr>"
    "chan_fds d \<inter> os_fds (su_os s1) = {}" "ch_buf d \<notin> os_rings (su_os s1)"
    using create_channel_ok [OF sys g] by blast
  have k: "su_channels (destroy_channel SHUTTLESOCK_MASTER t) SHUTTLESOCK_MANAGER = d" "su_channels t SHUTTLESOCK_MASTER = c"
    using t c(1) d(1) by (simp_all add: destroy_channel_def Let_def split: prod.splits)
  have "os_fds (su_os s) \<union> chan_fds c \<union> chan_fds d - chan_fds c - chan_fds d = os_fds (su_os s)"
    "insert (ch_buf d) (insert (ch_buf c) (os_rings (su_os s))) - {ch_buf c} - {ch_buf d} = os_rings (su_os s)"
    using c d by auto
  then show ?thesis
    unfolding destroy_channel_os k t(2) d(1) c(1) by simp
qed

lemma own_state_upd [simp]: "common_state (set_own_state st S) = common_state S" "procnum (set_own_state st S) = procnum S"
  by (simp_all add: set_own_state_def)

lemma master_run_ok:
  assumes sys: "channel_sys_sound (rn_channels sys)" "loop_sound sys" and fork: "rn_fork sys = -1 \<or> 0 < rn_fork sys"
    and S: "common_state (su_S s) = SHUSO_STATE_CONFIGURED" "procnum (su_S s) = SHUTTLESOCK_MASTER"
    and L: "R_resolver \<notin> held (su_ledger s)"
    and m: "create_channel sys SHUTTLESOCK_MASTER (upd_S (set_own_state SHUSO_STATE_STARTING) s) = Done (True, s1)"
    and g: "create_channel sys SHUTTLESOCK_MANAGER s1 = Done (True, s2)"
  shows "\<exists>ok s'. shuso_run sys s = Some (Done (ok, s')) \<and> (ok \<longleftrightarrow> rn_resolver sys \<and> 0 < rn_fork sys) \<and>
    own_state (su_S s') = (if ok then SHUSO_STATE_STOPPED else SHUSO_STATE_DEAD) \<and>
    su_os s' = su_os s \<and> R_resolver \<notin> held (su_ledger s')"
proof -
  have p: "procnum (su_S s2) = SHUTTLESOCK_MASTER" "su_ledger s2 = su_ledger s"
    using create_channel_ok [OF sys(1) m] create_channel_ok [OF sys(1) g] S(2) by auto
  note os = both_channels_destroyed [OF sys(1) m g]
  have fail: ?thesis
    if r: "shuso_run sys s = Some (Done (run_fail True True b err t))" and t: "su_channels t = su_channels s2" "su_os t = su_os s2"
      "procnum (su_S t) = SHUTTLESOCK_MASTER" "b \<or> su_ledger t = su_ledger s" and ok: "\<not> (rn_resolver sys \<and> 0 < rn_fork sys)"
    for b err t
  proof -
    obtain ok s' where f: "run_fail True True b err t = (ok, s')" by (cases "run_fail True True b err t")
    show ?thesis
      using run_fail_ok [OF f] r f t os [OF t(1,2)] L ok
      by (cases b; intro exI [of _ False] exI [of _ s']; auto)
  qed
  let ?t = "s2\<lparr>su_ledger := acquire R_resolver (su_ledger s2), su_child_watcher := True,
    su_S := set_own_state SHUSO_STATE_RUNNING (su_S s2)\<rparr>"
  note run = shuso_run_def shuso_runstate_check_def S(1) m [simplified] g [simplified] run_forked_def shuso_fork_manager_def
  show ?thesis
  proof (cases "rn_resolver sys")
    case False
    show ?thesis
      by (rule fail [of False "''failed to initialize resolver shared DNS resolver''" s2])
        (use False p in \<open>simp_all add: run\<close>)
  next
    case r: True
    show ?thesis
    proof (cases "0 < rn_fork sys")
      case False
      then have "rn_fork sys = -1" using fork by simp
      then show ?thesis using r p
        by (intro fail [of True "''failed to spawn manager process''" ?t]) (simp_all add: run)
    next
      case True
      let ?u = "shuso_init_signal_watchers (upd_S (\<lambda>S. S\<lparr>manager_pid := rn_fork sys\<rparr>) ?t)"
      have u: "su_channels ?u = su_channels s2" "su_os ?u = su_os s2" "procnum (su_S ?u) = SHUTTLESOCK_MASTER"
        using p by (simp_all add: shuso_init_signal_watchers_def shuttlesock_watched_signals_def)
      obtain v where v: "start_process sys ?u = Done (None, v)" "su_channels v = su_channels ?u" "su_os v = su_os ?u"
        "procnum (su_S v) = SHUTTLESOCK_MASTER"
        using start_master_ok [OF u(3)] by blast
      obtain s' where l: "run_loop sys v = Some (Done (True, s'))" "own_state (su_S s') = SHUSO_STATE_STOPPED"
        "R_resolver \<notin> held (su_ledger s')"
        "su_os s' = su_os (destroy_channel SHUTTLESOCK_MANAGER (destroy_channel SHUTTLESOCK_MASTER v))"
        using run_loop_master [OF sys(2) v(4)] by blast
      have "shuso_run sys s = Some (Done (True, s'))"
        using r True p v(1) l(1) by (simp add: run shuso_core_io_uring_setup_def)
      then show ?thesis using l(2-4) os [of v] v(2,3) u r True by (intro exI [of _ True] exI [of _ s']) simp
    qed
  qed
qed

section \<open>Starting workers\<close>

abbreviation thread_starts :: "run_sys \<Rightarrow> int \<Rightarrow> bool" where
  "thread_starts sys w \<equiv> wk_attr_init (rn_worker sys w) \<and> wk_thread (rn_worker sys w)"

abbreviation prepared :: "int option list \<Rightarrow> int list" where
  "prepared ws \<equiv> map the (filter (\<lambda>x. x \<noteq> None) ws)"

lemma set_error_workers [simp]:
  "workers_start (snd (shuso_set_error m S)) = workers_start S" "workers_end (snd (shuso_set_error m S)) = workers_end S"
  by (simp_all add: shuso_set_error_def shuso_set_error_internal_vararg_def emit_def Let_def)

lemma spawn_worker_ok:
  assumes "proc_state (su_S s) w = SHUSO_STATE_NIL"
  shows "\<exists>t. shuso_spawn_worker sys w s = Done (thread_starts sys w, t) \<and>
    su_threads t = su_threads s @ (if thread_starts sys w then [w] else []) \<and>
    workers_start (su_S t) = workers_start (su_S s) \<and> workers_end (su_S t) = workers_end (su_S s) \<and>
    proc_state (su_S t) = (proc_state (su_S s))(w := SHUSO_STATE_STARTING)"
  using assms by (simp add: shuso_spawn_worker_def set_proc_state_def Let_def)

lemma spawn_each_ok:
  assumes "distinct (prepared ws)" and "\<forall>w \<in> set (prepared ws). proc_state (su_S s) w = SHUSO_STATE_NIL"
  shows "\<exists>s'. spawn_each sys ws s = Done (length (filter (\<lambda>w. \<not> thread_starts sys w) (prepared ws)), s') \<and>
    su_threads s' = su_threads s @ filter (thread_starts sys) (prepared ws) \<and>
    workers_start (su_S s') = workers_start (su_S s) \<and> workers_end (su_S s') = workers_end (su_S s) \<and>
    proc_state (su_S s') = (\<lambda>w. if w \<in> set (prepared ws) then SHUSO_STATE_STARTING else proc_state (su_S s) w)"
  using assms
proof (induction ws arbitrary: s)
  case (Cons x ws)
  show ?case
  proof (cases x)
    case None
    then show ?thesis using Cons by auto
  next
    case (Some w)
    have w: "proc_state (su_S s) w = SHUSO_STATE_NIL" "w \<notin> set (prepared ws)" using Cons.prems Some by auto
    obtain ok t where t: "shuso_spawn_worker sys w s = Done (ok, t)" "ok = thread_starts sys w"
      "su_threads t = su_threads s @ (if ok then [w] else [])"
      "workers_start (su_S t) = workers_start (su_S s)" "workers_end (su_S t) = workers_end (su_S s)"
      "proc_state (su_S t) = (proc_state (su_S s))(w := SHUSO_STATE_STARTING)"
      using spawn_worker_ok [OF w(1), of sys] by blast
    have "\<forall>v \<in> set (prepared ws). proc_state (su_S t) v = SHUSO_STATE_NIL"
      using Cons.prems(2) Some w(2) t(6) by auto
    then obtain s' where s': "spawn_each sys ws t = Done (length (filter (\<lambda>w. \<not> thread_starts sys w) (prepared ws)), s')"
      "su_threads s' = su_threads t @ filter (thread_starts sys) (prepared ws)"
      "workers_start (su_S s') = workers_start (su_S t)" "workers_end (su_S s') = workers_end (su_S t)"
      "proc_state (su_S s') = (\<lambda>w. if w \<in> set (prepared ws) then SHUSO_STATE_STARTING else proc_state (su_S t) w)"
      using Cons.IH [of t] Cons.prems(1) Some by auto
    show ?thesis
      using t s' Some by (cases ok) (auto simp: fun_eq_iff)
  qed
qed simp

lemma spawn_workers_ok:
  assumes "distinct (prepared ws)" and "\<forall>w \<in> set (prepared ws). proc_state (su_S s) w = SHUSO_STATE_NIL"
  shows "\<exists>s'. shuso_spawn_workers sys ws s = Done (list_all (thread_starts sys) (prepared ws), s') \<and>
    su_threads s' = su_threads s @ filter (thread_starts sys) (prepared ws) \<and>
    workers_start (su_S s') = workers_start (su_S s) \<and>
    workers_end (su_S s') = workers_end (su_S s) - length (filter (\<lambda>w. \<not> thread_starts sys w) (prepared ws)) \<and>
    proc_state (su_S s') = (\<lambda>w. if w \<in> set (prepared ws) then SHUSO_STATE_STARTING else proc_state (su_S s) w)"
proof -
  have "(length (filter (\<lambda>w. \<not> thread_starts sys w) (prepared ws)) = 0) = list_all (thread_starts sys) (prepared ws)"
    by (auto simp: list_all_iff filter_empty_conv)
  then show ?thesis using spawn_each_ok [OF assms, of sys] by (auto simp: shuso_spawn_workers_def)
qed

text \<open>
  What preparing a worker takes and gives back: everything but its Lua state.  On a failure
  after the channel was created, the table of processes still points to the freed state.
\<close>

definition worker_resources :: "int \<Rightarrow> res set" where
  "worker_resources w = {R_worker_state w, R_worker_pool w, R_worker_resolver w, R_worker_lua w}"

lemma destroy_channel_keeps [simp]:
  "su_ledger (destroy_channel p s) = su_ledger s" "su_worker_S (destroy_channel p s) = su_worker_S s"
  by (simp_all add: destroy_channel_def split_def Let_def)

lemma worker_failE:
  assumes "worker_fail proc c r p wS err s = Done (ok, s')"
  obtains "\<not> ok" and "su_worker_S s' = su_worker_S s"
    and "held (su_ledger s') = held (su_ledger s) -
      ((if r then {R_worker_resolver proc} else {}) \<union> (if p then {R_worker_pool proc} else {}) \<union>
       (if wS then {R_worker_state proc} else {}))"
proof -
  have "\<not> ok" "su_worker_S s' = su_worker_S s" "held (su_ledger s') = held (su_ledger s) -
      ((if r then {R_worker_resolver proc} else {}) \<union> (if p then {R_worker_pool proc} else {}) \<union>
       (if wS then {R_worker_state proc} else {}))"
    using assms by (cases c; cases r; cases p; cases wS; auto simp: worker_fail_def Let_def)+
  then show thesis by (rule that)
qed

lemma create_channel_keeps:
  assumes "create_channel sys proc s = Done (ok, s')"
  shows "su_ledger s' = su_ledger s" and "su_worker_S s' = su_worker_S s"
  using assms by (auto simp: create_channel_def run_bind_Done_iff)

lemma publish_keeps [simp]:
  "su_ledger (publish sys name s) = su_ledger s" "su_worker_S (publish sys name s) = su_worker_S s"
  by simp_all

lemma initialize_worker_ledger:
  assumes "shuso_initialize_worker sys w s = Done (ok, s')" and "held (su_ledger s) \<inter> worker_resources w = {}"
  shows "held (su_ledger s') = held (su_ledger s) \<union>
    (if ok then worker_resources w
     else if R_worker_lua w \<in> held (su_ledger s') then {R_worker_lua w} else {})"
proof -
  let ?wk = "rn_worker sys w"
  have n: "R_worker_state w \<notin> held (su_ledger s)" "R_worker_pool w \<notin> held (su_ledger s)"
    "R_worker_resolver w \<notin> held (su_ledger s)" "R_worker_lua w \<notin> held (su_ledger s)"
    using assms(2) by (auto simp: worker_resources_def)
  show ?thesis
  proof (cases "wk_calloc ?wk")
    case False
    then show ?thesis using assms(1) n
      by (auto simp: shuso_initialize_worker_def c_assert_Done_iff Let_def elim!: worker_failE)
  next
    case True
    obtain c t where c: "create_channel sys w (upd_L (acquire (R_worker_state w)) s) = Done (c, t)"
      using assms(1) True by (auto simp: shuso_initialize_worker_def c_assert_Done_iff run_bind_Done_iff Let_def)
    have t: "su_ledger t = acquire (R_worker_state w) (su_ledger s)"
      using create_channel_keeps [OF c] by simp
    show ?thesis
      using assms(1) True c n t
      by (auto simp: shuso_initialize_worker_def c_assert_Done_iff Let_def set_proc_state_def acquire_def
          worker_resources_def elim!: worker_failE split: if_splits)
  qed
qed

section \<open>Properties\<close>

definition example_startup :: "ledger \<Rightarrow> shuso \<Rightarrow> startup" where
  "example_startup L S = \<lparr>su_S = S, su_ledger = L, su_lua_external = False, su_lua_state = True,
     su_loop = False, su_shm = None, su_shm_ptr = 0, su_shm_size = 0, su_states = 0, su_workers_start = 0,
     su_workers_end = 0, su_retry_delay = 0, su_send_timeout = 0, su_workers = 4,
     su_channels = (\<lambda>_. channel_zero), su_os = \<lparr>os_fds = {0, 1, 2}, os_rings = {}\<rparr>,
     su_receivers = \<lparr>rt_refs = Map.empty, rt_timer = None, rt_active = Map.empty, rt_calls = []\<rparr>,
     su_timers = \<lparr>tw_head = 0, tw_tail = 0, tw_count = 0, tw_mem = Map.empty, tw_active = {}\<rparr>,
     su_child_watcher = False, su_signal_watchers = [], su_local = None, su_receiving = False,
     su_worker_S = {}, su_threads = []\<rparr>"

abbreviation "no_resources \<equiv> \<lparr>held = {}, twice = []\<rparr>"

definition example_create_sys :: create_sys where
  "example_create_sys = \<lparr>cr_common = True, cr_state = True, cr_resolver_global = None, cr_lua_create = True,
     cr_pool = True, cr_lua_initialize = True, cr_config_initialize = True, cr_core_modules = None\<rparr>"



text \<open>Destroying a newly created shuttlesock gives back everything its creation took, each once.\<close>

theorem create_destroy:
  assumes "held L \<inter> created_resources False = {}" and "shuso_create sys L = (True, err, L')" and "created False L' s"
  shows "\<exists>s'. shuso_destroy s = Done (True, s') \<and> su_ledger s' = L"
  by (rule destroy_created [OF assms])

abbreviation configuring_master :: shuso where
  "configuring_master \<equiv> (example_shuso SHUTTLESOCK_MASTER)\<lparr>common_state := SHUSO_STATE_CONFIGURING\<rparr>"

theorem create_destroy_witness:
  "\<exists>s'. shuso_destroy (example_startup (snd (snd (shuso_create example_create_sys no_resources))) configuring_master) =
      Done (True, s') \<and> su_ledger s' = no_resources"
proof (rule create_destroy [where sys = example_create_sys and err = None
      and L' = "snd (snd (shuso_create example_create_sys no_resources))"])
  show "shuso_create example_create_sys no_resources =
      (True, None, snd (snd (shuso_create example_create_sys no_resources)))"
    by (simp add: shuso_create_def shuso_create_with_lua_def example_create_sys_def Let_def)
  show "created False (snd (snd (shuso_create example_create_sys no_resources)))
      (example_startup (snd (snd (shuso_create example_create_sys no_resources))) configuring_master)"
    by (simp add: created_def example_startup_def example_shuso_def)
qed simp


definition example_config_sys :: config_sys where
  "example_config_sys = \<lparr>cf_config_generate = True, cf_default_loop = True, cf_slab_size = 65536,
     cf_shm = \<lparr>sys_mmap = (\<lambda>_. 4096), sys_mutexattr_init = 0, sys_mutexattr_setpshared = 0, sys_mutex_init = 0\<rparr>,
     cf_master_modules = (\<lambda>s. (True, s))\<rparr>"


definition example_run_channels :: channel_sys where
  "example_run_channels = \<lparr>cs_mmap = (\<lambda>o'. if 4096 \<notin> os_rings o' then Some 4096 else if 8192 \<notin> os_rings o' then Some 8192 else None),
     cs_calloc = (\<lambda>o'. 0),
     cs_eventfd = (\<lambda>o'. if 3 \<notin> os_fds o' then 3 else if 6 \<notin> os_fds o' then 6 else -1),
     cs_socketpair = (\<lambda>o'. if 4 \<notin> os_fds o' \<and> 5 \<notin> os_fds o' then Some (4, 5)
       else if 7 \<notin> os_fds o' \<and> 8 \<notin> os_fds o' then Some (7, 8) else None)\<rparr>"

lemma example_run_channels_sound: "channel_sys_sound example_run_channels"
  by (auto simp: channel_sys_sound_def example_run_channels_def MAP_FAILED_def split: if_splits)

definition example_run_sys :: "int \<Rightarrow> run_sys" where
  "example_run_sys pid = \<lparr>rn_env = example_env, rn_channels = example_run_channels, rn_resolver = True, rn_fork = pid,
     rn_manager_modules = True, rn_send_array = True, rn_worker_array = True,
     rn_worker = (\<lambda>w. \<lparr>wk_calloc = True, wk_pool = True, wk_resolver = True, wk_lua_create = True,
       wk_lua_initialize = True, wk_modules = True, wk_attr_init = True, wk_thread = (w \<noteq> 1)\<rparr>),
     rn_loop_new = True,
     rn_loop = (\<lambda>s. s\<lparr>su_timers := \<lparr>tw_head = 0, tw_tail = 0, tw_count = 0, tw_mem = Map.empty, tw_active = {}\<rparr>,
       su_S := (su_S s)\<lparr>buf_first := 0, buf_last := 0\<rparr>\<rparr>),
     rn_receiver_keys = []\<rparr>"

lemma example_loop_sound: "loop_sound (example_run_sys pid)"
  by (auto simp: loop_sound_def example_run_sys_def timers_rep_def outbuf_chain_def handled_def Let_def
      intro!: exI [of _ "[]"])

text \<open>C34: A run of the master ends, whatever of the resolver and the fork fails, in state STOPPED or DEAD,
  with the descriptors and rings of both channels closed and freed and the resolver released.\<close>

theorem master_run_releases:
  assumes "channel_sys_sound (rn_channels sys)" and "loop_sound sys" and "rn_fork sys = -1 \<or> 0 < rn_fork sys"
    and "common_state (su_S s) = SHUSO_STATE_CONFIGURED" and "procnum (su_S s) = SHUTTLESOCK_MASTER"
    and "R_resolver \<notin> held (su_ledger s)"
    and "create_channel sys SHUTTLESOCK_MASTER (upd_S (set_own_state SHUSO_STATE_STARTING) s) = Done (True, s1)"
    and "create_channel sys SHUTTLESOCK_MANAGER s1 = Done (True, s2)"
  shows "\<exists>ok s'. shuso_run sys s = Some (Done (ok, s')) \<and> (ok \<longleftrightarrow> rn_resolver sys \<and> 0 < rn_fork sys) \<and>
    own_state (su_S s') = (if ok then SHUSO_STATE_STOPPED else SHUSO_STATE_DEAD) \<and>
    su_os s' = su_os s \<and> R_resolver \<notin> held (su_ledger s')"
  by (rule master_run_ok [OF assms])

abbreviation configured_master :: startup where
  "configured_master \<equiv> example_startup no_resources
     ((example_shuso SHUTTLESOCK_MASTER)\<lparr>common_state := SHUSO_STATE_CONFIGURED\<rparr>)"

lemma example_channels_created:
  "\<exists>s1 s2. create_channel (example_run_sys pid) SHUTTLESOCK_MASTER
      (upd_S (set_own_state SHUSO_STATE_STARTING) configured_master) = Done (True, s1) \<and>
    create_channel (example_run_sys pid) SHUTTLESOCK_MANAGER s1 = Done (True, s2)"
  by (simp add: create_channel_def example_run_sys_def example_run_channels_def shuso_ipc_channel_shared_create_def
      example_startup_def channel_zero_def shuso_process_to_procnum_def MAP_FAILED_def Let_def)

theorem master_run_releases_witness:
  "\<exists>ok s'. shuso_run (example_run_sys 100) configured_master = Some (Done (ok, s')) \<and>
    (ok \<longleftrightarrow> rn_resolver (example_run_sys 100) \<and> 0 < rn_fork (example_run_sys 100)) \<and>
    own_state (su_S s') = (if ok then SHUSO_STATE_STOPPED else SHUSO_STATE_DEAD) \<and>
    su_os s' = su_os configured_master \<and> R_resolver \<notin> held (su_ledger s')"
proof -
  obtain s1 s2 where c: "create_channel (example_run_sys 100) SHUTTLESOCK_MASTER
      (upd_S (set_own_state SHUSO_STATE_STARTING) configured_master) = Done (True, s1)"
    "create_channel (example_run_sys 100) SHUTTLESOCK_MANAGER s1 = Done (True, s2)"
    using example_channels_created by blast
  show ?thesis
    by (rule master_run_releases [OF _ example_loop_sound _ _ _ _ c])
      (simp_all add: example_run_sys_def example_run_channels_sound example_startup_def example_shuso_def)
qed

text \<open>Workers are started in order.  Every prepared worker is marked STARTING, those whose thread could
  be created run, and the end of the range of workers is lowered by the number that could not.\<close>

theorem spawn_workers_spec:
  assumes "distinct (prepared ws)" and "\<forall>w \<in> set (prepared ws). proc_state (su_S s) w = SHUSO_STATE_NIL"
  shows "\<exists>s'. shuso_spawn_workers sys ws s = Done (list_all (thread_starts sys) (prepared ws), s') \<and>
    su_threads s' = su_threads s @ filter (thread_starts sys) (prepared ws) \<and>
    workers_start (su_S s') = workers_start (su_S s) \<and>
    workers_end (su_S s') = workers_end (su_S s) - length (filter (\<lambda>w. \<not> thread_starts sys w) (prepared ws)) \<and>
    proc_state (su_S s') = (\<lambda>w. if w \<in> set (prepared ws) then SHUSO_STATE_STARTING else proc_state (su_S s) w)"
  by (rule spawn_workers_ok [OF assms])

abbreviation manager_example :: startup where
  "manager_example \<equiv> example_startup no_resources
     ((example_shuso SHUTTLESOCK_MANAGER)\<lparr>proc_state := (\<lambda>w. SHUSO_STATE_NIL)\<rparr>)"

theorem spawn_workers_spec_witness:
  "\<exists>s'. shuso_spawn_workers (example_run_sys 0) [Some 0, Some 1, None, Some 3] manager_example = Done (False, s') \<and>
    su_threads s' = [0, 3] \<and> workers_end (su_S s') = 3"
proof -
  let ?ws = "[Some 0, Some 1, None, Some 3] :: int option list"
  have d: "distinct (prepared ?ws)" and n: "\<forall>w \<in> set (prepared ?ws). proc_state (su_S manager_example) w = SHUSO_STATE_NIL"
    by (simp_all add: example_startup_def)
  obtain s' where "shuso_spawn_workers (example_run_sys 0) ?ws manager_example =
      Done (list_all (thread_starts (example_run_sys 0)) (prepared ?ws), s')"
    "su_threads s' = su_threads manager_example @ filter (thread_starts (example_run_sys 0)) (prepared ?ws)"
    "workers_start (su_S s') = workers_start (su_S manager_example)"
    "workers_end (su_S s') = workers_end (su_S manager_example) -
       length (filter (\<lambda>w. \<not> thread_starts (example_run_sys 0) w) (prepared ?ws))"
    using spawn_workers_spec [OF d n, of "example_run_sys 0"] by blast
  then show ?thesis
    by (intro exI [of _ s']) (simp add: example_run_sys_def example_startup_def example_shuso_def)
qed

text \<open>So when a worker other than the last has no thread, the last worker runs outside the range of
  workers: messages to it are refused, and the manager neither stops nor joins it.\<close>

lemma spawn_failure_drops_worker:
  "\<exists>s'. shuso_spawn_workers (example_run_sys 0) [Some 0, Some 1, Some 2, Some 3] manager_example = Done (False, s') \<and>
    3 \<in> set (su_threads s') \<and> \<not> shuso_procnum_valid 3 (su_S s') \<and>
    1 \<notin> set (su_threads s') \<and> shuso_procnum_valid 1 (su_S s')"
proof -
  let ?ws = "[Some 0, Some 1, Some 2, Some 3] :: int option list"
  have d: "distinct (prepared ?ws)" and n: "\<forall>w \<in> set (prepared ?ws). proc_state (su_S manager_example) w = SHUSO_STATE_NIL"
    by (simp_all add: example_startup_def)
  obtain s' where "shuso_spawn_workers (example_run_sys 0) ?ws manager_example =
      Done (list_all (thread_starts (example_run_sys 0)) (prepared ?ws), s')"
    "su_threads s' = su_threads manager_example @ filter (thread_starts (example_run_sys 0)) (prepared ?ws)"
    "workers_start (su_S s') = workers_start (su_S manager_example)"
    "workers_end (su_S s') = workers_end (su_S manager_example) -
       length (filter (\<lambda>w. \<not> thread_starts (example_run_sys 0) w) (prepared ?ws))"
    using spawn_workers_ok [OF d n, of "example_run_sys 0"] by blast
  then show ?thesis
    by (intro exI [of _ s']) (simp add: example_run_sys_def example_startup_def example_shuso_def shuso_procnum_valid_def)
qed

text \<open>A worker whose Lua state or modules cannot be initialised leaves its Lua state open, and its entry in
  the table of processes points to the state that was freed.\<close>

lemma worker_failure_leaks:
  "\<exists>s'. shuso_initialize_worker ((example_run_sys 0)\<lparr>rn_channels := (example_run_channels\<lparr>cs_calloc := \<lambda>_. 16384\<rparr>),
      rn_worker := (\<lambda>w. (rn_worker (example_run_sys 0) w)\<lparr>wk_modules := False\<rparr>)\<rparr>) 0 manager_example = Done (False, s') \<and>
    held (su_ledger s') = {R_worker_lua 0} \<and> 0 \<in> su_worker_S s'"
  by (simp add: shuso_initialize_worker_def create_channel_def example_run_sys_def example_run_channels_def
      shuso_ipc_channel_shared_create_def example_startup_def example_shuso_def channel_zero_def
      shuso_process_to_procnum_def MAP_FAILED_def worker_fail_def set_proc_state_def acquire_def Let_def
      insert_Diff_if)

end
