(* ===== verification/Module_System.thy ===== *)
theory Module_System
  imports Event Lifecycle
begin

text \<open>
  Modules, their dependencies and contexts: the registry of modules and events kept in Lua
  (\<^verbatim>\<open>module.lua\<close>, \<^verbatim>\<open>event.lua\<close>), the module functions of \<^verbatim>\<open>module.c\<close>, and the registration of
  events and listeners in \<^verbatim>\<open>event.c\<close>.
\<close>

section \<open>Lua calls and strings\<close>

text \<open>A Lua function returns a value, or nil with a message, or raises an error.\<close>

datatype 'a lua = Ret 'a | Nil string | Raise

text \<open>
  \<^verbatim>\<open>luaS_function_call_result_ok\<close>: nil is an error of shuttlesock.  After a Lua error the stack
  lacks the results that are looked at next, which is not followed (\<open>Abort\<close>).
\<close>

definition luaS_function_call_result_ok :: "'a lua \<Rightarrow> shuso \<Rightarrow> ('a option \<times> shuso) run" where
  "luaS_function_call_result_ok r S =
     (case r of
        Ret x \<Rightarrow> Done (Some x, S)
      | Nil msg \<Rightarrow> Done (None, snd (shuso_set_error msg S))
      | Raise \<Rightarrow> Abort)"

definition is_space :: "char \<Rightarrow> bool" where
  "is_space c \<longleftrightarrow> (let n = of_char c :: nat in n = 32 \<or> 9 \<le> n \<and> n \<le> 13)"

definition is_digit :: "char \<Rightarrow> bool" where
  "is_digit c \<longleftrightarrow> (let n = of_char c :: nat in 48 \<le> n \<and> n \<le> 57)"

definition is_alnum :: "char \<Rightarrow> bool" where
  "is_alnum c \<longleftrightarrow> is_digit c \<or> (let n = of_char c :: nat in 65 \<le> n \<and> n \<le> 90 \<or> 97 \<le> n \<and> n \<le> 122)"

definition is_word_char :: "char \<Rightarrow> bool" where
  "is_word_char c \<longleftrightarrow> is_alnum c \<or> c = CHR ''_''"

text \<open>The parts of a string between separators; the words are the parts that are not empty.\<close>

fun split_at :: "(char \<Rightarrow> bool) \<Rightarrow> string \<Rightarrow> string list" where
  "split_at sep [] = [[]]"
| "split_at sep (c # cs) =
     (if sep c then [] # split_at sep cs
      else (case split_at sep cs of [] \<Rightarrow> [[c]] | w # ws \<Rightarrow> (c # w) # ws))"

definition words :: "string \<Rightarrow> string list" where
  "words s = filter (\<lambda>w. w \<noteq> []) (split_at is_space s)"

section \<open>The registry\<close>

text \<open>
  A Lua module; a subscription has its name as written, the module and the event, and
  whether it is required.  \<open>lm_index\<close> counts from 1.
\<close>

record subscription =
  sb_full :: string
  sb_module :: string
  sb_event :: string
  sb_required :: bool

record lua_module =
  lm_name :: string
  lm_ptr :: addr
  lm_index :: nat
  lm_parents :: "string list"
  lm_subscribe :: "subscription list"
  lm_publish :: "string list"
  lm_frozen :: bool

record listener =
  ls_module :: addr
  ls_fn :: addr
  ls_pd :: addr
  ls_priority :: int

record lua_event =
  le_initialized :: bool
  le_ptr :: addr
  le_data_type :: "string option"
  le_handler :: addr
  le_listeners :: "listener list"

text \<open>
  The tables of \<^verbatim>\<open>Module\<close>: the modules in the order of their indices, the dependents of a
  provider in order, the providers of a dependent (in no particular order); and the events.
\<close>

record registry =
  rg_modules :: "lua_module list"
  rg_dependents :: "string \<Rightarrow> string list"
  rg_providers :: "string \<Rightarrow> string list"
  rg_core :: "string option"
  rg_events :: "string \<times> string \<rightharpoonup> lua_event"
  rg_by_ptr :: "addr \<rightharpoonup> string \<times> string"

definition empty_registry :: registry where
  "empty_registry = \<lparr>rg_modules = [], rg_dependents = (\<lambda>_. []), rg_providers = (\<lambda>_. []), rg_core = None,
     rg_events = Map.empty, rg_by_ptr = Map.empty\<rparr>"

definition find_module :: "string \<Rightarrow> registry \<Rightarrow> lua_module option" where
  "find_module name rg = find (\<lambda>m. lm_name m = name) (rg_modules rg)"

definition find_module_ptr :: "addr \<Rightarrow> registry \<Rightarrow> lua_module option" where
  "find_module_ptr p rg = find (\<lambda>m. lm_ptr m = p) (rg_modules rg)"

definition add_new :: "'a \<Rightarrow> 'a list \<Rightarrow> 'a list" where
  "add_new x xs = (if x \<in> set xs then xs else xs @ [x])"

definition add_dependency :: "string \<Rightarrow> string \<Rightarrow> registry \<Rightarrow> registry" where
  "add_dependency provider dep rg =
     rg\<lparr>rg_dependents := (rg_dependents rg)(provider := add_new dep (rg_dependents rg provider)),
        rg_providers := (rg_providers rg)(dep := add_new provider (rg_providers rg dep))\<rparr>"

text \<open>\<^verbatim>\<open>Event.get\<close> makes the event when there is none.\<close>

definition event_get :: "string \<Rightarrow> string \<Rightarrow> registry \<Rightarrow> registry" where
  "event_get m e rg =
     (case rg_events rg (m, e) of
        Some _ \<Rightarrow> rg
      | None \<Rightarrow> rg\<lparr>rg_events := (rg_events rg)((m, e) \<mapsto>
          \<lparr>le_initialized = False, le_ptr = 0, le_data_type = None, le_handler = 0, le_listeners = []\<rparr>)\<rparr>)"

text \<open>
  One word of a subscribe string: an optional tilde, the module and the event, both of word
  characters and dots, and no dot in the module.
\<close>

definition quoted :: "string \<Rightarrow> string" where
  "quoted s = CHR 0x22 # s @ [CHR 0x22]"

definition parse_subscription :: "string \<Rightarrow> string + subscription" where
  "parse_subscription w =
     (if \<not> (\<exists>i < length w. 0 < i \<and> i + 1 < length w \<and> w ! i = CHR '':'')
      then Inl (''invalid subscribe event name '' @ quoted w @ '' , must be modulename:eventname'')
      else
        (let optional = (hd w = CHR ''~''); rest = (if optional then tl w else w) in
         case split_at (\<lambda>c. c = CHR '':'') rest of
           [m, e] \<Rightarrow>
             if m \<noteq> [] \<and> e \<noteq> [] \<and> list_all (\<lambda>c. is_word_char c \<or> c = CHR ''.'') (m @ e)
             then (if CHR ''.'' \<in> set m
                   then Inl (''invalid module name '' @ quoted m @ '' in subscribe event name '' @ quoted w)
                   else Inr \<lparr>sb_full = w, sb_module = m, sb_event = e, sb_required = (\<not> optional)\<rparr>)
             else Inl (''invalid subscribe event name '' @ quoted w)
         | _ \<Rightarrow> Inl (''invalid subscribe event name '' @ quoted w)))"

text \<open>The event of a word is made when the word has been read, so the words before a bad one have theirs.\<close>

fun parse_subscriptions :: "string list \<Rightarrow> subscription list \<Rightarrow> string option \<times> subscription list" where
  "parse_subscriptions [] acc = (None, rev acc)"
| "parse_subscriptions (w # ws) acc =
     (case parse_subscription w of
        Inl msg \<Rightarrow> (Some msg, rev acc)
      | Inr sb \<Rightarrow>
          if w \<in> sb_full ` set acc
          then (Some (''duplicate value '' @ quoted w @ '' in subscribe event name''), rev acc)
          else parse_subscriptions ws (sb # acc))"

definition bad_char :: "(char \<Rightarrow> bool) \<Rightarrow> string \<Rightarrow> char option" where
  "bad_char ok s = find (\<lambda>c. \<not> ok c) s"

definition split_subscribe_list_string :: "string \<Rightarrow> string option \<times> subscription list" where
  "split_subscribe_list_string s =
     (case bad_char (\<lambda>c. is_space c \<or> is_word_char c \<or> c \<in> set ''~.:'') s of
        Some c \<Rightarrow> (Some (''invalid character '' @ [CHR 0x27, c, CHR 0x27] @ '' in subscribe string''), [])
      | None \<Rightarrow> parse_subscriptions (words s) [])"

fun parse_publish :: "string list \<Rightarrow> string list \<Rightarrow> string option \<times> string list" where
  "parse_publish [] acc = (None, rev acc)"
| "parse_publish (w # ws) acc =
     (if \<not> list_all (\<lambda>c. is_word_char c \<or> c = CHR ''.'') w
      then (Some (''invalid event name '' @ quoted w @ '' in publish string''), rev acc)
      else if w \<in> set acc
      then (Some (''duplicate value '' @ quoted w @ '' in publish string''), rev acc)
      else parse_publish ws (w # acc))"

definition split_publish_list_string :: "string \<Rightarrow> string option \<times> string list" where
  "split_publish_list_string s =
     (case bad_char (\<lambda>c. is_space c \<or> is_word_char c \<or> c \<in> set ''.:'') s of
        Some c \<Rightarrow> (Some (''invalid character '' @ [CHR 0x27, c, CHR 0x27] @ '' in publish string''), [])
      | None \<Rightarrow> parse_publish (words s) [])"

fun parse_parents :: "string list \<Rightarrow> string list \<Rightarrow> string + string list" where
  "parse_parents [] acc = Inr (rev acc)"
| "parse_parents (w # ws) acc =
     (if w \<in> set acc then Inl (''duplocate value '' @ quoted w @ '' in parent_modules string'')
      else parse_parents ws (w # acc))"

definition split_parent_modules_string :: "string \<Rightarrow> string + string list" where
  "split_parent_modules_string s =
     (case bad_char (\<lambda>c. is_space c \<or> is_word_char c) s of
        Some c \<Rightarrow> Inl (''invalid character '' @ [CHR 0x27, c, CHR 0x27] @ '' in parent_modules string'')
      | None \<Rightarrow> parse_parents (words s) [])"

text \<open>Three numbers with dots between them.\<close>

definition version_ok :: "string \<Rightarrow> bool" where
  "version_ok v = (let ps = split_at (\<lambda>c. c = CHR ''.'') v in
     length ps = 3 \<and> list_all (\<lambda>p. p \<noteq> [] \<and> list_all is_digit p) ps)"

definition max_module_count :: nat where
  "max_module_count = 255"

section \<open>Adding modules\<close>

text \<open>The end of \<^verbatim>\<open>Module.new\<close>: the module gets its index and its dependencies.\<close>

definition module_insert ::
  "string \<Rightarrow> addr \<Rightarrow> string list \<Rightarrow> subscription list \<Rightarrow> string list \<Rightarrow> registry \<Rightarrow> lua_module \<times> registry"
where
  "module_insert name ptr ps sbs evs rg =
     (let m = \<lparr>lm_name = name, lm_ptr = ptr, lm_index = length (rg_modules rg) + 1,
               lm_parents = ps, lm_subscribe = sbs, lm_publish = evs, lm_frozen = False\<rparr>;
          rg = rg\<lparr>rg_modules := rg_modules rg @ [m]\<rparr>;
          rg = fold (\<lambda>p. add_dependency p name) ps rg;
          rg = (case rg_core rg of None \<Rightarrow> rg | Some c \<Rightarrow> add_dependency c name rg);
          rg = add_dependency ''core'' name rg
      in (m, rg))"

text \<open>\<^verbatim>\<open>Module.new\<close> changes the registry even when it fails once the subscriptions are being read.\<close>

definition module_failed :: "string \<Rightarrow> string \<Rightarrow> 'a lua" where
  "module_failed name msg = Nil (''failed to add module '' @ name @ '': '' @ msg)"

definition module_new ::
  "bool \<Rightarrow> string \<Rightarrow> addr \<Rightarrow> string \<Rightarrow> string \<Rightarrow> string \<Rightarrow> string \<Rightarrow> registry \<Rightarrow> lua_module lua \<times> registry"
where
  "module_new coreless name ptr version subscribe publish parents rg =
     (if length (rg_modules rg) \<ge> max_module_count
      then (Nil (''number of modules cannot exceed '' @ decimal (int max_module_count)), rg)
      else if find_module name rg \<noteq> None \<or> find_module_ptr ptr rg \<noteq> None
      then (Nil (''module '' @ name @ '' has already been added''), rg)
      else if \<not> version_ok version
      then (Nil (''module '' @ name @ '' has an invalid version string '' @ quoted version), rg)
      else if rg_core rg = None \<and> \<not> coreless then (Nil ''core module not set'', rg)
      else
        (case split_parent_modules_string parents of
           Inl msg \<Rightarrow> (module_failed name msg, rg)
         | Inr ps \<Rightarrow>
             (let (err, sbs) = split_subscribe_list_string subscribe;
                  rg = fold (\<lambda>sb. event_get (sb_module sb) (sb_event sb)) sbs rg
              in case err of
                   Some msg \<Rightarrow> (module_failed name msg, rg)
                 | None \<Rightarrow>
                     (let rg = fold (\<lambda>sb. add_dependency (sb_module sb) name) (filter sb_required sbs) rg;
                          (err, evs) = split_publish_list_string publish;
                          rg = fold (\<lambda>e. event_get name e) evs rg
                      in case err of
                           Some msg \<Rightarrow> (module_failed name msg, rg)
                         | None \<Rightarrow>
                             (let (m, rg) = module_insert name ptr ps sbs evs rg in (Ret m, rg))))))"

definition module_new_core_module ::
  "string \<Rightarrow> addr \<Rightarrow> string \<Rightarrow> string \<Rightarrow> string \<Rightarrow> string \<Rightarrow> registry \<Rightarrow> lua_module lua \<times> registry"
where
  "module_new_core_module name ptr version subscribe publish parents rg =
     (if find_module name rg \<noteq> None
      then (Nil (''module '' @ name @ '' has already been added as a non-core module''), rg)
      else if rg_core rg \<noteq> None then (Nil ''core module is already set'', rg)
      else
        (case module_new True name ptr version subscribe publish parents rg of
           (Ret m, rg) \<Rightarrow> (Ret m, rg\<lparr>rg_core := Some name\<rparr>)
         | r \<Rightarrow> r))"

section \<open>Freezing\<close>

fun freeze_parents :: "string \<Rightarrow> string list \<Rightarrow> registry \<Rightarrow> unit lua \<times> registry" where
  "freeze_parents name [] rg = (Ret (), rg)"
| "freeze_parents name (p # ps) rg =
     (case find_module p rg of
        None \<Rightarrow> (Nil (''module '' @ name @ '' requires parent module '' @ p @ '', which was not found''), rg)
      | Some _ \<Rightarrow> freeze_parents name ps (add_dependency p name rg))"

text \<open>
  The subscriptions are visited in an order Lua does not specify, here that of the string.
  An event is published by a module that names it.  No listener exists yet, so no event is
  optional.  For an optional subscription to a missing module, nil is indexed.
\<close>

fun freeze_subscriptions :: "string \<Rightarrow> subscription list \<Rightarrow> registry \<Rightarrow> unit lua \<times> registry" where
  "freeze_subscriptions name [] rg = (Ret (), rg)"
| "freeze_subscriptions name (sb # sbs) rg =
     (case find_module (sb_module sb) rg of
        None \<Rightarrow>
          if sb_required sb
          then (Nil (''module '' @ name @ '' depends on event '' @ sb_full sb @ '', but module '' @ sb_module sb @
                 '' was not found''), rg)
          else (Raise, rg)
      | Some m \<Rightarrow>
          if sb_event sb \<notin> set (lm_publish m) then
            (if sb_required sb
             then (Nil (''module '' @ name @ '' depends on event '' @ sb_full sb @ '', but module '' @ sb_module sb @
                    '' does not publish such an event''), rg)
             else freeze_subscriptions name sbs rg)
          else freeze_subscriptions name sbs (add_dependency (lm_name m) name rg))"

definition set_frozen :: "string \<Rightarrow> registry \<Rightarrow> registry" where
  "set_frozen name rg =
     rg\<lparr>rg_modules := map (\<lambda>m. if lm_name m = name then m\<lparr>lm_frozen := True\<rparr> else m) (rg_modules rg)\<rparr>"

definition module_freeze :: "lua_module \<Rightarrow> registry \<Rightarrow> unit lua \<times> registry" where
  "module_freeze m rg =
     (if lm_frozen m then (Ret (), rg)
      else
        (case freeze_parents (lm_name m) (lm_parents m) rg of
           (Ret _, rg) \<Rightarrow>
             (case freeze_subscriptions (lm_name m) (lm_subscribe m) rg of
                (Ret _, rg) \<Rightarrow> (Ret (), set_frozen (lm_name m) rg)
              | r \<Rightarrow> r)
         | r \<Rightarrow> r))"

definition dependent_modules :: "string \<Rightarrow> registry \<Rightarrow> lua_module list lua" where
  "dependent_modules name rg =
     (let ds = map (\<lambda>d. find_module d rg) (rg_dependents rg name)
      in if None \<in> set ds then Raise else Ret (map the ds))"

text \<open>The position of an element, from 1; 0 when there is none.\<close>

fun position :: "'a \<Rightarrow> 'a list \<Rightarrow> nat" where
  "position x [] = 0"
| "position x (y # ys) = (if x = y then 1 else (let n = position x ys in if n = 0 then 0 else n + 1))"

definition create_parent_modules_index_map :: "string \<Rightarrow> registry \<Rightarrow> nat list lua" where
  "create_parent_modules_index_map name rg =
     (let ps = rg_providers rg name in
      if \<exists>p \<in> set ps. find_module p rg = None \<or> dependent_modules p rg = Raise then Raise
      else if \<exists>p \<in> set ps. name \<notin> set (rg_dependents rg p)
      then Nil ''failed to create parent_modules_index_map''
      else Ret (map (\<lambda>m. if lm_name m \<in> set ps then position name (rg_dependents rg (lm_name m)) else 0)
                 (rg_modules rg)))"

section \<open>Modules in C\<close>

text \<open>
  \<^verbatim>\<open>shuso_module_t\<close>: what its author wrote, with the settings and variables (how many, and
  which function reports that one could not be registered), and what shuttlesock fills in.
\<close>

record cmodule =
  cm_name :: "string option"
  cm_version :: "string option"
  cm_parents :: string
  cm_subscribe :: string
  cm_publish :: string
  cm_settings :: nat
  cm_variables :: nat
  cm_initialize :: bool
  cm_initialize_worker :: bool
  cm_index :: nat
  cm_map :: "nat list"
  cm_submodules :: "addr list"

definition SHUSO_MODULE_INDEX_INVALID :: nat where
  "SHUSO_MODULE_INDEX_INVALID = 255"

record mods =
  mo_S :: shuso
  mo_reg :: registry
  mo_mem :: "addr \<Rightarrow> cmodule"
  mo_array :: "addr list"
  mo_active :: addr
  mo_events :: bool

text \<open>
  The allocations that can fail, by what they are for and the module, the registration of
  settings and variables, and the functions of the modules.
\<close>

record mod_sys =
  ms_alloc :: "string \<Rightarrow> addr \<Rightarrow> bool"
  ms_register_setting :: "addr \<Rightarrow> nat \<Rightarrow> shuso \<Rightarrow> bool \<times> shuso"
  ms_register_variable :: "addr \<Rightarrow> nat \<Rightarrow> shuso \<Rightarrow> bool \<times> shuso"
  ms_initialize :: "addr \<Rightarrow> mods \<Rightarrow> bool \<times> mods"
  ms_initialize_worker :: "addr \<Rightarrow> mods \<Rightarrow> bool \<times> mods"

abbreviation upd_mod :: "addr \<Rightarrow> (cmodule \<Rightarrow> cmodule) \<Rightarrow> mods \<Rightarrow> mods" where
  "upd_mod a f s \<equiv> s\<lparr>mo_mem := (mo_mem s)(a := f (mo_mem s a))\<rparr>"

abbreviation mo_error :: "string \<Rightarrow> mods \<Rightarrow> mods" where
  "mo_error msg s \<equiv> s\<lparr>mo_S := snd (shuso_set_error msg (mo_S s))\<rparr>"

abbreviation mo_misconfigured :: "mods \<Rightarrow> mods" where
  "mo_misconfigured s \<equiv> s\<lparr>mo_S := (mo_S s)\<lparr>common_state := SHUSO_STATE_MISCONFIGURED\<rparr>\<rparr>"

fun register_each :: "(nat \<Rightarrow> shuso \<Rightarrow> bool \<times> shuso) \<Rightarrow> nat list \<Rightarrow> mods \<Rightarrow> bool \<times> mods" where
  "register_each f [] s = (True, s)"
| "register_each f (n # ns) s =
     (case f n (mo_S s) of
        (True, S) \<Rightarrow> register_each f ns (s\<lparr>mo_S := S\<rparr>)
      | (False, S) \<Rightarrow> (False, s\<lparr>mo_S := S\<rparr>))"

definition name_or_null :: "cmodule \<Rightarrow> string" where
  "name_or_null m = (case cm_name m of None \<Rightarrow> ''(null)'' | Some n \<Rightarrow> n)"

definition add_module :: "mod_sys \<Rightarrow> addr \<Rightarrow> bool \<Rightarrow> mods \<Rightarrow> (bool \<times> mods) run" where
  "add_module sys a core s =
     run_bind (shuso_runstate_check SHUSO_STATE_CONFIGURING ''add module'' (mo_S s)) (\<lambda>(ok, S).
       let s = s\<lparr>mo_S := S\<rparr>; m = mo_mem s a in
       if \<not> ok then Done (False, s)
       else
         (case (cm_name m, cm_version m) of
            (None, _) \<Rightarrow> Done (False, mo_error ''module name missing'' s)
          | (Some n, None) \<Rightarrow> Done (False, mo_error (''module '' @ n @ '' version string is missing'') s)
          | (Some n, Some v) \<Rightarrow>
              (let (r, rg) = (if core then module_new_core_module n a v (cm_subscribe m) (cm_publish m) (cm_parents m) (mo_reg s)
                              else module_new False n a v (cm_subscribe m) (cm_publish m) (cm_parents m) (mo_reg s));
                   s = s\<lparr>mo_reg := rg\<rparr>
               in run_bind (luaS_function_call_result_ok r (mo_S s)) (\<lambda>(r, S).
                    let s = s\<lparr>mo_S := S\<rparr> in
                    case r of
                      None \<Rightarrow> Done (False, mo_misconfigured s)
                    | Some lm \<Rightarrow>
                        (let i = lm_index lm - 1; s = upd_mod a (\<lambda>m. m\<lparr>cm_index := i\<rparr>) s in
                         c_assert (length (mo_array s) \<le> i \<longrightarrow> length (mo_array s) = i)
                          (if length (mo_array s) \<le> i \<and> \<not> ms_alloc sys ''modules'' a
                           then Done (False, mo_misconfigured (mo_error ''failed to allocate memory for modules array'' s))
                           else
                             (let s = (if length (mo_array s) \<le> i then s\<lparr>mo_array := mo_array s @ [a]\<rparr> else s);
                                  (ok, s) = register_each (ms_register_setting sys a) [0..<cm_settings m] s
                              in if \<not> ok then Done (False, s)
                                 else Done (register_each (ms_register_variable sys a) [0..<cm_variables m] s))))))))"

definition shuso_add_module :: "mod_sys \<Rightarrow> addr \<Rightarrow> mods \<Rightarrow> (bool \<times> mods) run" where
  "shuso_add_module sys a s = add_module sys a False s"

definition shuso_module_freeze :: "mod_sys \<Rightarrow> addr \<Rightarrow> mods \<Rightarrow> (bool \<times> mods) run" where
  "shuso_module_freeze sys a s =
     (if a = 0 then Done (False, mo_error ''can't freeze module from outside a shuttlesock module'' s)
      else
        run_bind (luaS_function_call_result_ok
            (case find_module_ptr a (mo_reg s) of None \<Rightarrow> Nil ''no module known by that pointer'' | Some lm \<Rightarrow> Ret lm) (mo_S s))
          (\<lambda>(r, S). let s = s\<lparr>mo_S := S\<rparr> in
           case r of
             None \<Rightarrow> Done (False, s)
           | Some lm \<Rightarrow>
               (let (r, rg) = module_freeze lm (mo_reg s); s = s\<lparr>mo_reg := rg\<rparr> in
                run_bind (luaS_function_call_result_ok r (mo_S s)) (\<lambda>(r, S).
                let s = s\<lparr>mo_S := S\<rparr> in
                if r = None then Done (False, s)
                else
                  run_bind (luaS_function_call_result_ok (create_parent_modules_index_map (lm_name lm) (mo_reg s)) (mo_S s))
                    (\<lambda>(r, S). let s = s\<lparr>mo_S := S\<rparr> in
                     case r of
                       None \<Rightarrow> Done (False, s)
                     | Some im \<Rightarrow>
                         if \<not> ms_alloc sys ''map'' a
                         then Done (False, mo_error ''failed to allocate parent_modules_index_map'' s)
                         else
                           (let s = upd_mod a (\<lambda>m. m\<lparr>cm_map := map (\<lambda>i.
                                  (if i > 0 then i - 1 else SHUSO_MODULE_INDEX_INVALID) mod 256) im\<rparr>) s in
                            run_bind (luaS_function_call_result_ok (dependent_modules (lm_name lm) (mo_reg s)) (mo_S s))
                              (\<lambda>(r, S). let s = s\<lparr>mo_S := S\<rparr> in
                               case r of
                                 None \<Rightarrow> Done (False, s)
                               | Some ds \<Rightarrow>
                                   if ds \<noteq> [] \<and> \<not> ms_alloc sys ''submodules'' a
                                   then Done (False, mo_error ''failed to allocate memory for submodules array'' s)
                                   else Done (True, upd_mod a (\<lambda>m. m\<lparr>cm_submodules := map lm_ptr ds\<rparr>) s))))))))"

fun freeze_each :: "mod_sys \<Rightarrow> addr list \<Rightarrow> mods \<Rightarrow> (bool \<times> mods) run" where
  "freeze_each sys [] s = Done (True, s)"
| "freeze_each sys (a # as) s =
     run_bind (shuso_module_freeze sys a s) (\<lambda>(ok, s). if \<not> ok then Done (False, s) else freeze_each sys as s)"

section \<open>Contexts\<close>

text \<open>A list of contexts: one slot for each submodule of the parent, not set at first.\<close>

type_synonym context_list = "addr option list"

definition shuso_context_list_initialize ::
  "mod_sys \<Rightarrow> addr \<Rightarrow> addr \<Rightarrow> mods \<Rightarrow> bool \<times> context_list \<times> mods"
where
  "shuso_context_list_initialize sys core_module parent s =
     (let parent = (if parent = 0 then core_module else parent);
          n = length (cm_submodules (mo_mem s parent))
      in if n > 0 \<and> \<not> ms_alloc sys ''context_list'' parent
         then (False, [], mo_error ''failed to allocate context_list'' s)
         else (True, replicate n None, s))"

definition no_context :: "addr \<Rightarrow> addr \<Rightarrow> mods \<Rightarrow> mods" where
  "no_context parent a s =
     mo_error (''No context for module '' @ name_or_null (mo_mem s a) @ '' in '' @ name_or_null (mo_mem s parent)) s"

text \<open>Reading or writing outside the map or the list is \<open>Abort\<close>.\<close>

definition shuso_context :: "addr \<Rightarrow> addr \<Rightarrow> context_list \<Rightarrow> mods \<Rightarrow> (addr option \<times> mods) run" where
  "shuso_context parent a cl s =
     c_assert (cm_index (mo_mem s parent) < length (cm_map (mo_mem s a)))
      (let offset = cm_map (mo_mem s a) ! cm_index (mo_mem s parent) in
       if offset = SHUSO_MODULE_INDEX_INVALID then Done (None, no_context parent a s)
       else c_assert (offset < length cl) (Done (cl ! offset, s)))"

definition shuso_set_context :: "addr \<Rightarrow> addr \<Rightarrow> addr \<Rightarrow> context_list \<Rightarrow> mods \<Rightarrow> (bool \<times> context_list \<times> mods) run" where
  "shuso_set_context parent a ctx cl s =
     c_assert (cm_index (mo_mem s parent) < length (cm_map (mo_mem s a)))
      (let offset = cm_map (mo_mem s a) ! cm_index (mo_mem s parent) in
       if offset = SHUSO_MODULE_INDEX_INVALID then Done (False, cl, no_context parent a s)
       else c_assert (offset < length cl) (Done (True, cl[offset := Some ctx], s)))"

definition shuso_get_module_by_name :: "string \<Rightarrow> mods \<Rightarrow> addr \<times> mods" where
  "shuso_get_module_by_name name s =
     (case find_module name (mo_reg s) of
        None \<Rightarrow> (0, mo_error (''no module '' @ name) s)
      | Some m \<Rightarrow>
          if lm_ptr m = 0 then (0, mo_error ''module pointer not found'' s) else (lm_ptr m, s))"

definition shuso_get_module_by_index :: "nat \<Rightarrow> mods \<Rightarrow> addr run" where
  "shuso_get_module_by_index i s = c_assert (i < length (mo_array s)) (Done (mo_array s ! i))"

section \<open>Events and listeners\<close>

text \<open>\<^verbatim>\<open>event:initialize\<close> and \<^verbatim>\<open>Module.initialize_event\<close>.\<close>

definition initialize_event ::
  "addr \<Rightarrow> string \<Rightarrow> addr \<Rightarrow> string option \<Rightarrow> addr \<Rightarrow> registry \<Rightarrow> unit lua \<times> registry"
where
  "initialize_event a name ptr data_type handler rg =
     (case find_module_ptr a rg of
        None \<Rightarrow> (Nil ''no module known by that pointer'', rg)
      | Some m \<Rightarrow>
          if name \<notin> set (lm_publish m)
          then (Nil (''unknown event '' @ name @ '' in module '' @ lm_name m), rg)
          else
            (case rg_events rg (lm_name m, name) of
               None \<Rightarrow> (Raise, rg)
             | Some e \<Rightarrow>
                 if le_initialized e
                 then (Nil (''module '' @ lm_name m @ '' has already registered event '' @ name @
                        '' with a different event struct''), rg)
                 else (Ret (), rg\<lparr>rg_events := (rg_events rg)((lm_name m, name) \<mapsto>
                        e\<lparr>le_initialized := True, le_ptr := ptr,
                          le_data_type := (if data_type = None then le_data_type e else data_type),
                          le_handler := (if handler = 0 then le_handler e else handler)\<rparr>),
                        rg_by_ptr := (rg_by_ptr rg)(ptr \<mapsto> (lm_name m, name))\<rparr>)))"

record event_init =
  ei_name :: string
  ei_event :: addr
  ei_data_type :: "string option"
  ei_handler :: addr

definition shuso_event_initialize :: "addr \<Rightarrow> event_init \<Rightarrow> mods \<Rightarrow> (bool \<times> mods) run" where
  "shuso_event_initialize a ei s =
     run_bind (shuso_runstate_check SHUSO_STATE_CONFIGURING ''initialize event'' (mo_S s)) (\<lambda>(ok, S).
       let s = s\<lparr>mo_S := S\<rparr> in
       if \<not> ok then Done (False, s)
       else if a = 0 then Done (False, mo_error ''can't initialize event from outside a shuttlesock module'' s)
       else
         (let (r, rg) = initialize_event a (ei_name ei) (ei_event ei) (ei_data_type ei) (ei_handler ei) (mo_reg s);
              s = s\<lparr>mo_reg := rg\<rparr>
          in run_bind (luaS_function_call_result_ok r (mo_S s)) (\<lambda>(r, S). Done (r \<noteq> None, s\<lparr>mo_S := S\<rparr>))))"

fun shuso_events_initialize :: "addr \<Rightarrow> event_init list \<Rightarrow> mods \<Rightarrow> (bool \<times> mods) run" where
  "shuso_events_initialize a [] s = Done (True, s)"
| "shuso_events_initialize a (ei # eis) s =
     (if ei_event ei = 0 then Done (True, s)
      else run_bind (shuso_event_initialize a ei s)
        (\<lambda>(ok, s). if \<not> ok then Done (False, s) else shuso_events_initialize a eis s))"

definition FIRST_PRIORITY :: int where "FIRST_PRIORITY = 127"

definition LAST_PRIORITY :: int where "LAST_PRIORITY = - 127"

fun insert_before :: "listener \<Rightarrow> listener list \<Rightarrow> listener list" where
  "insert_before l [] = [l]"
| "insert_before l (v # vs) = (if ls_priority l \<ge> ls_priority v then l # v # vs else v # insert_before l vs)"

definition insert_listener :: "listener \<Rightarrow> listener list \<Rightarrow> listener list" where
  "insert_listener l ls =
     (if ls_priority l = LAST_PRIORITY then ls @ [l]
      else if ls_priority l = FIRST_PRIORITY then l # ls
      else insert_before l ls)"

definition event_full_name :: "string \<Rightarrow> string \<Rightarrow> string" where
  "event_full_name m e = m @ '':'' @ e"

definition subscribes_to_event :: "string \<Rightarrow> lua_module \<Rightarrow> bool" where
  "subscribes_to_event full m \<longleftrightarrow> full \<in> sb_full ` set (lm_subscribe m) \<or> CHR ''~'' # full \<in> sb_full ` set (lm_subscribe m)"

definition add_listener ::
  "string \<Rightarrow> string \<Rightarrow> listener \<Rightarrow> registry \<Rightarrow> unit lua \<times> registry"
where
  "add_listener m e l rg =
     (case rg_events rg (m, e) of
        None \<Rightarrow> (Raise, rg)
      | Some ev \<Rightarrow>
          if ls_priority l < LAST_PRIORITY \<or> ls_priority l > FIRST_PRIORITY then (Raise, rg)
          else
            (case find_module_ptr (ls_module l) rg of
               None \<Rightarrow> (Nil ''unknown receiver module'', rg)
             | Some sub \<Rightarrow>
                 if \<not> le_initialized ev
                 then (Nil (''module '' @ lm_name sub @ '' tried to listen to nonexistent event '' @ event_full_name m e), rg)
                 else if \<not> subscribes_to_event (event_full_name m e) sub
                 then (Nil (''module '' @ lm_name sub @ '' has not declared event '' @ event_full_name m e @
                        '' in its 'subscribe' list, so it cannot be used.''), rg)
                 else (Ret (), rg\<lparr>rg_events := (rg_events rg)((m, e) \<mapsto>
                        ev\<lparr>le_listeners := insert_listener l (le_listeners ev)\<rparr>)\<rparr>)))"

text \<open>\<^verbatim>\<open>Event.find\<close> by name: a module of word characters, a colon, an event.\<close>

definition event_find :: "string \<Rightarrow> registry \<Rightarrow> (string \<times> string) lua" where
  "event_find str rg =
     (case split_at (\<lambda>c. c = CHR '':'') str of
        [m, e] \<Rightarrow>
          if m \<noteq> [] \<and> e \<noteq> [] \<and> list_all is_word_char m \<and> list_all (\<lambda>c. is_word_char c \<or> c = CHR ''.'') e
          then (if rg_events rg (m, e) = None then Nil (''event '' @ m @ '':'' @ e @ '' not found'') else Ret (m, e))
          else Nil (''invalid event name '' @ quoted str)
      | _ \<Rightarrow> Nil (''invalid event name '' @ quoted str))"

definition event_listen_continue :: "(string \<times> string) lua \<Rightarrow> bool \<Rightarrow> addr \<Rightarrow> addr \<Rightarrow> int \<Rightarrow> mods \<Rightarrow> (bool \<times> mods) run" where
  "event_listen_continue found optional callback pd priority s =
     (case found of
        Raise \<Rightarrow> Abort
      | Nil msg \<Rightarrow> if optional then Done (True, s) else Done (False, mo_error msg s)
      | Ret (m, e) \<Rightarrow>
          (let l = \<lparr>ls_module = mo_active s, ls_fn = callback, ls_pd = pd, ls_priority = priority\<rparr> in
           case add_listener m e l (mo_reg s) of
             (Raise, rg) \<Rightarrow> Abort
           | (Nil msg, rg) \<Rightarrow> if optional then Done (True, s) else Done (False, mo_error msg s)
           | (Ret _, rg) \<Rightarrow> Done (True, s\<lparr>mo_reg := rg\<rparr>)))"

definition shuso_event_by_name_listen_with_priority ::
  "string \<Rightarrow> addr \<Rightarrow> addr \<Rightarrow> int \<Rightarrow> mods \<Rightarrow> (bool \<times> mods) run"
where
  "shuso_event_by_name_listen_with_priority name callback pd priority s =
     (let optional = (take 1 name = ''~''); name = (if optional then tl name else name)
      in event_listen_continue (event_find name (mo_reg s)) optional callback pd priority s)"

definition event_find_ptr :: "addr \<Rightarrow> registry \<Rightarrow> (string \<times> string) lua" where
  "event_find_ptr p rg = (case rg_by_ptr rg p of None \<Rightarrow> Nil ''event not found'' | Some x \<Rightarrow> Ret x)"

definition shuso_event_by_pointer_listen_with_priority ::
  "addr \<Rightarrow> addr \<Rightarrow> addr \<Rightarrow> int \<Rightarrow> mods \<Rightarrow> (bool \<times> mods) run"
where
  "shuso_event_by_pointer_listen_with_priority p callback pd priority s =
     event_listen_continue (event_find_ptr p (mo_reg s)) False callback pd priority s"

section \<open>Initialising all modules\<close>

text \<open>An event as C sees it after its module is finalised, by its address.\<close>

record cevent =
  ce_module_index :: nat
  ce_name :: string
  ce_data_type :: "string option"
  ce_handler :: addr
  ce_listeners :: "listener list"

definition all_events_initialized :: "lua_module \<Rightarrow> registry \<Rightarrow> unit lua" where
  "all_events_initialized m rg =
     (let un = filter (\<lambda>e. case rg_events rg (lm_name m, e) of None \<Rightarrow> True | Some ev \<Rightarrow> \<not> le_initialized ev) (lm_publish m)
      in case un of
           [] \<Rightarrow> Ret ()
         | [e] \<Rightarrow> Nil (''module '' @ lm_name m @ '' has 1 uninitialized event '' @ e)
         | _ \<Rightarrow> Nil (''module '' @ lm_name m @ '' has '' @ decimal (int (length un)) @ '' uninitialized events: '' @
                  concat (map (\<lambda>e. e @ '' '') (butlast un)) @ last un))"

definition dependency_index :: "string \<Rightarrow> string \<Rightarrow> registry \<Rightarrow> nat lua" where
  "dependency_index provider dep rg =
     (if rg_dependents rg provider = [] then Nil (''unknown provider module '' @ provider)
      else if dep \<notin> set (rg_dependents rg provider) then Nil (''unknown dependent module '' @ dep)
      else Ret (position dep (rg_dependents rg provider)))"

fun check_listeners :: "string \<Rightarrow> listener list \<Rightarrow> mods \<Rightarrow> (bool \<times> mods) run" where
  "check_listeners name [] s = Done (True, s)"
| "check_listeners name (l # ls) s =
     run_bind (luaS_function_call_result_ok
         (dependency_index name (name_or_null (mo_mem s (ls_module l))) (mo_reg s)) (mo_S s))
       (\<lambda>(r, S). let s = s\<lparr>mo_S := S\<rparr> in
          if r = None then Done (False, s) else check_listeners name ls s)"

fun finalize_events ::
  "mod_sys \<Rightarrow> addr \<Rightarrow> string list \<Rightarrow> (addr \<rightharpoonup> cevent) \<times> mods \<Rightarrow> (bool \<times> (addr \<rightharpoonup> cevent) \<times> mods) run"
where
  "finalize_events sys a [] x = Done (True, x)"
| "finalize_events sys a (e # es) (ce, s) =
     (let name = name_or_null (mo_mem s a) in
      case rg_events (mo_reg s) (name, e) of
        None \<Rightarrow> Abort
      | Some ev \<Rightarrow>
          c_assert (le_ptr ev \<noteq> 0)
           (if \<not> ms_alloc sys ''listeners'' a
            then Done (False, ce, mo_error ''failed to allocate memory for event listeners'' s)
            else
              run_bind (check_listeners name (le_listeners ev) s) (\<lambda>(ok, s).
                if \<not> ok then Done (False, ce, s)
                else finalize_events sys a es
                  (ce(le_ptr ev \<mapsto> \<lparr>ce_module_index = cm_index (mo_mem s a), ce_name = e,
                        ce_data_type = le_data_type ev, ce_handler = le_handler ev,
                        ce_listeners = le_listeners ev\<rparr>), s))))"

definition shuso_module_finalize ::
  "mod_sys \<Rightarrow> addr \<Rightarrow> (addr \<rightharpoonup> cevent) \<times> mods \<Rightarrow> (bool \<times> (addr \<rightharpoonup> cevent) \<times> mods) run"
where
  "shuso_module_finalize sys a x =
     (let (ce, s) = x in
      if a = 0 then Done (False, ce, mo_error ''can't freeze module from outside a shuttlesock module'' s)
      else
        (case find_module_ptr a (mo_reg s) of
           None \<Rightarrow> Done (False, ce, mo_error ''no module known by that pointer'' s)
         | Some lm \<Rightarrow>
             run_bind (luaS_function_call_result_ok (all_events_initialized lm (mo_reg s)) (mo_S s)) (\<lambda>(r, S).
               let s = s\<lparr>mo_S := S\<rparr> in
               if r = None then Done (False, ce, s) else finalize_events sys a (lm_publish lm) (ce, s))))"

fun initialize_modules :: "mod_sys \<Rightarrow> addr list \<Rightarrow> mods \<Rightarrow> bool \<times> mods" where
  "initialize_modules sys [] s = (True, s)"
| "initialize_modules sys (a # as) s =
     (if cm_initialize (mo_mem s a) then
        (let s = s\<lparr>mo_active := a\<rparr>; errcount = error_count (mo_S s); (ok, s) = ms_initialize sys a s in
         if \<not> ok \<or> error_count (mo_S s) > errcount
         then (False, mo_error (''module '' @ name_or_null (mo_mem s a) @ '' failed to initialize: '' @
                (case shuso_last_error (mo_S s) of None \<Rightarrow> '' no error was reported by the module despite failure''
                 | Some msg \<Rightarrow> msg)) s)
         else initialize_modules sys as s)
      else initialize_modules sys as s)"

fun finalize_modules ::
  "mod_sys \<Rightarrow> addr list \<Rightarrow> (addr \<rightharpoonup> cevent) \<times> mods \<Rightarrow> (bool \<times> (addr \<rightharpoonup> cevent) \<times> mods) run"
where
  "finalize_modules sys [] x = Done (True, x)"
| "finalize_modules sys (a # as) (ce, s) =
     run_bind (shuso_module_finalize sys a (ce, s\<lparr>mo_active := a\<rparr>))
       (\<lambda>(ok, x). if \<not> ok then Done (False, x) else finalize_modules sys as x)"

definition shuso_master_initialize_modules :: "mod_sys \<Rightarrow> mods \<Rightarrow> (bool \<times> (addr \<rightharpoonup> cevent) \<times> mods) run" where
  "shuso_master_initialize_modules sys s =
     (if \<not> mo_events s \<and> \<not> ms_alloc sys ''events'' 0
      then Done (False, Map.empty, mo_error ''failed to allocate memory for modules' events array'' s)
      else
        run_bind (freeze_each sys (mo_array s) (s\<lparr>mo_events := True\<rparr>)) (\<lambda>(ok, s).
          if \<not> ok then Done (False, Map.empty, s)
          else
            (let prev = mo_active s; (ok, s) = initialize_modules sys (mo_array s) s in
             if \<not> ok then Done (False, Map.empty, s\<lparr>mo_active := prev\<rparr>)
             else run_bind (finalize_modules sys (mo_array s) (Map.empty, s))
               (\<lambda>(ok, ce, s). Done (ok, ce, s\<lparr>mo_active := prev\<rparr>)))))"

text \<open>The active module is put back on a failure only.\<close>

fun initialize_worker_modules :: "mod_sys \<Rightarrow> addr \<Rightarrow> addr list \<Rightarrow> mods \<Rightarrow> bool \<times> mods" where
  "initialize_worker_modules sys prev [] s = (True, s)"
| "initialize_worker_modules sys prev (a # as) s =
     (let s = s\<lparr>mo_active := a\<rparr> in
      if cm_initialize_worker (mo_mem s a) then
        (let errcount = error_count (mo_S s); (ok, s) = ms_initialize_worker sys a s in
         if \<not> ok \<or> error_count (mo_S s) > errcount
         then (False, (mo_error (''module '' @ name_or_null (mo_mem s a) @ '' failed to initialize for worker'' @
                (if shuso_last_error (mo_S s) = None then '', but no error was reported by the module'' else '''')) s)
                  \<lparr>mo_active := prev\<rparr>)
         else initialize_worker_modules sys prev as s)
      else initialize_worker_modules sys prev as s)"

definition shuso_worker_initialize_modules :: "mod_sys \<Rightarrow> mods \<Rightarrow> bool \<times> mods" where
  "shuso_worker_initialize_modules sys s = initialize_worker_modules sys (mo_active s) (mo_array s) s"

section \<open>The registry invariant\<close>

text \<open>
  Names and addresses of modules are unique, indices are positions, a module is a dependent of
  its providers and of no other, once, and the dependents of a module are known.
\<close>

definition registry_ok :: "registry \<Rightarrow> bool" where
  "registry_ok rg \<longleftrightarrow>
     distinct (map lm_name (rg_modules rg)) \<and> distinct (map lm_ptr (rg_modules rg)) \<and>
     (\<forall>i < length (rg_modules rg). lm_index (rg_modules rg ! i) = i + 1) \<and>
     length (rg_modules rg) \<le> max_module_count \<and>
     (\<forall>p d. d \<in> set (rg_dependents rg p) \<longleftrightarrow> p \<in> set (rg_providers rg d)) \<and>
     (\<forall>p. distinct (rg_dependents rg p))"

text \<open>What a module declares is in the tables already.\<close>

definition declared_ok :: "registry \<Rightarrow> lua_module \<Rightarrow> bool" where
  "declared_ok rg m \<longleftrightarrow>
     (\<forall>p \<in> set (lm_parents m). lm_name m \<in> set (rg_dependents rg p)) \<and>
     (\<forall>sb \<in> set (lm_subscribe m). sb_required sb \<longrightarrow> lm_name m \<in> set (rg_dependents rg (sb_module sb)))"

definition dependents_known :: "registry \<Rightarrow> bool" where
  "dependents_known rg \<longleftrightarrow> (\<forall>p. set (rg_dependents rg p) \<subseteq> lm_name ` set (rg_modules rg))"

lemma set_add_new [simp]: "set (add_new x xs) = insert x (set xs)"
  by (auto simp: add_new_def)

lemma distinct_add_new [simp]: "distinct (add_new x xs) \<longleftrightarrow> distinct xs"
  by (auto simp: add_new_def)

lemma add_new_present: "x \<in> set xs \<Longrightarrow> add_new x xs = xs"
  by (simp add: add_new_def)

lemma add_dependency_modules [simp]:
  "rg_modules (add_dependency p d rg) = rg_modules rg" "rg_core (add_dependency p d rg) = rg_core rg"
  "rg_events (add_dependency p d rg) = rg_events rg"
  by (simp_all add: add_dependency_def)

lemma add_dependency_dependents [simp]:
  "rg_dependents (add_dependency p d rg) q = (if q = p then add_new d (rg_dependents rg p) else rg_dependents rg q)"
  "rg_providers (add_dependency p d rg) e = (if e = d then add_new p (rg_providers rg d) else rg_providers rg e)"
  by (simp_all add: add_dependency_def)

lemma event_get_tables [simp]:
  "rg_modules (event_get m e rg) = rg_modules rg" "rg_core (event_get m e rg) = rg_core rg"
  "rg_dependents (event_get m e rg) = rg_dependents rg" "rg_providers (event_get m e rg) = rg_providers rg"
  by (simp_all add: event_get_def split: option.split)

lemma find_module_add_dependency [simp]:
  "find_module n (add_dependency p d rg) = find_module n rg"
  "find_module_ptr a (add_dependency p d rg) = find_module_ptr a rg"
  by (simp_all add: find_module_def find_module_ptr_def)

lemma registry_ok_add_dependency: "registry_ok rg \<Longrightarrow> registry_ok (add_dependency p d rg)"
  unfolding registry_ok_def by (auto split: if_splits)

lemma registry_ok_event_get: "registry_ok rg \<Longrightarrow> registry_ok (event_get m e rg)"
  by (simp add: registry_ok_def)

lemma fold_invariant_simple:
  "(\<And>x s. P s \<Longrightarrow> P (f x s)) \<Longrightarrow> P s \<Longrightarrow> P (fold f xs s)"
  by (induction xs arbitrary: s) simp_all

lemma fold_event_get_tables [simp]:
  "rg_modules (fold (\<lambda>x. event_get (f x) (g x)) xs rg) = rg_modules rg"
  "rg_core (fold (\<lambda>x. event_get (f x) (g x)) xs rg) = rg_core rg"
  "rg_dependents (fold (\<lambda>x. event_get (f x) (g x)) xs rg) = rg_dependents rg"
  "rg_providers (fold (\<lambda>x. event_get (f x) (g x)) xs rg) = rg_providers rg"
  by (induction xs arbitrary: rg) simp_all

lemma fold_add_dependency_tables [simp]:
  "rg_modules (fold (\<lambda>x. add_dependency (f x) d) xs rg) = rg_modules rg"
  "rg_core (fold (\<lambda>x. add_dependency (f x) d) xs rg) = rg_core rg"
  by (induction xs arbitrary: rg) simp_all

lemma fold_add_dependency_dependents [simp]:
  "set (rg_dependents (fold (\<lambda>x. add_dependency (f x) d) xs rg) p) =
     set (rg_dependents rg p) \<union> (if p \<in> f ` set xs then {d} else {})"
  by (induction xs arbitrary: rg) auto

lemma registry_ok_fold_add_dependency:
  "registry_ok rg \<Longrightarrow> registry_ok (fold (\<lambda>x. add_dependency (f x) d) xs rg)"
  by (rule fold_invariant_simple) (auto intro: registry_ok_add_dependency)

lemma registry_ok_fold_event_get:
  "registry_ok rg \<Longrightarrow> registry_ok (fold (\<lambda>x. event_get (f x) (g x)) xs rg)"
  by (rule fold_invariant_simple) (auto intro: registry_ok_event_get)

lemma find_module_None: "find_module n rg = None \<longleftrightarrow> n \<notin> lm_name ` set (rg_modules rg)"
  by (auto simp: find_module_def find_None_iff)

lemma find_module_ptr_None: "find_module_ptr a rg = None \<longleftrightarrow> a \<notin> lm_ptr ` set (rg_modules rg)"
  by (auto simp: find_module_ptr_def find_None_iff)

lemma find_unique:
  assumes "distinct (map f xs)" "x \<in> set xs" "f x = k" shows "find (\<lambda>y. f y = k) xs = Some x"
  using assms by (induction xs) (auto simp: image_iff)

lemma find_module_Some:
  "registry_ok rg \<Longrightarrow> m \<in> set (rg_modules rg) \<Longrightarrow> find_module (lm_name m) rg = Some m"
  by (simp add: registry_ok_def find_module_def find_unique)

lemma find_module_ptr_Some:
  "registry_ok rg \<Longrightarrow> m \<in> set (rg_modules rg) \<Longrightarrow> find_module_ptr (lm_ptr m) rg = Some m"
  by (simp add: registry_ok_def find_module_ptr_def find_unique)

lemma find_module_SomeD:
  "find_module n rg = Some m \<Longrightarrow> m \<in> set (rg_modules rg) \<and> lm_name m = n"
  "find_module_ptr a rg = Some m \<Longrightarrow> m \<in> set (rg_modules rg) \<and> lm_ptr m = a"
  by (auto simp: find_module_def find_module_ptr_def find_Some_iff)

text \<open>What a successful \<^verbatim>\<open>Module.new\<close> has done.\<close>

lemma module_new_Ret:
  assumes "module_new c n a v sub pub par rg = (Ret m, rg')"
  shows "\<exists>ps sbs evs. module_insert n a ps sbs evs (fold (event_get n) evs
        (fold (\<lambda>sb. add_dependency (sb_module sb) n) (filter sb_required sbs)
          (fold (\<lambda>sb. event_get (sb_module sb) (sb_event sb)) sbs rg))) = (m, rg')"
    "length (rg_modules rg) < max_module_count" "find_module n rg = None" "find_module_ptr a rg = None"
  using assms unfolding module_new_def
  by (auto simp: Let_def module_failed_def split: if_splits sum.splits option.splits prod.splits)

lemma registry_ok_insert:
  assumes ok: "registry_ok rg" and len: "length (rg_modules rg) < max_module_count"
    and new: "find_module n rg = None" "find_module_ptr a rg = None"
    and ins: "module_insert n a ps sbs evs rg = (m, rg')"
  shows "registry_ok rg'"
proof -
  let ?rg = "rg\<lparr>rg_modules := rg_modules rg @ [m]\<rparr>"
  have m: "lm_name m = n" "lm_ptr m = a" "lm_index m = length (rg_modules rg) + 1"
    using ins by (auto simp: module_insert_def Let_def)
  have "registry_ok ?rg"
    using ok len new m by (auto simp: registry_ok_def find_module_None find_module_ptr_None nth_append less_Suc_eq)
  moreover have "rg' = add_dependency ''core'' n (case rg_core rg of
      None \<Rightarrow> fold (\<lambda>p. add_dependency p n) ps ?rg
    | Some c \<Rightarrow> add_dependency c n (fold (\<lambda>p. add_dependency p n) ps ?rg))"
    using ins by (auto simp: module_insert_def Let_def split: option.split)
  ultimately show ?thesis
    by (simp add: registry_ok_add_dependency registry_ok_fold_add_dependency split: option.split)
qed

lemma module_insert_facts:
  assumes ins: "module_insert n a ps sbs evs rg = (m, rg')"
  shows "rg_modules rg' = rg_modules rg @ [m]" "lm_name m = n" "lm_ptr m = a" "lm_parents m = ps" "lm_subscribe m = sbs"
    "lm_publish m = evs" "lm_frozen m = False" "rg_core rg' = rg_core rg"
    "set (rg_dependents rg' p) = set (rg_dependents rg p) \<union>
       (if p \<in> set ps \<or> Some p = rg_core rg \<or> p = ''core'' then {n} else {})"
  using ins
  by (simp_all add: module_insert_def Let_def split: option.split_asm) (auto split: if_splits)

section \<open>What freezing computes\<close>

definition only_required :: "registry \<Rightarrow> bool" where
  "only_required rg \<longleftrightarrow> (\<forall>m \<in> set (rg_modules rg). list_all sb_required (lm_subscribe m))"

definition all_declared :: "registry \<Rightarrow> bool" where
  "all_declared rg \<longleftrightarrow> (\<forall>m \<in> set (rg_modules rg). declared_ok rg m)"

definition ptr_of :: "registry \<Rightarrow> string \<Rightarrow> addr" where
  "ptr_of rg d = lm_ptr (the (find_module d rg))"

text \<open>The index map and the submodules that the tables give a module.\<close>

definition frozen_as :: "registry \<Rightarrow> string \<Rightarrow> cmodule \<Rightarrow> bool" where
  "frozen_as rg n c \<longleftrightarrow>
     cm_map c = map (\<lambda>p. if p \<in> set (rg_providers rg n) then position n (rg_dependents rg p) - 1
                       else SHUSO_MODULE_INDEX_INVALID) (map lm_name (rg_modules rg)) \<and>
     cm_submodules c = map (ptr_of rg) (rg_dependents rg n) \<and>
     (\<forall>p \<in> set (rg_providers rg n). find_module p rg \<noteq> None \<and> n \<in> set (rg_dependents rg p)) \<and>
     set (rg_dependents rg n) \<subseteq> lm_name ` set (rg_modules rg)"

lemma set_frozen_tables [simp]:
  "rg_dependents (set_frozen n rg) = rg_dependents rg" "rg_providers (set_frozen n rg) = rg_providers rg"
  "rg_core (set_frozen n rg) = rg_core rg" "rg_events (set_frozen n rg) = rg_events rg"
  "map lm_name (rg_modules (set_frozen n rg)) = map lm_name (rg_modules rg)"
  "map lm_ptr (rg_modules (set_frozen n rg)) = map lm_ptr (rg_modules rg)"
  "length (rg_modules (set_frozen n rg)) = length (rg_modules rg)"
  by (simp_all add: set_frozen_def)

lemma set_frozen_names [simp]: "lm_name ` set (rg_modules (set_frozen n rg)) = lm_name ` set (rg_modules rg)"
  by (metis list.set_map set_frozen_tables(5))

lemma find_map_upd:
  "(\<And>x. P (f x) = P x) \<Longrightarrow> find P (map f xs) = map_option f (find P xs)"
  by (induction xs) auto

lemma find_module_set_frozen:
  "find_module k (set_frozen n rg) = map_option (\<lambda>m. if lm_name m = n then m\<lparr>lm_frozen := True\<rparr> else m) (find_module k rg)"
  "find_module_ptr a (set_frozen n rg) = map_option (\<lambda>m. if lm_name m = n then m\<lparr>lm_frozen := True\<rparr> else m) (find_module_ptr a rg)"
  by (simp_all add: find_module_def find_module_ptr_def set_frozen_def find_map_upd)

lemma ptr_of_set_frozen [simp]: "ptr_of (set_frozen n rg) = ptr_of rg"
proof
  fix d show "ptr_of (set_frozen n rg) d = ptr_of rg d"
    by (cases "find_module d rg") (simp_all add: ptr_of_def find_module_set_frozen)
qed

lemma frozen_as_set_frozen [simp]: "frozen_as (set_frozen k rg) n c = frozen_as rg n c"
  unfolding frozen_as_def by (simp add: find_module_set_frozen del: map_map cong: if_cong)

lemma registry_ok_set_frozen [simp]: "registry_ok (set_frozen n rg) = registry_ok rg"
proof -
  have "(\<forall>i < length (rg_modules rg). lm_index (rg_modules (set_frozen n rg) ! i) = i + 1) =
      (\<forall>i < length (rg_modules rg). lm_index (rg_modules rg ! i) = i + 1)"
    by (auto simp: set_frozen_def)
  then show ?thesis by (simp add: registry_ok_def)
qed

lemma declared_set_frozen [simp]:
  "all_declared (set_frozen n rg) = all_declared rg" "only_required (set_frozen n rg) = only_required rg"
proof -
  let ?f = "\<lambda>m. if lm_name m = n then m\<lparr>lm_frozen := True\<rparr> else m"
  have 1: "declared_ok (set_frozen n rg) (?f m) = declared_ok rg m" for m
    by (simp add: declared_ok_def)
  have 2: "list_all sb_required (lm_subscribe (?f m)) = list_all sb_required (lm_subscribe m)" for m
    by simp
  have 3: "set (rg_modules (set_frozen n rg)) = ?f ` set (rg_modules rg)"
    by (simp add: set_frozen_def)
  show "all_declared (set_frozen n rg) = all_declared rg" "only_required (set_frozen n rg) = only_required rg"
    unfolding all_declared_def only_required_def 3 ball_simps 1 2 by (rule refl)+
qed

lemma add_dependency_present:
  assumes "registry_ok rg" "d \<in> set (rg_dependents rg p)" shows "add_dependency p d rg = rg"
  using assms by (simp add: add_dependency_def add_new_present registry_ok_def)

lemma freeze_parents_known:
  assumes "registry_ok rg" "\<forall>p \<in> set ps. n \<in> set (rg_dependents rg p)" "freeze_parents n ps rg = (Ret (), rg')"
  shows "rg' = rg"
  using assms by (induction ps) (auto simp: add_dependency_present split: option.splits)

lemma freeze_subscriptions_required:
  assumes "registry_ok rg" "list_all sb_required sbs" "\<forall>sb \<in> set sbs. n \<in> set (rg_dependents rg (sb_module sb))"
    "freeze_subscriptions n sbs rg = (Ret (), rg')"
  shows "rg' = rg"
  using assms
proof (induction sbs)
  case (Cons sb sbs)
  then obtain m where m: "find_module (sb_module sb) rg = Some m" by (auto split: option.splits)
  then have "add_dependency (lm_name m) n rg = rg"
    using Cons.prems find_module_SomeD(1) [OF m] by (simp add: add_dependency_present)
  then show ?case using Cons m by (auto split: if_splits)
qed simp

lemma module_freeze_step:
  assumes "registry_ok rg" "all_declared rg" "only_required rg" "m \<in> set (rg_modules rg)"
    "module_freeze m rg = (Ret (), rg')"
  shows "rg' = rg \<or> rg' = set_frozen (lm_name m) rg"
proof -
  have d: "declared_ok rg m" and r: "list_all sb_required (lm_subscribe m)"
    using assms by (auto simp: all_declared_def only_required_def)
  have p: "freeze_parents (lm_name m) (lm_parents m) rg = (Ret (), x) \<Longrightarrow> x = rg" for x
    by (rule freeze_parents_known [OF assms(1)]) (use d in \<open>simp_all add: declared_ok_def\<close>)
  have s: "freeze_subscriptions (lm_name m) (lm_subscribe m) rg = (Ret (), x) \<Longrightarrow> x = rg" for x
    by (rule freeze_subscriptions_required [OF assms(1) r]) (use d r in \<open>auto simp: declared_ok_def list_all_iff\<close>)
  show ?thesis
  proof (cases "lm_frozen m")
    case True
    then show ?thesis using assms(5) by (simp add: module_freeze_def)
  next
    case False
    obtain r1 x1 where 1: "freeze_parents (lm_name m) (lm_parents m) rg = (r1, x1)" by fastforce
    with False assms(5) have r1: "r1 = Ret ()" by (cases r1) (simp_all add: module_freeze_def)
    with 1 p have x1: "x1 = rg" by blast
    obtain r2 x2 where 2: "freeze_subscriptions (lm_name m) (lm_subscribe m) rg = (r2, x2)" by fastforce
    with False assms(5) 1 r1 x1 have "r2 = Ret ()" by (cases r2) (simp_all add: module_freeze_def)
    with 2 s have "x2 = rg" by blast
    with False assms(5) 1 r1 x1 2 \<open>r2 = Ret ()\<close> show ?thesis by (simp add: module_freeze_def)
  qed
qed

lemma position_props:
  "x \<in> set xs \<Longrightarrow> 0 < position x xs \<and> position x xs \<le> length xs \<and> xs ! (position x xs - 1) = x"
  by (induction xs) (auto simp: Let_def)

lemma position_inj:
  assumes "x \<in> set xs" "y \<in> set xs" "position x xs = position y xs" shows "x = y"
  using position_props [OF assms(1)] position_props [OF assms(2)] assms(3) by simp

lemma dependent_modules_Ret:
  assumes "dependent_modules n rg = Ret ds"
  shows "map lm_ptr ds = map (ptr_of rg) (rg_dependents rg n)" "set (rg_dependents rg n) \<subseteq> lm_name ` set (rg_modules rg)"
proof -
  have n: "None \<notin> set (map (\<lambda>d. find_module d rg) (rg_dependents rg n))"
    and ds: "ds = map the (map (\<lambda>d. find_module d rg) (rg_dependents rg n))"
    using assms by (auto simp: dependent_modules_def Let_def split: if_splits)
  show "map lm_ptr ds = map (ptr_of rg) (rg_dependents rg n)" by (simp add: ds ptr_of_def)
  show "set (rg_dependents rg n) \<subseteq> lm_name ` set (rg_modules rg)"
  proof
    fix d assume "d \<in> set (rg_dependents rg n)"
    with n have "find_module d rg \<noteq> None" by force
    then show "d \<in> lm_name ` set (rg_modules rg)" by (simp only: find_module_None not_not)
  qed
qed

lemma dependents_short:
  assumes "registry_ok rg" "set (rg_dependents rg n) \<subseteq> lm_name ` set (rg_modules rg)"
  shows "length (rg_dependents rg n) \<le> 255"
proof -
  have "length (rg_dependents rg n) = card (set (rg_dependents rg n))"
    using assms(1) by (simp add: registry_ok_def distinct_card)
  also have "\<dots> \<le> card (lm_name ` set (rg_modules rg))" using assms(2) by (simp add: card_mono)
  also have "\<dots> \<le> length (rg_modules rg)"
    using card_image_le [of "set (rg_modules rg)" lm_name] card_length [of "rg_modules rg"] by simp
  also have "\<dots> \<le> 255" using assms(1) by (simp add: registry_ok_def max_module_count_def)
  finally show ?thesis .
qed

definition map_entry :: "registry \<Rightarrow> string \<Rightarrow> string \<Rightarrow> nat" where
  "map_entry rg n p = (if p \<in> set (rg_providers rg n) then position n (rg_dependents rg p) - 1 else SHUSO_MODULE_INDEX_INVALID)"

text \<open>An offset fits a byte and is not the invalid one.\<close>

lemma stored_map_entry:
  assumes ok: "registry_ok rg" and p: "p \<in> set (rg_providers rg n)"
    and known: "set (rg_dependents rg p) \<subseteq> lm_name ` set (rg_modules rg)" and n: "n \<in> set (rg_dependents rg p)"
  shows "(if position n (rg_dependents rg p) > 0 then position n (rg_dependents rg p) - 1 else 255) mod 256 = map_entry rg n p"
    "map_entry rg n p < length (rg_dependents rg p)" "rg_dependents rg p ! map_entry rg n p = n" "map_entry rg n p < 255"
proof -
  have len: "length (rg_dependents rg p) \<le> 255" using dependents_short [OF ok known] .
  show "(if position n (rg_dependents rg p) > 0 then position n (rg_dependents rg p) - 1 else 255) mod 256 = map_entry rg n p"
    "map_entry rg n p < length (rg_dependents rg p)" "rg_dependents rg p ! map_entry rg n p = n" "map_entry rg n p < 255"
    using position_props [OF n] len p by (cases "position n (rg_dependents rg p)"; simp add: map_entry_def)+
qed

lemma index_map_Ret:
  assumes ok: "registry_ok rg" and im: "create_parent_modules_index_map n rg = Ret im"
  shows "map (\<lambda>i. (if i > 0 then i - 1 else SHUSO_MODULE_INDEX_INVALID) mod 256) im =
      map (map_entry rg n) (map lm_name (rg_modules rg))"
    "\<forall>p \<in> set (rg_providers rg n). find_module p rg \<noteq> None \<and> n \<in> set (rg_dependents rg p)"
proof -
  have f: "\<forall>p \<in> set (rg_providers rg n). find_module p rg \<noteq> None \<and> dependent_modules p rg \<noteq> Raise"
    and d: "\<forall>p \<in> set (rg_providers rg n). n \<in> set (rg_dependents rg p)"
    and im: "im = map (\<lambda>m. if lm_name m \<in> set (rg_providers rg n) then position n (rg_dependents rg (lm_name m)) else 0) (rg_modules rg)"
    using im by (auto simp: create_parent_modules_index_map_def Let_def split: if_splits)
  show "\<forall>p \<in> set (rg_providers rg n). find_module p rg \<noteq> None \<and> n \<in> set (rg_dependents rg p)" using f d by blast
  have known: "set (rg_dependents rg p) \<subseteq> lm_name ` set (rg_modules rg)" if "p \<in> set (rg_providers rg n)" for p
  proof -
    from f that have "dependent_modules p rg \<noteq> Raise" by blast
    then obtain ds where "dependent_modules p rg = Ret ds" by (auto simp: dependent_modules_def Let_def split: if_splits)
    then show ?thesis by (rule dependent_modules_Ret)
  qed
  have entry: "(if i > 0 then i - 1 else 255) mod 256 = map_entry rg n p"
    if "i = (if p \<in> set (rg_providers rg n) then position n (rg_dependents rg p) else 0)" for i p :: _
  proof (cases "p \<in> set (rg_providers rg n)")
    case True
    have i: "i = position n (rg_dependents rg p)" using True that by simp
    show ?thesis unfolding i by (rule stored_map_entry(1) [OF ok True known [OF True]]) (use d True in blast)
  next
    case False
    then show ?thesis using that by (simp add: map_entry_def SHUSO_MODULE_INDEX_INVALID_def)
  qed
  show "map (\<lambda>i. (if i > 0 then i - 1 else SHUSO_MODULE_INDEX_INVALID) mod 256) im =
      map (map_entry rg n) (map lm_name (rg_modules rg))"
    unfolding im map_map by (rule map_cong [OF refl]) (unfold o_def SHUSO_MODULE_INDEX_INVALID_def, rule entry, rule refl)
qed

lemma call_ok_Some: "luaS_function_call_result_ok r S = Done (Some x, S') \<Longrightarrow> r = Ret x \<and> S' = S"
  by (auto simp: luaS_function_call_result_ok_def split: lua.splits)

text \<open>A module frozen: its map and its submodules are those of the tables, which have not changed.\<close>

lemma shuso_module_freeze_step:
  assumes ok: "registry_ok (mo_reg s)" and dec: "all_declared (mo_reg s)" and req: "only_required (mo_reg s)"
    and run: "shuso_module_freeze sys a s = Done (True, s')"
  shows "\<exists>lm rg c. find_module_ptr a (mo_reg s) = Some lm \<and>
    (rg = mo_reg s \<or> rg = set_frozen (lm_name lm) (mo_reg s)) \<and> frozen_as rg (lm_name lm) c \<and>
    c = (mo_mem s a)\<lparr>cm_map := cm_map c, cm_submodules := cm_submodules c\<rparr> \<and>
    s' = s\<lparr>mo_reg := rg, mo_mem := (mo_mem s)(a := c)\<rparr>"
proof -
  have a: "a \<noteq> 0" using run by (intro notI) (simp add: shuso_module_freeze_def)
  obtain lm where lm: "find_module_ptr a (mo_reg s) = Some lm"
    using run a by (cases "find_module_ptr a (mo_reg s)") (simp_all add: shuso_module_freeze_def luaS_function_call_result_ok_def)
  obtain r rg where fr: "module_freeze lm (mo_reg s) = (r, rg)" by fastforce
  have r: "r = Ret ()"
    using run a lm fr by (cases r) (simp_all add: shuso_module_freeze_def luaS_function_call_result_ok_def)
  obtain im where im: "create_parent_modules_index_map (lm_name lm) rg = Ret im"
    using run a lm fr r
    by (cases "create_parent_modules_index_map (lm_name lm) rg") (simp_all add: shuso_module_freeze_def luaS_function_call_result_ok_def)
  have al: "ms_alloc sys ''map'' a"
    using run a lm fr r im by (cases "ms_alloc sys ''map'' a") (simp_all add: shuso_module_freeze_def luaS_function_call_result_ok_def)
  obtain ds where ds: "dependent_modules (lm_name lm) rg = Ret ds"
    using run a lm fr r im al
    by (cases "dependent_modules (lm_name lm) rg") (simp_all add: shuso_module_freeze_def luaS_function_call_result_ok_def)
  have al2: "ds = [] \<or> ms_alloc sys ''submodules'' a"
    using run a lm fr r im al ds
    by (cases "ds = []"; cases "ms_alloc sys ''submodules'' a") (simp_all add: shuso_module_freeze_def luaS_function_call_result_ok_def)
  have lmset: "lm \<in> set (rg_modules (mo_reg s))" using find_module_SomeD(2) [OF lm] by blast
  have rg: "rg = mo_reg s \<or> rg = set_frozen (lm_name lm) (mo_reg s)"
    by (rule module_freeze_step [OF ok dec req lmset]) (use fr r in simp)
  then have rok: "registry_ok rg" using ok by auto
  define c where "c = (mo_mem s a)\<lparr>cm_map := map (map_entry rg (lm_name lm)) (map lm_name (rg_modules rg)),
    cm_submodules := map (ptr_of rg) (rg_dependents rg (lm_name lm))\<rparr>"
  have "s' = s\<lparr>mo_reg := rg, mo_mem := (mo_mem s)(a := c)\<rparr>"
    using run a lm fr r im al ds al2
    by (cases "ds = []") (simp_all add: shuso_module_freeze_def luaS_function_call_result_ok_def c_def Let_def
        index_map_Ret(1) [OF rok im, symmetric] dependent_modules_Ret(1) [OF ds, symmetric] del: map_map)
  moreover have "frozen_as rg (lm_name lm) c"
    using index_map_Ret(2) [OF rok im] dependent_modules_Ret(2) [OF ds]
    by (simp add: frozen_as_def c_def map_entry_def [abs_def])
  ultimately show ?thesis using lm rg by (intro exI [of _ lm] exI [of _ rg] exI [of _ c]) (simp add: c_def)
qed

definition names_ptrs :: "registry \<Rightarrow> (string \<times> addr) list" where
  "names_ptrs rg = map (\<lambda>m. (lm_name m, lm_ptr m)) (rg_modules rg)"

lemma names_ptrs_set_frozen [simp]: "names_ptrs (set_frozen n rg) = names_ptrs rg"
  by (simp add: names_ptrs_def set_frozen_def)

text \<open>Freezing all modules of a list.\<close>

lemma freeze_each_result:
  assumes "registry_ok (mo_reg s)" "all_declared (mo_reg s)" "only_required (mo_reg s)"
    "freeze_each sys as s = Done (True, s')"
  shows "(\<exists>ns. mo_reg s' = fold set_frozen ns (mo_reg s)) \<and> mo_array s' = mo_array s \<and>
    (\<forall>b. cm_index (mo_mem s' b) = cm_index (mo_mem s b)) \<and> (\<forall>b. b \<notin> set as \<longrightarrow> mo_mem s' b = mo_mem s b) \<and>
    (\<forall>b \<in> set as. \<exists>n. (n, b) \<in> set (names_ptrs (mo_reg s)) \<and> frozen_as (mo_reg s) n (mo_mem s' b))"
  using assms
proof (induction as arbitrary: s)
  case Nil
  then show ?case by (auto intro: exI [of _ "[]"])
next
  case (Cons a as)
  from Cons.prems(4) obtain s1 where 1: "shuso_module_freeze sys a s = Done (True, s1)"
    and 2: "freeze_each sys as s1 = Done (True, s')"
    by (auto simp: run_bind_Done_iff split: if_splits)
  from shuso_module_freeze_step [OF Cons.prems(1-3) 1] obtain lm rg c where
    lm: "find_module_ptr a (mo_reg s) = Some lm" and rg: "rg = mo_reg s \<or> rg = set_frozen (lm_name lm) (mo_reg s)"
    and fr: "frozen_as rg (lm_name lm) c" and c: "c = (mo_mem s a)\<lparr>cm_map := cm_map c, cm_submodules := cm_submodules c\<rparr>"
    and s1: "s1 = s\<lparr>mo_reg := rg, mo_mem := (mo_mem s)(a := c)\<rparr>" by blast
  have fr: "frozen_as (mo_reg s) (lm_name lm) c" using rg fr by auto
  have np: "names_ptrs rg = names_ptrs (mo_reg s)" using rg by auto
  have fa: "frozen_as rg = frozen_as (mo_reg s)" using rg by (auto intro!: ext)
  have "registry_ok (mo_reg s1)" "all_declared (mo_reg s1)" "only_required (mo_reg s1)"
    using rg Cons.prems(1-3) by (auto simp: s1)
  note IH = Cons.IH [OF this 2]
  have pair: "(lm_name lm, a) \<in> set (names_ptrs (mo_reg s))"
    using find_module_SomeD(2) [OF lm] by (auto simp: names_ptrs_def)
  have ns: "\<exists>ns. mo_reg s' = fold set_frozen ns (mo_reg s)"
  proof -
    from IH obtain ns where "mo_reg s' = fold set_frozen ns rg" by (auto simp: s1)
    then show ?thesis using rg by (metis fold_simps(2))
  qed
  have idx: "cm_index (mo_mem s' b) = cm_index (mo_mem s b)" for b
  proof -
    have "cm_index c = cm_index (mo_mem s a)" by (subst c) simp
    then show ?thesis using IH by (simp add: s1)
  qed
  have rest: "\<exists>n. (n, b) \<in> set (names_ptrs (mo_reg s)) \<and> frozen_as (mo_reg s) n (mo_mem s' b)" if "b \<in> set (a # as)" for b
  proof (cases "b \<in> set as")
    case True
    then show ?thesis using IH np fa by (simp add: s1)
  next
    case False
    then have "mo_mem s' b = c" "b = a" using IH that by (auto simp: s1)
    then show ?thesis using pair fr by blast
  qed
  show ?case using ns idx rest IH by (simp add: s1)
qed

section \<open>Configured modules\<close>

text \<open>The states reached by adding modules one after another, each successfully.\<close>

inductive configured :: "mod_sys \<Rightarrow> mods \<Rightarrow> bool" for sys where
  start: "mo_reg s = empty_registry \<Longrightarrow> mo_array s = [] \<Longrightarrow> configured sys s"
| core: "configured sys s \<Longrightarrow> add_module sys a True s = Done (True, s') \<Longrightarrow> configured sys s'"
| add: "configured sys s \<Longrightarrow> shuso_add_module sys a s = Done (True, s') \<Longrightarrow> configured sys s'"

definition config_inv :: "mods \<Rightarrow> bool" where
  "config_inv s \<longleftrightarrow> registry_ok (mo_reg s) \<and> all_declared (mo_reg s) \<and>
     mo_array s = map lm_ptr (rg_modules (mo_reg s)) \<and>
     (\<forall>i < length (mo_array s). cm_index (mo_mem s (mo_array s ! i)) = i)"

lemma all_declared_insert:
  assumes dec: "all_declared rg"
    and ins: "module_insert n a ps sbs evs (fold (event_get n) evs
        (fold (\<lambda>sb. add_dependency (sb_module sb) n) (filter sb_required sbs)
          (fold (\<lambda>sb. event_get (sb_module sb) (sb_event sb)) sbs rg))) = (m, rg')"
  shows "all_declared rg'" "rg_modules rg' = rg_modules rg @ [m]"
proof -
  note f = module_insert_facts [OF ins]
  have ev: "rg_modules (fold (event_get n) evs r) = rg_modules r" "rg_dependents (fold (event_get n) evs r) = rg_dependents r"
    for r using fold_event_get_tables [of "\<lambda>_. n" "\<lambda>e. e" evs r] by simp_all
  show mods: "rg_modules rg' = rg_modules rg @ [m]" using f(1) by (simp add: ev)
  have mono: "set (rg_dependents rg p) \<subseteq> set (rg_dependents rg' p)" for p
    using f(9) [of p] by (auto simp: ev)
  have "declared_ok rg' m"
    using f(9) f(2,4,5) by (auto simp: declared_ok_def ev)
  moreover have "declared_ok rg' x" if "x \<in> set (rg_modules rg)" for x
    using dec that mono by (fastforce simp: all_declared_def declared_ok_def)
  ultimately show "all_declared rg'" by (auto simp: all_declared_def mods)
qed

lemma registry_ok_module_new:
  assumes ok: "registry_ok rg" and dec: "all_declared rg"
    and new: "module_new c n a v sub pub par rg = (Ret m, rg')"
  shows "registry_ok rg'" "all_declared rg'" "rg_modules rg' = rg_modules rg @ [m]" "lm_ptr m = a" "lm_name m = n"
    "lm_index m = length (rg_modules rg) + 1" "a \<notin> lm_ptr ` set (rg_modules rg)"
proof -
  from module_new_Ret [OF new] obtain ps sbs evs where
    ins: "module_insert n a ps sbs evs (fold (event_get n) evs
        (fold (\<lambda>sb. add_dependency (sb_module sb) n) (filter sb_required sbs)
          (fold (\<lambda>sb. event_get (sb_module sb) (sb_event sb)) sbs rg))) = (m, rg')"
    and len: "length (rg_modules rg) < max_module_count" and nm: "find_module n rg = None" and np: "find_module_ptr a rg = None"
    by blast
  let ?r = "fold (event_get n) evs (fold (\<lambda>sb. add_dependency (sb_module sb) n) (filter sb_required sbs)
          (fold (\<lambda>sb. event_get (sb_module sb) (sb_event sb)) sbs rg))"
  have mods: "rg_modules ?r = rg_modules rg"
    using fold_event_get_tables(1) [of "\<lambda>_. n" "\<lambda>e. e" evs] by simp
  have ok': "registry_ok ?r"
    by (rule registry_ok_fold_event_get [of _ "\<lambda>_. n" "\<lambda>e. e", simplified])
      (intro registry_ok_fold_add_dependency registry_ok_fold_event_get ok)
  show "registry_ok rg'"
    by (rule registry_ok_insert [OF ok' _ _ _ ins]) (use len nm np mods in \<open>simp_all add: find_module_def find_module_ptr_def\<close>)
  show "all_declared rg'" "rg_modules rg' = rg_modules rg @ [m]" by (rule all_declared_insert [OF dec ins])+
  show "lm_ptr m = a" "lm_name m = n" by (rule module_insert_facts [OF ins])+
  show "lm_index m = length (rg_modules rg) + 1" using ins mods by (auto simp: module_insert_def Let_def)
  show "a \<notin> lm_ptr ` set (rg_modules rg)" using np by (simp only: find_module_ptr_None simp_thms)
qed

lemma registry_ok_new_core:
  assumes ok: "registry_ok rg" and dec: "all_declared rg"
    and new: "module_new_core_module n a v sub pub par rg = (Ret m, rg')"
  shows "registry_ok rg'" "all_declared rg'" "rg_modules rg' = rg_modules rg @ [m]" "lm_ptr m = a" "lm_name m = n"
    "lm_index m = length (rg_modules rg) + 1" "a \<notin> lm_ptr ` set (rg_modules rg)"
proof -
  from new obtain rg1 where 1: "module_new True n a v sub pub par rg = (Ret m, rg1)" and rg': "rg' = rg1\<lparr>rg_core := Some n\<rparr>"
    by (auto simp: module_new_core_module_def split: if_splits prod.splits lua.splits)
  note f = registry_ok_module_new [OF ok dec 1]
  show "registry_ok rg'" "all_declared rg'" "rg_modules rg' = rg_modules rg @ [m]" "lm_ptr m = a" "lm_name m = n"
    "lm_index m = length (rg_modules rg) + 1" "a \<notin> lm_ptr ` set (rg_modules rg)"
    using f by (simp_all add: rg' registry_ok_def all_declared_def declared_ok_def)
qed

lemma register_each_state:
  "register_each f ns s = (ok, s') \<Longrightarrow> \<exists>S. s' = s\<lparr>mo_S := S\<rparr>"
proof (induction ns arbitrary: s)
  case Nil
  then show ?case by (auto intro: exI [of _ "mo_S s"])
next
  case (Cons n ns)
  obtain b S where "f n (mo_S s) = (b, S)" by fastforce
  with Cons.prems Cons.IH [of "s\<lparr>mo_S := S\<rparr>"] show ?case by (cases b) auto
qed

lemma add_module_step:
  assumes inv: "config_inv s" and run: "add_module sys a core s = Done (True, s')"
  shows "\<exists>rg S m. s' = (upd_mod a (\<lambda>m. m\<lparr>cm_index := length (mo_array s)\<rparr>) s)
      \<lparr>mo_reg := rg, mo_array := mo_array s @ [a], mo_S := S\<rparr> \<and>
    registry_ok rg \<and> all_declared rg \<and> rg_modules rg = rg_modules (mo_reg s) @ [m] \<and> lm_ptr m = a \<and>
    cm_name (mo_mem s a) = Some (lm_name m) \<and> a \<notin> set (mo_array s)"
proof -
  have ok: "registry_ok (mo_reg s)" and dec: "all_declared (mo_reg s)"
    and arr: "mo_array s = map lm_ptr (rg_modules (mo_reg s))"
    using inv by (auto simp: config_inv_def)
  let ?m = "mo_mem s a"
  obtain S1 where S1: "shuso_runstate_check SHUSO_STATE_CONFIGURING ''add module'' (mo_S s) = Done (True, S1)"
    using run by (auto simp: add_module_def run_bind_Done_iff Let_def split: if_splits)
  obtain n v where n: "cm_name ?m = Some n" and v: "cm_version ?m = Some v"
    using run S1 by (cases "cm_name ?m"; cases "cm_version ?m") (simp_all add: add_module_def)
  obtain r rg where new: "(if core then module_new_core_module n a v (cm_subscribe ?m) (cm_publish ?m) (cm_parents ?m) (mo_reg s)
      else module_new False n a v (cm_subscribe ?m) (cm_publish ?m) (cm_parents ?m) (mo_reg s)) = (r, rg)"
    by (metis surj_pair)
  obtain lm where r: "r = Ret lm"
    using run n v new S1 by (cases core; cases r) (simp_all add: add_module_def Let_def luaS_function_call_result_ok_def)
  have f: "registry_ok rg" "all_declared rg" "rg_modules rg = rg_modules (mo_reg s) @ [lm]" "lm_ptr lm = a" "lm_name lm = n"
    "lm_index lm = length (rg_modules (mo_reg s)) + 1" "a \<notin> lm_ptr ` set (rg_modules (mo_reg s))"
    using new registry_ok_module_new [OF ok dec] registry_ok_new_core [OF ok dec] by (auto simp: r split: if_splits)
  have al: "ms_alloc sys ''modules'' a"
    using run n v new S1 r f(6) arr
    by (cases core; cases "ms_alloc sys ''modules'' a") (simp_all add: add_module_def Let_def luaS_function_call_result_ok_def)
  let ?s = "s\<lparr>mo_reg := rg, mo_S := S1, mo_mem := (mo_mem s)(a := (mo_mem s a)\<lparr>cm_index := length (rg_modules (mo_reg s))\<rparr>),
    mo_array := map lm_ptr (rg_modules (mo_reg s)) @ [a]\<rparr>"
  obtain ok1 s1 where reg1: "register_each (ms_register_setting sys a) [0..<cm_settings ?m] ?s = (ok1, s1)" by fastforce
  have "ok1 \<and> register_each (ms_register_variable sys a) [0..<cm_variables ?m] s1 = (True, s')"
    using run S1 n v new r f(6) arr al reg1
    by (cases core; cases ok1) (simp_all add: add_module_def luaS_function_call_result_ok_def Let_def)
  then obtain S where "s' = ?s\<lparr>mo_S := S\<rparr>"
    using register_each_state [OF reg1] register_each_state by fastforce
  then show ?thesis using f n arr by (intro exI [of _ rg] exI [of _ S] exI [of _ lm]) simp
qed

lemma config_inv_add:
  assumes inv: "config_inv s" and run: "add_module sys a core s = Done (True, s')"
  shows "config_inv s'"
proof -
  from add_module_step [OF inv run] obtain rg S m where
    s': "s' = (upd_mod a (\<lambda>m. m\<lparr>cm_index := length (mo_array s)\<rparr>) s)\<lparr>mo_reg := rg, mo_array := mo_array s @ [a], mo_S := S\<rparr>"
    and rg: "registry_ok rg" "all_declared rg" "rg_modules rg = rg_modules (mo_reg s) @ [m]" "lm_ptr m = a"
    and new: "a \<notin> set (mo_array s)" by blast
  have "(mo_array s @ [a]) ! i \<noteq> a" if "i < length (mo_array s)" for i
    using new that by (auto simp: nth_append)
  then show ?thesis
    using inv rg by (auto simp: config_inv_def s' nth_append less_Suc_eq)
qed

lemma configured_inv: "configured sys s \<Longrightarrow> config_inv s"
proof (induction rule: configured.induct)
  case (start s)
  then show ?case by (simp add: config_inv_def registry_ok_def all_declared_def empty_registry_def)
qed (auto intro: config_inv_add simp: shuso_add_module_def)

section \<open>Contexts are apart\<close>

text \<open>The offset of a module in the contexts of a parent.\<close>

definition context_offset :: "addr \<Rightarrow> addr \<Rightarrow> mods \<Rightarrow> nat" where
  "context_offset parent a s = cm_map (mo_mem s a) ! cm_index (mo_mem s parent)"

lemma names_ptrs_mem:
  "(n, a) \<in> set (names_ptrs rg) \<longleftrightarrow> (\<exists>i < length (rg_modules rg). lm_name (rg_modules rg ! i) = n \<and> lm_ptr (rg_modules rg ! i) = a)"
  by (auto simp: names_ptrs_def in_set_conv_nth [of _ "map _ _"] simp del: set_map)

lemma names_ptrs_inj:
  assumes ok: "registry_ok rg" and "(n, a) \<in> set (names_ptrs rg)" "(n', a') \<in> set (names_ptrs rg)"
  shows "n = n' \<longleftrightarrow> a = a'"
proof -
  obtain i j where i: "i < length (rg_modules rg)" "lm_name (rg_modules rg ! i) = n" "lm_ptr (rg_modules rg ! i) = a"
    and j: "j < length (rg_modules rg)" "lm_name (rg_modules rg ! j) = n'" "lm_ptr (rg_modules rg ! j) = a'"
    using assms(2,3) by (auto simp: names_ptrs_mem)
  have "n = n' \<longleftrightarrow> i = j" "a = a' \<longleftrightarrow> i = j"
    using ok i j nth_eq_iff_index_eq [of "map lm_name (rg_modules rg)" i j]
      nth_eq_iff_index_eq [of "map lm_ptr (rg_modules rg)" i j]
    by (auto simp: registry_ok_def)
  then show ?thesis by simp
qed

lemma names_ptrs_ptr_of:
  assumes ok: "registry_ok rg" and "(n, a) \<in> set (names_ptrs rg)" shows "ptr_of rg n = a"
  using assms find_module_Some [OF ok] by (auto simp: names_ptrs_def ptr_of_def)

lemma context_offset_frozen:
  assumes conf: "configured sys s" and req: "only_required (mo_reg s)"
    and run: "freeze_each sys (mo_array s) s = Done (True, s')"
    and a: "a \<in> set (mo_array s)" and p: "p \<in> set (mo_array s)"
  shows "if a \<in> set (cm_submodules (mo_mem s' p))
    then context_offset p a s' < length (cm_submodules (mo_mem s' p)) \<and>
      cm_submodules (mo_mem s' p) ! context_offset p a s' = a \<and> context_offset p a s' \<noteq> SHUSO_MODULE_INDEX_INVALID
    else context_offset p a s' = SHUSO_MODULE_INDEX_INVALID"
    "cm_index (mo_mem s' p) < length (cm_map (mo_mem s' a))"
proof -
  let ?rg = "mo_reg s"
  have ok: "registry_ok ?rg" and dec: "all_declared ?rg" and arr: "mo_array s = map lm_ptr (rg_modules ?rg)"
    and idx: "\<forall>i < length (mo_array s). cm_index (mo_mem s (mo_array s ! i)) = i"
    using configured_inv [OF conf] by (auto simp: config_inv_def)
  note R = freeze_each_result [OF ok dec req run]
  obtain na where na: "(na, a) \<in> set (names_ptrs ?rg)" and fa: "frozen_as ?rg na (mo_mem s' a)" using R a by blast
  obtain np where np: "(np, p) \<in> set (names_ptrs ?rg)" and fp: "frozen_as ?rg np (mo_mem s' p)" using R p by blast
  obtain i where i: "i < length (rg_modules ?rg)" "lm_name (rg_modules ?rg ! i) = np" "lm_ptr (rg_modules ?rg ! i) = p"
    using np by (auto simp: names_ptrs_mem)
  have ip: "cm_index (mo_mem s' p) = i" using R idx i arr by (metis length_map nth_map)
  have map_a: "cm_map (mo_mem s' a) = map (map_entry ?rg na) (map lm_name (rg_modules ?rg))"
    using fa by (simp add: frozen_as_def map_entry_def [abs_def])
  show "cm_index (mo_mem s' p) < length (cm_map (mo_mem s' a))" using ip i by (simp add: map_a)
  have off: "context_offset p a s' = map_entry ?rg na np" using ip i by (simp add: context_offset_def map_a)
  have subs: "cm_submodules (mo_mem s' p) = map (ptr_of ?rg) (rg_dependents ?rg np)"
    and known: "set (rg_dependents ?rg np) \<subseteq> lm_name ` set (rg_modules ?rg)"
    using fp by (auto simp: frozen_as_def)
  show "if a \<in> set (cm_submodules (mo_mem s' p))
    then context_offset p a s' < length (cm_submodules (mo_mem s' p)) \<and>
      cm_submodules (mo_mem s' p) ! context_offset p a s' = a \<and> context_offset p a s' \<noteq> SHUSO_MODULE_INDEX_INVALID
    else context_offset p a s' = SHUSO_MODULE_INDEX_INVALID"
  proof (cases "np \<in> set (rg_providers ?rg na)")
    case True
    then have n: "na \<in> set (rg_dependents ?rg np)" using ok by (simp add: registry_ok_def)
    note e = stored_map_entry [OF ok True known n]
    have "a \<in> set (cm_submodules (mo_mem s' p))" using n names_ptrs_ptr_of [OF ok na] by (auto simp: subs)
    then show ?thesis
      using e names_ptrs_ptr_of [OF ok na] by (simp add: off subs SHUSO_MODULE_INDEX_INVALID_def)
  next
    case False
    have "a \<notin> set (cm_submodules (mo_mem s' p))"
    proof
      assume "a \<in> set (cm_submodules (mo_mem s' p))"
      then obtain d where d: "d \<in> set (rg_dependents ?rg np)" "ptr_of ?rg d = a" unfolding subs by auto
      from d(1) known have "d \<in> lm_name ` set (rg_modules ?rg)" by (rule subsetD [rotated])
      then obtain b where b: "(d, b) \<in> set (names_ptrs ?rg)" by (auto simp: names_ptrs_def)
      with d names_ptrs_ptr_of [OF ok b] have "(d, a) \<in> set (names_ptrs ?rg)" by simp
      then have "d = na" using names_ptrs_inj [OF ok _ na] by blast
      with d False ok show False by (simp add: registry_ok_def)
    qed
    then show ?thesis using False by (simp add: off map_entry_def)
  qed
qed

text \<open>C21: Contexts of modules do not overlap. After modules have been added one by one and frozen,
  with no optional subscriptions, a module that depends on a parent can store its context in
  a list made for that parent and gets it back, and the context of every other module that depends
  on the parent stays as it was; for a module that does not depend on it both operations
  fail with an error, and nothing is ever read or written outside the map or the list.
\<close>

theorem contexts_separate:
  assumes "configured sys s" "only_required (mo_reg s)" "freeze_each sys (mo_array s) s = Done (True, s')"
    "a \<in> set (mo_array s)" "b \<in> set (mo_array s)" "p \<in> set (mo_array s)"
    "length cl = length (cm_submodules (mo_mem s' p))"
  shows "if a \<in> set (cm_submodules (mo_mem s' p)) then
      \<exists>cl'. shuso_set_context p a ctx cl s' = Done (True, cl', s') \<and>
        shuso_context p a cl' s' = Done (Some ctx, s') \<and>
        (b \<noteq> a \<longrightarrow> shuso_context p b cl' s' = shuso_context p b cl s')
    else shuso_set_context p a ctx cl s' = Done (False, cl, no_context p a s') \<and>
      shuso_context p a cl s' = Done (None, no_context p a s')"
proof -
  note A = context_offset_frozen [OF assms(1-3) assms(4) assms(6), unfolded context_offset_def]
    and B = context_offset_frozen [OF assms(1-3) assms(5) assms(6), unfolded context_offset_def]
  show ?thesis
  proof (cases "a \<in> set (cm_submodules (mo_mem s' p))")
    case True
    let ?oa = "cm_map (mo_mem s' a) ! cm_index (mo_mem s' p)" and ?ob = "cm_map (mo_mem s' b) ! cm_index (mo_mem s' p)"
    have "?ob \<noteq> ?oa" if "b \<noteq> a"
      using A B True that by (cases "b \<in> set (cm_submodules (mo_mem s' p))") auto
    then have "shuso_context p b (cl[?oa := Some ctx]) s' = shuso_context p b cl s'" if "b \<noteq> a"
      using that by (simp add: shuso_context_def Let_def)
    then show ?thesis using True A assms(7) by (simp add: shuso_set_context_def shuso_context_def)
  next
    case False
    then show ?thesis using A by (simp add: shuso_set_context_def shuso_context_def)
  qed
qed

text \<open>
  Three modules: the core module (1), one that publishes an event (2) and one that
  subscribes to it (3), with or without a tilde, and has no parents.
\<close>

definition result_state :: "(bool \<times> mods) run \<Rightarrow> mods \<Rightarrow> mods" where
  "result_state r s = (case r of Done (_, s') \<Rightarrow> s' | Abort \<Rightarrow> s)"

definition run_true :: "(bool \<times> mods) run \<Rightarrow> bool" where
  "run_true r = (case r of Done (b, _) \<Rightarrow> b | Abort \<Rightarrow> False)"

lemma run_true_result: "run_true r \<Longrightarrow> r = Done (True, result_state r s)"
  by (auto simp: run_true_def result_state_def split: run.splits)

definition plain_module :: "string \<Rightarrow> string \<Rightarrow> string \<Rightarrow> cmodule" where
  "plain_module name subscribe publish =
     \<lparr>cm_name = Some name, cm_version = Some ''0.1.0'', cm_parents = [], cm_subscribe = subscribe, cm_publish = publish,
      cm_settings = 0, cm_variables = 0, cm_initialize = False, cm_initialize_worker = False,
      cm_index = 0, cm_map = [], cm_submodules = []\<rparr>"

definition example_mods :: "string \<Rightarrow> mods" where
  "example_mods subscribe =
     \<lparr>mo_S = (example_shuso 0)\<lparr>common_state := SHUSO_STATE_CONFIGURING\<rparr>, mo_reg = empty_registry,
      mo_mem = (\<lambda>a. if a = 1 then plain_module ''core'' [] [] else if a = 2 then plain_module ''clock'' [] ''tick''
                 else plain_module ''user'' subscribe []),
      mo_array = [], mo_active = 0, mo_events = False\<rparr>"

definition example_mod_sys :: mod_sys where
  "example_mod_sys = \<lparr>ms_alloc = (\<lambda>_ _. True), ms_register_setting = (\<lambda>_ _ S. (True, S)),
     ms_register_variable = (\<lambda>_ _ S. (True, S)), ms_initialize = (\<lambda>_ s. (True, s)), ms_initialize_worker = (\<lambda>_ s. (True, s))\<rparr>"

definition with_core :: "string \<Rightarrow> mods" where
  "with_core sub = result_state (add_module example_mod_sys 1 True (example_mods sub)) (example_mods sub)"

definition with_clock :: "string \<Rightarrow> mods" where
  "with_clock sub = result_state (shuso_add_module example_mod_sys 2 (with_core sub)) (with_core sub)"

definition with_user :: "string \<Rightarrow> mods" where
  "with_user sub = result_state (shuso_add_module example_mod_sys 3 (with_clock sub)) (with_clock sub)"

definition example_frozen :: "string \<Rightarrow> mods" where
  "example_frozen sub = result_state (freeze_each example_mod_sys (mo_array (with_user sub)) (with_user sub)) (with_user sub)"

lemma example_strings [simp]:
  "split_parent_modules_string [] = Inr []" 
  "split_subscribe_list_string [] = (None, [])"
  "split_subscribe_list_string ''clock:tick'' =
    (None, [\<lparr>sb_full = ''clock:tick'', sb_module = ''clock'', sb_event = ''tick'', sb_required = True\<rparr>])"
  "split_subscribe_list_string ''~clock:tick'' =
    (None, [\<lparr>sb_full = ''~clock:tick'', sb_module = ''clock'', sb_event = ''tick'', sb_required = False\<rparr>])"
  "split_publish_list_string [] = (None, [])"
  "split_publish_list_string ''tick'' = (None, [''tick''])"
  "version_ok ''0.1.0'' = True"
  by code_simp+
lemmas module_evals =
  add_module_def shuso_add_module_def shuso_runstate_check_def plain_module_def example_mods_def example_mod_sys_def
  module_new_core_module_def module_new_def module_insert_def find_module_def find_module_ptr_def empty_registry_def
  max_module_count_def luaS_function_call_result_ok_def add_dependency_def add_new_def event_get_def Let_def
  result_state_def run_true_def with_core_def with_clock_def with_user_def

lemmas freeze_evals =
  example_frozen_def shuso_module_freeze_def module_freeze_def set_frozen_def create_parent_modules_index_map_def
  dependent_modules_def SHUSO_MODULE_INDEX_INVALID_def

lemma example_runs:
  "run_true (add_module example_mod_sys 1 True (example_mods sub))"
  "run_true (shuso_add_module example_mod_sys 2 (with_core sub))"
  "run_true (shuso_add_module example_mod_sys 3 (with_clock ''clock:tick''))"
  "run_true (shuso_add_module example_mod_sys 3 (with_clock ''~clock:tick''))"
  by (simp_all add: module_evals)

lemma example_configured: "sub \<in> {''clock:tick'', ''~clock:tick''} \<Longrightarrow> configured example_mod_sys (with_user sub)"
proof -
  assume sub: "sub \<in> {''clock:tick'', ''~clock:tick''}"
  have "configured example_mod_sys (example_mods sub)" by (rule configured.start) (simp_all add: example_mods_def)
  then have "configured example_mod_sys (with_core sub)"
    unfolding with_core_def by (rule configured.core) (rule run_true_result, rule example_runs)
  then have "configured example_mod_sys (with_clock sub)"
    unfolding with_clock_def by (rule configured.add) (rule run_true_result, rule example_runs)
  then show ?thesis
    unfolding with_user_def by (rule configured.add) (rule run_true_result, use sub example_runs(3,4) in auto)
qed




definition example_subscription :: "bool \<Rightarrow> subscription" where
  "example_subscription req = \<lparr>sb_full = (if req then ''clock:tick'' else ''~clock:tick''), sb_module = ''clock'',
     sb_event = ''tick'', sb_required = req\<rparr>"

definition example_registry :: "bool \<Rightarrow> registry" where
  "example_registry req =
     \<lparr>rg_modules = [
        \<lparr>lm_name = ''core'', lm_ptr = 1, lm_index = 1, lm_parents = [], lm_subscribe = [], lm_publish = [], lm_frozen = False\<rparr>,
        \<lparr>lm_name = ''clock'', lm_ptr = 2, lm_index = 2, lm_parents = [], lm_subscribe = [], lm_publish = [''tick''], lm_frozen = False\<rparr>,
        \<lparr>lm_name = ''user'', lm_ptr = 3, lm_index = 3, lm_parents = [], lm_subscribe = [example_subscription req],
         lm_publish = [], lm_frozen = False\<rparr>],
      rg_dependents = (if req then (\<lambda>_. [])(''clock'' := [''user''], ''core'' := [''core'', ''clock'', ''user''])
                       else (\<lambda>_. [])(''core'' := [''core'', ''clock'', ''user''])),
      rg_providers = (\<lambda>_. [])(''core'' := [''core''], ''clock'' := [''core''],
         ''user'' := (if req then [''clock'', ''core''] else [''core''])),
      rg_core = Some ''core'',
      rg_events = [(''clock'', ''tick'') \<mapsto>
        \<lparr>le_initialized = False, le_ptr = 0, le_data_type = None, le_handler = 0, le_listeners = []\<rparr>],
      rg_by_ptr = Map.empty\<rparr>"

lemma example_added:
  "with_user (sb_full (example_subscription req)) =
    (example_mods (sb_full (example_subscription req)))\<lparr>mo_reg := example_registry req, mo_array := [1, 2, 3],
      mo_mem := (\<lambda>m. m(2 := (m 2)\<lparr>cm_index := 1\<rparr>, 3 := (m 3)\<lparr>cm_index := 2\<rparr>))
        (mo_mem (example_mods (sb_full (example_subscription req))))\<rparr>"
  by (cases req; simp add: module_evals example_subscription_def example_registry_def fun_eq_iff) auto

lemma module_freeze_run:
  assumes "a \<noteq> 0" "find_module_ptr a (mo_reg s) = Some lm" "module_freeze lm (mo_reg s) = (Ret (), rg)"
    "create_parent_modules_index_map (lm_name lm) rg = Ret im" "dependent_modules (lm_name lm) rg = Ret ds"
    "\<And>what b. ms_alloc sys what b"
  shows "shuso_module_freeze sys a s = Done (True, upd_mod a (\<lambda>m. m\<lparr>cm_map := map (\<lambda>i.
      (if i > 0 then i - 1 else SHUSO_MODULE_INDEX_INVALID) mod 256) im, cm_submodules := map lm_ptr ds\<rparr>) (s\<lparr>mo_reg := rg\<rparr>))"
  using assms by (cases "ds = []") (simp_all add: shuso_module_freeze_def luaS_function_call_result_ok_def Let_def)

text \<open>The registries while the three modules are frozen.\<close>

abbreviation "example_registry1 req \<equiv> set_frozen ''core'' (example_registry req)"
abbreviation "example_registry2 req \<equiv> set_frozen ''clock'' (example_registry1 req)"
abbreviation "example_registry3 req \<equiv> set_frozen ''user'' (add_dependency ''clock'' ''user'' (example_registry2 req))"

lemmas registry_evals = example_registry_def module_freeze_def example_subscription_def find_module_def find_module_ptr_def
  set_frozen_def add_dependency_def add_new_def create_parent_modules_index_map_def dependent_modules_def

lemma example_ptr1:
  "find_module_ptr 1 (example_registry req) = Some (rg_modules (example_registry req) ! 0)"
  by (simp_all add: registry_evals)

lemma example_ptr2:
  "find_module_ptr 2 (example_registry1 req) = Some (rg_modules (example_registry req) ! 1)"
  by (simp_all add: registry_evals)

lemma example_ptr3:
  "find_module_ptr 3 (example_registry2 req) = Some (rg_modules (example_registry req) ! 2)"
  by (simp_all add: registry_evals)

lemma example_freeze1:
  "module_freeze (rg_modules (example_registry req) ! 0) (example_registry req) = (Ret (), example_registry1 req)"
  by (simp_all add: registry_evals)

lemma example_freeze2:
  "module_freeze (rg_modules (example_registry req) ! 1) (example_registry1 req) = (Ret (), example_registry2 req)"
  by (simp_all add: registry_evals)

lemma example_freeze3:
  "module_freeze (rg_modules (example_registry req) ! 2) (example_registry2 req) = (Ret (), example_registry3 req)"
  by (simp_all add: registry_evals)


lemma index_map_names:
  "create_parent_modules_index_map n rg =
     (if \<exists>p \<in> set (rg_providers rg n). find_module p rg = None \<or> None \<in> (\<lambda>d. find_module d rg) ` set (rg_dependents rg p) then Raise
      else if \<exists>p \<in> set (rg_providers rg n). n \<notin> set (rg_dependents rg p) then Nil ''failed to create parent_modules_index_map''
      else Ret (map (\<lambda>p. if p \<in> set (rg_providers rg n) then position n (rg_dependents rg p) else 0) (map lm_name (rg_modules rg))))"
proof -
  have "dependent_modules p rg = Raise \<longleftrightarrow> None \<in> (\<lambda>d. find_module d rg) ` set (rg_dependents rg p)" for p
    by (simp add: dependent_modules_def Let_def)
  then show ?thesis unfolding create_parent_modules_index_map_def Let_def map_map o_def by simp_all
qed

lemma example_tables:
  "rg_dependents (example_registry req) ''core'' = [''core'', ''clock'', ''user'']"
  "rg_dependents (example_registry req) ''clock'' = (if req then [''user''] else [])"
  "rg_dependents (example_registry req) ''user'' = []"
  "rg_providers (example_registry req) ''core'' = [''core'']"
  "rg_providers (example_registry req) ''clock'' = [''core'']"
  "rg_providers (example_registry req) ''user'' = (if req then [''clock'', ''core''] else [''core''])"
  "map lm_name (rg_modules (example_registry req)) = [''core'', ''clock'', ''user'']"
  "find_module ''core'' (example_registry req) = Some (rg_modules (example_registry req) ! 0)"
  "find_module ''clock'' (example_registry req) = Some (rg_modules (example_registry req) ! 1)"
  "find_module ''user'' (example_registry req) = Some (rg_modules (example_registry req) ! 2)"
  by (simp_all add: example_registry_def find_module_def)

lemma example_maps:
  "create_parent_modules_index_map ''core'' (example_registry1 req) = Ret [1, 0, 0]"
  "create_parent_modules_index_map ''clock'' (example_registry2 req) = Ret [2, 0, 0]"
  "create_parent_modules_index_map ''user'' (example_registry3 req) = Ret [3, 1, 0]"
  by (simp_all add: index_map_names example_tables find_module_set_frozen add_new_def del: map_map cong: if_cong)

lemma example_dependents:
  "dependent_modules ''core'' (example_registry1 req) = Ret (rg_modules (example_registry1 req))"
  "dependent_modules ''clock'' (example_registry2 req) = Ret (if req then [rg_modules (example_registry req) ! 2] else [])"
  "dependent_modules ''user'' (example_registry3 req) = Ret []"
  by (simp_all add: dependent_modules_def Let_def example_tables find_module_set_frozen) (simp_all add: example_registry_def set_frozen_def)

lemmas example_step1 = example_ptr1 example_freeze1 example_maps(1) example_dependents(1)
lemmas example_step2 = example_ptr2 example_freeze2 example_maps(2) example_dependents(2)
lemmas example_step3 = example_ptr3 example_freeze3 example_maps(3) example_dependents(3)

definition example_frozen_mods :: "bool \<Rightarrow> mods" where
  "example_frozen_mods req = (with_user (sb_full (example_subscription req)))
     \<lparr>mo_reg := example_registry3 req, mo_mem := (\<lambda>m. m(
        1 := (m 1)\<lparr>cm_map := [0, 255, 255], cm_submodules := [1, 2, 3]\<rparr>,
        2 := (m 2)\<lparr>cm_map := [1, 255, 255], cm_submodules := (if req then [3] else [])\<rparr>,
        3 := (m 3)\<lparr>cm_map := [2, 0, 255], cm_submodules := []\<rparr>)) (mo_mem (with_user (sb_full (example_subscription req))))\<rparr>"

lemma example_freeze_runs:
  "freeze_each example_mod_sys [1, 2, 3] (with_user (sb_full (example_subscription req))) = Done (True, example_frozen_mods req)"
proof -
  let ?s = "with_user (sb_full (example_subscription req))"
  have names: "lm_name (rg_modules (example_registry req) ! 0) = ''core''" "lm_name (rg_modules (example_registry req) ! 1) = ''clock''"
    "lm_name (rg_modules (example_registry req) ! 2) = ''user''" "map lm_ptr (rg_modules (example_registry req)) = [1, 2, 3]"
    by (simp_all add: example_registry_def set_frozen_def)
  have user: "lm_ptr (rg_modules (example_registry r) ! 2) = 3" for r by (simp add: example_registry_def)
  have reg: "mo_reg ?s = example_registry req" by (simp add: example_added)
  have al: "ms_alloc example_mod_sys what b" for what b by (simp add: example_mod_sys_def)
  show ?thesis
    by (simp add: module_freeze_run [OF _ _ _ _ _ al] reg names user example_step1 example_step2 example_step3 example_frozen_mods_def
        SHUSO_MODULE_INDEX_INVALID_def del: One_nat_def)
qed

theorem contexts_separate_witness:
  "if 2 \<in> set (cm_submodules (mo_mem (example_frozen_mods True) 1)) then
      \<exists>cl'. shuso_set_context 1 2 77 [None, None, Some 5] (example_frozen_mods True) = Done (True, cl', example_frozen_mods True) \<and>
        shuso_context 1 2 cl' (example_frozen_mods True) = Done (Some 77, example_frozen_mods True) \<and>
        ((3::addr) \<noteq> 2 \<longrightarrow> shuso_context 1 3 cl' (example_frozen_mods True) =
           shuso_context 1 3 [None, None, Some 5] (example_frozen_mods True))
    else shuso_set_context 1 2 77 [None, None, Some 5] (example_frozen_mods True) =
           Done (False, [None, None, Some 5], no_context 1 2 (example_frozen_mods True)) \<and>
      shuso_context 1 2 [None, None, Some 5] (example_frozen_mods True) = Done (None, no_context 1 2 (example_frozen_mods True))"
proof -
  have full: "sb_full (example_subscription True) = ''clock:tick''" by (simp add: example_subscription_def)
  have arr: "mo_array (with_user ''clock:tick'') = [1, 2, 3]" "mo_reg (with_user ''clock:tick'') = example_registry True"
    using example_added [of True] by (simp_all add: full)
  show ?thesis
    by (rule contexts_separate [OF example_configured [of "''clock:tick''"]])
      (use example_freeze_runs [of True] in \<open>simp_all add: arr full only_required_def example_registry_def
        example_subscription_def example_frozen_mods_def\<close>)
qed

text \<open>An optional subscriber gets an offset in a list that has no room for it. A module that
  subscribes with a tilde to an event of a module added before it becomes a dependent when it
  is frozen, after the number of submodules of the publisher was recorded. Its offset is then
  not below that number, and setting its context in a list made for the publisher is a
  write past the end.
\<close>

theorem optional_subscriber_out_of_bounds:
  "\<exists>s. configured example_mod_sys (with_user ''~clock:tick'') \<and>
    freeze_each example_mod_sys (mo_array (with_user ''~clock:tick'')) (with_user ''~clock:tick'') = Done (True, s) \<and>
    ''user'' \<in> set (rg_dependents (mo_reg s) ''clock'') \<and>
    shuso_context_list_initialize example_mod_sys 1 2 s = (True, [], s) \<and>
    shuso_set_context 2 3 ctx [] s = Abort"
proof -
  have full: "sb_full (example_subscription False) = ''~clock:tick''" by (simp add: example_subscription_def)
  have arr: "mo_array (with_user ''~clock:tick'') = [1, 2, 3]"
    using example_added [of False] by (simp add: full)
  let ?s = "example_frozen_mods False"
  have "''user'' \<in> set (rg_dependents (mo_reg ?s) ''clock'')"
    by (simp add: example_frozen_mods_def)
  moreover have "shuso_context_list_initialize example_mod_sys 1 2 ?s = (True, [], ?s)"
    by (simp add: shuso_context_list_initialize_def example_frozen_mods_def)
  moreover have "shuso_set_context 2 3 ctx [] ?s = Abort"
    using example_added [of False]
    by (simp add: shuso_set_context_def example_frozen_mods_def Let_def full SHUSO_MODULE_INDEX_INVALID_def)
  ultimately show ?thesis
    using example_configured [of "''~clock:tick''"] example_freeze_runs [of False] by (simp add: arr full)
qed

section \<open>Finalising, and the active module\<close>

lemma check_listeners_state:
  "check_listeners name ls s = Done (True, s') \<Longrightarrow> s' = s"
proof (induction ls arbitrary: s)
  case (Cons l ls)
  then show ?case
    by (cases "dependency_index name (name_or_null (mo_mem s (ls_module l))) (mo_reg s)")
      (auto simp: luaS_function_call_result_ok_def Let_def)
qed simp

text \<open>
  After finalising, the event of every name of the list has the listeners of the registry in their order, and every
  one of their modules depends on the publisher.
\<close>

lemma check_listeners_depend:
  "check_listeners name ls s = Done (True, s') \<Longrightarrow> l \<in> set ls \<Longrightarrow>
   name_or_null (mo_mem s (ls_module l)) \<in> set (rg_dependents (mo_reg s) name)"
proof (induction ls arbitrary: s)
  case (Cons k ls)
  let ?r = "dependency_index name (name_or_null (mo_mem s (ls_module k))) (mo_reg s)"
  from Cons.prems(1) obtain n where n: "?r = Ret n"
    by (cases ?r) (auto simp: luaS_function_call_result_ok_def Let_def)
  with Cons.prems(1) have "check_listeners name ls s = Done (True, s')"
    by (simp add: luaS_function_call_result_ok_def)
  moreover have "name_or_null (mo_mem s (ls_module k)) \<in> set (rg_dependents (mo_reg s) name)"
    using n by (auto simp: dependency_index_def split: if_splits)
  ultimately show ?case using Cons by auto
qed simp

lemma finalize_events_result:
  assumes "finalize_events sys a es (ce, s) = Done (True, ce', s')"
    "inj_on (\<lambda>e. le_ptr (the (rg_events (mo_reg s) (name_or_null (mo_mem s a), e)))) (set es)"
  shows "s' = s \<and> (\<forall>p. p \<notin> (\<lambda>e. le_ptr (the (rg_events (mo_reg s) (name_or_null (mo_mem s a), e)))) ` set es \<longrightarrow> ce' p = ce p) \<and>
    (\<forall>e \<in> set es. \<exists>ev c. rg_events (mo_reg s) (name_or_null (mo_mem s a), e) = Some ev \<and> ce' (le_ptr ev) = Some c \<and>
      ce_name c = e \<and> ce_listeners c = le_listeners ev \<and>
      (\<forall>l \<in> set (le_listeners ev). name_or_null (mo_mem s (ls_module l)) \<in>
         set (rg_dependents (mo_reg s) (name_or_null (mo_mem s a)))))"
  using assms
proof (induction es arbitrary: ce)
  case (Cons e es)
  let ?n = "name_or_null (mo_mem s a)"
  from Cons.prems(1) obtain ev where ev: "rg_events (mo_reg s) (?n, e) = Some ev"
    by (cases "rg_events (mo_reg s) (?n, e)") (simp_all add: Let_def)
  from Cons.prems(1) ev obtain s1 where ch: "check_listeners ?n (le_listeners ev) s = Done (True, s1)"
    by (auto simp: Let_def c_assert_Done_iff run_bind_Done_iff split: if_splits)
  have s1: "s1 = s" by (rule check_listeners_state [OF ch])
  let ?ce = "ce(le_ptr ev \<mapsto> \<lparr>ce_module_index = cm_index (mo_mem s a), ce_name = e, ce_data_type = le_data_type ev,
    ce_handler = le_handler ev, ce_listeners = le_listeners ev\<rparr>)"
  have rest: "finalize_events sys a es (?ce, s) = Done (True, ce', s')"
    using Cons.prems(1) ev ch s1 by (auto simp: Let_def c_assert_Done_iff split: if_splits)
  have "inj_on (\<lambda>e. le_ptr (the (rg_events (mo_reg s) (?n, e)))) (set es)" using Cons.prems(2) by simp
  note IH = Cons.IH [OF rest this]
  show ?case
  proof (cases "e \<in> set es")
    case True
    then show ?thesis using IH ev by (auto simp: insert_absorb image_iff)
  next
    case False
    then have "le_ptr ev \<notin> (\<lambda>e. le_ptr (the (rg_events (mo_reg s) (?n, e)))) ` set es"
      using Cons.prems(2) ev by (auto simp: inj_on_def)
    then show ?thesis using IH ev check_listeners_depend [OF ch] by auto
  qed
qed simp

text \<open>A worker's initialisation leaves the last module active.\<close>

lemma worker_modules_leave_active:
  assumes "\<And>a s. mo_active (snd (ms_initialize_worker sys a s)) = mo_active s"
    "initialize_worker_modules sys prev as s = (True, s')"
  shows "mo_active s' = (if as = [] then mo_active s else last as)"
  using assms(2)
proof (induction as arbitrary: s)
  case (Cons a as)
  obtain ok s1 where i: "ms_initialize_worker sys a (s\<lparr>mo_active := a\<rparr>) = (ok, s1)" by fastforce
  have act: "mo_active s1 = a" using assms(1) [of a "s\<lparr>mo_active := a\<rparr>"] i by simp
  show ?case
  proof (cases "cm_initialize_worker (mo_mem s a)")
    case True
    then have "initialize_worker_modules sys prev as s1 = (True, s')"
      using Cons.prems i by (auto simp: Let_def split: if_splits)
    then show ?thesis using Cons.IH [of s1] act by simp
  next
    case False
    then have "initialize_worker_modules sys prev as (s\<lparr>mo_active := a\<rparr>) = (True, s')"
      using Cons.prems by (simp add: Let_def)
    then show ?thesis using Cons.IH [of "s\<lparr>mo_active := a\<rparr>"] by simp
  qed
qed simp

section \<open>Listeners are in the order of their priorities\<close>

text \<open>
  The reference: listeners with a higher priority come first, among equal ones the newest; those with the
  lowest priority come last, the oldest first.
\<close>

definition listeners_by_priority :: "listener list \<Rightarrow> listener list" where
  "listeners_by_priority ls =
     sort_key (\<lambda>l. - ls_priority l) (rev (filter (\<lambda>l. ls_priority l \<noteq> LAST_PRIORITY) ls)) @
     filter (\<lambda>l. ls_priority l = LAST_PRIORITY) ls"

definition priority_ok :: "listener \<Rightarrow> bool" where
  "priority_ok l \<longleftrightarrow> LAST_PRIORITY \<le> ls_priority l \<and> ls_priority l \<le> FIRST_PRIORITY"

lemma insert_before_insort: "insert_before l ls = insort_key (\<lambda>l. - ls_priority l) l ls"
  by (induction ls) auto

lemma insort_key_front: "\<forall>y \<in> set ys. f x \<le> f y \<Longrightarrow> insort_key f x ys = x # ys"
  by (cases ys) auto

lemma insort_key_append:
  "\<forall>y \<in> set ys. f x \<le> f y \<Longrightarrow> insort_key f x (xs @ ys) = insort_key f x xs @ ys"
  by (induction xs) (simp_all add: insort_key_front)

lemma insert_listener_step:
  assumes "priority_ok l" "\<forall>l \<in> set ls. priority_ok l"
  shows "insert_listener l (listeners_by_priority ls) = listeners_by_priority (ls @ [l])"
proof -
  let ?f = "\<lambda>l. - ls_priority l"
  let ?A = "sort_key ?f (rev (filter (\<lambda>l. ls_priority l \<noteq> LAST_PRIORITY) ls))"
  let ?B = "filter (\<lambda>l. ls_priority l = LAST_PRIORITY) ls"
  have le: "\<forall>y \<in> set (?A @ ?B). FIRST_PRIORITY = ls_priority l \<longrightarrow> ?f l \<le> ?f y"
    using assms(2) by (auto simp: priority_ok_def)
  have B: "\<forall>y \<in> set ?B. ?f l \<le> ?f y" using assms(1) by (auto simp: priority_ok_def)
  show ?thesis
  proof (cases "ls_priority l = LAST_PRIORITY")
    case True
    then show ?thesis by (simp add: insert_listener_def listeners_by_priority_def)
  next
    case False
    then have "insert_listener l (?A @ ?B) = insort_key ?f l (?A @ ?B)"
      using le insort_key_front [of "?A @ ?B" ?f l] by (auto simp: insert_listener_def insert_before_insort)
    also have "\<dots> = insort_key ?f l ?A @ ?B" using B by (rule insort_key_append)
    finally show ?thesis using False by (simp add: listeners_by_priority_def)
  qed
qed

text \<open>Listening with one listener after another, each for its module.\<close>

fun listen_each :: "string \<Rightarrow> listener list \<Rightarrow> mods \<Rightarrow> (bool \<times> mods) run" where
  "listen_each name [] s = Done (True, s)"
| "listen_each name (l # ls) s =
     run_bind (shuso_event_by_name_listen_with_priority name (ls_fn l) (ls_pd l) (ls_priority l) (s\<lparr>mo_active := ls_module l\<rparr>))
       (\<lambda>(ok, s). if ok then listen_each name ls s else Done (False, s))"

definition may_listen :: "registry \<Rightarrow> string \<Rightarrow> string \<Rightarrow> listener \<Rightarrow> bool" where
  "may_listen rg m e l \<longleftrightarrow> priority_ok l \<and>
     (\<exists>sub. find_module_ptr (ls_module l) rg = Some sub \<and> subscribes_to_event (event_full_name m e) sub)"

lemma listener_fields [simp]:
  "\<lparr>ls_module = ls_module l, ls_fn = ls_fn l, ls_pd = ls_pd l, ls_priority = ls_priority l\<rparr> = l"
  by (cases l) simp

lemma listen_one:
  assumes "take 1 name \<noteq> ''~''" "event_find name (mo_reg s) = Ret (m, e)" "rg_events (mo_reg s) (m, e) = Some ev"
    "le_initialized ev" "may_listen (mo_reg s) m e l"
  shows "shuso_event_by_name_listen_with_priority name (ls_fn l) (ls_pd l) (ls_priority l) (s\<lparr>mo_active := ls_module l\<rparr>) =
    Done (True, s\<lparr>mo_active := ls_module l, mo_reg := (mo_reg s)\<lparr>rg_events := (rg_events (mo_reg s))((m, e) \<mapsto>
      ev\<lparr>le_listeners := insert_listener l (le_listeners ev)\<rparr>)\<rparr>\<rparr>)"
  using assms
  by (auto simp: shuso_event_by_name_listen_with_priority_def event_listen_continue_def add_listener_def may_listen_def
      priority_ok_def Let_def)

lemma event_find_upd:
  "event_find name rg = Ret (m, e) \<Longrightarrow> event_find name (rg\<lparr>rg_events := (rg_events rg)((m, e) \<mapsto> ev)\<rparr>) = Ret (m, e)"
  by (auto simp: event_find_def split: list.splits if_splits)

lemma listen_each_step:
  assumes "take 1 name \<noteq> ''~''" "event_find name (mo_reg s) = Ret (m, e)"
    "rg_events (mo_reg s) (m, e) = Some ev" "le_initialized ev" "le_listeners ev = listeners_by_priority done"
    "\<forall>l \<in> set done. priority_ok l" "\<forall>l \<in> set ls. may_listen (mo_reg s) m e l"
  shows "\<exists>s' ev'. listen_each name ls s = Done (True, s') \<and> rg_events (mo_reg s') (m, e) = Some ev' \<and>
    le_listeners ev' = listeners_by_priority (done @ ls)"
  using assms
proof (induction ls arbitrary: s ev "done")
  case (Cons l ls)
  let ?ev = "ev\<lparr>le_listeners := insert_listener l (le_listeners ev)\<rparr>"
  let ?s = "s\<lparr>mo_active := ls_module l, mo_reg := (mo_reg s)\<lparr>rg_events := (rg_events (mo_reg s))((m, e) \<mapsto> ?ev)\<rparr>\<rparr>"
  have l: "may_listen (mo_reg s) m e l" "priority_ok l" using Cons.prems(7) by (auto simp: may_listen_def)
  have ins: "le_listeners ?ev = listeners_by_priority (done @ [l])"
    using insert_listener_step [OF l(2) Cons.prems(6)] Cons.prems(5) by simp
  have "\<exists>s' ev'. listen_each name ls ?s = Done (True, s') \<and> rg_events (mo_reg s') (m, e) = Some ev' \<and>
      le_listeners ev' = listeners_by_priority ((done @ [l]) @ ls)"
    by (rule Cons.IH [where ev = ?ev])
      (use Cons.prems l ins event_find_upd in \<open>auto simp: may_listen_def find_module_ptr_def\<close>)
  then show ?case using listen_one [OF Cons.prems(1-4) l(1)] by simp
qed auto

text \<open>C22: The list of listeners of an event, kept up to date by inserting each new one in place, is what the
  reference sorting gives: by descending priority, the newest first among equal ones, and the
  lowest priority last in the order of registration.\<close>

theorem listeners_in_priority_order:
  assumes "take 1 name \<noteq> ''~''" "event_find name (mo_reg s) = Ret (m, e)"
    "rg_events (mo_reg s) (m, e) = Some ev" "le_initialized ev" "le_listeners ev = []"
    "\<forall>l \<in> set ls. may_listen (mo_reg s) m e l"
  shows "\<exists>s' ev'. listen_each name ls s = Done (True, s') \<and> rg_events (mo_reg s') (m, e) = Some ev' \<and>
    le_listeners ev' = listeners_by_priority ls"
  using listen_each_step [OF assms(1-4), of "[]"] assms(5,6) by (simp add: listeners_by_priority_def)

definition example_listening :: mods where
  "example_listening = (with_user ''clock:tick'')\<lparr>mo_reg := (example_registry True)\<lparr>rg_events :=
     [(''clock'', ''tick'') \<mapsto> \<lparr>le_initialized = True, le_ptr = 9, le_data_type = None, le_handler = 0, le_listeners = []\<rparr>]\<rparr>\<rparr>"

definition example_listeners :: "listener list" where
  "example_listeners = map (\<lambda>(fn, p). \<lparr>ls_module = 3, ls_fn = fn, ls_pd = 0, ls_priority = p\<rparr>)
     [(11, 0), (12, - 127), (13, 127), (14, 0)]"

theorem listeners_in_priority_order_witness:
  "\<exists>s' ev'. listen_each ''clock:tick'' example_listeners example_listening = Done (True, s') \<and>
    rg_events (mo_reg s') (''clock'', ''tick'') = Some ev' \<and>
    le_listeners ev' = listeners_by_priority example_listeners"
proof (rule listeners_in_priority_order [where
    ev = "\<lparr>le_initialized = True, le_ptr = 9, le_data_type = None, le_handler = 0, le_listeners = []\<rparr>"])
  show "event_find ''clock:tick'' (mo_reg example_listening) = Ret (''clock'', ''tick'')"
    by (simp add: event_find_def example_listening_def is_word_char_def is_alnum_def is_digit_def)
qed (simp_all add: example_listening_def may_listen_def priority_ok_def LAST_PRIORITY_def FIRST_PRIORITY_def
  example_registry_def find_module_ptr_def subscribes_to_event_def event_full_name_def example_subscription_def
  example_listeners_def)

lemma listeners_by_priority_example: "map ls_fn (listeners_by_priority example_listeners) = [13, 14, 11, 12]"
  by (simp add: listeners_by_priority_def LAST_PRIORITY_def example_listeners_def)

end
