(* ===== verification/Config.thy ===== *)
theory Config
  imports Module_System Instring Startup
begin

text \<open>
  The configuration (\<^verbatim>\<open>config.c\<close>): C structures made from the settings that Lua has
  parsed, reading values of settings, the copies for the workers, and the settings of the
  core module (\<^verbatim>\<open>core.c\<close>).
\<close>

section \<open>State\<close>

text \<open>
  \<^verbatim>\<open>shuso_setting_t\<close>, which does not change once it is made.  A pointer to one is the record
  itself; a pointer to a block is its number, 0 for the block of the root and \<open>i + 1\<close> for that of setting
  \<open>i\<close>.
\<close>

record setting =
  st_name :: string
  st_module :: string
  st_raw_name :: string
  st_path :: string
  st_index :: int
  st_parent_block :: nat
  st_block :: "nat option"

text \<open>
  \<^verbatim>\<open>shuso_setting_instrings_t\<close>: \<^verbatim>\<open>merged\<close> points to one of the other three, so that they share
  their cached values.
\<close>

datatype merge_source = From_local | From_inherited | From_defaults

record setting_instrings =
  si_local :: "instring list"
  si_inherited :: "instring list"
  si_defaults :: "instring list"
  si_merged :: merge_source

datatype merge_type =
    SHUSO_SETTING_MERGED | SHUSO_SETTING_LOCAL | SHUSO_SETTING_INHERITED | SHUSO_SETTING_DEFAULT
  | Other_merge_type int

datatype value_type =
    SHUSO_SETTING_BOOLEAN | SHUSO_SETTING_INTEGER | SHUSO_SETTING_NUMBER | SHUSO_SETTING_SIZE
  | SHUSO_SETTING_STRING | SHUSO_SETTING_BUFFER | Other_value_type int

datatype setting_value =
    Boolean_value bool | Integer_value int | Number_value "64 word" | Size_value nat | String_value string
  | Buffer_value buffer

text \<open>
  The configuration of a process with the modules: the requests its pool still serves, the array of
  instrings, the strings referred to from C, the settings and the contexts of the blocks;
  then \<^verbatim>\<open>ctx.config->blocks\<close> and the settings of the core module, where a value
  that may be undecided is an integer.
\<close>

record cfg =
  cg_mods :: mods
  cg_left :: nat
  cg_instrings :: "setting_instrings list"
  cg_reg :: "nat \<rightharpoonup> string"
  cg_settings :: "setting list"
  cg_contexts :: "nat \<rightharpoonup> context_list"
  cg_root :: "nat option"
  cg_blocks :: "nat list"
  cg_workers :: int
  cg_io_uring :: int
  cg_entries :: int
  cg_sqpoll :: bool
  cg_sqpoll_idle :: int

text \<open>A setting in Lua, with the number of its parent's block and its values of each kind.\<close>

record lua_setting =
  gs_name :: string
  gs_module :: string
  gs_raw_name :: string
  gs_path :: string
  gs_parent :: nat
  gs_block :: bool
  gs_local :: "lua_token list list lua"
  gs_defaults :: "lua_token list list lua"
  gs_inherited :: "lua_token list list lua"

text \<open>
  What the Lua part of the configuration (\<^verbatim>\<open>config.lua\<close>), Lua's \<^verbatim>\<open>string.match\<close>, the modules and the
  system supply.  A number of seconds has the bits of its double; \<open>ge_millis\<close> multiplies it by
  1000 and makes it an \<^verbatim>\<open>int\<close>.
\<close>

record cfg_env =
  ge_instring :: instring_env
  ge_config :: config_env
  ge_sys :: mod_sys
  ge_core :: addr
  ge_lua_error :: string
  ge_instring_error :: string
  ge_error_text :: "int \<Rightarrow> string \<Rightarrow> string"
  ge_block_error_text :: "nat \<Rightarrow> string \<Rightarrow> string"
  ge_parsed :: bool
  ge_parse :: "unit lua"
  ge_handle :: "unit lua"
  ge_get_root :: "unit lua"
  ge_settings :: "lua_setting list"
  ge_has_init :: "addr \<Rightarrow> bool"
  ge_init :: "addr \<Rightarrow> nat \<Rightarrow> cfg \<Rightarrow> bool \<times> cfg"
  ge_find_setting :: "nat \<Rightarrow> string \<Rightarrow> setting lua"
  ge_match :: "string \<Rightarrow> string \<Rightarrow> bool"
  ge_match_path :: "nat \<Rightarrow> string \<Rightarrow> bool"
  ge_seconds :: "string \<Rightarrow> 64 word option"
  ge_millis :: "64 word \<Rightarrow> int"
  ge_cores :: int
  ge_root :: bool

abbreviation upd_mods :: "(mods \<Rightarrow> mods) \<Rightarrow> cfg \<Rightarrow> cfg" where
  "upd_mods f g \<equiv> g\<lparr>cg_mods := f (cg_mods g)\<rparr>"

abbreviation cg_error :: "string \<Rightarrow> cfg \<Rightarrow> cfg" where
  "cg_error msg g \<equiv> upd_mods (mo_error msg) g"

text \<open>Steps one after another, until one fails.\<close>

fun run_steps :: "(cfg \<Rightarrow> (bool \<times> cfg) run) list \<Rightarrow> cfg \<Rightarrow> (bool \<times> cfg) run" where
  "run_steps [] g = Done (True, g)"
| "run_steps (f # fs) g = run_bind (f g) (\<lambda>(ok, g). if ok then run_steps fs g else Done (False, g))"

section \<open>Calls and errors\<close>

text \<open>
  \<^verbatim>\<open>luaS_pcall\<close> logs a Lua error even while errors are being captured.  A result of nil is a failure, with an
  error set when the call has room for a message; the message becomes the format itself, so
  that a percent sign in it makes \<^verbatim>\<open>vsnprintf\<close> read arguments that are not there (\<open>Abort\<close>).
\<close>

definition lua_error :: "string \<Rightarrow> shuso \<Rightarrow> shuso" where
  "lua_error msg S =
     (let nolog = error_do_not_log S;
          S = snd (shuso_set_error (''Lua error: '' @ msg) (S\<lparr>error_do_not_log := False\<rparr>))
      in S\<lparr>error_do_not_log := nolog\<rparr>)"

definition set_error_format :: "string \<Rightarrow> shuso \<Rightarrow> (bool \<times> shuso) run" where
  "set_error_format fmt S = c_assert (CHR 0x25 \<notin> set fmt) (Done (shuso_set_error fmt S))"

definition luaS_pcall_config_method :: "nat \<Rightarrow> string \<Rightarrow> 'a lua \<Rightarrow> shuso \<Rightarrow> ('a option \<times> shuso) run" where
  "luaS_pcall_config_method nret msg r S =
     (case r of
        Ret x \<Rightarrow> Done (Some x, S)
      | Raise \<Rightarrow> Done (None, lua_error msg S)
      | Nil err \<Rightarrow>
          if nret \<ge> 2 then run_bind (set_error_format err S) (\<lambda>(_, S). Done (None, S)) else Done (None, S))"

text \<open>A call of a method whose value is not used.\<close>

definition config_call :: "cfg_env \<Rightarrow> unit lua \<Rightarrow> cfg \<Rightarrow> (bool \<times> cfg) run" where
  "config_call env r g =
     run_bind (luaS_pcall_config_method 2 (ge_lua_error env) r (mo_S (cg_mods g))) (\<lambda>(r, S).
       Done (r \<noteq> None, upd_mods (\<lambda>s. s\<lparr>mo_S := S\<rparr>) g))"

definition shuso_config_setting_error :: "cfg_env \<Rightarrow> setting \<Rightarrow> string \<Rightarrow> cfg \<Rightarrow> (bool \<times> cfg) run" where
  "shuso_config_setting_error env s msg g =
     run_bind (set_error_format (ge_error_text env (st_index s) msg) (mo_S (cg_mods g))) (\<lambda>(_, S).
       Done (False, upd_mods (\<lambda>s. s\<lparr>mo_S := S\<rparr>) g))"

definition shuso_config_block_error :: "cfg_env \<Rightarrow> nat \<Rightarrow> string \<Rightarrow> cfg \<Rightarrow> (bool \<times> cfg) run" where
  "shuso_config_block_error env b msg g =
     run_bind (set_error_format (ge_block_error_text env b msg) (mo_S (cg_mods g))) (\<lambda>(_, S).
       Done (False, upd_mods (\<lambda>s. s\<lparr>mo_S := S\<rparr>) g))"

section \<open>Reading values\<close>

fun merge_location :: "merge_type \<Rightarrow> setting_instrings \<Rightarrow> merge_source option" where
  "merge_location SHUSO_SETTING_MERGED si = Some (si_merged si)"
| "merge_location SHUSO_SETTING_LOCAL si = Some From_local"
| "merge_location SHUSO_SETTING_INHERITED si = Some From_inherited"
| "merge_location SHUSO_SETTING_DEFAULT si = Some From_defaults"
| "merge_location (Other_merge_type n) si = None"

fun instrings_at :: "merge_source \<Rightarrow> setting_instrings \<Rightarrow> instring list" where
  "instrings_at From_local si = si_local si"
| "instrings_at From_inherited si = si_inherited si"
| "instrings_at From_defaults si = si_defaults si"

fun set_instrings_at :: "merge_source \<Rightarrow> instring list \<Rightarrow> setting_instrings \<Rightarrow> setting_instrings" where
  "set_instrings_at From_local l si = si\<lparr>si_local := l\<rparr>"
| "set_instrings_at From_inherited l si = si\<lparr>si_inherited := l\<rparr>"
| "set_instrings_at From_defaults l si = si\<lparr>si_defaults := l\<rparr>"

definition as_value :: "('a \<Rightarrow> setting_value) \<Rightarrow> ((bool \<times> 'a option) \<times> instring_state) run \<Rightarrow>
   ((bool \<times> setting_value option) \<times> instring_state) run" where
  "as_value f m = run_bind m (\<lambda>((ok, v), x). Done ((ok, map_option f v), x))"

fun instring_value ::
  "instring_env \<Rightarrow> value_type \<Rightarrow> instring_state \<Rightarrow> ((bool \<times> setting_value option) \<times> instring_state) run"
where
  "instring_value env SHUSO_SETTING_BOOLEAN x = as_value Boolean_value (shuso_instring_boolean_value env True x)"
| "instring_value env SHUSO_SETTING_INTEGER x = as_value Integer_value (shuso_instring_integer_value env True x)"
| "instring_value env SHUSO_SETTING_NUMBER x = as_value Number_value (shuso_instring_number_value env True x)"
| "instring_value env SHUSO_SETTING_SIZE x = as_value Size_value (shuso_instring_size_value env True x)"
| "instring_value env SHUSO_SETTING_STRING x = as_value String_value (shuso_instring_string_value env True x)"
| "instring_value env SHUSO_SETTING_BUFFER x =
     run_bind (shuso_instring_buffer_value env x) (\<lambda>((ok, b), x). Done ((ok, Some (Buffer_value b)), x))"
| "instring_value env (Other_value_type n) x = Abort"

text \<open>
  \<^verbatim>\<open>shuso_setting_value\<close>.  The root setting has index -1, which is outside the array.
\<close>

definition shuso_setting_value ::
  "cfg_env \<Rightarrow> setting option \<Rightarrow> nat \<Rightarrow> merge_type \<Rightarrow> value_type \<Rightarrow> cfg \<Rightarrow> ((bool \<times> setting_value option) \<times> cfg) run"
where
  "shuso_setting_value env setting nval mt vt g =
     (case setting of
        None \<Rightarrow> Done ((False, None), g)
      | Some st \<Rightarrow>
          c_assert (0 \<le> st_index st \<and> nat (st_index st) < length (cg_instrings g))
            (let i = nat (st_index st); si = cg_instrings g ! i in
             case merge_location mt si of
               None \<Rightarrow> Abort
             | Some loc \<Rightarrow>
                 if length (instrings_at loc si) \<le> nval then Done ((False, None), g)
                 else
                   run_bind (instring_value (ge_instring env) vt (instrings_at loc si ! nval, cg_reg g)) (\<lambda>(r, s, reg).
                     Done (r, g\<lparr>cg_instrings := (cg_instrings g)[i :=
                         set_instrings_at loc ((instrings_at loc si)[nval := s]) si], cg_reg := reg\<rparr>))))"

text \<open>The functions for one type each; their number of the value is an \<^verbatim>\<open>int\<close> that becomes a \<^verbatim>\<open>size_t\<close>.\<close>

definition size_of_int :: "int \<Rightarrow> nat" where
  "size_of_int n = nat (n mod 2 ^ 64)"

definition shuso_setting_boolean :: "cfg_env \<Rightarrow> setting option \<Rightarrow> int \<Rightarrow> cfg \<Rightarrow> ((bool \<times> setting_value option) \<times> cfg) run" where
  "shuso_setting_boolean env st n g = shuso_setting_value env st (size_of_int n) SHUSO_SETTING_MERGED SHUSO_SETTING_BOOLEAN g"

definition shuso_setting_integer :: "cfg_env \<Rightarrow> setting option \<Rightarrow> int \<Rightarrow> cfg \<Rightarrow> ((bool \<times> setting_value option) \<times> cfg) run" where
  "shuso_setting_integer env st n g = shuso_setting_value env st (size_of_int n) SHUSO_SETTING_MERGED SHUSO_SETTING_INTEGER g"

definition shuso_setting_number :: "cfg_env \<Rightarrow> setting option \<Rightarrow> int \<Rightarrow> cfg \<Rightarrow> ((bool \<times> setting_value option) \<times> cfg) run" where
  "shuso_setting_number env st n g = shuso_setting_value env st (size_of_int n) SHUSO_SETTING_MERGED SHUSO_SETTING_NUMBER g"

definition shuso_setting_size :: "cfg_env \<Rightarrow> setting option \<Rightarrow> int \<Rightarrow> cfg \<Rightarrow> ((bool \<times> setting_value option) \<times> cfg) run" where
  "shuso_setting_size env st n g = shuso_setting_value env st (size_of_int n) SHUSO_SETTING_MERGED SHUSO_SETTING_SIZE g"

definition shuso_setting_string :: "cfg_env \<Rightarrow> setting option \<Rightarrow> int \<Rightarrow> cfg \<Rightarrow> ((bool \<times> setting_value option) \<times> cfg) run" where
  "shuso_setting_string env st n g = shuso_setting_value env st (size_of_int n) SHUSO_SETTING_MERGED SHUSO_SETTING_STRING g"

definition shuso_setting_buffer :: "cfg_env \<Rightarrow> setting option \<Rightarrow> int \<Rightarrow> cfg \<Rightarrow> ((bool \<times> setting_value option) \<times> cfg) run" where
  "shuso_setting_buffer env st n g = shuso_setting_value env st (size_of_int n) SHUSO_SETTING_MERGED SHUSO_SETTING_BUFFER g"

definition shuso_setting_time_sec :: "cfg_env \<Rightarrow> setting option \<Rightarrow> int \<Rightarrow> cfg \<Rightarrow> (64 word option \<times> cfg) run" where
  "shuso_setting_time_sec env st n g =
     run_bind (shuso_setting_value env st (size_of_int n) SHUSO_SETTING_MERGED SHUSO_SETTING_STRING g) (\<lambda>((ok, v), g).
       Done (case v of Some (String_value str) \<Rightarrow> if ok then ge_seconds env str else None | _ \<Rightarrow> None, g))"

text \<open>
  \<^verbatim>\<open>shuso_setting_string_matches\<close> takes the index of the setting before it tests the setting, and lets the number
  of the value be as large as the number of values.
\<close>

definition shuso_setting_string_matches ::
  "cfg_env \<Rightarrow> setting option \<Rightarrow> int \<Rightarrow> string \<Rightarrow> cfg \<Rightarrow> (bool \<times> cfg) run"
where
  "shuso_setting_string_matches env setting n pat g =
     (case setting of
        None \<Rightarrow> Abort
      | Some st \<Rightarrow>
          c_assert (0 \<le> st_index st \<and> nat (st_index st) < length (cg_instrings g))
            (let i = nat (st_index st); si = cg_instrings g ! i; loc = si_merged si; ins = instrings_at loc si in
             if length ins < size_of_int n then Done (False, g)
             else
               c_assert (size_of_int n < length ins)
                 (run_bind (shuso_instring_string_value (ge_instring env) False (ins ! size_of_int n, cg_reg g))
                   (\<lambda>((ok, _), s, reg).
                     let g = g\<lparr>cg_instrings := (cg_instrings g)[i := set_instrings_at loc (ins[size_of_int n := s]) si],
                               cg_reg := reg\<rparr>
                     in if \<not> ok then Done (False, g)
                        else
                          (case cv_string_lua_ref s of
                             None \<Rightarrow> Abort
                           | Some r \<Rightarrow>
                               (case reg r of None \<Rightarrow> Abort | Some str \<Rightarrow> Done (ge_match env str pat, g)))))))"

definition shuso_setting_values_count :: "setting \<Rightarrow> merge_type \<Rightarrow> cfg \<Rightarrow> nat run" where
  "shuso_setting_values_count st mt g =
     c_assert (0 \<le> st_index st \<and> nat (st_index st) < length (cg_instrings g))
       (let si = cg_instrings g ! nat (st_index st) in
        case merge_location mt si of None \<Rightarrow> Abort | Some loc \<Rightarrow> Done (length (instrings_at loc si)))"

definition shuso_setting :: "cfg_env \<Rightarrow> nat \<Rightarrow> string \<Rightarrow> cfg \<Rightarrow> (setting option \<times> cfg) run" where
  "shuso_setting env b name g =
     run_bind (luaS_pcall_config_method 1 (ge_lua_error env) (ge_find_setting env b name) (mo_S (cg_mods g)))
       (\<lambda>(r, S). Done (r, upd_mods (\<lambda>s. s\<lparr>mo_S := S\<rparr>) g))"

definition shuso_setting_parent_block :: "setting \<Rightarrow> nat" where
  "shuso_setting_parent_block st = st_parent_block st"

definition shuso_config_value_error :: "cfg_env \<Rightarrow> setting option \<Rightarrow> int \<Rightarrow> cfg \<Rightarrow> (bool \<times> cfg) run" where
  "shuso_config_value_error env setting n g =
     run_bind (shuso_setting_string env setting n g) (\<lambda>((ok, v), g).
       case setting of
         None \<Rightarrow> Abort
       | Some st \<Rightarrow>
           shuso_config_setting_error env st
             (case v of Some (String_value str) \<Rightarrow> ''invalid value '' @ quoted str
              | _ \<Rightarrow> ''missing value #'' @ decimal (n + 1)) g)"

section \<open>C structures from Lua\<close>

definition merged_source :: "instring list \<Rightarrow> instring list \<Rightarrow> merge_source" where
  "merged_source local inherited =
     (if local \<noteq> [] then From_local else if inherited \<noteq> [] then From_inherited else From_defaults)"

text \<open>
  The conversion of the values of one kind, with its errors captured and reported for the setting.  Here too
  the message is taken as a format.
\<close>

definition finish_capture ::
  "cfg_env \<Rightarrow> setting \<Rightarrow> int \<Rightarrow> instring list option \<Rightarrow> shuso \<Rightarrow> cfg \<Rightarrow> (instring list option \<times> cfg) run"
where
  "finish_capture env st cnt ins S g =
     (let (err, S) = shuso_error_capture_finish cnt S; g = upd_mods (\<lambda>s. s\<lparr>mo_S := S\<rparr>) g
      in case err of
           Some msg \<Rightarrow>
             run_bind (c_assert (CHR 0x25 \<notin> set msg) (shuso_config_setting_error env st msg g)) (\<lambda>(_, g). Done (None, g))
         | None \<Rightarrow> c_assert (ins \<noteq> None) (Done (ins, g)))"

definition setting_instrings_to_c ::
  "cfg_env \<Rightarrow> setting \<Rightarrow> lua_token list list lua \<Rightarrow> cfg \<Rightarrow> (instring list option \<times> cfg) run"
where
  "setting_instrings_to_c env st r g =
     (let (cnt, S) = shuso_error_capture_start (mo_S (cg_mods g)) in
      run_bind (luaS_pcall_config_method 2 (ge_lua_error env) r S) (\<lambda>(v, S).
        case r of
          Raise \<Rightarrow> Abort
        | Nil msg \<Rightarrow> finish_capture env st cnt None (snd (shuso_set_error msg S)) g
        | Ret toks \<Rightarrow>
            run_bind (luaS_instrings_lua_to_c (ge_instring env) (ge_config env) (nat (st_index st)) toks (cg_left g, cg_reg g))
              (\<lambda>(ins, left, reg). finish_capture env st cnt ins
                 (if ins = None then snd (shuso_set_error (ge_instring_error env) S) else S)
                 (g\<lparr>cg_left := left, cg_reg := reg\<rparr>))))"

text \<open>The parts of \<^verbatim>\<open>lua_setting_to_c_struct\<close>: the block of the setting, if it has one, and its values.\<close>

definition setting_block_to_c :: "cfg_env \<Rightarrow> lua_setting \<Rightarrow> nat \<Rightarrow> cfg \<Rightarrow> bool \<times> cfg" where
  "setting_block_to_c env l i g =
     (if \<not> gs_block l then (True, g)
      else
        (case pal (cg_left g) of
           None \<Rightarrow> (False, cg_error ''failed to allocate memory for config block'' g)
         | Some left \<Rightarrow>
             (let g = g\<lparr>cg_left := left\<rparr>;
                  (ok, cl, s) = shuso_context_list_initialize (ge_sys env) (ge_core env) 0 (cg_mods g);
                  g = g\<lparr>cg_mods := s\<rparr>
              in if \<not> ok then (False, cg_error ''unable to initialize config block module context list'' g)
                 else (True, g\<lparr>cg_contexts := (cg_contexts g)(i + 1 \<mapsto> cl)\<rparr>))))"

definition setting_values_to_c :: "cfg_env \<Rightarrow> setting \<Rightarrow> lua_setting \<Rightarrow> cfg \<Rightarrow> (setting_instrings option \<times> cfg) run" where
  "setting_values_to_c env st l g =
     run_bind (setting_instrings_to_c env st (gs_local l) g) (\<lambda>(local, g).
       case local of None \<Rightarrow> Done (None, g) | Some local \<Rightarrow>
     run_bind (setting_instrings_to_c env st (gs_defaults l) g) (\<lambda>(defaults, g).
       case defaults of None \<Rightarrow> Done (None, g) | Some defaults \<Rightarrow>
     run_bind (setting_instrings_to_c env st (gs_inherited l) g) (\<lambda>(inherited, g).
       case inherited of None \<Rightarrow> Done (None, g) | Some inherited \<Rightarrow>
         Done (Some \<lparr>si_local = local, si_inherited = inherited, si_defaults = defaults,
           si_merged = merged_source local inherited\<rparr>, g))))"

definition c_setting :: "lua_setting \<Rightarrow> nat \<Rightarrow> setting" where
  "c_setting l i = \<lparr>st_name = gs_name l, st_module = gs_module l, st_raw_name = gs_raw_name l, st_path = gs_path l,
     st_index = int i, st_parent_block = gs_parent l, st_block = (if gs_block l then Some (i + 1) else None)\<rparr>"

text \<open>The block of the parent must have been made.\<close>

definition lua_setting_to_c_struct :: "cfg_env \<Rightarrow> lua_setting \<Rightarrow> nat \<Rightarrow> cfg \<Rightarrow> (bool \<times> cfg) run" where
  "lua_setting_to_c_struct env l i g =
     (case pal (cg_left g) of
        None \<Rightarrow> Done (False, cg_error ''failed to alloc config setting'' g)
      | Some left \<Rightarrow>
          c_assert (cg_contexts g (gs_parent l) \<noteq> None)
           (case setting_block_to_c env l i (g\<lparr>cg_left := left\<rparr>) of
              (False, g) \<Rightarrow> Done (False, g)
            | (True, g) \<Rightarrow>
                c_assert (i < length (cg_instrings g))
                  (run_bind (setting_values_to_c env (c_setting l i) l g) (\<lambda>(si, g).
                     case si of
                       None \<Rightarrow> Done (False, g)
                     | Some si \<Rightarrow>
                         Done (True, g\<lparr>cg_settings := cg_settings g @ [c_setting l i], cg_instrings := (cg_instrings g)[i := si]\<rparr>)))))"

fun settings_to_c :: "cfg_env \<Rightarrow> nat \<Rightarrow> lua_setting list \<Rightarrow> cfg \<Rightarrow> (bool \<times> cfg) run" where
  "settings_to_c env i [] g = Done (True, g)"
| "settings_to_c env i (l # ls) g =
     run_bind (lua_setting_to_c_struct env l i g) (\<lambda>(ok, g).
       if \<not> ok then Done (False, g) else settings_to_c env (i + 1) ls g)"

text \<open>The modules set up their part of a block, one after another.\<close>

fun init_modules :: "cfg_env \<Rightarrow> nat \<Rightarrow> addr list \<Rightarrow> cfg \<Rightarrow> bool \<times> cfg" where
  "init_modules env b [] g = (True, g)"
| "init_modules env b (a # as) g =
     (let errcount = error_count (mo_S (cg_mods g));
          (ok, g) = (if ge_has_init env a then ge_init env a b g else (True, g))
      in if \<not> ok then
           (False, if error_count (mo_S (cg_mods g)) = errcount
              then cg_error (''Module '' @ name_or_null (mo_mem (cg_mods g) a) @
                '' failed to initialize config, but reported no error'') g
              else g)
         else if error_count (mo_S (cg_mods g)) > errcount then (False, g)
         else init_modules env b as g)"

fun init_blocks :: "cfg_env \<Rightarrow> nat list \<Rightarrow> cfg \<Rightarrow> bool \<times> cfg" where
  "init_blocks env [] g = (True, g)"
| "init_blocks env (b # bs) g =
     (let (ok, g) = init_modules env b (mo_array (cg_mods g)) g in
      if \<not> ok then (False, g) else init_blocks env bs g)"

text \<open>The blocks in the order of \<^verbatim>\<open>all_blocks\<close>.\<close>

definition all_blocks :: "lua_setting list \<Rightarrow> nat list" where
  "all_blocks ls = 0 # map (\<lambda>i. i + 1) (filter (\<lambda>i. gs_block (ls ! i)) [0..<length ls])"

definition no_instrings :: setting_instrings where
  "no_instrings = \<lparr>si_local = [], si_inherited = [], si_defaults = [], si_merged = From_local\<rparr>"

text \<open>The root block and the root setting, and the array of instrings.\<close>

definition generate_root :: "cfg_env \<Rightarrow> cfg \<Rightarrow> bool \<times> cfg" where
  "generate_root env g =
     (case pal (cg_left g) of
        None \<Rightarrow> (False, cg_error ''failed to allocate memory for config root block'' g)
      | Some left \<Rightarrow>
          (let g = g\<lparr>cg_left := left\<rparr>;
               (ok, cl, s) = shuso_context_list_initialize (ge_sys env) (ge_core env) 0 (cg_mods g);
               g = g\<lparr>cg_mods := s\<rparr>
           in if \<not> ok then (False, cg_error ''unable to initialize root block module context list'' g)
              else
                (let g = g\<lparr>cg_contexts := (cg_contexts g)(0 \<mapsto> cl)\<rparr> in
                 case pal (cg_left g) of
                   None \<Rightarrow> (False, cg_error ''failed to allocate memory for config root'' g)
                 | Some left \<Rightarrow>
                     (let g = g\<lparr>cg_left := left\<rparr> in
                      if ge_settings env = [] then (True, g\<lparr>cg_instrings := []\<rparr>)
                      else
                        (case pal (cg_left g) of
                           None \<Rightarrow> (False, cg_error ''failed to allocate memory for settings instring array'' (g\<lparr>cg_instrings := []\<rparr>))
                         | Some left \<Rightarrow>
                             (True, g\<lparr>cg_left := left, cg_instrings := replicate (length (ge_settings env)) no_instrings\<rparr>))))))"

definition generate_blocks :: "cfg_env \<Rightarrow> cfg \<Rightarrow> bool \<times> cfg" where
  "generate_blocks env g =
     (let g = g\<lparr>cg_root := Some 0\<rparr> in
      case pal (cg_left g) of
        None \<Rightarrow> (False, cg_error ''failed to allocate config block array'' g)
      | Some left \<Rightarrow> (True, g\<lparr>cg_left := left, cg_blocks := all_blocks (ge_settings env)\<rparr>))"

definition shuso_config_system_generate :: "cfg_env \<Rightarrow> cfg \<Rightarrow> (bool \<times> cfg) run" where
  "shuso_config_system_generate env g =
     run_steps
       [\<lambda>g. if ge_parsed env then Done (True, g) else config_call env (ge_parse env) g,
        config_call env (ge_handle env),
        config_call env (ge_get_root env),
        \<lambda>g. Done (generate_root env g),
        settings_to_c env 0 (ge_settings env),
        \<lambda>g. Done (init_blocks env (all_blocks (ge_settings env)) g),
        \<lambda>g. c_assert (cg_root g = None) (config_call env (ge_get_root env) g),
        \<lambda>g. Done (generate_blocks env g)] g"

section \<open>Copies for a worker\<close>

text \<open>
  \<^verbatim>\<open>config_initialize_worker\<close>: the array is stored only when all of it has been copied.
\<close>

fun copy_settings :: "setting_instrings list \<Rightarrow> nat \<Rightarrow> (setting_instrings list option \<times> nat) run" where
  "copy_settings [] left = Done (Some [], left)"
| "copy_settings (si # sis) left =
     run_bind (shuso_instrings_copy_for_worker (si_local si) left) (\<lambda>(local, left).
       case local of None \<Rightarrow> Done (None, left) | Some local \<Rightarrow>
     run_bind (shuso_instrings_copy_for_worker (si_defaults si) left) (\<lambda>(defaults, left).
       case defaults of None \<Rightarrow> Done (None, left) | Some defaults \<Rightarrow>
     run_bind (shuso_instrings_copy_for_worker (si_inherited si) left) (\<lambda>(inherited, left).
       case inherited of None \<Rightarrow> Done (None, left) | Some inherited \<Rightarrow>
     run_bind (copy_settings sis left) (\<lambda>(rest, left). Done (map_option ((#)
       \<lparr>si_local = local, si_inherited = inherited, si_defaults = defaults, si_merged = merged_source local inherited\<rparr>) rest, left)))))"

definition config_initialize_worker :: "cfg_env \<Rightarrow> cfg \<Rightarrow> cfg \<Rightarrow> (bool \<times> cfg) run" where
  "config_initialize_worker env manager g =
     (let sis = cg_instrings manager; g = g\<lparr>cg_instrings := []\<rparr> in
      if sis = [] then Done (True, g)
      else
        (case pal (cg_left g) of
           None \<Rightarrow> Done (False, cg_error ''failed to allocate memory for settings instrings array'' g)
         | Some left \<Rightarrow>
             run_bind (copy_settings sis left) (\<lambda>(r, left).
               case r of
                 None \<Rightarrow> Done (False, cg_error (ge_instring_error env) (g\<lparr>cg_left := left\<rparr>))
               | Some sis \<Rightarrow> Done (True, g\<lparr>cg_left := left, cg_instrings := sis\<rparr>))))"

section \<open>The settings of the core module\<close>

definition SHUSO_MAYBE :: int where "SHUSO_MAYBE = 2"

definition core_config_workers :: "cfg_env \<Rightarrow> nat \<Rightarrow> cfg \<Rightarrow> (bool \<times> cfg) run" where
  "core_config_workers env b g =
     run_bind (shuso_setting env b ''workers'' g) (\<lambda>(st, g).
     run_bind (shuso_setting_integer env st 0 g) (\<lambda>((ok, v), g).
       case (ok, v) of
         (True, Some (Integer_value n)) \<Rightarrow>
           if n < 0 then shuso_config_setting_error env (the st) (''invalid value '' @ decimal n) g
           else if n > SHUTTLESOCK_MAX_WORKERS
           then shuso_config_setting_error env (the st) (''value cannot exceed '' @ decimal SHUTTLESOCK_MAX_WORKERS) g
           else Done (True, g\<lparr>cg_workers := n\<rparr>)
       | _ \<Rightarrow>
     run_bind (shuso_setting_string env st 0 g) (\<lambda>((ok, v), g).
       if \<not> ok then shuso_config_value_error env st 0 g
       else
     run_bind (shuso_setting_string_matches env st 0 ''^auto$'' g) (\<lambda>(matches, g).
       if \<not> matches then shuso_config_value_error env st 0 g
       else Done (True, g\<lparr>cg_workers := ge_cores env\<rparr>)))))"

text \<open>In the build that is modelled there is no io_uring.\<close>

definition core_config_io_uring :: "cfg_env \<Rightarrow> nat \<Rightarrow> cfg \<Rightarrow> (bool \<times> cfg) run" where
  "core_config_io_uring env b g =
     run_bind (shuso_setting env b ''io_uring'' g) (\<lambda>(st, g).
     run_bind (shuso_setting_string_matches env st 0 ''^auto$'' g) (\<lambda>(matches, g).
       if matches then Done (True, g\<lparr>cg_io_uring := SHUSO_MAYBE\<rparr>)
       else
     run_bind (shuso_setting_boolean env st 0 g) (\<lambda>((ok, v), g).
       case (ok, v) of
         (True, Some (Boolean_value x)) \<Rightarrow>
           if x then shuso_config_setting_error env (the st) ''io_uring is not supported in this build of Shuttlesock'' g
           else Done (True, g\<lparr>cg_io_uring := 0\<rparr>)
       | _ \<Rightarrow> shuso_config_value_error env st 0 g)))"

definition core_config_entries :: "cfg_env \<Rightarrow> nat \<Rightarrow> cfg \<Rightarrow> (bool \<times> cfg) run" where
  "core_config_entries env b g =
     run_bind (shuso_setting env b ''io_uring_queue_entries'' g) (\<lambda>(st, g).
     run_bind (shuso_setting_integer env st 0 g) (\<lambda>((ok, v), g).
       case (ok, v) of
         (True, Some (Integer_value n)) \<Rightarrow>
           if n \<le> 0 then shuso_config_value_error env st 0 g else Done (True, g\<lparr>cg_entries := n\<rparr>)
       | _ \<Rightarrow> shuso_config_value_error env st 0 g))"

definition core_config_sqpoll :: "cfg_env \<Rightarrow> nat \<Rightarrow> cfg \<Rightarrow> (bool \<times> cfg) run" where
  "core_config_sqpoll env b g =
     run_bind (shuso_setting env b ''io_uring_sq_kernel_poll'' g) (\<lambda>(st, g).
     run_bind (shuso_setting_string_matches env st 0 ''^auto$'' g) (\<lambda>(matches, g).
       if matches then Done (True, g\<lparr>cg_sqpoll := ge_root env\<rparr>)
       else
     run_bind (shuso_setting_boolean env st 0 g) (\<lambda>((ok, v), g).
       case (ok, v) of
         (True, Some (Boolean_value x)) \<Rightarrow>
           if x \<and> \<not> ge_root env
           then shuso_config_setting_error env (the st) ''can't use SQ kernel thread without root'' g
           else Done (True, g\<lparr>cg_sqpoll := x\<rparr>)
       | _ \<Rightarrow> shuso_config_value_error env st 0 g)))"

definition core_config_idle :: "cfg_env \<Rightarrow> nat \<Rightarrow> cfg \<Rightarrow> (bool \<times> cfg) run" where
  "core_config_idle env b g =
     run_bind (shuso_setting env b ''io_uring_sq_thead_idle'' g) (\<lambda>(st, g).
     run_bind (shuso_setting_time_sec env st 0 g) (\<lambda>(sec, g).
       case sec of
         None \<Rightarrow> shuso_config_value_error env st 0 g
       | Some x \<Rightarrow> Done (True, g\<lparr>cg_sqpoll_idle := ge_millis env x\<rparr>)))"

definition core_module_initialize_config :: "cfg_env \<Rightarrow> nat \<Rightarrow> cfg \<Rightarrow> (bool \<times> cfg) run" where
  "core_module_initialize_config env b g =
     (if \<not> ge_match_path env b ''/'' then Done (True, g)
      else run_steps [core_config_workers env b, core_config_io_uring env b, core_config_entries env b,
             core_config_sqpoll env b, core_config_idle env b] g)"

text \<open>The handler that lets the stop events be delayed, by a second at most.\<close>

definition stop_event_interrupt_handler :: "bool \<Rightarrow> int option \<Rightarrow> bool \<times> int option" where
  "stop_event_interrupt_handler is_delay delay_msec =
     (if \<not> is_delay then (False, delay_msec)
      else (case delay_msec of
              None \<Rightarrow> (False, None)
            | Some t \<Rightarrow> (True, Some (if t > 1000 then 1000 else t))))"

section \<open>Reading a value\<close>

text \<open>The reference: the texts of a setting at a place, and the conversion of the one asked for.\<close>

definition instring_text :: "instring_env \<Rightarrow> instring \<Rightarrow> string" where
  "instring_text env s = concat (interpolated env s)"

fun convert_text :: "instring_env \<Rightarrow> value_type \<Rightarrow> string \<Rightarrow> setting_value option" where
  "convert_text env SHUSO_SETTING_BOOLEAN t = map_option Boolean_value (instring_toboolean t)"
| "convert_text env SHUSO_SETTING_INTEGER t = map_option (\<lambda>i. Integer_value (c_int i)) (ie_tointeger env t)"
| "convert_text env SHUSO_SETTING_NUMBER t = map_option Number_value (ie_tonumber env t)"
| "convert_text env SHUSO_SETTING_SIZE t = map_option (\<lambda>v. Size_value (double_of_nat (nat v))) (ie_tosize env t)"
| "convert_text env SHUSO_SETTING_STRING t = Some (String_value t)"
| "convert_text env _ t = None"

definition text_type :: "value_type \<Rightarrow> bool" where
  "text_type vt \<longleftrightarrow> vt \<in> {SHUSO_SETTING_BOOLEAN, SHUSO_SETTING_INTEGER, SHUSO_SETTING_NUMBER, SHUSO_SETTING_SIZE, SHUSO_SETTING_STRING}"

definition setting_texts :: "instring_env \<Rightarrow> merge_source \<Rightarrow> setting_instrings \<Rightarrow> string list" where
  "setting_texts env loc si = map (instring_text env) (instrings_at loc si)"

definition setting_result :: "instring_env \<Rightarrow> value_type \<Rightarrow> string list \<Rightarrow> nat \<Rightarrow> setting_value option" where
  "setting_result env vt texts n = (if n < length texts then convert_text env vt (texts ! n) else None)"

text \<open>
  An instring that can be read: well-formed with short pieces, and either its cache is true or all its variables have
  values, which resets the cache.
\<close>

definition complete :: "instring_env \<Rightarrow> instring \<Rightarrow> bool" where
  "complete env s \<longleftrightarrow> is_variables s \<noteq> [] \<and>
     (\<forall>t \<in> set (variable_tokens (is_tokens s)). token_value env (is_tokens s ! t) \<noteq> None)"

definition readable :: "instring_env \<Rightarrow> instring \<Rightarrow> bool" where
  "readable env s \<longleftrightarrow> instring_wf s \<and> short_pieces (interpolated env s) \<and> (cache_ok env s \<or> complete env s)"

lemma interpolated_cong:
  "is_tokens s' = is_tokens s \<Longrightarrow> is_iov s' = is_iov s \<Longrightarrow> interpolated env s' = interpolated env s"
  by (simp add: interpolated_def cong: option.case_cong)

lemma interpolated_again:
  "is_tokens s' = is_tokens s \<Longrightarrow> is_iov s' = interpolated env s \<Longrightarrow> interpolated env s' = interpolated env s"
  by (rule nth_equalityI) (auto simp: interpolated_def split: option.split)

text \<open>Without a true cache: reading is as if the cache were empty.\<close>

lemma interpolate_complete:
  assumes wf: "instring_wf s" and c: "complete env s"
  shows "\<exists>reg'. shuso_instring_interpolate env (s, reg) =
    shuso_instring_interpolate env (s\<lparr>cv_state := unknown_values, cv_string_lua_ref := None\<rparr>, reg')"
proof -
  let ?s0 = "s\<lparr>cv_state := unknown_values, cv_string_lua_ref := None\<rparr>"
  let ?js = "variable_tokens (is_tokens s)"
  have js: "\<forall>t \<in> set ?js. t < length (is_tokens s) \<and> is_variable (is_tokens s ! t)"
    using variable_tokens_less by blast
  have vars: "is_variables s = map Some ?js" "0 + length ?js \<le> length (is_iov s)"
    using wf variable_tokens_length [of "is_tokens s"] by (auto simp: instring_wf_def)
  have ne: "?js \<noteq> []" using c vars by (auto simp: complete_def)
  then have any: "\<exists>t \<in> set ?js. token_value env (is_tokens s ! t) \<noteq> None"
    using c by (cases ?js) (auto simp: complete_def)
  obtain iov where loop: "interpolate_vars env (is_tokens s) 0 (map Some ?js) (False, is_iov s) = Done (True, iov)"
    using interpolate_vars_ok [OF js vars(2), of env False] any by auto
  let ?reg = "case cv_string_lua_ref s of Some r \<Rightarrow> reg(r := None) | None \<Rightarrow> reg"
  have "shuso_instring_interpolate env (s, reg) = shuso_instring_interpolate env (?s0, ?reg)"
    using ne loop wf by (simp add: shuso_instring_interpolate_def vars instring_wf_def Let_def)
  then show ?thesis by blast
qed

lemma readable_spec:
  assumes r: "readable env s" and f: "\<And>x y. shuso_instring_interpolate env x = shuso_instring_interpolate env y \<Longrightarrow> f x = f y"
    and spec: "\<And>s reg. instring_wf s \<Longrightarrow> cache_ok env s \<Longrightarrow> short_pieces (interpolated env s) \<Longrightarrow>
      value_spec env want s (conv (concat (interpolated env s))) (f (s, reg))"
  shows "value_spec env want s (conv (instring_text env s)) (f (s, reg))"
proof (cases "cache_ok env s")
  case True
  then show ?thesis using r spec by (simp add: readable_def instring_text_def)
next
  case False
  let ?s0 = "s\<lparr>cv_state := unknown_values, cv_string_lua_ref := None\<rparr>"
  from False r have wf: "instring_wf s" and c: "complete env s" and sh: "short_pieces (interpolated env s)"
    by (auto simp: readable_def)
  obtain reg' where "f (s, reg) = f (?s0, reg')" using interpolate_complete [OF wf c] f by blast
  moreover have i: "interpolated env ?s0 = interpolated env s" by (rule interpolated_cong) simp_all
  moreover have "value_spec env want ?s0 (conv (concat (interpolated env ?s0))) (f (?s0, reg'))"
  proof (rule spec)
    show "instring_wf ?s0" using wf by (simp add: instring_wf_def)
    show "cache_ok env ?s0" by (simp add: cache_ok_def unknown_values_def)
    show "short_pieces (interpolated env ?s0)" using sh i by simp
  qed
  ultimately show ?thesis by (simp add: value_spec_def instring_text_def)
qed

lemma value_spec_readable:
  assumes "readable env s" "value_spec env True s r m"
  shows "\<exists>s' reg'. m = Done ((r \<noteq> None, r), s', reg') \<and> readable env s' \<and> cache_ok env s' \<and> instring_text env s' = instring_text env s"
proof -
  obtain s' reg' where "m = Done ((r \<noteq> None, r), s', reg')" "instring_wf s'" "cache_ok env s'"
    "is_iov s' = interpolated env s" "is_tokens s' = is_tokens s"
    using assms(2) by (auto simp: value_spec_def)
  moreover from this have "interpolated env s' = interpolated env s" by (intro interpolated_again)
  ultimately show ?thesis using assms(1) by (auto simp: readable_def instring_text_def)
qed

lemma instring_value_readable:
  assumes r: "readable env s" and vt: "text_type vt"
  shows "\<exists>s' reg'. instring_value env vt (s, reg) =
      Done ((convert_text env vt (instring_text env s) \<noteq> None, convert_text env vt (instring_text env s)), s', reg') \<and>
    readable env s' \<and> instring_text env s' = instring_text env s"
proof -
  have lift: ?thesis if spec: "value_spec env True s (conv (instring_text env s)) m"
    and val: "instring_value env vt (s, reg) = as_value f m"
    and c: "\<And>t. convert_text env vt t = map_option f (conv t)" for conv :: "string \<Rightarrow> 'b option" and f m
    using value_spec_readable [OF r spec] by (auto simp: val c as_value_def)
  show ?thesis
  proof (cases vt)
    case SHUSO_SETTING_BOOLEAN
    have "value_spec env True s ((instring_toboolean) (instring_text env s)) (shuso_instring_boolean_value env True (s, reg))"
      by (rule readable_spec [OF r, where conv = "instring_toboolean"]) ((rule boolean_value_ok; assumption) | simp add: shuso_instring_boolean_value_def)+
    then show ?thesis
      by (rule lift [where conv = "instring_toboolean"]) (simp_all add: SHUSO_SETTING_BOOLEAN option.map_comp o_def)
  next
    case SHUSO_SETTING_INTEGER
    have "value_spec env True s ((\<lambda>t. map_option c_int (ie_tointeger env t)) (instring_text env s)) (shuso_instring_integer_value env True (s, reg))"
      by (rule readable_spec [OF r, where conv = "\<lambda>t. map_option c_int (ie_tointeger env t)"]) ((rule integer_value_ok; assumption) | simp add: shuso_instring_integer_value_def)+
    then show ?thesis
      by (rule lift [where conv = "\<lambda>t. map_option c_int (ie_tointeger env t)"]) (simp_all add: SHUSO_SETTING_INTEGER option.map_comp o_def)
  next
    case SHUSO_SETTING_NUMBER
    have "value_spec env True s ((ie_tonumber env) (instring_text env s)) (shuso_instring_number_value env True (s, reg))"
      by (rule readable_spec [OF r, where conv = "ie_tonumber env"]) ((rule number_value_ok; assumption) | simp add: shuso_instring_number_value_def)+
    then show ?thesis
      by (rule lift [where conv = "ie_tonumber env"]) (simp_all add: SHUSO_SETTING_NUMBER option.map_comp o_def)
  next
    case SHUSO_SETTING_SIZE
    have "value_spec env True s ((\<lambda>t. map_option (\<lambda>v. double_of_nat (nat v)) (ie_tosize env t)) (instring_text env s)) (shuso_instring_size_value env True (s, reg))"
      by (rule readable_spec [OF r, where conv = "\<lambda>t. map_option (\<lambda>v. double_of_nat (nat v)) (ie_tosize env t)"]) ((rule size_value_ok; assumption) | simp add: shuso_instring_size_value_def)+
    then show ?thesis
      by (rule lift [where conv = "\<lambda>t. map_option (\<lambda>v. double_of_nat (nat v)) (ie_tosize env t)"]) (simp_all add: SHUSO_SETTING_SIZE option.map_comp o_def)
  next
    case SHUSO_SETTING_STRING
    have "value_spec env True s ((Some) (instring_text env s)) (shuso_instring_string_value env True (s, reg))"
      by (rule readable_spec [OF r, where conv = "Some"]) ((rule string_value_ok; assumption) | simp add: shuso_instring_string_value_def)+
    then show ?thesis
      by (rule lift [where conv = "Some"]) (simp_all add: SHUSO_SETTING_STRING option.map_comp o_def)
  qed (use vt in \<open>auto simp: text_type_def\<close>)
qed

text \<open>All instrings of a configuration can be read; its texts, by setting and place.\<close>

definition cfg_readable :: "instring_env \<Rightarrow> cfg \<Rightarrow> bool" where
  "cfg_readable env g \<longleftrightarrow> (\<forall>si \<in> set (cg_instrings g). \<forall>loc. \<forall>s \<in> set (instrings_at loc si). readable env s)"

definition cfg_texts :: "instring_env \<Rightarrow> cfg \<Rightarrow> (merge_source \<Rightarrow> string list) list" where
  "cfg_texts env g = map (\<lambda>si loc. setting_texts env loc si) (cg_instrings g)"

lemma instrings_at_set [simp]:
  "instrings_at loc' (set_instrings_at loc l si) = (if loc' = loc then l else instrings_at loc' si)"
  "si_merged (set_instrings_at loc l si) = si_merged si"
  by (cases loc; cases loc'; simp)+

lemma setting_texts_set:
  "n < length (instrings_at loc si) \<Longrightarrow> instring_text env s = instring_text env (instrings_at loc si ! n) \<Longrightarrow>
   setting_texts env loc' (set_instrings_at loc ((instrings_at loc si)[n := s]) si) = setting_texts env loc' si"
  by (auto simp: setting_texts_def map_update list_update_same_conv)


section \<open>What generation makes\<close>

text \<open>Behind the places where values of variables go, the pieces are those of the literals.\<close>

definition literals_kept :: "instring \<Rightarrow> bool" where
  "literals_kept s \<longleftrightarrow> (\<forall>k < length (is_tokens s). length (variable_tokens (is_tokens s)) \<le> k \<longrightarrow>
     is_iov s ! k = (case is_tokens s ! k of Token_literal str \<Rightarrow> str | Token_variable _ \<Rightarrow> []))"

definition converted :: "instring_env \<Rightarrow> instring list \<Rightarrow> bool" where
  "converted env ins \<longleftrightarrow> (\<forall>s \<in> set ins. instring_wf s \<and> cache_ok env s \<and> literals_kept s)"

lemma matches_literals_kept:
  assumes "instring_wf s" "list_all2 token_matches ltoks (zip (is_tokens s) (is_iov s))"
  shows "literals_kept s"
  unfolding literals_kept_def
proof (intro allI impI)
  fix k assume k: "k < length (is_tokens s)"
  then have "token_matches (ltoks ! k) (is_tokens s ! k, is_iov s ! k)"
    using assms list_all2_nthD2 [OF assms(2), of k] by (simp add: instring_wf_def)
  then show "is_iov s ! k = (case is_tokens s ! k of Token_literal str \<Rightarrow> str | Token_variable _ \<Rightarrow> [])"
    by (cases "ltoks ! k"; cases "is_tokens s ! k") simp_all
qed

definition instrings_made :: "instring_env \<Rightarrow> setting_instrings \<Rightarrow> bool" where
  "instrings_made env si \<longleftrightarrow> converted env (si_local si) \<and> converted env (si_inherited si) \<and> converted env (si_defaults si) \<and>
     si_merged si = merged_source (si_local si) (si_inherited si)"

text \<open>
  The settings so far are the first ones of the Lua configuration, each with its own element of the array, whose
  instrings have been made.
\<close>

definition settings_made :: "cfg_env \<Rightarrow> nat \<Rightarrow> cfg \<Rightarrow> bool" where
  "settings_made env n g \<longleftrightarrow>
     n \<le> length (cg_instrings g) \<and> length (cg_settings g) = n \<and>
     (\<forall>i < n. st_index (cg_settings g ! i) = int i \<and> instrings_made (ge_instring env) (cg_instrings g ! i))"

lemma convert_instrings_converted:
  "convert_instrings env cfg st ls x = Done (Some ins, y) \<Longrightarrow> converted env ins \<and> length ins = length ls"
proof (induction ls arbitrary: x ins)
  case (Cons l ls)
  obtain left reg where x: "x = (left, reg)" by fastforce
  from Cons.prems obtain s x1 where 1: "luaS_instring_lua_to_c_generic env cfg st True l x = Done (Some s, x1)"
    and rest: "run_bind (convert_instrings env cfg st ls x1) (\<lambda>(rs, x). Done (map_option ((#) s) rs, x)) = Done (Some ins, y)"
    by (auto simp: run_bind_Done_iff split: option.splits)
  from rest obtain rs where 2: "convert_instrings env cfg st ls x1 = Done (Some rs, y)" and ins: "ins = s # rs"
    by (auto simp: run_bind_Done_iff)
  have "instring_wf s \<and> cache_ok env s \<and> literals_kept s"
  proof -
    have ne: "l \<noteq> []"
      using 1 x by (auto simp: luaS_instring_lua_to_c_generic_def instring_finish_def split: option.splits if_splits)
    show ?thesis using conversion_ok [OF 1 [unfolded x] ne] matches_literals_kept by blast
  qed
  then show ?case using Cons.IH [OF 2] ins by (simp add: converted_def)
qed (simp add: converted_def)

lemma finish_capture_Some:
  "finish_capture env st cnt ins S g = Done (Some ins', g') \<Longrightarrow> ins = Some ins' \<and> (\<exists>S'. g' = upd_mods (\<lambda>s. s\<lparr>mo_S := S'\<rparr>) g)"
  by (cases "shuso_error_capture_finish cnt S")
    (auto simp: finish_capture_def run_bind_Done_iff c_assert_Done_iff Let_def split: option.splits)

lemma setting_instrings_made:
  assumes "setting_instrings_to_c env st r g = Done (Some ins, g')"
  shows "converted (ge_instring env) ins \<and> cg_instrings g' = cg_instrings g \<and> cg_settings g' = cg_settings g \<and>
    cg_contexts g' = cg_contexts g \<and> cg_root g' = cg_root g"
proof -
  obtain cnt S where cap: "shuso_error_capture_start (mo_S (cg_mods g)) = (cnt, S)" by fastforce
  show ?thesis
  proof (cases r)
    case (Ret toks)
    obtain ins1 left reg S1 where
      c: "luaS_instrings_lua_to_c (ge_instring env) (ge_config env) (nat (st_index st)) toks (cg_left g, cg_reg g) =
        Done (ins1, left, reg)"
      and f: "finish_capture env st cnt ins1 S1 (g\<lparr>cg_left := left, cg_reg := reg\<rparr>) = Done (Some ins, g')"
      using assms by (auto simp: setting_instrings_to_c_def cap Ret luaS_pcall_config_method_def run_bind_Done_iff)
    from finish_capture_Some [OF f] have "ins1 = Some ins" by blast
    with c have "converted (ge_instring env) ins"
      using convert_instrings_converted by (fastforce simp: luaS_instrings_lua_to_c_def split: option.splits)
    then show ?thesis using finish_capture_Some [OF f] by auto
  next
    case (Nil msg)
    then show ?thesis using assms finish_capture_Some
      by (fastforce simp: setting_instrings_to_c_def cap luaS_pcall_config_method_def run_bind_Done_iff)
  next
    case Raise
    then show ?thesis using assms by (simp add: setting_instrings_to_c_def cap luaS_pcall_config_method_def)
  qed
qed

lemma setting_values_made:
  assumes "setting_values_to_c env st l g = Done (Some si, g')"
  shows "instrings_made (ge_instring env) si \<and> cg_instrings g' = cg_instrings g \<and> cg_settings g' = cg_settings g \<and>
    cg_contexts g' = cg_contexts g \<and> cg_root g' = cg_root g"
proof -
  from assms obtain x1 g1 x2 g2 x3 where
    c1: "setting_instrings_to_c env st (gs_local l) g = Done (Some x1, g1)"
    and c2: "setting_instrings_to_c env st (gs_defaults l) g1 = Done (Some x2, g2)"
    and c3: "setting_instrings_to_c env st (gs_inherited l) g2 = Done (Some x3, g')"
    and si: "si = \<lparr>si_local = x1, si_inherited = x3, si_defaults = x2, si_merged = merged_source x1 x3\<rparr>"
    by (auto simp: setting_values_to_c_def run_bind_Done_iff split: option.splits)
  show ?thesis
    using setting_instrings_made [OF c1] setting_instrings_made [OF c2] setting_instrings_made [OF c3]
    by (simp add: si instrings_made_def)
qed

lemma setting_block_made:
  "setting_block_to_c env l i g = (True, g') \<Longrightarrow>
   cg_instrings g' = cg_instrings g \<and> cg_settings g' = cg_settings g \<and> cg_root g' = cg_root g \<and>
   dom (cg_contexts g') = dom (cg_contexts g) \<union> (if gs_block l then {i + 1} else {})"
  by (auto simp: setting_block_to_c_def Let_def split: if_splits option.splits prod.splits)

lemma setting_made:
  assumes run: "lua_setting_to_c_struct env l i g = Done (True, g')" and inv: "settings_made env i g"
  shows "settings_made env (i + 1) g' \<and> length (cg_instrings g') = length (cg_instrings g) \<and> cg_root g' = cg_root g \<and>
    dom (cg_contexts g') = dom (cg_contexts g) \<union> (if gs_block l then {i + 1} else {})"
proof -
  obtain left where left: "pal (cg_left g) = Some left"
    using run by (cases "pal (cg_left g)") (simp_all add: lua_setting_to_c_struct_def)
  obtain ok g1 where b: "setting_block_to_c env l i (g\<lparr>cg_left := left\<rparr>) = (ok, g1)" by fastforce
  have ok: ok using run by (cases ok) (simp_all add: lua_setting_to_c_struct_def left b c_assert_Done_iff)
  obtain r g2 where i: "i < length (cg_instrings g1)" and v: "setting_values_to_c env (c_setting l i) l g1 = Done (r, g2)"
    and rest: "(case r of None \<Rightarrow> Done (False, g2)
      | Some si \<Rightarrow> Done (True, g2\<lparr>cg_settings := cg_settings g2 @ [c_setting l i], cg_instrings := (cg_instrings g2)[i := si]\<rparr>)) =
      Done (True, g')"
    using run by (auto simp: lua_setting_to_c_struct_def left b ok c_assert_Done_iff run_bind_Done_iff)
  from rest obtain si where r: "r = Some si"
    and g': "g' = g2\<lparr>cg_settings := cg_settings g2 @ [c_setting l i], cg_instrings := (cg_instrings g2)[i := si]\<rparr>"
    by (cases r) simp_all
  show ?thesis
    using setting_values_made [OF v [unfolded r]] setting_block_made [OF b [simplified ok]] i inv
    by (auto simp: g' settings_made_def nth_append nth_list_update less_Suc_eq c_setting_def)
qed

lemma settings_made_all:
  "settings_to_c env i ls g = Done (True, g') \<Longrightarrow> settings_made env i g \<Longrightarrow>
   settings_made env (i + length ls) g' \<and> length (cg_instrings g') = length (cg_instrings g) \<and> cg_root g' = cg_root g \<and>
   (\<forall>b. b \<in> dom (cg_contexts g') \<longleftrightarrow> b \<in> dom (cg_contexts g) \<or> (\<exists>k < length ls. b = i + k + 1 \<and> gs_block (ls ! k)))"
proof (induction ls arbitrary: i g)
  case (Cons l ls)
  from Cons.prems(1) obtain g1 where 1: "lua_setting_to_c_struct env l i g = Done (True, g1)"
    and 2: "settings_to_c env (i + 1) ls g1 = Done (True, g')"
    by (auto simp: run_bind_Done_iff split: if_splits)
  note m = setting_made [OF 1 Cons.prems(2)]
  have "(\<exists>k < length (l # ls). b = i + k + 1 \<and> gs_block ((l # ls) ! k)) \<longleftrightarrow>
      (b = i + 1 \<and> gs_block l) \<or> (\<exists>k < length ls. b = i + 1 + k + 1 \<and> gs_block (ls ! k))" for b
    by (simp add: Ex_less_Suc2)
  then show ?case using Cons.IH [OF 2] m by (simp split: if_splits)
qed auto

lemma run_steps_Nil: "run_steps [] g = Done (True, g') \<longleftrightarrow> g = g'"
  by simp

lemma run_steps_True:
  "run_steps (f # fs) g = Done (True, g') \<longleftrightarrow> (\<exists>g1. f g = Done (True, g1) \<and> run_steps fs g1 = Done (True, g'))"
  by (auto simp: run_bind_Done_iff split: if_splits)

text \<open>What the functions of the modules are relied on for: they leave the structures as they are made.\<close>

definition keeps_made :: "cfg_env \<Rightarrow> cfg \<Rightarrow> cfg \<Rightarrow> bool" where
  "keeps_made env g g' \<longleftrightarrow> (\<forall>n. settings_made env n g \<longrightarrow> settings_made env n g') \<and>
     length (cg_instrings g') = length (cg_instrings g) \<and> dom (cg_contexts g') = dom (cg_contexts g) \<and> cg_root g' = cg_root g"

definition init_sound :: "cfg_env \<Rightarrow> bool" where
  "init_sound env \<longleftrightarrow> (\<forall>a b g. keeps_made env g (snd (ge_init env a b g)))"

lemma keeps_made_refl: "keeps_made env g g"
  by (simp add: keeps_made_def)

lemma keeps_made_trans: "keeps_made env g g1 \<Longrightarrow> keeps_made env g1 g2 \<Longrightarrow> keeps_made env g g2"
  by (simp add: keeps_made_def)

lemma keeps_made_mods: "keeps_made env g (upd_mods f g)"
  by (simp add: keeps_made_def settings_made_def)

lemma init_modules_keeps:
  assumes snd: "init_sound env" shows "init_modules env b as g = (ok, g') \<Longrightarrow> keeps_made env g g'"
proof (induction as arbitrary: g)
  case (Cons a as)
  obtain ok1 g1 where i: "(if ge_has_init env a then ge_init env a b g else (True, g)) = (ok1, g1)" by fastforce
  have "keeps_made env g (snd (ge_init env a b g))" using snd by (simp add: init_sound_def)
  with i have k: "keeps_made env g g1" by (auto simp: keeps_made_refl split: if_splits)
  show ?case
  proof (cases "ok1 \<and> \<not> error_count (mo_S (cg_mods g1)) > error_count (mo_S (cg_mods g))")
    case True
    then have "init_modules env b as g1 = (ok, g')" using Cons.prems i by (simp add: Let_def)
    then show ?thesis using Cons.IH k keeps_made_trans by blast
  next
    case False
    then have "g' = g1 \<or> (\<exists>msg. g' = cg_error msg g1)" using Cons.prems i by (auto simp: Let_def split: if_splits)
    then show ?thesis using k keeps_made_mods keeps_made_trans by blast
  qed
qed (simp add: keeps_made_refl)

lemma init_blocks_keeps:
  assumes snd: "init_sound env" shows "init_blocks env bs g = (ok, g') \<Longrightarrow> keeps_made env g g'"
proof (induction bs arbitrary: g)
  case (Cons b bs)
  obtain ok1 g1 where i: "init_modules env b (mo_array (cg_mods g)) g = (ok1, g1)" by fastforce
  note k = init_modules_keeps [OF snd i]
  show ?case
  proof (cases ok1)
    case True
    then have "init_blocks env bs g1 = (ok, g')" using Cons.prems i by simp
    then show ?thesis using Cons.IH k keeps_made_trans by blast
  qed (use Cons.prems i k in simp)
qed (simp add: keeps_made_refl)

lemma config_call_keeps:
  "config_call env r g = Done (ok, g') \<Longrightarrow> \<exists>S. g' = upd_mods (\<lambda>s. s\<lparr>mo_S := S\<rparr>) g"
  by (auto simp: config_call_def run_bind_Done_iff)

lemma generate_root_made:
  "generate_root env g = (True, g') \<Longrightarrow> cg_settings g' = cg_settings g \<and> cg_root g' = cg_root g \<and>
   length (cg_instrings g') = length (ge_settings env) \<and> dom (cg_contexts g') = insert 0 (dom (cg_contexts g))"
  by (auto simp: generate_root_def Let_def split: if_splits option.splits prod.splits)

lemma set_all_blocks: "set (all_blocks ls) = insert 0 {k + 1 |k. k < length ls \<and> gs_block (ls ! k)}"
  by (auto simp: all_blocks_def)


section \<open>A worker reads the same values\<close>

definition worker_ready :: "instring_env \<Rightarrow> instring \<Rightarrow> bool" where
  "worker_ready env s \<longleftrightarrow> readable env s \<and> (is_variables s \<noteq> [] \<longrightarrow> complete env s \<and> literals_kept s)"

lemma copy_reads_same:
  assumes ready: "worker_ready env old" and run: "shuso_instring_copy_for_worker old left = Done (Some new, left')"
  shows "readable env new \<and> instring_text env new = instring_text env old"
proof (cases "is_variables old = []")
  case True
  then show ?thesis using assms by (simp add: shuso_instring_copy_for_worker_def worker_ready_def)
next
  case False
  have wf: "instring_wf old" and c: "complete env old" and lit: "literals_kept old" and short: "short_pieces (interpolated env old)"
    using ready False by (auto simp: worker_ready_def readable_def)
  note cp = copy_ok [OF wf run]
  have toks: "is_tokens new = is_tokens old" and wf': "instring_wf new"
    and iov: "is_iov new = map (\<lambda>t. case t of Token_literal str \<Rightarrow> str | Token_variable _ \<Rightarrow> []) (is_tokens old)"
    using cp False by auto
  have len: "length (is_iov old) = length (is_tokens old)" using wf by (simp add: instring_wf_def)
  have "interpolated env new = interpolated env old"
  proof (rule nth_equalityI)
    show "length (interpolated env new) = length (interpolated env old)" by (simp add: interpolated_length iov len)
    fix i assume "i < length (interpolated env new)"
    then have i: "i < length (is_tokens old)" by (simp add: interpolated_length iov)
    show "interpolated env new ! i = interpolated env old ! i"
    proof (cases "i < length (variable_tokens (is_tokens old))")
      case True
      then have "variable_tokens (is_tokens old) ! i \<in> set (variable_tokens (is_tokens old))" by simp
      then have "token_value env (is_tokens old ! (variable_tokens (is_tokens old) ! i)) \<noteq> None"
        using c by (simp only: complete_def) blast
      then show ?thesis using True i len by (auto simp: interpolated_def toks iov)
    next
      case False
      then show ?thesis using lit i len by (simp add: interpolated_def toks iov literals_kept_def)
    qed
  qed
  moreover have "complete env new"
  proof -
    have "is_variables new = is_variables old" using wf wf' toks by (simp add: instring_wf_def)
    then show ?thesis using c toks by (simp add: complete_def)
  qed
  ultimately show ?thesis using wf' short by (simp add: readable_def instring_text_def)
qed

lemma copy_instrings_same:
  "copy_instrings olds left = Done (Some news, left') \<Longrightarrow> \<forall>s \<in> set olds. worker_ready env s \<Longrightarrow>
   (\<forall>s \<in> set news. readable env s) \<and> map (instring_text env) news = map (instring_text env) olds"
proof (induction olds arbitrary: left news)
  case (Cons old olds)
  from Cons.prems(1) obtain new left1 where 1: "shuso_instring_copy_for_worker old left = Done (Some new, left1)"
    and rest: "run_bind (copy_instrings olds left1) (\<lambda>(rs, left). Done (map_option ((#) new) rs, left)) = Done (Some news, left')"
    by (auto simp: run_bind_Done_iff split: option.splits)
  from rest obtain rs where 2: "copy_instrings olds left1 = Done (Some rs, left')" and news: "news = new # rs"
    by (auto simp: run_bind_Done_iff)
  show ?case using copy_reads_same [OF _ 1] Cons.IH [OF 2] Cons.prems(2) news by simp
qed simp

lemma copy_list_same:
  assumes "shuso_instrings_copy_for_worker olds left = Done (Some news, left')" "\<forall>s \<in> set olds. worker_ready env s"
  shows "(\<forall>s \<in> set news. readable env s) \<and> map (instring_text env) news = map (instring_text env) olds"
  using assms copy_instrings_same
  by (fastforce simp: shuso_instrings_copy_for_worker_def worker_ready_def split: if_splits option.splits)

definition settings_ready :: "instring_env \<Rightarrow> setting_instrings \<Rightarrow> bool" where
  "settings_ready env si \<longleftrightarrow> (\<forall>loc. \<forall>s \<in> set (instrings_at loc si). worker_ready env s) \<and>
     si_merged si = merged_source (si_local si) (si_inherited si)"

lemma copy_settings_same:
  "copy_settings sis left = Done (Some news, left') \<Longrightarrow> \<forall>si \<in> set sis. settings_ready env si \<Longrightarrow>
   (\<forall>si \<in> set news. \<forall>loc. \<forall>s \<in> set (instrings_at loc si). readable env s) \<and>
   map (\<lambda>si loc. setting_texts env loc si) news = map (\<lambda>si loc. setting_texts env loc si) sis \<and>
   map si_merged news = map si_merged sis"
proof (induction sis arbitrary: left news)
  case (Cons si sis)
  from Cons.prems(1) obtain x1 l1 where 1: "shuso_instrings_copy_for_worker (si_local si) left = Done (Some x1, l1)"
    and r1: "run_bind (shuso_instrings_copy_for_worker (si_defaults si) l1) (\<lambda>(defaults, left).
       case defaults of None \<Rightarrow> Done (None, left) | Some defaults \<Rightarrow>
     run_bind (shuso_instrings_copy_for_worker (si_inherited si) left) (\<lambda>(inherited, left).
       case inherited of None \<Rightarrow> Done (None, left) | Some inherited \<Rightarrow>
     run_bind (copy_settings sis left) (\<lambda>(rest, left). Done (map_option ((#)
       \<lparr>si_local = x1, si_inherited = inherited, si_defaults = defaults, si_merged = merged_source x1 inherited\<rparr>) rest, left)))) =
      Done (Some news, left')"
    by (auto simp: run_bind_Done_iff split: option.splits)
  from r1 obtain x2 l2 where 2: "shuso_instrings_copy_for_worker (si_defaults si) l1 = Done (Some x2, l2)"
    and r2: "run_bind (shuso_instrings_copy_for_worker (si_inherited si) l2) (\<lambda>(inherited, left).
       case inherited of None \<Rightarrow> Done (None, left) | Some inherited \<Rightarrow>
     run_bind (copy_settings sis left) (\<lambda>(rest, left). Done (map_option ((#)
       \<lparr>si_local = x1, si_inherited = inherited, si_defaults = x2, si_merged = merged_source x1 inherited\<rparr>) rest, left))) =
      Done (Some news, left')"
    by (auto simp: run_bind_Done_iff split: option.splits)
  from r2 obtain x3 l3 rest where 3: "shuso_instrings_copy_for_worker (si_inherited si) l2 = Done (Some x3, l3)"
    and 4: "copy_settings sis l3 = Done (Some rest, left')"
    and news: "news = \<lparr>si_local = x1, si_inherited = x3, si_defaults = x2, si_merged = merged_source x1 x3\<rparr> # rest"
    by (auto simp: run_bind_Done_iff split: option.splits)
  have at: "\<forall>s \<in> set (instrings_at loc si). worker_ready env s" for loc
    using Cons.prems(2) by (simp add: settings_ready_def)
  have ready: "\<forall>s \<in> set (si_local si). worker_ready env s" "\<forall>s \<in> set (si_defaults si). worker_ready env s"
    "\<forall>s \<in> set (si_inherited si). worker_ready env s"
    using at [of From_local] at [of From_defaults] at [of From_inherited] by simp_all
  have merged: "si_merged si = merged_source (si_local si) (si_inherited si)"
    using Cons.prems(2) by (simp add: settings_ready_def)
  note c1 = copy_list_same [OF 1 ready(1)] and c2 = copy_list_same [OF 2 ready(2)] and c3 = copy_list_same [OF 3 ready(3)]
  have texts: "setting_texts env loc (hd news) = setting_texts env loc si" for loc
    using c1 c2 c3 by (cases loc) (simp_all add: news setting_texts_def)
  have rd: "\<forall>s \<in> set (instrings_at loc (hd news)). readable env s" for loc
    using c1 c2 c3 by (cases loc) (simp_all add: news)
  have "x1 = [] \<longleftrightarrow> si_local si = []" "x3 = [] \<longleftrightarrow> si_inherited si = []" using c1 c3 by (metis map_is_Nil_conv)+
  then have "si_merged (hd news) = si_merged si" by (simp add: news merged merged_source_def)
  then show ?case using Cons.IH [OF 4] Cons.prems(2) texts rd by (simp add: news)
qed simp


section \<open>The settings of the core module are within bounds\<close>

text \<open>What reading leaves alone.\<close>

definition same_core :: "cfg \<Rightarrow> cfg \<Rightarrow> bool" where
  "same_core g g' \<longleftrightarrow> cg_workers g' = cg_workers g \<and> cg_io_uring g' = cg_io_uring g \<and> cg_entries g' = cg_entries g \<and>
     cg_sqpoll g' = cg_sqpoll g \<and> cg_sqpoll_idle g' = cg_sqpoll_idle g"

lemma same_core_refl [simp]: "same_core g g"
  by (simp add: same_core_def)

lemma setting_value_same_core: "shuso_setting_value env st n mt vt g = Done (r, g') \<Longrightarrow> same_core g g'"
  by (auto simp: shuso_setting_value_def c_assert_Done_iff run_bind_Done_iff Let_def same_core_def
      split: option.splits if_splits)

lemma string_matches_same_core:
  assumes "shuso_setting_string_matches env setting n pat g = Done (r, g')" shows "same_core g g'"
proof (cases setting)
  case (Some st)
  let ?si = "cg_instrings g ! nat (st_index st)"
  let ?ins = "instrings_at (si_merged ?si) ?si"
  note R = assms [unfolded shuso_setting_string_matches_def Some option.case Let_def c_assert_Done_iff]
  show ?thesis
  proof (cases "length ?ins < size_of_int n")
    case False
    then obtain ok v s reg where
      v: "shuso_instring_string_value (ge_instring env) False (?ins ! size_of_int n, cg_reg g) = Done ((ok, v), s, reg)"
      using R by (auto simp: c_assert_Done_iff run_bind_Done_iff)
    show ?thesis
    proof (cases ok)
      case True
      then show ?thesis using R False v
        by (cases "cv_string_lua_ref s"; cases "reg (the (cv_string_lua_ref s))")
          (auto simp: c_assert_Done_iff same_core_def)
    qed (use R False v in \<open>auto simp: c_assert_Done_iff same_core_def\<close>)
  qed (use R in simp)
qed (use assms in \<open>simp add: shuso_setting_string_matches_def\<close>)

lemma setting_same_core: "shuso_setting env b name g = Done (r, g') \<Longrightarrow> same_core g g'"
  by (auto simp: shuso_setting_def run_bind_Done_iff same_core_def)

lemma setting_error_False: "shuso_config_setting_error env st msg g = Done (ok, g') \<Longrightarrow> \<not> ok"
  by (auto simp: shuso_config_setting_error_def run_bind_Done_iff)

lemma value_error_False: "shuso_config_value_error env st n g = Done (ok, g') \<Longrightarrow> \<not> ok"
  by (auto simp: shuso_config_value_error_def run_bind_Done_iff dest!: setting_error_False split: option.splits)

lemmas core_reads = shuso_setting_integer_def shuso_setting_string_def shuso_setting_boolean_def shuso_setting_time_sec_def

lemmas core_frames = setting_value_same_core string_matches_same_core setting_same_core

lemma core_config_workers_ok:
  assumes "core_config_workers env b g = Done (True, g')"
  shows "cg_io_uring g' = cg_io_uring g \<and> cg_entries g' = cg_entries g \<and> cg_sqpoll g' = cg_sqpoll g \<and>
    cg_sqpoll_idle g' = cg_sqpoll_idle g \<and>
    (0 \<le> cg_workers g' \<and> cg_workers g' \<le> SHUTTLESOCK_MAX_WORKERS \<or> cg_workers g' = ge_cores env)"
proof -
  obtain st g1 where 1: "shuso_setting env b ''workers'' g = Done (st, g1)"
    using assms by (auto simp: core_config_workers_def run_bind_Done_iff)
  obtain ok v g2 where 2: "shuso_setting_integer env st 0 g1 = Done ((ok, v), g2)"
    using assms by (auto simp: core_config_workers_def 1 run_bind_Done_iff)
  have f: "same_core g g1" "same_core g1 g2"
    using setting_same_core [OF 1] setting_value_same_core [OF 2 [unfolded shuso_setting_integer_def]] by auto
  show ?thesis
  proof (cases "\<exists>n. ok \<and> v = Some (Integer_value n)")
    case True
    then obtain n where n: "ok" "v = Some (Integer_value n)" by blast
    then show ?thesis using assms f
      by (auto simp: core_config_workers_def 1 2 same_core_def dest: setting_error_False split: if_splits)
  next
    case False
    have "run_bind (shuso_setting_string env st 0 g2) (\<lambda>((ok, v), g).
       if \<not> ok then shuso_config_value_error env st 0 g
       else
     run_bind (shuso_setting_string_matches env st 0 ''^auto$'' g) (\<lambda>(matches, g).
       if \<not> matches then shuso_config_value_error env st 0 g
       else Done (True, g\<lparr>cg_workers := ge_cores env\<rparr>))) = Done (True, g')"
      using assms False by (auto simp: core_config_workers_def 1 2 split: bool.splits option.splits setting_value.splits)
    then obtain v' g3 g4 where 3: "shuso_setting_string env st 0 g2 = Done ((True, v'), g3)"
      and 4: "shuso_setting_string_matches env st 0 ''^auto$'' g3 = Done (True, g4)"
      and g': "g' = g4\<lparr>cg_workers := ge_cores env\<rparr>"
      by (auto simp: run_bind_Done_iff dest!: value_error_False split: if_splits)
    show ?thesis
      using f setting_value_same_core [OF 3 [unfolded shuso_setting_string_def]] string_matches_same_core [OF 4]
      by (simp add: g' same_core_def)
  qed
qed

lemma core_config_io_uring_ok:
  assumes "core_config_io_uring env b g = Done (True, g')"
  shows "cg_workers g' = cg_workers g \<and> cg_entries g' = cg_entries g \<and> cg_sqpoll g' = cg_sqpoll g \<and>
    cg_sqpoll_idle g' = cg_sqpoll_idle g \<and> cg_io_uring g' \<in> {0, SHUSO_MAYBE}"
proof -
  obtain st g1 where 1: "shuso_setting env b ''io_uring'' g = Done (st, g1)"
    using assms by (auto simp: core_config_io_uring_def run_bind_Done_iff)
  obtain m g2 where 2: "shuso_setting_string_matches env st 0 ''^auto$'' g1 = Done (m, g2)"
    using assms by (auto simp: core_config_io_uring_def 1 run_bind_Done_iff)
  note f = setting_same_core [OF 1] string_matches_same_core [OF 2]
  show ?thesis
  proof (cases m)
    case True
    then show ?thesis using assms f by (auto simp: core_config_io_uring_def 1 2 same_core_def)
  next
    case False
    obtain ok v g3 where 3: "shuso_setting_boolean env st 0 g2 = Done ((ok, v), g3)"
      using assms False by (auto simp: core_config_io_uring_def 1 2 run_bind_Done_iff)
    show ?thesis using assms False f setting_value_same_core [OF 3 [unfolded shuso_setting_boolean_def]]
      by (auto simp: core_config_io_uring_def 1 2 3 same_core_def dest: setting_error_False value_error_False
          split: bool.splits option.splits setting_value.splits if_splits)
  qed
qed

lemma core_config_entries_ok:
  assumes "core_config_entries env b g = Done (True, g')"
  shows "cg_workers g' = cg_workers g \<and> cg_io_uring g' = cg_io_uring g \<and> cg_sqpoll g' = cg_sqpoll g \<and>
    cg_sqpoll_idle g' = cg_sqpoll_idle g \<and> 0 < cg_entries g'"
proof -
  obtain st g1 where 1: "shuso_setting env b ''io_uring_queue_entries'' g = Done (st, g1)"
    using assms by (auto simp: core_config_entries_def run_bind_Done_iff)
  obtain ok v g2 where 2: "shuso_setting_integer env st 0 g1 = Done ((ok, v), g2)"
    using assms by (auto simp: core_config_entries_def 1 run_bind_Done_iff)
  show ?thesis using assms setting_same_core [OF 1] setting_value_same_core [OF 2 [unfolded shuso_setting_integer_def]]
    by (auto simp: core_config_entries_def 1 2 same_core_def dest: value_error_False
        split: bool.splits option.splits setting_value.splits if_splits)
qed

lemma core_config_sqpoll_ok:
  assumes "core_config_sqpoll env b g = Done (True, g')"
  shows "cg_workers g' = cg_workers g \<and> cg_io_uring g' = cg_io_uring g \<and> cg_entries g' = cg_entries g \<and>
    cg_sqpoll_idle g' = cg_sqpoll_idle g \<and> (cg_sqpoll g' \<longrightarrow> ge_root env)"
proof -
  obtain st g1 where 1: "shuso_setting env b ''io_uring_sq_kernel_poll'' g = Done (st, g1)"
    using assms by (auto simp: core_config_sqpoll_def run_bind_Done_iff)
  obtain m g2 where 2: "shuso_setting_string_matches env st 0 ''^auto$'' g1 = Done (m, g2)"
    using assms by (auto simp: core_config_sqpoll_def 1 run_bind_Done_iff)
  note f = setting_same_core [OF 1] string_matches_same_core [OF 2]
  show ?thesis
  proof (cases m)
    case True
    then show ?thesis using assms f by (auto simp: core_config_sqpoll_def 1 2 same_core_def)
  next
    case False
    obtain ok v g3 where 3: "shuso_setting_boolean env st 0 g2 = Done ((ok, v), g3)"
      using assms False by (auto simp: core_config_sqpoll_def 1 2 run_bind_Done_iff)
    show ?thesis using assms False f setting_value_same_core [OF 3 [unfolded shuso_setting_boolean_def]]
      by (auto simp: core_config_sqpoll_def 1 2 3 same_core_def dest: setting_error_False value_error_False
          split: bool.splits option.splits setting_value.splits if_splits)
  qed
qed

lemma core_config_idle_ok:
  assumes "core_config_idle env b g = Done (True, g')"
  shows "cg_workers g' = cg_workers g \<and> cg_io_uring g' = cg_io_uring g \<and> cg_entries g' = cg_entries g \<and> cg_sqpoll g' = cg_sqpoll g"
proof -
  obtain st g1 where 1: "shuso_setting env b ''io_uring_sq_thead_idle'' g = Done (st, g1)"
    using assms by (auto simp: core_config_idle_def run_bind_Done_iff)
  obtain r g2 where 2: "shuso_setting_value env st (size_of_int 0) SHUSO_SETTING_MERGED SHUSO_SETTING_STRING g1 = Done (r, g2)"
    using assms by (auto simp: core_config_idle_def shuso_setting_time_sec_def 1 run_bind_Done_iff)
  show ?thesis using assms setting_same_core [OF 1] setting_value_same_core [OF 2]
    by (cases r) (auto simp: core_config_idle_def shuso_setting_time_sec_def 1 2 same_core_def dest: value_error_False
        split: option.splits)
qed

text \<open>When the core module accepts the root block, its settings are usable: the number of workers is between 0
  and the maximum or that of the cores, io_uring is off or undecided, a queue has entries, and a kernel
  thread polls only with root.\<close>

theorem core_config_bounds:
  assumes "core_module_initialize_config env b g = Done (True, g')" and "ge_match_path env b ''/''"
  shows "(0 \<le> cg_workers g' \<and> cg_workers g' \<le> SHUTTLESOCK_MAX_WORKERS \<or> cg_workers g' = ge_cores env) \<and>
    cg_io_uring g' \<in> {0, SHUSO_MAYBE} \<and> 0 < cg_entries g' \<and> (cg_sqpoll g' \<longrightarrow> ge_root env)"
proof -
  from assms obtain g1 g2 g3 g4 where
    "core_config_workers env b g = Done (True, g1)" "core_config_io_uring env b g1 = Done (True, g2)"
    "core_config_entries env b g2 = Done (True, g3)" "core_config_sqpoll env b g3 = Done (True, g4)"
    "core_config_idle env b g4 = Done (True, g')"
    unfolding core_module_initialize_config_def run_steps_True run_steps_Nil by (auto simp del: run_steps.simps simp: run_steps_True run_steps_Nil)
  note steps = core_config_workers_ok [OF this(1)] core_config_io_uring_ok [OF this(2)] core_config_entries_ok [OF this(3)]
    core_config_sqpoll_ok [OF this(4)] core_config_idle_ok [OF this(5)]
  then show ?thesis by auto
qed

text \<open>Zero workers are accepted and abort. The configuration accepts 0 as the number of workers, and with it
  finishing the configuration fails an assertion.\<close>

theorem zero_workers_abort:
  assumes "shuso_setting env b ''workers'' g = Done (st, g1)"
    and "shuso_setting_integer env st 0 g1 = Done ((True, Some (Integer_value 0)), g2)"
    and "common_state (su_S s) = SHUSO_STATE_CONFIGURING" "cf_config_generate sys" "cf_default_loop sys"
  shows "\<exists>g'. core_config_workers env b g = Done (True, g') \<and>
    shuso_configure_finish sys (s\<lparr>su_workers := nat (cg_workers g')\<rparr>) = Abort"
proof -
  have "core_config_workers env b g = Done (True, g2\<lparr>cg_workers := 0\<rparr>)"
    using assms(1,2) by (simp add: core_config_workers_def SHUTTLESOCK_MAX_WORKERS_def)
  moreover have "shuso_configure_finish sys (s\<lparr>su_workers := 0\<rparr>) = Abort"
    using assms(3-5) by (simp add: shuso_configure_finish_def shuso_runstate_check_def Let_def)
  ultimately show ?thesis by (intro exI [of _ "g2\<lparr>cg_workers := 0\<rparr>"]) simp
qed

section \<open>Misuse\<close>

text \<open>The number of a value that equals the number of values is not refused but read past the end.\<close>

lemma string_matches_past_end:
  assumes "0 \<le> st_index st" "nat (st_index st) < length (cg_instrings g)"
    and "length (instrings_at (si_merged (cg_instrings g ! nat (st_index st))) (cg_instrings g ! nat (st_index st))) = size_of_int n"
  shows "shuso_setting_string_matches env (Some st) n pat g = Abort"
  using assms by (simp add: shuso_setting_string_matches_def)

lemma setting_value_past_end:
  assumes "0 \<le> st_index st" "nat (st_index st) < length (cg_instrings g)"
    and "length (instrings_at (si_merged (cg_instrings g ! nat (st_index st))) (cg_instrings g ! nat (st_index st))) = n"
  shows "shuso_setting_value env (Some st) n SHUSO_SETTING_MERGED vt g = Done ((False, None), g)"
  using assms by (simp add: shuso_setting_value_def)

text \<open>A percent sign in the text of an error, such as one from a value in the file, is taken as a format.\<close>

lemma percent_in_value_aborts:
  "CHR 0x25 \<in> set (ge_error_text env (st_index st) msg) \<Longrightarrow> shuso_config_setting_error env st msg g = Abort"
  by (simp add: shuso_config_setting_error_def set_error_format_def)

text \<open>
  The copy of an instring with variables keeps the cached values of the manager and the reference into the registry of the
  manager's Lua state; interpolating it in the worker releases that reference in the registry of the worker.
\<close>

lemma copy_keeps_cache:
  assumes "instring_wf old" "is_variables old \<noteq> []" "shuso_instring_copy_for_worker old left = Done (Some new, left')"
  shows "cv_state new = cv_state old \<and> cv_string new = cv_string old \<and> cv_string_lua_ref new = cv_string_lua_ref old"
  using assms by (auto simp: shuso_instring_copy_for_worker_def c_assert_Done_iff Let_def split: if_splits option.splits)

lemma worker_releases_foreign_reference:
  assumes wf: "instring_wf s" and c: "complete env s" and ref: "cv_string_lua_ref s = Some r"
  shows "\<exists>s'. shuso_instring_interpolate env (s, reg) = Done (s', reg(r := None))"
proof -
  let ?js = "variable_tokens (is_tokens s)"
  have js: "\<forall>t \<in> set ?js. t < length (is_tokens s) \<and> is_variable (is_tokens s ! t)"
    using variable_tokens_less by blast
  have vars: "is_variables s = map Some ?js" "0 + length ?js \<le> length (is_iov s)"
    using wf variable_tokens_length [of "is_tokens s"] by (auto simp: instring_wf_def)
  have ne: "?js \<noteq> []" using c vars by (auto simp: complete_def)
  then have any: "\<exists>t \<in> set ?js. token_value env (is_tokens s ! t) \<noteq> None"
    using c by (cases ?js) (auto simp: complete_def)
  obtain iov where loop: "interpolate_vars env (is_tokens s) 0 (map Some ?js) (False, is_iov s) = Done (True, iov)"
    using interpolate_vars_ok [OF js vars(2), of env False] any by auto
  show ?thesis using ne loop ref by (simp add: shuso_instring_interpolate_def vars Let_def)
qed

section \<open>Examples\<close>

definition example_lua_settings :: "lua_setting list" where
  "example_lua_settings =
     [\<lparr>gs_name = ''workers'', gs_module = ''core'', gs_raw_name = ''workers'', gs_path = ''/'', gs_parent = 0, gs_block = False,
       gs_local = Ret [[Lua_literal ''4'']], gs_defaults = Ret [[Lua_literal ''auto'']], gs_inherited = Ret []\<rparr>,
      \<lparr>gs_name = ''http'', gs_module = ''server'', gs_raw_name = ''http'', gs_path = ''/'', gs_parent = 0, gs_block = True,
       gs_local = Ret [], gs_defaults = Ret [], gs_inherited = Ret []\<rparr>]"

definition example_value_env :: instring_env where
  "example_value_env = \<lparr>ie_eval = (\<lambda>v. if v_name v = ''mode'' then Some ''on'' else None),
     ie_tointeger = (\<lambda>s. if s = ''4'' then Some 4 else if s = ''0'' then Some 0 else None), ie_tonumber = (\<lambda>s. None),
     ie_tosize = (\<lambda>s. None), ie_ref = (\<lambda>reg. if reg 1 = None then 1 else if reg 2 = None then 2 else 3)\<rparr>"

definition example_cfg_env :: cfg_env where
  "example_cfg_env = \<lparr>ge_instring = example_value_env, ge_config = example_config_env, ge_sys = example_mod_sys, ge_core = 1,
     ge_lua_error = ''error'', ge_instring_error = ''error'', ge_error_text = (\<lambda>_ msg. msg), ge_block_error_text = (\<lambda>_ msg. msg),
     ge_parsed = True, ge_parse = Ret (), ge_handle = Ret (), ge_get_root = Ret (), ge_settings = example_lua_settings,
     ge_has_init = (\<lambda>a. a = 1), ge_init = (\<lambda>a b g. (True, g\<lparr>cg_entries := cg_entries g + 1\<rparr>)),
     ge_find_setting = (\<lambda>b name. Nil ''not found''), ge_match = (\<lambda>s p. s = ''auto''), ge_match_path = (\<lambda>b p. b = 0),
     ge_seconds = (\<lambda>s. None), ge_millis = (\<lambda>_. 500), ge_cores = 8, ge_root = False\<rparr>"

definition example_cfg :: cfg where
  "example_cfg = \<lparr>cg_mods = (example_mods [])\<lparr>mo_array := [1]\<rparr>, cg_left = 100, cg_instrings = [], cg_reg = Map.empty,
     cg_settings = [], cg_contexts = Map.empty, cg_root = None, cg_blocks = [], cg_workers = 0, cg_io_uring = 0, cg_entries = 0,
     cg_sqpoll = False, cg_sqpoll_idle = 0\<rparr>"

lemma example_init_sound: "init_sound example_cfg_env"
  by (simp add: init_sound_def example_cfg_env_def keeps_made_def settings_made_def)

definition cfg_result :: "(bool \<times> cfg) run \<Rightarrow> cfg \<Rightarrow> cfg" where
  "cfg_result r g = (case r of Done (_, g') \<Rightarrow> g' | Abort \<Rightarrow> g)"

definition cfg_true :: "(bool \<times> cfg) run \<Rightarrow> bool" where
  "cfg_true r = (case r of Done (b, _) \<Rightarrow> b | Abort \<Rightarrow> False)"

lemma cfg_true_result: "cfg_true r \<Longrightarrow> r = Done (True, cfg_result r g)"
  by (auto simp: cfg_true_def cfg_result_def split: run.splits)

lemma config_call_Ret [simp]: "config_call env (Ret x) g = Done (True, g)"
  by (simp add: config_call_def luaS_pcall_config_method_def)

lemma setting_instrings_run:
  assumes "\<not> error_do_not_log (mo_S (cg_mods g))" "\<not> error_do_not_publish_event (mo_S (cg_mods g))"
  shows "setting_instrings_to_c env st (Ret toks) g =
    run_bind (luaS_instrings_lua_to_c (ge_instring env) (ge_config env) (nat (st_index st)) toks (cg_left g, cg_reg g))
      (\<lambda>(ins, left, reg). case ins of
         Some ins \<Rightarrow> Done (Some ins, g\<lparr>cg_left := left, cg_reg := reg\<rparr>)
       | None \<Rightarrow> finish_capture env st (error_count (mo_S (cg_mods g))) None
           (snd (shuso_set_error (ge_instring_error env) (snd (shuso_error_capture_start (mo_S (cg_mods g))))))
           (g\<lparr>cg_left := left, cg_reg := reg\<rparr>))"
proof -
  let ?S = "mo_S (cg_mods g)"
  have S: "?S\<lparr>error_do_not_publish_event := False, error_do_not_log := False\<rparr> = ?S"
    using assms by (cases ?S) simp
  show ?thesis
    by (cases "luaS_instrings_lua_to_c (ge_instring env) (ge_config env) (nat (st_index st)) toks (cg_left g, cg_reg g)")
      (auto simp: setting_instrings_to_c_def shuso_error_capture_start_def luaS_pcall_config_method_def
        finish_capture_def shuso_error_capture_finish_def S split: option.splits)
qed

definition literal_instring :: "string \<Rightarrow> nat \<Rightarrow> instring" where
  "literal_instring str r = \<lparr>is_variables = [], is_tokens = [Token_literal str],
     is_buf_head = \<lparr>buf_head = 0, buf_tail = 0, buf_memory_type = SHUSO_BUF_EXTERNAL\<rparr>, is_buf_link_iovcnt = 1, is_iov = [str],
     cv_reset_state = unknown_values, cv_state = \<lparr>vs_boolean = (if str = ''0'' then VALUE_VALID else VALUE_INVALID),
       vs_integer = (if str \<in> {''4'', ''0''} then VALUE_VALID else VALUE_INVALID), vs_number = VALUE_INVALID, vs_size = VALUE_INVALID,
       vs_string = VALUE_VALID\<rparr>,
     cv_boolean = False, cv_integer = (if str = ''4'' then 4 else 0), cv_number = 0, cv_size = 0, cv_string = Some str,
     cv_string_lua_ref = Some r\<rparr>"

lemma convert_literal:
  assumes "str \<in> {''4'', ''auto'', ''x''}"
  shows "luaS_instring_lua_to_c_generic example_value_env cfg st True [Lua_literal str] (Suc (Suc (Suc left)), reg) =
    Done (Some (literal_instring str (ie_ref example_value_env reg)), left, reg(ie_ref example_value_env reg \<mapsto> str))"
  using assms
  by (auto simp: luaS_instring_lua_to_c_generic_def pal_def instring_token_literal_lua_to_c_def instring_finish_def variable_tokens_def
    unknown_values_def literal_instring_def shuso_instring_boolean_value_def shuso_instring_integer_value_def
    shuso_instring_number_value_def shuso_instring_size_value_def shuso_instring_interpolate_def luaS_instring_tovalue_def
    luaS_push_iovec_as_string_def instring_toboolean_def example_value_env_def c_int_def)

lemma example_cfg_env_fields [simp]:
  "ge_instring example_cfg_env = example_value_env" "ge_config example_cfg_env = example_config_env"
  "ge_sys example_cfg_env = example_mod_sys" "ge_core example_cfg_env = 1" "ge_parsed example_cfg_env"
  "ge_handle example_cfg_env = Ret ()" "ge_get_root example_cfg_env = Ret ()" "ge_settings example_cfg_env = example_lua_settings"
  "ge_has_init example_cfg_env a = (a = 1)" "ge_init example_cfg_env a b g = (True, g\<lparr>cg_entries := cg_entries g + 1\<rparr>)"
  by (simp_all add: example_cfg_env_def)

definition example_rooted :: cfg where
  "example_rooted = example_cfg\<lparr>cg_left := 97, cg_instrings := [no_instrings, no_instrings], cg_contexts := [0 \<mapsto> []]\<rparr>"

lemma example_context_list: "shuso_context_list_initialize example_mod_sys (Suc 0) 0 (cg_mods example_cfg) = (True, [], cg_mods example_cfg)"
  by (simp add: shuso_context_list_initialize_def example_cfg_def example_mods_def plain_module_def)

lemma generate_root_run:
  assumes "pal (cg_left g) = Some a" "shuso_context_list_initialize (ge_sys env) (ge_core env) 0 (cg_mods g) = (True, cl, s)"
    "pal a = Some b" "ge_settings env \<noteq> []" "pal b = Some c"
  shows "generate_root env g = (True, g\<lparr>cg_left := c, cg_mods := s, cg_contexts := (cg_contexts g)(0 \<mapsto> cl),
    cg_instrings := replicate (length (ge_settings env)) no_instrings\<rparr>)"
  using assms by (simp add: generate_root_def)

lemma example_root: "generate_root example_cfg_env example_cfg = (True, example_rooted)"
proof -
  have l: "cg_left example_cfg = 100" "cg_contexts example_cfg = Map.empty" by (simp_all add: example_cfg_def)
  have s: "example_lua_settings \<noteq> []" "length example_lua_settings = Suc (Suc 0)" by (simp_all add: example_lua_settings_def)
  show ?thesis
    by (subst generate_root_run [where a = 99 and b = 98 and c = 97 and cl = "[]" and s = "cg_mods example_cfg"])
      (simp_all add: l s example_context_list pal_def example_rooted_def)
qed

lemma example_flags [simp]:
  "\<not> error_do_not_log (mo_S (cg_mods example_cfg))" "\<not> error_do_not_publish_event (mo_S (cg_mods example_cfg))"
  by (simp_all add: example_cfg_def example_mods_def example_shuso_def)

definition example_settings_made :: cfg where
  "example_settings_made = example_rooted\<lparr>cg_left := 82,
     cg_instrings := [\<lparr>si_local = [literal_instring ''4'' 1], si_inherited = [], si_defaults = [literal_instring ''auto'' 2], si_merged = From_local\<rparr>,
       \<lparr>si_local = [], si_inherited = [], si_defaults = [], si_merged = From_defaults\<rparr>],
     cg_reg := [1 \<mapsto> ''4'', 2 \<mapsto> ''auto''],
     cg_settings := [c_setting (example_lua_settings ! 0) 0, c_setting (example_lua_settings ! 1) 1],
     cg_contexts := [0 \<mapsto> [], 2 \<mapsto> []]\<rparr>"

lemma pal_numeral [simp]: "pal (numeral k) = Some (numeral k - 1)" "pal (Suc n) = Some n"
  by (simp_all add: pal_def)

lemma example_convert:
  assumes "str \<in> {''4'', ''auto'', ''x''}" "4 \<le> left"
  shows "luaS_instrings_lua_to_c example_value_env cfg st [[Lua_literal str]] (left, reg) =
    Done (Some [literal_instring str (ie_ref example_value_env reg)], left - 4, reg(ie_ref example_value_env reg \<mapsto> str))"
proof -
  obtain l where l: "left = Suc (Suc (Suc (Suc l)))" using assms(2) by (intro that [of "left - 4"]) simp
  show ?thesis
    using convert_literal [OF assms(1), of cfg st l reg] by (simp add: luaS_instrings_lua_to_c_def l)
qed

lemma convert_nothing: "0 < left \<Longrightarrow> luaS_instrings_lua_to_c env cfg st [] (left, reg) = Done (Some [], left - 1, reg)"
  by (simp add: luaS_instrings_lua_to_c_def pal_def)

lemma example_settings:
  "settings_to_c example_cfg_env 0 example_lua_settings example_rooted = Done (True, example_settings_made)"
proof -
  have flags: "\<not> error_do_not_log (mo_S (cg_mods example_rooted))" "\<not> error_do_not_publish_event (mo_S (cg_mods example_rooted))"
    by (simp_all add: example_rooted_def)
  have ref: "ie_ref example_value_env Map.empty = 1" "ie_ref example_value_env [Suc 0 \<mapsto> ''4''] = 2"
    by (simp_all add: example_value_env_def)
  define l0 l1 where ls: "l0 = example_lua_settings ! 0" "l1 = example_lua_settings ! 1"
  have l0s: "gs_local l0 = Ret [[Lua_literal ''4'']]" "gs_defaults l0 = Ret [[Lua_literal ''auto'']]" "gs_inherited l0 = Ret []"
    "\<not> gs_block l0" "gs_parent l0 = 0"
    by (simp_all add: ls example_lua_settings_def)
  have l1s: "gs_local l1 = Ret []" "gs_defaults l1 = Ret []" "gs_inherited l1 = Ret []" "gs_block l1" "gs_parent l1 = 0"
    by (simp_all add: ls example_lua_settings_def)
  have rooted: "cg_left example_rooted = 97" "cg_contexts example_rooted = [0 \<mapsto> []]" "cg_reg example_rooted = Map.empty"
    "cg_instrings example_rooted = [no_instrings, no_instrings]" "cg_settings example_rooted = []"
    by (simp_all add: example_rooted_def example_cfg_def)
  let ?g1 = "example_rooted\<lparr>cg_left := 87, cg_reg := [1 \<mapsto> ''4'', 2 \<mapsto> ''auto''], cg_settings := [c_setting l0 0],
    cg_instrings := [\<lparr>si_local = [literal_instring ''4'' 1], si_inherited = [], si_defaults = [literal_instring ''auto'' 2], si_merged = From_local\<rparr>,
      no_instrings]\<rparr>"
  have 1: "lua_setting_to_c_struct example_cfg_env l0 0 example_rooted = Done (True, ?g1)"
    by (simp add: lua_setting_to_c_struct_def setting_block_to_c_def setting_values_to_c_def setting_instrings_run flags l0s rooted ref
      example_convert convert_nothing merged_source_def)
  have ctx: "shuso_context_list_initialize example_mod_sys (Suc 0) 0 (cg_mods example_rooted) = (True, [], cg_mods example_rooted)"
    using example_context_list by (simp add: example_rooted_def)
  have made: "example_settings_made = example_rooted\<lparr>cg_left := 82,
     cg_instrings := [\<lparr>si_local = [literal_instring ''4'' 1], si_inherited = [], si_defaults = [literal_instring ''auto'' 2], si_merged = From_local\<rparr>,
       \<lparr>si_local = [], si_inherited = [], si_defaults = [], si_merged = From_defaults\<rparr>],
     cg_reg := [1 \<mapsto> ''4'', 2 \<mapsto> ''auto''], cg_settings := [c_setting l0 0, c_setting l1 1],
     cg_contexts := [0 \<mapsto> [], 2 \<mapsto> []]\<rparr>"
    by (simp add: example_settings_made_def ls)
  have 2: "lua_setting_to_c_struct example_cfg_env l1 1 ?g1 = Done (True, example_settings_made)"
    by (simp add: lua_setting_to_c_struct_def setting_block_to_c_def setting_values_to_c_def setting_instrings_run flags l1s rooted
      convert_nothing merged_source_def ctx made numeral_2_eq_2)
  have both: "example_lua_settings = [l0, l1]" by (simp add: ls example_lua_settings_def)
  have "settings_to_c example_cfg_env 0 [l0, l1] example_rooted = Done (True, example_settings_made)"
    using 1 2 by simp
  then show ?thesis by (simp only: both)
qed

definition example_generated :: cfg where
  "example_generated = example_settings_made\<lparr>cg_left := 81, cg_root := Some 0, cg_blocks := [0, 2], cg_entries := 2\<rparr>"

lemma example_init_blocks:
  "init_blocks example_cfg_env [0, 2] example_settings_made = (True, example_settings_made\<lparr>cg_entries := 2\<rparr>)"
proof -
  have "mo_array (cg_mods example_settings_made) = [1]" "cg_entries example_settings_made = 0"
    by (simp_all add: example_settings_made_def example_rooted_def example_cfg_def)
  then show ?thesis by simp
qed

lemma example_all_blocks: "all_blocks example_lua_settings = [0, 2]"
  by (simp add: all_blocks_def example_lua_settings_def)

lemma example_generate: "shuso_config_system_generate example_cfg_env example_cfg = Done (True, example_generated)"
proof -
  let ?g = "example_settings_made\<lparr>cg_entries := 2\<rparr>"
  have root: "cg_root ?g = None" "cg_left ?g = 82"
    by (simp_all add: example_settings_made_def example_rooted_def example_cfg_def)
  have blocks: "generate_blocks example_cfg_env ?g = (True, example_generated)"
    by (simp add: generate_blocks_def root example_all_blocks example_generated_def root [simplified])
  show ?thesis
    unfolding shuso_config_system_generate_def
    by (simp add: run_steps_True example_root example_settings example_all_blocks example_init_blocks root [simplified] blocks c_assert_def
      del: init_blocks.simps)
qed

text \<open>Reading literals whose values are cached changes nothing.\<close>

lemma literal_readable:
  assumes "str \<in> {''4'', ''0'', ''auto''}"
  shows "readable example_value_env (literal_instring str r)"
proof -
  have wf: "instring_wf (literal_instring str r)"
    by (simp add: instring_wf_def literal_instring_def variable_tokens_def unknown_values_def)
  have sh: "interpolated example_value_env (literal_instring str r) = [str]"
    by (simp add: interpolated_def literal_instring_def variable_tokens_def)
  have "instring_toboolean str = (if str = ''0'' then Some False else None)" using assms by (auto simp: instring_toboolean_def)
  moreover have "map_option c_int (ie_tointeger example_value_env str) =
      (if str \<in> {''4'', ''0''} then Some (if str = ''4'' then 4 else 0) else None)"
    using assms by (auto simp: example_value_env_def c_int_def)
  moreover have "ie_tonumber example_value_env str = None" "ie_tosize example_value_env str = None"
    by (simp_all add: example_value_env_def)
  ultimately have "cache_ok example_value_env (literal_instring str r)"
    using assms by (simp add: cache_ok_def literal_instring_def Let_def)
  then show ?thesis using wf sh assms by (auto simp: readable_def)
qed


definition core_instrings :: "string \<Rightarrow> setting_instrings" where
  "core_instrings str = \<lparr>si_local = [literal_instring str 1], si_inherited = [], si_defaults = [], si_merged = From_local\<rparr>"

definition core_env :: cfg_env where
  "core_env = example_cfg_env\<lparr>ge_seconds := (\<lambda>s. Some 0), ge_find_setting := (\<lambda>b name. Ret (c_setting (example_lua_settings ! 0)
     (if name \<in> {''io_uring'', ''io_uring_sq_kernel_poll''} then 1 else 0)))\<rparr>"

definition core_cfg :: "string \<Rightarrow> cfg" where
  "core_cfg n = example_cfg\<lparr>cg_instrings := [core_instrings n, (core_instrings ''auto'')
     \<lparr>si_local := [literal_instring ''auto'' 2]\<rparr>], cg_reg := [1 \<mapsto> n, 2 \<mapsto> ''auto'']\<rparr>"


lemma literal_worker_ready:
  assumes "str \<in> {''4'', ''0'', ''auto''}"
  shows "worker_ready example_value_env (literal_instring str r)"
proof -
  have "is_variables (literal_instring str r) = []" by (simp add: literal_instring_def)
  then show ?thesis using literal_readable [OF assms] by (simp add: worker_ready_def)
qed


text \<open>Reading a cached literal: a whole run of the core module over the root block.\<close>

lemma core_env_fields:
  "ge_instring core_env = example_value_env" "ge_match core_env s p = (s = ''auto'')" "ge_match_path core_env b q = (b = 0)"
  "ge_seconds core_env s = Some 0" "ge_millis core_env w = 500" "\<not> ge_root core_env" "ge_cores core_env = 8"
  "ge_find_setting core_env b name = Ret (c_setting (example_lua_settings ! 0)
     (if name \<in> {''io_uring'', ''io_uring_sq_kernel_poll''} then 1 else 0))"
  by (simp_all add: core_env_def example_cfg_env_def)

lemma core_setting: "shuso_setting core_env b name g = Done (Some (c_setting (example_lua_settings ! 0)
    (if name \<in> {''io_uring'', ''io_uring_sq_kernel_poll''} then 1 else 0)), g)"
  by (simp add: shuso_setting_def core_env_fields luaS_pcall_config_method_def)

lemma core_cfg_instrings:
  "cg_instrings (core_cfg n) = [core_instrings n, (core_instrings ''auto'')\<lparr>si_local := [literal_instring ''auto'' 2]\<rparr>]"
  "cg_reg (core_cfg n) = [1 \<mapsto> n, 2 \<mapsto> ''auto'']"
  by (simp_all add: core_cfg_def)

lemma c_setting_index: "st_index (c_setting l i) = int i"
  by (simp add: c_setting_def)

lemma core_same [simp]:
  "g\<lparr>cg_instrings := cg_instrings g, cg_reg := cg_reg g\<rparr> = (g :: cfg)" "si\<lparr>si_local := si_local si\<rparr> = (si :: setting_instrings)"
  by simp_all

lemma literal_unchanged: "shuso_instring_interpolate env (literal_instring str r, reg) = Done (literal_instring str r, reg)"
  by (simp add: shuso_instring_interpolate_def literal_instring_def)

lemma read_literal:
  assumes "cg_instrings g ! i = core_instrings n \<lparr>si_local := [literal_instring n r]\<rparr>" "i < length (cg_instrings g)"
  shows "shuso_setting_integer core_env (Some (c_setting l i)) 0 g = Done
      (if n \<in> {''4'', ''0''} then (True, Some (Integer_value (if n = ''4'' then 4 else 0))) else (False, None), g)"
    and "shuso_setting_string core_env (Some (c_setting l i)) 0 g = Done ((True, Some (String_value n)), g)"
    and "cg_reg g r = Some n \<Longrightarrow> shuso_setting_string_matches core_env (Some (c_setting l i)) 0 p g = Done (n = ''auto'', g)"
proof -
  have g: "g\<lparr>cg_instrings := (cg_instrings g)[i := cg_instrings g ! i], cg_reg := cg_reg g\<rparr> = g"
    using assms(2) by simp
  have st: "st_index (c_setting l i) = int i" by (simp add: c_setting_def)
  have si: "(core_instrings n)\<lparr>si_local := [literal_instring n r]\<rparr> =
      \<lparr>si_local = [literal_instring n r], si_inherited = [], si_defaults = [], si_merged = From_local\<rparr>"
    by (simp add: core_instrings_def)
  have v: "vs_integer (cv_state (literal_instring n r)) = (if n \<in> {''4'', ''0''} then VALUE_VALID else VALUE_INVALID)"
    "cv_integer (literal_instring n r) = (if n = ''4'' then 4 else 0)" "vs_string (cv_state (literal_instring n r)) = VALUE_VALID"
    "cv_string (literal_instring n r) = Some n" "cv_string_lua_ref (literal_instring n r) = Some r"
    by (simp_all add: literal_instring_def)
  note rules = shuso_setting_value_def st assms(2) assms(1) [unfolded si] size_of_int_def Let_def core_env_fields as_value_def
    literal_unchanged v g [unfolded assms(1) si]
  show "shuso_setting_integer core_env (Some (c_setting l i)) 0 g = Done
      (if n \<in> {''4'', ''0''} then (True, Some (Integer_value (if n = ''4'' then 4 else 0))) else (False, None), g)"
    unfolding shuso_setting_integer_def by (simp add: rules shuso_instring_integer_value_def)
  show "shuso_setting_string core_env (Some (c_setting l i)) 0 g = Done ((True, Some (String_value n)), g)"
    unfolding shuso_setting_string_def by (simp add: rules shuso_instring_string_value_def)
  show "cg_reg g r = Some n \<Longrightarrow> shuso_setting_string_matches core_env (Some (c_setting l i)) 0 p g = Done (n = ''auto'', g)"
    unfolding shuso_setting_string_matches_def by (simp add: rules shuso_instring_string_value_def)
qed

theorem core_config_bounds_witness:
  "\<exists>g'. core_module_initialize_config core_env 0 (core_cfg ''4'') = Done (True, g') \<and> cg_workers g' = 4 \<and> 0 < cg_entries g'"
proof -
  define core where "core = (\<lambda>w u e q d. (core_cfg ''4'')\<lparr>cg_workers := w, cg_io_uring := u, cg_entries := e, cg_sqpoll := q, cg_sqpoll_idle := d\<rparr>)"
  have at: "cg_instrings (core w u e q d) ! 0 = core_instrings ''4'' \<lparr>si_local := [literal_instring ''4'' 1]\<rparr>"
    "0 < length (cg_instrings (core w u e q d))" "cg_reg (core w u e q d) 1 = Some ''4''"
    "cg_instrings (core w u e q d) ! Suc 0 = core_instrings ''auto'' \<lparr>si_local := [literal_instring ''auto'' 2]\<rparr>"
    "Suc 0 < length (cg_instrings (core w u e q d))" "cg_reg (core w u e q d) 2 = Some ''auto''" for w u e q d
    by (simp_all add: core_def core_cfg_def core_instrings_def)
  note read = read_literal [OF at(1,2)] read_literal(1,2) [OF at(4,5)] read_literal(3) [OF at(4,5,6)]
  have upd: "(core w u e q d)\<lparr>cg_workers := x\<rparr> = core x u e q d" "(core w u e q d)\<lparr>cg_io_uring := x\<rparr> = core w x e q d"
    "(core w u e q d)\<lparr>cg_entries := x\<rparr> = core w u x q d" "(core w u e q d)\<lparr>cg_sqpoll := y\<rparr> = core w u e y d"
    "(core w u e q d)\<lparr>cg_sqpoll_idle := x\<rparr> = core w u e q x" for w u e q d x y
    by (simp_all add: core_def)
  have steps: "core_config_workers core_env 0 (core w u e q d) = Done (True, core 4 u e q d)"
    "core_config_io_uring core_env 0 (core w u e q d) = Done (True, core w SHUSO_MAYBE e q d)"
    "core_config_entries core_env 0 (core w u e q d) = Done (True, core w u 4 q d)"
    "core_config_sqpoll core_env 0 (core w u e q d) = Done (True, core w u e False d)"
    "core_config_idle core_env 0 (core w u e q d) = Done (True, core w u e q 500)" for w u e q d
    by (simp_all add: core_config_workers_def core_config_io_uring_def core_config_entries_def core_config_sqpoll_def core_config_idle_def
      shuso_setting_time_sec_def core_setting read upd core_env_fields SHUTTLESOCK_MAX_WORKERS_def
      read [unfolded shuso_setting_string_def])
  obtain w u e q d where g: "core_cfg ''4'' = core w u e q d"
    by (intro that [of "cg_workers (core_cfg ''4'')" "cg_io_uring (core_cfg ''4'')" "cg_entries (core_cfg ''4'')"
      "cg_sqpoll (core_cfg ''4'')" "cg_sqpoll_idle (core_cfg ''4'')"]) (simp add: core_def)
  have run: "core_module_initialize_config core_env 0 (core_cfg ''4'') = Done (True, core 4 SHUSO_MAYBE 4 False 500)"
    by (simp add: core_module_initialize_config_def g steps core_env_fields)
  have "ge_match_path core_env 0 ''/''" by (simp add: core_env_fields)
  from core_config_bounds [OF run this] run show ?thesis
    by (intro exI [of _ "core 4 SHUSO_MAYBE 4 False 500"]) (simp add: core_def)
qed

theorem zero_workers_abort_witness:
  "\<exists>g'. core_config_workers core_env 0 (core_cfg ''0'') = Done (True, g') \<and>
    shuso_configure_finish example_config_sys
      ((example_startup no_resources configuring_master)\<lparr>su_workers := nat (cg_workers g')\<rparr>) = Abort"
proof (rule zero_workers_abort)
  show "shuso_setting core_env 0 ''workers'' (core_cfg ''0'') = Done (Some (c_setting (example_lua_settings ! 0) 0), core_cfg ''0'')"
    by (simp add: core_setting)
  show "shuso_setting_integer core_env (Some (c_setting (example_lua_settings ! 0) 0)) 0 (core_cfg ''0'') =
      Done ((True, Some (Integer_value 0)), core_cfg ''0'')"
    by (subst read_literal(1) [where n = "''0''" and r = 1]) (simp_all add: core_cfg_def core_instrings_def)
qed (simp_all add: example_config_sys_def example_startup_def example_shuso_def)

end
