(* ===== verification/Log.thy ===== *)
theory Log
  imports Process
begin

text \<open>
  Log lines (\<^verbatim>\<open>log.c\<close>): the line is made in the buffer of the thread, cut short if it is too long, and
  written to the descriptor of the log.  The text that \<^verbatim>\<open>vsnprintf\<close> makes of format and arguments is the argument
  \<open>msg\<close>.
\<close>

section \<open>Printing into a buffer\<close>

text \<open>
  \<^verbatim>\<open>snprintf(&buf[pos], n, ...)\<close>: the length of the whole text, of which at most \<open>n - 1\<close> characters and a
  null character are stored.  Storing past the end of the buffer is \<open>Abort\<close>.
\<close>

definition snprintf_at :: "nat \<Rightarrow> nat \<Rightarrow> string \<Rightarrow> string \<Rightarrow> (nat \<times> string) run" where
  "snprintf_at pos n str buf =
     (let w = (if n = 0 then [] else take (n - 1) str @ [CHR 0x00]) in
      c_assert (pos + length w \<le> length buf) (Done (length str, take pos buf @ w @ drop (pos + length w) buf)))"

definition SHUTTLESOCK_MAX_LOG_LINE_SIZE :: nat where
  "SHUTTLESOCK_MAX_LOG_LINE_SIZE = 4096"

datatype loglevel =
    SHUSO_LOG_DEBUG | SHUSO_LOG_INFO | SHUSO_LOG_NOTICE | SHUSO_LOG_WARNING
  | SHUSO_LOG_ERROR | SHUSO_LOG_CRITICAL | SHUSO_LOG_FATAL | Other_loglevel int

definition SHUTTLESOCK_NOPROCESS :: int where
  "SHUTTLESOCK_NOPROCESS = - 3"

section \<open>The line\<close>

definition log_procname :: "int \<Rightarrow> string" where
  "log_procname pnum =
     (if pnum = SHUTTLESOCK_NOPROCESS then ''none     ''
      else if pnum = SHUTTLESOCK_MASTER then ''master   ''
      else if pnum = SHUTTLESOCK_MANAGER then ''manager  ''
      else if pnum > SHUTTLESOCK_MANAGER then ''worker ''
      else ''??????   '')"

text \<open>Any other level raises \<^verbatim>\<open>SIGABRT\<close>.\<close>

fun log_level_name :: "loglevel \<Rightarrow> string option" where
  "log_level_name SHUSO_LOG_FATAL = Some ''   FATAL''"
| "log_level_name SHUSO_LOG_CRITICAL = Some ''CRITICAL''"
| "log_level_name SHUSO_LOG_ERROR = Some ''   ERROR''"
| "log_level_name SHUSO_LOG_WARNING = Some '' WARNING''"
| "log_level_name SHUSO_LOG_NOTICE = Some ''  NOTICE''"
| "log_level_name SHUSO_LOG_INFO = Some ''    INFO''"
| "log_level_name SHUSO_LOG_DEBUG = Some ''   DEBUG''"
| "log_level_name (Other_loglevel n) = None"

definition log_prefix :: "int \<Rightarrow> int \<Rightarrow> string \<Rightarrow> string" where
  "log_prefix pnum pid lvl =
     (if pnum \<ge> SHUTTLESOCK_WORKER
      then ''['' @ decimal pid @ '' '' @ log_procname pnum @ '' '' @ decimal pnum @ ''] '' @ lvl @ '': ''
      else ''['' @ decimal pid @ '' '' @ log_procname pnum @ ''] '' @ lvl @ '': '')"

text \<open>
  \<^verbatim>\<open>shuso_log_level_vararg\<close>: the buffer, and what is written.  \<open>cur\<close> is an offset in the buffer, \<open>last\<close> that of its
  last byte.
\<close>

definition shuso_log_level_vararg :: "int \<Rightarrow> int \<Rightarrow> loglevel \<Rightarrow> string \<Rightarrow> string \<Rightarrow> (string \<times> string) run" where
  "shuso_log_level_vararg pnum pid level msg logbuf =
     (case log_level_name level of
        None \<Rightarrow> Abort
      | Some lvl \<Rightarrow>
          (let last = SHUTTLESOCK_MAX_LOG_LINE_SIZE - 1 in
           run_bind (snprintf_at 0 last (log_prefix pnum pid lvl) logbuf) (\<lambda>(n, logbuf).
             let cur = n in
             run_bind (snprintf_at cur (last - cur) msg logbuf) (\<lambda>(n, logbuf).
               let cur = cur + n in
               run_bind (if cur \<ge> last
                  then run_bind (snprintf_at (last - 5) (last - (last - 5)) (''...'' @ [CHR 0x0A]) logbuf)
                         (\<lambda>(n, logbuf). Done (last - 5 + n, logbuf))
                  else run_bind (snprintf_at cur (last - cur) [CHR 0x0A] logbuf) (\<lambda>(n, logbuf). Done (cur + n, logbuf)))
                 (\<lambda>(cur, logbuf). Done (logbuf, take cur logbuf))))))"

text \<open>The functions for one level each; \<^verbatim>\<open>shuso_log\<close> is for the default level.\<close>

definition shuso_log_level :: "int \<Rightarrow> int \<Rightarrow> loglevel \<Rightarrow> string \<Rightarrow> string \<Rightarrow> (string \<times> string) run" where
  "shuso_log_level pnum pid level = shuso_log_level_vararg pnum pid level"

definition shuso_log :: "int \<Rightarrow> int \<Rightarrow> string \<Rightarrow> string \<Rightarrow> (string \<times> string) run" where
  "shuso_log pnum pid = shuso_log_level_vararg pnum pid SHUSO_LOG_INFO"

definition shuso_log_fatal :: "int \<Rightarrow> int \<Rightarrow> string \<Rightarrow> string \<Rightarrow> (string \<times> string) run" where
  "shuso_log_fatal pnum pid = shuso_log_level_vararg pnum pid SHUSO_LOG_FATAL"

definition shuso_log_critical :: "int \<Rightarrow> int \<Rightarrow> string \<Rightarrow> string \<Rightarrow> (string \<times> string) run" where
  "shuso_log_critical pnum pid = shuso_log_level_vararg pnum pid SHUSO_LOG_CRITICAL"

definition shuso_log_error :: "int \<Rightarrow> int \<Rightarrow> string \<Rightarrow> string \<Rightarrow> (string \<times> string) run" where
  "shuso_log_error pnum pid = shuso_log_level_vararg pnum pid SHUSO_LOG_ERROR"

definition shuso_log_warning :: "int \<Rightarrow> int \<Rightarrow> string \<Rightarrow> string \<Rightarrow> (string \<times> string) run" where
  "shuso_log_warning pnum pid = shuso_log_level_vararg pnum pid SHUSO_LOG_WARNING"

definition shuso_log_notice :: "int \<Rightarrow> int \<Rightarrow> string \<Rightarrow> string \<Rightarrow> (string \<times> string) run" where
  "shuso_log_notice pnum pid = shuso_log_level_vararg pnum pid SHUSO_LOG_NOTICE"

definition shuso_log_info :: "int \<Rightarrow> int \<Rightarrow> string \<Rightarrow> string \<Rightarrow> (string \<times> string) run" where
  "shuso_log_info pnum pid = shuso_log_level_vararg pnum pid SHUSO_LOG_INFO"

definition shuso_log_debug :: "int \<Rightarrow> int \<Rightarrow> string \<Rightarrow> string \<Rightarrow> (string \<times> string) run" where
  "shuso_log_debug pnum pid = shuso_log_level_vararg pnum pid SHUSO_LOG_DEBUG"

section \<open>What is written\<close>

lemma length_decimal: "\<bar>i\<bar> < 10 ^ 10 \<Longrightarrow> length (decimal i) \<le> 11"
  using length_decimal_nat [of "nat (- i)" 10] length_decimal_nat [of "nat i" 10]
  by (auto simp: decimal_def nat_less_iff)

lemma log_prefix_length:
  assumes "\<bar>pnum\<bar> < 2 ^ 31" "\<bar>pid\<bar> < 2 ^ 31" "log_level_name level = Some lvl"
  shows "length (log_prefix pnum pid lvl) \<le> 60"
proof -
  have "length lvl = 8" using assms(3) by (cases level) auto
  moreover have "length (log_procname pnum) \<le> 9" by (simp add: log_procname_def)
  ultimately show ?thesis
    using length_decimal [of pid] length_decimal [of pnum] assms(1,2) by (simp add: log_prefix_def)
qed

text \<open>Printing behind what is there: the buffer then starts with both, as far as they fit.\<close>

lemma snprintf_at_ok:
  assumes "length buf = N" "take pos buf = p" "length p = pos" "pos + n \<le> N" "0 < n"
  shows "\<exists>buf'. snprintf_at pos n str buf = Done (length str, buf') \<and> length buf' = N \<and>
    (\<forall>k \<le> pos + min (n - 1) (length str). take k buf' = take k (p @ str)) \<and>
    buf' ! (pos + min (n - 1) (length str)) = CHR 0x00"
proof -
  let ?m = "min (n - 1) (length str)"
  let ?w = "take (n - 1) str @ [CHR 0x00]"
  let ?buf' = "p @ ?w @ drop (pos + length ?w) buf"
  have l: "length ?w = ?m + 1" by simp
  have fits: "pos + length ?w \<le> length buf" using assms unfolding l by linarith
  have "snprintf_at pos n str buf = Done (length str, ?buf')"
    using assms(2,5) fits by (simp add: snprintf_at_def Let_def)
  moreover have "length ?buf' = N" using fits assms by simp
  moreover have "take k ?buf' = take k (p @ str)" if "k \<le> pos + ?m" for k
    using that assms(3) by (simp add: take_append min_def split: if_splits)
  moreover have "?buf' ! (pos + ?m) = CHR 0x00"
    using assms(3) by (simp add: nth_append min_def)
  ultimately show ?thesis by blast
qed

text \<open>What a line becomes.\<close>

definition logged :: "string \<Rightarrow> string" where
  "logged line =
     (if length line < 4094 then line @ [CHR 0x0A]
      else if length line = 4094 then line @ [CHR 0x00]
      else take 4090 line @ ''...'' @ [CHR 0x0A])"

text \<open>C27: Log lines stay within the buffer. Whatever the message is, nothing outside the buffer of 4096 bytes is
  touched and the buffer keeps its size; a line of less than 4094 bytes is written whole with a newline, a
  longer one is cut after 4090 bytes and marked with dots, and a line of exactly 4094 bytes gets a null
  character in place of its newline.\<close>

theorem log_line_written:
  assumes "length logbuf = SHUTTLESOCK_MAX_LOG_LINE_SIZE" "\<bar>pnum\<bar> < 2 ^ 31" "\<bar>pid\<bar> < 2 ^ 31"
    and "log_level_name level = Some lvl"
  shows "\<exists>logbuf'. shuso_log_level_vararg pnum pid level msg logbuf = Done (logbuf', logged (log_prefix pnum pid lvl @ msg)) \<and>
    length logbuf' = SHUTTLESOCK_MAX_LOG_LINE_SIZE"
proof -
  let ?p = "log_prefix pnum pid lvl"
  let ?line = "?p @ msg"
  have p: "length ?p \<le> 60" using log_prefix_length [OF assms(2-4)] .
  have buf: "length logbuf = 4096" using assms(1) by (simp add: SHUTTLESOCK_MAX_LOG_LINE_SIZE_def)
  obtain b1 where 1: "snprintf_at 0 4095 ?p logbuf = Done (length ?p, b1)" "length b1 = 4096"
    and t1: "\<forall>k \<le> min 4094 (length ?p). take k b1 = take k ?p"
    using snprintf_at_ok [OF buf, of 0 "[]" 4095 ?p] by auto
  have pre: "take (length ?p) b1 = ?p" using t1 p by simp
  obtain b2 where 2: "snprintf_at (length ?p) (4095 - length ?p) msg b1 = Done (length msg, b2)" "length b2 = 4096"
    and t2: "\<forall>k \<le> length ?p + min (4095 - length ?p - 1) (length msg). take k b2 = take k ?line"
    using snprintf_at_ok [OF 1(2) pre refl, of "4095 - length ?p" msg] p by auto
  show ?thesis
  proof (cases "length ?line \<ge> 4095")
    case True
    have 4090: "take 4090 b2 = take 4090 ?line" using t2 [rule_format, of 4090] True p by simp
    obtain b3 where 3: "snprintf_at 4090 5 (''...'' @ [CHR 0x0A]) b2 = Done (4, b3)" "length b3 = 4096"
      and t3: "\<forall>k \<le> 4094. take k b3 = take k (take 4090 b2 @ ''...'' @ [CHR 0x0A])"
      using snprintf_at_ok [OF 2(2) refl, of 4090 5 "''...'' @ [CHR 0x0A]"] 2(2) by auto
    have "take 4094 b3 = logged ?line" using t3 [rule_format, of 4094] True 2(2) by (simp add: 4090 logged_def)
    then show ?thesis using True 1(1) 2(1) 3 assms(4)
      by (simp add: shuso_log_level_vararg_def SHUTTLESOCK_MAX_LOG_LINE_SIZE_def Let_def)
  next
    case False
    let ?n = "length ?line"
    have whole: "take ?n b2 = ?line" using t2 [rule_format, of ?n] False by simp
    obtain b3 where 3: "snprintf_at ?n (4095 - ?n) [CHR 0x0A] b2 = Done (1, b3)" "length b3 = 4096"
      and t3: "\<forall>k \<le> ?n + min (4095 - ?n - 1) 1. take k b3 = take k (?line @ [CHR 0x0A])"
      and nul: "b3 ! (?n + min (4095 - ?n - 1) 1) = CHR 0x00"
      using snprintf_at_ok [OF 2(2) whole refl, of "4095 - ?n" "[CHR 0x0A]"] False by auto
    have "take (?n + 1) b3 = logged ?line"
    proof (cases "?n = 4094")
      case True
      then have "take (?n + 1) b3 = take ?n b3 @ [b3 ! ?n]" 
        using take_Suc_conv_app_nth [of ?n b3] 3(2) by (simp del: take_Suc_conv_app_nth)
      then show ?thesis using t3 [rule_format, of ?n] nul True by (simp add: logged_def)
    next
      case n: False
      then show ?thesis using t3 [rule_format, of "?n + 1"] False by (simp add: logged_def)
    qed
    then show ?thesis using False 1(1) 2(1) 3 assms(4)
      by (simp add: shuso_log_level_vararg_def SHUTTLESOCK_MAX_LOG_LINE_SIZE_def Let_def add.assoc)
  qed
qed

theorem log_line_written_witness:
  "\<exists>logbuf'. shuso_log_level_vararg 3 42 SHUSO_LOG_ERROR ''no'' (replicate 4096 CHR 0x20) =
      Done (logbuf', logged (log_prefix 3 42 ''   ERROR'' @ ''no'')) \<and> length logbuf' = SHUTTLESOCK_MAX_LOG_LINE_SIZE"
  by (rule log_line_written) (simp_all add: SHUTTLESOCK_MAX_LOG_LINE_SIZE_def)

end
