(* ===== verification/Lazy_Atomics.thy ===== *)
theory Lazy_Atomics
  imports Config Shared_Slab
begin

unbundle bit_operations_syntax

text \<open>
  Atomic values shared by the Lua states of all workers (\<^verbatim>\<open>lazy_atomics.c\<close>): creating, setting, reading,
  incrementing and destroying them from Lua, first one call at a time, then the interleavings of calls in several
  threads.
\<close>

section \<open>State\<close>

text \<open>
  A value of Lua.  A userdata is its number; \<open>V_other\<close> is a value of any other type, by the name of the type.
  Integers have 64 bits, numbers are the bits of a double.
\<close>

datatype lua_value =
    V_nil
  | V_bool bool
  | V_integer int
  | V_number "64 word"
  | V_string string
  | V_pointer addr
  | V_atomic nat
  | V_other string

text \<open>What a C function gives back to Lua: its results, or an error that it raises.\<close>

datatype lua_return = Values "lua_value list" | Lua_error string

text \<open>\<^verbatim>\<open>shuso_lua_lazy_atomic_value_t\<close>\<close>

record atomic_value =
  av_typemix :: "32 word"
  av_string :: addr
  av_integer :: "32 word"
  av_number :: "64 word"
  av_boolean :: bool
  av_pointer :: addr

text \<open>\<^verbatim>\<open>lua_lazy_atomic_userdata_t\<close>; \<open>None\<close> is \<^verbatim>\<open>LUA_NOREF\<close>.\<close>

record lazy_userdata =
  ud_atomic :: addr
  ud_id_string_ref :: "nat option"

text \<open>The shared memory with the values and strings in it, and the userdata and the registry of a Lua state.\<close>

record lazy =
  lz_S :: shuso
  lz_shm :: shared_slab
  lz_values :: "addr \<rightharpoonup> atomic_value"
  lz_strings :: "addr \<rightharpoonup> string"
  lz_userdata :: "nat \<rightharpoonup> lazy_userdata"
  lz_registry :: "nat \<rightharpoonup> lua_value"

text \<open>
  What allocated memory holds, Lua's conversion of a number to an integer, its allocation of userdata and
  references, and what memory of userdata holds.
\<close>

record lazy_env =
  le_fresh :: "addr \<Rightarrow> atomic_value"
  le_tointeger :: "64 word \<Rightarrow> int"
  le_userdata :: "lazy \<Rightarrow> nat option"
  le_ref :: "(nat \<rightharpoonup> lua_value) \<Rightarrow> nat"
  le_fresh_ref :: "nat \<Rightarrow> nat option"

definition SHUSO_LUA_SHATOMIC_NIL :: nat where "SHUSO_LUA_SHATOMIC_NIL = 0"

definition SHUSO_LUA_SHATOMIC_BOOLEAN :: nat where "SHUSO_LUA_SHATOMIC_BOOLEAN = 1"

definition SHUSO_LUA_SHATOMIC_STRING :: nat where "SHUSO_LUA_SHATOMIC_STRING = 2"

definition SHUSO_LUA_SHATOMIC_INTEGER :: nat where "SHUSO_LUA_SHATOMIC_INTEGER = 3"

definition SHUSO_LUA_SHATOMIC_NUMBER :: nat where "SHUSO_LUA_SHATOMIC_NUMBER = 4"

definition SHUSO_LUA_SHATOMIC_POINTER :: nat where "SHUSO_LUA_SHATOMIC_POINTER = 5"

lemmas shatomic_types =
  SHUSO_LUA_SHATOMIC_NIL_def SHUSO_LUA_SHATOMIC_BOOLEAN_def SHUSO_LUA_SHATOMIC_STRING_def
  SHUSO_LUA_SHATOMIC_INTEGER_def SHUSO_LUA_SHATOMIC_NUMBER_def SHUSO_LUA_SHATOMIC_POINTER_def

definition sizeof_atomic_value :: nat where "sizeof_atomic_value = 48"

definition sizeof_sized_string :: nat where "sizeof_sized_string = 8"

section \<open>One call at a time\<close>

text \<open>The compare-and-exchange of counter and type.\<close>

definition new_typemix :: "32 word \<Rightarrow> nat \<Rightarrow> 32 word" where
  "new_typemix old t = push_bit 8 (drop_bit 8 old + 1) + of_nat t"

definition update_type_safely :: "atomic_value \<Rightarrow> 32 word \<Rightarrow> nat \<Rightarrow> bool \<times> atomic_value" where
  "update_type_safely av old_typemix new_type =
     (if av_typemix av = old_typemix then (True, av\<lparr>av_typemix := new_typemix old_typemix new_type\<rparr>) else (False, av))"

definition get_type :: "atomic_value \<Rightarrow> nat" where
  "get_type av = unat (av_typemix av AND 0x0F)"

text \<open>Storing a value that is not a string, with its type.\<close>

fun store_value :: "lua_value \<Rightarrow> atomic_value \<Rightarrow> (atomic_value \<times> nat) option" where
  "store_value (V_integer i) av = Some (av\<lparr>av_integer := word_of_int i\<rparr>, SHUSO_LUA_SHATOMIC_INTEGER)"
| "store_value (V_number x) av = Some (av\<lparr>av_number := x\<rparr>, SHUSO_LUA_SHATOMIC_NUMBER)"
| "store_value (V_pointer p) av = Some (av\<lparr>av_pointer := p\<rparr>, SHUSO_LUA_SHATOMIC_POINTER)"
| "store_value V_nil av = Some (av, SHUSO_LUA_SHATOMIC_NIL)"
| "store_value (V_bool b) av = Some (av\<lparr>av_boolean := b\<rparr>, SHUSO_LUA_SHATOMIC_BOOLEAN)"
| "store_value _ av = None"

fun lua_typename :: "lua_value \<Rightarrow> string" where
  "lua_typename V_nil = ''nil''"
| "lua_typename (V_bool b) = ''boolean''"
| "lua_typename (V_integer i) = ''number''"
| "lua_typename (V_number x) = ''number''"
| "lua_typename (V_string s) = ''string''"
| "lua_typename (V_pointer p) = ''userdata''"
| "lua_typename (V_atomic u) = ''userdata''"
| "lua_typename (V_other t) = t"

definition cant_set :: "lua_value \<Rightarrow> lua_return" where
  "cant_set v = Values [V_nil, V_string (''can't set atomic value type '' @ lua_typename v)]"

text \<open>\<^verbatim>\<open>luaL_checkudata\<close> on the first argument.\<close>

definition check_atomic :: "lua_value option \<Rightarrow> lazy \<Rightarrow> (nat \<times> lazy_userdata) option" where
  "check_atomic arg lz =
     (case arg of Some (V_atomic u) \<Rightarrow> map_option (\<lambda>ud. (u, ud)) (lz_userdata lz u) | _ \<Rightarrow> None)"

definition bad_argument :: lua_return where
  "bad_argument = Lua_error ''bad argument #1 (shuttlesock.lazy_atomic expected)''"

definition destroyed :: lua_return where
  "destroyed = Values [V_nil, V_string ''can't set destroyed atomic value'']"

text \<open>
  \<^verbatim>\<open>Lua_lazy_atomics_value_set\<close>.  A string is copied to shared memory; the test after that allocation is of the
  length, not of the pointer, so that without memory the copy goes through a null pointer.
\<close>

definition Lua_lazy_atomics_value_set :: "lua_value option \<Rightarrow> lua_value option \<Rightarrow> lazy \<Rightarrow> (lua_return \<times> lazy) run" where
  "Lua_lazy_atomics_value_set arg1 arg2 lz =
     (case check_atomic arg1 lz of
        None \<Rightarrow> Done (bad_argument, lz)
      | Some (u, ud) \<Rightarrow>
          if ud_atomic ud = 0 then Done (destroyed, lz)
          else (case arg2 of
             None \<Rightarrow> Done (Lua_error ''bad argument #2 (value expected)'', lz)
           | Some v \<Rightarrow>
               (let a = ud_atomic ud in
                case lz_values lz a of
                  None \<Rightarrow> Abort
                | Some av \<Rightarrow>
                    (let old_typemix = av_typemix av in
                     case v of
                       V_string str \<Rightarrow>
                         run_bind (shuso_shared_slab_alloc (lz_shm lz) (sizeof_sized_string + length str)) (\<lambda>(p, shm).
                           if str = [] then
                             Done (Values [V_nil, V_string ''failed to allocate shared string for atomic value''], lz\<lparr>lz_shm := shm\<rparr>)
                           else c_assert (p \<noteq> 0)
                             (let old = av_string av; (ok, av) = update_type_safely (av\<lparr>av_string := p\<rparr>) old_typemix SHUSO_LUA_SHATOMIC_STRING;
                                  lz = lz\<lparr>lz_strings := (lz_strings lz)(p \<mapsto> str), lz_values := (lz_values lz)(a \<mapsto> av)\<rparr>
                              in if old \<noteq> 0 then
                                   run_bind (shuso_shared_slab_free shm old) (\<lambda>shm.
                                     Done (Values [V_bool ok], lz\<lparr>lz_shm := shm, lz_strings := (lz_strings lz)(old := None)\<rparr>))
                                 else Done (Values [V_bool ok], lz\<lparr>lz_shm := shm\<rparr>)))
                     | _ \<Rightarrow>
                         (case store_value v av of
                            None \<Rightarrow> Done (cant_set v, lz)
                          | Some (av, t) \<Rightarrow>
                              (let (ok, av) = update_type_safely av old_typemix t
                               in Done (Values [V_bool ok], lz\<lparr>lz_values := (lz_values lz)(a \<mapsto> av)\<rparr>)))))))"

text \<open>\<^verbatim>\<open>Lua_lazy_atomics_value_create\<close> with its arguments.  \<^verbatim>\<open>luaS_call\<close> catches an error and sets it.\<close>

definition Lua_lazy_atomics_value_create :: "lazy_env \<Rightarrow> lua_value list \<Rightarrow> lazy \<Rightarrow> (lua_return \<times> lazy) run" where
  "Lua_lazy_atomics_value_create env args lz =
     run_bind (shuso_shared_slab_alloc (lz_shm lz) sizeof_atomic_value) (\<lambda>(a, shm).
       let lz = lz\<lparr>lz_shm := shm\<rparr> in
       if a = 0 then Done (Values [V_nil, V_string ''failed to allocate Lua shared atomic value''], lz)
       else
         (let lz = lz\<lparr>lz_values := (lz_values lz)(a \<mapsto> le_fresh env a)\<rparr> in
          case le_userdata env lz of
            None \<Rightarrow> Done (Values [V_nil, V_string ''failed to allocate Lua shared atomic value userdata''], lz)
          | Some u \<Rightarrow>
              (let lz = lz\<lparr>lz_userdata := (lz_userdata lz)(u \<mapsto> \<lparr>ud_atomic = a, ud_id_string_ref = None\<rparr>)\<rparr>;
                   stack = args @ [V_atomic u];
                   arg = (\<lambda>i. if i < length stack then Some (stack ! i) else None)
               in if args = [] then
                    Done (Values [V_atomic u],
                      lz\<lparr>lz_values := (lz_values lz)(a \<mapsto> (le_fresh env a)\<lparr>av_typemix := of_nat SHUSO_LUA_SHATOMIC_NIL\<rparr>)\<rparr>)
                  else
                    run_bind (Lua_lazy_atomics_value_set (arg 0) (arg 1) lz) (\<lambda>(r, lz).
                      Done (Values [V_atomic u],
                        case r of Lua_error msg \<Rightarrow> lz\<lparr>lz_S := lua_error msg (lz_S lz)\<rparr> | Values _ \<Rightarrow> lz)))))"

definition Lua_lazy_atomics_value_destroy :: "lua_value option \<Rightarrow> lazy \<Rightarrow> (lua_return \<times> lazy) run" where
  "Lua_lazy_atomics_value_destroy arg1 lz =
     (case check_atomic arg1 lz of
        None \<Rightarrow> Done (bad_argument, lz)
      | Some (u, ud) \<Rightarrow>
          (let a = ud_atomic ud in
           case lz_values lz a of
             None \<Rightarrow> Abort
           | Some av \<Rightarrow>
               run_bind
                 (if av_string av \<noteq> 0 then
                    run_bind (shuso_shared_slab_free (lz_shm lz) (av_string av)) (\<lambda>shm.
                      Done (lz\<lparr>lz_shm := shm, lz_strings := (lz_strings lz)(av_string av := None)\<rparr>))
                  else Done lz)
                 (\<lambda>lz. let lz = (case ud_id_string_ref ud of None \<Rightarrow> lz
                             | Some r \<Rightarrow> lz\<lparr>lz_registry := (lz_registry lz)(r := None)\<rparr>)
                      in run_bind (shuso_shared_slab_free (lz_shm lz) a) (\<lambda>shm.
                           Done (Values [V_bool True], lz\<lparr>lz_shm := shm, lz_values := (lz_values lz)(a := None),
                             lz_userdata := (lz_userdata lz)(u \<mapsto> \<lparr>ud_atomic = 0, ud_id_string_ref = None\<rparr>)\<rparr>)))))"

text \<open>Reading what is stored for a type; a string is read through its pointer.\<close>

definition read_value :: "nat \<Rightarrow> atomic_value \<Rightarrow> lua_return" where
  "read_value t av =
     (if t = SHUSO_LUA_SHATOMIC_NIL then Values [V_nil]
      else if t = SHUSO_LUA_SHATOMIC_BOOLEAN then Values [V_bool (av_boolean av)]
      else if t = SHUSO_LUA_SHATOMIC_INTEGER then Values [V_integer (sint (av_integer av))]
      else if t = SHUSO_LUA_SHATOMIC_NUMBER then Values [V_number (av_number av)]
      else if t = SHUSO_LUA_SHATOMIC_POINTER then Values [V_pointer (av_pointer av)]
      else Values [V_nil, V_string ''invalid atomic value type''])"

definition Lua_lazy_atomics_value_get :: "lua_value option \<Rightarrow> lazy \<Rightarrow> (lua_return \<times> lazy) run" where
  "Lua_lazy_atomics_value_get arg1 lz =
     (case check_atomic arg1 lz of
        None \<Rightarrow> Done (bad_argument, lz)
      | Some (u, ud) \<Rightarrow>
          if ud_atomic ud = 0 then Done (destroyed, lz)
          else (case lz_values lz (ud_atomic ud) of
             None \<Rightarrow> Abort
           | Some av \<Rightarrow>
               if get_type av = SHUSO_LUA_SHATOMIC_STRING then
                 (case lz_strings lz (av_string av) of
                    None \<Rightarrow> Abort | Some str \<Rightarrow> Done (Values [V_string str], lz))
               else Done (read_value (get_type av) av, lz)))"

definition cant_increment :: "nat \<Rightarrow> lua_return" where
  "cant_increment t = Values [V_nil, V_string
     (if t = SHUSO_LUA_SHATOMIC_NUMBER then ''can't increment atomic floating-point number''
      else if t = SHUSO_LUA_SHATOMIC_BOOLEAN then ''can't increment atomic boolean''
      else if t = SHUSO_LUA_SHATOMIC_NIL then ''can't increment atomic nil''
      else if t = SHUSO_LUA_SHATOMIC_POINTER then ''can't increment atomic pointer''
      else if t = SHUSO_LUA_SHATOMIC_STRING then ''can't increment atomic string''
      else ''invalid atomic value type'')]"

text \<open>The amount: \<^verbatim>\<open>luaL_checktype\<close> wants a number, which is then taken as an integer.\<close>

definition increment_amount :: "lazy_env \<Rightarrow> lua_value option \<Rightarrow> int option" where
  "increment_amount env arg =
     (case arg of Some (V_integer i) \<Rightarrow> Some i | Some (V_number x) \<Rightarrow> Some (le_tointeger env x) | _ \<Rightarrow> None)"

definition Lua_lazy_atomics_value_increment ::
  "lazy_env \<Rightarrow> lua_value option \<Rightarrow> lua_value option \<Rightarrow> lazy \<Rightarrow> (lua_return \<times> lazy) run"
where
  "Lua_lazy_atomics_value_increment env arg1 arg2 lz =
     (case check_atomic arg1 lz of
        None \<Rightarrow> Done (bad_argument, lz)
      | Some (u, ud) \<Rightarrow>
          if ud_atomic ud = 0 then Done (destroyed, lz)
          else (case increment_amount env arg2 of
             None \<Rightarrow> Done (Lua_error ''bad argument #2 (number expected)'', lz)
           | Some k \<Rightarrow>
               (case lz_values lz (ud_atomic ud) of
                  None \<Rightarrow> Abort
                | Some av \<Rightarrow>
                    if get_type av = SHUSO_LUA_SHATOMIC_INTEGER then
                      Done (Values [V_integer (sint (av_integer av))],
                        lz\<lparr>lz_values := (lz_values lz)(ud_atomic ud \<mapsto> av\<lparr>av_integer := av_integer av + word_of_int k\<rparr>)\<rparr>)
                    else Done (cant_increment (get_type av), lz))))"

text \<open>Copying a value to another Lua state passes its address; the copy's reference is not initialised.\<close>

definition Lua_lazy_atomics_value_gxcopy_save :: "lua_value option \<Rightarrow> lazy \<Rightarrow> lua_return" where
  "Lua_lazy_atomics_value_gxcopy_save arg1 lz =
     (case check_atomic arg1 lz of None \<Rightarrow> bad_argument | Some (u, ud) \<Rightarrow> Values [V_pointer (ud_atomic ud)])"

definition Lua_lazy_atomics_value_gxcopy_load :: "lazy_env \<Rightarrow> lua_value option \<Rightarrow> lazy \<Rightarrow> lua_return \<times> lazy" where
  "Lua_lazy_atomics_value_gxcopy_load env arg1 lz =
     (case arg1 of
        Some (V_pointer p) \<Rightarrow>
          (case le_userdata env lz of
             None \<Rightarrow> (Lua_error ''failed to allocate Lua shared atomic value userdata'', lz)
           | Some u \<Rightarrow> (Values [V_atomic u],
               lz\<lparr>lz_userdata := (lz_userdata lz)(u \<mapsto> \<lparr>ud_atomic = p, ud_id_string_ref = le_fresh_ref env u\<rparr>)\<rparr>))
      | _ \<Rightarrow> (Lua_error ''bad argument #1 (light userdata expected)'', lz))"

text \<open>\<^verbatim>\<open>lua_tostring\<close> leaves a light userdata as it is.\<close>

definition Lua_lazy_atomics_get_id :: "lazy_env \<Rightarrow> lua_value option \<Rightarrow> lazy \<Rightarrow> lua_return \<times> lazy" where
  "Lua_lazy_atomics_get_id env arg1 lz =
     (case check_atomic arg1 lz of
        None \<Rightarrow> (bad_argument, lz)
      | Some (u, ud) \<Rightarrow>
          (case ud_id_string_ref ud of
             Some r \<Rightarrow> (Values [case lz_registry lz r of Some v \<Rightarrow> v | None \<Rightarrow> V_nil], lz)
           | None \<Rightarrow>
               (let v = V_pointer (ud_atomic ud); r = le_ref env (lz_registry lz)
                in (Values [v], lz\<lparr>lz_registry := (lz_registry lz)(r \<mapsto> v),
                     lz_userdata := (lz_userdata lz)(u \<mapsto> ud\<lparr>ud_id_string_ref := Some r\<rparr>)\<rparr>))))"

section \<open>Calls in several threads\<close>

text \<open>
  Where a thread is in a call: about to load the type, holding the type it loaded, about to exchange the string, to
  free the old one, or to compare and exchange the type; or finished, with what it returns.  \<open>P_crashed\<close> is
  a thread that used a null pointer or memory that has been freed.
\<close>

datatype lazy_pc =
    P_set lua_value
  | P_store lua_value "32 word"
  | P_exchange addr "32 word"
  | P_free addr "32 word"
  | P_cas "32 word" nat
  | P_get
  | P_read nat
  | P_copy addr
  | P_incr int
  | P_add int
  | P_done lua_return
  | P_crashed

text \<open>One value, the strings in shared memory, the threads, and the number of sets that succeeded.\<close>

record lazy_sys =
  sy_value :: atomic_value
  sy_strings :: "addr \<rightharpoonup> string"
  sy_threads :: "lazy_pc list"
  sy_wins :: nat

text \<open>
  One atomic action of a thread; \<open>a\<close> is the address that an allocation of shared memory gives, or 0.
\<close>

fun lazy_action :: "addr \<Rightarrow> lazy_pc \<Rightarrow> lazy_sys \<Rightarrow> lazy_pc \<times> lazy_sys" where
  "lazy_action a (P_set v) s = (P_store v (av_typemix (sy_value s)), s)"
| "lazy_action a (P_store (V_string str) old) s =
     (if str = [] then
        (P_done (Values [V_nil, V_string ''failed to allocate shared string for atomic value'']),
          if a = 0 then s else s\<lparr>sy_strings := (sy_strings s)(a \<mapsto> str)\<rparr>)
      else if a = 0 then (P_crashed, s)
      else (P_exchange a old, s\<lparr>sy_strings := (sy_strings s)(a \<mapsto> str)\<rparr>))"
| "lazy_action a (P_store v old) s =
     (case store_value v (sy_value s) of
        None \<Rightarrow> (P_done (cant_set v), s)
      | Some (av, t) \<Rightarrow> (P_cas old t, s\<lparr>sy_value := av\<rparr>))"
| "lazy_action a (P_exchange p old) s =
     (let o' = av_string (sy_value s); s = s\<lparr>sy_value := (sy_value s)\<lparr>av_string := p\<rparr>\<rparr>
      in (if o' \<noteq> 0 then P_free o' old else P_cas old SHUSO_LUA_SHATOMIC_STRING, s))"
| "lazy_action a (P_free p old) s =
     (if sy_strings s p = None then (P_crashed, s)
      else (P_cas old SHUSO_LUA_SHATOMIC_STRING, s\<lparr>sy_strings := (sy_strings s)(p := None)\<rparr>))"
| "lazy_action a (P_cas old t) s =
     (let (ok, av) = update_type_safely (sy_value s) old t
      in (P_done (Values [V_bool ok]), s\<lparr>sy_value := av, sy_wins := sy_wins s + (if ok then 1 else 0)\<rparr>))"
| "lazy_action a P_get s =
     (let t = get_type (sy_value s)
      in (if t = SHUSO_LUA_SHATOMIC_NIL \<or> SHUSO_LUA_SHATOMIC_POINTER < t then P_done (read_value t (sy_value s)) else P_read t, s))"
| "lazy_action a (P_read t) s =
     (if t = SHUSO_LUA_SHATOMIC_STRING then P_copy (av_string (sy_value s)) else P_done (read_value t (sy_value s)), s)"
| "lazy_action a (P_copy p) s =
     (case sy_strings s p of None \<Rightarrow> P_crashed | Some str \<Rightarrow> P_done (Values [V_string str]), s)"
| "lazy_action a (P_incr k) s =
     (let t = get_type (sy_value s)
      in (if t = SHUSO_LUA_SHATOMIC_INTEGER then P_add k else P_done (cant_increment t), s))"
| "lazy_action a (P_add k) s =
     (P_done (Values [V_integer (sint (av_integer (sy_value s)))]),
       s\<lparr>sy_value := (sy_value s)\<lparr>av_integer := av_integer (sy_value s) + word_of_int k\<rparr>\<rparr>)"
| "lazy_action a (P_done r) s = (P_done r, s)"
| "lazy_action a P_crashed s = (P_crashed, s)"

text \<open>
  A step: any thread does its next action; an allocation gives an address that is not in use, or 0.
\<close>

definition fresh_or_null :: "addr \<Rightarrow> lazy_sys \<Rightarrow> bool" where
  "fresh_or_null a s \<longleftrightarrow> a = 0 \<or> sy_strings s a = None"

definition thread_act :: "nat \<Rightarrow> addr \<Rightarrow> lazy_sys \<Rightarrow> lazy_sys" where
  "thread_act i a s = (let (pc, s') = lazy_action a (sy_threads s ! i) s in s'\<lparr>sy_threads := (sy_threads s)[i := pc]\<rparr>)"

inductive lazy_step :: "lazy_sys \<Rightarrow> lazy_sys \<Rightarrow> bool" where
  act: "i < length (sy_threads s) \<Longrightarrow> fresh_or_null a s \<Longrightarrow> lazy_step s (thread_act i a s)"

inductive_cases lazy_stepE: "lazy_step s t"

section \<open>Versions\<close>

text \<open>The counter above the type.\<close>

definition version :: "32 word \<Rightarrow> nat" where
  "version x = unat x div 256"

lemma unat_new_typemix:
  assumes "t < 256"
  shows "unat (new_typemix old t) = (version old + 1) mod 2 ^ 24 * 256 + t"
proof -
  have w: "w = of_nat (unat w)" for w :: "32 word" by simp
  have v: "unat (drop_bit 8 old) = version old" unfolding version_def unat_drop_bit_eq by (simp add: drop_bit_eq_div)
  have "drop_bit 8 old + 1 = (of_nat (version old + 1) :: 32 word)"
    using w [of "drop_bit 8 old", unfolded v] by (simp add: add.commute)
  then have "new_typemix old t = of_nat ((version old + 1) * 256 + t)"
    by (simp add: new_typemix_def push_bit_eq_mult of_nat_mult mult.commute)
  then have "unat (new_typemix old t) = ((version old + 1) * 256 + t) mod 2 ^ 32"
    by (simp only: unat_of_nat) simp
  also have "\<dots> = ((version old + 1) * 256 + t) mod (256 * 2 ^ 24)" by simp
  also have "\<dots> = (version old + 1) mod 2 ^ 24 * 256 + t"
    unfolding mod_mult2_eq using assms by (simp add: div_add1_eq mod_add_eq [symmetric] mult.commute)
  finally show ?thesis .
qed

lemma version_new_typemix: "t < 256 \<Longrightarrow> version (new_typemix old t) = (version old + 1) mod 2 ^ 24"
  by (simp add: version_def [of "new_typemix old t"] unat_new_typemix)

lemma version_less: "version x < 2 ^ 24"
  using unsigned_less [of x, where ?'a = nat] by (simp add: version_def less_mult_imp_div_less)

lemma get_type_new_typemix:
  assumes "av_typemix av = new_typemix old t" "t < 16"
  shows "get_type av = t"
proof -
  have "get_type av = unat (take_bit 4 (av_typemix av))"
    by (simp add: get_type_def take_bit_eq_mask mask_eq_exp_minus_1)
  also have "\<dots> = unat (av_typemix av) mod 16" unfolding unsigned_take_bit_eq by (simp add: take_bit_eq_mod)
  also have "\<dots> = t" using unat_new_typemix [of t old] assms by (simp add: mod_add_eq [symmetric] mod_mult_right_eq)
  finally show ?thesis .
qed

text \<open>The types that threads are about to set are those there are.\<close>

definition cas_types :: "lazy_sys \<Rightarrow> bool" where
  "cas_types s \<longleftrightarrow> (\<forall>pc \<in> set (sy_threads s). \<forall>old t. pc = P_cas old t \<longrightarrow> t \<le> SHUSO_LUA_SHATOMIC_POINTER)"

lemma store_value_type: "store_value v av = Some (av', t) \<Longrightarrow> t \<le> SHUSO_LUA_SHATOMIC_POINTER \<and> av_typemix av' = av_typemix av \<and>
    av_string av' = av_string av"
  by (cases v) (auto simp: shatomic_types)

text \<open>What one action does to the type and its counter.\<close>

lemma action_cas:
  assumes "lazy_action a pc s = (pc', s')"
  shows "sy_threads s' = sy_threads s"
    and "pc' = P_cas old t \<Longrightarrow> t \<le> SHUSO_LUA_SHATOMIC_POINTER"
    and "(\<forall>old t. pc = P_cas old t \<longrightarrow> t \<le> SHUSO_LUA_SHATOMIC_POINTER) \<Longrightarrow>
      sy_wins s' = sy_wins s \<and> av_typemix (sy_value s') = av_typemix (sy_value s) \<or>
      sy_wins s' = Suc (sy_wins s) \<and>
      version (av_typemix (sy_value s')) = (version (av_typemix (sy_value s)) + 1) mod 2 ^ 24"
  using assms
  by (cases "(a, pc, s)" rule: lazy_action.cases;
      auto simp: Let_def shatomic_types update_type_safely_def read_value_def version_new_typemix
        split: if_splits option.splits prod.splits dest: store_value_type [unfolded shatomic_types])+

lemma step_cas:
  assumes "lazy_step s s'" "cas_types s"
  shows "cas_types s'" and "sy_wins s' = sy_wins s \<and> av_typemix (sy_value s') = av_typemix (sy_value s) \<or>
      sy_wins s' = Suc (sy_wins s) \<and>
      version (av_typemix (sy_value s')) = (version (av_typemix (sy_value s)) + 1) mod 2 ^ 24"
proof -
  from assms(1) obtain i a where i: "i < length (sy_threads s)" and s': "s' = thread_act i a s" by (elim lazy_stepE)
  obtain pc s1 where act: "lazy_action a (sy_threads s ! i) s = (pc, s1)" by fastforce
  then have s': "s' = s1\<lparr>sy_threads := (sy_threads s)[i := pc]\<rparr>" by (simp add: s' thread_act_def)
  note act = action_cas [OF act]
  have old: "\<forall>old t. sy_threads s ! i = P_cas old t \<longrightarrow> t \<le> SHUSO_LUA_SHATOMIC_POINTER"
    using assms(2) i nth_mem unfolding cas_types_def by blast
  show "cas_types s'"
    using assms(2) act(2) set_update_subset_insert [of "sy_threads s" i pc] by (auto simp: cas_types_def s')
  show "sy_wins s' = sy_wins s \<and> av_typemix (sy_value s') = av_typemix (sy_value s) \<or>
      sy_wins s' = Suc (sy_wins s) \<and>
      version (av_typemix (sy_value s')) = (version (av_typemix (sy_value s)) + 1) mod 2 ^ 24"
    using act(3) [OF old] by (simp add: s')
qed

lemma steps_version:
  "lazy_step\<^sup>*\<^sup>* s s' \<Longrightarrow> cas_types s \<Longrightarrow>
   cas_types s' \<and> sy_wins s \<le> sy_wins s' \<and>
   version (av_typemix (sy_value s')) = (version (av_typemix (sy_value s)) + (sy_wins s' - sy_wins s)) mod 2 ^ 24"
proof (induction rule: rtranclp_induct)
  case base
  then show ?case using version_less [of "av_typemix (sy_value s)"] by simp
next
  case (step t u)
  then have t: "cas_types t" "sy_wins s \<le> sy_wins t"
    "version (av_typemix (sy_value t)) = (version (av_typemix (sy_value s)) + (sy_wins t - sy_wins s)) mod 2 ^ 24" by simp_all
  show ?case using step_cas [OF step.hyps(2) t(1)] t by (auto simp: mod_simps Suc_diff_le)
qed

lemma mod_shift_ne: "v < m \<Longrightarrow> 0 < k \<Longrightarrow> k < m \<Longrightarrow> (v + k) mod m \<noteq> v" for v k m :: nat
  by (cases "v + k < m") (simp_all add: le_mod_geq)

text \<open>C23: No lost version. Once a thread has loaded the type and its counter, the compare-and-exchange with them
  fails whenever another set has succeeded since, unless 2 to the 24 of them have: of the sets that started
  from one version at most one succeeds.\<close>

theorem stale_set_fails:
  assumes "cas_types s" and "lazy_step\<^sup>*\<^sup>* s s'" and "av_typemix (sy_value s) = old"
    and "sy_wins s < sy_wins s'" and "sy_wins s' < sy_wins s + 2 ^ 24"
  shows "\<not> fst (update_type_safely (sy_value s') old t)"
proof -
  let ?k = "sy_wins s' - sy_wins s"
  have "version (av_typemix (sy_value s')) = (version old + ?k) mod 2 ^ 24"
    using steps_version [OF assms(2,1)] assms(3) by simp
  moreover have "(version old + ?k) mod 2 ^ 24 \<noteq> version old"
    using assms(4,5) version_less [of old] by (intro mod_shift_ne) simp_all
  ultimately show ?thesis by (auto simp: update_type_safely_def)
qed

section \<open>Strings\<close>

text \<open>The string that a thread holds and that no other thread may free.\<close>

fun pc_string :: "lazy_pc \<Rightarrow> addr option" where
  "pc_string (P_exchange p old) = Some p"
| "pc_string (P_free p old) = Some p"
| "pc_string pc = None"

text \<open>
  The string of the value and those that threads hold are live and all different.
\<close>

definition strings_ok :: "lazy_sys \<Rightarrow> bool" where
  "strings_ok s \<longleftrightarrow>
     (\<forall>i p. i < length (sy_threads s) \<longrightarrow> pc_string (sy_threads s ! i) = Some p \<longrightarrow>
        p \<noteq> 0 \<and> sy_strings s p \<noteq> None \<and> p \<noteq> av_string (sy_value s)) \<and>
     (\<forall>i j p. i < length (sy_threads s) \<longrightarrow> j < length (sy_threads s) \<longrightarrow> i \<noteq> j \<longrightarrow>
        pc_string (sy_threads s ! i) = Some p \<longrightarrow> pc_string (sy_threads s ! j) \<noteq> Some p) \<and>
     (av_string (sy_value s) \<noteq> 0 \<longrightarrow> sy_strings s (av_string (sy_value s)) \<noteq> None)"

text \<open>What an action does to the strings: nothing, take a new one, exchange, or free.\<close>

lemma action_strings:
  assumes "lazy_action a pc s = (pc', s')" "fresh_or_null a s"
  shows "(pc_string pc = None \<and> pc_string pc' = None \<and> av_string (sy_value s') = av_string (sy_value s) \<and>
       (\<forall>p. sy_strings s p \<noteq> None \<longrightarrow> sy_strings s' p \<noteq> None)) \<or>
     (pc_string pc = None \<and> pc_string pc' = Some a \<and> a \<noteq> 0 \<and> sy_strings s a = None \<and> av_string (sy_value s') = av_string (sy_value s) \<and>
       (\<exists>str. sy_strings s' = (sy_strings s)(a \<mapsto> str))) \<or>
     (\<exists>p. pc_string pc = Some p \<and> pc_string pc' = (if av_string (sy_value s) = 0 then None else Some (av_string (sy_value s))) \<and>
       av_string (sy_value s') = p \<and> sy_strings s' = sy_strings s) \<or>
     (\<exists>p. pc_string pc = Some p \<and> pc_string pc' = None \<and> av_string (sy_value s') = av_string (sy_value s) \<and>
       (sy_strings s' = (sy_strings s)(p := None) \<or> sy_strings s p = None))"
  using assms
  by (cases "(a, pc, s)" rule: lazy_action.cases)
    (auto simp: Let_def update_type_safely_def fresh_or_null_def split: if_splits option.splits prod.splits dest: store_value_type)

lemma strings_ok_step:
  assumes "strings_ok s" "lazy_step s s'"
  shows "strings_ok s'"
proof -
  from assms(2) obtain i a where i: "i < length (sy_threads s)" and fr: "fresh_or_null a s" and s': "s' = thread_act i a s"
    by (elim lazy_stepE)
  obtain pc s1 where act: "lazy_action a (sy_threads s ! i) s = (pc, s1)" by fastforce
  then have s': "s' = s1\<lparr>sy_threads := (sy_threads s)[i := pc]\<rparr>" by (simp add: s' thread_act_def)
  let ?ts = "sy_threads s"
  have mine: "p \<noteq> 0 \<and> sy_strings s p \<noteq> None \<and> p \<noteq> av_string (sy_value s)" if "j < length ?ts" "pc_string (?ts ! j) = Some p" for j p
    using assms(1) that unfolding strings_ok_def by blast
  have differ: "pc_string (?ts ! k) \<noteq> Some p" if "j < length ?ts" "k < length ?ts" "j \<noteq> k" "pc_string (?ts ! j) = Some p" for j k p
    using assms(1) that unfolding strings_ok_def by blast
  have live: "av_string (sy_value s) \<noteq> 0 \<Longrightarrow> sy_strings s (av_string (sy_value s)) \<noteq> None"
    using assms(1) unfolding strings_ok_def by blast
  have others: "strings_ok s'"
    if theirs: "\<And>j p. j < length ?ts \<Longrightarrow> j \<noteq> i \<Longrightarrow> pc_string (?ts ! j) = Some p \<Longrightarrow>
        pc_string pc \<noteq> Some p \<and> sy_strings s1 p \<noteq> None \<and> p \<noteq> av_string (sy_value s1)"
      and his: "\<And>p. pc_string pc = Some p \<Longrightarrow> p \<noteq> 0 \<and> sy_strings s1 p \<noteq> None \<and> p \<noteq> av_string (sy_value s1)"
      and cur: "av_string (sy_value s1) \<noteq> 0 \<Longrightarrow> sy_strings s1 (av_string (sy_value s1)) \<noteq> None"
  proof -
    have nth: "sy_threads s' ! j = (if j = i then pc else ?ts ! j)" if "j < length ?ts" for j
      using that by (simp add: s' nth_list_update)
    have own: "p \<noteq> 0 \<and> sy_strings s1 p \<noteq> None \<and> p \<noteq> av_string (sy_value s1)"
      if "j < length ?ts" "pc_string (sy_threads s' ! j) = Some p" for j p
      using that nth theirs his mine
      by (cases "j = i") auto
    have diff: "pc_string (sy_threads s' ! k) \<noteq> Some p"
      if "j < length ?ts" "k < length ?ts" "j \<noteq> k" "pc_string (sy_threads s' ! j) = Some p" for j k p
      using that nth [of j] nth [of k] differ [of j k p] theirs
      by (cases "j = i"; cases "k = i") auto
    show ?thesis
      unfolding strings_ok_def using own diff cur by (simp add: s')
  qed
  from action_strings [OF act fr] consider
      (same) "pc_string (?ts ! i) = None" "pc_string pc = None" "av_string (sy_value s1) = av_string (sy_value s)"
        "\<forall>p. sy_strings s p \<noteq> None \<longrightarrow> sy_strings s1 p \<noteq> None"
    | (alloc) str where "pc_string (?ts ! i) = None" "pc_string pc = Some a" "a \<noteq> 0" "sy_strings s a = None"
        "av_string (sy_value s1) = av_string (sy_value s)" "sy_strings s1 = (sy_strings s)(a \<mapsto> str)"
    | (exchange) p where "pc_string (?ts ! i) = Some p"
        "pc_string pc = (if av_string (sy_value s) = 0 then None else Some (av_string (sy_value s)))"
        "av_string (sy_value s1) = p" "sy_strings s1 = sy_strings s"
    | (free) p where "pc_string (?ts ! i) = Some p" "pc_string pc = None" "av_string (sy_value s1) = av_string (sy_value s)"
        "sy_strings s1 = (sy_strings s)(p := None) \<or> sy_strings s p = None"
    by (elim disjE exE conjE) metis+
  then show ?thesis
  proof cases
    case same
    show ?thesis by (rule others) (use same mine live in auto)
  next
    case alloc
    show ?thesis by (rule others) (use alloc mine live in \<open>auto, blast+\<close>)
  next
    case exchange
    show ?thesis by (rule others) (use exchange mine [OF i exchange(1)] mine differ [OF i] live in \<open>auto split: if_splits\<close>)
  next
    case free
    have sub: "sy_strings s1 = (sy_strings s)(p := None)" using free mine [OF i free(1)] by blast
    show ?thesis by (rule others) (use free(1-3) sub mine [OF i free(1)] mine differ [OF i _ _ free(1)] live in auto)
  qed
qed

text \<open>Before anything has been set, threads are at the beginning of calls.\<close>

fun at_start :: "lazy_pc \<Rightarrow> bool" where
  "at_start (P_set v) = True"
| "at_start P_get = True"
| "at_start (P_incr k) = True"
| "at_start pc = False"

definition lazy_initial :: "lazy_sys \<Rightarrow> bool" where
  "lazy_initial s \<longleftrightarrow> list_all at_start (sy_threads s) \<and>
     (av_string (sy_value s) \<noteq> 0 \<longrightarrow> sy_strings s (av_string (sy_value s)) \<noteq> None)"

lemma at_start_string: "at_start pc \<Longrightarrow> pc_string pc = None \<and> (\<forall>old t. pc \<noteq> P_cas old t)"
  by (cases pc) auto

interpretation lazy_threads: invariant_system lazy_initial lazy_step "\<lambda>s. strings_ok s \<and> cas_types s"
proof unfold_locales
  fix s assume s: "lazy_initial s"
  then have "at_start (sy_threads s ! i)" if "i < length (sy_threads s)" for i
    using that by (simp add: lazy_initial_def list_all_length)
  then show "strings_ok s \<and> cas_types s"
    using s at_start_string by (fastforce simp: strings_ok_def cas_types_def lazy_initial_def list_all_iff)
qed (auto intro: strings_ok_step step_cas(1))


section \<open>Increments\<close>

text \<open>What a thread still has to add.\<close>

fun pc_amount :: "lazy_pc \<Rightarrow> int" where
  "pc_amount (P_incr k) = k"
| "pc_amount (P_add k) = k"
| "pc_amount pc = 0"

definition incrementing :: "lazy_pc \<Rightarrow> bool" where
  "incrementing pc \<longleftrightarrow> (\<exists>k. pc = P_incr k \<or> pc = P_add k) \<or> (\<exists>i. pc = P_done (Values [V_integer i]))"

lemma sum_list_list_update:
  "i < length xs \<Longrightarrow> (\<Sum>x\<leftarrow>xs[i := y]. f x) = (\<Sum>x\<leftarrow>xs. f x) - f (xs ! i) + (f y :: int)"
  by (induction xs arbitrary: i) (auto split: nat.split)

definition incrementing_from :: "32 word \<Rightarrow> int \<Rightarrow> lazy_sys \<Rightarrow> bool" where
  "incrementing_from n k s \<longleftrightarrow> (\<forall>pc \<in> set (sy_threads s). incrementing pc) \<and> get_type (sy_value s) = SHUSO_LUA_SHATOMIC_INTEGER \<and>
     av_integer (sy_value s) + word_of_int (\<Sum>pc\<leftarrow>sy_threads s. pc_amount pc) = n + word_of_int k"

lemma incrementing_step:
  assumes "lazy_step s s'" "incrementing_from n k s"
  shows "incrementing_from n k s'"
proof -
  from assms(1) obtain i a where i: "i < length (sy_threads s)" and s': "s' = thread_act i a s" by (elim lazy_stepE)
  have inc: "incrementing (sy_threads s ! i)" using assms(2) i by (simp add: incrementing_from_def)
  have sub: "\<forall>pc \<in> set ((sy_threads s)[i := pc]). incrementing pc" if "incrementing pc" for pc
    using assms(2) that set_update_subset_insert [of "sy_threads s" i pc] by (auto simp: incrementing_from_def)
  note sum = sum_list_list_update [OF i, of pc_amount]
  note frm = assms(2) [unfolded incrementing_from_def]
  from inc consider (incr) k where "sy_threads s ! i = P_incr k" | (add) k where "sy_threads s ! i = P_add k"
    | (fin) j where "sy_threads s ! i = P_done (Values [V_integer j])"
    unfolding incrementing_def by blast
  then show ?thesis
  proof cases
    case incr
    then show ?thesis using frm sub [of "P_add k"] sub
      by (simp add: s' thread_act_def incrementing_from_def sum incrementing_def [of "P_add _"])
  next
    case (add m)
    have "get_type ((sy_value s)\<lparr>av_integer := x\<rparr>) = get_type (sy_value s)" for x by (simp add: get_type_def)
    moreover have "\<forall>pc \<in> set ((sy_threads s)[i := P_done (Values [V_integer j])]). incrementing pc" for j
      by (rule sub) (simp add: incrementing_def)
    ultimately show ?thesis using add frm
      by (simp add: s' thread_act_def incrementing_from_def sum algebra_simps)
  next
    case fin
    then show ?thesis using frm sub [OF inc] by (simp add: s' thread_act_def incrementing_from_def sum)
  qed
qed

lemma incrementing_steps: "lazy_step\<^sup>*\<^sup>* s s' \<Longrightarrow> incrementing_from n k s \<Longrightarrow> incrementing_from n k s'"
  by (induction rule: rtranclp_induct) (auto intro: incrementing_step)

text \<open>C25: No increment is lost. However the increments of any number of threads interleave, the integer has grown by
  the sum of the amounts, modulo 2 to the 32, once all of them have returned.\<close>

theorem lazy_increments_sum:
  assumes "sy_threads s = map P_incr ks" and "get_type (sy_value s) = SHUSO_LUA_SHATOMIC_INTEGER"
    and "lazy_step\<^sup>*\<^sup>* s s'" and "\<forall>pc \<in> set (sy_threads s'). \<exists>r. pc = P_done r"
  shows "av_integer (sy_value s') = av_integer (sy_value s) + word_of_int (\<Sum>k\<leftarrow>ks. k)"
proof -
  have "incrementing_from (av_integer (sy_value s)) (\<Sum>k\<leftarrow>ks. k) s"
    using assms(1,2) by (auto simp: incrementing_from_def incrementing_def comp_def)
  then have fin: "incrementing_from (av_integer (sy_value s)) (\<Sum>k\<leftarrow>ks. k) s'" by (rule incrementing_steps [OF assms(3)])
  have "(\<Sum>pc\<leftarrow>sy_threads s'. pc_amount pc) = (\<Sum>pc\<leftarrow>sy_threads s'. 0)"
    by (rule arg_cong [where f = sum_list], rule map_cong) (use assms(4) in auto)
  then have "(\<Sum>pc\<leftarrow>sy_threads s'. pc_amount pc) = 0" by simp
  then show ?thesis using fin by (simp add: incrementing_from_def)
qed

section \<open>Runs that go wrong\<close>

definition example_value :: atomic_value where
  "example_value = \<lparr>av_typemix = 2, av_string = 8, av_integer = 0, av_number = 0, av_boolean = False, av_pointer = 0\<rparr>"

definition run_threads :: "(nat \<times> addr) list \<Rightarrow> lazy_sys \<Rightarrow> lazy_sys" where
  "run_threads acts s = fold (\<lambda>(i, a). thread_act i a) acts s"

fun acts_fit :: "(nat \<times> addr) list \<Rightarrow> lazy_sys \<Rightarrow> bool" where
  "acts_fit [] s = True"
| "acts_fit ((i, a) # acts) s = (i < length (sy_threads s) \<and> fresh_or_null a s \<and> acts_fit acts (thread_act i a s))"

lemma run_threads_steps: "acts_fit acts s \<Longrightarrow> lazy_step\<^sup>*\<^sup>* s (run_threads acts s)"
proof (induction acts arbitrary: s)
  case (Cons x acts)
  obtain i a where x: "x = (i, a)" by fastforce
  have "lazy_step s (thread_act i a s)" using Cons.prems x by (auto intro: act)
  moreover have "lazy_step\<^sup>*\<^sup>* (thread_act i a s) (run_threads acts (thread_act i a s))"
    using Cons.IH [of "thread_act i a s"] Cons.prems x by simp
  ultimately show ?case by (simp add: run_threads_def x)
qed (simp add: run_threads_def)

definition reading_and_setting :: lazy_sys where
  "reading_and_setting = \<lparr>sy_value = example_value, sy_strings = [8 \<mapsto> ''old''],
     sy_threads = [P_get, P_set (V_string ''new'')], sy_wins = 0\<rparr>"

text \<open>A reader can use a string after it has been freed. A thread that has loaded the pointer of the string copies
  from it after another thread has exchanged and freed the string.\<close>

theorem lazy_reader_use_after_free:
  "lazy_initial reading_and_setting \<and>
   (\<exists>s. lazy_step\<^sup>*\<^sup>* reading_and_setting s \<and> sy_threads s ! 0 = P_copy 8 \<and> sy_strings s 8 = None \<and>
      fst (lazy_action 0 (sy_threads s ! 0) s) = P_crashed)"
proof (intro conjI exI)
  let ?acts = "[(0, 0), (0, 0), (1, 0), (1, 16), (1, 0), (1, 0)]"
  show "lazy_initial reading_and_setting" by (simp add: lazy_initial_def reading_and_setting_def example_value_def)
  have t: "get_type example_value = 2" by (simp add: get_type_def example_value_def)
  have "acts_fit ?acts reading_and_setting" and fin: "sy_threads (run_threads ?acts reading_and_setting) ! 0 = P_copy 8"
      "sy_strings (run_threads ?acts reading_and_setting) 8 = None"
    by (simp_all add: reading_and_setting_def run_threads_def thread_act_def t shatomic_types fresh_or_null_def Let_def)
      (simp_all add: example_value_def)
  then show "lazy_step\<^sup>*\<^sup>* reading_and_setting (run_threads ?acts reading_and_setting)" by (intro run_threads_steps)
  show "sy_threads (run_threads ?acts reading_and_setting) ! 0 = P_copy 8"
    "sy_strings (run_threads ?acts reading_and_setting) 8 = None" using fin by simp_all
  then show "fst (lazy_action 0 (sy_threads (run_threads ?acts reading_and_setting) ! 0) (run_threads ?acts reading_and_setting)) = P_crashed"
    by simp
qed

text \<open>A set that reports failure has stored its value all the same.\<close>

definition setting_twice :: lazy_sys where
  "setting_twice = \<lparr>sy_value = example_value, sy_strings = [8 \<mapsto> ''old''],
     sy_threads = [P_set (V_integer 1), P_set (V_integer 2)], sy_wins = 0\<rparr>"

lemma failed_set_changes_value:
  "\<exists>s. lazy_step\<^sup>*\<^sup>* setting_twice s \<and> sy_threads s ! 1 = P_done (Values [V_bool False]) \<and>
     get_type (sy_value s) = SHUSO_LUA_SHATOMIC_INTEGER \<and> av_integer (sy_value s) = 2"
proof (intro exI conjI)
  let ?acts = "[(0, 0), (1, 0), (0, 0), (1, 0), (0, 0), (1, 0)]"
  have "acts_fit ?acts setting_twice" and fin: "sy_threads (run_threads ?acts setting_twice) ! 1 = P_done (Values [V_bool False])"
      "get_type (sy_value (run_threads ?acts setting_twice)) = SHUSO_LUA_SHATOMIC_INTEGER"
      "av_integer (sy_value (run_threads ?acts setting_twice)) = 2"
    by (simp_all add: setting_twice_def run_threads_def thread_act_def shatomic_types fresh_or_null_def Let_def example_value_def
      update_type_safely_def new_typemix_def get_type_def)
  then show "lazy_step\<^sup>*\<^sup>* setting_twice (run_threads ?acts setting_twice)" by (intro run_threads_steps)
  show "sy_threads (run_threads ?acts setting_twice) ! 1 = P_done (Values [V_bool False])"
    "get_type (sy_value (run_threads ?acts setting_twice)) = SHUSO_LUA_SHATOMIC_INTEGER"
    "av_integer (sy_value (run_threads ?acts setting_twice)) = 2" using fin by simp_all
qed

section \<open>A value in shared memory\<close>

text \<open>A value with its string, as blocks that are held; \<open>B\<close> are the other blocks.\<close>

definition string_blocks :: "lazy \<Rightarrow> atomic_value \<Rightarrow> block set" where
  "string_blocks lz av = (if av_string av = 0 then {} else
     {(av_string av, sizeof_sized_string + length (the (lz_strings lz (av_string av))))})"

definition lazy_ok :: "lazy \<Rightarrow> nat \<Rightarrow> block set \<Rightarrow> bool" where
  "lazy_ok lz u B \<longleftrightarrow>
     (\<exists>a r av. lz_userdata lz u = Some \<lparr>ud_atomic = a, ud_id_string_ref = r\<rparr> \<and> a \<noteq> 0 \<and> lz_values lz a = Some av \<and>
        a \<notin> fst ` B \<and> shm_owned (lz_shm lz) (string_blocks lz av \<union> insert (a, sizeof_atomic_value) B) \<and>
        (av_string av \<noteq> 0 \<longrightarrow> lz_strings lz (av_string av) \<noteq> None \<and> av_string av \<noteq> a \<and> av_string av \<notin> fst ` B) \<and>
        (get_type av = SHUSO_LUA_SHATOMIC_STRING \<longrightarrow> av_string av \<noteq> 0))"

text \<open>Values that can be set, and what becomes of them: an integer keeps its low 32 bits.\<close>

fun stored :: "lua_value \<Rightarrow> lua_value" where
  "stored (V_integer i) = V_integer (c_int i)"
| "stored v = v"

fun settable :: "lua_value \<Rightarrow> bool" where
  "settable (V_string str) = (str \<noteq> [])"
| "settable (V_atomic u) = False"
| "settable (V_other t) = False"
| "settable v = True"

definition room_for :: "lazy \<Rightarrow> lua_value \<Rightarrow> bool" where
  "room_for lz v = (case v of
     V_string str \<Rightarrow> (case shuso_shared_slab_alloc (lz_shm lz) (sizeof_sized_string + length str) of
        Done (a, _) \<Rightarrow> a \<noteq> 0 | Abort \<Rightarrow> False)
   | _ \<Rightarrow> True)"

lemma update_type_own: "update_type_safely av (av_typemix av) t = (True, av\<lparr>av_typemix := new_typemix (av_typemix av) t\<rparr>)"
  by (simp add: update_type_safely_def)

lemma get_type_set [simp]: "t < 16 \<Longrightarrow> get_type (av\<lparr>av_typemix := new_typemix old t\<rparr>) = t"
  by (rule get_type_new_typemix) simp_all

lemma store_value_set:
  assumes "settable v" "\<And>str. v \<noteq> V_string str"
  obtains av' t where "store_value v av = Some (av', t)" "t < 16" "t \<noteq> SHUSO_LUA_SHATOMIC_STRING"
    "av_typemix av' = av_typemix av" "av_string av' = av_string av"
    "\<And>m. read_value t (av'\<lparr>av_typemix := m\<rparr>) = Values [stored v]"
  using assms by (cases v) (auto simp: shatomic_types read_value_def c_int_def)

lemma set_value_scalar:
  assumes ok: "lazy_ok lz u B" and v: "settable v" "\<And>str. v \<noteq> V_string str"
  shows "\<exists>lz'. Lua_lazy_atomics_value_set (Some (V_atomic u)) (Some v) lz = Done (Values [V_bool True], lz') \<and>
    Lua_lazy_atomics_value_get (Some (V_atomic u)) lz' = Done (Values [stored v], lz') \<and> lazy_ok lz' u B"
proof -
  from ok obtain a r av where ud: "lz_userdata lz u = Some \<lparr>ud_atomic = a, ud_id_string_ref = r\<rparr>" and a: "a \<noteq> 0"
    and av: "lz_values lz a = Some av" and aB: "a \<notin> fst ` B"
    and own: "shm_owned (lz_shm lz) (string_blocks lz av \<union> insert (a, sizeof_atomic_value) B)"
    and str: "av_string av \<noteq> 0 \<Longrightarrow> lz_strings lz (av_string av) \<noteq> None \<and> av_string av \<noteq> a \<and> av_string av \<notin> fst ` B"
    unfolding lazy_ok_def by blast
  obtain av' t where st: "store_value v av = Some (av', t)" "t < 16" "t \<noteq> SHUSO_LUA_SHATOMIC_STRING"
    "av_typemix av' = av_typemix av" "av_string av' = av_string av"
    and read: "\<And>m. read_value t (av'\<lparr>av_typemix := m\<rparr>) = Values [stored v]"
    using store_value_set [OF v, where av = av] by blast
  let ?av = "av'\<lparr>av_typemix := new_typemix (av_typemix av) t\<rparr>"
  let ?lz = "lz\<lparr>lz_values := (lz_values lz)(a \<mapsto> ?av)\<rparr>"
  have "(case v of V_string str \<Rightarrow> x str | _ \<Rightarrow> y) = y" for x :: "string \<Rightarrow> (lua_return \<times> lazy) run" and y
    using v(2) by (cases v) auto
  then have "Lua_lazy_atomics_value_set (Some (V_atomic u)) (Some v) lz = Done (Values [V_bool True], ?lz)"
    using ud a av st update_type_own [of av' t]
    by (simp add: Lua_lazy_atomics_value_set_def check_atomic_def Let_def)
  moreover have "Lua_lazy_atomics_value_get (Some (V_atomic u)) ?lz = Done (Values [stored v], ?lz)"
    using ud a st read by (simp add: Lua_lazy_atomics_value_get_def check_atomic_def)
  moreover have "string_blocks ?lz ?av = string_blocks lz av" using st by (simp add: string_blocks_def)
  then have "lazy_ok ?lz u B" unfolding lazy_ok_def using ud a aB own str st by simp
  ultimately show ?thesis by blast
qed

lemma set_value_string:
  assumes ok: "lazy_ok lz u B" and s: "s \<noteq> []" and room: "room_for lz (V_string s)"
  shows "\<exists>lz'. Lua_lazy_atomics_value_set (Some (V_atomic u)) (Some (V_string s)) lz = Done (Values [V_bool True], lz') \<and>
    Lua_lazy_atomics_value_get (Some (V_atomic u)) lz' = Done (Values [V_string s], lz') \<and> lazy_ok lz' u B"
proof -
  from ok obtain a r av where ud: "lz_userdata lz u = Some \<lparr>ud_atomic = a, ud_id_string_ref = r\<rparr>" and a: "a \<noteq> 0"
    and av: "lz_values lz a = Some av" and aB: "a \<notin> fst ` B"
    and own: "shm_owned (lz_shm lz) (string_blocks lz av \<union> insert (a, sizeof_atomic_value) B)"
    and str: "av_string av \<noteq> 0 \<Longrightarrow> lz_strings lz (av_string av) \<noteq> None \<and> av_string av \<noteq> a \<and> av_string av \<notin> fst ` B"
    unfolding lazy_ok_def by blast
  let ?n = "sizeof_sized_string + length s"
  obtain p shm where al: "shuso_shared_slab_alloc (lz_shm lz) ?n = Done (p, shm)" and p: "p \<noteq> 0"
    and fresh: "p \<notin> fst ` (string_blocks lz av \<union> insert (a, sizeof_atomic_value) B)"
    and own': "shm_owned shm (insert (p, ?n) (string_blocks lz av \<union> insert (a, sizeof_atomic_value) B))"
    using shm_owned_alloc [OF own, of ?n] room by (auto simp: room_for_def)
  let ?av = "av\<lparr>av_string := p, av_typemix := new_typemix (av_typemix av) SHUSO_LUA_SHATOMIC_STRING\<rparr>"
  have upd: "update_type_safely (av\<lparr>av_string := p\<rparr>) (av_typemix av) SHUSO_LUA_SHATOMIC_STRING = (True, ?av)"
    using update_type_own [of "av\<lparr>av_string := p\<rparr>" SHUSO_LUA_SHATOMIC_STRING] by simp
  have ty: "get_type ?av = SHUSO_LUA_SHATOMIC_STRING" by (simp add: shatomic_types)
  have pa: "p \<noteq> a" "p \<notin> fst ` B" "av_string av \<noteq> 0 \<Longrightarrow> p \<noteq> av_string av" using fresh by (auto simp: string_blocks_def)
  show ?thesis
  proof (cases "av_string av = 0")
    case True
    let ?lz = "lz\<lparr>lz_shm := shm, lz_strings := (lz_strings lz)(p \<mapsto> s), lz_values := (lz_values lz)(a \<mapsto> ?av)\<rparr>"
    have "Lua_lazy_atomics_value_set (Some (V_atomic u)) (Some (V_string s)) lz = Done (Values [V_bool True], ?lz)"
      using ud a av al p s True upd by (simp add: Lua_lazy_atomics_value_set_def check_atomic_def Let_def)
    moreover have "Lua_lazy_atomics_value_get (Some (V_atomic u)) ?lz = Done (Values [V_string s], ?lz)"
      using ud a ty by (simp add: Lua_lazy_atomics_value_get_def check_atomic_def)
    moreover have "lazy_ok ?lz u B"
      unfolding lazy_ok_def using ud a aB p pa own' True by (simp add: string_blocks_def insert_commute)
    ultimately show ?thesis by blast
  next
    case False
    let ?o = "av_string av"
    let ?old = "(?o, sizeof_sized_string + length (the (lz_strings lz ?o)))"
    have sb: "string_blocks lz av = {?old}" using False by (simp add: string_blocks_def)
    obtain shm2 where fr: "shuso_shared_slab_free shm ?o = Done shm2"
      and own2: "shm_owned shm2 (insert (p, ?n) (string_blocks lz av \<union> insert (a, sizeof_atomic_value) B) - {?old})"
      using shm_owned_free [OF own', of ?o "snd ?old"] sb by auto
    have "insert (p, ?n) (string_blocks lz av \<union> insert (a, sizeof_atomic_value) B) - {?old} =
        {(p, ?n)} \<union> insert (a, sizeof_atomic_value) B"
      using sb pa(3) [OF False] str [OF False] by force
    then have own3: "shm_owned shm2 ({(p, ?n)} \<union> insert (a, sizeof_atomic_value) B)" using own2 by simp
    let ?lz = "lz\<lparr>lz_shm := shm2, lz_strings := (lz_strings lz)(p \<mapsto> s, ?o := None), lz_values := (lz_values lz)(a \<mapsto> ?av)\<rparr>"
    have "Lua_lazy_atomics_value_set (Some (V_atomic u)) (Some (V_string s)) lz = Done (Values [V_bool True], ?lz)"
      using ud a av al p s False upd fr by (simp add: Lua_lazy_atomics_value_set_def check_atomic_def Let_def)
    moreover have "Lua_lazy_atomics_value_get (Some (V_atomic u)) ?lz = Done (Values [V_string s], ?lz)"
      using ud a ty pa(3) [OF False] by (simp add: Lua_lazy_atomics_value_get_def check_atomic_def)
    moreover have "lazy_ok ?lz u B"
      unfolding lazy_ok_def using ud a aB p pa own3 False by (simp add: string_blocks_def)
    ultimately show ?thesis by blast
  qed
qed

text \<open>What is set is read back: with one thread, setting a value that can be set, when there is room for a string,
  succeeds, and reading gives the value, an integer with its low 32 bits only; the value keeps its blocks of
  shared memory and no others, the old string having been freed.\<close>

lemma lazy_set_get:
  assumes "lazy_ok lz u B" and "settable v" and "room_for lz v"
  shows "\<exists>lz'. Lua_lazy_atomics_value_set (Some (V_atomic u)) (Some v) lz = Done (Values [V_bool True], lz') \<and>
    Lua_lazy_atomics_value_get (Some (V_atomic u)) lz' = Done (Values [stored v], lz') \<and> lazy_ok lz' u B"
proof (cases "\<exists>s. v = V_string s")
  case True
  then show ?thesis using set_value_string [OF assms(1)] assms(2,3) by auto
next
  case False
  then show ?thesis using set_value_scalar [OF assms(1,2)] by blast
qed

text \<open>Creation without a value, when the memory happens to be zero where the string is, and destruction.\<close>

lemma lazy_create_ok:
  assumes own: "shm_owned (lz_shm lz) B" and al: "shuso_shared_slab_alloc (lz_shm lz) sizeof_atomic_value = Done (a, shm)" "a \<noteq> 0"
    and u: "\<And>lz. le_userdata env lz = Some u" and zero: "av_string (le_fresh env a) = 0"
  shows "\<exists>lz'. Lua_lazy_atomics_value_create env [] lz = Done (Values [V_atomic u], lz') \<and> lazy_ok lz' u B \<and>
    Lua_lazy_atomics_value_get (Some (V_atomic u)) lz' = Done (Values [V_nil], lz')"
proof -
  have "a \<notin> fst ` B" "shm_owned shm (insert (a, sizeof_atomic_value) B)"
    using shm_owned_alloc [OF own, of sizeof_atomic_value] al by auto
  moreover have "get_type ((le_fresh env a)\<lparr>av_typemix := of_nat SHUSO_LUA_SHATOMIC_NIL\<rparr>) = SHUSO_LUA_SHATOMIC_NIL"
    by (simp add: get_type_def shatomic_types)
  ultimately show ?thesis
    using al u zero
    by (simp add: Lua_lazy_atomics_value_create_def Let_def lazy_ok_def string_blocks_def Lua_lazy_atomics_value_get_def
      check_atomic_def read_value_def) (simp add: shatomic_types)
qed

lemma lazy_destroy_ok:
  assumes "lazy_ok lz u B"
  shows "\<exists>lz'. Lua_lazy_atomics_value_destroy (Some (V_atomic u)) lz = Done (Values [V_bool True], lz') \<and>
    shm_owned (lz_shm lz') B \<and> Lua_lazy_atomics_value_set (Some (V_atomic u)) v lz' = Done (destroyed, lz') \<and>
    Lua_lazy_atomics_value_get (Some (V_atomic u)) lz' = Done (destroyed, lz')"
proof -
  from assms obtain a r av where ud: "lz_userdata lz u = Some \<lparr>ud_atomic = a, ud_id_string_ref = r\<rparr>" and a: "a \<noteq> 0"
    and av: "lz_values lz a = Some av" and aB: "a \<notin> fst ` B"
    and own: "shm_owned (lz_shm lz) (string_blocks lz av \<union> insert (a, sizeof_atomic_value) B)"
    and str: "av_string av \<noteq> 0 \<Longrightarrow> lz_strings lz (av_string av) \<noteq> None \<and> av_string av \<noteq> a \<and> av_string av \<notin> fst ` B"
    unfolding lazy_ok_def by blast
  have B: "insert (a, sizeof_atomic_value) B - {(a, sizeof_atomic_value)} = B" using aB by force
  have fin: "\<exists>shm'. shuso_shared_slab_free shm a = Done shm' \<and> shm_owned shm' B"
    if "shm_owned shm (insert (a, sizeof_atomic_value) B)" for shm
    using shm_owned_free [OF that, of a sizeof_atomic_value] by (simp only: B insertI1)
  show ?thesis
  proof (cases "av_string av = 0")
    case True
    then obtain shm' where "shuso_shared_slab_free (lz_shm lz) a = Done shm'" "shm_owned shm' B"
      using fin own by (auto simp: string_blocks_def)
    then show ?thesis using ud av True
      by (auto simp: Lua_lazy_atomics_value_destroy_def check_atomic_def Let_def Lua_lazy_atomics_value_set_def
        Lua_lazy_atomics_value_get_def split: option.split)
  next
    case False
    let ?old = "(av_string av, sizeof_sized_string + length (the (lz_strings lz (av_string av))))"
    have "({?old} \<union> insert (a, sizeof_atomic_value) B) - {?old} = insert (a, sizeof_atomic_value) B" using str [OF False] by force
    then obtain shm1 where 1: "shuso_shared_slab_free (lz_shm lz) (av_string av) = Done shm1"
      and "shm_owned shm1 (insert (a, sizeof_atomic_value) B)"
      using shm_owned_free [OF own, of "av_string av" "snd ?old"] False by (auto simp: string_blocks_def)
    then obtain shm2 where 2: "shuso_shared_slab_free shm1 a = Done shm2" "shm_owned shm2 B" using fin by blast
    then show ?thesis using ud av False 1
      by (auto simp: Lua_lazy_atomics_value_destroy_def check_atomic_def Let_def Lua_lazy_atomics_value_set_def
        Lua_lazy_atomics_value_get_def split: option.split)
  qed
qed

text \<open>A new value whose memory was not zero: destroying it frees a string it never had.\<close>

lemma lazy_destroy_fresh_aborts:
  assumes "lz_userdata lz u = Some \<lparr>ud_atomic = a, ud_id_string_ref = None\<rparr>" "lz_values lz a = Some av"
    and "\<not> shm_locked (lz_shm lz)" "av_string av \<noteq> 0" "av_string av < sl_start (shm_pool (lz_shm lz))"
  shows "Lua_lazy_atomics_value_destroy (Some (V_atomic u)) lz = Abort"
  using assms
  by (simp add: Lua_lazy_atomics_value_destroy_def check_atomic_def Let_def shuso_shared_slab_free_def shuso_shared_slab_lock_def
    shuso_shared_slab_free_locked_def ngx_slab_free_locked_def ngx_slab_error_def)

text \<open>Creating with a value passes the value where the userdata belongs, so that the type is never set.\<close>

lemma lazy_create_with_value:
  assumes "shuso_shared_slab_alloc (lz_shm lz) sizeof_atomic_value = Done (a, shm)" "a \<noteq> 0"
    and "\<And>lz. le_userdata env lz = Some u" "\<And>n. v \<noteq> V_atomic n"
  shows "\<exists>lz'. Lua_lazy_atomics_value_create env (v # vs) lz = Done (Values [V_atomic u], lz') \<and>
    lz_values lz' a = Some (le_fresh env a) \<and> lz_S lz' = lua_error ''bad argument #1 (shuttlesock.lazy_atomic expected)'' (lz_S lz)"
proof -
  have "check_atomic (Some v) lz' = None" for lz' using assms(4) by (cases v) (auto simp: check_atomic_def)
  then show ?thesis using assms(1-3)
    by (simp add: Lua_lazy_atomics_value_create_def Let_def Lua_lazy_atomics_value_set_def bad_argument_def)
qed

text \<open>An empty string is refused, and its memory is lost.\<close>

lemma lazy_set_empty_string:
  assumes "lz_userdata lz u = Some \<lparr>ud_atomic = a, ud_id_string_ref = r\<rparr>" "a \<noteq> 0" "lz_values lz a = Some av"
    and "shuso_shared_slab_alloc (lz_shm lz) sizeof_sized_string = Done (p, shm)"
  shows "Lua_lazy_atomics_value_set (Some (V_atomic u)) (Some (V_string [])) lz =
    Done (Values [V_nil, V_string ''failed to allocate shared string for atomic value''], lz\<lparr>lz_shm := shm\<rparr>)"
  using assms by (simp add: Lua_lazy_atomics_value_set_def check_atomic_def Let_def)

text \<open>Without memory, setting a string copies it through a null pointer.\<close>

lemma lazy_set_out_of_memory:
  assumes "lz_userdata lz u = Some \<lparr>ud_atomic = a, ud_id_string_ref = r\<rparr>" "a \<noteq> 0" "lz_values lz a = Some av" "str \<noteq> []"
    and "shuso_shared_slab_alloc (lz_shm lz) (sizeof_sized_string + length str) = Done (0, shm)"
  shows "Lua_lazy_atomics_value_set (Some (V_atomic u)) (Some (V_string str)) lz = Abort"
  using assms by (simp add: Lua_lazy_atomics_value_set_def check_atomic_def Let_def)


section \<open>Examples\<close>

definition example_shm :: shared_slab where
  "example_shm = \<lparr>shm_name = ''shm'', shm_ptr = 4096, shm_size = 65536, shm_pool = ngx_slab_init 4096 69632 3,
     shm_locked = False, shm_mem = (\<lambda>_. 0)\<rparr>"

definition example_lazy :: lazy where
  "example_lazy = \<lparr>lz_S = example_shuso 0, lz_shm = example_shm, lz_values = Map.empty, lz_strings = Map.empty,
     lz_userdata = Map.empty, lz_registry = Map.empty\<rparr>"

definition example_lazy_env :: lazy_env where
  "example_lazy_env = \<lparr>le_fresh = (\<lambda>_. example_value\<lparr>av_string := 0\<rparr>), le_tointeger = (\<lambda>_. 0), le_userdata = (\<lambda>_. Some 1),
     le_ref = (\<lambda>_. 1), le_fresh_ref = (\<lambda>_. None)\<rparr>"


theorem stale_set_fails_witness:
  "\<exists>s'. lazy_step\<^sup>*\<^sup>* (thread_act 1 0 setting_twice) s' \<and> \<not> fst (update_type_safely (sy_value s') 2 SHUSO_LUA_SHATOMIC_INTEGER)"
proof -
  let ?s = "thread_act 1 0 setting_twice" and ?acts = "[(0, 0), (0, 0), (0, 0)]"
  have "acts_fit ?acts ?s" and wins: "sy_wins ?s = 0" "sy_wins (run_threads ?acts ?s) = 1" "av_typemix (sy_value ?s) = 2"
    and types: "cas_types ?s"
    by (simp_all add: setting_twice_def run_threads_def thread_act_def shatomic_types fresh_or_null_def Let_def example_value_def
      update_type_safely_def cas_types_def)
  then have run: "lazy_step\<^sup>*\<^sup>* ?s (run_threads ?acts ?s)" by (intro run_threads_steps)
  show ?thesis using stale_set_fails [OF types run wins(3)] run wins(1,2) by auto
qed


definition counting :: lazy_sys where
  "counting = \<lparr>sy_value = example_value\<lparr>av_typemix := 3\<rparr>, sy_strings = Map.empty, sy_threads = map P_incr [3, -1], sy_wins = 0\<rparr>"

theorem lazy_increments_sum_witness:
  "\<exists>s'. lazy_step\<^sup>*\<^sup>* counting s' \<and> av_integer (sy_value s') = 2"
proof -
  let ?acts = "[(0, 0), (1, 0), (1, 0), (0, 0)]"
  let ?s = "run_threads ?acts counting"
  have t: "get_type (sy_value counting) = SHUSO_LUA_SHATOMIC_INTEGER"
    by (simp add: counting_def get_type_def shatomic_types)
  have "acts_fit ?acts counting" and fin: "\<forall>pc \<in> set (sy_threads ?s). \<exists>r. pc = P_done r"
    by (simp_all add: counting_def run_threads_def thread_act_def fresh_or_null_def Let_def example_value_def get_type_def shatomic_types)
  then have run: "lazy_step\<^sup>*\<^sup>* counting ?s" by (intro run_threads_steps)
  have "sy_threads counting = map P_incr [3, -1]" by (simp add: counting_def)
  from lazy_increments_sum [OF this t run fin] run show ?thesis by (intro exI [of _ ?s]) (simp add: counting_def example_value_def)
qed

end
