(* ===== verification/Gxcopy.thy ===== *)
theory Gxcopy
  imports Config
begin

text \<open>
  Copying of Lua values from one Lua state to another (\<^verbatim>\<open>gxcopy\<close> in \<^verbatim>\<open>lua_utils.c\<close>), with which a worker gets
  the values of the manager.
\<close>

section \<open>State\<close>

text \<open>
  A value of Lua; tables, functions, userdata and coroutines are numbers in the heap of their state.
\<close>

datatype gval =
    G_nil
  | G_bool bool
  | G_integer int
  | G_number "64 word"
  | G_string string
  | G_light addr
  | G_table nat
  | G_function nat
  | G_userdata nat
  | G_thread nat

text \<open>A function: of C, with its address, or of Lua, with its bytecode; and its upvalues.\<close>

record gfunction =
  fn_cfunction :: "addr option"
  fn_code :: string
  fn_name :: string
  fn_upvalues :: "gval list"

text \<open>
  The heap of a Lua state: tables as their entries in the order of \<^verbatim>\<open>lua_next\<close>, their metatables, functions, and
  userdata with their metatables; the table of globals, and the number of the next object.
\<close>

record gheap =
  h_next :: nat
  h_globals :: nat
  h_tables :: "nat \<rightharpoonup> (gval \<times> gval) list"
  h_meta :: "nat \<rightharpoonup> nat"
  h_functions :: "nat \<rightharpoonup> gfunction"
  h_userdata :: "nat \<rightharpoonup> nat option"

text \<open>
  \<^verbatim>\<open>lua_gxcopy_state_t\<close> with the two states. \<open>gx_copies\<close> joins the two tables of copies, by value of the source;
  \<open>gx_modules\<close> is the inverted \<^verbatim>\<open>package.loaded\<close>. \<^verbatim>\<open>package.preload\<close> of both states and \<^verbatim>\<open>package.loaded\<close> of the
  destination are kept apart from the heaps.
\<close>

record gx =
  gx_src :: gheap
  gx_dst :: gheap
  gx_copies :: "gval \<rightharpoonup> gval"
  gx_modules :: "gval \<rightharpoonup> string"
  gx_preloading :: "string \<Rightarrow> bool"
  gx_ignore :: nat
  gx_src_preload :: "string \<rightharpoonup> gval"
  gx_dst_preload :: "string \<rightharpoonup> gval"
  gx_dst_loaded :: "string \<rightharpoonup> gval"
  gx_S :: shuso
  gx_Sd :: shuso

text \<open>
  What Lua supplies: whether bytecode loads, the value of a field through a metamethod, \<^verbatim>\<open>require\<close> in the
  destination, and the results of calling functions in the source and in the destination, \<open>None\<close> being nil and an
  error, or an error that is raised.
\<close>

record gx_env =
  gn_load :: "string \<Rightarrow> bool"
  gn_index :: "gheap \<Rightarrow> nat \<Rightarrow> string \<Rightarrow> gval"
  gn_require :: "string \<Rightarrow> gx \<Rightarrow> (gval \<times> gx) option"
  gn_call_src :: "gval \<Rightarrow> gval \<Rightarrow> gx \<Rightarrow> gval option \<times> gx"
  gn_call_dst :: "gval \<Rightarrow> gval \<Rightarrow> gx \<Rightarrow> gval option \<times> gx"
  gn_call_metatable :: "gval \<Rightarrow> gx \<Rightarrow> (gval \<times> gx) option"

text \<open>
  Outcomes: a value on the stack of the destination, a failure with its error set, an abort or a stack that is off, and
  calls nested deeper than the fuel.  The stacks themselves are not modelled.
\<close>

datatype 'a gres = Copied 'a gx | Failed gx | Crashed | Deep

fun gbind :: "'a gres \<Rightarrow> ('a \<Rightarrow> gx \<Rightarrow> 'b gres) \<Rightarrow> 'b gres" where
  "gbind (Copied x g) f = f x g"
| "gbind (Failed g) f = Failed g"
| "gbind Crashed f = Crashed"
| "gbind Deep f = Deep"

definition gx_error :: "string \<Rightarrow> gx \<Rightarrow> gx" where
  "gx_error msg g = g\<lparr>gx_S := snd (shuso_set_error msg (gx_S g))\<rparr>"

section \<open>Lua's heap\<close>

text \<open>\<^verbatim>\<open>lua_getfield\<close> and \<^verbatim>\<open>luaL_getmetafield\<close>, which is raw.\<close>

definition h_raw :: "gheap \<Rightarrow> nat \<Rightarrow> string \<Rightarrow> gval" where
  "h_raw h t k = (case h_tables h t of None \<Rightarrow> G_nil
     | Some es \<Rightarrow> (case map_of es (G_string k) of None \<Rightarrow> G_nil | Some v \<Rightarrow> v))"

definition h_get :: "gx_env \<Rightarrow> gheap \<Rightarrow> nat \<Rightarrow> string \<Rightarrow> gval" where
  "h_get env h t k = (if h_raw h t k \<noteq> G_nil \<or> h_meta h t = None then h_raw h t k else gn_index env h t k)"

fun h_metatable :: "gheap \<Rightarrow> gval \<Rightarrow> nat option" where
  "h_metatable h (G_table t) = h_meta h t"
| "h_metatable h (G_userdata u) = (case h_userdata h u of None \<Rightarrow> None | Some m \<Rightarrow> m)"
| "h_metatable h v = None"

definition h_metafield :: "gheap \<Rightarrow> gval \<Rightarrow> string \<Rightarrow> gval" where
  "h_metafield h v k = (case h_metatable h v of None \<Rightarrow> G_nil | Some m \<Rightarrow> h_raw h m k)"

definition new_table :: "gx \<Rightarrow> nat \<times> gx" where
  "new_table g =
     (let h = gx_dst g; t = h_next h
      in (t, g\<lparr>gx_dst := h\<lparr>h_next := t + 1, h_tables := (h_tables h)(t \<mapsto> []), h_meta := (h_meta h)(t := None)\<rparr>\<rparr>))"

definition new_function :: "gfunction \<Rightarrow> gx \<Rightarrow> nat \<times> gx" where
  "new_function fn g =
     (let h = gx_dst g; f = h_next h in (f, g\<lparr>gx_dst := h\<lparr>h_next := f + 1, h_functions := (h_functions h)(f \<mapsto> fn)\<rparr>\<rparr>))"

definition set_entry :: "gval \<Rightarrow> gval \<Rightarrow> (gval \<times> gval) list \<Rightarrow> (gval \<times> gval) list" where
  "set_entry k v es =
     (if v = G_nil then filter (\<lambda>e. fst e \<noteq> k) es
      else if k \<in> fst ` set es then map (\<lambda>(k', v'). if k' = k then (k', v) else (k', v')) es
      else es @ [(k, v)])"

definition rawset :: "nat \<Rightarrow> gval \<Rightarrow> gval \<Rightarrow> gx \<Rightarrow> unit gres" where
  "rawset t k v g =
     (if k = G_nil then Crashed
      else Copied () (g\<lparr>gx_dst := (gx_dst g)\<lparr>h_tables :=
         (h_tables (gx_dst g))(t := map_option (set_entry k v) (h_tables (gx_dst g) t))\<rparr>\<rparr>))"

definition set_metatable :: "nat \<Rightarrow> gval \<Rightarrow> gx \<Rightarrow> unit gres" where
  "set_metatable t w g =
     (case w of G_table m \<Rightarrow> Copied () (g\<lparr>gx_dst := (gx_dst g)\<lparr>h_meta := (h_meta (gx_dst g))(t \<mapsto> m)\<rparr>\<rparr>) | _ \<Rightarrow> Crashed)"

definition set_upvalues :: "nat \<Rightarrow> gval list \<Rightarrow> gx \<Rightarrow> gx" where
  "set_upvalues f ws g =
     g\<lparr>gx_dst := (gx_dst g)\<lparr>h_functions := (h_functions (gx_dst g))(f :=
        map_option (\<lambda>fn. fn\<lparr>fn_upvalues := ws\<rparr>) (h_functions (gx_dst g) f))\<rparr>\<rparr>"

text \<open>A loaded function gets the globals as its first upvalue.\<close>

definition initial_upvalues :: "gheap \<Rightarrow> nat \<Rightarrow> gval list" where
  "initial_upvalues h n = (if n = 0 then [] else G_table (h_globals h) # replicate (n - 1) G_nil)"

text \<open>\<^verbatim>\<open>lua_type\<close>\<close>

fun gval_type :: "gval \<Rightarrow> nat" where
  "gval_type G_nil = 0"
| "gval_type (G_bool b) = 1"
| "gval_type (G_light p) = 2"
| "gval_type (G_integer i) = 3"
| "gval_type (G_number x) = 3"
| "gval_type (G_string s) = 4"
| "gval_type (G_table t) = 5"
| "gval_type (G_function f) = 6"
| "gval_type (G_userdata u) = 7"
| "gval_type (G_thread c) = 8"

section \<open>Copying\<close>

text \<open>The functions that call \<^verbatim>\<open>gxcopy_any\<close> take it as the argument \<open>copy\<close>.\<close>

type_synonym copier = "gval \<Rightarrow> gx \<Rightarrow> gval gres"

text \<open>
  A failure of copying leaves what it had pushed on the stacks, unless it comes before anything is pushed.
\<close>

definition clean_failure :: "gx_env \<Rightarrow> gheap \<Rightarrow> gval \<Rightarrow> bool" where
  "clean_failure env h v =
     (case v of
        G_thread c \<Rightarrow> True
      | G_userdata u \<Rightarrow>
          (case h_metatable h v of
             None \<Rightarrow> True
           | Some m \<Rightarrow> (case h_get env h m ''__gxcopy_save'' of G_function f \<Rightarrow> False | _ \<Rightarrow> True))
      | _ \<Rightarrow> False)"

definition gxcopy_package_preloader :: "gx_env \<Rightarrow> copier \<Rightarrow> string \<Rightarrow> gx \<Rightarrow> unit gres" where
  "gxcopy_package_preloader env copy name g =
     (case gx_src_preload g name of
        None \<Rightarrow> Copied () g
      | Some v \<Rightarrow>
          (let stop = (\<lambda>g. g\<lparr>gx_preloading := (gx_preloading g)(name := False)\<rparr>) in
           case copy v (g\<lparr>gx_preloading := (gx_preloading g)(name := True)\<rparr>) of
             Copied w g \<Rightarrow> Copied () (stop (g\<lparr>gx_dst_preload := (gx_dst_preload g)(name \<mapsto> w)\<rparr>))
           | Failed g \<Rightarrow>
               if clean_failure env (gx_src g) v
               then Failed (gx_error (''failed to gxcopy package.preload['' @ quoted name @ '']'') (stop g))
               else Crashed
           | Crashed \<Rightarrow> Crashed
           | Deep \<Rightarrow> Deep))"

text \<open>
  \<^verbatim>\<open>gxcopy_package_loaded\<close>: the copy of a loaded package, or \<open>None\<close> when the value is not one or is to be copied as
  any other value.  A failure of copying the package directly is taken for the latter, with the name and the value of the
  package left on the stack; a failure of copying its preloader is not looked at.  A field that is there but false stays
  on the stack as well.
\<close>

definition gxcopy_package_loaded :: "gx_env \<Rightarrow> copier \<Rightarrow> gval \<Rightarrow> gx \<Rightarrow> gval option gres" where
  "gxcopy_package_loaded env copy v g =
     (if gx_ignore g > 0 then Copied None (g\<lparr>gx_ignore := gx_ignore g - 1\<rparr>)
      else
        (case gx_modules g v of
           None \<Rightarrow> Copied None g
         | Some name \<Rightarrow>
             if gx_preloading g name then Copied None g
             else
               (let direct = h_metafield (gx_src g) v ''__gxcopy_loaded_package_directly'' in
                if direct \<noteq> G_nil \<and> direct \<noteq> G_bool False then
                  (case copy v (g\<lparr>gx_ignore := gx_ignore g + 1\<rparr>) of
                     Copied w g \<Rightarrow> Copied (Some w) (g\<lparr>gx_dst_loaded := (gx_dst_loaded g)(name \<mapsto> w)\<rparr>)
                   | Failed g \<Rightarrow> Crashed
                   | Crashed \<Rightarrow> Crashed
                   | Deep \<Rightarrow> Deep)
                else
                  (let require = (\<lambda>g. case gn_require env name g of
                         None \<Rightarrow> Crashed
                       | Some (w, g) \<Rightarrow>
                           if direct = G_nil \<and> gval_type v = gval_type w then Copied (Some w) g else Crashed)
                   in case gxcopy_package_preloader env copy name g of
                        Copied _ g \<Rightarrow> require g
                      | Failed g \<Rightarrow> require g
                      | Crashed \<Rightarrow> Crashed
                      | Deep \<Rightarrow> Deep))))"

definition gxcopy_cache_load :: "gval \<Rightarrow> gx \<Rightarrow> gval option" where
  "gxcopy_cache_load v g = gx_copies g v"

definition gxcopy_cache_store :: "gval \<Rightarrow> gval \<Rightarrow> gx \<Rightarrow> gx" where
  "gxcopy_cache_store v w g = g\<lparr>gx_copies := (gx_copies g)(v \<mapsto> w)\<rparr>"

fun gxcopy_upvalues :: "copier \<Rightarrow> gval list \<Rightarrow> gx \<Rightarrow> gval list gres" where
  "gxcopy_upvalues copy [] g = Copied [] g"
| "gxcopy_upvalues copy (v # vs) g =
     gbind (copy v g) (\<lambda>w g. gbind (gxcopy_upvalues copy vs g) (\<lambda>ws g. Copied (w # ws) g))"

text \<open>A function of C is stored among the copies after its upvalues, one of Lua before them.\<close>

definition gxcopy_function :: "gx_env \<Rightarrow> copier \<Rightarrow> bool \<Rightarrow> nat \<Rightarrow> gx \<Rightarrow> gval gres" where
  "gxcopy_function env copy copy_upvalues f g =
     gbind (gxcopy_package_loaded env copy (G_function f) g) (\<lambda>r g.
       case r of Some w \<Rightarrow> Copied w g | None \<Rightarrow>
       case gxcopy_cache_load (G_function f) g of Some w \<Rightarrow> Copied w g | None \<Rightarrow>
       case h_functions (gx_src g) f of None \<Rightarrow> Crashed | Some fn \<Rightarrow>
         if fn_cfunction fn \<noteq> None then
           gbind (if copy_upvalues then gxcopy_upvalues copy (fn_upvalues fn) g else Copied [] g) (\<lambda>ws g.
             let (f', g) = new_function (fn\<lparr>fn_upvalues := ws\<rparr>) g
             in Copied (G_function f') (gxcopy_cache_store (G_function f) (G_function f') g))
         else if \<not> gn_load env (fn_code fn) then
           Failed (gx_error (''failed to gxcopy function '' @ fn_name fn @ '', loadbufferx failed'') g)
         else
           (let (f', g) = new_function (fn\<lparr>fn_upvalues := initial_upvalues (gx_dst g) (length (fn_upvalues fn))\<rparr>) g;
                g = gxcopy_cache_store (G_function f) (G_function f') g
            in if copy_upvalues \<and> fn_upvalues fn \<noteq> [] then
                 gbind (gxcopy_upvalues copy (fn_upvalues fn) g) (\<lambda>ws g. Copied (G_function f') (set_upvalues f' ws g))
               else Copied (G_function f') g))"

text \<open>\<open>t\<close> is the table of the source, \<open>t'\<close> its copy.\<close>

definition gxcopy_metatable :: "gx_env \<Rightarrow> copier \<Rightarrow> nat \<Rightarrow> nat \<Rightarrow> gx \<Rightarrow> unit gres" where
  "gxcopy_metatable env copy t t' g =
     (case h_meta (gx_src g) t of
        None \<Rightarrow> Copied () g
      | Some m \<Rightarrow>
          gbind (gxcopy_package_loaded env copy (G_table m) g) (\<lambda>r g.
            case r of
              Some w \<Rightarrow> set_metatable t' w g
            | None \<Rightarrow>
                (case h_get env (gx_src g) m ''__gxcopy_metatable'' of
                   G_function f \<Rightarrow>
                     (case gxcopy_function env copy False f g of
                        Copied fw g \<Rightarrow>
                          (case gn_call_metatable env fw g of
                             None \<Rightarrow> Crashed
                           | Some (w, g) \<Rightarrow>
                               if w = G_nil
                               then Failed (gx_error ''failed to gxcopy metatable, __gxcopy_metatable function returned nil'' g)
                               else set_metatable t' w g)
                      | Failed g \<Rightarrow> Failed (gx_error ''failed to gxcopy metatable __gxcopy_metatable function'' g)
                      | Crashed \<Rightarrow> Crashed
                      | Deep \<Rightarrow> Deep)
                 | _ \<Rightarrow> gbind (copy (G_table m) g) (\<lambda>w g. set_metatable t' w g))))"

fun gxcopy_entries :: "copier \<Rightarrow> nat \<Rightarrow> (gval \<times> gval) list \<Rightarrow> gx \<Rightarrow> unit gres" where
  "gxcopy_entries copy t' [] g = Copied () g"
| "gxcopy_entries copy t' ((k, v) # es) g =
     gbind (copy k g) (\<lambda>k' g. gbind (copy v g) (\<lambda>v' g.
       gbind (rawset t' k' v' g) (\<lambda>_ g. gxcopy_entries copy t' es g)))"

definition gxcopy_table :: "gx_env \<Rightarrow> copier \<Rightarrow> nat \<Rightarrow> gx \<Rightarrow> gval gres" where
  "gxcopy_table env copy t g =
     (if t = h_globals (gx_src g) then Copied (G_table (h_globals (gx_dst g))) g
      else
        gbind (gxcopy_package_loaded env copy (G_table t) g) (\<lambda>r g.
          case r of Some w \<Rightarrow> Copied w g | None \<Rightarrow>
          case gxcopy_cache_load (G_table t) g of Some w \<Rightarrow> Copied w g | None \<Rightarrow>
          case h_tables (gx_src g) t of None \<Rightarrow> Crashed | Some es \<Rightarrow>
            (let (t', g) = new_table g; g = gxcopy_cache_store (G_table t) (G_table t') g
             in gbind (gxcopy_entries copy t' es g) (\<lambda>_ g.
                gbind (gxcopy_metatable env copy t t' g) (\<lambda>_ g. Copied (G_table t') g)))))"

text \<open>
  Userdata are saved by one function of their metatable and loaded by another.  The result of copying what was saved is
  not looked at: after a failure the loader would be called with another value on the stack.
\<close>

definition gxcopy_userdata :: "gx_env \<Rightarrow> copier \<Rightarrow> nat \<Rightarrow> gx \<Rightarrow> gval gres" where
  "gxcopy_userdata env copy u g =
     gbind (gxcopy_package_loaded env copy (G_userdata u) g) (\<lambda>r g.
       case r of Some w \<Rightarrow> Copied w g | None \<Rightarrow>
       case h_metatable (gx_src g) (G_userdata u) of
         None \<Rightarrow> Failed (gx_error ''failed to gxcopy userdata without metatable: this is impossible'' g)
       | Some m \<Rightarrow>
           (case h_get env (gx_src g) m ''__gxcopy_save'' of
              G_function save \<Rightarrow>
                (case h_get env (gx_src g) m ''__gxcopy_load'' of
                   G_function load \<Rightarrow>
                     gbind (copy (G_function load) g) (\<lambda>load' g.
                       case gn_call_src env (G_function save) (G_userdata u) g of
                         (None, g) \<Rightarrow> Failed (gx_error ''failed to gxcopy userdata: __gxcopy_save error'' g)
                       | (Some s, g) \<Rightarrow>
                           (case copy s g of
                              Copied s' g \<Rightarrow>
                                (case gn_call_dst env load' s' g of
                                   (None, g) \<Rightarrow> Failed (g\<lparr>gx_Sd := snd (shuso_set_error
                                       ''failed to gxcopy userdata: __gxcopy_load error'' (gx_Sd g))\<rparr>)
                                 | (Some w, g) \<Rightarrow> Copied w g)
                            | Failed g \<Rightarrow> Crashed
                            | Crashed \<Rightarrow> Crashed
                            | Deep \<Rightarrow> Deep))
                 | _ \<Rightarrow> Failed (gx_error ''failed to gxcopy userdata: __gxcopy_load metatable value is not a function'' g))
            | _ \<Rightarrow> Failed (gx_error ''failed to gxcopy userdata: __gxcopy_save metatable value is not a function'' g)))"

definition gxcopy_thread :: "gx \<Rightarrow> gval gres" where
  "gxcopy_thread g = Failed (gx_error ''failed to gxcopy coroutine: this is impossible'' g)"

text \<open>\<^verbatim>\<open>gxcopy_any\<close>, with fuel for the depth of its calls.\<close>

primrec gxcopy_any :: "gx_env \<Rightarrow> nat \<Rightarrow> copier" where
  "gxcopy_any env 0 = (\<lambda>v g. Deep)"
| "gxcopy_any env (Suc n) = (\<lambda>v g.
     case v of
       G_table t \<Rightarrow> gxcopy_table env (gxcopy_any env n) t g
     | G_function f \<Rightarrow> gxcopy_function env (gxcopy_any env n) True f g
     | G_userdata u \<Rightarrow> gxcopy_userdata env (gxcopy_any env n) u g
     | G_thread c \<Rightarrow> gxcopy_thread g
     | _ \<Rightarrow> Copied v g)"

section \<open>Sessions\<close>

text \<open>
  The entry \<^verbatim>\<open>___gxcopy_state___\<close> in the registries of the two states.
\<close>

record gx_session =
  ss_src :: "gx option"
  ss_dst :: bool
  ss_S :: shuso

definition ss_error :: "string \<Rightarrow> gx_session \<Rightarrow> bool \<times> gx_session" where
  "ss_error msg ss = (False, ss\<lparr>ss_S := snd (shuso_set_error msg (ss_S ss))\<rparr>)"

text \<open>The inverted \<^verbatim>\<open>package.loaded\<close>, whose entries come in the order of \<^verbatim>\<open>lua_next\<close>.\<close>

definition loaded_modules :: "(string \<times> gval) list \<Rightarrow> gval \<rightharpoonup> string" where
  "loaded_modules ls = foldl (\<lambda>m (k, v). m(v \<mapsto> k)) Map.empty ls"

definition luaS_gxcopy_start ::
  "gheap \<Rightarrow> gheap \<Rightarrow> (string \<times> gval) list \<Rightarrow> (string \<rightharpoonup> gval) \<Rightarrow> shuso \<Rightarrow> gx_session \<Rightarrow> bool \<times> gx_session"
where
  "luaS_gxcopy_start src dst loaded preload Sd ss =
     (if ss_src ss \<noteq> None \<or> ss_dst ss then ss_error ''tried to start gxcopy, but another gxcopy is already in progress'' ss
      else (True, ss\<lparr>ss_src := Some \<lparr>gx_src = src, gx_dst = dst, gx_copies = Map.empty, gx_modules = loaded_modules loaded,
          gx_preloading = (\<lambda>_. False), gx_ignore = 0, gx_src_preload = preload, gx_dst_preload = Map.empty,
          gx_dst_loaded = Map.empty, gx_S = ss_S ss, gx_Sd = Sd\<rparr>, ss_dst := True\<rparr>))"

definition luaS_gxcopy :: "gx_env \<Rightarrow> nat \<Rightarrow> gval \<Rightarrow> gx_session \<Rightarrow> (gval option \<times> gx_session) run option" where
  "luaS_gxcopy env n v ss =
     (case ss_src ss of
        None \<Rightarrow> Some (Done (None, snd (ss_error ''tried to gxcopy a Lua value, but no gxcopy is in progress'' ss)))
      | Some g \<Rightarrow>
          (case gxcopy_any env n v (g\<lparr>gx_S := ss_S ss\<rparr>) of
             Copied w g \<Rightarrow> Some (Done (Some w, ss\<lparr>ss_src := Some g, ss_S := gx_S g\<rparr>))
           | Failed g \<Rightarrow> Some (Done (None, ss\<lparr>ss_src := Some g, ss_S := gx_S g\<rparr>))
           | Crashed \<Rightarrow> Some Abort
           | Deep \<Rightarrow> None))"

definition luaS_gxcopy_finish :: "gx_session \<Rightarrow> bool \<times> gx_session" where
  "luaS_gxcopy_finish ss =
     (if ss_src ss = None then ss_error ''tried to finish gxcopy, but no gxcopy is in progress'' ss
      else (True, ss\<lparr>ss_src := None, ss_dst := False\<rparr>))"

section \<open>Copies of plain values\<close>

text \<open>
  A plain heap: every table and function that is referred to is there and is no loaded package, but for the globals; keys
  are distinct, no entry has nil, functions of C have no upvalues, bytecode loads, no metatable has a function to make its
  copy, and there are no userdata or coroutines.
\<close>

fun plain_val :: "(gval \<rightharpoonup> string) \<Rightarrow> gheap \<Rightarrow> gval \<Rightarrow> bool" where
  "plain_val ms h (G_table t) \<longleftrightarrow> t = h_globals h \<or> (t \<in> dom (h_tables h) \<and> ms (G_table t) = None)"
| "plain_val ms h (G_function f) \<longleftrightarrow> f \<in> dom (h_functions h) \<and> ms (G_function f) = None"
| "plain_val ms h (G_userdata u) \<longleftrightarrow> False"
| "plain_val ms h (G_thread c) \<longleftrightarrow> False"
| "plain_val ms h v \<longleftrightarrow> True"

definition plain_heap :: "gx_env \<Rightarrow> (gval \<rightharpoonup> string) \<Rightarrow> gheap \<Rightarrow> bool" where
  "plain_heap env ms h \<longleftrightarrow> finite (dom (h_tables h)) \<and> finite (dom (h_functions h)) \<and>
     (\<forall>t es. h_tables h t = Some es \<longrightarrow> t \<noteq> h_globals h \<longrightarrow> distinct (map fst es) \<and>
        (\<forall>(k, v) \<in> set es. k \<noteq> G_nil \<and> v \<noteq> G_nil \<and> plain_val ms h k \<and> plain_val ms h v)) \<and>
     (\<forall>t m. h_meta h t = Some m \<longrightarrow> m \<in> dom (h_tables h) \<and> ms (G_table m) = None \<and>
        (\<forall>f. h_get env h m ''__gxcopy_metatable'' \<noteq> G_function f)) \<and>
     (\<forall>f fn. h_functions h f = Some fn \<longrightarrow> (\<forall>v \<in> set (fn_upvalues fn). plain_val ms h v) \<and>
        (fn_cfunction fn \<noteq> None \<longrightarrow> fn_upvalues fn = []) \<and> gn_load env (fn_code fn))"

text \<open>The value that stands for \<open>v\<close> in the destination.\<close>

definition related :: "gx \<Rightarrow> gval \<Rightarrow> gval \<Rightarrow> bool" where
  "related g v w \<longleftrightarrow>
     (case v of
        G_table t \<Rightarrow> if t = h_globals (gx_src g) then w = G_table (h_globals (gx_dst g)) else gx_copies g v = Some w
      | G_function f \<Rightarrow> gx_copies g v = Some w
      | _ \<Rightarrow> w = v)"

abbreviation related_pair :: "gx \<Rightarrow> gval \<times> gval \<Rightarrow> gval \<times> gval \<Rightarrow> bool" where
  "related_pair g x y \<equiv> related g (fst x) (fst y) \<and> related g (snd x) (snd y)"

text \<open>The copy of a table or function is like the original, with every value replaced by the one that stands for it.\<close>

definition table_alike :: "gx \<Rightarrow> nat \<Rightarrow> nat \<Rightarrow> bool" where
  "table_alike g t t' \<longleftrightarrow>
     (\<exists>es es'. h_tables (gx_src g) t = Some es \<and> h_tables (gx_dst g) t' = Some es' \<and> list_all2 (related_pair g) es es') \<and>
     (case h_meta (gx_src g) t of
        None \<Rightarrow> h_meta (gx_dst g) t' = None
      | Some m \<Rightarrow> \<exists>m'. h_meta (gx_dst g) t' = Some m' \<and> related g (G_table m) (G_table m'))"

definition function_alike :: "gx \<Rightarrow> nat \<Rightarrow> nat \<Rightarrow> bool" where
  "function_alike g f f' \<longleftrightarrow>
     (\<exists>fn fn'. h_functions (gx_src g) f = Some fn \<and> h_functions (gx_dst g) f' = Some fn' \<and>
        fn_cfunction fn' = fn_cfunction fn \<and> fn_code fn' = fn_code fn \<and> list_all2 (related g) (fn_upvalues fn) (fn_upvalues fn'))"

definition alike :: "gx \<Rightarrow> gval \<Rightarrow> bool" where
  "alike g v \<longleftrightarrow>
     (\<exists>t t'. v = G_table t \<and> gx_copies g v = Some (G_table t') \<and> table_alike g t t') \<or>
     (\<exists>f f'. v = G_function f \<and> gx_copies g v = Some (G_function f') \<and> function_alike g f f')"

fun gid :: "gval \<Rightarrow> nat" where
  "gid (G_table t) = t"
| "gid (G_function f) = f"
| "gid v = 0"

text \<open>
  Copies are new objects of the same kind, different ones for different originals.
\<close>

definition copies_inv :: "gx \<Rightarrow> bool" where
  "copies_inv g \<longleftrightarrow> gx_ignore g = 0 \<and> h_globals (gx_dst g) < h_next (gx_dst g) \<and>
     (\<forall>v w. gx_copies g v = Some w \<longrightarrow>
        (\<exists>t t'. v = G_table t \<and> w = G_table t' \<and> t \<noteq> h_globals (gx_src g) \<and> t' \<noteq> h_globals (gx_dst g)) \<or>
        (\<exists>f f'. v = G_function f \<and> w = G_function f')) \<and>
     (\<forall>v w. gx_copies g v = Some w \<longrightarrow> gid w < h_next (gx_dst g)) \<and>
     (\<forall>v v' w. gx_copies g v = Some w \<longrightarrow> gx_copies g v' = Some w \<longrightarrow> v = v')"

definition same_object :: "nat \<Rightarrow> gx \<Rightarrow> gx \<Rightarrow> bool" where
  "same_object x g g' \<longleftrightarrow> h_tables (gx_dst g') x = h_tables (gx_dst g) x \<and> h_meta (gx_dst g') x = h_meta (gx_dst g) x \<and>
     h_functions (gx_dst g') x = h_functions (gx_dst g) x"

text \<open>
  What copying does: the source stays, objects of the destination stay but for those of \<open>X\<close>, and what has been
  copied is new and alike.
\<close>

definition grown :: "nat set \<Rightarrow> gx \<Rightarrow> gx \<Rightarrow> bool" where
  "grown X g g' \<longleftrightarrow> gx_src g' = gx_src g \<and> gx_modules g' = gx_modules g \<and> h_globals (gx_dst g') = h_globals (gx_dst g) \<and>
     h_next (gx_dst g) \<le> h_next (gx_dst g') \<and> gx_copies g \<subseteq>\<^sub>m gx_copies g' \<and>
     (\<forall>x < h_next (gx_dst g). x \<notin> X \<longrightarrow> same_object x g g') \<and>
     (\<forall>v w. gx_copies g' v = Some w \<longrightarrow> gx_copies g v = None \<longrightarrow> alike g' v \<and> h_next (gx_dst g) \<le> gid w)"

lemma related_mono:
  assumes "gx_src g' = gx_src g" "h_globals (gx_dst g') = h_globals (gx_dst g)" "gx_copies g \<subseteq>\<^sub>m gx_copies g'"
  shows "related g v w \<Longrightarrow> related g' v w"
  using assms by (cases v) (auto simp: related_def map_le_def dom_def split: if_splits)

lemma related_list_mono:
  assumes "gx_src g' = gx_src g" "h_globals (gx_dst g') = h_globals (gx_dst g)" "gx_copies g \<subseteq>\<^sub>m gx_copies g'"
  shows "list_all2 (related g) vs ws \<Longrightarrow> list_all2 (related g') vs ws"
    and "list_all2 (related_pair g) es es' \<Longrightarrow> list_all2 (related_pair g') es es'"
  using related_mono [OF assms] by (auto elim!: list_all2_mono)

lemma map_le_Some: "m \<subseteq>\<^sub>m m' \<Longrightarrow> m x = Some y \<Longrightarrow> m' x = Some y"
  by (metis domI map_le_def)

lemma alike_mono:
  assumes "gx_src g' = gx_src g" "h_globals (gx_dst g') = h_globals (gx_dst g)" "gx_copies g \<subseteq>\<^sub>m gx_copies g'"
    and "gx_copies g v = Some w" "same_object (gid w) g g'" "alike g v"
  shows "alike g' v"
proof -
  note mono = related_mono [OF assms(1-3)] related_list_mono [OF assms(1-3)]
  have c: "gx_copies g' v = Some w" using map_le_Some assms(3,4) .
  from assms(6) consider (table) t t' where "v = G_table t" "w = G_table t'" "table_alike g t t'"
    | (func) f f' where "v = G_function f" "w = G_function f'" "function_alike g f f'"
    using assms(4) by (auto simp: alike_def)
  then show ?thesis
  proof cases
    case table
    then have "table_alike g' t t'"
      using assms(1,5) mono by (fastforce simp: table_alike_def same_object_def split: option.splits)
    then show ?thesis using table c by (simp add: alike_def)
  next
    case func
    then have "function_alike g' f f'"
      using assms(1,5) mono by (fastforce simp: function_alike_def same_object_def)
    then show ?thesis using func c by (simp add: alike_def)
  qed
qed

lemma grown_refl [simp]: "grown X g g"
  by (simp add: grown_def same_object_def)

lemma grown_weaken: "grown X g g' \<Longrightarrow> X \<subseteq> Y \<Longrightarrow> grown Y g g'"
  unfolding grown_def by blast

lemma grown_trans:
  assumes 1: "grown X g g1" and 2: "grown X g1 g2" and inv: "copies_inv g1" and X: "\<forall>x \<in> X. x < h_next (gx_dst g)"
  shows "grown X g g2"
proof -
  have "alike g2 v \<and> h_next (gx_dst g) \<le> gid w" if w: "gx_copies g2 v = Some w" "gx_copies g v = None" for v w
  proof (cases "gx_copies g1 v")
    case None
    then show ?thesis using 1 2 w by (fastforce simp: grown_def)
  next
    case (Some w1)
    have le: "gx_copies g1 \<subseteq>\<^sub>m gx_copies g2" using 2 by (simp add: grown_def)
    have w1: "w1 = w" using map_le_Some [OF le Some] w by simp
    have a: "alike g1 v" and n: "h_next (gx_dst g) \<le> gid w" using 1 Some w w1 by (auto simp: grown_def)
    have "gid w < h_next (gx_dst g1)" using inv Some w1 by (auto simp: copies_inv_def)
    moreover have "gid w \<notin> X" using n X by (meson leD)
    ultimately have "same_object (gid w) g1 g2" using 2 by (simp add: grown_def)
    then have "alike g2 v" using alike_mono [of g2 g1 v w] 2 Some w1 a by (simp add: grown_def)
    then show ?thesis using n by simp
  qed
  then show ?thesis using 1 2 by (auto simp: grown_def same_object_def intro: map_le_trans)
qed

lemma related_inj:
  assumes "copies_inv g" "related g v w" "related g v' w"
  shows "v = v'"
proof -
  have c: "(\<exists>t t'. v = G_table t \<and> w = G_table t' \<and> t \<noteq> h_globals (gx_src g) \<and> t' \<noteq> h_globals (gx_dst g)) \<or>
      (\<exists>f f'. v = G_function f \<and> w = G_function f')" if "gx_copies g v = Some w" for v w
    using assms(1) that unfolding copies_inv_def by blast
  have i: "v = v'" if "gx_copies g v = Some w" "gx_copies g v' = Some w"
    using assms(1) that unfolding copies_inv_def by blast
  show ?thesis
    using assms(2,3) c [of v w] c [of v' w] i by (cases v; cases v') (auto simp: related_def split: if_splits)
qed

text \<open>Tables and functions of the source that have no copy yet; each call but the last of a chain takes one of them.\<close>

definition uncached :: "gx \<Rightarrow> gval set" where
  "uncached g = (G_table ` dom (h_tables (gx_src g)) \<union> G_function ` dom (h_functions (gx_src g))) - dom (gx_copies g)"

definition copies_ok :: "gx_env \<Rightarrow> copier \<Rightarrow> nat \<Rightarrow> bool" where
  "copies_ok env copy k \<longleftrightarrow>
     (\<forall>v g. copies_inv g \<longrightarrow> plain_heap env (gx_modules g) (gx_src g) \<longrightarrow> plain_val (gx_modules g) (gx_src g) v \<longrightarrow> card (uncached g) < k \<longrightarrow>
        (\<exists>w g'. copy v g = Copied w g' \<and> copies_inv g' \<and> grown {} g g' \<and> related g' v w))"

lemma copies_okE:
  assumes "copies_ok env copy k" "copies_inv g" "plain_heap env (gx_modules g) (gx_src g)" "plain_val (gx_modules g) (gx_src g) v" "card (uncached g) < k"
  obtains w g' where "copy v g = Copied w g'" "copies_inv g'" "grown {} g g'" "related g' v w"
  using assms unfolding copies_ok_def by blast

lemma grown_same:
  assumes "grown X g g'"
  shows "gx_src g' = gx_src g" "h_globals (gx_dst g') = h_globals (gx_dst g)" "gx_copies g \<subseteq>\<^sub>m gx_copies g'"
    "h_next (gx_dst g) \<le> h_next (gx_dst g')" "gx_modules g' = gx_modules g"
  using assms by (simp_all add: grown_def)

lemma uncached_finite: "plain_heap env (gx_modules g) (gx_src g) \<Longrightarrow> finite (uncached g)"
  by (simp add: plain_heap_def uncached_def)

lemma uncached_grown:
  assumes "grown X g g'" "plain_heap env (gx_modules g) (gx_src g)" "card (uncached g) < k"
  shows "card (uncached g') < k"
proof -
  have "uncached g' \<subseteq> uncached g"
    using grown_same [OF assms(1)] by (auto simp: uncached_def map_le_def dom_def)
  then have "card (uncached g') \<le> card (uncached g)" using uncached_finite [OF assms(2)] by (rule card_mono [rotated])
  then show ?thesis using assms(3) by simp
qed

lemma related_not_nil: "copies_inv g \<Longrightarrow> related g v w \<Longrightarrow> v \<noteq> G_nil \<Longrightarrow> w \<noteq> G_nil"
  by (cases v) (auto simp: related_def copies_inv_def split: if_splits)

lemma related_pairs_keys:
  assumes "copies_inv g" "list_all2 (related_pair g) es es'" "related g k k'" "k \<notin> fst ` set es"
  shows "k' \<notin> fst ` set es'"
proof
  assume "k' \<in> fst ` set es'"
  then obtain i where i: "i < length es'" "fst (es' ! i) = k'" by (auto simp: in_set_conv_nth)
  then have "i < length es" "related g (fst (es ! i)) k'"
    using assms(2) by (auto simp: list_all2_conv_all_nth)
  moreover from this have "fst (es ! i) = k" using related_inj assms(1,3) by blast
  ultimately show False using assms(4) by auto
qed

lemma rawset_grown:
  assumes "h_tables (gx_dst g) t' = Some es" "k \<notin> fst ` set es" "k \<noteq> G_nil" "v \<noteq> G_nil" "copies_inv g"
  shows "\<exists>g'. rawset t' k v g = Copied () g' \<and> copies_inv g' \<and> grown {t'} g g' \<and>
    h_tables (gx_dst g') t' = Some (es @ [(k, v)]) \<and> h_meta (gx_dst g') t' = h_meta (gx_dst g) t' \<and>
    h_next (gx_dst g') = h_next (gx_dst g)"
  using assms by (simp add: rawset_def set_entry_def grown_def same_object_def copies_inv_def)

lemma gxcopy_entries_ok:
  assumes "copies_ok env copy k" "plain_heap env (gx_modules g) (gx_src g)" "card (uncached g) < k"
    and "copies_inv g" "t' < h_next (gx_dst g)" "h_tables (gx_dst g) t' = Some es'" "list_all2 (related_pair g) es0 es'"
    and "distinct (map fst (es0 @ es))"
    and "\<forall>(k, v) \<in> set es. k \<noteq> G_nil \<and> v \<noteq> G_nil \<and> plain_val (gx_modules g) (gx_src g) k \<and> plain_val (gx_modules g) (gx_src g) v"
  shows "\<exists>g' es''. gxcopy_entries copy t' es g = Copied () g' \<and> copies_inv g' \<and> grown {t'} g g' \<and>
    h_tables (gx_dst g') t' = Some es'' \<and> list_all2 (related_pair g') (es0 @ es) es'' \<and>
    h_meta (gx_dst g') t' = h_meta (gx_dst g) t'"
  using assms
proof (induction es arbitrary: g es0 es')
  case Nil
  then show ?case by simp
next
  case (Cons e es)
  obtain x y where e: "e = (x, y)" by (cases e)
  have p: "x \<noteq> G_nil" "y \<noteq> G_nil" "plain_val (gx_modules g) (gx_src g) x" "plain_val (gx_modules g) (gx_src g) y" using Cons.prems(9) e by auto
  obtain x' g1 where 1: "copy x g = Copied x' g1" "copies_inv g1" "grown {} g g1" "related g1 x x'"
    using copies_okE [OF Cons.prems(1,4,2) p(3) Cons.prems(3)] .
  note s1 = grown_same [OF 1(3)]
  obtain y' g2 where 2: "copy y g1 = Copied y' g2" "copies_inv g2" "grown {} g1 g2" "related g2 y y'"
    using copies_okE [OF Cons.prems(1) 1(2), of y] s1 p(4) Cons.prems(2) uncached_grown [OF 1(3) Cons.prems(2,3)] by metis
  note s2 = grown_same [OF 2(3)]
  have g02: "grown {} g g2" using grown_trans [OF 1(3) 2(3) 1(2)] by simp
  note s02 = grown_same [OF g02]
  have so: "same_object t' g g2" using g02 Cons.prems(5) by (simp add: grown_def)
  have x2: "related g2 x x'" using related_mono [OF s2(1-3) 1(4)] .
  have l2: "list_all2 (related_pair g2) es0 es'" using related_list_mono(2) [OF s02(1-3) Cons.prems(7)] .
  have "x \<notin> fst ` set es0" using Cons.prems(8) e by auto
  then have k: "x' \<notin> fst ` set es'" using related_pairs_keys [OF 2(2) l2 x2] by simp
  have t2: "h_tables (gx_dst g2) t' = Some es'" using so Cons.prems(6) by (simp add: same_object_def)
  obtain g3 where 3: "rawset t' x' y' g2 = Copied () g3" "copies_inv g3" "grown {t'} g2 g3"
      "h_tables (gx_dst g3) t' = Some (es' @ [(x', y')])" "h_meta (gx_dst g3) t' = h_meta (gx_dst g2) t'"
      "h_next (gx_dst g3) = h_next (gx_dst g2)"
    using rawset_grown [OF t2 k related_not_nil [OF 2(2) x2 p(1)] related_not_nil [OF 2(2) 2(4) p(2)] 2(2)] by blast
  note s3 = grown_same [OF 3(3)]
  have g03: "grown {t'} g g3"
    using grown_trans [OF grown_weaken [OF g02] 3(3) 2(2)] Cons.prems(5) by simp
  note s03 = grown_same [OF g03]
  have "list_all2 (related_pair g2) (es0 @ [e]) (es' @ [(x', y')])"
    using l2 x2 2(4) e by (simp add: list_all2_appendI)
  then have l3: "list_all2 (related_pair g3) (es0 @ [e]) (es' @ [(x', y')])" using related_list_mono(2) [OF s3(1-3)] by blast
  obtain g' es'' where 4: "gxcopy_entries copy t' es g3 = Copied () g'" "copies_inv g'" "grown {t'} g3 g'"
      "h_tables (gx_dst g') t' = Some es''" "list_all2 (related_pair g') ((es0 @ [e]) @ es) es''"
      "h_meta (gx_dst g') t' = h_meta (gx_dst g3) t'"
    using Cons.IH [OF Cons.prems(1) _ _ 3(2) _ 3(4) l3] Cons.prems(2,5,8,9) s03
      uncached_grown [OF g03 Cons.prems(2,3)] by (auto simp: e)
  have "grown {t'} g g'" using grown_trans [OF g03 4(3) 3(2)] Cons.prems(5) by simp
  moreover have "h_meta (gx_dst g') t' = h_meta (gx_dst g) t'"
    using 4(6) 3(5) so by (simp add: same_object_def)
  ultimately show ?case using 1(1) 2(1) 3(1) 4 by (auto simp: e)
qed

lemma not_a_package: "copies_inv g \<Longrightarrow> gx_modules g v = None \<Longrightarrow> gxcopy_package_loaded env copy v g = Copied None g"
  by (simp add: copies_inv_def gxcopy_package_loaded_def)

lemma gxcopy_upvalues_ok:
  assumes "copies_ok env copy k" "plain_heap env (gx_modules g) (gx_src g)" "card (uncached g) < k" "copies_inv g"
    and "\<forall>v \<in> set vs. plain_val (gx_modules g) (gx_src g) v"
  shows "\<exists>ws g'. gxcopy_upvalues copy vs g = Copied ws g' \<and> copies_inv g' \<and> grown {} g g' \<and> list_all2 (related g') vs ws"
  using assms
proof (induction vs arbitrary: g)
  case Nil
  then show ?case by simp
next
  case (Cons v vs)
  obtain w g1 where 1: "copy v g = Copied w g1" "copies_inv g1" "grown {} g g1" "related g1 v w"
    using copies_okE [OF Cons.prems(1,4,2) _ Cons.prems(3), of v] Cons.prems(5) by auto
  note s1 = grown_same [OF 1(3)]
  obtain ws g2 where 2: "gxcopy_upvalues copy vs g1 = Copied ws g2" "copies_inv g2" "grown {} g1 g2" "list_all2 (related g2) vs ws"
    using Cons.IH [OF Cons.prems(1) _ uncached_grown [OF 1(3) Cons.prems(2,3)] 1(2)] s1 Cons.prems(2,5) by auto
  note s2 = grown_same [OF 2(3)]
  show ?case using 1(1) 2 related_mono [OF s2(1-3) 1(4)] grown_trans [OF 1(3) 2(3) 1(2)] by simp
qed

lemma related_table:
  assumes "copies_inv g" "related g (G_table m) w"
  obtains m' where "w = G_table m'"
  using assms by (auto simp: related_def copies_inv_def split: if_splits)

lemma gxcopy_metatable_ok:
  assumes "copies_ok env copy k" "plain_heap env (gx_modules g) (gx_src g)" "card (uncached g) < k" "copies_inv g"
    and "t' < h_next (gx_dst g)" "h_meta (gx_dst g) t' = None"
  shows "\<exists>g'. gxcopy_metatable env copy t t' g = Copied () g' \<and> copies_inv g' \<and> grown {t'} g g' \<and>
    h_tables (gx_dst g') t' = h_tables (gx_dst g) t' \<and>
    (case h_meta (gx_src g) t of None \<Rightarrow> h_meta (gx_dst g') t' = None
     | Some m \<Rightarrow> \<exists>m'. h_meta (gx_dst g') t' = Some m' \<and> related g' (G_table m) (G_table m'))"
proof (cases "h_meta (gx_src g) t")
  case None
  then show ?thesis using assms(4,6) by (simp add: gxcopy_metatable_def)
next
  case (Some m)
  then have m: "plain_val (gx_modules g) (gx_src g) (G_table m)" "gx_modules g (G_table m) = None" "\<And>f. h_get env (gx_src g) m ''__gxcopy_metatable'' \<noteq> G_function f"
    using assms(2) by (auto simp: plain_heap_def)
  obtain w g1 where 1: "copy (G_table m) g = Copied w g1" "copies_inv g1" "grown {} g g1" "related g1 (G_table m) w"
    using copies_okE [OF assms(1,4,2) m(1) assms(3)] .
  obtain m' where w: "w = G_table m'" using related_table [OF 1(2,4)] .
  define g' where "g' = g1\<lparr>gx_dst := (gx_dst g1)\<lparr>h_meta := (h_meta (gx_dst g1))(t' \<mapsto> m')\<rparr>\<rparr>"
  have 2: "copies_inv g'" "grown {t'} g1 g'" using 1(2) by (simp_all add: g'_def copies_inv_def grown_def same_object_def)
  note s2 = grown_same [OF 2(2)]
  have "gxcopy_metatable env copy t t' g = Copied () g'"
    using m(3) Some not_a_package [OF assms(4) m(2)] 1(1) w
    by (auto simp: gxcopy_metatable_def set_metatable_def g'_def split: gval.split)
  moreover have "grown {t'} g g'" using grown_trans [OF grown_weaken [OF 1(3)] 2(2) 1(2)] assms(5) by simp
  moreover have "h_tables (gx_dst g') t' = h_tables (gx_dst g) t'"
    using 1(3) assms(5) by (simp add: g'_def grown_def same_object_def)
  ultimately show ?thesis using Some 2(1) related_mono [OF s2(1-3) 1(4)] w by (auto simp: g'_def)
qed

text \<open>An object that is put among the copies when it is made, is filled afterwards, and is alike at the end.\<close>

lemma made_object:
  assumes inv: "copies_inv g" "gx_copies g v = None"
    and new: "gx_src g1 = gx_src g" "gx_modules g1 = gx_modules g" "gx_dst g1 = (gx_dst g)\<lparr>h_next := h_next (gx_dst g) + 1, h_tables := T, h_meta := M, h_functions := F\<rparr>"
      "\<forall>x. x \<noteq> h_next (gx_dst g) \<longrightarrow> T x = h_tables (gx_dst g) x \<and> M x = h_meta (gx_dst g) x \<and> F x = h_functions (gx_dst g) x"
      "gx_copies g1 = (gx_copies g)(v \<mapsto> w)" "gid w = h_next (gx_dst g)"
    and filled: "grown {h_next (gx_dst g)} g1 g'" "alike g' v"
  shows "grown {} g g'"
proof -
  let ?x = "h_next (gx_dst g)"
  note s = grown_same [OF filled(1)]
  have le: "gx_copies g \<subseteq>\<^sub>m gx_copies g1" using inv(2) new(5) by (auto simp: map_le_def)
  have "same_object x g g'" if "x < ?x" for x
    using filled(1) that new(3,4) by (auto simp: grown_def same_object_def)
  moreover have "alike g' u \<and> ?x \<le> gid y" if "gx_copies g' u = Some y" "gx_copies g u = None" for u y
  proof (cases "u = v")
    case True
    then show ?thesis using filled(2) map_le_Some [OF s(3), of v w] new(5,6) that(1) by auto
  next
    case False
    then have "gx_copies g1 u = None" using new(5) that(2) by simp
    then show ?thesis using filled(1) that(1) new(3) by (fastforce simp: grown_def)
  qed
  ultimately show ?thesis using s le new(1,2,3) by (auto simp: grown_def intro: map_le_trans)
qed

lemma uncached_store:
  assumes "plain_heap env (gx_modules g) (gx_src g)" "v \<in> uncached g" "gx_src g1 = gx_src g" "gx_copies g1 = (gx_copies g)(v \<mapsto> w)"
    "card (uncached g) < Suc k"
  shows "card (uncached g1) < k"
proof -
  have "uncached g1 = uncached g - {v}" using assms(3,4) by (auto simp: uncached_def)
  then show ?thesis using assms(2,5) card_Diff1_less [OF uncached_finite [OF assms(1)] assms(2)] by simp
qed

lemma gxcopy_table_ok:
  assumes ok: "copies_ok env copy k" and pl: "plain_heap env (gx_modules g) (gx_src g)" and c: "card (uncached g) < Suc k"
    and inv: "copies_inv g" and t: "plain_val (gx_modules g) (gx_src g) (G_table t)"
  shows "\<exists>w g'. gxcopy_table env copy t g = Copied w g' \<and> copies_inv g' \<and> grown {} g g' \<and> related g' (G_table t) w"
proof (cases "t = h_globals (gx_src g) \<or> gx_copies g (G_table t) \<noteq> None")
  case True
  then obtain w where "gxcopy_table env copy t g = Copied w g" "related g (G_table t) w"
    using not_a_package [OF inv, of "G_table t"] t by (cases "t = h_globals (gx_src g)") (auto simp: gxcopy_table_def related_def gxcopy_cache_load_def)
  then show ?thesis using inv by (meson grown_refl)
next
  case False
  then have ng: "t \<noteq> h_globals (gx_src g)" and nc: "gx_copies g (G_table t) = None" by auto
  have nm: "gx_modules g (G_table t) = None" using t ng by simp
  obtain es where es: "h_tables (gx_src g) t = Some es" using t ng by auto
  have pe: "distinct (map fst ([] @ es))"
    "\<forall>(k, v) \<in> set es. k \<noteq> G_nil \<and> v \<noteq> G_nil \<and> plain_val (gx_modules g) (gx_src g) k \<and> plain_val (gx_modules g) (gx_src g) v"
    using pl es ng unfolding plain_heap_def by auto
  let ?t = "h_next (gx_dst g)"
  obtain g0 where nt: "new_table g = (?t, g0)" by (simp add: new_table_def Let_def)
  define g1 where "g1 = gxcopy_cache_store (G_table t) (G_table ?t) g0"
  have g1: "gx_src g1 = gx_src g" "gx_copies g1 = (gx_copies g)(G_table t \<mapsto> G_table ?t)"
    "gx_dst g1 = (gx_dst g)\<lparr>h_next := ?t + 1, h_tables := (h_tables (gx_dst g))(?t \<mapsto> []),
       h_meta := (h_meta (gx_dst g))(?t := None), h_functions := h_functions (gx_dst g)\<rparr>" "gx_modules g1 = gx_modules g"
    using nt by (auto simp: g1_def gxcopy_cache_store_def new_table_def Let_def)
  have old: "gid w < ?t" if "gx_copies g v = Some w" for v w using inv that unfolding copies_inv_def by blast
  have "gx_ignore g1 = gx_ignore g"
    using nt by (auto simp: g1_def gxcopy_cache_store_def new_table_def Let_def)
  then have inv1: "copies_inv g1"
    using inv ng old unfolding copies_inv_def g1(1,2,3)
    by (auto simp: less_SucI) (metis gid.simps(1) less_irrefl)+
  have "G_table t \<in> uncached g" using t ng nc by (auto simp: uncached_def)
  then have c1: "card (uncached g1) < k" using uncached_store [OF pl _ g1(1,2) c] by simp
  obtain g2 es' where 2: "gxcopy_entries copy ?t es g1 = Copied () g2" "copies_inv g2" "grown {?t} g1 g2"
      "h_tables (gx_dst g2) ?t = Some es'" "list_all2 (related_pair g2) es es'" "h_meta (gx_dst g2) ?t = None"
    using gxcopy_entries_ok [OF ok _ c1 inv1, of ?t "[]" "[]" es] pl pe g1(1,3,4) by auto
  note s2 = grown_same [OF 2(3)]
  have c2: "card (uncached g2) < k" using uncached_grown [OF 2(3) _ c1] pl g1(1,4) by simp
  obtain g3 where 3: "gxcopy_metatable env copy t ?t g2 = Copied () g3" "copies_inv g3" "grown {?t} g2 g3"
      "h_tables (gx_dst g3) ?t = h_tables (gx_dst g2) ?t"
      "case h_meta (gx_src g2) t of None \<Rightarrow> h_meta (gx_dst g3) ?t = None
       | Some m \<Rightarrow> \<exists>m'. h_meta (gx_dst g3) ?t = Some m' \<and> related g3 (G_table m) (G_table m')"
    using gxcopy_metatable_ok [OF ok _ c2 2(2) _ 2(6), of t] pl s2 g1(1,3,4) by auto
  note s3 = grown_same [OF 3(3)]
  have g13: "grown {?t} g1 g3" using grown_trans [OF 2(3) 3(3) 2(2)] g1(3) by simp
  have cp: "gx_copies g3 (G_table t) = Some (G_table ?t)"
    using map_le_Some [OF grown_same(3) [OF g13]] g1(2) by simp
  have "table_alike g3 t ?t"
    using es 2(4) 3(4,5) related_list_mono(2) [OF s3(1-3) 2(5)] s2(1) s3(1) g1(1) by (simp add: table_alike_def)
  then have al: "alike g3 (G_table t)" using cp by (simp add: alike_def)
  have "grown {} g g3"
    by (rule made_object [OF inv nc g1(1,4,3) _ g1(2) _ g13 al]) simp_all
  moreover have "gxcopy_table env copy t g = Copied (G_table ?t) g3"
    unfolding gxcopy_table_def not_a_package [OF inv nm]
    using ng nc es 2(1) 3(1) by (simp add: nt gxcopy_cache_load_def g1_def Let_def)
  moreover have "related g3 (G_table t) (G_table ?t)"
    using cp ng s2(1) s3(1) g1(1) by (simp add: related_def)
  ultimately show ?thesis using 3(2) by blast
qed

lemma gxcopy_function_ok:
  assumes ok: "copies_ok env copy k" and pl: "plain_heap env (gx_modules g) (gx_src g)" and c: "card (uncached g) < Suc k"
    and inv: "copies_inv g" and f: "plain_val (gx_modules g) (gx_src g) (G_function f)"
  shows "\<exists>w g'. gxcopy_function env copy True f g = Copied w g' \<and> copies_inv g' \<and> grown {} g g' \<and> related g' (G_function f) w"
proof (cases "gx_copies g (G_function f)")
  case (Some w)
  then show ?thesis
    using inv f not_a_package [OF inv, of "G_function f"] by (auto simp: gxcopy_function_def related_def gxcopy_cache_load_def)
next
  case None
  obtain fn where fn: "h_functions (gx_src g) f = Some fn" using f by auto
  have nm: "gx_modules g (G_function f) = None" using f by simp
  have pf: "\<forall>v \<in> set (fn_upvalues fn). plain_val (gx_modules g) (gx_src g) v" "fn_cfunction fn \<noteq> None \<Longrightarrow> fn_upvalues fn = []"
    "gn_load env (fn_code fn)"
    using pl fn unfolding plain_heap_def by blast+
  let ?f = "h_next (gx_dst g)"
  define fn1 where "fn1 = (if fn_cfunction fn \<noteq> None then fn
    else fn\<lparr>fn_upvalues := initial_upvalues (gx_dst g) (length (fn_upvalues fn))\<rparr>)"
  obtain g0 where nf: "new_function fn1 g = (?f, g0)" by (simp add: new_function_def Let_def)
  define g1 where "g1 = gxcopy_cache_store (G_function f) (G_function ?f) g0"
  have g1: "gx_src g1 = gx_src g" "gx_copies g1 = (gx_copies g)(G_function f \<mapsto> G_function ?f)"
    "gx_dst g1 = (gx_dst g)\<lparr>h_next := ?f + 1, h_tables := h_tables (gx_dst g),
       h_meta := h_meta (gx_dst g), h_functions := (h_functions (gx_dst g))(?f \<mapsto> fn1)\<rparr>" "gx_modules g1 = gx_modules g"
    using nf by (auto simp: g1_def gxcopy_cache_store_def new_function_def Let_def)
  have old: "gid w < ?f" if "gx_copies g v = Some w" for v w using inv that unfolding copies_inv_def by blast
  have "gx_ignore g1 = gx_ignore g"
    using nf by (auto simp: g1_def gxcopy_cache_store_def new_function_def Let_def)
  then have inv1: "copies_inv g1"
    using inv old unfolding copies_inv_def g1(1,2,3)
    by (auto simp: less_SucI) (metis gid.simps(2) less_irrefl)+
  have "G_function f \<in> uncached g" using f None by (auto simp: uncached_def)
  then have c1: "card (uncached g1) < k" using uncached_store [OF pl _ g1(1,2) c] by simp
  obtain ws g2 where 2: "gxcopy_upvalues copy (fn_upvalues fn) g1 = Copied ws g2" "copies_inv g2" "grown {} g1 g2"
      "list_all2 (related g2) (fn_upvalues fn) ws"
    using gxcopy_upvalues_ok [OF ok _ c1 inv1] pl pf(1) g1(1,4) by metis
  note s2 = grown_same [OF 2(3)]
  define g3 where "g3 = (if fn_upvalues fn \<noteq> [] then set_upvalues ?f ws g2 else g1)"
  have nil: "ws = [] \<and> g2 = g1" if "fn_upvalues fn = []" using 2(1) that by simp
  have fn1: "fn1\<lparr>fn_upvalues := ws\<rparr> = fn\<lparr>fn_upvalues := ws\<rparr>" by (simp add: fn1_def)
  have "same_object ?f g1 g2" using 2(3) g1(3) by (simp add: grown_def)
  then have at2: "h_functions (gx_dst g2) ?f = Some fn1" using g1(3) by (simp add: same_object_def)
  have 3: "copies_inv g3" "grown {?f} g2 g3"
    using 2(2) nil by (auto simp: g3_def set_upvalues_def copies_inv_def grown_def same_object_def)
  note s3 = grown_same [OF 3(2)]
  have g13: "grown {?f} g1 g3" using grown_trans [OF grown_weaken [OF 2(3)] 3(2) 2(2)] g1(3) by simp
  have cp: "gx_copies g3 (G_function f) = Some (G_function ?f)"
    using map_le_Some [OF grown_same(3) [OF g13]] g1(2) by simp
  have "h_functions (gx_dst g3) ?f = Some (fn\<lparr>fn_upvalues := ws\<rparr>)"
  proof (cases "fn_upvalues fn = []")
    case True
    then have "fn1 = fn\<lparr>fn_upvalues := ws\<rparr>" using nil by (auto simp: fn1_def initial_upvalues_def)
    then show ?thesis using True at2 nil by (simp add: g3_def)
  next
    case False
    then show ?thesis using at2 fn1 by (simp add: g3_def set_upvalues_def)
  qed
  then have "function_alike g3 f ?f"
    using fn related_list_mono(1) [OF s3(1-3) 2(4)] s2(1) s3(1) g1(1) by (simp add: function_alike_def)
  then have al: "alike g3 (G_function f)" using cp by (simp add: alike_def)
  have "grown {} g g3"
    by (rule made_object [OF inv None g1(1,4,3) _ g1(2) _ g13 al]) simp_all
  moreover have "gxcopy_function env copy True f g = Copied (G_function ?f) g3"
  proof (cases "fn_cfunction fn")
    case None
    then have e: "fn\<lparr>fn_upvalues := initial_upvalues (gx_dst g) (length (fn_upvalues fn))\<rparr> = fn1" by (simp add: fn1_def)
    show ?thesis
      unfolding gxcopy_function_def not_a_package [OF inv nm]
      using \<open>gx_copies g (G_function f) = None\<close> None fn pf(3) 2(1)
      by (simp add: gxcopy_cache_load_def e nf Let_def g3_def g1_def [symmetric])
  next
    case (Some a)
    then have u: "fn_upvalues fn = []" "fn\<lparr>fn_upvalues := []\<rparr> = fn1" using pf(2) by (simp_all add: fn1_def)
    then show ?thesis
      unfolding gxcopy_function_def not_a_package [OF inv nm]
      using \<open>gx_copies g (G_function f) = None\<close> Some fn nf
      by (simp add: gxcopy_cache_load_def Let_def g3_def g1_def)
  qed
  moreover have "related g3 (G_function f) (G_function ?f)" using cp by (simp add: related_def)
  ultimately show ?thesis using 3(1) by blast
qed

lemma gxcopy_any_ok: "copies_ok env (gxcopy_any env n) n"
proof (induction n)
  case 0
  show ?case by (simp add: copies_ok_def)
next
  case (Suc n)
  show ?case
    unfolding copies_ok_def
  proof (intro allI impI)
    fix v g
    assume a: "copies_inv g" "plain_heap env (gx_modules g) (gx_src g)" "plain_val (gx_modules g) (gx_src g) v" "card (uncached g) < Suc n"
    show "\<exists>w g'. gxcopy_any env (Suc n) v g = Copied w g' \<and> copies_inv g' \<and> grown {} g g' \<and> related g' v w"
      using a gxcopy_table_ok [OF Suc a(2,4,1)] gxcopy_function_ok [OF Suc a(2,4,1)]
      by (cases v) (simp_all add: related_def)
  qed
qed

lemma copies_inv_start:
  assumes "h_globals dst < h_next dst" "luaS_gxcopy_start src dst loaded preload Sd ss = (True, ss')"
  shows "\<exists>g. ss_src ss' = Some g \<and> copies_inv g \<and> gx_copies g = Map.empty \<and> gx_src g = src \<and> gx_dst g = dst"
  using assms by (auto simp: luaS_gxcopy_start_def ss_error_def copies_inv_def split: if_splits)

section \<open>Properties\<close>


definition wit_src :: gheap where
  "wit_src = \<lparr>h_next = 4, h_globals = 1,
     h_tables = [1 \<mapsto> [], 2 \<mapsto> [(G_string ''self'', G_table 2), (G_integer 1, G_function 3)]], h_meta = [2 \<mapsto> 2],
     h_functions = [3 \<mapsto> \<lparr>fn_cfunction = None, fn_code = ''x'', fn_name = ''f'', fn_upvalues = [G_table 1, G_table 2]\<rparr>],
     h_userdata = Map.empty\<rparr>"

definition wit_env :: gx_env where
  "wit_env = \<lparr>gn_load = (\<lambda>_. True), gn_index = (\<lambda>_ _ _. G_nil), gn_require = (\<lambda>_ _. None), gn_call_src = (\<lambda>_ _ g. (None, g)),
     gn_call_dst = (\<lambda>_ _ g. (None, g)), gn_call_metatable = (\<lambda>_ _. None)\<rparr>"

definition wit_gx :: "shuso \<Rightarrow> gx" where
  "wit_gx S = \<lparr>gx_src = wit_src, gx_dst = \<lparr>h_next = 6, h_globals = 5, h_tables = [5 \<mapsto> []], h_meta = Map.empty,
     h_functions = Map.empty, h_userdata = Map.empty\<rparr>, gx_copies = Map.empty, gx_modules = [G_table 1 \<mapsto> ''_G''],
     gx_preloading = (\<lambda>_. False), gx_ignore = 0, gx_src_preload = Map.empty, gx_dst_preload = Map.empty,
     gx_dst_loaded = Map.empty, gx_S = S, gx_Sd = S\<rparr>"

lemma wit_plain: "plain_heap wit_env (gx_modules (wit_gx S)) (gx_src (wit_gx S))"
  by (auto simp: plain_heap_def wit_gx_def wit_src_def wit_env_def h_get_def h_raw_def split: if_splits)

lemma wit_uncached: "card (uncached (wit_gx S)) < 4"
proof -
  have "uncached (wit_gx S) = {G_table 1, G_table 2, G_function 3}"
    by (auto simp: uncached_def wit_gx_def wit_src_def dom_def split: if_splits)
  then show ?thesis by simp
qed


text \<open>
  A function of C is stored among the copies only once its upvalues are copied. One that is an upvalue of itself is
  copied for ever; one that a table in its upvalues has as an entry is copied twice, and the table has the other copy.
\<close>

lemma gxcopy_c_closure_diverges:
  assumes "h_functions (gx_src g) f = Some fn" "fn_cfunction fn = Some a" "fn_upvalues fn = [G_function f]"
    and "gx_copies g (G_function f) = None" "gx_modules g (G_function f) = None" "gx_ignore g = 0"
  shows "gxcopy_any env n (G_function f) g = Deep"
  using assms by (induction n)
    (simp_all add: gxcopy_function_def gxcopy_package_loaded_def gxcopy_cache_load_def)

lemma gxcopy_c_closure_twice:
  assumes "h_functions (gx_src g) f = Some fn" "fn_cfunction fn = Some a" "fn_upvalues fn = [G_table t]"
    and "h_tables (gx_src g) t = Some [(G_string s, G_function f)]" "h_meta (gx_src g) t = None" "t \<noteq> h_globals (gx_src g)"
    and "gx_copies g (G_function f) = None" "gx_copies g (G_table t) = None"
    and "gx_modules g (G_function f) = None" "gx_modules g (G_table t) = None" "gx_ignore g = 0"
  shows "\<exists>f1 f2 t' g'. gxcopy_any env 4 (G_function f) g = Copied (G_function f1) g' \<and> f1 \<noteq> f2 \<and>
    h_tables (gx_dst g') t' = Some [(G_string s, G_function f2)] \<and>
    (\<forall>i \<in> {f1, f2}. h_functions (gx_dst g') i = Some (fn\<lparr>fn_upvalues := [G_table t']\<rparr>))"
  using assms
  by (intro exI [of _ "h_next (gx_dst g) + 2"] exI [of _ "h_next (gx_dst g) + 1"] exI [of _ "h_next (gx_dst g)"])
    (simp add: numeral_eq_Suc gxcopy_function_def gxcopy_table_def gxcopy_metatable_def gxcopy_package_loaded_def
      gxcopy_cache_load_def gxcopy_cache_store_def new_table_def new_function_def rawset_def set_entry_def Let_def)

end
