(* ===== verification/Server.thy ===== *)
theory Server
  imports Config Shared_Slab
begin

text \<open>
  The server module (\<^verbatim>\<open>modules/server/server.c\<close>): the sockets the master opens for the manager, host data in shared
  memory, listeners and the events of an accepted connection; with the parts of \<^verbatim>\<open>sysutil.c\<close> it uses and
  \<^verbatim>\<open>shuso_setsockopt\<close>.
\<close>

section \<open>Facts of the system\<close>

text \<open>A socket address: of the Internet, with address and port, a path, or of a family that is not known.\<close>

datatype sockaddr =
    Sockaddr_in "32 word" "16 word"
  | Sockaddr_in6 "128 word" "16 word"
  | Sockaddr_un string
  | Sockaddr_other nat

fun shuso_sockaddr_len :: "sockaddr \<Rightarrow> nat" where
  "shuso_sockaddr_len (Sockaddr_in a p) = 16"
| "shuso_sockaddr_len (Sockaddr_in6 a p) = 28"
| "shuso_sockaddr_len (Sockaddr_un path) = 110"
| "shuso_sockaddr_len (Sockaddr_other f) = 0"

text \<open>The arguments are what \<^verbatim>\<open>sysconf\<close> says of processors that are online and of all.\<close>

definition shuso_system_cores_online :: "int \<Rightarrow> int \<Rightarrow> int" where
  "shuso_system_cores_online onln conf =
     (let cores = onln;
          cores = (if cores < 1 \<or> cores > 2 ^ 31 then conf else cores);
          cores = (if cores < 1 \<or> cores > 2 ^ 31 then 4 else cores)
      in c_int cores)"

text \<open>
  \<open>level1\<close> is what \<^verbatim>\<open>sysconf\<close> says, as a \<^verbatim>\<open>size_t\<close>, and \<open>file\<close> the number in the file of the kernel, if it can be
  opened.
\<close>

definition shuso_system_cacheline_size :: "64 word \<Rightarrow> 64 word option \<Rightarrow> 64 word" where
  "shuso_system_cacheline_size level1 file =
     (if level1 \<noteq> 0 then level1
      else let sz = (case file of None \<Rightarrow> 0 | Some n \<Rightarrow> n) in if sz = 0 then 64 else sz)"

text \<open>The loop that computes \<^verbatim>\<open>page_size_shift\<close>.\<close>

fun page_size_shift :: "nat \<Rightarrow> nat \<Rightarrow> nat" where
  "page_size_shift n shift = (if n div 2 = 0 then shift else page_size_shift (n div 2) (shift + 1))"

declare page_size_shift.simps [simp del]

record system_setup =
  ss_page_size :: nat
  ss_page_size_shift :: nat
  ss_cacheline_size :: "64 word"
  ss_initialized :: bool

definition shuso_system_initialize :: "nat \<Rightarrow> 64 word \<Rightarrow> 64 word option \<Rightarrow> system_setup \<Rightarrow> system_setup" where
  "shuso_system_initialize pagesize level1 file sys =
     (if ss_initialized sys then sys
      else \<lparr>ss_page_size = pagesize, ss_page_size_shift = page_size_shift pagesize 0,
            ss_cacheline_size = shuso_system_cacheline_size level1 file, ss_initialized = True\<rparr>)"

section \<open>Socket options\<close>

datatype sockopt_type =
    SHUSO_SYSTEM_SOCKOPT_MISSING
  | SHUSO_SYSTEM_SOCKOPT_VALUE_TYPE_INT
  | SHUSO_SYSTEM_SOCKOPT_VALUE_TYPE_FLAG
  | SHUSO_SYSTEM_SOCKOPT_VALUE_TYPE_LINGER
  | SHUSO_SYSTEM_SOCKOPT_VALUE_TYPE_TIMEVAL

record system_sockopt =
  so_str :: string
  so_level :: int
  so_name :: int
  so_value_type :: sockopt_type

text \<open>\<open>hdr\<close> are the macros that the system's headers define, with their values.\<close>

definition system_sockopt_entry :: "(string \<rightharpoonup> int) \<Rightarrow> string \<times> string \<times> sockopt_type \<Rightarrow> system_sockopt" where
  "system_sockopt_entry hdr e =
     (case e of (str, level, ty) \<Rightarrow>
        case (hdr level, hdr str) of
          (Some l, Some n) \<Rightarrow> \<lparr>so_str = str, so_level = l, so_name = n, so_value_type = ty\<rparr>
        | _ \<Rightarrow> \<lparr>so_str = str, so_level = 0, so_name = 0, so_value_type = SHUSO_SYSTEM_SOCKOPT_MISSING\<rparr>)"

definition socket_level_options :: "(string \<times> string \<times> sockopt_type) list" where
  "socket_level_options =
     [(''SO_BROADCAST'', ''SOL_SOCKET'', SHUSO_SYSTEM_SOCKOPT_VALUE_TYPE_FLAG),
      (''SO_DEBUG'', ''SOL_SOCKET'', SHUSO_SYSTEM_SOCKOPT_VALUE_TYPE_FLAG),
      (''SO_DONTROUTE'', ''SOL_SOCKET'', SHUSO_SYSTEM_SOCKOPT_VALUE_TYPE_FLAG),
      (''SO_ERROR'', ''SOL_SOCKET'', SHUSO_SYSTEM_SOCKOPT_VALUE_TYPE_INT),
      (''SO_KEEPALIVE'', ''SOL_SOCKET'', SHUSO_SYSTEM_SOCKOPT_VALUE_TYPE_FLAG),
      (''SO_LINGER'', ''SOL_SOCKET'', SHUSO_SYSTEM_SOCKOPT_VALUE_TYPE_LINGER),
      (''SO_OOBINLINE'', ''SOL_SOCKET'', SHUSO_SYSTEM_SOCKOPT_VALUE_TYPE_FLAG),
      (''SO_RCVBUF'', ''SOL_SOCKET'', SHUSO_SYSTEM_SOCKOPT_VALUE_TYPE_INT),
      (''SO_SNDBUF'', ''SOL_SOCKET'', SHUSO_SYSTEM_SOCKOPT_VALUE_TYPE_INT),
      (''SO_RCVLOWAT'', ''SOL_SOCKET'', SHUSO_SYSTEM_SOCKOPT_VALUE_TYPE_INT),
      (''SO_SNDLOWAT'', ''SOL_SOCKET'', SHUSO_SYSTEM_SOCKOPT_VALUE_TYPE_INT),
      (''SO_RCVTIMEO'', ''SOL_SOCKET'', SHUSO_SYSTEM_SOCKOPT_VALUE_TYPE_TIMEVAL),
      (''SO_SNDTIMEO'', ''SOL_SOCKET'', SHUSO_SYSTEM_SOCKOPT_VALUE_TYPE_TIMEVAL),
      (''SO_REUSEADDR'', ''SOL_SOCKET'', SHUSO_SYSTEM_SOCKOPT_VALUE_TYPE_FLAG),
      (''SO_REUSEPORT'', ''SOL_SOCKET'', SHUSO_SYSTEM_SOCKOPT_VALUE_TYPE_FLAG),
      (''SO_REUSEADDR'', ''SOL_SOCKET'', SHUSO_SYSTEM_SOCKOPT_VALUE_TYPE_FLAG),
      (''SO_TYPE'', ''SOL_SOCKET'', SHUSO_SYSTEM_SOCKOPT_VALUE_TYPE_INT),
      (''SO_USELOOPBACK'', ''SOL_SOCKET'', SHUSO_SYSTEM_SOCKOPT_VALUE_TYPE_FLAG)]"

definition protocol_level_options :: "(string \<times> string \<times> sockopt_type) list" where
  "protocol_level_options =
     [(''IP_TOS'', ''IPPROTO_IP'', SHUSO_SYSTEM_SOCKOPT_VALUE_TYPE_INT),
      (''IP_TTL'', ''IPPROTO_IP'', SHUSO_SYSTEM_SOCKOPT_VALUE_TYPE_INT),
      (''IPV6_DONTFRAG'', ''IPPROTO_IPV6'', SHUSO_SYSTEM_SOCKOPT_VALUE_TYPE_FLAG),
      (''IPV6_UNICAST_HOPS'', ''IPPROTO_IPV6'', SHUSO_SYSTEM_SOCKOPT_VALUE_TYPE_INT),
      (''IPV6_V6ONLY'', ''IPPROTO_IPV6'', SHUSO_SYSTEM_SOCKOPT_VALUE_TYPE_FLAG),
      (''TCP_MAXSEG'', ''IPPROTO_TCP'', SHUSO_SYSTEM_SOCKOPT_VALUE_TYPE_INT),
      (''TCP_NODELAY'', ''IPPROTO_TCP'', SHUSO_SYSTEM_SOCKOPT_VALUE_TYPE_FLAG),
      (''SCTP_AUTOCLOSE'', ''IPPROTO_SCTP'', SHUSO_SYSTEM_SOCKOPT_VALUE_TYPE_INT),
      (''SCTP_MAXBURST'', ''IPPROTO_SCTP'', SHUSO_SYSTEM_SOCKOPT_VALUE_TYPE_INT),
      (''SCTP_MAXSEG'', ''IPPROTO_SCTP'', SHUSO_SYSTEM_SOCKOPT_VALUE_TYPE_INT),
      (''SCTP_NODELAY'', ''IPPROTO_SCTP'', SHUSO_SYSTEM_SOCKOPT_VALUE_TYPE_FLAG)]"

definition shuso_system_sockopts :: "(string \<rightharpoonup> int) \<Rightarrow> system_sockopt list" where
  "shuso_system_sockopts hdr = map (system_sockopt_entry hdr) (socket_level_options @ protocol_level_options)"

text \<open>An option to set, and the member of its union that is handed to the kernel.\<close>

record sockopt =
  opt_level :: int
  opt_name :: int
  opt_integer :: int

datatype sockopt_member = Member_integer | Member_flag | Member_linger | Member_timeval

fun member_of_type :: "sockopt_type \<Rightarrow> sockopt_member option" where
  "member_of_type SHUSO_SYSTEM_SOCKOPT_MISSING = None"
| "member_of_type SHUSO_SYSTEM_SOCKOPT_VALUE_TYPE_INT = Some Member_integer"
| "member_of_type SHUSO_SYSTEM_SOCKOPT_VALUE_TYPE_FLAG = Some Member_flag"
| "member_of_type SHUSO_SYSTEM_SOCKOPT_VALUE_TYPE_LINGER = Some Member_linger"
| "member_of_type SHUSO_SYSTEM_SOCKOPT_VALUE_TYPE_TIMEVAL = Some Member_timeval"

text \<open>\<open>call\<close> gives the result of the system call and its \<^verbatim>\<open>errno\<close>.\<close>

definition shuso_setsockopt ::
  "(string \<rightharpoonup> int) \<Rightarrow> (int \<Rightarrow> sockopt \<Rightarrow> sockopt_member \<Rightarrow> int \<times> int) \<Rightarrow> int \<Rightarrow> sockopt \<Rightarrow> shuso \<Rightarrow> bool \<times> shuso"
where
  "shuso_setsockopt hdr call fd opt S =
     (case find (\<lambda>k. opt_level opt = so_level k \<and> opt_name opt = so_name k) (shuso_system_sockopts hdr) of
        None \<Rightarrow> shuso_set_error ''unknown socket option'' S
      | Some known \<Rightarrow>
          (case member_of_type (so_value_type known) of
             None \<Rightarrow> shuso_set_error (''failed to set socket option '' @ so_str known @ '': this system does not support it'') S
           | Some m \<Rightarrow>
               (let (rc, errno) = call fd opt m in
                if rc \<noteq> 0 then shuso_set_error_errno errno (''failed to set socket option '' @ so_str known) S
                else (True, S))))"

section \<open>Sockets opened by the master\<close>

text \<open>
  \<^verbatim>\<open>shuso_hostinfo_t\<close>, whose name and address are pointers, and the memory behind them.
\<close>

record hostinfo =
  hi_name :: addr
  hi_family :: nat
  hi_type :: nat
  hi_sockaddr :: addr

record fd_kernel =
  fk_socket :: int
  fk_setsockopt :: "int \<Rightarrow> sockopt \<Rightarrow> sockopt_member \<Rightarrow> int \<times> int"
  fk_bind :: "int \<Rightarrow> sockaddr \<Rightarrow> nat \<Rightarrow> int"

text \<open>\<^verbatim>\<open>SOL_SOCKET\<close> and \<^verbatim>\<open>SO_REUSEPORT\<close> are 1 and 15.  \<open>fds\<close> are the open descriptors; the result is the descriptor or nil
  with a message.\<close>

definition reuseport :: sockopt where
  "reuseport = \<lparr>opt_level = 1, opt_name = 15, opt_integer = 1\<rparr>"

definition luaS_handle_fd_request ::
  "(string \<rightharpoonup> int) \<Rightarrow> fd_kernel \<Rightarrow> (addr \<rightharpoonup> sockaddr) \<Rightarrow> hostinfo \<Rightarrow> int set \<times> shuso \<Rightarrow> ((int + string) \<times> int set \<times> shuso) run"
where
  "luaS_handle_fd_request hdr k addrs host w =
     (let (fds, S) = w in
      c_assert (procnum S = SHUTTLESOCK_MASTER)
        (let fd = fk_socket k in
         if fd = -1 then Done (Inr ''Failed to create listener socket'', fds, S)
         else
           (let fds = insert fd fds;
                (ok, S) = shuso_setsockopt hdr (fk_setsockopt k) fd reuseport S in
            if \<not> ok then Done (Inr ''Failed to set sockopts for listener socket'', fds - {fd}, S)
            else
              c_assert (hi_sockaddr host \<noteq> 0)
                (case addrs (hi_sockaddr host) of
                   None \<Rightarrow> Abort
                 | Some a \<Rightarrow>
                     if fk_bind k fd a (shuso_sockaddr_len a) = -1
                     then Done (Inr ''Failed to bind listener socket'', fds - {fd}, S)
                     else Done (Inl fd, fds, S)))))"

section \<open>Host data in shared memory\<close>

record host_memory =
  hm_shm :: shared_slab
  hm_hosts :: "addr \<rightharpoonup> hostinfo"
  hm_names :: "addr \<rightharpoonup> string"
  hm_sockaddrs :: "addr \<rightharpoonup> sockaddr"

definition sizeof_hostinfo :: nat where "sizeof_hostinfo = 24"

definition free_shared_host_data :: "addr \<Rightarrow> host_memory \<Rightarrow> host_memory run" where
  "free_shared_host_data h hm =
     (if h = 0 then Done hm
      else
        (case hm_hosts hm h of
           None \<Rightarrow> Abort
         | Some host \<Rightarrow>
             run_bind
               (if hi_sockaddr host \<noteq> 0 then
                  run_bind (shuso_shared_slab_free (hm_shm hm) (hi_sockaddr host))
                    (\<lambda>shm. Done (hm\<lparr>hm_shm := shm, hm_sockaddrs := (hm_sockaddrs hm)(hi_sockaddr host := None)\<rparr>))
                else Done hm)
               (\<lambda>hm. run_bind (shuso_shared_slab_free (hm_shm hm) h)
                  (\<lambda>shm. Done (hm\<lparr>hm_shm := shm, hm_hosts := (hm_hosts hm)(h := None)\<rparr>)))))"

text \<open>The result is the new host data, or 0 when the error is raised.\<close>

definition create_shared_host_fail :: "addr \<Rightarrow> host_memory \<Rightarrow> (addr \<times> host_memory) run" where
  "create_shared_host_fail h hm = run_bind (free_shared_host_data h hm) (\<lambda>hm. Done (0, hm))"

definition shared_sockaddr :: "addr \<Rightarrow> sockaddr \<Rightarrow> nat \<Rightarrow> host_memory \<Rightarrow> (addr \<times> host_memory) run" where
  "shared_sockaddr h sa len hm =
     run_bind (shuso_shared_slab_alloc (hm_shm hm) len)
       (\<lambda>(a, shm).
          let hm = hm\<lparr>hm_shm := shm, hm_hosts := (hm_hosts hm)(h := map_option (\<lambda>x. x\<lparr>hi_sockaddr := a\<rparr>) (hm_hosts hm h))\<rparr>
          in if a = 0 then create_shared_host_fail h hm
             else Done (h, hm\<lparr>hm_sockaddrs := (hm_sockaddrs hm)(a \<mapsto> sa)\<rparr>))"

definition luaS_create_shared_host_data :: "hostinfo \<Rightarrow> host_memory \<Rightarrow> (addr \<times> host_memory) run" where
  "luaS_create_shared_host_data host hm =
     run_bind (shuso_shared_slab_alloc (hm_shm hm) sizeof_hostinfo)
       (\<lambda>(h, shm).
          let hm = hm\<lparr>hm_shm := shm\<rparr> in
          if h = 0 then create_shared_host_fail 0 hm
          else
            (let hm = hm\<lparr>hm_hosts := (hm_hosts hm)(h \<mapsto> host)\<rparr>;
                 recreate = (\<lambda>hm.
                   c_assert (hi_sockaddr host \<noteq> 0)
                     (case hm_sockaddrs hm (hi_sockaddr host) of
                        None \<Rightarrow> Abort
                      | Some sa \<Rightarrow>
                          (case sa of Sockaddr_other f \<Rightarrow> Done (h, hm) | _ \<Rightarrow> shared_sockaddr h sa (shuso_sockaddr_len sa) hm)))
             in if hi_name host = 0 then recreate hm
                else
                  (case hm_names hm (hi_name host) of
                     None \<Rightarrow> Abort
                   | Some s \<Rightarrow>
                       run_bind (shuso_shared_slab_alloc (hm_shm hm) (length s + 1))
                         (\<lambda>(n, shm).
                            let hm = hm\<lparr>hm_shm := shm, hm_hosts := (hm_hosts hm)(h \<mapsto> host\<lparr>hi_name := n\<rparr>)\<rparr>
                            in if n = 0 then create_shared_host_fail h hm
                               else recreate (hm\<lparr>hm_names := (hm_names hm)(n \<mapsto> s)\<rparr>)))))"

section \<open>What these functions guarantee\<close>

lemma page_size_shift_spec:
  "0 < n \<Longrightarrow> 2 ^ (page_size_shift n s - s) \<le> n \<and> n < 2 ^ (page_size_shift n s - s + 1) \<and> s \<le> page_size_shift n s"
proof (induction n s rule: page_size_shift.induct)
  case (1 n s)
  show ?case
  proof (cases "n div 2 = 0")
    case True
    then show ?thesis using 1(2) by (subst (1 2 3) page_size_shift.simps) auto
  next
    case False
    let ?t = "page_size_shift (n div 2) (s + 1)"
    have ih: "2 ^ (?t - (s + 1)) \<le> n div 2" "n div 2 < 2 ^ (?t - (s + 1) + 1)" "s + 1 \<le> ?t" using 1(1) False by auto
    have e: "?t - s = Suc (?t - (s + 1))" using ih(3) by simp
    have ps: "page_size_shift n s = ?t" using False by (subst page_size_shift.simps) simp
    have "2 ^ (?t - s) = 2 * (2 ^ (?t - (s + 1)) :: nat)" unfolding e by simp
    then show ?thesis using ih unfolding ps by simp linarith
  qed
qed

text \<open>The number of processors is positive, but for one value that does not fit an \<^verbatim>\<open>int\<close>.\<close>

lemma cores_online_range:
  assumes "onln \<noteq> 2 ^ 31" "conf \<noteq> 2 ^ 31"
  shows "0 < shuso_system_cores_online onln conf \<and> shuso_system_cores_online onln conf < 2 ^ 31"
proof -
  have "c_int c = c" if "0 < c" "c < 2 ^ 31" for c :: int using that by (simp add: c_int_def signed_of_int signed_take_bit_int_eq_self)
  then show ?thesis using assms by (auto simp: shuso_system_cores_online_def Let_def)
qed

lemma cores_online_overflow: "shuso_system_cores_online (2 ^ 31) conf = - (2 ^ 31)"
  by (simp add: shuso_system_cores_online_def c_int_def)

text \<open>An option that the headers lack is found under level and name 0, and is never handed to the kernel.\<close>

lemma shuso_setsockopt_calls:
  assumes "fst (shuso_setsockopt hdr call fd opt S)"
  shows "\<exists>k m. k \<in> set (shuso_system_sockopts hdr) \<and> so_level k = opt_level opt \<and> so_name k = opt_name opt \<and>
    member_of_type (so_value_type k) = Some m \<and> fst (call fd opt m) = 0"
proof -
  obtain k where k: "find (\<lambda>k. opt_level opt = so_level k \<and> opt_name opt = so_name k) (shuso_system_sockopts hdr) = Some k"
    using assms by (auto simp: shuso_setsockopt_def shuso_set_error_def split: option.splits)
  moreover obtain m where "member_of_type (so_value_type k) = Some m" "fst (call fd opt m) = 0"
    using assms k by (auto simp: shuso_setsockopt_def shuso_set_error_def shuso_set_error_errno_def split: option.splits prod.splits if_splits)
  moreover have "k \<in> set (shuso_system_sockopts hdr)" "so_level k = opt_level opt \<and> so_name k = opt_name opt"
    using k by (auto simp: find_Some_iff)
  ultimately show ?thesis by blast
qed

text \<open>A request for a listening socket leaves a new descriptor open exactly if it returns it: on every failure after
  the socket was made, of setting its options or of binding it, the descriptor is closed again.\<close>

theorem fd_request_descriptors:
  assumes "luaS_handle_fd_request hdr k addrs host (fds, S) = Done (r, fds', S')" "fk_socket k \<notin> fds"
  shows "case r of
      Inl fd \<Rightarrow> fd = fk_socket k \<and> fd \<noteq> -1 \<and> fds' = insert fd fds \<and> fst (shuso_setsockopt hdr (fk_setsockopt k) fd reuseport S) \<and>
        (\<exists>a. addrs (hi_sockaddr host) = Some a \<and> fk_bind k fd a (shuso_sockaddr_len a) \<noteq> -1)
    | Inr msg \<Rightarrow> fds' = fds"
  using assms by (auto simp: luaS_handle_fd_request_def Let_def c_assert_Done_iff split: prod.splits if_splits option.splits)

lemma alloc_cases:
  assumes "shm_owned shm B"
  obtains (full) shm' where "shuso_shared_slab_alloc shm sz = Done (0, shm')" "shm_owned shm' B"
    | (block) a shm' where "shuso_shared_slab_alloc shm sz = Done (a, shm')" "a \<noteq> 0" "a \<notin> fst ` B" "shm_owned shm' (insert (a, sz) B)"
  using shm_owned_alloc [OF assms, of sz] by (elim exE conjE disjE) metis+

lemma shared_sockaddr_spec:
  assumes own: "shm_owned (hm_shm hm) (insert (h, sizeof_hostinfo) B)" and h: "h \<noteq> 0" "h \<notin> fst ` B" "hm_hosts hm h = Some x"
  shows "\<exists>r hm'. shared_sockaddr h sa len hm = Done (r, hm') \<and> hm_names hm' = hm_names hm \<and>
    (r = 0 \<and> shm_owned (hm_shm hm') B \<or>
     r = h \<and> (\<exists>a. a \<noteq> 0 \<and> a \<noteq> h \<and> a \<notin> fst ` B \<and> hm_hosts hm' h = Some (x\<lparr>hi_sockaddr := a\<rparr>) \<and> hm_sockaddrs hm' a = Some sa \<and>
       shm_owned (hm_shm hm') (insert (a, len) (insert (h, sizeof_hostinfo) B))))"
  using own
proof (cases rule: alloc_cases [where sz = len])
  case (full shm')
  obtain shm2 where f: "shuso_shared_slab_free shm' h = Done shm2" "shm_owned shm2 (insert (h, sizeof_hostinfo) B - {(h, sizeof_hostinfo)})"
    using shm_owned_free [OF full(2), of h sizeof_hostinfo] by auto
  have "insert (h, sizeof_hostinfo) B - {(h, sizeof_hostinfo)} = B" using h(2) by force
  then show ?thesis
    using full(1) f h by (simp add: shared_sockaddr_def create_shared_host_fail_def free_shared_host_data_def)
next
  case (block a shm')
  then show ?thesis using h by (auto simp: shared_sockaddr_def)
qed

lemma recreate_known:
  "(case sa of Sockaddr_other f \<Rightarrow> x | _ \<Rightarrow> y) = (if \<exists>f. sa = Sockaddr_other f then x else y)"
  by (cases sa) auto

lemma shm_alloc_start:
  assumes "shm_owned shm B" "shuso_shared_slab_alloc shm sz = Done (a, shm')"
  shows "sl_start (shm_pool shm') = sl_start (shm_pool shm)"
proof -
  obtain L where L: "slab_inv (shm_pool shm) L" and lk: "\<not> shm_locked shm" using assms(1) by (auto simp: shm_owned_def client_inv_def)
  obtain q where "ngx_slab_alloc_locked (shm_pool shm) sz = Done (a, q)" "shm_pool shm' = q"
    using assms(2) lk by (auto simp: shuso_shared_slab_alloc_def shuso_shared_slab_lock_def shuso_shared_slab_alloc_locked_def
      shuso_shared_slab_unlock_def run_bind_Done_iff)
  then show ?thesis using ngx_slab_alloc_locked_ok [OF L, of sz] by (auto simp: allocates_def)
qed

lemma shm_free_outside: "a < sl_start (shm_pool shm) \<Longrightarrow> shuso_shared_slab_free shm a = Abort"
  by (simp add: shuso_shared_slab_free_def shuso_shared_slab_lock_def shuso_shared_slab_free_locked_def
    ngx_slab_free_locked_def ngx_slab_error_def)

text \<open>Without memory for the name, the address of the host itself is given to the shared memory, which aborts.\<close>

lemma shared_host_name_fail:
  assumes own: "shm_owned (hm_shm hm) B" and name: "hi_name host \<noteq> 0" "hm_names hm (hi_name host) = Some s"
    and sa: "hi_sockaddr host \<noteq> 0" "hi_sockaddr host < sl_start (shm_pool (hm_shm hm))"
    and al: "shuso_shared_slab_alloc (hm_shm hm) sizeof_hostinfo = Done (h, shm1)" "h \<noteq> 0"
      "shuso_shared_slab_alloc shm1 (length s + 1) = Done (0, shm2)"
  shows "luaS_create_shared_host_data host hm = Abort"
proof -
  have "shm_owned shm1 (insert (h, sizeof_hostinfo) B)" using shm_owned_alloc [OF own, of sizeof_hostinfo] al(1,2) by auto
  then have "sl_start (shm_pool shm2) = sl_start (shm_pool (hm_shm hm))" using shm_alloc_start own al(1,3) by metis
  then have "shuso_shared_slab_free shm2 (hi_sockaddr host) = Abort" using sa(2) by (intro shm_free_outside) simp
  then show ?thesis
    using al name sa by (simp add: luaS_create_shared_host_data_def create_shared_host_fail_def free_shared_host_data_def Let_def)
qed

text \<open>C33: Host data made in shared memory are the host's, with a name and an address of their own. Freeing them gives back
  the address and the host data but not the name: its block stays held. Without memory for the host data or the address
  nothing is returned, and the name stays held in the second case as well; without memory for the name the program aborts.\<close>

theorem shared_host_name_leaks:
  assumes own: "shm_owned (hm_shm hm) B" and name: "hi_name host \<noteq> 0" "hm_names hm (hi_name host) = Some s"
    and sa: "hi_sockaddr host \<noteq> 0" "hi_sockaddr host < sl_start (shm_pool (hm_shm hm))" "hm_sockaddrs hm (hi_sockaddr host) = Some sa" "\<nexists>f. sa = Sockaddr_other f"
  shows "(\<exists>h shm1 shm2. shuso_shared_slab_alloc (hm_shm hm) sizeof_hostinfo = Done (h, shm1) \<and> h \<noteq> 0 \<and>
      shuso_shared_slab_alloc shm1 (length s + 1) = Done (0, shm2) \<and> luaS_create_shared_host_data host hm = Abort) \<or>
    (\<exists>hm'. luaS_create_shared_host_data host hm = Done (0, hm') \<and>
      (shm_owned (hm_shm hm') B \<or> (\<exists>n. shm_owned (hm_shm hm') (insert (n, length s + 1) B)))) \<or>
    (\<exists>h hm' n a hm''. luaS_create_shared_host_data host hm = Done (h, hm') \<and> h \<noteq> 0 \<and>
      hm_hosts hm' h = Some (host\<lparr>hi_name := n, hi_sockaddr := a\<rparr>) \<and>
      hm_names hm' n = Some s \<and> hm_sockaddrs hm' a = Some sa \<and>
      shm_owned (hm_shm hm') ({(h, sizeof_hostinfo), (n, length s + 1), (a, shuso_sockaddr_len sa)} \<union> B) \<and>
      free_shared_host_data h hm' = Done hm'' \<and> shm_owned (hm_shm hm'') (insert (n, length s + 1) B))"
  using own
proof (cases rule: alloc_cases [where sz = sizeof_hostinfo])
  case (full shm1)
  then show ?thesis
    by (auto simp: luaS_create_shared_host_data_def create_shared_host_fail_def free_shared_host_data_def Let_def)
next
  case (block h1 shm1)
  note b1 = block
  define hm1 where "hm1 = hm\<lparr>hm_shm := shm1, hm_hosts := (hm_hosts hm)(h1 \<mapsto> host)\<rparr>"
  have own1: "shm_owned (hm_shm hm1) (insert (h1, sizeof_hostinfo) B)" using b1(4) by (simp add: hm1_def)
  show ?thesis
    using own1
  proof (cases rule: alloc_cases [where sz = "length s + 1"])
    case (full shm2)
    then have "luaS_create_shared_host_data host hm = Abort"
      using shared_host_name_fail [OF own name sa(1,2) b1(1,2)] by (simp add: hm1_def)
    then show ?thesis using b1(1,2) full(1) by (auto simp: hm1_def)
  next
    case (block n shm2)
    note b2 = block
    define hm2 where "hm2 = hm1\<lparr>hm_shm := shm2, hm_hosts := (hm_hosts hm1)(h1 \<mapsto> host\<lparr>hi_name := n\<rparr>),
      hm_names := (hm_names hm1)(n \<mapsto> s)\<rparr>"
    let ?B = "insert (n, length s + 1) B"
    have n: "n \<noteq> h1" using b2(3) by auto
    have own2: "shm_owned (hm_shm hm2) (insert (h1, sizeof_hostinfo) ?B)" using b2(4) by (simp add: hm2_def insert_commute)
    have e: "luaS_create_shared_host_data host hm = shared_sockaddr h1 sa (shuso_sockaddr_len sa) hm2"
      using b1(1,2) b2(1,2) name sa by (simp add: luaS_create_shared_host_data_def hm1_def hm2_def Let_def recreate_known)
    have h1B: "h1 \<notin> fst ` ?B" using n b1(3) by auto
    have at: "hm_hosts hm2 h1 = Some (host\<lparr>hi_name := n\<rparr>)" by (simp add: hm2_def)
    obtain r hm3 where s: "shared_sockaddr h1 sa (shuso_sockaddr_len sa) hm2 = Done (r, hm3)" "hm_names hm3 = hm_names hm2"
      "r = 0 \<and> shm_owned (hm_shm hm3) ?B \<or>
       r = h1 \<and> (\<exists>a. a \<noteq> 0 \<and> a \<noteq> h1 \<and> a \<notin> fst ` ?B \<and> hm_hosts hm3 h1 = Some (host\<lparr>hi_name := n, hi_sockaddr := a\<rparr>) \<and>
         hm_sockaddrs hm3 a = Some sa \<and> shm_owned (hm_shm hm3) (insert (a, shuso_sockaddr_len sa) (insert (h1, sizeof_hostinfo) ?B)))"
      using shared_sockaddr_spec [OF own2 b1(2) h1B at, of sa "shuso_sockaddr_len sa"] by metis
    have rh: "luaS_create_shared_host_data host hm = Done (r, hm3)" using e s(1) by simp
    from s(3) show ?thesis
    proof (elim disjE conjE exE)
      assume "r = 0" "shm_owned (hm_shm hm3) ?B"
      then show ?thesis using rh by blast
    next
      fix a assume r: "r = h1" and a: "a \<noteq> 0" "a \<noteq> h1" "a \<notin> fst ` ?B" and hs: "hm_hosts hm3 h1 = Some (host\<lparr>hi_name := n, hi_sockaddr := a\<rparr>)"
        and as: "hm_sockaddrs hm3 a = Some sa"
        and o3: "shm_owned (hm_shm hm3) (insert (a, shuso_sockaddr_len sa) (insert (h1, sizeof_hostinfo) ?B))"
      let ?C = "insert (h1, sizeof_hostinfo) ?B"
      have "insert (a, shuso_sockaddr_len sa) ?C - {(a, shuso_sockaddr_len sa)} = ?C" using a(2,3) by force
      then obtain shm4 where f1: "shuso_shared_slab_free (hm_shm hm3) a = Done shm4" "shm_owned shm4 ?C"
        using shm_owned_free [OF o3, of a "shuso_sockaddr_len sa"] by auto
      have "?C - {(h1, sizeof_hostinfo)} = ?B" using h1B by force
      then obtain shm5 where f2: "shuso_shared_slab_free shm4 h1 = Done shm5" "shm_owned shm5 ?B"
        using shm_owned_free [OF f1(2), of h1 sizeof_hostinfo] by auto
      have "free_shared_host_data h1 hm3 = Done (hm3\<lparr>hm_shm := shm5, hm_sockaddrs := (hm_sockaddrs hm3)(a := None),
          hm_hosts := (hm_hosts hm3)(h1 := None)\<rparr>)"
        using b1(2) hs a(1) f1(1) f2(1) by (simp add: free_shared_host_data_def)
      moreover have "shm_owned (hm_shm hm3) ({(h1, sizeof_hostinfo), (n, length s + 1), (a, shuso_sockaddr_len sa)} \<union> B)"
        using o3 by (simp add: insert_commute)
      moreover have "hm_names hm3 n = Some s" using s(2) by (simp add: hm2_def)
      moreover have "luaS_create_shared_host_data host hm = Done (h1, hm3)" using rh r by simp
      moreover have "shm_owned (hm_shm (hm3\<lparr>hm_shm := shm5, hm_sockaddrs := (hm_sockaddrs hm3)(a := None),
          hm_hosts := (hm_hosts hm3)(h1 := None)\<rparr>)) ?B" using f2(2) by simp
      ultimately show ?thesis using b1(2) hs as by blast
    qed
  qed
qed

definition example_host_memory :: host_memory where
  "example_host_memory = \<lparr>hm_shm = \<lparr>shm_name = ''shm'', shm_ptr = 4096, shm_size = 65536, shm_pool = ngx_slab_init 4096 69632 3,
     shm_locked = False, shm_mem = (\<lambda>_. 0)\<rparr>, hm_hosts = Map.empty, hm_names = [8 \<mapsto> ''localhost:80''],
     hm_sockaddrs = [16 \<mapsto> Sockaddr_in 2130706433 80]\<rparr>"

definition example_host :: hostinfo where
  "example_host = \<lparr>hi_name = 8, hi_family = 2, hi_type = 1, hi_sockaddr = 16\<rparr>"

theorem shared_host_name_leaks_witness:
  "(\<exists>h shm1 shm2. shuso_shared_slab_alloc (hm_shm example_host_memory) sizeof_hostinfo = Done (h, shm1) \<and> h \<noteq> 0 \<and>
      shuso_shared_slab_alloc shm1 (length ''localhost:80'' + 1) = Done (0, shm2) \<and>
      luaS_create_shared_host_data example_host example_host_memory = Abort) \<or>
   (\<exists>hm'. luaS_create_shared_host_data example_host example_host_memory = Done (0, hm') \<and>
      (shm_owned (hm_shm hm') {} \<or> (\<exists>n. shm_owned (hm_shm hm') {(n, length ''localhost:80'' + 1)}))) \<or>
   (\<exists>h hm' n hm''. luaS_create_shared_host_data example_host example_host_memory = Done (h, hm') \<and> h \<noteq> 0 \<and>
      free_shared_host_data h hm' = Done hm'' \<and> shm_owned (hm_shm hm'') {(n, length ''localhost:80'' + 1)})"
proof -
  have own: "shm_owned (hm_shm example_host_memory) {}"
    using client_inv_init [OF example_room] by (simp add: shm_owned_def example_host_memory_def)
  have st: "0 < sl_start (shm_pool (hm_shm example_host_memory))" "4096 dvd sl_start (shm_pool (hm_shm example_host_memory))"
    using ngx_slab_init_pages(3,4) [OF example_room] by (simp_all add: example_host_memory_def)
  have "4096 \<le> sl_start (shm_pool (hm_shm example_host_memory))" using st(1) dvd_imp_le [OF st(2)] by simp
  then have sa: "hi_sockaddr example_host < sl_start (shm_pool (hm_shm example_host_memory))" by (simp add: example_host_def)
  have "hi_name example_host \<noteq> 0" "hm_names example_host_memory (hi_name example_host) = Some ''localhost:80''"
    "hi_sockaddr example_host \<noteq> 0" "hm_sockaddrs example_host_memory (hi_sockaddr example_host) = Some (Sockaddr_in 2130706433 80)"
    "\<nexists>f. Sockaddr_in 2130706433 80 = Sockaddr_other f"
    by (simp_all add: example_host_def example_host_memory_def)
  from shared_host_name_leaks [OF own this(1,2,3) sa this(4,5)] show ?thesis by blast
qed

definition example_headers :: "string \<rightharpoonup> int" where
  "example_headers = [''SOL_SOCKET'' \<mapsto> 1, ''SO_BROADCAST'' \<mapsto> 6, ''SO_REUSEPORT'' \<mapsto> 15, ''IPPROTO_IP'' \<mapsto> 0]"

text \<open>A socket that cannot be bound.\<close>

theorem fd_request_descriptors_witness:
  "\<exists>S' msg. luaS_handle_fd_request example_headers \<lparr>fk_socket = 9, fk_setsockopt = (\<lambda>_ _ _. (0, 0)), fk_bind = (\<lambda>_ _ _. -1)\<rparr>
      [16 \<mapsto> Sockaddr_in 2130706433 80] \<lparr>hi_name = 0, hi_family = 2, hi_type = 1, hi_sockaddr = 16\<rparr>
      ({0, 1, 2}, example_shuso SHUTTLESOCK_MASTER) = Done (Inr msg, {0, 1, 2}, S')"
proof -
  let ?k = "\<lparr>fk_socket = 9, fk_setsockopt = (\<lambda>_ _ _. (0, 0)), fk_bind = (\<lambda>_ _ _. -1)\<rparr>"
  let ?r = "luaS_handle_fd_request example_headers ?k [16 \<mapsto> Sockaddr_in 2130706433 80]
    \<lparr>hi_name = 0, hi_family = 2, hi_type = 1, hi_sockaddr = 16\<rparr> ({0, 1, 2}, example_shuso SHUTTLESOCK_MASTER)"
  have "find (\<lambda>k. opt_level reuseport = so_level k \<and> opt_name reuseport = so_name k) (shuso_system_sockopts example_headers) =
      Some \<lparr>so_str = ''SO_REUSEPORT'', so_level = 1, so_name = 15, so_value_type = SHUSO_SYSTEM_SOCKOPT_VALUE_TYPE_FLAG\<rparr>"
    by (simp add: shuso_system_sockopts_def socket_level_options_def system_sockopt_entry_def example_headers_def reuseport_def)
  then have opt: "shuso_setsockopt example_headers (fk_setsockopt ?k) 9 reuseport S = (True, S)" for S
    by (simp add: shuso_setsockopt_def)
  then obtain fds' S' where r: "?r = Done (Inr ''Failed to bind listener socket'', fds', S')"
    by (simp add: luaS_handle_fd_request_def example_shuso_def)
  have "fds' = {0, 1, 2}" using fd_request_descriptors [OF r] by simp
  then show ?thesis using r by blast
qed

end
