(* ===== verification/Listener.thy ===== *)
theory Listener
  imports Server IO
begin

text \<open>
  The listener of a worker (\<^verbatim>\<open>listener_accept_coro\<close> in \<^verbatim>\<open>modules/server/server.c\<close>), a coroutine over the operations of
  theory \<open>IO\<close> that publishes every connection as an event of theory \<open>Event\<close>, and the listeners the server module has
  for these events.
\<close>

section \<open>State\<close>

text \<open>
  What the events of a connection carry: the descriptor and address family of the tentative accept, the descriptor of the
  socket of the accept; the open descriptors, and what else listeners change.
\<close>

record 'u server_world =
  sv_fd :: int
  sv_family :: nat
  sv_socket :: int
  sv_open :: "int set"
  sv_user :: 'u

text \<open>\<^verbatim>\<open>shuso_listener_io_data_t\<close>: the I/O, and the surroundings of the events.\<close>

record 'u listener =
  li_io :: io
  li_world :: "'u server_world event_world"

text \<open>
  The events by address, those of this binding, the address family of the binding and of the peers, and the result of
  \<^verbatim>\<open>listen\<close>.
\<close>

record 'u listener_env =
  ln_events :: "addr \<rightharpoonup> 'u server_world event"
  ln_maybe_accept :: addr
  ln_accept :: addr
  ln_family :: nat
  ln_peer_family :: nat
  ln_listen :: int

definition SHUSO_OK :: int where "SHUSO_OK = 1"

section \<open>The events of a connection\<close>

text \<open>The last listener of the tentative accept.\<close>

definition maybe_accept_event_confirm_accept ::
  "(addr \<rightharpoonup> 'u server_world event) \<Rightarrow> addr \<Rightarrow> nat \<Rightarrow> int \<Rightarrow> addr \<Rightarrow> 'u server_world cev \<Rightarrow> 'u server_world cev run"
where
  "maybe_accept_event_confirm_accept evs accept_event family code data c =
     (let w = cev_world c; u = user w in
      c_assert (sv_family u = family)
        (run_bind (shuso_event_publish evs accept_event SHUSO_OK 0 (w\<lparr>user := u\<lparr>sv_socket := sv_fd u\<rparr>\<rparr>))
          (\<lambda>(_, w). Done (c\<lparr>cev_world := w\<rparr>))))"

text \<open>The listener that \<^verbatim>\<open>luaS_accept_event_init\<close> adds to an accept event, as the last one.\<close>

definition no_accept_handler_found :: "int \<Rightarrow> addr \<Rightarrow> 'u server_world \<Rightarrow> 'u server_world" where
  "no_accept_handler_found code data u = u\<lparr>sv_open := sv_open u - {sv_socket u}\<rparr>"

section \<open>The coroutine\<close>

text \<open>Its stages, which the code numbers by lines: not started, before the accept and after it.\<close>

definition stage_wait :: nat where "stage_wait = 1"

definition stage_accept :: nat where "stage_accept = 2"

definition listener_wait :: "io \<Rightarrow> io" where
  "listener_wait io = shuso_io_wait True False (io\<lparr>io_handler_stage := stage_wait\<rparr>)"

text \<open>
  After the accept: the tentative accept is published, with the descriptor that \<^verbatim>\<open>result\<close> holds, and the loop waits
  again; its condition, on a variable that is 0 whenever the coroutine is entered anew, holds.
\<close>

definition listener_accepted :: "'u listener_env \<Rightarrow> 'u listener \<Rightarrow> 'u listener run" where
  "listener_accepted env L =
     (let fd = io_result (li_io L); w = li_world L; u = user w;
          u = u\<lparr>sv_fd := fd, sv_family := ln_peer_family env, sv_open := (if fd < 0 then sv_open u else insert fd (sv_open u))\<rparr>
      in run_bind (shuso_event_publish (ln_events env) (ln_maybe_accept env) SHUSO_OK 0 (w\<lparr>user := u\<rparr>))
           (\<lambda>(_, w). Done (L\<lparr>li_io := listener_wait (li_io L), li_world := w\<rparr>)))"

text \<open>
  The operations of theory \<open>IO\<close> record the calls of the handler. The handler runs on the state they leave: what they do
  after the call, an update of the watcher, it does itself at its end.
\<close>

definition new_call :: "io \<Rightarrow> io \<Rightarrow> bool option" where
  "new_call before after = (case drop (length (handler_calls before)) (handler_calls after) of [] \<Rightarrow> None | x # _ \<Rightarrow> Some (fst x))"

definition listener_accept :: "'u listener_env \<Rightarrow> 'u listener \<Rightarrow> 'u listener run option" where
  "listener_accept env L =
     (case shuso_io_accept sizeof_sockaddr ((li_io L)\<lparr>io_handler_stage := stage_accept\<rparr>) of
        None \<Rightarrow> None
      | Some Abort \<Rightarrow> Some Abort
      | Some (Done io) \<Rightarrow>
          Some (if new_call (li_io L) io = Some False then listener_accepted env (L\<lparr>li_io := io\<rparr>) else Done (L\<lparr>li_io := io\<rparr>)))"

definition listener_accept_coro :: "'u listener_env \<Rightarrow> 'u listener \<Rightarrow> 'u listener run option" where
  "listener_accept_coro env L =
     (let L = L\<lparr>li_io := (li_io L)\<lparr>io_has_error_handler := True\<rparr>\<rparr>; stage = io_handler_stage (li_io L) in
      if stage = 0 then Some (if ln_listen env < 0 then Abort else Done (L\<lparr>li_io := listener_wait (li_io L)\<rparr>))
      else if stage = stage_wait then listener_accept env L
      else if stage = stage_accept then Some (listener_accepted env L)
      else Some (Done L))"

text \<open>The handler runs if it was called; the error handler only logs.\<close>

definition listener_dispatch :: "'u listener_env \<Rightarrow> io \<Rightarrow> 'u listener \<Rightarrow> 'u listener run option" where
  "listener_dispatch env before L =
     (if new_call before (li_io L) = Some False then listener_accept_coro env L else Some (Done L))"

section \<open>What happens to a listener\<close>

text \<open>\<^verbatim>\<open>__shuso_io_init_socket\<close>: everything but the socket is zero.\<close>

definition shuso_io_init_socket :: "int \<Rightarrow> io \<Rightarrow> io" where
  "shuso_io_init_socket fd io =
     io\<lparr>io_fd := fd, io_has_sockaddr := False, io_buf := 0, io_len := 0, io_iov := [], io_iovcnt := 0, io_original := False,
        io_tmp := 0, io_result := 0, io_error := 0, io_has_error_handler := False, io_handler_stage := 0,
        io_closed_read := False, io_closed_write := False, io_opcode := SHUSO_IO_OP_NONE,
        io_watch_type := SHUSO_IO_WATCH_NONE, io_op_again := False, io_op_repeat_to_completion := False,
        io_watcher_active := False\<rparr>"

definition luaS_start_worker_io_listener_coroutine ::
  "'u listener_env \<Rightarrow> int \<Rightarrow> io \<Rightarrow> 'u server_world event_world \<Rightarrow> 'u listener run option"
where
  "luaS_start_worker_io_listener_coroutine env fd io w =
     (let before = shuso_io_init_socket fd io in
      listener_dispatch env before \<lparr>li_io = shuso_io_resume_buf 0 0 before, li_world = w\<rparr>)"

text \<open>The descriptor becomes readable.\<close>

definition listener_ready :: "'u listener_env \<Rightarrow> 'u listener \<Rightarrow> 'u listener run option" where
  "listener_ready env L =
     (case shuso_io_ev_watcher_handler (True, False) (li_io L) of
        None \<Rightarrow> None
      | Some Abort \<Rightarrow> Some Abort
      | Some (Done io) \<Rightarrow> listener_dispatch env (li_io L) (L\<lparr>li_io := io\<rparr>))"

text \<open>
  Stopping: \<^verbatim>\<open>shuso_io_stop\<close> calls the handler itself when the descriptor is watched, and not the error handler.
\<close>

definition luaS_stop_worker_io_listener_coroutine :: "'u listener_env \<Rightarrow> 'u listener \<Rightarrow> 'u listener run option" where
  "luaS_stop_worker_io_listener_coroutine env L =
     (let finish = (\<lambda>L. L\<lparr>li_io := shuso_io_abort (li_io L),
            li_world := (li_world L)\<lparr>user := (user (li_world L))\<lparr>sv_open := sv_open (user (li_world L)) - {io_fd (li_io L)}\<rparr>\<rparr>\<rparr>) in
      if io_watch_type (li_io L) = SHUSO_IO_WATCH_NONE then Some (Done (finish L))
      else
        (case listener_accept_coro env
            (L\<lparr>li_io := (li_io L)\<lparr>io_watch_type := SHUSO_IO_WATCH_NONE, io_result := - 1, io_error := ECANCELED\<rparr>\<rparr>) of
           None \<Rightarrow> None
         | Some Abort \<Rightarrow> Some Abort
         | Some (Done L) \<Rightarrow> Some (Done (finish L))))"

text \<open>The listener as long as the kernel has something to say.\<close>

fun listener_drive :: "nat \<Rightarrow> 'u listener_env \<Rightarrow> 'u listener \<Rightarrow> 'u listener run option" where
  "listener_drive 0 env L = Some (Done L)"
| "listener_drive (Suc n) env L =
     (if k_script (li_io L) = [] then Some (Done L)
      else
        (case listener_ready env L of
           None \<Rightarrow> None
         | Some Abort \<Rightarrow> Some Abort
         | Some (Done L) \<Rightarrow> listener_drive n env L))"

section \<open>Publishing a connection\<close>

text \<open>
  The events of a binding as the module sets them up: neither can be interrupted; modules listen with reactions, \<open>ms\<close> to
  the tentative accept, which keep the address family, and \<open>hs\<close> to the accept; the module's own listener comes last.
\<close>

definition server_events :: "'u listener_env \<Rightarrow> 'u server_world reaction list \<Rightarrow> 'u server_world reaction list \<Rightarrow> bool" where
  "server_events env ms hs \<longleftrightarrow>
     (\<exists>m evs. ln_events env (ln_maybe_accept env) = Some \<lparr>ev_listeners = map plain ms @
          [\<lparr>l_module = m, l_fn = maybe_accept_event_confirm_accept evs (ln_accept env) (ln_family env)\<rparr>],
          ev_interrupt_handler = None\<rparr> \<and>
        evs (ln_accept env) = Some \<lparr>ev_listeners = map plain hs, ev_interrupt_handler = None\<rparr> \<and>
        ln_events env (ln_accept env) = evs (ln_accept env)) \<and>
     ln_peer_family env = ln_family env \<and>
     (\<forall>g \<in> set ms. \<forall>code data u. sv_family (snd g code data u) = sv_family u)"

text \<open>What the listeners make of a connection.\<close>

definition connection :: "nat \<Rightarrow> 'u server_world reaction list \<Rightarrow> 'u server_world reaction list \<Rightarrow>
  int \<Rightarrow> 'u server_world \<Rightarrow> 'u server_world"
where
  "connection fam ms hs fd u =
     (let u = react SHUSO_OK 0 ms
                (u\<lparr>sv_fd := fd, sv_family := fam, sv_open := (if fd < 0 then sv_open u else insert fd (sv_open u))\<rparr>)
      in react SHUSO_OK 0 hs (u\<lparr>sv_socket := sv_fd u\<rparr>))"

lemma react_family:
  "\<forall>g \<in> set ms. \<forall>code data u. sv_family (snd g code data u) = sv_family u \<Longrightarrow>
   sv_family (react code data ms u) = sv_family u"
  by (induction ms arbitrary: u) simp_all

lemma publish_connection:
  assumes ev: "server_events env ms hs" and f: "sv_family u = ln_family env"
  shows "shuso_event_publish (ln_events env) (ln_maybe_accept env) SHUSO_OK 0 (w\<lparr>user := u\<rparr>) =
    Done (True, w\<lparr>user := (let u = react SHUSO_OK 0 ms u in react SHUSO_OK 0 hs (u\<lparr>sv_socket := sv_fd u\<rparr>))\<rparr>)"
proof -
  obtain m evs where 1: "ln_events env (ln_maybe_accept env) = Some \<lparr>ev_listeners = map plain ms @
      [\<lparr>l_module = m, l_fn = maybe_accept_event_confirm_accept evs (ln_accept env) (ln_family env)\<rparr>],
      ev_interrupt_handler = None\<rparr>"
    and 2: "evs (ln_accept env) = Some \<lparr>ev_listeners = map plain hs, ev_interrupt_handler = None\<rparr>"
    and 3: "\<forall>g \<in> set ms. \<forall>code data u. sv_family (snd g code data u) = sv_family u"
    using ev unfolding server_events_def by blast
  have fam: "sv_family (react SHUSO_OK 0 ms u) = ln_family env" using react_family [OF 3] f by simp
  have acc: "shuso_event_publish evs (ln_accept env) SHUSO_OK 0 w = Done (True, w\<lparr>user := react SHUSO_OK 0 hs (user w)\<rparr>)" for w
    unfolding shuso_event_publish_def by (rule fire_event_plain [where evs = evs and e = "ln_accept env" and ls = "[]", OF 2]) simp_all
  show ?thesis
    unfolding shuso_event_publish_def [of "ln_events env"] fire_event_def 1 option.case
    by (simp add: fire_loop_plain maybe_accept_event_confirm_accept_def Let_def fam acc)
qed

lemma listener_accepted_spec:
  assumes "server_events env ms hs"
  shows "listener_accepted env L = Done (L\<lparr>li_io := listener_wait (li_io L),
    li_world := (li_world L)\<lparr>user := connection (ln_family env) ms hs (io_result (li_io L)) (user (li_world L))\<rparr>\<rparr>)"
proof -
  have f: "ln_peer_family env = ln_family env" using assms by (simp add: server_events_def)
  show ?thesis
    unfolding listener_accepted_def Let_def f
    by (subst publish_connection [OF assms]) (simp_all add: connection_def Let_def)
qed

section \<open>The accept operation\<close>

text \<open>An accept about to be tried, and what its call makes of the answers of the kernel.\<close>

definition accepting :: "io \<Rightarrow> bool" where
  "accepting io \<longleftrightarrow> io_opcode io = SHUSO_IO_OP_ACCEPT \<and> io_has_sockaddr io \<and> io_result io = 0 \<and>
     io_watch_type io = SHUSO_IO_WATCH_NONE \<and> io_has_error_handler io"

abbreviation uninterrupted :: "sys_result list \<Rightarrow> sys_result list" where
  "uninterrupted \<equiv> dropWhile (\<lambda>r. r = Sys_err EINTR)"

lemma accept_syscall:
  "io_syscall SHUSO_IO_OP_ACCEPT rs io = (case uninterrupted rs of
     [] \<Rightarrow> None
   | Sys_ok n # rs \<Rightarrow> Some ((int n, 0), io\<lparr>k_script := rs\<rparr>)
   | Sys_err e # rs \<Rightarrow> Some ((- 1, e), io\<lparr>k_script := rs\<rparr>))"
proof (induction rs)
  case (Cons r rs)
  then show ?case by (cases r) (auto simp: transfer_def)
qed simp

lemma accept_operation:
  assumes "accepting io"
  shows "uninterrupted (k_script io) = Sys_ok n # rs \<Longrightarrow> shuso_io_ev_operation io = Some (Done (shuso_io_ev_watch_update
      (io\<lparr>k_script := rs, io_result := int n, handler_calls := handler_calls io @ [(False, int n, io_error io)]\<rparr>)))"
    and "uninterrupted (k_script io) = Sys_err EAGAIN # rs \<Longrightarrow> shuso_io_ev_operation io = Some (Done (shuso_io_ev_watch_update
      (io\<lparr>k_script := rs, io_watch_type := SHUSO_IO_WATCH_OP_RETRY\<rparr>)))"
    and "uninterrupted (k_script io) = Sys_err e # rs \<Longrightarrow> e \<noteq> EAGAIN \<Longrightarrow> shuso_io_ev_operation io = Some (Done
      (io\<lparr>k_script := rs, io_result := - 1, io_error := e, io_handler_stage := 0,
          handler_calls := handler_calls io @ [(True, - 1, e)]\<rparr>))"
  using assms
  by (auto simp: accepting_def shuso_io_ev_operation_def io_op_asserts_def accept_syscall io_op_outcome_def Let_def
    shuso_io_update_fd_closed_status_from_op_result_def shuso_io_op_update_and_check_completion_def io_finish_def
    shuso_io_op_cleanup_def shuso_io_run_handler_def)

section \<open>Rounds of a listener\<close>

text \<open>A listener that polls its descriptor, or whose accept is to be tried again.\<close>

definition polling :: "io \<Rightarrow> bool" where
  "polling io \<longleftrightarrow> io_has_error_handler io \<and> io_result io = 0 \<and> io_watcher_active io \<and>
     io_watch_type io = SHUSO_IO_WATCH_POLL_READ \<and> io_handler_stage io = stage_wait"

definition retrying :: "io \<Rightarrow> bool" where
  "retrying io \<longleftrightarrow> io_has_error_handler io \<and> io_result io = 0 \<and> io_watcher_active io \<and>
     io_watch_type io = SHUSO_IO_WATCH_OP_RETRY \<and> io_handler_stage io = stage_accept \<and>
     io_opcode io = SHUSO_IO_OP_ACCEPT \<and> io_has_sockaddr io"

definition listening :: "'u listener \<Rightarrow> bool" where
  "listening L \<longleftrightarrow> polling (li_io L) \<or> retrying (li_io L)"

text \<open>In both states a readable descriptor leads to the call of accept.\<close>

definition accept_of :: "io \<Rightarrow> io" where
  "accept_of io =
     (if polling io then
        io\<lparr>io_watch_type := SHUSO_IO_WATCH_NONE, io_watcher_active := False,
           handler_calls := handler_calls io @ [(False, 0, io_error io)], io_handler_stage := stage_accept,
           io_error := 0, io_op_again := False, io_opcode := SHUSO_IO_OP_ACCEPT, io_has_sockaddr := True,
           io_len := sizeof_sockaddr, io_op_repeat_to_completion := True\<rparr>
      else io\<lparr>io_watch_type := SHUSO_IO_WATCH_NONE\<rparr>)"

lemma accept_of_sel [simp]:
  "k_script (accept_of io) = k_script io" "io_fd (accept_of io) = io_fd io"
  by (simp_all add: accept_of_def)

lemma polling_accept_of: "polling io \<Longrightarrow> \<not> io_watcher_active (accept_of io)"
  by (simp add: accept_of_def)

lemma retrying_accept_of: "retrying io \<Longrightarrow> io_watcher_active (accept_of io)"
  by (auto simp: accept_of_def retrying_def polling_def)

lemma accepting_accept_of:
  assumes "listening L"
  shows "accepting (accept_of (li_io L))" "io_handler_stage (accept_of (li_io L)) = stage_accept"
  using assms by (auto simp: listening_def accepting_def accept_of_def polling_def retrying_def)

text \<open>What follows the call of accept.\<close>

definition after_accept :: "'u listener_env \<Rightarrow> 'u listener \<Rightarrow> io \<Rightarrow> 'u listener run" where
  "after_accept env L io =
     (if new_call (accept_of (li_io L)) io = Some False then listener_accepted env (L\<lparr>li_io := io\<lparr>io_has_error_handler := True\<rparr>\<rparr>)
      else Done (L\<lparr>li_io := io\<rparr>))"

lemma listener_ready_polling:
  assumes p: "polling (li_io L)" and op: "shuso_io_ev_operation (accept_of (li_io L)) = Some (Done io)"
    and eh: "io_has_error_handler io"
  shows "listener_ready env L = Some (after_accept env L io)"
proof -
  define io1 where "io1 = (li_io L)\<lparr>io_watch_type := SHUSO_IO_WATCH_NONE, io_watcher_active := False,
    handler_calls := handler_calls (li_io L) @ [(False, 0, io_error (li_io L))]\<rparr>"
  have pp: "io_has_error_handler (li_io L)" "io_result (li_io L) = 0" "io_watcher_active (li_io L)"
    "io_watch_type (li_io L) = SHUSO_IO_WATCH_POLL_READ" "io_handler_stage (li_io L) = stage_wait"
    using p by (simp_all add: polling_def)
  have w: "shuso_io_ev_watcher_handler (True, False) (li_io L) = Some (Done io1)"
    using pp by (simp add: shuso_io_ev_watcher_handler_def ev_watch_poll_match_event_type_def shuso_io_run_handler_def
      shuso_io_ev_watch_update_def io1_def)
  have n: "new_call (li_io L) io1 = Some False" by (simp add: new_call_def io1_def)
  have e: "io1\<lparr>io_has_error_handler := True\<rparr> = io1" using pp by (cases "li_io L") (simp add: io1_def)
  have "shuso_io_accept sizeof_sockaddr (io1\<lparr>io_handler_stage := stage_accept\<rparr>) = shuso_io_ev_operation (accept_of (li_io L))"
    using p pp by (cases "li_io L") (simp add: shuso_io_accept_def io_op_run_new_def Let_def accept_of_def io1_def)
  then have a: "shuso_io_accept sizeof_sockaddr (io1\<lparr>io_handler_stage := stage_accept\<rparr>) = Some (Done io)" using op by simp
  have c: "handler_calls (accept_of (li_io L)) = handler_calls io1" using p by (simp add: accept_of_def io1_def)
  have eio: "io\<lparr>io_has_error_handler := True\<rparr> = io" using eh by (cases io) simp
  have "listener_accept_coro env (L\<lparr>li_io := io1\<rparr>) = listener_accept env (L\<lparr>li_io := io1\<rparr>)"
    using pp by (simp add: listener_accept_coro_def e Let_def) (simp add: io1_def stage_wait_def)
  then show ?thesis
    using w n a c eio by (simp add: listener_ready_def listener_dispatch_def listener_accept_def after_accept_def new_call_def)
qed

lemma listener_ready_retrying:
  assumes p: "retrying (li_io L)" and op: "shuso_io_ev_operation (accept_of (li_io L)) = Some (Done io)"
    and st: "new_call (accept_of (li_io L)) io = Some False \<Longrightarrow> io_handler_stage io = stage_accept"
  shows "listener_ready env L = Some (after_accept env L io)"
proof -
  have np: "\<not> polling (li_io L)" using p by (simp add: polling_def retrying_def)
  have w: "shuso_io_ev_watcher_handler (True, False) (li_io L) = Some (Done io)"
    using p np op by (simp add: shuso_io_ev_watcher_handler_def ev_opcode_retry_match_event_type_def retrying_def accept_of_def)
  have c: "new_call (li_io L) io = new_call (accept_of (li_io L)) io" using np by (simp add: new_call_def accept_of_def)
  show ?thesis
    using w c st by (simp add: listener_ready_def listener_dispatch_def listener_accept_coro_def after_accept_def Let_def
      stage_wait_def stage_accept_def)
qed

lemma listener_ready_accept:
  assumes l: "listening L" and op: "shuso_io_ev_operation (accept_of (li_io L)) = Some (Done io)"
    and io: "io_has_error_handler io" "new_call (accept_of (li_io L)) io = Some False \<Longrightarrow> io_handler_stage io = stage_accept"
  shows "listener_ready env L = Some (after_accept env L io)"
  using l listener_ready_polling [OF _ op io(1)] listener_ready_retrying [OF _ op io(2)] by (auto simp: listening_def)

lemma watch_update_more [simp]:
  "io_has_error_handler (shuso_io_ev_watch_update io) = io_has_error_handler io"
  "io_handler_stage (shuso_io_ev_watch_update io) = io_handler_stage io"
  "io_fd (shuso_io_ev_watch_update io) = io_fd io"
  by (simp_all add: shuso_io_ev_watch_update_def)

lemma listener_wait_polling:
  "io_has_error_handler io \<Longrightarrow> polling (listener_wait io)" "k_script (listener_wait io) = k_script io"
  "io_fd (listener_wait io) = io_fd io"
  by (simp_all add: listener_wait_def shuso_io_wait_def polling_def Let_def)

text \<open>A connection is published and the listener polls again.\<close>

lemma listener_ready_connection:
  assumes l: "listening L" and ev: "server_events env ms hs" and k: "uninterrupted (k_script (li_io L)) = Sys_ok n # rs"
  shows "\<exists>L'. listener_ready env L = Some (Done L') \<and> listening L' \<and> k_script (li_io L') = rs \<and>
    li_world L' = (li_world L)\<lparr>user := connection (ln_family env) ms hs (int n) (user (li_world L))\<rparr>"
proof -
  let ?a = "accept_of (li_io L)"
  define io where "io = shuso_io_ev_watch_update
    (?a\<lparr>k_script := rs, io_result := int n, handler_calls := handler_calls ?a @ [(False, int n, io_error ?a)]\<rparr>)"
  have a: "accepting ?a" "io_handler_stage ?a = stage_accept" by (rule accepting_accept_of [OF l])+
  have op: "shuso_io_ev_operation ?a = Some (Done io)" using accept_operation(1) [OF a(1), of n rs] k by (simp add: io_def)
  have eh: "io_has_error_handler io" "io_handler_stage io = stage_accept" using a by (simp_all add: io_def accepting_def)
  have n: "new_call ?a io = Some False" by (simp add: new_call_def io_def)
  let ?io = "io\<lparr>io_has_error_handler := True\<rparr>"
  have "listener_ready env L = Some (after_accept env L io)" by (rule listener_ready_accept [OF l op eh(1)]) (simp add: eh(2))
  then have "listener_ready env L = Some (Done (L\<lparr>li_io := listener_wait ?io,
      li_world := (li_world L)\<lparr>user := connection (ln_family env) ms hs (io_result ?io) (user (li_world L))\<rparr>\<rparr>))"
    by (simp add: after_accept_def n listener_accepted_spec [OF ev])
  moreover have "io_result ?io = int n" by (simp add: io_def)
  moreover have "k_script ?io = rs" by (simp add: io_def)
  ultimately show ?thesis by (simp add: listening_def listener_wait_polling)
qed

lemma listener_ready_again:
  assumes l: "listening L" and k: "uninterrupted (k_script (li_io L)) = Sys_err EAGAIN # rs"
  shows "\<exists>L'. listener_ready env L = Some (Done L') \<and> listening L' \<and> k_script (li_io L') = rs \<and> li_world L' = li_world L"
proof -
  let ?a = "accept_of (li_io L)"
  define io where "io = shuso_io_ev_watch_update (?a\<lparr>k_script := rs, io_watch_type := SHUSO_IO_WATCH_OP_RETRY\<rparr>)"
  have a: "accepting ?a" "io_handler_stage ?a = stage_accept" by (rule accepting_accept_of [OF l])+
  have ka: "uninterrupted (k_script ?a) = Sys_err EAGAIN # rs" using k by simp
  have op: "shuso_io_ev_operation ?a = Some (Done io)" using accept_operation(2) [OF a(1) ka] by (simp add: io_def)
  have n: "new_call ?a io = None" by (simp add: new_call_def io_def)
  have r: "retrying io" using a by (simp add: io_def retrying_def accepting_def)
  have eh: "io_has_error_handler io" using r by (simp add: retrying_def)
  have "listener_ready env L = Some (after_accept env L io)" by (rule listener_ready_accept [OF l op eh]) (simp add: n)
  then have "listener_ready env L = Some (Done (L\<lparr>li_io := io\<rparr>))" by (simp add: after_accept_def n)
  then show ?thesis using r by (simp add: listening_def) (simp add: io_def)
qed

text \<open>Any other error ends the listener: its error handler runs and nothing watches the descriptor on its behalf.\<close>

lemma listener_ready_error:
  assumes l: "listening L" and k: "uninterrupted (k_script (li_io L)) = Sys_err e # rs" and e: "e \<noteq> EAGAIN"
  shows "\<exists>L'. listener_ready env L = Some (Done L') \<and> li_world L' = li_world L \<and> io_handler_stage (li_io L') = 0 \<and>
    io_watch_type (li_io L') = SHUSO_IO_WATCH_NONE \<and> io_watcher_active (li_io L') = retrying (li_io L) \<and> k_script (li_io L') = rs"
proof -
  let ?a = "accept_of (li_io L)"
  define io where "io = ?a\<lparr>k_script := rs, io_result := - 1, io_error := e, io_handler_stage := 0,
    handler_calls := handler_calls ?a @ [(True, - 1, e)]\<rparr>"
  have a: "accepting ?a" "io_handler_stage ?a = stage_accept" by (rule accepting_accept_of [OF l])+
  have ka: "uninterrupted (k_script ?a) = Sys_err e # rs" using k by simp
  have op: "shuso_io_ev_operation ?a = Some (Done io)" using accept_operation(3) [OF a(1) ka e] by (simp add: io_def)
  have n: "new_call ?a io = Some True" by (simp add: new_call_def io_def)
  have w: "io_watcher_active ?a = retrying (li_io L)"
    using l polling_accept_of [of "li_io L"] retrying_accept_of [of "li_io L"] by (auto simp: listening_def polling_def retrying_def)
  have eh: "io_has_error_handler io" "io_watch_type io = SHUSO_IO_WATCH_NONE" using a by (simp_all add: io_def accepting_def)
  have "listener_ready env L = Some (after_accept env L io)" by (rule listener_ready_accept [OF l op eh(1)]) (simp add: n)
  then have "listener_ready env L = Some (Done (L\<lparr>li_io := io\<rparr>))" by (simp add: after_accept_def n)
  then show ?thesis using eh(2) w by simp (simp add: io_def)
qed

section \<open>Properties\<close>

text \<open>The descriptors among the answers.\<close>

fun accepted_fds :: "sys_result list \<Rightarrow> int list" where
  "accepted_fds [] = []"
| "accepted_fds (Sys_ok n # rs) = int n # accepted_fds rs"
| "accepted_fds (Sys_err e # rs) = accepted_fds rs"

definition accept_answer :: "sys_result \<Rightarrow> bool" where
  "accept_answer r \<longleftrightarrow> (case r of Sys_ok n \<Rightarrow> True | Sys_err e \<Rightarrow> e = EINTR \<or> e = EAGAIN)"

lemma uninterrupted_cases:
  assumes "\<forall>r \<in> set rs. accept_answer r" "rs \<noteq> []" "last rs \<noteq> Sys_err EINTR"
  shows "\<exists>rs'. length rs' < length rs \<and> (\<forall>r \<in> set rs'. accept_answer r) \<and> (rs' \<noteq> [] \<longrightarrow> last rs' \<noteq> Sys_err EINTR) \<and>
    ((\<exists>n. uninterrupted rs = Sys_ok n # rs' \<and> accepted_fds rs = int n # accepted_fds rs') \<or>
     uninterrupted rs = Sys_err EAGAIN # rs' \<and> accepted_fds rs = accepted_fds rs')"
  using assms
proof (induction rs)
  case (Cons r rs)
  show ?case
  proof (cases "r = Sys_err EINTR")
    case True
    then have "rs \<noteq> []" "last rs \<noteq> Sys_err EINTR" "\<forall>r \<in> set rs. accept_answer r" using Cons.prems by (auto split: if_splits)
    note ih = Cons.IH [OF this(3,1,2)]
    have "uninterrupted (r # rs) = uninterrupted rs" "accepted_fds (r # rs) = accepted_fds rs" using True by simp_all
    then show ?thesis using ih by (simp only: length_Cons) (blast intro: less_SucI)
  next
    case False
    then have "uninterrupted (r # rs) = r # rs" by simp
    moreover have "(\<exists>n. r = Sys_ok n) \<or> r = Sys_err EAGAIN" using False Cons.prems(1) by (cases r) (auto simp: accept_answer_def)
    ultimately show ?thesis using Cons.prems by (intro exI [of _ rs]) auto
  qed
qed simp

lemma listener_drive_accepts:
  assumes "listening L" "server_events env ms hs" "k_script (li_io L) = rs" "\<forall>r \<in> set rs. accept_answer r"
    and "rs \<noteq> [] \<longrightarrow> last rs \<noteq> Sys_err EINTR" "length rs \<le> n"
  shows "\<exists>L'. listener_drive n env L = Some (Done L') \<and> listening L' \<and> k_script (li_io L') = [] \<and>
    li_world L' = (li_world L)\<lparr>user := fold (connection (ln_family env) ms hs) (accepted_fds rs) (user (li_world L))\<rparr>"
  using assms
proof (induction n arbitrary: L rs)
  case 0
  then show ?case by simp
next
  case (Suc n)
  show ?case
  proof (cases "rs = []")
    case True
    then show ?thesis using Suc.prems by simp
  next
    case False
    obtain rs' where rs': "length rs' < length rs" "\<forall>r \<in> set rs'. accept_answer r" "rs' \<noteq> [] \<longrightarrow> last rs' \<noteq> Sys_err EINTR"
      and c: "(\<exists>k. uninterrupted rs = Sys_ok k # rs' \<and> accepted_fds rs = int k # accepted_fds rs') \<or>
        uninterrupted rs = Sys_err EAGAIN # rs' \<and> accepted_fds rs = accepted_fds rs'"
      using uninterrupted_cases [OF Suc.prems(4) False] Suc.prems(5) False by blast
    obtain L1 fds where L1: "listener_ready env L = Some (Done L1)" "listening L1" "k_script (li_io L1) = rs'"
      "li_world L1 = (li_world L)\<lparr>user := fold (connection (ln_family env) ms hs) fds (user (li_world L))\<rparr>"
      and fds: "accepted_fds rs = fds @ accepted_fds rs'"
      using c
    proof (elim disjE exE conjE)
      fix k assume k: "uninterrupted rs = Sys_ok k # rs'" "accepted_fds rs = int k # accepted_fds rs'"
      obtain L1 where "listener_ready env L = Some (Done L1)" "listening L1" "k_script (li_io L1) = rs'"
        "li_world L1 = (li_world L)\<lparr>user := connection (ln_family env) ms hs (int k) (user (li_world L))\<rparr>"
        using listener_ready_connection [OF Suc.prems(1,2), of k rs'] k(1) Suc.prems(3) by auto
      then show ?thesis using that [of L1 "[int k]"] k(2) by simp
    next
      assume k: "uninterrupted rs = Sys_err EAGAIN # rs'" "accepted_fds rs = accepted_fds rs'"
      obtain L1 where "listener_ready env L = Some (Done L1)" "listening L1" "k_script (li_io L1) = rs'" "li_world L1 = li_world L"
        using listener_ready_again [OF Suc.prems(1), of rs' env] k(1) Suc.prems(3) by auto
      then show ?thesis using that [of L1 "[]"] k(2) by simp
    qed
    obtain L' where "listener_drive n env L1 = Some (Done L')" "listening L'" "k_script (li_io L') = []"
      "li_world L' = (li_world L1)\<lparr>user := fold (connection (ln_family env) ms hs) (accepted_fds rs') (user (li_world L1))\<rparr>"
      using Suc.IH [OF L1(2) Suc.prems(2) L1(3) rs'(2,3)] rs'(1) Suc.prems(6) by auto
    then show ?thesis using L1(1,4) False Suc.prems(3) fds by simp
  qed
qed

lemma listener_starts:
  assumes "0 \<le> ln_listen env"
  shows "\<exists>L. luaS_start_worker_io_listener_coroutine env fd io w = Some (Done L) \<and> listening L \<and>
    k_script (li_io L) = k_script io \<and> li_world L = w \<and> io_fd (li_io L) = fd"
  using assms
  by (simp add: luaS_start_worker_io_listener_coroutine_def shuso_io_resume_buf_def shuso_io_run_handler_def shuso_io_init_socket_def
    listener_dispatch_def new_call_def listener_accept_coro_def shuso_io_ev_watch_update_def listener_wait_def shuso_io_wait_def
    listening_def polling_def Let_def)

text \<open>C29: A listener misses no connection: from its start, every descriptor that accept returns goes, in order, through the
  listeners of the tentative accept and then those of the accept event, whose socket is that descriptor; calls of accept
  that are interrupted or find nothing change nothing. Afterwards it is listening still.\<close>

theorem listener_accepts_all:
  assumes "server_events env ms hs" "0 \<le> ln_listen env" "\<forall>r \<in> set (k_script io). accept_answer r"
    and "k_script io \<noteq> []" "last (k_script io) \<noteq> Sys_err EINTR"
  shows "\<exists>L L'. luaS_start_worker_io_listener_coroutine env fd io w = Some (Done L) \<and>
    listener_drive (length (k_script io)) env L = Some (Done L') \<and> listening L' \<and>
    li_world L' = w\<lparr>user := fold (connection (ln_family env) ms hs) (accepted_fds (k_script io)) (user w)\<rparr>"
proof -
  obtain L where L: "luaS_start_worker_io_listener_coroutine env fd io w = Some (Done L)" "listening L"
    "k_script (li_io L) = k_script io" "li_world L = w"
    using listener_starts [OF assms(2)] by blast
  show ?thesis using listener_drive_accepts [OF L(2) assms(1) L(3) assms(3)] assms(5) L(1,4) by auto
qed

text \<open>C30: The first error of accept other than having nothing ends a listener for good: no event is published and its
  descriptor is watched no more; but if the call of accept was one that had been put off, the watcher stays active with
  nothing to wait for, and the next event on the descriptor aborts the worker.\<close>

theorem listener_error_aborts:
  assumes "listening L" "k_script (li_io L) = Sys_err e # rs" "e \<noteq> EAGAIN" "e \<noteq> EINTR"
  shows "\<exists>L'. listener_ready env L = Some (Done L') \<and> li_world L' = li_world L \<and> io_handler_stage (li_io L') = 0 \<and>
    (polling (li_io L) \<longrightarrow> \<not> io_watcher_active (li_io L')) \<and>
    (retrying (li_io L) \<longrightarrow> io_watcher_active (li_io L') \<and> listener_ready env L' = Some Abort)"
proof -
  obtain L' where L': "listener_ready env L = Some (Done L')" "li_world L' = li_world L" "io_handler_stage (li_io L') = 0"
    "io_watch_type (li_io L') = SHUSO_IO_WATCH_NONE" "io_watcher_active (li_io L') = retrying (li_io L)"
    using listener_ready_error [OF assms(1), of e rs env] assms(2-4) by auto
  moreover have "listener_ready env L' = Some Abort" using L'(4) by (simp add: listener_ready_def shuso_io_ev_watcher_handler_def)
  ultimately show ?thesis by (auto simp: polling_def retrying_def)
qed

text \<open>Stopping a listener whose accept is to be tried again publishes a connection that there is not, with the
  descriptor -1, to all listeners of both events, before the descriptor is closed and watched no more.\<close>

theorem listener_stop_publishes:
  assumes "server_events env ms hs" "retrying (li_io L)"
  shows "\<exists>L'. luaS_stop_worker_io_listener_coroutine env L = Some (Done L') \<and> \<not> io_watcher_active (li_io L') \<and>
    (let u = connection (ln_family env) ms hs (- 1) (user (li_world L))
     in li_world L' = (li_world L)\<lparr>user := u\<lparr>sv_open := sv_open u - {io_fd (li_io L)}\<rparr>\<rparr>)"
proof -
  let ?io = "(li_io L)\<lparr>io_watch_type := SHUSO_IO_WATCH_NONE, io_result := - 1, io_error := ECANCELED\<rparr>"
  have r: "io_handler_stage ?io = stage_accept" "io_watch_type (li_io L) \<noteq> SHUSO_IO_WATCH_NONE"
    using assms(2) by (simp_all add: retrying_def)
  have "listener_accept_coro env (L\<lparr>li_io := ?io\<rparr>) =
      Some (listener_accepted env (L\<lparr>li_io := ?io\<lparr>io_has_error_handler := True\<rparr>\<rparr>))"
    using r(1) by (simp add: listener_accept_coro_def Let_def stage_wait_def stage_accept_def)
  then show ?thesis
    using r(2) by (simp add: luaS_stop_worker_io_listener_coroutine_def listener_accepted_spec [OF assms(1)] Let_def
      shuso_io_abort_def listener_wait_polling)
qed

section \<open>Examples\<close>

definition example_accept_handler :: "int list server_world reaction" where
  "example_accept_handler = (1, \<lambda>code data u. u\<lparr>sv_user := sv_user u @ [sv_socket u]\<rparr>)"

definition example_accept_event :: "int list server_world event" where
  "example_accept_event = \<lparr>ev_listeners = [plain example_accept_handler], ev_interrupt_handler = None\<rparr>"

definition example_listener_env :: "int list listener_env" where
  "example_listener_env = \<lparr>ln_events = [1 \<mapsto> \<lparr>ev_listeners =
       [\<lparr>l_module = 2, l_fn = maybe_accept_event_confirm_accept [2 \<mapsto> example_accept_event] 2 2\<rparr>], ev_interrupt_handler = None\<rparr>,
     2 \<mapsto> example_accept_event], ln_maybe_accept = 1, ln_accept = 2, ln_family = 2, ln_peer_family = 2, ln_listen = 0\<rparr>"

definition example_server_world :: "int list server_world event_world" where
  "example_server_world = \<lparr>active_module = 0, delays = Map.empty, timers = [], next_ref = 1, stored_pause = None,
     user = \<lparr>sv_fd = 0, sv_family = 0, sv_socket = 0, sv_open = {5}, sv_user = []\<rparr>\<rparr>"

lemma example_server_events: "server_events example_listener_env [] [example_accept_handler]"
  by (auto simp: server_events_def example_listener_env_def example_accept_event_def intro!: exI [of _ "[2 \<mapsto> example_accept_event]"])

definition accept_script_io :: "sys_result list \<Rightarrow> io \<Rightarrow> io" where
  "accept_script_io rs io = (shuso_io_init_socket 5 io)\<lparr>k_script := rs\<rparr>"

theorem listener_accepts_all_witness:
  "\<forall>io. \<exists>L L'. luaS_start_worker_io_listener_coroutine example_listener_env 5
      (accept_script_io [Sys_ok 7, Sys_err 11, Sys_err 4, Sys_ok 8] io) example_server_world = Some (Done L) \<and>
    listener_drive 4 example_listener_env L = Some (Done L') \<and> listening L' \<and>
    sv_user (user (li_world L')) = [7, 8] \<and> sv_open (user (li_world L')) = {5, 7, 8}"
proof
  fix io
  let ?rs = "[Sys_ok 7, Sys_err 11, Sys_err 4, Sys_ok 8]"
  have k: "k_script (accept_script_io ?rs io) = ?rs" by (simp add: accept_script_io_def)
  have h: "0 \<le> ln_listen example_listener_env" "\<forall>r \<in> set (k_script (accept_script_io ?rs io)). accept_answer r"
    "k_script (accept_script_io ?rs io) \<noteq> []" "last (k_script (accept_script_io ?rs io)) \<noteq> Sys_err EINTR"
    "ln_family example_listener_env = 2"
    by (simp_all add: k accept_answer_def example_listener_env_def)
  have c: "length ?rs = 4" "accepted_fds ?rs = [7, 8]" by simp_all
  obtain L L' where "luaS_start_worker_io_listener_coroutine example_listener_env 5 (accept_script_io ?rs io) example_server_world =
      Some (Done L)" "listener_drive 4 example_listener_env L = Some (Done L')" "listening L'"
    "li_world L' = example_server_world\<lparr>user := fold (connection 2 [] [example_accept_handler]) [7, 8] (user example_server_world)\<rparr>"
    using listener_accepts_all [OF example_server_events h(1-4), of 5 example_server_world, unfolded k c h(5)] by blast
  then show "\<exists>L L'. luaS_start_worker_io_listener_coroutine example_listener_env 5 (accept_script_io ?rs io) example_server_world =
      Some (Done L) \<and> listener_drive 4 example_listener_env L = Some (Done L') \<and> listening L' \<and>
      sv_user (user (li_world L')) = [7, 8] \<and> sv_open (user (li_world L')) = {5, 7, 8}"
    by (intro exI [of _ L] exI [of _ L']) (auto simp: connection_def example_accept_handler_def example_server_world_def Let_def)
qed

text \<open>A listener that found no connection and then no descriptor free.\<close>

definition example_retrying :: "sys_result list \<Rightarrow> io \<Rightarrow> int list listener" where
  "example_retrying rs io = \<lparr>li_io = (accept_script_io rs io)\<lparr>io_has_error_handler := True, io_watcher_active := True,
     io_watch_type := SHUSO_IO_WATCH_OP_RETRY, io_handler_stage := stage_accept, io_opcode := SHUSO_IO_OP_ACCEPT,
     io_has_sockaddr := True\<rparr>, li_world = example_server_world\<rparr>"

lemma example_retrying_retrying: "retrying (li_io (example_retrying rs io))"
  by (simp add: example_retrying_def retrying_def accept_script_io_def shuso_io_init_socket_def)

theorem listener_error_aborts_witness:
  "\<forall>io. \<exists>L'. listener_ready example_listener_env (example_retrying [Sys_err 24] io) = Some (Done L') \<and>
     listener_ready example_listener_env L' = Some Abort"
proof
  fix io
  have "listening (example_retrying [Sys_err 24] io)" "k_script (li_io (example_retrying [Sys_err 24] io)) = [Sys_err 24]"
    by (simp add: listening_def example_retrying_retrying) (simp add: example_retrying_def accept_script_io_def)
  from listener_error_aborts [OF this, of example_listener_env]
  show "\<exists>L'. listener_ready example_listener_env (example_retrying [Sys_err 24] io) = Some (Done L') \<and>
      listener_ready example_listener_env L' = Some Abort"
    using example_retrying_retrying [of "[Sys_err 24]" io] by auto
qed

theorem listener_stop_publishes_witness:
  "\<forall>io. \<exists>L'. luaS_stop_worker_io_listener_coroutine example_listener_env (example_retrying [] io) = Some (Done L') \<and>
     sv_user (user (li_world L')) = [-1] \<and> sv_open (user (li_world L')) = {}"
proof
  fix io
  have fd: "io_fd (li_io (example_retrying [] io)) = 5" "li_world (example_retrying [] io) = example_server_world"
    "ln_family example_listener_env = 2"
    by (simp_all add: example_retrying_def accept_script_io_def shuso_io_init_socket_def example_listener_env_def)
  show "\<exists>L'. luaS_stop_worker_io_listener_coroutine example_listener_env (example_retrying [] io) = Some (Done L') \<and>
      sv_user (user (li_world L')) = [-1] \<and> sv_open (user (li_world L')) = {}"
    using listener_stop_publishes [OF example_server_events example_retrying_retrying, of "[]" io]
    by (auto simp: fd connection_def example_accept_handler_def example_server_world_def Let_def)
qed

section \<open>The closing listener\<close>

text \<open>
  With \<^verbatim>\<open>no_accept_handler_found\<close> as the last listener of an accept event, which cannot be interrupted, every connection is
  closed at the end of the event, whatever the handlers before it do with it.
\<close>

lemma react_keeps:
  "\<forall>g \<in> set gs. \<forall>u. f (snd g code data u) = f u \<Longrightarrow> f (react code data gs u) = f u"
  by (induction gs arbitrary: u) simp_all

lemma connection_closed:
  assumes "\<forall>g \<in> set ms. \<forall>u. sv_fd (snd g SHUSO_OK 0 u) = sv_fd u" "\<forall>g \<in> set hs. \<forall>u. sv_socket (snd g SHUSO_OK 0 u) = sv_socket u"
  shows "fd \<notin> sv_open (connection fam ms (hs @ [(m, no_accept_handler_found)]) fd u)"
proof -
  let ?u = "react SHUSO_OK 0 ms (u\<lparr>sv_fd := fd, sv_family := fam, sv_open := (if fd < 0 then sv_open u else insert fd (sv_open u))\<rparr>)"
  have 1: "sv_fd ?u = fd" by (subst react_keeps [OF assms(1)]) simp
  have 2: "sv_socket (react SHUSO_OK 0 hs (?u\<lparr>sv_socket := sv_fd ?u\<rparr>)) = fd" by (subst react_keeps [OF assms(2)]) (simp add: 1)
  have 3: "react SHUSO_OK 0 (hs @ [(m, no_accept_handler_found)]) v = no_accept_handler_found SHUSO_OK 0 (react SHUSO_OK 0 hs v)" for v
    by (simp add: react_def)
  show ?thesis unfolding connection_def Let_def 3 no_accept_handler_found_def 2 by simp
qed

end
