(* ===== verification/Resolver.thy ===== *)
theory Resolver
  imports Server
begin

text \<open>
  The DNS resolver (\<^verbatim>\<open>resolver.c\<close>) around the c-ares library: setting a channel up, the sockets that c-ares opens and
  closes through the program, and queries.  What c-ares itself does is a parameter.
\<close>

section \<open>State\<close>

text \<open>The results of c-ares that the code tells apart.\<close>

datatype ares_status =
    ARES_SUCCESS
  | ARES_ENODATA
  | ARES_ENOTFOUND
  | ARES_ENOTIMP
  | ARES_EBADNAME
  | ARES_ECONNREFUSED
  | ARES_EFILE
  | ARES_ENOMEM
  | ARES_EDESTRUCTION
  | ARES_ENOTINITIALIZED
  | ARES_ECANCELLED
  | ARES_other nat

datatype resolver_result =
    SHUSO_RESOLVER_SUCCESS
  | SHUSO_RESOLVER_FAILURE
  | SHUSO_RESOLVER_FAILURE_NOTIMP
  | SHUSO_RESOLVER_FAILURE_BADNAME
  | SHUSO_RESOLVER_FAILURE_NODATA
  | SHUSO_RESOLVER_FAILURE_NOTFOUND
  | SHUSO_RESOLVER_FAILURE_NOMEM
  | SHUSO_RESOLVER_FAILURE_CANCELLED
  | SHUSO_RESOLVER_FAILURE_CONNREFUSED

text \<open>A query's data: the callback and its argument.\<close>

record resolve_data =
  rd_callback :: nat
  rd_pd :: addr

text \<open>
  \<^verbatim>\<open>shuso_resolver_t\<close> with what it works on: the list of sockets from its head, each a node and a descriptor; the memory
  allocated, the open descriptors, the nodes whose watcher is active, the data of queries; whether the channel is there;
  and the calls of callbacks.
\<close>

record 'h resolver =
  rv_S :: shuso
  rv_channel :: bool
  rv_sockets :: "(addr \<times> int) list"
  rv_heap :: "addr set"
  rv_fds :: "int set"
  rv_watched :: "addr set"
  rv_queries :: "addr \<rightharpoonup> resolve_data"
  rv_calls :: "(nat \<times> addr \<times> resolver_result \<times> 'h) list"

definition rv_error :: "string \<Rightarrow> 'h resolver \<Rightarrow> 'h resolver" where
  "rv_error msg r = r\<lparr>rv_S := snd (shuso_set_error msg (rv_S r))\<rparr>"

section \<open>Calls that are interrupted\<close>

text \<open>
  What a system call returns each time it is made, with \<^verbatim>\<open>errno\<close>.  The first loop tries again while the call is interrupted;
  the second compares the result with the number of that error instead.  \<open>None\<close>: interrupted to the end of the list.
\<close>

definition RESOLVER_EINTR :: int where "RESOLVER_EINTR = 4"

fun retry_interrupted :: "(int \<times> int) list \<Rightarrow> int option" where
  "retry_interrupted [] = None"
| "retry_interrupted ((r, e) # rs) = (if r < 0 \<and> e = RESOLVER_EINTR then retry_interrupted rs else Some r)"

fun retry_result :: "(int \<times> int) list \<Rightarrow> int option" where
  "retry_result [] = None"
| "retry_result ((r, e) # rs) = (if r = RESOLVER_EINTR then retry_result rs else Some r)"

section \<open>Setting up\<close>

text \<open>\<open>rc\<close> is the result of \<^verbatim>\<open>ares_library_init\<close> and \<open>strerror\<close> the library's text for it.\<close>

definition shuso_resolver_global_init :: "ares_status \<Rightarrow> (ares_status \<Rightarrow> string) \<Rightarrow> bool \<times> string option" where
  "shuso_resolver_global_init rc strerror = (if rc \<noteq> ARES_SUCCESS then (False, Some (strerror rc)) else (True, None))"

text \<open>A server for c-ares; a port that is not set has whatever the memory had.\<close>

record ares_node =
  an_addr :: sockaddr
  an_tcp_port :: "16 word option"
  an_udp_port :: "16 word option"

datatype socktype = SOCK_STREAM | SOCK_DGRAM | SOCK_other

definition resolver_node :: "sockaddr \<Rightarrow> 16 word \<Rightarrow> socktype \<Rightarrow> ares_node" where
  "resolver_node sa port ty = \<lparr>an_addr = sa, an_tcp_port = (if ty = SOCK_STREAM then Some port else None),
     an_udp_port = (if ty = SOCK_DGRAM then Some port else None)\<rparr>"

fun resolver_host :: "sockaddr \<times> socktype \<Rightarrow> ares_node option" where
  "resolver_host (Sockaddr_in a p, ty) = Some (resolver_node (Sockaddr_in a p) p ty)"
| "resolver_host (Sockaddr_in6 a p, ty) = Some (resolver_node (Sockaddr_in6 a p) p ty)"
| "resolver_host (sa, ty) = None"

fun resolver_hosts :: "(sockaddr \<times> socktype) list \<Rightarrow> ares_node list option" where
  "resolver_hosts [] = Some []"
| "resolver_hosts (h # hs) =
     (case resolver_host h of None \<Rightarrow> None
      | Some n \<Rightarrow> (case resolver_hosts hs of None \<Rightarrow> None | Some ns \<Rightarrow> Some (n # ns)))"

record resolver_env =
  re_init_options :: ares_status
  re_malloc :: addr
  re_set_servers :: "ares_node list \<Rightarrow> ares_status"

fun resolver_error_text :: "ares_status \<Rightarrow> string" where
  "resolver_error_text ARES_EFILE = ''DNS resolver initialization failed: a configuration file could not be read.''"
| "resolver_error_text ARES_ENOMEM = ''DNS resolver initialization failed: Out of memory''"
| "resolver_error_text ARES_ENOTINITIALIZED = ''DNS resolver initialization failed: c-ares library is not initialized''"
| "resolver_error_text ARES_ENOTIMP =
     ''DNS resolver initialization failed: changing name server during pending queries is forbidden''"
| "resolver_error_text rc = ''DNS resolver initialization failed: unforeseen error''"

text \<open>The label \<^verbatim>\<open>fail\<close>: with the last result of c-ares, the error so far, and the hosts, 0 for NULL.\<close>

definition resolver_init_fail :: "ares_status \<Rightarrow> string option \<Rightarrow> bool \<Rightarrow> addr \<Rightarrow> 'h resolver \<Rightarrow> bool \<times> 'h resolver" where
  "resolver_init_fail rc err ares_initialized hosts r =
     (let err = (if rc \<noteq> ARES_SUCCESS \<and> err = None then Some (resolver_error_text rc) else err);
          r = (case err of None \<Rightarrow> r | Some msg \<Rightarrow> rv_error msg r);
          r = (if ares_initialized then r\<lparr>rv_channel := False\<rparr> else r);
          r = (if hosts \<noteq> 0 then r\<lparr>rv_heap := rv_heap r - {hosts}\<rparr> else r)
      in (False, r))"

definition shuso_resolver_init :: "resolver_env \<Rightarrow> (sockaddr \<times> socktype) list \<Rightarrow> 'h resolver \<Rightarrow> bool \<times> 'h resolver" where
  "shuso_resolver_init env cf_hosts r =
     (let rc = re_init_options env in
      if rc \<noteq> ARES_SUCCESS then resolver_init_fail rc None False 0 r
      else
        (let r = r\<lparr>rv_channel := True\<rparr> in
         if length cf_hosts > 4096 then
           resolver_init_fail rc (Some ''DNS resolver initialization failed: too many hosts (must not exceed 4096)'') True 0 r
         else if cf_hosts = [] then (True, r)
         else
           (let hosts = re_malloc env in
            if hosts = 0 then resolver_init_fail rc None True 0 r
            else
              (let r = r\<lparr>rv_heap := insert hosts (rv_heap r)\<rparr> in
               case resolver_hosts cf_hosts of
                 None \<Rightarrow> resolver_init_fail rc
                   (Some ''DNS resolver initialization failed: unexpected address family, must be AF_INET of AF_INET6'') True hosts r
               | Some ns \<Rightarrow>
                   (let rc = re_set_servers env ns in
                    if rc \<noteq> ARES_SUCCESS then resolver_init_fail rc None True hosts r
                    else (True, r\<lparr>rv_heap := rv_heap r - {hosts}\<rparr>))))))"

section \<open>Sockets\<close>

text \<open>
  The callbacks c-ares opens and closes its sockets with.  \<open>node\<close> is what \<^verbatim>\<open>malloc\<close> returns, \<open>sock\<close> the answers to
  \<^verbatim>\<open>socket\<close>, \<open>nonblocking\<close> the result of setting the mode.
\<close>

definition ares_socket_open :: "addr \<Rightarrow> (int \<times> int) list \<Rightarrow> int \<Rightarrow> 'h resolver \<Rightarrow> (int \<times> 'h resolver) option" where
  "ares_socket_open node sock nonblocking r =
     (if node = 0 then Some (-1, rv_error ''DNS resolver: failed to allocate memory for socket struct'' r)
      else
        (let r = r\<lparr>rv_heap := insert node (rv_heap r)\<rparr> in
         case retry_interrupted sock of
           None \<Rightarrow> None
         | Some fd \<Rightarrow>
             if fd < 0 then Some (-1, rv_error ''DNS resolver: failed to open socket'' (r\<lparr>rv_heap := rv_heap r - {node}\<rparr>))
             else
               (let r = r\<lparr>rv_fds := insert fd (rv_fds r)\<rparr> in
                if nonblocking = -1 then
                  Some (-1, rv_error ''DNS resolver: failed to set socket as non-blocking''
                    (r\<lparr>rv_heap := rv_heap r - {node}, rv_fds := rv_fds r - {fd}\<rparr>))
                else
                  Some (fd, r\<lparr>rv_sockets := (node, fd) # rv_sockets r, rv_watched := insert node (rv_watched r)\<rparr>))))"

text \<open>The loop over the list: the sockets before the one with the descriptor, it, and the rest.\<close>

fun find_socket :: "int \<Rightarrow> (addr \<times> int) list \<Rightarrow> ((addr \<times> int) list \<times> addr \<times> (addr \<times> int) list) option" where
  "find_socket fd [] = None"
| "find_socket fd ((node, fd') # ss) =
     (if fd' = fd then Some ([], node, ss)
      else (case find_socket fd ss of None \<Rightarrow> None | Some (prev, n, rest) \<Rightarrow> Some ((node, fd') # prev, n, rest)))"

definition ares_socket_close :: "int \<Rightarrow> (int \<times> int) list \<Rightarrow> 'h resolver \<Rightarrow> (int \<times> 'h resolver) run option" where
  "ares_socket_close fd answers r =
     (case find_socket fd (rv_sockets r) of
        None \<Rightarrow> Some Abort
      | Some (prev, node, rest) \<Rightarrow>
          (let r = r\<lparr>rv_sockets := prev @ rest, rv_watched := rv_watched r - {node}, rv_heap := rv_heap r - {node}\<rparr> in
           case retry_result answers of
             None \<Rightarrow> None
           | Some rc \<Rightarrow> Some (Done (rc, r\<lparr>rv_fds := rv_fds r - {fd}\<rparr>))))"

definition ares_socket_connect :: "(int \<times> int) list \<Rightarrow> int option" where
  "ares_socket_connect answers = retry_result answers"

definition ares_socket_recvfrom :: "(int \<times> int) list \<Rightarrow> int option" where
  "ares_socket_recvfrom answers = retry_interrupted answers"

definition ares_socket_sendv :: "(int \<times> int) list \<Rightarrow> int option" where
  "ares_socket_sendv answers = retry_interrupted answers"

text \<open>The watcher of a socket hands its descriptor to c-ares, as readable, writable or both; -1 is no descriptor.\<close>

definition ares_ev_io_callback :: "bool \<Rightarrow> bool \<Rightarrow> int \<Rightarrow> int \<times> int" where
  "ares_ev_io_callback rd wr fd = (if rd then fd else -1, if wr then fd else -1)"

section \<open>Queries\<close>

fun resolver_result_of :: "ares_status \<Rightarrow> resolver_result" where
  "resolver_result_of ARES_SUCCESS = SHUSO_RESOLVER_SUCCESS"
| "resolver_result_of ARES_ENOTIMP = SHUSO_RESOLVER_FAILURE_NOTIMP"
| "resolver_result_of ARES_EBADNAME = SHUSO_RESOLVER_FAILURE_BADNAME"
| "resolver_result_of ARES_ENODATA = SHUSO_RESOLVER_FAILURE_NODATA"
| "resolver_result_of ARES_ENOTFOUND = SHUSO_RESOLVER_FAILURE_NOTFOUND"
| "resolver_result_of ARES_ENOMEM = SHUSO_RESOLVER_FAILURE_NOMEM"
| "resolver_result_of ARES_ECANCELLED = SHUSO_RESOLVER_FAILURE_CANCELLED"
| "resolver_result_of ARES_EDESTRUCTION = SHUSO_RESOLVER_FAILURE_CANCELLED"
| "resolver_result_of ARES_ECONNREFUSED = SHUSO_RESOLVER_FAILURE_CONNREFUSED"
| "resolver_result_of _ = SHUSO_RESOLVER_FAILURE"

text \<open>Data that are not there have been freed.\<close>

definition shuso_resolve_hostname_callback :: "addr \<Rightarrow> ares_status \<Rightarrow> 'h \<Rightarrow> 'h resolver \<Rightarrow> 'h resolver run" where
  "shuso_resolve_hostname_callback arg status hostent r =
     (case rv_queries r arg of
        None \<Rightarrow> Abort
      | Some d \<Rightarrow> Done (r\<lparr>rv_calls := rv_calls r @ [(rd_callback d, rd_pd d, resolver_result_of status, hostent)],
                           rv_queries := (rv_queries r)(arg := None), rv_heap := rv_heap r - {arg}\<rparr>))"

text \<open>\<open>data\<close> is what \<^verbatim>\<open>malloc\<close> returns; \<open>query\<close> is \<^verbatim>\<open>ares_gethostbyname\<close>, which may call back at once.\<close>

definition shuso_resolve_hostname ::
  "addr \<Rightarrow> (addr \<Rightarrow> 'h resolver \<Rightarrow> 'h resolver run) \<Rightarrow> nat \<Rightarrow> addr \<Rightarrow> 'h resolver \<Rightarrow> (bool \<times> 'h resolver) run"
where
  "shuso_resolve_hostname data query callback pd r =
     (if data = 0 then Done (False, r)
      else run_bind (query data (r\<lparr>rv_heap := insert data (rv_heap r),
                                   rv_queries := (rv_queries r)(data \<mapsto> \<lparr>rd_callback = callback, rd_pd = pd\<rparr>)\<rparr>))
             (\<lambda>r. Done (True, r)))"

text \<open>\<open>destroy\<close> is \<^verbatim>\<open>ares_destroy\<close>.\<close>

definition shuso_resolver_cleanup :: "('h resolver \<Rightarrow> 'h resolver) \<Rightarrow> 'h resolver \<Rightarrow> bool \<times> 'h resolver" where
  "shuso_resolver_cleanup destroy r = (True, (destroy r)\<lparr>rv_channel := False\<rparr>)"

section \<open>The list of sockets\<close>

text \<open>
  The sockets in the list are what is watched and open, none is there twice, and with the data of queries they are what
  is allocated.
\<close>

definition sockets_ok :: "'h resolver \<Rightarrow> bool" where
  "sockets_ok r \<longleftrightarrow> distinct (map fst (rv_sockets r)) \<and> distinct (map snd (rv_sockets r)) \<and>
     rv_heap r = fst ` set (rv_sockets r) \<union> dom (rv_queries r) \<and> fst ` set (rv_sockets r) \<inter> dom (rv_queries r) = {} \<and>
     rv_watched r = fst ` set (rv_sockets r) \<and> rv_fds r = snd ` set (rv_sockets r)"

text \<open>The same memory, descriptors and channel: all but errors and calls of callbacks.\<close>

definition same_resources :: "'h resolver \<Rightarrow> 'h resolver \<Rightarrow> bool" where
  "same_resources r r' \<longleftrightarrow> rv_channel r' = rv_channel r \<and> rv_sockets r' = rv_sockets r \<and> rv_heap r' = rv_heap r \<and>
     rv_fds r' = rv_fds r \<and> rv_watched r' = rv_watched r \<and> rv_queries r' = rv_queries r"

lemma rv_error_sel [simp]:
  "rv_channel (rv_error msg r) = rv_channel r" "rv_sockets (rv_error msg r) = rv_sockets r"
  "rv_heap (rv_error msg r) = rv_heap r" "rv_fds (rv_error msg r) = rv_fds r"
  "rv_watched (rv_error msg r) = rv_watched r" "rv_queries (rv_error msg r) = rv_queries r"
  "rv_calls (rv_error msg r) = rv_calls r"
  by (simp_all add: rv_error_def)

lemma rv_error_twice [simp]: "rv_error msg (r\<lparr>rv_channel := b\<rparr>) = (rv_error msg r)\<lparr>rv_channel := b\<rparr>"
  by (simp add: rv_error_def)

lemma find_socket_None: "find_socket fd ss = None \<longleftrightarrow> (\<forall>s \<in> set ss. snd s \<noteq> fd)"
proof (induction ss)
  case (Cons s ss)
  then show ?case by (cases s; cases "snd s = fd"; cases "find_socket fd ss") auto
qed simp

lemma find_socket_split:
  "find_socket fd ss = Some (prev, n, rest) \<Longrightarrow> ss = prev @ (n, fd) # rest"
proof (induction ss arbitrary: prev)
  case (Cons s ss)
  then show ?case by (cases s; cases "snd s = fd"; cases "find_socket fd ss") auto
qed simp

lemma find_socket_append:
  "fd \<notin> snd ` set prev \<Longrightarrow> find_socket fd (prev @ (n, fd) # rest) = Some (prev, n, rest)"
proof (induction prev)
  case (Cons s prev)
  then show ?case by (cases s) auto
qed simp

lemma find_socket_mem: "fd \<in> snd ` set ss \<Longrightarrow> \<exists>x. find_socket fd ss = Some x"
  using find_socket_None [of fd ss] by (cases "find_socket fd ss") auto

text \<open>A socket is opened, or nothing has changed but the error.\<close>

lemma socket_open_cases:
  assumes op: "ares_socket_open node sock nonblocking r = Some (fd, r')"
    and fresh: "node \<notin> rv_heap r" "\<And>x. retry_interrupted sock = Some x \<Longrightarrow> x \<notin> rv_fds r"
  shows "fd = -1 \<and> same_resources r r' \<or>
    0 \<le> fd \<and> node \<noteq> 0 \<and> retry_interrupted sock = Some fd \<and>
    r' = r\<lparr>rv_heap := insert node (rv_heap r), rv_fds := insert fd (rv_fds r),
          rv_sockets := (node, fd) # rv_sockets r, rv_watched := insert node (rv_watched r)\<rparr>"
  using op fresh
  by (auto simp: ares_socket_open_def same_resources_def Let_def split: if_splits option.splits)

lemma sockets_ok_open:
  assumes "sockets_ok r" "node \<notin> rv_heap r" "fd \<notin> rv_fds r"
  shows "sockets_ok (r\<lparr>rv_heap := insert node (rv_heap r), rv_fds := insert fd (rv_fds r),
          rv_sockets := (node, fd) # rv_sockets r, rv_watched := insert node (rv_watched r)\<rparr>)"
  using assms by (auto simp: sockets_ok_def)

lemma socket_close_ok:
  assumes ok: "sockets_ok r" and fd: "fd \<in> snd ` set (rv_sockets r)" and ans: "answers \<noteq> []" "fst (hd answers) \<in> {0, -1}"
  shows "\<exists>prev node rest r'. ares_socket_close fd answers r = Some (Done (fst (hd answers), r')) \<and>
    rv_sockets r = prev @ (node, fd) # rest \<and> sockets_ok r' \<and>
    r' = r\<lparr>rv_sockets := prev @ rest, rv_watched := rv_watched r - {node}, rv_heap := rv_heap r - {node},
          rv_fds := rv_fds r - {fd}\<rparr>"
proof -
  obtain prev node rest where f: "find_socket fd (rv_sockets r) = Some (prev, node, rest)"
    using find_socket_mem [OF fd] by auto
  then have s: "rv_sockets r = prev @ (node, fd) # rest" using find_socket_split by blast
  obtain x e as where a: "answers = (x, e) # as" using ans(1) by (cases answers) auto
  have rc: "retry_result answers = Some x" using ans(2) a by (auto simp: RESOLVER_EINTR_def)
  let ?r = "r\<lparr>rv_sockets := prev @ rest, rv_watched := rv_watched r - {node}, rv_heap := rv_heap r - {node},
          rv_fds := rv_fds r - {fd}\<rparr>"
  have "ares_socket_close fd answers r = Some (Done (x, ?r))" using f rc by (simp add: ares_socket_close_def)
  moreover have "sockets_ok ?r"
  proof -
    have "node \<notin> fst ` set (prev @ rest)" "fd \<notin> snd ` set (prev @ rest)" "distinct (map fst (prev @ rest))" "distinct (map snd (prev @ rest))"
      using ok s unfolding sockets_ok_def by auto
    then show ?thesis using ok s unfolding sockets_ok_def by auto
  qed
  ultimately show ?thesis using s a by auto
qed

text \<open>
  What happens to a resolver: c-ares opens and closes sockets, the latter only ones it has, queries begin and are answered.
  The kernel returns descriptors that are not open, \<^verbatim>\<open>malloc\<close> memory that is not allocated, and \<^verbatim>\<open>close\<close> 0 or -1.
\<close>

inductive resolver_step :: "'h resolver \<Rightarrow> 'h resolver \<Rightarrow> bool" where
  socket_open: "ares_socket_open node sock nonblocking r = Some (fd, r') \<Longrightarrow> node \<notin> rv_heap r \<Longrightarrow>
    (\<And>x. retry_interrupted sock = Some x \<Longrightarrow> x \<notin> rv_fds r) \<Longrightarrow> resolver_step r r'"
| socket_close: "ares_socket_close fd answers r = Some (Done (rc, r')) \<Longrightarrow> fd \<in> snd ` set (rv_sockets r) \<Longrightarrow>
    answers \<noteq> [] \<Longrightarrow> fst (hd answers) \<in> {0, -1} \<Longrightarrow> resolver_step r r'"
| query: "shuso_resolve_hostname data (\<lambda>_ r. Done r) callback pd r = Done (b, r') \<Longrightarrow> data \<notin> rv_heap r \<Longrightarrow> resolver_step r r'"
| answer: "shuso_resolve_hostname_callback arg status hostent r = Done r' \<Longrightarrow> arg \<in> dom (rv_queries r) \<Longrightarrow> resolver_step r r'"

inductive_cases resolver_stepE: "resolver_step r r'"

definition resolver_initial :: "'h resolver \<Rightarrow> bool" where
  "resolver_initial r \<longleftrightarrow> rv_sockets r = [] \<and> rv_heap r = {} \<and> rv_fds r = {} \<and> rv_watched r = {} \<and>
     rv_queries r = Map.empty \<and> rv_calls r = []"

lemma same_resources_ok: "sockets_ok r \<Longrightarrow> same_resources r r' \<Longrightarrow> sockets_ok r'"
  by (simp add: sockets_ok_def same_resources_def)

lemma resolver_step_ok:
  assumes "sockets_ok r" "resolver_step r r'"
  shows "sockets_ok r'"
  using assms(2)
proof cases
  case (socket_open node sock nonblocking fd)
  then show ?thesis
    using socket_open_cases [OF socket_open(1-3)] same_resources_ok [OF assms(1)] sockets_ok_open [OF assms(1), of node fd] by auto
next
  case (socket_close fd answers rc)
  then show ?thesis using socket_close_ok [OF assms(1) socket_close(2-4)] by auto
next
  case (query data callback pd b)
  have "sockets_ok (r\<lparr>rv_heap := insert data (rv_heap r), rv_queries := (rv_queries r)(data \<mapsto> d)\<rparr>)" for d
    using assms(1) query(2) unfolding sockets_ok_def by simp
  then show ?thesis using query(1) assms(1) by (auto simp: shuso_resolve_hostname_def split: if_splits)
next
  case (answer arg status hostent)
  then have "r' = r\<lparr>rv_calls := rv_calls r', rv_queries := (rv_queries r)(arg := None), rv_heap := rv_heap r - {arg}\<rparr>"
    by (auto simp: shuso_resolve_hostname_callback_def)
  moreover have "sockets_ok (r\<lparr>rv_calls := rv_calls r', rv_queries := (rv_queries r)(arg := None), rv_heap := rv_heap r - {arg}\<rparr>)"
    using assms(1) answer(2) by (auto simp: sockets_ok_def)
  ultimately show ?thesis by metis
qed

interpretation resolver_runs: invariant_system resolver_initial resolver_step sockets_ok
  by unfold_locales (simp add: resolver_initial_def sockets_ok_def, rule resolver_step_ok)

section \<open>Properties\<close>

text \<open>C31: However c-ares opens and closes its sockets and queries begin and are answered, what the resolver has allocated
  are its sockets and the data of the queries that are open, what it watches and what it has open are its sockets, each of
  them once; and a socket of the list can be closed, which takes exactly it away, wherever in the list it is.\<close>

theorem resolver_resources:
  assumes "resolver_initial r0" "resolver_step\<^sup>*\<^sup>* r0 r"
  shows "rv_heap r = fst ` set (rv_sockets r) \<union> dom (rv_queries r) \<and> rv_watched r = fst ` set (rv_sockets r) \<and>
    rv_fds r = snd ` set (rv_sockets r) \<and> distinct (map snd (rv_sockets r)) \<and>
    (\<forall>prev node fd rest e. rv_sockets r = prev @ (node, fd) # rest \<longrightarrow>
       ares_socket_close fd [(0, e)] r = Some (Done (0, r\<lparr>rv_sockets := prev @ rest, rv_watched := rv_watched r - {node},
         rv_heap := rv_heap r - {node}, rv_fds := rv_fds r - {fd}\<rparr>)))"
proof -
  have ok: "sockets_ok r" using resolver_runs.invar_reachable [OF assms] .
  have "ares_socket_close fd [(0, e)] r = Some (Done (0, r\<lparr>rv_sockets := prev @ rest, rv_watched := rv_watched r - {node},
      rv_heap := rv_heap r - {node}, rv_fds := rv_fds r - {fd}\<rparr>))"
    if s: "rv_sockets r = prev @ (node, fd) # rest" for prev node fd rest e
  proof -
    have "fd \<notin> snd ` set prev" using ok s unfolding sockets_ok_def by auto
    then show ?thesis
      unfolding ares_socket_close_def s by (simp add: find_socket_append RESOLVER_EINTR_def)
  qed
  then show ?thesis using ok by (simp add: sockets_ok_def)
qed

text \<open>C32: Setting a resolver up either succeeds, with the channel there and its own memory given back, or fails with no
  channel and no memory kept, whatever failed; an error is set except when there is no memory for the hosts, where the
  failure is silent.\<close>

theorem resolver_init_releases:
  assumes "\<not> rv_channel r" "re_malloc env \<notin> rv_heap r"
  shows "case shuso_resolver_init env cf_hosts r of (ok, r') \<Rightarrow>
    rv_heap r' = rv_heap r \<and> rv_sockets r' = rv_sockets r \<and> rv_channel r' = ok \<and>
    (ok \<longrightarrow> re_init_options env = ARES_SUCCESS \<and> length cf_hosts \<le> 4096 \<and> rv_S r' = rv_S r \<and>
       (cf_hosts \<noteq> [] \<longrightarrow> (\<exists>ns. resolver_hosts cf_hosts = Some ns \<and> length ns = length cf_hosts \<and> re_set_servers env ns = ARES_SUCCESS))) \<and>
    (\<not> ok \<longrightarrow> (rv_S r' = rv_S r) = (re_init_options env = ARES_SUCCESS \<and> cf_hosts \<noteq> [] \<and> length cf_hosts \<le> 4096 \<and> re_malloc env = 0))"
proof -
  have len: "resolver_hosts hs = Some ns \<Longrightarrow> length ns = length hs" for hs ns
    by (induction hs arbitrary: ns) (auto split: option.splits)
  have err: "snd (shuso_set_error msg S) \<noteq> S" for msg S
  proof -
    have "error_count (snd (shuso_set_error msg S)) = error_count S + 1"
      by (simp add: shuso_set_error_def shuso_set_error_internal_vararg_def emit_def Let_def)
    then show ?thesis by (metis add_cancel_right_right zero_neq_one)
  qed
  show ?thesis
    using assms len
    by (auto simp: shuso_resolver_init_def resolver_init_fail_def rv_error_def err Let_def split: option.splits)
qed

text \<open>Two sockets and a query; then the first socket, which is behind the second in the list, is closed.\<close>

definition example_resolver :: "shuso \<Rightarrow> nat resolver" where
  "example_resolver S = \<lparr>rv_S = S, rv_channel = False, rv_sockets = [], rv_heap = {}, rv_fds = {}, rv_watched = {},
     rv_queries = Map.empty, rv_calls = []\<rparr>"

definition example_two_sockets :: "shuso \<Rightarrow> nat resolver" where
  "example_two_sockets S = (example_resolver S)\<lparr>rv_sockets := [(48, 6), (32, 5)], rv_heap := {32, 48}, rv_fds := {5, 6},
     rv_watched := {32, 48}\<rparr>"

theorem resolver_resources_witness:
  "\<forall>S. resolver_step\<^sup>*\<^sup>* (example_resolver S) (example_two_sockets S) \<and>
     ares_socket_close 5 [(0, 0)] (example_two_sockets S) = Some (Done (0, (example_two_sockets S)\<lparr>rv_sockets := [(48, 6)],
       rv_watched := {48}, rv_heap := {48}, rv_fds := {6}\<rparr>))"
proof
  fix S
  let ?r1 = "(example_resolver S)\<lparr>rv_sockets := [(32, 5)], rv_heap := {32}, rv_fds := {5}, rv_watched := {32}\<rparr>"
  have "resolver_step (example_resolver S) ?r1"
    by (rule resolver_step.socket_open [of 32 "[(-1, 4), (5, 0)]" 0 _ 5])
      (simp_all add: ares_socket_open_def example_resolver_def RESOLVER_EINTR_def)
  moreover have "resolver_step ?r1 (example_two_sockets S)"
    by (rule resolver_step.socket_open [of 48 "[(6, 0)]" 0 _ 6])
      (simp_all add: ares_socket_open_def example_resolver_def example_two_sockets_def RESOLVER_EINTR_def insert_commute)
  ultimately have run: "resolver_step\<^sup>*\<^sup>* (example_resolver S) (example_two_sockets S)" by simp
  have init: "resolver_initial (example_resolver S)" by (simp add: resolver_initial_def example_resolver_def)
  have l: "rv_sockets (example_two_sockets S) = [(48, 6)] @ (32, 5) # []" by (simp add: example_two_sockets_def)
  have "ares_socket_close 5 [(0, 0)] (example_two_sockets S) = Some (Done (0, (example_two_sockets S)\<lparr>rv_sockets := [(48, 6)] @ [],
      rv_watched := rv_watched (example_two_sockets S) - {32}, rv_heap := rv_heap (example_two_sockets S) - {32},
      rv_fds := rv_fds (example_two_sockets S) - {5}\<rparr>))"
    using resolver_resources [OF init run] l by blast
  moreover have "rv_watched (example_two_sockets S) - {32} = {48}" "rv_heap (example_two_sockets S) - {32} = {48}"
    "rv_fds (example_two_sockets S) - {5} = {6}" by (auto simp: example_two_sockets_def)
  ultimately show "resolver_step\<^sup>*\<^sup>* (example_resolver S) (example_two_sockets S) \<and>
     ares_socket_close 5 [(0, 0)] (example_two_sockets S) = Some (Done (0, (example_two_sockets S)\<lparr>rv_sockets := [(48, 6)],
       rv_watched := {48}, rv_heap := {48}, rv_fds := {6}\<rparr>))"
    using run by simp
qed

text \<open>No memory for the hosts.\<close>

theorem resolver_init_releases_witness:
  "\<forall>S. \<exists>r'. shuso_resolver_init \<lparr>re_init_options = ARES_SUCCESS, re_malloc = 0, re_set_servers = (\<lambda>_. ARES_SUCCESS)\<rparr>
      [(Sockaddr_in 134744072 53, SOCK_DGRAM)] (example_resolver S) = (False, r') \<and>
    rv_S r' = S \<and> rv_heap r' = {} \<and> \<not> rv_channel r'"
proof
  fix S
  let ?env = "\<lparr>re_init_options = ARES_SUCCESS, re_malloc = 0, re_set_servers = (\<lambda>_. ARES_SUCCESS)\<rparr>"
  let ?res = "shuso_resolver_init ?env [(Sockaddr_in 134744072 53, SOCK_DGRAM)] (example_resolver S)"
  have f: "\<not> fst ?res" by (simp add: shuso_resolver_init_def resolver_init_fail_def Let_def)
  have h: "\<not> rv_channel (example_resolver S)" "re_malloc ?env \<notin> rv_heap (example_resolver S)" "rv_S (example_resolver S) = S"
    "rv_heap (example_resolver S) = {}"
    by (simp_all add: example_resolver_def)
  obtain r' where r: "?res = (False, r')" using f by (cases ?res) simp
  show "\<exists>r'. ?res = (False, r') \<and> rv_S r' = S \<and> rv_heap r' = {} \<and> \<not> rv_channel r'"
    using resolver_init_releases [OF h(1,2), of "[(Sockaddr_in 134744072 53, SOCK_DGRAM)]"] r h(3,4) by simp
qed

end
